(* ===== verification/Prelude.thy ===== *)
theory Prelude
  imports Main "HOL-Library.Monad_Syntax"
begin

text \<open>
  Shared vocabulary of the development.  A Go string and a Go byte slice are both a list of
  bytes, which is HOL's type \<^typ>\<open>char list\<close>; an instant (Go's \<open>time.Time\<close>) is the number of
  nanoseconds since the Unix epoch; a Go \<open>int\<close> or \<open>int64\<close> is an \<^typ>\<open>int\<close> whose wrap-around is
  written out with \<open>wrap64\<close>.  A computation that may panic returns an \<^typ>\<open>'a option\<close>, and
  \<^term>\<open>None\<close> is the panic.  A Go map that a loop ranges over is visited in an unspecified order:
  the order is an argument \<open>ks\<close> of the model, and \<open>map_iter ks m\<close> says that it is one.
\<close>

named_theorems inv_intros \<open>introduction rules for the invariants of the components\<close>
named_theorems codec_simps \<open>round trips and character sets of the encodings\<close>

type_synonym bytes = "char list"
type_synonym time = int

subsection \<open>Sixty-four bit integers\<close>

definition wrap64 :: "int \<Rightarrow> int" where
  "wrap64 z = (z + 2 ^ 63) mod 2 ^ 64 - 2 ^ 63"

definition int64_range :: "int \<Rightarrow> bool" where
  "int64_range z \<longleftrightarrow> - (2 ^ 63) \<le> z \<and> z < 2 ^ 63"

lemma wrap64_in_range [simp, intro]: "int64_range (wrap64 z)"
proof -
  have "0 \<le> (z + 2 ^ 63) mod 2 ^ 64 \<and> (z + 2 ^ 63) mod 2 ^ 64 < 2 ^ 64"
    by simp
  then show ?thesis
    unfolding int64_range_def wrap64_def by simp
qed

lemma wrap64_id [simp]: "int64_range z \<Longrightarrow> wrap64 z = z"
  by (simp add: wrap64_def int64_range_def mod_pos_pos_trivial)

lemma wrap64_cong: "(wrap64 z - z) mod 2 ^ 64 = 0"
proof -
  have "wrap64 z - z = - ((z + 2 ^ 63) div 2 ^ 64) * 2 ^ 64"
    unfolding wrap64_def by (simp add: minus_div_mult_eq_mod [symmetric] algebra_simps)
  then show ?thesis by simp
qed

lemma wrap64_succ_max: "wrap64 (2 ^ 63) = - (2 ^ 63)"
  by (simp add: wrap64_def)

subsection \<open>Maps and the order in which they are visited\<close>

definition map_iter :: "'k list \<Rightarrow> ('k \<rightharpoonup> 'v) \<Rightarrow> bool" where
  "map_iter ks m \<longleftrightarrow> distinct ks \<and> set ks = dom m"

lemma map_iter_distinct: "map_iter ks m \<Longrightarrow> distinct ks"
  by (simp add: map_iter_def)

lemma map_iter_dom: "map_iter ks m \<Longrightarrow> set ks = dom m"
  by (simp add: map_iter_def)

lemma map_iter_exists: "finite (dom m) \<Longrightarrow> \<exists>ks. map_iter ks m"
  by (metis finite_distinct_list map_iter_def)

lemma map_iter_length: "map_iter ks m \<Longrightarrow> length ks = card (dom m)"
  by (metis distinct_card map_iter_def)

text \<open>Restricting a map to the keys with a property, and the map of a property of the values.\<close>

definition map_keep :: "('k \<Rightarrow> 'v \<Rightarrow> bool) \<Rightarrow> ('k \<rightharpoonup> 'v) \<Rightarrow> ('k \<rightharpoonup> 'v)" where
  "map_keep P m = (\<lambda>k. case m k of None \<Rightarrow> None | Some v \<Rightarrow> if P k v then Some v else None)"

lemma map_keep_Some [simp]: "map_keep P m k = Some v \<longleftrightarrow> m k = Some v \<and> P k v"
  by (auto simp: map_keep_def split: option.splits)

lemma map_keep_None: "map_keep P m k = None \<longleftrightarrow> (\<forall>v. m k = Some v \<longrightarrow> \<not> P k v)"
  by (auto simp: map_keep_def split: option.splits)

lemma dom_map_keep: "dom (map_keep P m) = {k. \<exists>v. m k = Some v \<and> P k v}"
  by (auto simp: dom_def)

lemma dom_map_keep_subset: "dom (map_keep P m) \<subseteq> dom m"
  by (auto simp: dom_def)

lemma finite_dom_map_keep [simp]: "finite (dom m) \<Longrightarrow> finite (dom (map_keep P m))"
  by (rule finite_subset [OF dom_map_keep_subset])

lemma map_keep_le: "map_keep P m \<subseteq>\<^sub>m m"
  by (auto simp: map_le_def map_keep_def split: option.splits if_splits)

subsection \<open>Lists\<close>

lemma list_update_swap_set:
  "i < length xs \<Longrightarrow> j < length xs \<Longrightarrow> set (xs[i := xs ! j, j := xs ! i]) = set xs"
  by (auto simp: set_conv_nth nth_list_update) metis+

lemma nth_butlast_last:
  "xs \<noteq> [] \<Longrightarrow> i < length xs \<Longrightarrow> xs ! i = (if i = length xs - 1 then last xs else butlast xs ! i)"
  by (auto simp: last_conv_nth nth_butlast)

lemma set_butlast_distinct:
  "distinct xs \<Longrightarrow> xs \<noteq> [] \<Longrightarrow> set (butlast xs) = set xs - {last xs}"
  by (induction xs rule: rev_induct) auto

subsection \<open>Computations that return\<close>

text \<open>
  \<open>ends r Q\<close>: the computation \<open>r\<close> neither panics nor loops, and its result satisfies \<open>Q\<close>.  The rules
  compute such a statement along the binds of \<open>r\<close>.
\<close>

definition ends :: "'a option \<Rightarrow> ('a \<Rightarrow> bool) \<Rightarrow> bool" where
  "ends r Q = (case r of None \<Rightarrow> False | Some x \<Rightarrow> Q x)"

lemma ends_simps [simp]:
  "ends (Some x) Q = Q x"
  "ends None Q = False"
  "ends (Option.bind r f) Q = ends r (\<lambda>x. ends (f x) Q)"
  "ends (map_option g r) Q = ends r (\<lambda>x. Q (g x))"
  by (simp_all add: ends_def split: option.splits)

lemma ends_iff: "ends r Q \<longleftrightarrow> (\<exists>x. r = Some x \<and> Q x)"
  by (simp add: ends_def split: option.splits)

lemma ends_mono: "ends r Q \<Longrightarrow> (\<And>x. r = Some x \<Longrightarrow> Q x \<Longrightarrow> R x) \<Longrightarrow> ends r R"
  by (auto simp: ends_iff)

lemma ends_mono_pair:
  "ends r Q \<Longrightarrow> (\<And>x e w. r = Some (x, e, w) \<Longrightarrow> Q (x, e, w) \<Longrightarrow> R (x, e, w)) \<Longrightarrow> ends r R"
  by (auto simp: ends_iff)

lemma ends_mono_state:
  "ends r Q \<Longrightarrow> (\<And>e w. r = Some (e, w) \<Longrightarrow> Q (e, w) \<Longrightarrow> R (e, w)) \<Longrightarrow> ends r R"
  by (auto simp: ends_iff)

lemma endsD: "ends r Q \<Longrightarrow> r = Some x \<Longrightarrow> Q x"
  by (simp add: ends_def)

lemma ends_Some: "ends r Q \<Longrightarrow> \<exists>x. r = Some x"
  by (auto simp: ends_iff)

end
