(* ===== verification/GoErrors.thy ===== *)
theory GoErrors
  imports Prelude
begin

text \<open>
  \<open>pkg/errors\<close>: the sentinel errors with their texts, the four structured errors with their codes and HTTP statuses,
  and \<open>errors.Is\<close> over wrapped errors.  \<open>PlainError\<close> is an error made with \<open>fmt.Errorf\<close> or
  \<open>errors.New\<close> at the place of use, \<open>WrappedError\<close> one made with the verb \<open>%w\<close>, \<open>FormattedError\<close> one made
  with the verb \<open>%v\<close>, which keeps the text of its cause only, \<open>JoinedError\<close> one made with \<open>errors.Join\<close>.
\<close>

datatype sentinel =
    KeyNotFoundError | KeyExpiredError | KeyNotIntegerError
  | WalFailedToCreateError | WalFailedToWriteError | WalFailedToReadError | WalFailedToRecover
  | WalFailedToCloseError | WalFailedToSyncError | WalFailedToTruncateError
  | ErrInvalidSnapshotMagic | ErrInvalidSnapshotVersion | ErrSnapshotWriteFailed | ErrSnapshotReadFailed
  | RegexpError

datatype goerr =
    Sentinel sentinel
  | KeyError string goerr string string \<comment> \<open>key, cause, value, operation\<close>
  | WalError string goerr string \<comment> \<open>path, cause, operation\<close>
  | SnapshotError string goerr string \<comment> \<open>path, cause, operation\<close>
  | RegexError string goerr \<comment> \<open>expression, cause\<close>
  | JoinedError "goerr list"
  | WrappedError string goerr
  | FormattedError string goerr
  | PlainError string

text \<open>Strings with a separator between them.\<close>

fun separate :: "'a \<Rightarrow> 'a list \<Rightarrow> 'a list" where
  "separate c (x # y # zs) = x # c # separate c (y # zs)"
| "separate c xs = xs"

fun errors_Is :: "goerr \<Rightarrow> sentinel \<Rightarrow> bool" where
  "errors_Is (Sentinel s) t = (s = t)"
| "errors_Is (KeyError k e v oper) t = errors_Is e t"
| "errors_Is (WalError p e oper) t = errors_Is e t"
| "errors_Is (SnapshotError p e oper) t = errors_Is e t"
| "errors_Is (RegexError x e) t = errors_Is e t"
| "errors_Is (JoinedError es) t = (\<exists>e \<in> set es. errors_Is e t)"
| "errors_Is (WrappedError m e) t = errors_Is e t"
| "errors_Is (FormattedError m e) t = False"
| "errors_Is (PlainError m) t = False"

text \<open>\<open>Unwrap\<close> of the structured errors and of one made with \<open>%w\<close>; \<open>errors.Is\<close> follows it.\<close>

definition Unwrap :: "goerr \<Rightarrow> goerr option" where
  "Unwrap e =
     (case e of
        KeyError k c v oper \<Rightarrow> Some c
      | WalError p c oper \<Rightarrow> Some c
      | SnapshotError p c oper \<Rightarrow> Some c
      | RegexError x c \<Rightarrow> Some c
      | WrappedError m c \<Rightarrow> Some c
      | _ \<Rightarrow> None)"

lemma errors_Is_Unwrap: "Unwrap e = Some c \<Longrightarrow> errors_Is e t = errors_Is c t"
  by (cases e) (simp_all add: Unwrap_def)

definition KeyError_ErrorCode :: "goerr \<Rightarrow> string" where
  "KeyError_ErrorCode cause =
     (if errors_Is cause KeyNotFoundError then ''KEY_NOT_FOUND''
      else if errors_Is cause KeyExpiredError then ''KEY_EXPIRED''
      else if errors_Is cause KeyNotIntegerError then ''KEY_NOT_INTEGER''
      else ''KEY_ERROR'')"

definition KeyError_HTTPStatus :: "goerr \<Rightarrow> nat" where
  "KeyError_HTTPStatus cause =
     (if errors_Is cause KeyNotFoundError then 404
      else if errors_Is cause KeyExpiredError then 410
      else if errors_Is cause KeyNotIntegerError then 400
      else 500)"

text \<open>The code and the status of an error that implements \<open>APIError\<close>.\<close>

definition api_error :: "goerr \<Rightarrow> (string \<times> nat) option" where
  "api_error e =
     (case e of
        KeyError k c v oper \<Rightarrow> Some (KeyError_ErrorCode c, KeyError_HTTPStatus c)
      | WalError p c oper \<Rightarrow> Some (''WAL_ERROR'', 500)
      | SnapshotError p c oper \<Rightarrow> Some (''SNAPSHOT_ERROR'', 500)
      | RegexError x c \<Rightarrow> Some (''INVALID_REGEXP'', 400)
      | _ \<Rightarrow> None)"

text \<open>
  The texts (\<open>Error\<close>).  \<open>quote\<close> is \<open>strconv.Quote\<close>, the verb \<open>%q\<close>, which rests on the Unicode tables of the
  printable characters.
\<close>

fun sentinel_text :: "sentinel \<Rightarrow> string" where
  "sentinel_text KeyNotFoundError = ''key was not found''"
| "sentinel_text KeyExpiredError = ''key has expired''"
| "sentinel_text KeyNotIntegerError = ''key is not an integer''"
| "sentinel_text WalFailedToCreateError = ''wal failed to create''"
| "sentinel_text WalFailedToWriteError = ''wal failed to write''"
| "sentinel_text WalFailedToReadError = ''wal failed to read''"
| "sentinel_text WalFailedToRecover = ''wal failed to recover''"
| "sentinel_text WalFailedToCloseError = ''wal failed to close''"
| "sentinel_text WalFailedToSyncError = ''wal failed to sync''"
| "sentinel_text WalFailedToTruncateError = ''wal failed to truncate''"
| "sentinel_text ErrInvalidSnapshotMagic = ''invalid snapshot magic number''"
| "sentinel_text ErrInvalidSnapshotVersion = ''unsupported snapshot version''"
| "sentinel_text ErrSnapshotWriteFailed = ''failed to write snapshot''"
| "sentinel_text ErrSnapshotReadFailed = ''failed to read snapshot''"
| "sentinel_text RegexpError = ''invalid regexp, compilation failed''"

definition during :: "string \<Rightarrow> string" where
  "during oper = (if oper = [] then [] else ''during '' @ oper @ '': '')"

definition KeyError_Error :: "(string \<Rightarrow> string) \<Rightarrow> string \<Rightarrow> string \<Rightarrow> string \<Rightarrow> string \<Rightarrow> string" where
  "KeyError_Error quote key cause val oper =
     (let details = during oper @ (if val = [] then [] else ''invalid value '' @ quote val @ '': '')
      in ''key error: key '' @ quote key @ '': '' @ details @ cause)"

definition WalError_Error :: "(string \<Rightarrow> string) \<Rightarrow> string \<Rightarrow> string \<Rightarrow> string \<Rightarrow> string" where
  "WalError_Error quote path cause oper = ''wal error at path '' @ quote path @ '': '' @ during oper @ cause"

definition SnapshotError_Error :: "(string \<Rightarrow> string) \<Rightarrow> string \<Rightarrow> string \<Rightarrow> string \<Rightarrow> string" where
  "SnapshotError_Error quote path cause oper =
     (if path = [] then ''snapshot error: '' @ during oper @ cause
      else ''snapshot error at path '' @ quote path @ '': '' @ during oper @ cause)"

definition RegexError_Error :: "(string \<Rightarrow> string) \<Rightarrow> string \<Rightarrow> string \<Rightarrow> string" where
  "RegexError_Error quote regex cause = ''regex error: invalid expression '' @ quote regex @ '': '' @ cause"

fun error_text :: "(string \<Rightarrow> string) \<Rightarrow> goerr \<Rightarrow> string" where
  "error_text quote (Sentinel s) = sentinel_text s"
| "error_text quote (KeyError k e v oper) = KeyError_Error quote k (error_text quote e) v oper"
| "error_text quote (WalError p e oper) = WalError_Error quote p (error_text quote e) oper"
| "error_text quote (SnapshotError p e oper) = SnapshotError_Error quote p (error_text quote e) oper"
| "error_text quote (RegexError x e) = RegexError_Error quote x (error_text quote e)"
| "error_text quote (JoinedError es) = concat (separate [CHR 10] (map (error_text quote) es))"
| "error_text quote (WrappedError m e) = m @ '': '' @ error_text quote e"
| "error_text quote (FormattedError m e) = m @ '': '' @ error_text quote e"
| "error_text quote (PlainError m) = m"

lemma expired_text:
  "error_text quote (KeyError k (Sentinel KeyExpiredError) [] ''GET'') = ''key error: key '' @ quote k @ '': during GET: key has expired''"
  by (simp add: KeyError_Error_def during_def)

text \<open>The errors the engines return for a key.\<close>

abbreviation not_found :: "string \<Rightarrow> string \<Rightarrow> goerr" where
  "not_found key oper \<equiv> KeyError key (Sentinel KeyNotFoundError) [] oper"

abbreviation key_expired :: "string \<Rightarrow> string \<Rightarrow> goerr" where
  "key_expired key oper \<equiv> KeyError key (Sentinel KeyExpiredError) [] oper"

end
