(* ===== verification/GoEncoding.thy ===== *)
theory GoEncoding
  imports Prelude
begin

text \<open>
  What the program uses of Go's standard library to write and read text: \<open>strconv.FormatInt\<close> and
  \<open>strconv.ParseInt\<close> (base 10, 64 bits; \<open>strconv.Atoi\<close> has the same results), \<open>encoding/base64\<close>
  (\<open>StdEncoding\<close>), \<open>url.PathEscape\<close> and \<open>url.PathUnescape\<close>, \<open>strings.Join\<close>, \<open>strings.Split\<close>,
  \<open>strings.HasPrefix\<close> and \<open>strings.HasSuffix\<close>.  The lemmas are the round trips, and the fact that
  an encoded argument never contains the separator of the write-ahead log nor a line end.
\<close>

subsection \<open>Decimal numbers\<close>

definition digit_char :: "nat \<Rightarrow> char" where
  "digit_char d = char_of (48 + d)"

definition char_digit :: "char \<Rightarrow> nat option" where
  "char_digit c = (let n = of_char c :: nat in if 48 \<le> n \<and> n \<le> 57 then Some (n - 48) else None)"

fun nat_digits :: "nat \<Rightarrow> string" where
  "nat_digits n = (if n < 10 then [digit_char n] else nat_digits (n div 10) @ [digit_char (n mod 10)])"

declare nat_digits.simps [simp del]

definition FormatInt :: "int \<Rightarrow> string" where
  "FormatInt z = (if z < 0 then CHR ''-'' # nat_digits (nat (- z)) else nat_digits (nat z))"

datatype num_error = ErrSyntax | ErrRange

fun parse_digits :: "nat \<Rightarrow> string \<Rightarrow> num_error + nat" where
  "parse_digits n [] = Inr n"
| "parse_digits n (c # cs) =
     (case char_digit c of
        None \<Rightarrow> Inl ErrSyntax
      | Some d \<Rightarrow>
          if (2 ^ 64 - 1) div 10 + 1 \<le> n then Inl ErrRange
          else if 2 ^ 64 \<le> n * 10 + d then Inl ErrRange
          else parse_digits (n * 10 + d) cs)"

definition ParseUint :: "string \<Rightarrow> num_error + nat" where
  "ParseUint s = (if s = [] then Inl ErrSyntax else parse_digits 0 s)"

text \<open>
  \<open>strconv.ParseInt\<close> returns a value with the error: zero on a syntax error, the nearest bound on a
  range error.
\<close>

definition split_sign :: "string \<Rightarrow> bool \<times> string" where
  "split_sign s =
     (case s of
        [] \<Rightarrow> (False, [])
      | c # cs \<Rightarrow> if c = CHR ''+'' then (False, cs) else if c = CHR ''-'' then (True, cs) else (False, s))"

definition ParseInt :: "string \<Rightarrow> int \<times> num_error option" where
  "ParseInt s =
     (case split_sign s of (neg, ds) \<Rightarrow>
        (case ParseUint ds of
           Inl ErrSyntax \<Rightarrow> (0, Some ErrSyntax)
         | Inl ErrRange \<Rightarrow> (if neg then - (2 ^ 63) else 2 ^ 63 - 1, Some ErrRange)
         | Inr un \<Rightarrow>
             if \<not> neg \<and> 2 ^ 63 \<le> un then (2 ^ 63 - 1, Some ErrRange)
             else if neg \<and> 2 ^ 63 < un then (- (2 ^ 63), Some ErrRange)
             else (if neg then - int un else int un, None)))"

lemma of_char_digit_char [simp]: "d < 10 \<Longrightarrow> of_char (digit_char d) = (48 + d :: nat)"
  by (simp add: digit_char_def)

lemma char_digit_digit_char [simp]: "d < 10 \<Longrightarrow> char_digit (digit_char d) = Some d"
  by (simp add: char_digit_def)

lemma nat_digits_small [simp]: "n < 10 \<Longrightarrow> nat_digits n = [digit_char n]"
  by (simp add: nat_digits.simps)

lemma nat_digits_nonempty [simp]: "nat_digits n \<noteq> []"
  by (subst nat_digits.simps) simp

definition is_digit :: "char \<Rightarrow> bool" where
  "is_digit c \<longleftrightarrow> char_digit c \<noteq> None"

lemma is_digit_digit_char [simp]: "d < 10 \<Longrightarrow> is_digit (digit_char d)"
  by (simp add: is_digit_def)

lemma nat_digits_are_digits: "list_all is_digit (nat_digits n)"
proof (induction n rule: nat_digits.induct)
  case (1 n)
  then show ?case by (subst nat_digits.simps) auto
qed

lemma parse_digits_append:
  "parse_digits n (xs @ ys) =
     (case parse_digits n xs of Inl e \<Rightarrow> Inl e | Inr m \<Rightarrow> parse_digits m ys)"
  by (induction n xs rule: parse_digits.induct) (auto split: option.splits)

lemma parse_nat_digits: "n < 2 ^ 64 \<Longrightarrow> parse_digits 0 (nat_digits n) = Inr n"
proof (induction n rule: nat_digits.induct)
  case (1 n)
  show ?case
  proof (cases "n < 10")
    case True
    then show ?thesis by simp
  next
    case False
    with 1 have IH: "parse_digits 0 (nat_digits (n div 10)) = Inr (n div 10)" by simp
    have "n div 10 < (2 ^ 64 - 1) div 10 + 1"
      using "1.prems" by (simp add: div_le_mono less_Suc_eq_le)
    moreover have "n div 10 * 10 + n mod 10 = n" by simp
    ultimately show ?thesis
      using IH False "1.prems"
      by (subst nat_digits.simps) (simp add: parse_digits_append)
  qed
qed

lemma nat_digits_head_no_sign:
  assumes "nat_digits n = c # cs" shows "c \<noteq> CHR ''+'' \<and> c \<noteq> CHR ''-''"
proof -
  have "is_digit c" using nat_digits_are_digits [of n] assms by simp
  then show ?thesis by (auto simp: is_digit_def char_digit_def)
qed

lemma split_sign_nat_digits [simp]: "split_sign (nat_digits n) = (False, nat_digits n)"
proof (cases "nat_digits n")
  case (Cons c cs)
  then show ?thesis using nat_digits_head_no_sign [OF Cons] by (simp add: split_sign_def)
qed simp

lemma ParseInt_FormatInt [codec_simps]: "int64_range z \<Longrightarrow> ParseInt (FormatInt z) = (z, None)"
proof -
  assume r: "int64_range z"
  have "nat (- z) < 2 ^ 64" and "nat z < 2 ^ 64" and "nat (- z) \<le> 2 ^ 63" and "nat z < 2 ^ 63 \<or> z < 0"
    using r by (auto simp: int64_range_def)
  then show ?thesis
    by (auto simp: ParseInt_def FormatInt_def ParseUint_def parse_nat_digits split_sign_def [of "_ # _"])
qed

subsection \<open>Base 64\<close>

definition b64_char :: "nat \<Rightarrow> char" where
  "b64_char d =
     (if d < 26 then char_of (65 + d)
      else if d < 52 then char_of (97 + (d - 26))
      else if d < 62 then char_of (48 + (d - 52))
      else if d = 62 then CHR ''+'' else CHR ''/'')"

definition b64_value :: "char \<Rightarrow> nat option" where
  "b64_value c =
     (let n = of_char c :: nat in
      if 65 \<le> n \<and> n \<le> 90 then Some (n - 65)
      else if 97 \<le> n \<and> n \<le> 122 then Some (n - 97 + 26)
      else if 48 \<le> n \<and> n \<le> 57 then Some (n - 48 + 52)
      else if n = 43 then Some 62
      else if n = 47 then Some 63 else None)"

definition byte_of :: "char \<Rightarrow> nat" where
  "byte_of c = of_char c"

fun EncodeToString :: "bytes \<Rightarrow> string" where
  "EncodeToString [] = []"
| "EncodeToString [a] =
     (let x = byte_of a in
      [b64_char (x div 4), b64_char (x mod 4 * 16), CHR ''='', CHR ''=''])"
| "EncodeToString [a, b] =
     (let x = byte_of a; y = byte_of b in
      [b64_char (x div 4), b64_char (x mod 4 * 16 + y div 16), b64_char (y mod 16 * 4), CHR ''=''])"
| "EncodeToString (a # b # c # r) =
     (let x = byte_of a; y = byte_of b; z = byte_of c in
      [b64_char (x div 4), b64_char (x mod 4 * 16 + y div 16),
       b64_char (y mod 16 * 4 + z div 64), b64_char (z mod 64)] @ EncodeToString r)"

text \<open>
  \<open>DecodeString\<close> ignores line ends, decodes quanta of four characters and, on corrupt input,
  returns what it decoded so far together with an error (here \<open>False\<close>).
\<close>

fun b64_quanta :: "string \<Rightarrow> bytes \<times> bool" where
  "b64_quanta [] = ([], True)"
| "b64_quanta (p # q # r # s # rest) =
     (case (b64_value p, b64_value q) of
        (Some x, Some y) \<Rightarrow>
          (case b64_value r of
             Some z \<Rightarrow>
               (case b64_value s of
                  Some w \<Rightarrow>
                    (case b64_quanta rest of (bs, ok) \<Rightarrow>
                       (char_of (x * 4 + y div 16) # char_of (y mod 16 * 16 + z div 4)
                          # char_of (z mod 4 * 64 + w) # bs, ok))
                | None \<Rightarrow>
                    if s = CHR ''=''
                    then ([char_of (x * 4 + y div 16), char_of (y mod 16 * 16 + z div 4)], rest = [])
                    else ([], False))
           | None \<Rightarrow>
               if r = CHR ''='' \<and> s = CHR ''='' then ([char_of (x * 4 + y div 16)], rest = [])
               else ([], False))
      | _ \<Rightarrow> ([], False))"
| "b64_quanta _ = ([], False)"

definition DecodeString :: "string \<Rightarrow> bytes \<times> bool" where
  "DecodeString s = b64_quanta (filter (\<lambda>c. c \<noteq> CHR 10 \<and> c \<noteq> CHR 13) s)"

lemma of_char_char_of_small: "n < 256 \<Longrightarrow> of_char (char_of (n :: nat)) = n"
  by simp

lemma b64_value_char [simp]:
  assumes "d < 64" shows "b64_value (b64_char d) = Some d"
proof -
  consider "d < 26" | "26 \<le> d" "d < 52" | "52 \<le> d" "d < 62" | "d = 62" | "d = 63"
    using assms by linarith
  then show ?thesis
    by cases (auto simp: b64_value_def b64_char_def Let_def)
qed

lemma byte_of_less [simp]: "byte_of c < 256"
  by (simp add: byte_of_def)

lemma char_of_byte_of [simp]: "char_of (byte_of c) = c"
  by (simp add: byte_of_def)

text \<open>The bit fields of the three bytes of a quantum, put together again.\<close>

lemma byte_fields [simp]:
  "byte_of c div 16 div 16 = 0" "byte_of c div 64 div 4 = 0"
  "byte_of c div 16 mod 16 = byte_of c div 16" "byte_of c div 64 mod 4 = byte_of c div 64"
proof -
  have "byte_of c div 16 < 16" and "byte_of c div 64 < 4"
    by (simp_all add: less_mult_imp_div_less)
  then show "byte_of c div 16 div 16 = 0" and "byte_of c div 64 div 4 = 0"
    and "byte_of c div 16 mod 16 = byte_of c div 16" and "byte_of c div 64 mod 4 = byte_of c div 64"
    by simp_all
qed

lemma pack_less: "m < a \<Longrightarrow> y < k \<Longrightarrow> m * k + y < a * (k :: nat)"
  by (metis add.commute div_less_iff_less_mult div_mult_self1 div_less add_0 gr_implies_not0 neq0_conv)

lemma b64_field_bounds [simp]:
  "byte_of a div 4 < 64" "byte_of a mod 4 * 16 + byte_of b div 16 < 64"
  "byte_of b mod 16 * 4 + byte_of c div 64 < 64" "byte_of a mod 4 * 16 < 64"
  "byte_of b mod 16 * 4 < 64" "byte_of c mod 64 < 64"
  using pack_less [of "byte_of a mod 4" 4 "byte_of b div 16" 16]
    pack_less [of "byte_of b mod 16" 16 "byte_of c div 64" 4]
    pack_less [of "byte_of a mod 4" 4 0 16] pack_less [of "byte_of b mod 16" 16 0 4]
  by (simp_all add: less_mult_imp_div_less)

lemma b64_value_pad [simp]: "b64_value (CHR ''='') = None"
  by (simp add: b64_value_def)

lemma b64_quanta_encode: "b64_quanta (EncodeToString bs) = (bs, True)"
  by (induction bs rule: EncodeToString.induct) (simp_all add: Let_def)

text \<open>The characters a log argument may hold: neither the separator nor a line end.\<close>

definition wal_char :: "char \<Rightarrow> bool" where
  "wal_char c \<longleftrightarrow> c \<noteq> CHR ''|'' \<and> c \<noteq> CHR 10 \<and> c \<noteq> CHR 13"

definition wal_safe :: "string \<Rightarrow> bool" where
  "wal_safe s \<longleftrightarrow> list_all wal_char s"

lemma wal_safe_Nil [codec_simps]: "wal_safe []"
  by (simp add: wal_safe_def)

lemma wal_safe_Cons [codec_simps]: "wal_safe (c # s) \<longleftrightarrow> wal_char c \<and> wal_safe s"
  by (simp add: wal_safe_def)

lemma wal_safe_append [codec_simps]: "wal_safe (s @ t) \<longleftrightarrow> wal_safe s \<and> wal_safe t"
  by (simp add: wal_safe_def)

lemma wal_char_b64 [simp]: "d < 64 \<Longrightarrow> wal_char (b64_char d)"
  using b64_value_char [of d] by (auto simp: wal_char_def b64_value_def Let_def split: if_splits)

lemma wal_char_pad [simp]: "wal_char (CHR ''='')"
  by (simp add: wal_char_def)

lemma wal_safe_EncodeToString [codec_simps]: "wal_safe (EncodeToString bs)"
  by (induction bs rule: EncodeToString.induct) (simp_all add: Let_def codec_simps)

lemma filter_line_ends: "wal_safe s \<Longrightarrow> filter (\<lambda>c. c \<noteq> CHR 10 \<and> c \<noteq> CHR 13) s = s"
  by (auto simp: wal_safe_def wal_char_def list_all_iff filter_id_conv)

lemma DecodeString_EncodeToString [codec_simps]: "DecodeString (EncodeToString bs) = (bs, True)"
  by (simp add: DecodeString_def filter_line_ends wal_safe_EncodeToString b64_quanta_encode)

subsection \<open>Path escaping\<close>

definition hex_char :: "nat \<Rightarrow> char" where
  "hex_char d = (if d < 10 then char_of (48 + d) else char_of (65 + (d - 10)))"

definition hex_value :: "char \<Rightarrow> nat option" where
  "hex_value c =
     (let n = of_char c :: nat in
      if 48 \<le> n \<and> n \<le> 57 then Some (n - 48)
      else if 97 \<le> n \<and> n \<le> 102 then Some (n - 97 + 10)
      else if 65 \<le> n \<and> n \<le> 70 then Some (n - 65 + 10) else None)"

definition path_plain :: "char \<Rightarrow> bool" where
  "path_plain c =
     (let n = of_char c :: nat in
      (97 \<le> n \<and> n \<le> 122) \<or> (65 \<le> n \<and> n \<le> 90) \<or> (48 \<le> n \<and> n \<le> 57) \<or>
      c \<in> set ''-_.~'' \<or> c \<in> set ''$&+:=@'')"

fun PathEscape :: "string \<Rightarrow> string" where
  "PathEscape [] = []"
| "PathEscape (c # cs) =
     (if path_plain c then c # PathEscape cs
      else CHR ''%'' # hex_char (byte_of c div 16) # hex_char (byte_of c mod 16) # PathEscape cs)"

fun PathUnescape :: "string \<Rightarrow> string option" where
  "PathUnescape [] = Some []"
| "PathUnescape (c # cs) =
     (if c = CHR ''%'' then
        (case cs of
           h # l # rest \<Rightarrow>
             (case (hex_value h, hex_value l) of
                (Some x, Some y) \<Rightarrow> map_option ((#) (char_of (x * 16 + y))) (PathUnescape rest)
              | _ \<Rightarrow> None)
         | _ \<Rightarrow> None)
      else map_option ((#) c) (PathUnescape cs))"

lemma hex_value_char [simp]: "d < 16 \<Longrightarrow> hex_value (hex_char d) = Some d"
  by (auto simp: hex_value_def hex_char_def Let_def)

lemma hex_fields [simp]: "byte_of c div 16 < 16" "byte_of c mod 16 < 16"
  using byte_of_less [of c] by presburger+

lemma path_plain_percent [simp]: "path_plain c \<Longrightarrow> c \<noteq> CHR ''%''"
  by (auto simp: path_plain_def Let_def)

lemma PathUnescape_PathEscape [codec_simps]: "PathUnescape (PathEscape s) = Some s"
  by (induction s) (auto simp: div_mult_mod_eq)

lemma wal_char_hex [simp]: "d < 16 \<Longrightarrow> wal_char (hex_char d)"
  using hex_value_char [of d] by (auto simp: wal_char_def hex_value_def Let_def split: if_splits)

lemma wal_char_plain [simp]: "path_plain c \<Longrightarrow> wal_char c"
  by (auto simp: path_plain_def wal_char_def Let_def)

lemma wal_char_percent [simp]: "wal_char (CHR ''%'')"
  by (simp add: wal_char_def)

lemma wal_safe_PathEscape [codec_simps]: "wal_safe (PathEscape s)"
  by (induction s) (auto simp: codec_simps)

text \<open>The callers use the escaped text itself when it cannot be read, or the empty string.\<close>

definition unescape_or_raw :: "string \<Rightarrow> string" where
  "unescape_or_raw s = (case PathUnescape s of None \<Rightarrow> s | Some k \<Rightarrow> k)"

definition unescape_or_empty :: "string \<Rightarrow> string" where
  "unescape_or_empty s = (case PathUnescape s of None \<Rightarrow> [] | Some k \<Rightarrow> k)"

lemma unescape_PathEscape [codec_simps]:
  "unescape_or_raw (PathEscape k) = k" "unescape_or_empty (PathEscape k) = k"
  by (simp_all add: unescape_or_raw_def unescape_or_empty_def codec_simps)

definition decode_or_raw :: "string \<Rightarrow> bytes" where
  "decode_or_raw s = (case DecodeString s of (bs, ok) \<Rightarrow> if ok then bs else s)"

lemma decode_or_raw_encode [codec_simps]: "decode_or_raw (EncodeToString bs) = bs"
  by (simp add: decode_or_raw_def codec_simps)

subsection \<open>Prefixes, suffixes, joining and splitting\<close>

definition HasPrefix :: "string \<Rightarrow> string \<Rightarrow> bool" where
  "HasPrefix s p \<longleftrightarrow> length p \<le> length s \<and> take (length p) s = p"

definition HasSuffix :: "string \<Rightarrow> string \<Rightarrow> bool" where
  "HasSuffix s p \<longleftrightarrow> length p \<le> length s \<and> drop (length s - length p) s = p"

lemma HasPrefix_iff: "HasPrefix s p \<longleftrightarrow> (\<exists>r. s = p @ r)"
  by (metis HasPrefix_def append_eq_conv_conj append_take_drop_id length_append le_add1)

lemma HasSuffix_iff: "HasSuffix s p \<longleftrightarrow> (\<exists>r. s = r @ p)"
  unfolding HasSuffix_def
  by (metis append_eq_conv_conj append_take_drop_id diff_add_inverse2 le_add2 length_append)

text \<open>\<open>strings.Join\<close> and \<open>strings.Split\<close> with a separator of one character.\<close>

fun join_char :: "char \<Rightarrow> string list \<Rightarrow> string" where
  "join_char c [] = []"
| "join_char c [p] = p"
| "join_char c (p # ps) = p @ c # join_char c ps"

fun split_char :: "char \<Rightarrow> string \<Rightarrow> string list" where
  "split_char c [] = [[]]"
| "split_char c (x # xs) =
     (if x = c then [] # split_char c xs
      else (case split_char c xs of [] \<Rightarrow> [[x]] | p # ps \<Rightarrow> (x # p) # ps))"

lemma split_char_nonempty [simp]: "split_char c s \<noteq> []"
  by (induction s) (auto split: list.splits)

lemma split_char_plain: "c \<notin> set s \<Longrightarrow> split_char c s = [s]"
  by (induction s) auto

lemma split_char_append: "c \<notin> set p \<Longrightarrow> split_char c (p @ c # s) = p # split_char c s"
  by (induction p) auto

lemma split_join: "ps \<noteq> [] \<Longrightarrow> \<forall>p \<in> set ps. c \<notin> set p \<Longrightarrow> split_char c (join_char c ps) = ps"
  by (induction c ps rule: join_char.induct) (simp_all add: split_char_plain split_char_append)

end
