(* ===== verification/Interfaces.thy ===== *)
theory Interfaces
  imports GoErrors GoEncoding
begin

text \<open>
  The interfaces between the components, as locales.

  \<open>expiry_queue\<close> is what an engine needs of its expiration heap: a pushed entry gets a fresh address,
  an entry is removed by its address, neither changes the key or the time of any other entry.  The
  lemmas of the locale are about an engine's \<open>expirationMap\<close> kept next to such a queue.

  \<open>wal_logger\<close> is the Go interface \<open>persistence.WalLogger\<close> with its contract: a call that returns no
  error appends one entry to what the logger holds, a call that returns an error appends nothing.
\<close>

subsection \<open>The queue of expirations\<close>

text \<open>The map and the queue point at each other; the instants at which the keys expire.\<close>

definition tracked :: "nat set \<Rightarrow> (string \<times> time) list \<Rightarrow> (string \<rightharpoonup> nat) \<Rightarrow> bool" where
  "tracked lv py m \<longleftrightarrow>
     (\<forall>k a. m k = Some a \<longrightarrow> a \<in> lv \<and> fst (py ! a) = k) \<and> (\<forall>a \<in> lv. m (fst (py ! a)) = Some a)"

definition due :: "(string \<times> time) list \<Rightarrow> (string \<rightharpoonup> nat) \<Rightarrow> (string \<rightharpoonup> time)" where
  "due py m = (\<lambda>k. map_option (\<lambda>a. snd (py ! a)) (m k))"

lemma due_None [simp]: "due py m k = None \<longleftrightarrow> m k = None"
  by (simp add: due_def)

lemma trackedI:
  "(\<And>k a. m k = Some a \<Longrightarrow> a \<in> lv \<and> fst (py ! a) = k) \<Longrightarrow> (\<And>a. a \<in> lv \<Longrightarrow> m (fst (py ! a)) = Some a) \<Longrightarrow>
   tracked lv py m"
  by (simp add: tracked_def)

lemma trackedD:
  "tracked lv py m \<Longrightarrow> m k = Some a \<Longrightarrow> a \<in> lv \<and> fst (py ! a) = k"
  "tracked lv py m \<Longrightarrow> a \<in> lv \<Longrightarrow> m (fst (py ! a)) = Some a"
  by (simp_all add: tracked_def)

lemma tracked_empty [simp]: "tracked {} py Map.empty"
  by (simp add: tracked_def)

locale expiry_queue =
  fixes inv :: "'h \<Rightarrow> bool"
    and live :: "'h \<Rightarrow> nat set"
    and pay :: "'h \<Rightarrow> (string \<times> time) list"
    and new :: "string \<Rightarrow> time \<Rightarrow> 'h \<Rightarrow> nat \<times> 'h"
    and rem :: "nat \<Rightarrow> 'h \<Rightarrow> 'h option"
  assumes live_bound: "inv h \<Longrightarrow> a \<in> live h \<Longrightarrow> a < length (pay h)"
    and new_spec: "inv h \<Longrightarrow> new k t h = (a, h') \<Longrightarrow>
      a = length (pay h) \<and> inv h' \<and> pay h' = pay h @ [(k, t)] \<and> live h' = insert a (live h)"
    and rem_spec: "inv h \<Longrightarrow> a \<in> live h \<Longrightarrow>
      \<exists>h'. rem a h = Some h' \<and> inv h' \<and> pay h' = pay h \<and> live h' = live h - {a}"
begin

lemma tracked_new:
  assumes "inv h" "tracked (live h) (pay h) m" "m k = None" "new k t h = (a, h')"
  shows "inv h' \<and> tracked (live h') (pay h') (m(k \<mapsto> a)) \<and>
    due (pay h') (m(k \<mapsto> a)) = (due (pay h) m)(k \<mapsto> t)"
proof -
  note s = new_spec [OF assms(1,4)]
  have old: "pay h' ! b = pay h ! b" if "b \<in> live h" for b
    using s live_bound [OF assms(1) that] by (simp add: nth_append)
  have a: "pay h' ! a = (k, t)" using s by simp
  have lv: "live h' = insert a (live h)" using s by simp
  have "tracked (live h') (pay h') (m(k \<mapsto> a))"
  proof (rule trackedI)
    fix k' b assume "(m(k \<mapsto> a)) k' = Some b"
    then show "b \<in> live h' \<and> fst (pay h' ! b) = k'"
      using trackedD(1) [OF assms(2), of k' b] old [of b] a lv by (auto split: if_splits)
  next
    fix b assume b: "b \<in> live h'"
    show "(m(k \<mapsto> a)) (fst (pay h' ! b)) = Some b"
    proof (cases "b = a")
      case True
      then show ?thesis using a by simp
    next
      case False
      then have "m (fst (pay h ! b)) = Some b" and "pay h' ! b = pay h ! b"
        using trackedD(2) [OF assms(2)] b lv old by auto
      then show ?thesis using assms(3) by auto
    qed
  qed
  moreover have "due (pay h') (m(k \<mapsto> a)) = (due (pay h) m)(k \<mapsto> t)"
  proof
    fix k' show "due (pay h') (m(k \<mapsto> a)) k' = ((due (pay h) m)(k \<mapsto> t)) k'"
    proof (cases "m k'")
      case None
      then show ?thesis using a by (simp add: due_def)
    next
      case (Some b)
      then have "pay h' ! b = pay h ! b" using old trackedD(1) [OF assms(2)] by blast
      then show ?thesis using Some a by (simp add: due_def)
    qed
  qed
  ultimately show ?thesis using s by simp
qed

lemma tracked_rem:
  assumes "inv h" "tracked (live h) (pay h) m" "m k = Some a"
  shows "\<exists>h'. rem a h = Some h' \<and> inv h' \<and> tracked (live h') (pay h') (m(k := None)) \<and>
    due (pay h') (m(k := None)) = (due (pay h) m)(k := None)"
proof -
  have a: "a \<in> live h" "fst (pay h ! a) = k" using trackedD(1) [OF assms(2,3)] by simp_all
  obtain h' where h': "rem a h = Some h'" "inv h'" "pay h' = pay h" "live h' = live h - {a}"
    using rem_spec [OF assms(1) a(1)] by auto
  have "tracked (live h') (pay h') (m(k := None))"
  proof (rule trackedI)
    fix k' b assume "(m(k := None)) k' = Some b"
    then have "m k' = Some b" "k' \<noteq> k" by (auto split: if_splits)
    then show "b \<in> live h' \<and> fst (pay h' ! b) = k'"
      using trackedD(1) [OF assms(2), of k' b] a(2) h'(3,4) by auto
  next
    fix b assume b: "b \<in> live h'"
    then have "m (fst (pay h ! b)) = Some b" "b \<noteq> a"
      using trackedD(2) [OF assms(2)] h'(4) by auto
    then show "(m(k := None)) (fst (pay h' ! b)) = Some b"
      using assms(3) h'(3) by auto
  qed
  moreover have "due (pay h') (m(k := None)) = (due (pay h) m)(k := None)"
    unfolding due_def h'(3) by auto
  ultimately show ?thesis using h'(1,2) by blast
qed

lemma tracked_fresh:
  assumes "inv h" "tracked (live h) (pay h) m" "b \<in> live h"
  shows "m (fst (pay h ! b)) = Some b \<and> due (pay h) m (fst (pay h ! b)) = Some (snd (pay h ! b))"
  using trackedD(2) [OF assms(2,3)] by (simp add: due_def)

end

subsection \<open>The write-ahead log seen by an engine\<close>

type_synonym wal_entry = "string \<times> string \<times> string list" \<comment> \<open>engine, action, arguments\<close>

type_synonym 'w logger = "string \<Rightarrow> string \<Rightarrow> string list \<Rightarrow> 'w \<Rightarrow> goerr option \<times> 'w"

locale wal_logger =
  fixes log :: "'w logger"
    and emit :: "string \<Rightarrow> string \<Rightarrow> string list \<Rightarrow> 'e"
    and entries :: "'w \<Rightarrow> 'e list"
  assumes log_ok: "log e a args w = (None, w') \<Longrightarrow> entries w' = entries w @ [emit e a args]"
    and log_err: "log e a args w = (Some err, w') \<Longrightarrow> entries w' = entries w"
begin

lemma log_entries:
  "log e a args w = (r, w') \<Longrightarrow> entries w' = entries w @ (if r = None then [emit e a args] else [])"
  by (cases r) (auto dest: log_ok log_err)

end

text \<open>A logger that never fails.\<close>

locale reliable_logger =
  fixes lg :: "'w logger"
  assumes no_error: "fst (lg e a args w) = None"
begin

lemma logged: obtains w' where "lg e a args w = (None, w')"
  using no_error [of e a args w] by (metis prod.collapse)

end

text \<open>
  A durable log is a logger whose entries can be read back: it never fails, and an entry made of safe
  arguments (no separator and no line end) is read as the call that wrote it.
\<close>

definition read_log :: "('e \<Rightarrow> wal_entry option) \<Rightarrow> 'e list \<Rightarrow> wal_entry list" where
  "read_log read es = List.map_filter read es"

lemma read_log_append [simp]: "read_log read (xs @ ys) = read_log read xs @ read_log read ys"
  by (simp add: read_log_def map_filter_def)

lemma read_log_single: "read_log read [x] = (case read x of None \<Rightarrow> [] | Some e \<Rightarrow> [e])"
  by (simp add: read_log_def map_filter_def split: option.splits)

locale durable_log = wal_logger log emit entries
  for log :: "'w logger"
    and emit :: "string \<Rightarrow> string \<Rightarrow> string list \<Rightarrow> 'e"
    and entries :: "'w \<Rightarrow> 'e list" +
  fixes read :: "'e \<Rightarrow> wal_entry option"
  assumes reliable: "fst (log e a args w) = None"
    and read_emit: "wal_safe e \<Longrightarrow> wal_safe a \<Longrightarrow> \<forall>x \<in> set args. wal_safe x \<Longrightarrow>
      read (emit e a args) = Some (e, a, args)"
begin

lemma log_no_err: "log e a args w = (r, w') \<Longrightarrow> r = None"
  using reliable [of e a args w] by simp

lemma written_log:
  assumes "log e a args w = (r, w')" "wal_safe e" "wal_safe a" "\<forall>x \<in> set args. wal_safe x"
  shows "read_log read (entries w') = read_log read (entries w) @ [(e, a, args)]"
  using log_entries [OF assms(1)] log_no_err [OF assms(1)] read_emit [OF assms(2,3,4)]
  by (simp add: read_log_single)

end

sublocale durable_log \<subseteq> reliable_logger log
  by unfold_locales (rule reliable)

end
