(* ===== verification/ExpirationHeap.thy ===== *)
theory ExpirationHeap
  imports Interfaces
begin

text \<open>
  The expiration heap of an engine: \<open>heap.go\<close> (the same file in the packages \<open>storage\<close>,
  \<open>list_storage\<close>, \<open>set_storage\<close> and \<open>zset_storage\<close>, up to the names of the types) and what it uses of
  Go's \<open>container/heap\<close>.  The heap is a slice of pointers to entries, and the engine's
  \<open>expirationMap\<close> holds the same pointers; each entry records its own position in the slice.  The
  model keeps the aliasing: entries live in a store \<open>cells\<close>, a pointer is a position of the store,
  the slice \<open>slots\<close> holds pointers.  \<open>heap_Remove\<close> with a position outside the slice panics in Go
  and is \<^term>\<open>None\<close> here.
\<close>

record ExpirationEntry =
  entry_key :: string
  entry_expiresAt :: time
  entry_index :: int

record ExpirationHeap =
  cells :: "ExpirationEntry list"
  slots :: "nat list"

subsection \<open>heap.Interface\<close>

definition NewExpirationEntry :: "string \<Rightarrow> time \<Rightarrow> ExpirationEntry" where
  "NewExpirationEntry key t = \<lparr>entry_key = key, entry_expiresAt = t, entry_index = 0\<rparr>"

definition empty_heap :: ExpirationHeap where
  "empty_heap = \<lparr>cells = [], slots = []\<rparr>"

definition SetIndex :: "nat \<Rightarrow> int \<Rightarrow> ExpirationHeap \<Rightarrow> ExpirationHeap" where
  "SetIndex a i h = h\<lparr>cells := (cells h)[a := (cells h ! a)\<lparr>entry_index := i\<rparr>]\<rparr>"

definition heap_Len :: "ExpirationHeap \<Rightarrow> nat" where
  "heap_Len h = length (slots h)"

definition heap_Less :: "ExpirationHeap \<Rightarrow> nat \<Rightarrow> nat \<Rightarrow> bool" where
  "heap_Less h i j \<longleftrightarrow>
     entry_expiresAt (cells h ! (slots h ! i)) < entry_expiresAt (cells h ! (slots h ! j))"

definition heap_Swap :: "nat \<Rightarrow> nat \<Rightarrow> ExpirationHeap \<Rightarrow> ExpirationHeap" where
  "heap_Swap i j h =
     (let h1 = h\<lparr>slots := (slots h)[i := slots h ! j, j := slots h ! i]\<rparr>;
          h2 = SetIndex (slots h1 ! i) (int i) h1
      in SetIndex (slots h1 ! j) (int j) h2)"

definition ExpirationHeap_Push :: "nat \<Rightarrow> ExpirationHeap \<Rightarrow> ExpirationHeap" where
  "ExpirationHeap_Push a h =
     (let h1 = SetIndex a (int (heap_Len h)) h in h1\<lparr>slots := slots h1 @ [a]\<rparr>)"

definition ExpirationHeap_Pop :: "ExpirationHeap \<Rightarrow> ExpirationHeap" where
  "ExpirationHeap_Pop h =
     (let h1 = SetIndex (last (slots h)) (-1) h in h1\<lparr>slots := butlast (slots h1)\<rparr>)"

subsection \<open>container/heap\<close>

definition parent :: "nat \<Rightarrow> nat" where
  "parent j = (j - 1) div 2"

lemma parent_less: "0 < j \<Longrightarrow> parent j < j"
  by (simp add: parent_def less_mult_imp_div_less)

lemma parent_0 [simp]: "parent 0 = 0"
  by (simp add: parent_def)

function heap_up :: "nat \<Rightarrow> ExpirationHeap \<Rightarrow> ExpirationHeap" where
  "heap_up j h =
     (if parent j = j \<or> \<not> heap_Less h j (parent j) then h
      else heap_up (parent j) (heap_Swap (parent j) j h))"
  by pat_completeness auto
termination
proof (relation "measure fst")
  fix j h assume "\<not> (parent j = j \<or> \<not> heap_Less h j (parent j))"
  then have "0 < j" by (cases j) simp_all
  then show "((parent j, heap_Swap (parent j) j h), (j, h)) \<in> measure fst"
    by (simp add: parent_less)
qed simp

definition least_child :: "ExpirationHeap \<Rightarrow> nat \<Rightarrow> nat \<Rightarrow> nat" where
  "least_child h n i =
     (if 2 * i + 2 < n \<and> heap_Less h (2 * i + 2) (2 * i + 1) then 2 * i + 2 else 2 * i + 1)"

function down_loop :: "nat \<Rightarrow> nat \<Rightarrow> ExpirationHeap \<Rightarrow> ExpirationHeap \<times> nat" where
  "down_loop i n h =
     (if n \<le> 2 * i + 1 then (h, i)
      else if \<not> heap_Less h (least_child h n i) i then (h, i)
      else down_loop (least_child h n i) n (heap_Swap i (least_child h n i) h))"
  by pat_completeness auto
termination
  by (relation "measure (\<lambda>(i, n, h). n - i)") (auto simp: least_child_def)

declare heap_up.simps [simp del] down_loop.simps [simp del]

definition heap_down :: "nat \<Rightarrow> nat \<Rightarrow> ExpirationHeap \<Rightarrow> ExpirationHeap \<times> bool" where
  "heap_down i n h = (case down_loop i n h of (h', i') \<Rightarrow> (h', i < i'))"

definition heap_Push :: "nat \<Rightarrow> ExpirationHeap \<Rightarrow> ExpirationHeap" where
  "heap_Push a h = (let h1 = ExpirationHeap_Push a h in heap_up (heap_Len h1 - 1) h1)"

definition heap_Remove :: "int \<Rightarrow> ExpirationHeap \<Rightarrow> ExpirationHeap option" where
  "heap_Remove i h =
     (if 0 \<le> i \<and> i < int (heap_Len h) then
        let n = heap_Len h - 1; k = nat i in
        if n = k then Some (ExpirationHeap_Pop h)
        else (case heap_down k n (heap_Swap k n h) of
                (h1, moved) \<Rightarrow> Some (ExpirationHeap_Pop (if moved then h1 else heap_up k h1)))
      else None)"

text \<open>A new entry is allocated and pushed; its address is returned for the \<open>expirationMap\<close>.\<close>

definition push_new_entry :: "string \<Rightarrow> time \<Rightarrow> ExpirationHeap \<Rightarrow> nat \<times> ExpirationHeap" where
  "push_new_entry key t h =
     (length (cells h), heap_Push (length (cells h)) (h\<lparr>cells := cells h @ [NewExpirationEntry key t]\<rparr>))"

subsection \<open>The keys and times of the entries, and the order\<close>

definition payload :: "ExpirationHeap \<Rightarrow> (string \<times> time) list" where
  "payload h = map (\<lambda>e. (entry_key e, entry_expiresAt e)) (cells h)"

definition times :: "ExpirationHeap \<Rightarrow> time list" where
  "times h = map (\<lambda>a. entry_expiresAt (cells h ! a)) (slots h)"

definition slots_wf :: "ExpirationHeap \<Rightarrow> bool" where
  "slots_wf h \<longleftrightarrow> distinct (slots h) \<and> (\<forall>a \<in> set (slots h). a < length (cells h))"

definition index_ok :: "ExpirationHeap \<Rightarrow> bool" where
  "index_ok h \<longleftrightarrow> (\<forall>i < length (slots h). entry_index (cells h ! (slots h ! i)) = int i)"

definition ordered_upto :: "nat \<Rightarrow> time list \<Rightarrow> bool" where
  "ordered_upto n ts \<longleftrightarrow> (\<forall>k < n. 0 < k \<longrightarrow> ts ! parent k \<le> ts ! k)"

definition heap_inv :: "ExpirationHeap \<Rightarrow> bool" where
  "heap_inv h \<longleftrightarrow> slots_wf h \<and> index_ok h \<and> ordered_upto (length (slots h)) (times h)"

lemma payload_length [simp]: "length (payload h) = length (cells h)"
  by (simp add: payload_def)

lemma times_length [simp]: "length (times h) = length (slots h)"
  by (simp add: times_def)

lemma payload_SetIndex [simp]: "payload (SetIndex a i h) = payload h"
proof (cases "a < length (cells h)")
  case True
  have "f (cells h ! a) = map f (cells h) ! a" for f :: "ExpirationEntry \<Rightarrow> string \<times> time"
    using True by simp
  then show ?thesis
    using True by (simp add: payload_def SetIndex_def map_update list_update_same_conv)
qed (simp add: payload_def SetIndex_def not_less list_update_beyond)

lemma payload_slots_upd [simp]: "payload (h\<lparr>slots := s\<rparr>) = payload h"
  by (simp add: payload_def)

lemma slots_SetIndex [simp]: "slots (SetIndex a i h) = slots h"
  by (simp add: SetIndex_def)

lemma length_cells_SetIndex [simp]: "length (cells (SetIndex a i h)) = length (cells h)"
  by (simp add: SetIndex_def)

lemma expiresAt_SetIndex [simp]:
  "entry_expiresAt (cells (SetIndex a i h) ! b) = entry_expiresAt (cells h ! b)"
  by (cases "a < length (cells h)") (auto simp: SetIndex_def nth_list_update not_less list_update_beyond)

lemma index_SetIndex:
  "a < length (cells h) \<Longrightarrow>
   entry_index (cells (SetIndex a i h) ! b) = (if b = a then i else entry_index (cells h ! b))"
  by (auto simp: SetIndex_def nth_list_update)

lemma heap_Less_times: "i < length (slots h) \<Longrightarrow> j < length (slots h) \<Longrightarrow>
    heap_Less h i j \<longleftrightarrow> times h ! i < times h ! j"
  by (simp add: heap_Less_def times_def)

definition swap :: "nat \<Rightarrow> nat \<Rightarrow> 'a list \<Rightarrow> 'a list" where
  "swap i j xs = xs[i := xs ! j, j := xs ! i]"

lemma length_swap [simp]: "length (swap i j xs) = length xs"
  by (simp add: swap_def)

lemma nth_swap: "i < length xs \<Longrightarrow> j < length xs \<Longrightarrow> k < length xs \<Longrightarrow>
    swap i j xs ! k = (if k = i then xs ! j else if k = j then xs ! i else xs ! k)"
  by (auto simp: swap_def nth_list_update)

lemma set_swap [simp]: "i < length xs \<Longrightarrow> j < length xs \<Longrightarrow> set (swap i j xs) = set xs"
  unfolding swap_def by (rule list_update_swap_set)

lemma distinct_swap [simp]: "i < length xs \<Longrightarrow> j < length xs \<Longrightarrow> distinct (swap i j xs) = distinct xs"
  unfolding swap_def by (rule distinct_swap)

lemma map_swap: "i < length xs \<Longrightarrow> j < length xs \<Longrightarrow> map f (swap i j xs) = swap i j (map f xs)"
  by (simp add: swap_def map_update)

lemma slots_heap_Swap [simp]: "slots (heap_Swap i j h) = swap i j (slots h)"
  by (simp add: heap_Swap_def swap_def Let_def)

lemma payload_heap_Swap [simp]: "payload (heap_Swap i j h) = payload h"
  by (simp add: heap_Swap_def Let_def)

lemma length_cells_heap_Swap [simp]: "length (cells (heap_Swap i j h)) = length (cells h)"
  by (simp add: heap_Swap_def Let_def)

lemma times_heap_Swap [simp]:
  "i < length (slots h) \<Longrightarrow> j < length (slots h) \<Longrightarrow> times (heap_Swap i j h) = swap i j (times h)"
  by (simp add: times_def map_swap) (simp add: heap_Swap_def Let_def)

lemma slots_wf_heap_Swap:
  "i < length (slots h) \<Longrightarrow> j < length (slots h) \<Longrightarrow> slots_wf (heap_Swap i j h) = slots_wf h"
  by (simp add: slots_wf_def)

lemma index_ok_heap_Swap:
  assumes "slots_wf h" "index_ok h" "i < length (slots h)" "j < length (slots h)"
  shows "index_ok (heap_Swap i j h)"
  unfolding index_ok_def
proof (intro allI impI)
  fix k assume "k < length (slots (heap_Swap i j h))"
  then have k: "k < length (slots h)" by simp
  have d: "distinct (slots h)" and b: "\<And>n. n < length (slots h) \<Longrightarrow> slots h ! n < length (cells h)"
    using assms(1) by (auto simp: slots_wf_def)
  show "entry_index (cells (heap_Swap i j h) ! (slots (heap_Swap i j h) ! k)) = int k"
    using assms(2-4) k b
    by (auto simp: heap_Swap_def Let_def index_SetIndex nth_list_update index_ok_def
        nth_eq_iff_index_eq [OF d])
qed

subsection \<open>Restoring the order\<close>

lemma parent_iff: "0 < k \<Longrightarrow> parent k = i \<longleftrightarrow> k = 2 * i + 1 \<or> k = 2 * i + 2"
  unfolding parent_def by presburger

lemma parent_children [simp]: "parent (Suc (2 * i)) = i" "parent (Suc (Suc (2 * i))) = i"
  by (simp_all add: parent_def)

text \<open>The order holds but around position \<open>i\<close>; the parent of \<open>i\<close> is not above the children of \<open>i\<close>.\<close>

definition hole :: "nat \<Rightarrow> nat \<Rightarrow> time list \<Rightarrow> bool" where
  "hole n i ts \<longleftrightarrow>
     (\<forall>k < n. 0 < k \<longrightarrow> k \<noteq> i \<longrightarrow> parent k \<noteq> i \<longrightarrow> ts ! parent k \<le> ts ! k) \<and>
     (\<forall>k < n. 0 < k \<longrightarrow> parent k = i \<longrightarrow> 0 < i \<longrightarrow> ts ! parent i \<le> ts ! k)"

definition above_children :: "nat \<Rightarrow> nat \<Rightarrow> time list \<Rightarrow> bool" where
  "above_children n i ts \<longleftrightarrow> (\<forall>k < n. 0 < k \<longrightarrow> parent k = i \<longrightarrow> ts ! i \<le> ts ! k)"

lemma hole_up_step:
  assumes "hole n j ts" "above_children n j ts" "0 < j" "j < n" "n \<le> length ts" "ts ! j < ts ! parent j"
  shows "hole n (parent j) (swap (parent j) j ts) \<and> above_children n (parent j) (swap (parent j) j ts)"
proof -
  have p: "parent j < j" using assms(3) by (rule parent_less)
  have nth: "k < n \<Longrightarrow> swap (parent j) j ts ! k =
      (if k = parent j then ts ! j else if k = j then ts ! parent j else ts ! k)" for k
    using assms(4,5) p by (simp add: nth_swap)
  have par: "k < n \<Longrightarrow> 0 < k \<Longrightarrow> parent k < n" for k
    using parent_less [of k] by simp
  have le: "ts ! parent k \<le> ts ! k" if "k < n" "0 < k" "k \<noteq> j" "parent k \<noteq> j" for k
    using assms(1) that by (simp add: hole_def)
  have grand: "ts ! parent j \<le> ts ! k" if "k < n" "0 < k" "parent k = j" for k
    using assms(1,3) that by (simp add: hole_def)
  have jle: "ts ! parent (parent j) \<le> ts ! parent j" if "0 < parent j"
    using le [of "parent j"] that p assms(4) parent_less [of "parent j"] by auto
  let ?p = "parent j" and ?s = "swap (parent j) j ts"
  have a: "?s ! parent k \<le> ?s ! k" if "k < n" "0 < k" "k \<noteq> ?p" "parent k \<noteq> ?p" for k
  proof -
    have "k \<noteq> j" using that(4) by auto
    then show ?thesis
      using that par [of k] le [of k] grand [of k] p nth [of k] nth [of "parent k"] by auto
  qed
  have b: "?s ! parent ?p \<le> ?s ! k" if "k < n" "0 < k" "parent k = ?p" "0 < ?p" for k
    using that par [of "?p"] jle le [of k] p assms(3,4) parent_less [of ?p] nth [of k] nth [of "parent ?p"]
    by fastforce
  have c: "?s ! ?p \<le> ?s ! k" if "k < n" "0 < k" "parent k = ?p" for k
    using that p assms(3,4,6) le [of k] nth [of k] nth [of ?p] parent_less [of k] by fastforce
  show ?thesis
    unfolding hole_def above_children_def using a b c by blast
qed

lemma hole_up_exit:
  assumes "hole n j ts" "above_children n j ts" "j = 0 \<or> ts ! parent j \<le> ts ! j"
  shows "ordered_upto n ts"
  unfolding ordered_upto_def
proof (intro allI impI)
  fix k assume k: "k < n" "0 < k"
  show "ts ! parent k \<le> ts ! k"
  proof (cases "k = j \<or> parent k = j")
    case True
    then show ?thesis using assms(2,3) k by (auto simp: above_children_def)
  next
    case False
    then show ?thesis using assms(1) k by (simp add: hole_def)
  qed
qed

lemma hole_down_step:
  assumes "hole n i ts" "i < n" "c < n" "parent c = i" "0 < c" "n \<le> length ts" "ts ! c < ts ! i"
    "\<And>k. k < n \<Longrightarrow> 0 < k \<Longrightarrow> parent k = i \<Longrightarrow> ts ! c \<le> ts ! k"
  shows "hole n c (swap i c ts) \<and> (swap i c ts) ! parent c \<le> (swap i c ts) ! c"
proof -
  have ic: "i < c" using assms(4,5) parent_less by blast
  have nth: "k < n \<Longrightarrow> swap i c ts ! k = (if k = i then ts ! c else if k = c then ts ! i else ts ! k)" for k
    using assms(2,3,6) ic by (simp add: nth_swap)
  have par: "k < n \<Longrightarrow> 0 < k \<Longrightarrow> parent k < n \<and> parent k < k" for k
    using parent_less [of k] by simp
  have le: "ts ! parent k \<le> ts ! k" if "k < n" "0 < k" "k \<noteq> i" "parent k \<noteq> i" for k
    using assms(1) that by (simp add: hole_def)
  have grand: "ts ! parent i \<le> ts ! c" if "0 < i"
    using assms(1,3,4,5) that by (simp add: hole_def)
  have cle: "ts ! c \<le> ts ! k" if "k < n" "0 < k" "parent k = c" for k
    using le [of k] that ic par by fastforce
  have "hole n c (swap i c ts)"
    unfolding hole_def
    using ic par le grand cle assms(2,3,4,7,8) by (auto simp: nth)
  then show ?thesis using nth [of i] nth [of c] assms(2,3,4,7) ic by simp
qed

lemma hole_down_exit:
  assumes "hole n i ts" "i = 0 \<or> ts ! parent i \<le> ts ! i" "above_children n i ts"
  shows "ordered_upto n ts"
  using assms(1,3,2) by (rule hole_up_exit)

lemma least_child_props:
  assumes "2 * i + 1 < n" "n \<le> length (slots h)"
  shows "least_child h n i < n" "parent (least_child h n i) = i" "0 < least_child h n i"
    "k < n \<Longrightarrow> 0 < k \<Longrightarrow> parent k = i \<Longrightarrow> times h ! least_child h n i \<le> times h ! k"
proof -
  show "least_child h n i < n" "parent (least_child h n i) = i" "0 < least_child h n i"
    using assms by (auto simp: least_child_def)
  show "times h ! least_child h n i \<le> times h ! k" if "k < n" "0 < k" "parent k = i"
    using that assms by (auto simp: least_child_def parent_iff heap_Less_times)
qed

text \<open>What \<open>up\<close> and \<open>down\<close> keep: the entries, the pointers, the recorded positions.\<close>

definition same_entries :: "ExpirationHeap \<Rightarrow> ExpirationHeap \<Rightarrow> bool" where
  "same_entries h h' \<longleftrightarrow>
     payload h' = payload h \<and> set (slots h') = set (slots h) \<and> length (slots h') = length (slots h) \<and>
     (slots_wf h \<longrightarrow> slots_wf h') \<and> (slots_wf h \<longrightarrow> index_ok h \<longrightarrow> index_ok h')"

lemma same_entries_refl [simp]: "same_entries h h"
  by (simp add: same_entries_def)

lemma same_entries_trans: "same_entries h1 h2 \<Longrightarrow> same_entries h2 h3 \<Longrightarrow> same_entries h1 h3"
  by (auto simp: same_entries_def)

lemma same_entries_swap:
  "i < length (slots h) \<Longrightarrow> j < length (slots h) \<Longrightarrow> same_entries h (heap_Swap i j h)"
  by (simp add: same_entries_def slots_wf_heap_Swap index_ok_heap_Swap)

lemma heap_up_same: "j < length (slots h) \<Longrightarrow> same_entries h (heap_up j h)"
proof (induction j h rule: heap_up.induct)
  case (1 j h)
  show ?case
  proof (cases "parent j = j \<or> \<not> heap_Less h j (parent j)")
    case True
    then show ?thesis by (subst heap_up.simps) simp
  next
    case False
    then have "0 < j" by (cases j) simp_all
    then have p: "parent j < length (slots h)"
      using parent_less [of j] "1.prems" by simp
    have "same_entries (heap_Swap (parent j) j h) (heap_up (parent j) (heap_Swap (parent j) j h))"
      using 1 False p by simp
    then show ?thesis
      using same_entries_trans [OF same_entries_swap [OF p "1.prems"]] False by (subst heap_up.simps) auto
  qed
qed

lemma heap_up_ordered:
  assumes "hole n j (times h)" "above_children n j (times h)" "j < n" "n \<le> length (slots h)"
  shows "ordered_upto n (times (heap_up j h))"
  using assms
proof (induction j h rule: heap_up.induct)
  case (1 j h)
  have j: "j < length (slots h)" using "1.prems" by simp
  show ?case
  proof (cases "parent j = j \<or> \<not> heap_Less h j (parent j)")
    case True
    then have "j = 0 \<or> times h ! parent j \<le> times h ! j"
      using heap_Less_times [of j h "parent j"] parent_less [of j] j by (cases "j = 0") auto
    then show ?thesis
      using True "1.prems" hole_up_exit by (subst heap_up.simps) auto
  next
    case False
    then have j0: "0 < j" by (cases j) simp_all
    then have p: "parent j < j" by (rule parent_less)
    then have "times h ! j < times h ! parent j"
      using False j by (simp add: heap_Less_times)
    then have "hole n (parent j) (times (heap_Swap (parent j) j h)) \<and>
        above_children n (parent j) (times (heap_Swap (parent j) j h))"
      using hole_up_step [OF "1.prems"(1,2) j0 "1.prems"(3)] "1.prems"(4) p j by simp
    then show ?thesis
      using "1.IH" "1.prems"(3,4) False p by (subst heap_up.simps) auto
  qed
qed

lemma down_loop_stop:
  "n \<le> 2 * i + 1 \<or> \<not> heap_Less h (least_child h n i) i \<Longrightarrow> down_loop i n h = (h, i)"
  by (subst down_loop.simps) auto

lemma down_loop_go:
  "\<not> (n \<le> 2 * i + 1 \<or> \<not> heap_Less h (least_child h n i) i) \<Longrightarrow>
   down_loop i n h = down_loop (least_child h n i) n (heap_Swap i (least_child h n i) h)"
  by (subst down_loop.simps) auto

lemma down_loop_same:
  assumes "down_loop i n h = (h', i')" "i < n" "n \<le> length (slots h)"
  shows "same_entries h h' \<and> i \<le> i' \<and> i' < n \<and> drop n (slots h') = drop n (slots h)"
  using assms
proof (induction i n h rule: down_loop.induct)
  case (1 i n h)
  show ?case
  proof (cases "n \<le> 2 * i + 1 \<or> \<not> heap_Less h (least_child h n i) i")
    case True
    then show ?thesis using "1.prems" by (auto simp: down_loop_stop)
  next
    case False
    let ?c = "least_child h n i"
    have c: "?c < n" "parent ?c = i" "0 < ?c"
      using least_child_props [of i n h] False "1.prems"(3) by simp_all
    have ic: "i < ?c" using parent_less [OF c(3)] c(2) by simp
    have dl: "down_loop ?c n (heap_Swap i ?c h) = (h', i')"
      using "1.prems"(1) False by (simp add: down_loop_go)
    have IH: "same_entries (heap_Swap i ?c h) h' \<and> ?c \<le> i' \<and> i' < n \<and>
        drop n (slots h') = drop n (slots (heap_Swap i ?c h))"
      using "1.IH" False dl c(1) "1.prems"(3) by simp
    have "drop n (slots (heap_Swap i ?c h)) = drop n (slots h)"
      using ic c(1) by (simp add: swap_def)
    moreover have "same_entries h (heap_Swap i ?c h)"
      using same_entries_swap c(1) "1.prems"(2,3) by simp
    ultimately show ?thesis using IH ic same_entries_trans by fastforce
  qed
qed

lemma down_loop_ordered:
  assumes "down_loop i n h = (h', i')" "i < n" "n \<le> length (slots h)" "hole n i (times h)"
    "i = 0 \<or> times h ! parent i \<le> times h ! i"
  shows "ordered_upto n (times h')"
  using assms
proof (induction i n h rule: down_loop.induct)
  case (1 i n h)
  let ?c = "least_child h n i"
  show ?case
  proof (cases "n \<le> 2 * i + 1 \<or> \<not> heap_Less h ?c i")
    case True
    then have "h' = h" using "1.prems"(1) by (simp add: down_loop_stop)
    moreover have "above_children n i (times h)"
      using True least_child_props [of i n h] "1.prems"(2,3)
      by (fastforce simp: above_children_def parent_iff heap_Less_times)
    ultimately show ?thesis
      using hole_down_exit [OF "1.prems"(4,5)] by simp
  next
    case False
    have c: "?c < n" "parent ?c = i" "0 < ?c" "\<And>k. k < n \<Longrightarrow> 0 < k \<Longrightarrow> parent k = i \<Longrightarrow> times h ! ?c \<le> times h ! k"
      using least_child_props [of i n h] False "1.prems"(3) by simp_all
    have dl: "down_loop ?c n (heap_Swap i ?c h) = (h', i')"
      using "1.prems"(1) False by (simp add: down_loop_go)
    have "times h ! ?c < times h ! i"
      using False c(1) "1.prems"(2,3) by (simp add: heap_Less_times)
    then have "hole n ?c (times (heap_Swap i ?c h)) \<and>
        times (heap_Swap i ?c h) ! parent ?c \<le> times (heap_Swap i ?c h) ! ?c"
      using hole_down_step [OF "1.prems"(4,2) c(1,2,3)] c(1,4) "1.prems"(2,3) by simp
    then show ?thesis
      using "1.IH" False dl c(1) "1.prems"(3) by simp
  qed
qed

lemma down_loop_stays:
  assumes "down_loop i n h = (h', i)" "n \<le> length (slots h)" "i < n"
  shows "h' = h \<and> above_children n i (times h)"
proof (cases "n \<le> 2 * i + 1 \<or> \<not> heap_Less h (least_child h n i) i")
  case True
  then have "h' = h" using assms(1) by (simp add: down_loop_stop)
  moreover have "above_children n i (times h)"
    using True least_child_props [of i n h] assms(2,3)
    by (fastforce simp: above_children_def parent_iff heap_Less_times)
  ultimately show ?thesis by simp
next
  case False
  let ?c = "least_child h n i"
  have c: "?c < n" "parent ?c = i" "0 < ?c"
    using least_child_props [of i n h] False assms(2) by simp_all
  have "down_loop ?c n (heap_Swap i ?c h) = (h', i)"
    using assms(1) False by (simp add: down_loop_go)
  then have "?c \<le> i" using down_loop_same c(1) assms(2) by fastforce
  then show ?thesis using parent_less [OF c(3)] c(2) by simp
qed

lemma heap_up_drop: "j < n \<Longrightarrow> n \<le> length (slots h) \<Longrightarrow> drop n (slots (heap_up j h)) = drop n (slots h)"
proof (induction j h rule: heap_up.induct)
  case (1 j h)
  show ?case
  proof (cases "parent j = j \<or> \<not> heap_Less h j (parent j)")
    case True
    then show ?thesis by (subst heap_up.simps) simp
  next
    case False
    then have "0 < j" by (cases j) simp_all
    then have "parent j < j" by (rule parent_less)
    then have "drop n (slots (heap_Swap (parent j) j h)) = drop n (slots h)"
      using "1.prems"(1) by (simp add: swap_def)
    then show ?thesis using 1 False \<open>parent j < j\<close> by (subst heap_up.simps) auto
  qed
qed

subsection \<open>Correctness of Push and Remove\<close>

lemma heap_invI [inv_intros]:
  "slots_wf h \<Longrightarrow> index_ok h \<Longrightarrow> ordered_upto (length (slots h)) (times h) \<Longrightarrow> heap_inv h"
  by (simp add: heap_inv_def)

lemma heap_inv_empty [inv_intros, simp]: "heap_inv empty_heap"
  by (simp add: heap_inv_def empty_heap_def slots_wf_def index_ok_def ordered_upto_def)

lemma times_SetIndex [simp]: "times (SetIndex a i h) = times h"
  by (simp add: times_def)

lemma pop_spec:
  assumes "slots_wf h" "index_ok h" "length (slots h) = Suc n" "ordered_upto n (times h)"
  shows "heap_inv (ExpirationHeap_Pop h) \<and> payload (ExpirationHeap_Pop h) = payload h \<and>
    set (slots (ExpirationHeap_Pop h)) = set (slots h) - {last (slots h)}"
proof -
  let ?h = "ExpirationHeap_Pop h"
  have ne: "slots h \<noteq> []" using assms(3) by auto
  have d: "distinct (slots h)" and b: "\<And>a. a \<in> set (slots h) \<Longrightarrow> a < length (cells h)"
    using assms(1) by (auto simp: slots_wf_def)
  have sl: "slots ?h = butlast (slots h)"
    by (simp add: ExpirationHeap_Pop_def Let_def)
  have set: "set (slots ?h) = set (slots h) - {last (slots h)}"
    using set_butlast_distinct [OF d ne] sl by simp
  have pay: "payload ?h = payload h"
    by (simp add: ExpirationHeap_Pop_def Let_def)
  have len: "length (cells ?h) = length (cells h)"
    by (simp add: ExpirationHeap_Pop_def Let_def)
  have ts: "times ?h = butlast (times h)"
    by (simp add: times_def sl map_butlast) (simp add: ExpirationHeap_Pop_def Let_def)
  have wf: "slots_wf ?h"
    using d b set len sl by (auto simp: slots_wf_def distinct_butlast)
  moreover have "index_ok ?h"
    unfolding index_ok_def
  proof (intro allI impI)
    fix i assume i: "i < length (slots ?h)"
    then have i': "i < length (slots h)" "slots ?h ! i = slots h ! i" "i \<noteq> length (slots h) - 1"
      using sl assms(3) by (auto simp: nth_butlast)
    then have "slots h ! i \<noteq> last (slots h)"
      using d ne by (simp add: last_conv_nth nth_eq_iff_index_eq)
    then show "entry_index (cells ?h ! (slots ?h ! i)) = int i"
      using i' assms(2) b [OF last_in_set [OF ne]]
      by (simp add: ExpirationHeap_Pop_def Let_def index_SetIndex index_ok_def nth_butlast)
  qed
  moreover have "ordered_upto (length (slots ?h)) (times ?h)"
    unfolding ordered_upto_def
  proof (intro allI impI)
    fix k assume k: "k < length (slots ?h)" "0 < k"
    then have "parent k < length (slots ?h)" using parent_less [of k] by simp
    then show "times ?h ! parent k \<le> times ?h ! k"
      using k sl ts assms(3,4) by (simp add: ordered_upto_def nth_butlast)
  qed
  ultimately show ?thesis using pay set by (simp add: heap_inv_def)
qed

lemma push_new_entry_spec:
  assumes "heap_inv h" "push_new_entry key t h = (a, h')"
  shows "a = length (cells h) \<and> heap_inv h' \<and> payload h' = payload h @ [(key, t)] \<and>
    set (slots h') = insert a (set (slots h))"
proof -
  let ?m = "length (slots h)" and ?a = "length (cells h)"
  define h1 where "h1 = ExpirationHeap_Push ?a (h\<lparr>cells := cells h @ [NewExpirationEntry key t]\<rparr>)"
  have cells1: "cells h1 = cells h @ [(NewExpirationEntry key t)\<lparr>entry_index := int ?m\<rparr>]"
    and slots1: "slots h1 = slots h @ [?a]"
    by (simp_all add: h1_def ExpirationHeap_Push_def SetIndex_def heap_Len_def Let_def)
  have wf: "slots_wf h" and ix: "index_ok h" and ord: "ordered_upto ?m (times h)"
    using assms(1) by (auto simp: heap_inv_def)
  have nth1: "cells h1 ! b = cells h ! b" if "b \<in> set (slots h)" for b
    using that wf by (auto simp: cells1 slots_wf_def nth_append)
  have wf1: "slots_wf h1"
    using wf by (auto simp: slots_wf_def cells1 slots1 less_Suc_eq)
  have ix1: "index_ok h1"
    using ix nth1 by (auto simp: index_ok_def slots1 nth_append less_Suc_eq) (simp add: cells1)
  have ts1: "times h1 = times h @ [t]"
    using nth1 by (simp add: times_def slots1) (simp add: cells1 NewExpirationEntry_def)
  have pay1: "payload h1 = payload h @ [(key, t)]"
    by (simp add: payload_def cells1 NewExpirationEntry_def)
  have hole: "hole (Suc ?m) ?m (times h1)" and ac: "above_children (Suc ?m) ?m (times h1)"
    using ord parent_less
    by (auto simp: hole_def above_children_def ts1 ordered_upto_def nth_append parent_iff less_Suc_eq)
      (meson less_trans)+
  have h': "h' = heap_up ?m h1" and a: "a = ?a"
    using assms(2) slots1 by (auto simp: push_new_entry_def heap_Push_def h1_def heap_Len_def Let_def)
  have same: "same_entries h1 h'"
    unfolding h' using slots1 by (simp add: heap_up_same)
  then have "heap_inv h'"
    using heap_up_ordered [OF hole ac] slots1 wf1 ix1
    by (simp add: same_entries_def heap_inv_def h')
  then show ?thesis
    using same a pay1 slots1 by (simp add: same_entries_def)
qed

lemma hole_after_swap:
  assumes "ordered_upto (Suc n) ts" "i < n" "n < length ts"
  shows "hole n i (swap i n ts)"
proof -
  have nth: "k < n \<Longrightarrow> k \<noteq> i \<Longrightarrow> swap i n ts ! k = ts ! k" for k
    using assms(2,3) by (simp add: nth_swap)
  have le: "k < n \<Longrightarrow> 0 < k \<Longrightarrow> ts ! parent k \<le> ts ! k" for k
    using assms(1) by (simp add: ordered_upto_def)
  have a: "swap i n ts ! parent k \<le> swap i n ts ! k" if "k < n" "0 < k" "k \<noteq> i" "parent k \<noteq> i" for k
    using that nth [of k] nth [of "parent k"] le [of k] parent_less [of k] by simp
  have b: "swap i n ts ! parent i \<le> swap i n ts ! k" if "k < n" "0 < k" "parent k = i" "0 < i" for k
    using that nth [of k] nth [of "parent i"] le [of k] le [of i] assms(2) parent_less [of k]
      parent_less [of i] by simp
  show ?thesis unfolding hole_def using a b by blast
qed

lemma last_from_drop:
  "drop n xs = drop n ys \<Longrightarrow> n < length xs \<Longrightarrow> n < length ys \<Longrightarrow> last xs = last ys"
  by (metis last_drop)

lemma down_up_spec:
  assumes "slots_wf h" "index_ok h" "length (slots h) = Suc n" "hole n k (times h)" "k < n"
    "heap_down k n h = (h1, moved)"
  shows "same_entries h (if moved then h1 else heap_up k h1) \<and>
    ordered_upto n (times (if moved then h1 else heap_up k h1)) \<and>
    last (slots (if moved then h1 else heap_up k h1)) = last (slots h)"
proof -
  obtain i' where dl: "down_loop k n h = (h1, i')" and mv: "moved = (k < i')"
    using assms(6) by (auto simp: heap_down_def split: prod.splits)
  have n: "n \<le> length (slots h)" using assms(3) by simp
  note s = down_loop_same [OF dl assms(5) n]
  have lens: "length (slots h1) = Suc n" using s assms(3) by (simp add: same_entries_def)
  have last1: "last (slots h1) = last (slots h)"
    using last_from_drop [of n "slots h1" "slots h"] s lens assms(3) by simp
  show ?thesis
  proof (cases moved)
    case True
    let ?c = "least_child h n k"
    have go: "\<not> (n \<le> 2 * k + 1 \<or> \<not> heap_Less h ?c k)"
      using True mv dl down_loop_stop by fastforce
    have c: "?c < n" "parent ?c = k" "0 < ?c" "\<And>m. m < n \<Longrightarrow> 0 < m \<Longrightarrow> parent m = k \<Longrightarrow> times h ! ?c \<le> times h ! m"
      using least_child_props [of k n h] go n by simp_all
    have dl': "down_loop ?c n (heap_Swap k ?c h) = (h1, i')"
      using dl go by (simp add: down_loop_go)
    have "times h ! ?c < times h ! k"
      using go c(1) assms(3,5) by (simp add: heap_Less_times)
    then have "hole n ?c (times (heap_Swap k ?c h)) \<and>
        times (heap_Swap k ?c h) ! parent ?c \<le> times (heap_Swap k ?c h) ! ?c"
      using hole_down_step [OF assms(4,5) c(1,2,3)] c(1,4) assms(3,5) by simp
    then have "ordered_upto n (times h1)"
      using down_loop_ordered [OF dl' c(1)] n by simp
    then show ?thesis
      using True s last1 by simp
  next
    case False
    then have "i' = k" using mv s by simp
    then have h1: "h1 = h" and ac: "above_children n k (times h)"
      using down_loop_stays [of k n h h1] dl n assms(5) by simp_all
    have up: "same_entries h (heap_up k h)"
      using heap_up_same assms(3,5) by simp
    then have "length (slots (heap_up k h)) = Suc n" using assms(3) by (simp add: same_entries_def)
    then have "last (slots (heap_up k h)) = last (slots h)"
      using last_from_drop [OF heap_up_drop [OF assms(5) n]] assms(3) by simp
    then show ?thesis
      using False h1 up heap_up_ordered [OF assms(4) ac assms(5) n] by simp
  qed
qed

lemma heap_Remove_spec:
  assumes "heap_inv h" "a \<in> set (slots h)"
  shows "\<exists>h'. heap_Remove (entry_index (cells h ! a)) h = Some h' \<and> heap_inv h' \<and>
    payload h' = payload h \<and> set (slots h') = set (slots h) - {a}"
proof -
  have wf: "slots_wf h" and ix: "index_ok h" and ord: "ordered_upto (length (slots h)) (times h)"
    using assms(1) by (auto simp: heap_inv_def)
  obtain k where k: "k < length (slots h)" "slots h ! k = a"
    using assms(2) by (auto simp: in_set_conv_nth)
  define n where "n = length (slots h) - 1"
  have n: "length (slots h) = Suc n" using k(1) by (simp add: n_def)
  have ik: "entry_index (cells h ! a) = int k" using ix k by (auto simp: index_ok_def)
  have ordn: "ordered_upto n (times h)" using ord n by (simp add: ordered_upto_def)
  show ?thesis
  proof (cases "n = k")
    case True
    moreover have "slots h \<noteq> []" using k(1) by auto
    ultimately have "last (slots h) = a" using k n by (simp add: last_conv_nth)
    then show ?thesis
      using pop_spec [OF wf ix n ordn] True ik k by (simp add: heap_Remove_def heap_Len_def n Let_def)
  next
    case False
    then have kn: "k < n" using k(1) n by simp
    let ?s = "heap_Swap k n h"
    obtain h1 moved where down: "heap_down k n ?s = (h1, moved)" by fastforce
    define r where "r = (if moved then h1 else heap_up k h1)"
    have sw: "same_entries h ?s" using same_entries_swap k(1) n by simp
    have lens: "length (slots ?s) = Suc n" using n by simp
    have "slots ?s \<noteq> []" using lens by (metis length_0_conv nat.distinct(1))
    then have ls: "last (slots ?s) = a"
      using n k kn by (simp add: last_conv_nth nth_swap)
    have wfs: "slots_wf ?s" and ixs: "index_ok ?s"
      using sw wf ix by (auto simp: same_entries_def)
    have "hole n k (times ?s)"
      using hole_after_swap [of n "times h" k] ord n kn by simp
    from down_up_spec [OF wfs ixs lens this kn down, folded r_def]
    have same: "same_entries ?s r" and ordr: "ordered_upto n (times r)" and lr: "last (slots r) = a"
      using ls by simp_all
    have wfr: "slots_wf r" and ixr: "index_ok r" and lenr: "length (slots r) = Suc n"
      using same wfs ixs lens by (simp_all add: same_entries_def)
    have payr: "payload r = payload h" and setr: "set (slots r) = set (slots h)"
      using same_entries_trans [OF sw same] by (simp_all add: same_entries_def)
    have "heap_Remove (int k) h = Some (ExpirationHeap_Pop r)"
      unfolding r_def using down kn n by (simp add: heap_Remove_def heap_Len_def Let_def)
    then show ?thesis
      using pop_spec [OF wfr ixr lenr ordr] payr setr lr ik by simp
  qed
qed

text \<open>The first slot holds the earliest expiry.\<close>

lemma ordered_first: "ordered_upto n ts \<Longrightarrow> k < n \<Longrightarrow> ts ! 0 \<le> ts ! k"
proof (induction k rule: less_induct)
  case (less k)
  show ?case
  proof (cases "k = 0")
    case False
    then have "parent k < k" by (simp add: parent_less)
    then have "ts ! 0 \<le> ts ! parent k" using less by simp
    also have "\<dots> \<le> ts ! k" using less.prems False by (simp add: ordered_upto_def)
    finally show ?thesis .
  qed simp
qed

lemma heap_first_least:
  assumes "heap_inv h" "a \<in> set (slots h)"
  shows "snd (payload h ! (slots h ! 0)) \<le> snd (payload h ! a)"
proof -
  obtain k where k: "k < length (slots h)" "slots h ! k = a"
    using assms(2) by (auto simp: in_set_conv_nth)
  then have "times h ! 0 \<le> times h ! k"
    using ordered_first assms(1) by (auto simp: heap_inv_def)
  moreover have "slots h ! 0 \<in> set (slots h)" using k(1) by (intro nth_mem) linarith
  then have "slots h ! 0 < length (cells h)" "a < length (cells h)"
    using assms k by (auto simp: heap_inv_def slots_wf_def intro: nth_mem)
  moreover have "0 < length (slots h)" using k(1) by linarith
  ultimately show ?thesis using k by (simp add: times_def payload_def)
qed

subsection \<open>The heap is a queue of expirations\<close>

interpretation heap_queue: expiry_queue heap_inv "\<lambda>h. set (slots h)" payload push_new_entry
  "\<lambda>a h. heap_Remove (entry_index (cells h ! a)) h"
proof (unfold_locales, goal_cases)
  case (1 h a)
  then show ?case by (auto simp: heap_inv_def slots_wf_def)
next
  case (2 h k t a h')
  then show ?case using push_new_entry_spec [of h k t a h'] by simp
next
  case (3 h a)
  then show ?case using heap_Remove_spec by blast
qed

end
