(* ===== verification/Engine.thy ===== *)
theory Engine
  imports ExpirationHeap
begin

text \<open>
  What the four storage engines have in common.  Each is a struct of a map \<open>data\<close>, an expiration heap
  and an \<open>expirationMap\<close> from keys to heap entries; their code differs in the type of the values.
  The record \<open>engine\<close> is that struct with the value type as a parameter (the mutex and the logger are
  not part of it: an operation that holds the mutex is one step, and the logger, a pointer to state
  shared with other engines, is threaded next to the engine).  The accessor \<open>xp\<close> reads the expiry of
  a value.  An operation that would panic returns \<^term>\<open>None\<close>.

  An operation reads the clock once, at its argument \<open>now\<close>.
\<close>

record 'v engine =
  data :: "string \<rightharpoonup> 'v"
  expirations :: ExpirationHeap
  expirationMap :: "string \<rightharpoonup> nat"

definition new_engine :: "'v engine" where
  "new_engine = \<lparr>data = Map.empty, expirations = empty_heap, expirationMap = Map.empty\<rparr>"

definition expired :: "time option \<Rightarrow> time \<Rightarrow> bool" where
  "expired x now = (case x of None \<Rightarrow> False | Some t \<Rightarrow> t < now)"

subsection \<open>Entries of the expiration map\<close>

definition dropExpiration :: "string \<Rightarrow> 'v engine \<Rightarrow> 'v engine option" where
  "dropExpiration key e =
     (case expirationMap e key of
        None \<Rightarrow> Some e
      | Some a \<Rightarrow> do {
          h \<leftarrow> heap_Remove (entry_index (cells (expirations e) ! a)) (expirations e);
          Some (e\<lparr>expirations := h, expirationMap := (expirationMap e)(key := None)\<rparr>) })"

definition addExpiration :: "string \<Rightarrow> time option \<Rightarrow> 'v engine \<Rightarrow> 'v engine" where
  "addExpiration key x e =
     (case x of
        None \<Rightarrow> e
      | Some t \<Rightarrow>
          (case push_new_entry key t (expirations e) of (a, h) \<Rightarrow>
             e\<lparr>expirations := h, expirationMap := (expirationMap e)(key \<mapsto> a)\<rparr>))"

definition deleteNoLock :: "string \<Rightarrow> 'v engine \<Rightarrow> 'v engine option" where
  "deleteNoLock key e = dropExpiration key (e\<lparr>data := (data e)(key := None)\<rparr>)"

definition clearNoLock :: "'v engine \<Rightarrow> 'v engine" where
  "clearNoLock e = e\<lparr>data := Map.empty, expirations := empty_heap, expirationMap := Map.empty\<rparr>"

text \<open>\<open>Delete\<close> logs first and leaves the engine alone when the log fails.\<close>

definition engine_Delete ::
  "'w logger \<Rightarrow> string \<Rightarrow> string \<Rightarrow> 'v engine \<times> 'w \<Rightarrow> (goerr option \<times> 'v engine \<times> 'w) option" where
  "engine_Delete lg eid key = (\<lambda>(e, w).
     (case lg eid ''DELETE'' [PathEscape key] w of
        (Some err, w') \<Rightarrow> Some (Some err, e, w')
      | (None, w') \<Rightarrow> do { e' \<leftarrow> deleteNoLock key e; Some (None, e', w') }))"

subsection \<open>Loops over the keys\<close>

fun count_loop ::
  "('v \<Rightarrow> time option) \<Rightarrow> time \<Rightarrow> (string \<Rightarrow> bool) \<Rightarrow> (string \<rightharpoonup> 'v) \<Rightarrow> string list \<Rightarrow> int \<Rightarrow> string list \<Rightarrow>
   int \<times> string list" where
  "count_loop xp now p m [] count expiredKeys = (count, expiredKeys)"
| "count_loop xp now p m (k # ks) count expiredKeys =
     (case m k of
        None \<Rightarrow> count_loop xp now p m ks count expiredKeys
      | Some v \<Rightarrow>
          if expired (xp v) now then count_loop xp now p m ks count (expiredKeys @ [k])
          else if p k then count_loop xp now p m ks (count + 1) expiredKeys
          else count_loop xp now p m ks count expiredKeys)"

fun find_loop ::
  "('v \<Rightarrow> time option) \<Rightarrow> ('v \<Rightarrow> 'r) \<Rightarrow> time \<Rightarrow> (string \<Rightarrow> bool) \<Rightarrow> (string \<rightharpoonup> 'v) \<Rightarrow> string list \<Rightarrow>
   (string \<rightharpoonup> 'r) \<Rightarrow> string list \<Rightarrow> (string \<rightharpoonup> 'r) \<times> string list" where
  "find_loop xp f now p m [] result expiredKeys = (result, expiredKeys)"
| "find_loop xp f now p m (k # ks) result expiredKeys =
     (case m k of
        None \<Rightarrow> find_loop xp f now p m ks result expiredKeys
      | Some v \<Rightarrow>
          if expired (xp v) now then find_loop xp f now p m ks result (expiredKeys @ [k])
          else if p k then find_loop xp f now p m ks (result(k \<mapsto> f v)) expiredKeys
          else find_loop xp f now p m ks result expiredKeys)"

fun delete_loop ::
  "'w logger \<Rightarrow> string \<Rightarrow> ('v \<Rightarrow> time option) \<Rightarrow> time \<Rightarrow> (string \<Rightarrow> bool) \<Rightarrow> string list \<Rightarrow> int \<Rightarrow>
   'v engine \<times> 'w \<Rightarrow> ((int \<times> goerr option) \<times> 'v engine \<times> 'w) option" where
  "delete_loop lg eid xp now p [] count s = Some ((count, None), s)"
| "delete_loop lg eid xp now p (k # ks) count (e, w) =
     (case data e k of
        None \<Rightarrow> delete_loop lg eid xp now p ks count (e, w)
      | Some v \<Rightarrow>
          if expired (xp v) now then
            (case lg eid ''DELETE'' [PathEscape k] w of
               (None, w') \<Rightarrow> do { e' \<leftarrow> deleteNoLock k e; delete_loop lg eid xp now p ks count (e', w') }
             | (Some err, w') \<Rightarrow> delete_loop lg eid xp now p ks count (e, w'))
          else if p k then
            (case lg eid ''DELETE'' [PathEscape k] w of
               (Some err, w') \<Rightarrow> Some ((count, Some err), e, w')
             | (None, w') \<Rightarrow> do { e' \<leftarrow> deleteNoLock k e; delete_loop lg eid xp now p ks (count + 1) (e', w') })
          else delete_loop lg eid xp now p ks count (e, w))"

text \<open>
  The expiry check of the list, set and sorted-set engines: an expired key is deleted, then the deletion
  is logged and the error of the log ignored; the same for a list of keys (\<open>deleteExpiredKeys\<close>).
\<close>

definition evict ::
  "'w logger \<Rightarrow> string \<Rightarrow> ('v \<Rightarrow> time option) \<Rightarrow> time \<Rightarrow> string \<Rightarrow> 'v engine \<times> 'w \<Rightarrow> ('v engine \<times> 'w) option" where
  "evict lg eid xp now key = (\<lambda>(e, w).
     (case data e key of
        None \<Rightarrow> Some (e, w)
      | Some v \<Rightarrow>
          if expired (xp v) now
          then do { e' \<leftarrow> deleteNoLock key e; Some (e', snd (lg eid ''DELETE'' [PathEscape key] w)) }
          else Some (e, w)))"

fun sweep ::
  "'w logger \<Rightarrow> string \<Rightarrow> ('v \<Rightarrow> time option) \<Rightarrow> time \<Rightarrow> string list \<Rightarrow> 'v engine \<times> 'w \<Rightarrow> ('v engine \<times> 'w) option" where
  "sweep lg eid xp now [] s = Some s"
| "sweep lg eid xp now (k # ks) s = do { s' \<leftarrow> evict lg eid xp now k s; sweep lg eid xp now ks s' }"

text \<open>
  The loop of \<open>CleanupExpired\<close>: while the first entry of the heap is not in the future, delete its key
  with \<open>step\<close>.  \<^term>\<open>None\<close> is a panic or a loop that does not end.
\<close>

partial_function (option) cleanup_loop ::
  "(string \<Rightarrow> 'v engine \<times> 'w \<Rightarrow> ('v engine \<times> 'w) option) \<Rightarrow> time \<Rightarrow> 'v engine \<times> 'w \<Rightarrow> ('v engine \<times> 'w) option"
  where
  "cleanup_loop step now s =
     (case slots (expirations (fst s)) of
        [] \<Rightarrow> Some s
      | a # as \<Rightarrow>
          if now < entry_expiresAt (cells (expirations (fst s)) ! a) then Some s
          else Option.bind (step (entry_key (cells (expirations (fst s)) ! a)) s) (cleanup_loop step now))"

text \<open>Counting, finding and cleaning up in these engines.\<close>

definition sweep_count ::
  "'w logger \<Rightarrow> string \<Rightarrow> ('v \<Rightarrow> time option) \<Rightarrow> time \<Rightarrow> string list \<Rightarrow> (string \<Rightarrow> bool) \<Rightarrow> 'v engine \<times> 'w \<Rightarrow>
   (int \<times> 'v engine \<times> 'w) option" where
  "sweep_count lg eid xp now ks p s =
     (case count_loop xp now p (data (fst s)) ks 0 [] of (count, expiredKeys) \<Rightarrow> do {
        s' \<leftarrow> (if expiredKeys \<noteq> [] then sweep lg eid xp now expiredKeys s else Some s);
        Some (count, s') })"

definition sweep_find ::
  "'w logger \<Rightarrow> string \<Rightarrow> ('v \<Rightarrow> time option) \<Rightarrow> ('v \<Rightarrow> 'r) \<Rightarrow> time \<Rightarrow> string list \<Rightarrow> (string \<Rightarrow> bool) \<Rightarrow>
   'v engine \<times> 'w \<Rightarrow> ((string \<rightharpoonup> 'r) \<times> 'v engine \<times> 'w) option" where
  "sweep_find lg eid xp f now ks p s =
     (case find_loop xp f now p (data (fst s)) ks Map.empty [] of (result, expiredKeys) \<Rightarrow> do {
        s' \<leftarrow> (if expiredKeys \<noteq> [] then sweep lg eid xp now expiredKeys s else Some s);
        Some (result, s') })"

definition logged_cleanup :: "'w logger \<Rightarrow> string \<Rightarrow> time \<Rightarrow> 'v engine \<times> 'w \<Rightarrow> ('v engine \<times> 'w) option" where
  "logged_cleanup lg eid now s =
     cleanup_loop (\<lambda>key (e, w). do {
       e' \<leftarrow> deleteNoLock key e;
       Some (e', snd (lg eid ''DELETE'' [PathEscape key] w)) }) now s"

subsection \<open>The invariant of an engine\<close>

text \<open>
  \<open>due_of e k\<close> is the instant at which the heap will expire key \<open>k\<close>.  The invariant: the heap and the
  \<open>expirationMap\<close> point at each other, and the heap expires exactly the keys whose value has an expiry,
  at that expiry.
\<close>

definition due_of :: "'v engine \<Rightarrow> (string \<rightharpoonup> time)" where
  "due_of e = due (payload (expirations e)) (expirationMap e)"

definition queue_inv :: "'v engine \<Rightarrow> bool" where
  "queue_inv e \<longleftrightarrow>
     heap_inv (expirations e) \<and>
     tracked (set (slots (expirations e))) (payload (expirations e)) (expirationMap e)"

definition expiry_view :: "('v \<Rightarrow> time option) \<Rightarrow> (string \<rightharpoonup> 'v) \<Rightarrow> (string \<rightharpoonup> time)" where
  "expiry_view xp m = (\<lambda>k. Option.bind (m k) xp)"

definition engine_inv :: "('v \<Rightarrow> time option) \<Rightarrow> 'v engine \<Rightarrow> bool" where
  "engine_inv xp e \<longleftrightarrow> finite (dom (data e)) \<and> queue_inv e \<and> due_of e = expiry_view xp (data e)"

lemma expiry_view_upd [simp]:
  "expiry_view xp (m(k := None)) = (expiry_view xp m)(k := None)"
  "expiry_view xp (m(k \<mapsto> v)) = (expiry_view xp m)(k := xp v)"
  by (auto simp: expiry_view_def)

lemma expiry_view_empty [simp]: "expiry_view xp Map.empty = Map.empty"
  by (simp add: expiry_view_def)

lemma expiry_view_Some: "expiry_view xp m k = Some t \<longleftrightarrow> (\<exists>v. m k = Some v \<and> xp v = Some t)"
  by (auto simp: expiry_view_def bind_eq_Some_conv)

lemma queue_inv_data [simp]: "queue_inv (e\<lparr>data := d\<rparr>) = queue_inv e"
  by (simp add: queue_inv_def)

lemma due_of_data [simp]: "due_of (e\<lparr>data := d\<rparr>) = due_of e"
  by (simp add: due_of_def)

lemma engine_inv_new [inv_intros, simp]: "engine_inv xp new_engine"
  by (simp add: engine_inv_def new_engine_def queue_inv_def due_of_def due_def fun_eq_iff)
    (simp add: empty_heap_def)

lemma engine_inv_clear [inv_intros, simp]: "engine_inv xp (clearNoLock e)"
  by (simp add: engine_inv_def clearNoLock_def queue_inv_def due_of_def due_def fun_eq_iff)
    (simp add: empty_heap_def)

lemma data_clear [simp]: "data (clearNoLock e) = Map.empty"
  by (simp add: clearNoLock_def)

lemma data_new [simp]: "data new_engine = Map.empty"
  by (simp add: new_engine_def)

lemma engine_inv_finite: "engine_inv xp e \<Longrightarrow> finite (dom (data e))"
  by (simp add: engine_inv_def)

lemma dropExpiration_ok:
  assumes "queue_inv e"
  obtains e' where "dropExpiration k e = Some e'" "queue_inv e'" "data e' = data e"
    "due_of e' = (due_of e)(k := None)" "expirationMap e' k = None"
proof (cases "expirationMap e k")
  case None
  then have "(due_of e)(k := None) = due_of e" by (simp add: due_of_def fun_upd_idem)
  then show ?thesis using that [of e] assms None by (simp add: dropExpiration_def)
next
  case (Some a)
  have h: "heap_inv (expirations e)"
    and t: "tracked (set (slots (expirations e))) (payload (expirations e)) (expirationMap e)"
    using assms by (simp_all add: queue_inv_def)
  from heap_queue.tracked_rem [OF h t Some] obtain h' where
    h': "heap_Remove (entry_index (cells (expirations e) ! a)) (expirations e) = Some h'" "heap_inv h'"
    "tracked (set (slots h')) (payload h') ((expirationMap e)(k := None))"
    "due (payload h') ((expirationMap e)(k := None)) = (due (payload (expirations e)) (expirationMap e))(k := None)"
    by blast
  show ?thesis
    using h' Some
    by (intro that [of "e\<lparr>expirations := h', expirationMap := (expirationMap e)(k := None)\<rparr>"])
      (simp_all add: dropExpiration_def queue_inv_def due_of_def)
qed

lemma addExpiration_ok:
  assumes "queue_inv e" "expirationMap e k = None"
  shows "queue_inv (addExpiration k x e)" "data (addExpiration k x e) = data e"
    "due_of (addExpiration k x e) = (due_of e)(k := x)"
proof -
  have h: "heap_inv (expirations e)"
    and t: "tracked (set (slots (expirations e))) (payload (expirations e)) (expirationMap e)"
    using assms by (simp_all add: queue_inv_def)
  have n: "(due_of e)(k := None) = due_of e" using assms(2) by (simp add: due_of_def fun_upd_idem)
  obtain a h' where p: "push_new_entry k (the x) (expirations e) = (a, h')" by fastforce
  note s = heap_queue.tracked_new [OF h t assms(2) p]
  show "queue_inv (addExpiration k x e)" "data (addExpiration k x e) = data e"
    "due_of (addExpiration k x e) = (due_of e)(k := x)"
    using s p n assms(1) by (auto simp: addExpiration_def queue_inv_def due_of_def split: option.splits)
qed

subsection \<open>The operations keep the invariant\<close>

lemma deleteNoLock_ok:
  assumes "engine_inv xp e"
  obtains e' where "deleteNoLock k e = Some e'" "engine_inv xp e'" "data e' = (data e)(k := None)"
proof -
  have "queue_inv (e\<lparr>data := (data e)(k := None)\<rparr>)" using assms by (simp add: engine_inv_def)
  then obtain e' where e': "dropExpiration k (e\<lparr>data := (data e)(k := None)\<rparr>) = Some e'" "queue_inv e'"
    "data e' = (data e)(k := None)" "due_of e' = (due_of e)(k := None)"
    by (rule dropExpiration_ok) simp
  have "engine_inv xp e'"
    using e' assms by (auto simp: engine_inv_def dom_fun_upd)
  then show ?thesis using that e' by (simp add: deleteNoLock_def)
qed

lemma put_ok:
  assumes "engine_inv xp e"
  obtains e2 where "dropExpiration k (e\<lparr>data := (data e)(k \<mapsto> v)\<rparr>) = Some e2"
    "engine_inv xp (addExpiration k (xp v) e2)" "data (addExpiration k (xp v) e2) = (data e)(k \<mapsto> v)"
proof -
  have "queue_inv (e\<lparr>data := (data e)(k \<mapsto> v)\<rparr>)" using assms by (simp add: engine_inv_def)
  then obtain e2 where e2: "dropExpiration k (e\<lparr>data := (data e)(k \<mapsto> v)\<rparr>) = Some e2" "queue_inv e2"
    "data e2 = (data e)(k \<mapsto> v)" "due_of e2 = (due_of e)(k := None)" "expirationMap e2 k = None"
    by (rule dropExpiration_ok) simp
  note a = addExpiration_ok [OF e2(2,5), of "xp v"]
  have "engine_inv xp (addExpiration k (xp v) e2)"
    using a e2 assms by (auto simp: engine_inv_def)
  then show ?thesis using that e2 a by simp
qed

lemma update_ok [inv_intros]:
  assumes "engine_inv xp e" "Option.bind (data e k) xp = xp v"
  shows "engine_inv xp (e\<lparr>data := (data e)(k \<mapsto> v)\<rparr>)"
proof -
  have "(expiry_view xp (data e))(k := xp v) = expiry_view xp (data e)"
    using assms(2) by (auto simp: expiry_view_def)
  then show ?thesis using assms(1) by (simp add: engine_inv_def)
qed

subsection \<open>What the loops compute\<close>

text \<open>The values a reader may see at an instant, and the keys that a reader would evict.\<close>

definition alive :: "('v \<Rightarrow> time option) \<Rightarrow> time \<Rightarrow> (string \<rightharpoonup> 'v) \<Rightarrow> (string \<rightharpoonup> 'v)" where
  "alive xp now m = map_keep (\<lambda>k v. \<not> expired (xp v) now) m"

definition stale :: "('v \<Rightarrow> time option) \<Rightarrow> time \<Rightarrow> (string \<rightharpoonup> 'v) \<Rightarrow> string \<Rightarrow> bool" where
  "stale xp now m k \<longleftrightarrow> (\<exists>v. m k = Some v \<and> expired (xp v) now)"

lemma alive_Some: "alive xp now m k = Some v \<longleftrightarrow> m k = Some v \<and> \<not> expired (xp v) now"
  by (simp add: alive_def)

lemma alive_upd [simp]:
  "alive xp now (m(k := None)) = (alive xp now m)(k := None)"
  "\<not> expired (xp v) now \<Longrightarrow> alive xp now (m(k \<mapsto> v)) = (alive xp now m)(k \<mapsto> v)"
  "expired (xp v) now \<Longrightarrow> alive xp now (m(k \<mapsto> v)) = (alive xp now m)(k := None)"
  by (auto simp: alive_def map_keep_def)

lemma alive_empty [simp]: "alive xp now Map.empty = Map.empty"
  by (auto simp: alive_def map_keep_def)

lemma alive_stale: "m k = Some v \<Longrightarrow> alive xp now m k = (if stale xp now m k then None else Some v)"
  by (auto simp: alive_def map_keep_def stale_def)

lemma alive_not_stale: "alive xp now m k \<noteq> None \<Longrightarrow> \<not> stale xp now m k"
  by (auto simp: alive_def stale_def)

lemma alive_None_cases: "alive xp now m k = None \<longleftrightarrow> m k = None \<or> stale xp now m k"
  by (auto simp: alive_def map_keep_def stale_def split: option.splits)

lemma count_loop_eq:
  "count_loop xp now p m ks n ex =
     (n + int (length (filter (\<lambda>k. alive xp now m k \<noteq> None \<and> p k) ks)), ex @ filter (stale xp now m) ks)"
  by (induction ks arbitrary: n ex) (auto simp: alive_def stale_def map_keep_def split: option.splits)

lemma count_loop_spec:
  assumes "map_iter ks m"
  shows "count_loop xp now p m ks 0 [] =
    (int (card {k \<in> dom (alive xp now m). p k}), filter (stale xp now m) ks)"
proof -
  have "{k \<in> set ks. alive xp now m k \<noteq> None \<and> p k} = {k \<in> dom (alive xp now m). p k}"
    using map_iter_dom [OF assms] by (auto simp: alive_def)
  then have "length (filter (\<lambda>k. alive xp now m k \<noteq> None \<and> p k) ks) = card {k \<in> dom (alive xp now m). p k}"
    using distinct_card [OF distinct_filter [OF map_iter_distinct [OF assms]],
        of "\<lambda>k. alive xp now m k \<noteq> None \<and> p k"] by simp
  then show ?thesis by (simp add: count_loop_eq)
qed

lemma find_loop_eq:
  "find_loop xp f now p m ks r ex =
     ((\<lambda>k. if k \<in> set ks \<and> p k \<and> alive xp now m k \<noteq> None then map_option f (alive xp now m k) else r k),
      ex @ filter (stale xp now m) ks)"
proof (induction ks arbitrary: r ex)
  case (Cons k ks)
  show ?case
  proof (cases "m k")
    case None
    then have "alive xp now m k = None" "\<not> stale xp now m k" by (auto simp: alive_def stale_def map_keep_None)
    then show ?thesis using Cons None by (auto simp: fun_eq_iff)
  next
    case (Some v)
    then show ?thesis
      using Cons alive_stale [of m k v xp now]
      by (cases "expired (xp v) now") (auto simp: fun_eq_iff stale_def)
  qed
qed auto

lemma find_loop_spec:
  assumes "map_iter ks m"
  shows "find_loop xp f now p m ks Map.empty [] =
    ((\<lambda>k. if p k then map_option f (alive xp now m k) else None), filter (stale xp now m) ks)"
proof -
  have "k \<notin> set ks \<Longrightarrow> alive xp now m k = None" for k
    using map_iter_dom [OF assms] by (auto simp: alive_None_cases)
  then show ?thesis by (auto simp: find_loop_eq fun_eq_iff)
qed

text \<open>
  The deleting loop, whatever the logger answers: it removes nothing but expired keys and keys of the
  pattern, the count is the number of the live keys it removed, and without an error no live key of the
  pattern remains.
\<close>

definition delete_loop_post ::
  "('v \<Rightarrow> time option) \<Rightarrow> time \<Rightarrow> (string \<Rightarrow> bool) \<Rightarrow> string list \<Rightarrow> 'v engine \<Rightarrow> int \<Rightarrow> goerr option \<Rightarrow>
   'v engine \<Rightarrow> bool" where
  "delete_loop_post xp now p ks e n err e' \<longleftrightarrow>
     engine_inv xp e' \<and>
     (\<forall>k. data e' k = data e k \<or> data e' k = None \<and> k \<in> set ks \<and> (stale xp now (data e) k \<or> p k)) \<and>
     (err = None \<longrightarrow> (\<forall>k \<in> set ks. p k \<longrightarrow> alive xp now (data e') k = None)) \<and>
     n = int (card {k \<in> set ks. alive xp now (data e) k \<noteq> None \<and> p k \<and> data e' k = None})"

lemma delete_loop_postD:
  assumes "delete_loop_post xp now p ks e n err e'"
  shows "engine_inv xp e'"
    "data e' k = data e k \<or> data e' k = None \<and> k \<in> set ks \<and> (stale xp now (data e) k \<or> p k)"
    "err = None \<Longrightarrow> k \<in> set ks \<Longrightarrow> p k \<Longrightarrow> alive xp now (data e') k = None"
    "n = int (card {k \<in> set ks. alive xp now (data e) k \<noteq> None \<and> p k \<and> data e' k = None})"
  using assms unfolding delete_loop_post_def by blast+

lemma delete_loop_post_skip:
  assumes "delete_loop_post xp now p ks e n err e'" "k \<notin> set ks" "alive xp now (data e) k = None \<or> \<not> p k"
    "engine_inv xp e"
  shows "delete_loop_post xp now p (k # ks) e n err e'"
proof -
  have s: "{j \<in> set (k # ks). alive xp now (data e) j \<noteq> None \<and> p j \<and> data e' j = None} =
      {j \<in> set ks. alive xp now (data e) j \<noteq> None \<and> p j \<and> data e' j = None}"
    using assms(3) by auto
  have "data e' k = data e k" using assms(1,2) by (auto simp: delete_loop_post_def)
  then have "alive xp now (data e') k = alive xp now (data e) k" by (simp add: alive_def map_keep_def)
  then have "p k \<longrightarrow> alive xp now (data e') k = None" using assms(3) by auto
  then show ?thesis using assms(1) unfolding delete_loop_post_def s by auto
qed

lemma delete_loop_post_deleted:
  assumes "delete_loop_post xp now p ks e1 n err e'" "k \<notin> set ks" "data e1 = (data e)(k := None)"
    "stale xp now (data e) k \<or> p k"
  shows "delete_loop_post xp now p (k # ks) e
    (n + (if alive xp now (data e) k \<noteq> None \<and> p k then 1 else 0)) err e'"
proof -
  have "data e' k = data e1 k \<or> data e' k = None" using assms(1) by (auto simp: delete_loop_post_def)
  then have k: "data e' k = None" using assms(3) by simp
  have al: "alive xp now (data e1) j = alive xp now (data e) j" if "j \<noteq> k" for j
    using that assms(3) by simp
  let ?A = "{j \<in> set ks. alive xp now (data e1) j \<noteq> None \<and> p j \<and> data e' j = None}"
  have "?A = {j \<in> set ks. alive xp now (data e) j \<noteq> None \<and> p j \<and> data e' j = None}"
    by (rule Collect_cong) (use al assms(2) in metis)
  then have "{j \<in> set (k # ks). alive xp now (data e) j \<noteq> None \<and> p j \<and> data e' j = None} =
      (if alive xp now (data e) k \<noteq> None \<and> p k then insert k ?A else ?A)"
    using k by (auto split: if_splits)
  moreover have "k \<notin> ?A" "finite ?A" using assms(2) by auto
  ultimately have c: "int (card {j \<in> set (k # ks). alive xp now (data e) j \<noteq> None \<and> p j \<and> data e' j = None}) =
      int (card ?A) + (if alive xp now (data e) k \<noteq> None \<and> p k then 1 else 0)"
    by simp
  have frame: "data e' j = data e j \<or> data e' j = None \<and> j \<in> set (k # ks) \<and> (stale xp now (data e) j \<or> p j)" for j
  proof (cases "j = k")
    case True
    then show ?thesis using k assms(4) by simp
  next
    case False
    then have "data e1 j = data e j" "stale xp now (data e1) j = stale xp now (data e) j"
      using assms(3) by (simp_all add: stale_def)
    then show ?thesis using delete_loop_postD(2) [OF assms(1), of j] by auto
  qed
  have "alive xp now (data e') k = None" using k by (simp add: alive_def map_keep_def)
  then have "\<forall>j \<in> set (k # ks). p j \<longrightarrow> alive xp now (data e') j = None" if "err = None"
    using delete_loop_postD(3) [OF assms(1) that] by simp
  then show ?thesis
    unfolding delete_loop_post_def c
    using delete_loop_postD(1,4) [OF assms(1)] frame by simp
qed

lemma delete_loop_spec:
  assumes "engine_inv xp e" "distinct ks"
  shows "\<exists>c err e' w'. delete_loop lg eid xp now p ks n (e, w) = Some ((n + c, err), e', w') \<and>
    delete_loop_post xp now p ks e c err e'"
  using assms
proof (induction ks arbitrary: n e w)
  case Nil
  then show ?case by (simp add: delete_loop_post_def)
next
  case (Cons k ks)
  have k: "k \<notin> set ks" and d: "distinct ks" using Cons.prems(2) by simp_all
  obtain r w1 where lg: "lg eid ''DELETE'' [PathEscape k] w = (r, w1)" by fastforce
  obtain e1 where e1: "deleteNoLock k e = Some e1" "engine_inv xp e1" "data e1 = (data e)(k := None)"
    using deleteNoLock_ok [OF Cons.prems(1)] .
  have skip: "\<exists>c err e' w'. delete_loop lg eid xp now p ks n (e, w0) = Some ((n + c, err), e', w') \<and>
      delete_loop_post xp now p (k # ks) e c err e'" if no: "alive xp now (data e) k = None \<or> \<not> p k" for w0
  proof -
    obtain c err e' w' where "delete_loop lg eid xp now p ks n (e, w0) = Some ((n + c, err), e', w')"
      and post: "delete_loop_post xp now p ks e c err e'"
      using Cons.IH [OF Cons.prems(1) d] by blast
    then show ?thesis using delete_loop_post_skip [OF post k no Cons.prems(1)] by blast
  qed
  show ?case
  proof (cases "data e k")
    case None
    then have "alive xp now (data e) k = None" by (simp add: alive_None_cases)
    then show ?thesis using skip [of w] None by simp
  next
    case (Some v)
    consider "expired (xp v) now" "r = None" | "expired (xp v) now" "r \<noteq> None"
      | "\<not> expired (xp v) now" "p k" "r = None" | "\<not> expired (xp v) now" "p k" "r \<noteq> None"
      | "\<not> expired (xp v) now" "\<not> p k"
      by blast
    then show ?thesis
    proof cases
      case 1
      then have st: "stale xp now (data e) k" "alive xp now (data e) k = None"
        using Some by (auto simp: stale_def alive_None_cases)
      obtain c err e' w' where "delete_loop lg eid xp now p ks n (e1, w1) = Some ((n + c, err), e', w')"
        and post: "delete_loop_post xp now p ks e1 c err e'"
        using Cons.IH [OF e1(2) d] by blast
      moreover have "delete_loop_post xp now p (k # ks) e c err e'"
        using delete_loop_post_deleted [OF post k e1(3)] st by simp
      ultimately have "delete_loop lg eid xp now p (k # ks) n (e, w) = Some ((n + c, err), e', w')"
        using 1 Some lg e1(1) by simp
      then show ?thesis using \<open>delete_loop_post xp now p (k # ks) e c err e'\<close> by blast
    next
      case 2
      then have "alive xp now (data e) k = None"
        using Some by (auto simp: stale_def alive_None_cases)
      then have "delete_loop lg eid xp now p (k # ks) n (e, w) = delete_loop lg eid xp now p ks n (e, w1)"
        using 2 Some lg by auto
      then show ?thesis using skip [of w1] \<open>alive xp now (data e) k = None\<close> by simp
    next
      case 3
      then have al: "alive xp now (data e) k \<noteq> None" using Some by (simp add: alive_def)
      obtain c err e' w' where "delete_loop lg eid xp now p ks (n + 1) (e1, w1) = Some ((n + 1 + c, err), e', w')"
        and post: "delete_loop_post xp now p ks e1 c err e'"
        using Cons.IH [OF e1(2) d] by blast
      moreover have "delete_loop_post xp now p (k # ks) e (c + 1) err e'"
        using delete_loop_post_deleted [OF post k e1(3)] 3(2) al by simp
      moreover have "n + 1 + c = n + (c + 1)" by simp
      ultimately have "delete_loop lg eid xp now p (k # ks) n (e, w) = Some ((n + (c + 1), err), e', w')"
        using 3 Some lg e1(1) by simp
      then show ?thesis using \<open>delete_loop_post xp now p (k # ks) e (c + 1) err e'\<close> by blast
    next
      case 4
      have "{j \<in> set (k # ks). alive xp now (data e) j \<noteq> None \<and> p j \<and> data e j = None} = {}"
        by (auto simp: alive_Some)
      then have c: "0 = int (card {j \<in> set (k # ks). alive xp now (data e) j \<noteq> None \<and> p j \<and> data e j = None})"
        by (metis card.empty of_nat_0)
      have post: "delete_loop_post xp now p (k # ks) e 0 r e"
        unfolding delete_loop_post_def using Cons.prems(1) 4(3) c by blast
      obtain err where "r = Some err" using 4(3) by blast
      then have "delete_loop lg eid xp now p (k # ks) n (e, w) = Some ((n + 0, r), e, w1)"
        using 4 Some lg by simp
      then show ?thesis using post by blast
    next
      case 5
      then show ?thesis using skip [of w] Some by simp
    qed
  qed
qed

text \<open>\<open>CleanupExpired\<close> ends, and removes exactly the keys whose expiry is not in the future.\<close>

lemma cleanup_loop_spec:
  assumes inv: "engine_inv xp (fst s)"
    and step: "\<And>k s. engine_inv xp (fst s) \<Longrightarrow>
      \<exists>s'. step k s = Some s' \<and> engine_inv xp (fst s') \<and> data (fst s') = (data (fst s))(k := None)"
  shows "\<exists>s'. cleanup_loop step now s = Some s' \<and> engine_inv xp (fst s') \<and>
    data (fst s') = map_keep (\<lambda>k v. \<forall>t. xp v = Some t \<longrightarrow> now < t) (data (fst s))"
  using inv
proof (induction "card (dom (due_of (fst s)))" arbitrary: s rule: less_induct)
  case less
  let ?e = "fst s"
  have q: "heap_inv (expirations ?e)"
    and tr: "tracked (set (slots (expirations ?e))) (payload (expirations ?e)) (expirationMap ?e)"
    and dv: "due_of ?e = expiry_view xp (data ?e)" and fin: "finite (dom (data ?e))"
    using less.prems by (auto simp: engine_inv_def queue_inv_def)
  have live: "\<exists>a \<in> set (slots (expirations ?e)). snd (payload (expirations ?e) ! a) = t"
    if "data ?e k = Some v" "xp v = Some t" for k v t
  proof -
    have "due_of ?e k = Some t" using that dv by (simp add: expiry_view_def)
    then obtain a where "expirationMap ?e k = Some a" "snd (payload (expirations ?e) ! a) = t"
      by (auto simp: due_of_def due_def)
    then show ?thesis using trackedD(1) [OF tr] by blast
  qed
  show ?case
  proof (cases "slots (expirations ?e)")
    case Nil
    then have "data ?e = map_keep (\<lambda>k v. \<forall>t. xp v = Some t \<longrightarrow> now < t) (data ?e)"
      using live by (fastforce simp: map_keep_def fun_eq_iff split: option.splits)
    then show ?thesis
      using Nil less.prems by (subst cleanup_loop.simps) simp
  next
    case (Cons a as)
    let ?k = "fst (payload (expirations ?e) ! a)" and ?t = "snd (payload (expirations ?e) ! a)"
    have a: "a \<in> set (slots (expirations ?e))" "a < length (cells (expirations ?e))"
      using Cons q by (auto simp: heap_inv_def slots_wf_def)
    then have cell: "entry_key (cells (expirations ?e) ! a) = ?k" "entry_expiresAt (cells (expirations ?e) ! a) = ?t"
      by (simp_all add: payload_def)
    have first: "?t \<le> snd (payload (expirations ?e) ! b)" if "b \<in> set (slots (expirations ?e))" for b
      using heap_first_least [OF q that] Cons by simp
    show ?thesis
    proof (cases "now < ?t")
      case True
      then have "data ?e = map_keep (\<lambda>k v. \<forall>t. xp v = Some t \<longrightarrow> now < t) (data ?e)"
        using live first by (fastforce simp: map_keep_def fun_eq_iff split: option.splits)
      then show ?thesis
        using True Cons cell less.prems by (subst cleanup_loop.simps) simp
    next
      case False
      have due: "due_of ?e ?k = Some ?t"
        using trackedD(2) [OF tr a(1)] by (simp add: due_of_def due_def)
      then obtain v where v: "data ?e ?k = Some v" "xp v = Some ?t"
        using dv by (auto simp: expiry_view_Some)
      obtain s1 where s1: "step ?k s = Some s1" "engine_inv xp (fst s1)" "data (fst s1) = (data ?e)(?k := None)"
        using step [OF less.prems] by blast
      have "due_of (fst s1) = (due_of ?e)(?k := None)"
        using s1 dv by (simp add: engine_inv_def)
      moreover have "finite (dom (due_of ?e))"
        using fin dv by (auto simp: dom_def expiry_view_Some intro: finite_subset [where B = "dom (data ?e)"])
      moreover have "dom ((due_of ?e)(?k := None)) \<subset> dom (due_of ?e)"
        using due by auto
      ultimately have "card (dom (due_of (fst s1))) < card (dom (due_of ?e))"
        using psubset_card_mono by metis
      from less.hyps [OF this s1(2)] obtain s' where s': "cleanup_loop step now s1 = Some s'" "engine_inv xp (fst s')"
        "data (fst s') = map_keep (\<lambda>k v. \<forall>t. xp v = Some t \<longrightarrow> now < t) (data (fst s1))"
        by blast
      have "map_keep (\<lambda>k v. \<forall>t. xp v = Some t \<longrightarrow> now < t) (data (fst s1)) =
          map_keep (\<lambda>k v. \<forall>t. xp v = Some t \<longrightarrow> now < t) (data ?e)"
        using v False s1(3) by (auto simp: map_keep_def fun_eq_iff)
      then show ?thesis
        using s' s1(1) False Cons cell by (subst cleanup_loop.simps) simp
    qed
  qed
qed

lemma engine_Delete_ok:
  assumes "engine_inv xp e"
  obtains r e' w' where "engine_Delete lg eid k (e, w) = Some (r, e', w')" "engine_inv xp e'"
    "data e' = (if r = None then (data e)(k := None) else data e)"
    "lg eid ''DELETE'' [PathEscape k] w = (r, w')"
proof -
  obtain r w' where lg: "lg eid ''DELETE'' [PathEscape k] w = (r, w')" by fastforce
  obtain e1 where e1: "deleteNoLock k e = Some e1" "engine_inv xp e1" "data e1 = (data e)(k := None)"
    using deleteNoLock_ok [OF assms] .
  show ?thesis
    using that [of r "if r = None then e1 else e" w'] lg e1 assms
    by (cases r) (auto simp: engine_Delete_def)
qed

subsection \<open>What clients see\<close>

text \<open>The visible part \<open>f v\<close> of the values that have not expired.\<close>

definition visible :: "('v \<Rightarrow> time option) \<Rightarrow> ('v \<Rightarrow> 'a) \<Rightarrow> time \<Rightarrow> 'v engine \<Rightarrow> string \<rightharpoonup> 'a" where
  "visible xp f now e = (\<lambda>k. map_option f (alive xp now (data e) k))"

lemma visible_None: "visible xp f now e k = None \<longleftrightarrow> data e k = None \<or> stale xp now (data e) k"
  by (simp add: visible_def alive_None_cases)

lemma visible_live: "data e k = Some v \<Longrightarrow> \<not> expired (xp v) now \<Longrightarrow> visible xp f now e k = Some (f v)"
  by (simp add: visible_def alive_def map_keep_def)

lemma visible_SomeD:
  "visible xp f now e k = Some a \<Longrightarrow> \<exists>v. data e k = Some v \<and> \<not> expired (xp v) now \<and> f v = a"
  by (auto simp: visible_def alive_Some)

lemma visible_put:
  "data e' = (data e)(k \<mapsto> v) \<Longrightarrow>
   visible xp f now e' = (visible xp f now e)(k := if expired (xp v) now then None else Some (f v))"
  by (rule ext) (simp add: visible_def)

lemma visible_delete: "data e' = (data e)(k := None) \<Longrightarrow> visible xp f now e' = (visible xp f now e)(k := None)"
  by (rule ext) (simp add: visible_def)

lemma visible_evict:
  "data e' = (data e)(k := None) \<Longrightarrow> stale xp now (data e) k \<Longrightarrow> visible xp f now e' = visible xp f now e"
  by (metis fun_upd_idem visible_None visible_delete)

lemma visible_empty: "data e = Map.empty \<Longrightarrow> visible xp f now e = Map.empty"
  by (simp add: visible_def)

lemma dom_visible: "dom (visible xp f now e) = dom (alive xp now (data e))"
  by (auto simp: visible_def dom_def)

lemma visible_cleanup:
  assumes "data e' = map_keep (\<lambda>k v. \<forall>t. xp v = Some t \<longrightarrow> now < t) (data e)" "\<And>v. g (f v) = xp v"
  shows "visible xp f now e' = map_keep (\<lambda>k a. \<forall>t. g a = Some t \<longrightarrow> now < t) (visible xp f now e)"
proof
  fix k show "visible xp f now e' k = map_keep (\<lambda>k a. \<forall>t. g a = Some t \<longrightarrow> now < t) (visible xp f now e) k"
    using assms
    by (cases "data e k") (auto simp: visible_def alive_def map_keep_def expired_def split: option.splits)
qed

lemma visible_delete_loop:
  assumes "delete_loop_post xp now p ks e n None e'" "map_iter ks (data e)"
  shows "visible xp f now e' = visible xp f now e |` {k. \<not> p k}" "n = int (card {k \<in> dom (visible xp f now e). p k})"
proof -
  note post = delete_loop_postD [OF assms(1)]
  have dom: "set ks = dom (data e)" using map_iter_dom [OF assms(2)] .
  have gone: "alive xp now (data e') k = None" if "p k" for k
    using post(3) [OF refl _ that] post(2) [of k] that dom
    by (cases "k \<in> set ks") (auto simp: alive_None_cases)
  have kept: "alive xp now (data e') k = alive xp now (data e) k" if "\<not> p k" for k
    using post(2) [of k] that by (auto simp: alive_def map_keep_def stale_def)
  show "visible xp f now e' = visible xp f now e |` {k. \<not> p k}"
  proof
    fix k show "visible xp f now e' k = (visible xp f now e |` {k. \<not> p k}) k"
      using gone [of k] kept [of k] by (cases "p k") (simp_all add: visible_def restrict_map_def)
  qed
  have "{k \<in> set ks. alive xp now (data e) k \<noteq> None \<and> p k \<and> data e' k = None} =
      {k \<in> dom (visible xp f now e). p k}"
  proof -
    have "data e' k = None" if "alive xp now (data e) k \<noteq> None" "p k" for k
      using post(2) [of k] gone [OF that(2)] that(1) by (auto simp: alive_def map_keep_def)
    then show ?thesis using dom by (auto simp: dom_visible alive_Some)
  qed
  then show "n = int (card {k \<in> dom (visible xp f now e). p k})" using post(4) by simp
qed

subsection \<open>The operations as computations that return\<close>

lemma deleteNoLock_ends:
  "engine_inv xp e \<Longrightarrow> ends (deleteNoLock k e) (\<lambda>e'. engine_inv xp e' \<and> data e' = (data e)(k := None))"
  by (rule deleteNoLock_ok [of xp e k]) simp_all

lemma put_ends:
  "engine_inv xp e \<Longrightarrow>
   ends (dropExpiration k (e\<lparr>data := (data e)(k \<mapsto> v)\<rparr>))
     (\<lambda>e2. engine_inv xp (addExpiration k (xp v) e2) \<and>
           data (addExpiration k (xp v) e2) = (data e)(k \<mapsto> v))"
  by (rule put_ok [of xp e k v]) simp_all

lemma delete_loop_ends:
  assumes "engine_inv xp e" "distinct ks"
  shows "ends (delete_loop lg eid xp now p ks 0 (e, w))
    (\<lambda>((c, err), e', w'). delete_loop_post xp now p ks e c err e')"
  using delete_loop_spec [OF assms, of lg eid now p 0 w] by (auto simp: ends_iff)

lemma delete_loop_reliable:
  assumes rel: "\<And>e a args w. fst (lg e a args w) = None"
  shows "delete_loop lg eid xp now p ks n s = Some ((c, err), s') \<Longrightarrow> err = None"
proof (induction ks arbitrary: n s)
  case (Cons k ks)
  obtain e w where s: "s = (e, w)" by (cases s)
  obtain w1 where lg: "lg eid ''DELETE'' [PathEscape k] w = (None, w1)"
    using rel [of eid "''DELETE''" "[PathEscape k]" w] by (metis prod.collapse)
  show ?case
    using Cons s lg by (auto split: option.splits if_splits simp: bind_eq_Some_conv)
qed simp

subsection \<open>Eviction\<close>

definition live_at :: "('v \<Rightarrow> time option) \<Rightarrow> time \<Rightarrow> string \<Rightarrow> 'v engine \<Rightarrow> bool" where
  "live_at xp now k e \<longleftrightarrow> (\<forall>v. data e k = Some v \<longrightarrow> \<not> expired (xp v) now)"

lemma live_visible: "live_at xp now k e \<Longrightarrow> visible xp f now e k = map_option f (data e k)"
  by (cases "data e k") (auto simp: live_at_def visible_def alive_def map_keep_def)

text \<open>An eviction keeps every key that has not expired, and the key itself when it has not.\<close>

definition evicted :: "('v \<Rightarrow> time option) \<Rightarrow> time \<Rightarrow> 'v engine \<Rightarrow> 'v engine \<Rightarrow> bool" where
  "evicted xp now e e' \<longleftrightarrow> engine_inv xp e' \<and> alive xp now (data e') = alive xp now (data e) \<and> data e' \<subseteq>\<^sub>m data e"

lemma evicted_refl: "engine_inv xp e \<Longrightarrow> evicted xp now e e"
  by (simp add: evicted_def)

lemma evicted_trans: "evicted xp now e e' \<Longrightarrow> evicted xp now e' e'' \<Longrightarrow> evicted xp now e e''"
  by (auto simp: evicted_def intro: map_le_trans)

lemma evicted_visible: "evicted xp now e e' \<Longrightarrow> visible xp f now e' = visible xp f now e"
  by (simp add: evicted_def visible_def)

lemma evicted_inv: "evicted xp now e e' \<Longrightarrow> engine_inv xp e'"
  by (simp add: evicted_def)

lemma evicted_le: "evicted xp now e e' \<Longrightarrow> data e' k = Some v \<Longrightarrow> data e k = Some v"
  unfolding evicted_def map_le_def by (metis domI)

lemma evicted_keeps: "evicted xp now e e' \<Longrightarrow> data e k = Some v \<Longrightarrow> \<not> expired (xp v) now \<Longrightarrow> data e' k = Some v"
  unfolding evicted_def by (metis alive_Some)

lemma evict_ends:
  assumes "engine_inv xp e"
  shows "ends (evict lg eid xp now k (e, w)) (\<lambda>(e', w'). evicted xp now e e' \<and> live_at xp now k e')"
proof (cases "data e k")
  case None
  then show ?thesis using assms by (simp add: evict_def live_at_def evicted_refl)
next
  case (Some v)
  show ?thesis
  proof (cases "expired (xp v) now")
    case True
    then have "alive xp now (data e) k = None" using Some by (simp add: alive_def map_keep_def)
    then have "(alive xp now (data e))(k := None) = alive xp now (data e)" by (simp add: fun_upd_idem)
    then show ?thesis
      using Some True
      by (auto simp: evict_def live_at_def evicted_def map_le_def split: if_splits intro!: ends_mono [OF deleteNoLock_ends [OF assms]])
  next
    case False
    then show ?thesis using Some assms by (simp add: evict_def live_at_def evicted_refl)
  qed
qed

lemma evict_live: "live_at xp now k e \<Longrightarrow> evict lg eid xp now k (e, w) = Some (e, w)"
  by (auto simp: evict_def live_at_def split: option.splits)

lemma evict_ok:
  assumes "engine_inv xp e"
  obtains e1 w1 where "evict lg eid xp now k (e, w) = Some (e1, w1)" "evicted xp now e e1" "live_at xp now k e1"
  using evict_ends [OF assms, of lg eid now k w] by (auto simp: ends_iff)

lemma sweep_ends: "engine_inv xp e \<Longrightarrow> ends (sweep lg eid xp now ks (e, w)) (\<lambda>(e', w'). evicted xp now e e')"
proof (induction ks arbitrary: e w)
  case (Cons k ks)
  obtain e1 w1 where e1: "evict lg eid xp now k (e, w) = Some (e1, w1)" "evicted xp now e e1"
    using evict_ok [OF Cons.prems] by metis
  have "ends (sweep lg eid xp now ks (e1, w1)) (\<lambda>(e', w'). evicted xp now e1 e')"
    using Cons.IH evicted_inv [OF e1(2)] by blast
  then show ?case using e1 by (auto elim!: ends_mono intro: evicted_trans)
qed (simp add: evicted_refl)

text \<open>The pattern of the counting and finding operations: sweep the expired keys, return the result.\<close>

lemma sweep_bind:
  assumes "engine_inv xp e" "\<And>e' w'. evicted xp now e e' \<Longrightarrow> Q (r, e', w')"
  shows "ends (do { s' \<leftarrow> (if ks \<noteq> [] then sweep lg eid xp now ks (e, w) else Some (e, w)); Some (r, s') }) Q"
proof -
  have "ends (if ks \<noteq> [] then sweep lg eid xp now ks (e, w) else Some (e, w)) (\<lambda>(e', w'). evicted xp now e e')"
    using sweep_ends [OF assms(1), of lg eid now ks w] evicted_refl [OF assms(1)] by simp
  then show ?thesis unfolding ends_simps(3) by (rule ends_mono_state) (use assms(2) in auto)
qed

lemma sweep_count_ends:
  assumes "engine_inv xp e" "map_iter ks (data e)"
  shows "ends (sweep_count lg eid xp now ks p (e, w)) (\<lambda>(r, e', w'). evicted xp now e e' \<and>
    r = int (card {k \<in> dom (visible xp f now e). p k}))"
  unfolding sweep_count_def fst_conv count_loop_spec [OF assms(2)] prod.case
  by (rule sweep_bind [OF assms(1)]) (simp add: dom_visible)

lemma sweep_find_ends:
  assumes "engine_inv xp e" "map_iter ks (data e)"
  shows "ends (sweep_find lg eid xp f now ks p (e, w)) (\<lambda>(r, e', w'). evicted xp now e e' \<and>
    r = (\<lambda>k. if p k then visible xp f now e k else None))"
  unfolding sweep_find_def fst_conv find_loop_spec [OF assms(2)] prod.case
  by (rule sweep_bind [OF assms(1)]) (simp add: visible_def cong: if_cong)

lemma logged_cleanup_ends:
  assumes "engine_inv xp e"
  shows "ends (logged_cleanup lg eid now (e, w)) (\<lambda>(e', w'). engine_inv xp e' \<and>
    data e' = map_keep (\<lambda>k v. \<forall>t. xp v = Some t \<longrightarrow> now < t) (data e))"
proof -
  let ?step = "\<lambda>key (e, w). do { e' \<leftarrow> deleteNoLock key e; Some (e', snd (lg eid ''DELETE'' [PathEscape key] w)) }"
  have "\<exists>s'. ?step k s = Some s' \<and> engine_inv xp (fst s') \<and> data (fst s') = (data (fst s))(k := None)"
    if "engine_inv xp (fst s)" for k s
    using deleteNoLock_ends [OF that, of k] by (cases s) (auto simp: ends_iff)
  from cleanup_loop_spec [of xp "(e, w)" ?step now, OF _ this] assms
  show ?thesis by (auto simp: logged_cleanup_def ends_iff)
qed

lemma delete_loop_visible:
  assumes "engine_inv xp e" "map_iter ks (data e)" "\<And>e a args w. fst (lg e a args w) = None"
  shows "ends (delete_loop lg eid xp now p ks 0 (e, w)) (\<lambda>((n, err), e', w'). err = None \<and> engine_inv xp e' \<and>
    data e' \<subseteq>\<^sub>m data e \<and> visible xp f now e' = visible xp f now e |` {k. \<not> p k} \<and>
    n = int (card {k \<in> dom (visible xp f now e). p k}))"
proof -
  from delete_loop_ends [OF assms(1) map_iter_distinct [OF assms(2)], of lg eid now p w]
  obtain n err e' w' where r: "delete_loop lg eid xp now p ks 0 (e, w) = Some ((n, err), e', w')"
    and post: "delete_loop_post xp now p ks e n err e'" by (auto simp: ends_iff)
  have "err = None" by (rule delete_loop_reliable [OF assms(3) r])
  moreover have "data e' \<subseteq>\<^sub>m data e"
    unfolding map_le_def using delete_loop_postD(2) [OF post] by (metis domIff)
  moreover have "visible xp f now e' = visible xp f now e |` {k. \<not> p k}"
    "n = int (card {k \<in> dom (visible xp f now e). p k})"
    by (rule visible_delete_loop [OF post [unfolded \<open>err = None\<close>] assms(2)])+
  ultimately show ?thesis using r delete_loop_postD(1) [OF post] by simp
qed

end
