(* ===== verification/GoTime.thy ===== *)
theory GoTime
  imports GoEncoding
begin

text \<open>
  \<open>time.RFC3339\<close>, the layout in which the write-ahead log holds an expiry.  The process runs in UTC
  (the container sets no time zone), so an instant is written as \<open>2006-01-02T15:04:05Z\<close>; the model
  reads timestamps of exactly this shape, which are all that the program writes.  The layout has no
  fraction of a second: reading a written instant gives it back rounded down to the second.
\<close>

subsection \<open>The Gregorian calendar\<close>

definition leap_year :: "int \<Rightarrow> bool" where
  "leap_year y \<longleftrightarrow> y mod 4 = 0 \<and> (y mod 100 \<noteq> 0 \<or> y mod 400 = 0)"

definition leaps_until :: "int \<Rightarrow> int" where
  "leaps_until y = y div 4 - y div 100 + y div 400"

text \<open>Days from 1 January 1970 to 1 January of a year.\<close>

definition days_before_year :: "int \<Rightarrow> int" where
  "days_before_year y = 365 * (y - 1970) + leaps_until (y - 1) - 477"

definition month_lengths :: "int \<Rightarrow> int list" where
  "month_lengths y = [31, if leap_year y then 29 else 28, 31, 30, 31, 30, 31, 31, 30, 31, 30, 31]"

definition year_of_day :: "int \<Rightarrow> int" where
  "year_of_day d =
     (let y = (d + 719162) * 400 div 146097 + 1 in
      if d < days_before_year y then y - 1
      else if days_before_year (y + 1) \<le> d then y + 1 else y)"

fun pick_month :: "int list \<Rightarrow> nat \<Rightarrow> int \<Rightarrow> nat \<times> int" where
  "pick_month [] m d = (m, d)"
| "pick_month (l # ls) m d = (if d < l then (m, d) else pick_month ls (Suc m) (d - l))"

lemma div_step:
  assumes "0 < (k :: int)" shows "y div k - (y - 1) div k = (if y mod k = 0 then 1 else 0)"
proof (cases "y mod k = 0")
  case True
  have "y - 1 = k * (y div k - 1) + (k - 1)"
    using mult_div_mod_eq [of k y] True by (simp add: right_diff_distrib)
  then have "(y - 1) div k = y div k - 1"
    using assms by (intro int_div_pos_eq [where r = "k - 1"]) simp_all
  then show ?thesis using True by simp
next
  case False
  have m: "0 \<le> y mod k" "y mod k < k" using assms by simp_all
  have "y - 1 = k * (y div k) + (y mod k - 1)"
    using mult_div_mod_eq [of k y] by linarith
  then have "(y - 1) div k = y div k"
    using m False by (intro int_div_pos_eq [where r = "y mod k - 1"]) linarith+
  then show ?thesis using False by simp
qed

lemma leaps_step: "leaps_until y - leaps_until (y - 1) = (if leap_year y then 1 else 0)"
proof -
  have 1: "y mod 400 = 0 \<Longrightarrow> y mod 100 = 0" and 2: "y mod 100 = 0 \<Longrightarrow> y mod 4 = 0"
    using mod_mod_cancel [of "100 :: int" 400 y] mod_mod_cancel [of "4 :: int" 100 y] by auto
  have d: "leaps_until y - leaps_until (y - 1) =
      (if y mod 4 = 0 then 1 else 0) - (if y mod 100 = 0 then 1 else 0) + (if y mod 400 = 0 then 1 else 0)"
    unfolding leaps_until_def
    unfolding div_step [of 4 y, symmetric, simplified] div_step [of 100 y, symmetric, simplified]
      div_step [of 400 y, symmetric, simplified]
    by (simp only: diff_conv_add_uminus minus_add_distrib minus_minus ac_simps)
  show ?thesis
    unfolding d leap_year_def
    by (cases "y mod 400 = 0"; cases "y mod 100 = 0"; cases "y mod 4 = 0") (simp_all only: 1 2 simp_thms if_True if_False diff_self diff_zero add_0 diff_add_cancel add_0_right)
qed

lemma quotient_bounds: "0 < (k :: int) \<Longrightarrow> k * (n div k) \<le> n \<and> n < k * (n div k) + k"
  using mult_div_mod_eq [of k n] pos_mod_bound [of k n] pos_mod_sign [of k n] by linarith

lemma year_length: "days_before_year (y + 1) - days_before_year y = sum_list (month_lengths y)"
  using leaps_step [of y] by (auto simp: days_before_year_def month_lengths_def split: if_splits)

lemma days_before_year_bounds:
  "146097 * (y - 1) - 800 \<le> 400 * (days_before_year y + 719162)"
  "400 * (days_before_year y + 719162) \<le> 146097 * (y - 1) + 800"
proof -
  define z where "z = y - 1"
  note b = quotient_bounds [of 4 z] quotient_bounds [of 100 z] quotient_bounds [of 400 z]
  have "days_before_year y + 719162 = 365 * z + (z div 4 - z div 100 + z div 400)"
    by (simp add: days_before_year_def leaps_until_def z_def)
  then show "146097 * (y - 1) - 800 \<le> 400 * (days_before_year y + 719162)"
    and "400 * (days_before_year y + 719162) \<le> 146097 * (y - 1) + 800"
    using b unfolding z_def [symmetric] by auto
qed

lemma year_of_day:
  "days_before_year (year_of_day d) \<le> d" "d < days_before_year (year_of_day d + 1)"
proof -
  define y where "y = (d + 719162) * 400 div 146097 + 1"
  have e: "146097 * (y - 1) \<le> (d + 719162) * 400" "(d + 719162) * 400 < 146097 * y"
    using quotient_bounds [of 146097 "(d + 719162) * 400"] by (simp_all add: y_def)
  have lo: "days_before_year (y - 1) \<le> d"
    using days_before_year_bounds(2) [of "y - 1"] e(1) by (simp add: algebra_simps)
  have hi: "d < days_before_year (y + 2)"
    using days_before_year_bounds(1) [of "y + 2"] e(2) by (simp add: algebra_simps)
  have cases: "year_of_day d = (if d < days_before_year y then y - 1
      else if days_before_year (y + 1) \<le> d then y + 1 else y)"
    by (simp add: year_of_day_def y_def Let_def)
  show "days_before_year (year_of_day d) \<le> d" "d < days_before_year (year_of_day d + 1)"
    using lo hi unfolding cases by (auto simp: add.assoc)
qed

lemma pick_month:
  assumes "0 \<le> d" "d < sum_list ls" "pick_month ls m d = (m', d')"
  shows "m \<le> m' \<and> m' < m + length ls \<and> 0 \<le> d' \<and> d' < ls ! (m' - m)
    \<and> d = sum_list (take (m' - m) ls) + d'"
  using assms
proof (induction ls m d rule: pick_month.induct)
  case (1 m d)
  then show ?case by simp
next
  case (2 l ls m d)
  show ?case
  proof (cases "d < l")
    case True
    with 2 show ?thesis by auto
  next
    case False
    with 2 have IH: "Suc m \<le> m' \<and> m' < Suc m + length ls \<and> 0 \<le> d' \<and> d' < ls ! (m' - Suc m)
        \<and> d - l = sum_list (take (m' - Suc m) ls) + d'"
      by auto
    then have "m' - m = Suc (m' - Suc m)" by linarith
    with IH show ?thesis by auto
  qed
qed

subsection \<open>Writing and reading\<close>

definition pad2 :: "nat \<Rightarrow> string" where
  "pad2 n = [digit_char (n div 10), digit_char (n mod 10)]"

definition pad4 :: "nat \<Rightarrow> string" where
  "pad4 n = [digit_char (n div 1000), digit_char (n div 100 mod 10), digit_char (n div 10 mod 10),
             digit_char (n mod 10)]"

definition FormatRFC3339 :: "time \<Rightarrow> string" where
  "FormatRFC3339 t =
     (let secs = t div 10 ^ 9; day = secs div 86400; sod = nat (secs mod 86400);
          y = year_of_day day
      in case pick_month (month_lengths y) 1 (day - days_before_year y) of (m, d) \<Rightarrow>
        pad4 (nat y) @ ''-'' @ pad2 m @ ''-'' @ pad2 (Suc (nat d)) @ ''T''
        @ pad2 (sod div 3600) @ '':'' @ pad2 (sod mod 3600 div 60) @ '':'' @ pad2 (sod mod 60) @ ''Z'')"

fun digits_value :: "nat \<Rightarrow> string \<Rightarrow> nat option" where
  "digits_value n [] = Some n"
| "digits_value n (c # cs) =
     (case char_digit c of None \<Rightarrow> None | Some d \<Rightarrow> digits_value (n * 10 + d) cs)"

definition field :: "nat \<Rightarrow> nat \<Rightarrow> string \<Rightarrow> nat option" where
  "field i n s = digits_value 0 (take n (drop i s))"

definition ParseRFC3339 :: "string \<Rightarrow> time option" where
  "ParseRFC3339 s =
     (if length s = 20 \<and> s ! 4 = CHR ''-'' \<and> s ! 7 = CHR ''-'' \<and> s ! 10 = CHR ''T''
         \<and> s ! 13 = CHR '':'' \<and> s ! 16 = CHR '':'' \<and> s ! 19 = CHR ''Z'' then do {
        y \<leftarrow> field 0 4 s; mo \<leftarrow> field 5 2 s; d \<leftarrow> field 8 2 s;
        hh \<leftarrow> field 11 2 s; mi \<leftarrow> field 14 2 s; ss \<leftarrow> field 17 2 s;
        let ml = month_lengths (int y);
        if 1 \<le> mo \<and> mo \<le> 12 \<and> 1 \<le> d \<and> int d \<le> ml ! (mo - 1) \<and> hh < 24 \<and> mi < 60 \<and> ss < 60
        then Some (((days_before_year (int y) + sum_list (take (mo - 1) ml) + int d - 1) * 86400
               + int (hh * 3600 + mi * 60 + ss)) * 10 ^ 9)
        else None
      } else None)"

text \<open>The instants whose year has four digits.\<close>

definition rfc3339_range :: "time \<Rightarrow> bool" where
  "rfc3339_range t \<longleftrightarrow> 0 \<le> year_of_day (t div 10 ^ 9 div 86400) \<and> year_of_day (t div 10 ^ 9 div 86400) < 10000"

definition trunc_second :: "time \<Rightarrow> time" where
  "trunc_second t = t div 10 ^ 9 * 10 ^ 9"

lemma trunc_second_bounds: "trunc_second t \<le> t" "t < trunc_second t + 10 ^ 9"
  using quotient_bounds [of "10 ^ 9" t] by (simp_all add: trunc_second_def mult.commute)

lemma trunc_second_idem [simp]: "trunc_second (trunc_second t) = trunc_second t"
  by (simp add: trunc_second_def)

lemma field_pad2 [simp]: "n < 100 \<Longrightarrow> digits_value 0 (pad2 n) = Some n"
  by (simp add: pad2_def less_mult_imp_div_less)

lemma field_pad4 [simp]:
  assumes "n < 10000" shows "digits_value 0 (pad4 n) = Some n"
proof -
  have "n div 1000 < 10" using assms by (simp add: less_mult_imp_div_less)
  moreover have "n div 100 = n div 10 div 10" and "n div 1000 = n div 10 div 10 div 10"
    by (simp_all add: div_mult2_eq [symmetric])
  ultimately show ?thesis by (simp add: pad4_def)
qed

lemma pad_lengths [simp]: "length (pad2 n) = 2" "length (pad4 n) = 4"
  by (simp_all add: pad2_def pad4_def)

lemma month_lengths_props:
  "length (month_lengths y) = 12" "sum_list (month_lengths y) = (if leap_year y then 366 else 365)"
  "l \<in> set (month_lengths y) \<Longrightarrow> l \<le> 31"
  by (auto simp: month_lengths_def)

text \<open>The fields of the written text.\<close>

lemma ParseRFC3339_fields:
  assumes "y < 10000" "1 \<le> mo" "mo \<le> 12" "1 \<le> d" "int d \<le> month_lengths (int y) ! (mo - 1)"
    "hh < 24" "mi < 60" "ss < 60"
  shows "ParseRFC3339 (pad4 y @ ''-'' @ pad2 mo @ ''-'' @ pad2 d @ ''T'' @ pad2 hh @ '':''
      @ pad2 mi @ '':'' @ pad2 ss @ ''Z'') =
    Some (((days_before_year (int y) + sum_list (take (mo - 1) (month_lengths (int y))) + int d - 1) * 86400
      + int (hh * 3600 + mi * 60 + ss)) * 10 ^ 9)" (is "ParseRFC3339 ?s = _")
proof -
  have "mo - 1 < length (month_lengths (int y))"
    using assms(2,3) by (simp add: month_lengths_props(1))
  then have "int d \<le> 31" using assms(5) month_lengths_props(3) nth_mem order_trans by blast
  then have d: "d < 100" by simp
  have fields: "field 0 4 ?s = Some y" "field 5 2 ?s = Some mo" "field 8 2 ?s = Some d"
    "field 11 2 ?s = Some hh" "field 14 2 ?s = Some mi" "field 17 2 ?s = Some ss"
    using field_pad4 [OF assms(1)] field_pad2 [of mo] field_pad2 [OF d] field_pad2 [of hh]
      field_pad2 [of mi] field_pad2 [of ss] assms(2-)
    by (simp_all add: field_def pad4_def pad2_def)
  have marks: "length ?s = 20 \<and> ?s ! 4 = CHR ''-'' \<and> ?s ! 7 = CHR ''-'' \<and> ?s ! 10 = CHR ''T''
         \<and> ?s ! 13 = CHR '':'' \<and> ?s ! 16 = CHR '':'' \<and> ?s ! 19 = CHR ''Z''"
    by (simp add: pad4_def pad2_def)
  show ?thesis
    unfolding ParseRFC3339_def using marks fields assms by (simp add: Let_def)
qed

text \<open>The calendar fields of a day add up to the day.\<close>

lemma day_fields:
  assumes "pick_month (month_lengths y) 1 (day - days_before_year y) = (m, d)" "y = year_of_day day"
  shows "1 \<le> m" "m \<le> 12" "0 \<le> d" "d < month_lengths y ! (m - 1)"
    "days_before_year y + sum_list (take (m - 1) (month_lengths y)) + d = day"
proof -
  have "0 \<le> day - days_before_year y" "day - days_before_year y < sum_list (month_lengths y)"
    using year_of_day [of day] year_length [of y] unfolding assms(2) by simp_all
  from pick_month [OF this assms(1)]
  show "1 \<le> m" "m \<le> 12" "0 \<le> d" "d < month_lengths y ! (m - 1)"
    "days_before_year y + sum_list (take (m - 1) (month_lengths y)) + d = day"
    by (auto simp: month_lengths_props(1))
qed

lemma clock_fields:
  assumes "n < 86400"
  shows "n div 3600 < 24" "n mod 3600 div 60 < 60" "n mod 60 < 60"
    "n div 3600 * 3600 + n mod 3600 div 60 * 60 + n mod 60 = (n :: nat)"
proof -
  have "n mod 3600 mod 60 = n mod 60"
    using mod_mod_cancel [of "60 :: nat" 3600 n] by simp
  then have "n mod 3600 div 60 * 60 + n mod 60 = n mod 3600"
    by (metis div_mult_mod_eq)
  then show "n div 3600 * 3600 + n mod 3600 div 60 * 60 + n mod 60 = n"
    using div_mult_mod_eq [of n 3600] by linarith
qed (use assms in \<open>simp_all add: less_mult_imp_div_less\<close>)

lemma ParseRFC3339_FormatRFC3339 [codec_simps]:
  assumes "rfc3339_range t" shows "ParseRFC3339 (FormatRFC3339 t) = Some (trunc_second t)"
proof -
  define secs where "secs = t div 10 ^ 9"
  define day where "day = secs div 86400"
  define y where "y = year_of_day day"
  define n where "n = nat (secs mod 86400)"
  obtain m d where md: "pick_month (month_lengths y) 1 (day - days_before_year y) = (m, d)"
    by fastforce
  note f = day_fields [OF md y_def]
  have y: "0 \<le> y" "y < 10000"
    using assms by (simp_all add: rfc3339_range_def y_def day_def secs_def)
  have n: "n < 86400" by (simp add: n_def nat_less_iff)
  have fmt: "FormatRFC3339 t = pad4 (nat y) @ ''-'' @ pad2 m @ ''-'' @ pad2 (Suc (nat d)) @ ''T''
      @ pad2 (n div 3600) @ '':'' @ pad2 (n mod 3600 div 60) @ '':'' @ pad2 (n mod 60) @ ''Z''"
    using md by (simp add: FormatRFC3339_def Let_def secs_def day_def y_def n_def)
  have "int (Suc (nat d)) = d + 1" using f(3) by simp
  then have sum: "days_before_year y + sum_list (take (m - 1) (month_lengths y)) + int (Suc (nat d)) - 1 = day"
    using f(5) by linarith
  have "day * 86400 + int n = secs"
    by (simp add: day_def n_def)
  then have "ParseRFC3339 (FormatRFC3339 t) = Some (secs * 10 ^ 9)"
    unfolding fmt
    by (subst ParseRFC3339_fields)
      (use y f sum n clock_fields [OF n] in \<open>simp_all add: add1_zle_eq nat_less_iff\<close>)
  then show ?thesis by (simp add: trunc_second_def secs_def)
qed

lemma wal_char_is_digit: "is_digit c \<Longrightarrow> wal_char c"
  by (auto simp: is_digit_def char_digit_def wal_char_def)

lemma wal_char_digit: "d < 10 \<Longrightarrow> wal_char (digit_char d)"
  by (simp add: wal_char_is_digit)

lemma wal_safe_FormatInt [codec_simps]: "wal_safe (FormatInt z)"
proof -
  have "wal_safe (nat_digits n)" for n
    using nat_digits_are_digits [of n] by (auto simp: wal_safe_def list_all_iff wal_char_is_digit)
  then show ?thesis by (simp add: FormatInt_def codec_simps wal_char_def)
qed

text \<open>An optional expiry in the log: the word \<open>PERSISTENT\<close> or a timestamp.\<close>

definition expires_str :: "time option \<Rightarrow> string" where
  "expires_str x = (case x of None \<Rightarrow> ''PERSISTENT'' | Some t \<Rightarrow> FormatRFC3339 t)"

lemma FormatRFC3339_not_persistent: "rfc3339_range t \<Longrightarrow> FormatRFC3339 t \<noteq> ''PERSISTENT''"
  using ParseRFC3339_FormatRFC3339 [of t] by (auto simp: ParseRFC3339_def)

lemma wal_safe_FormatRFC3339 [codec_simps]:
  assumes "rfc3339_range t" shows "wal_safe (FormatRFC3339 t)"
proof -
  have pad2: "wal_safe (pad2 n)" if "n < 100" for n
    using that by (simp add: pad2_def codec_simps wal_char_digit less_mult_imp_div_less)
  have pad4: "wal_safe (pad4 n)" if "n < 10000" for n
    using that by (simp add: pad4_def codec_simps wal_char_digit less_mult_imp_div_less)
  have lit: "wal_char CHR ''-''" "wal_char CHR ''T''" "wal_char CHR '':''" "wal_char CHR ''Z''"
    by (simp_all add: wal_char_def)
  define secs where "secs = t div 10 ^ 9"
  define day where "day = secs div 86400"
  define y where "y = year_of_day day"
  define n where "n = nat (secs mod 86400)"
  obtain m d where md: "pick_month (month_lengths y) 1 (day - days_before_year y) = (m, d)"
    by fastforce
  note f = day_fields [OF md y_def]
  have "m - 1 < length (month_lengths y)"
    using f(1,2) by (simp add: month_lengths_props(1))
  then have "d < 31" using f(4) month_lengths_props(3) nth_mem less_le_trans by blast
  moreover have "nat y < 10000"
    using assms by (auto simp: rfc3339_range_def y_def day_def secs_def nat_less_iff)
  moreover have "n < 86400" by (simp add: n_def nat_less_iff)
  moreover have "FormatRFC3339 t = pad4 (nat y) @ ''-'' @ pad2 m @ ''-'' @ pad2 (Suc (nat d)) @ ''T''
      @ pad2 (n div 3600) @ '':'' @ pad2 (n mod 3600 div 60) @ '':'' @ pad2 (n mod 60) @ ''Z''"
    using md by (simp add: FormatRFC3339_def Let_def secs_def day_def y_def n_def)
  ultimately show ?thesis
    using f(2) clock_fields [of n] by (simp add: codec_simps pad2 pad4 lit)
qed

end
