(* ===== verification/KvStorage.thy ===== *)
theory KvStorage
  imports Engine GoTime
begin

text \<open>
  The key-value engine, \<open>pkg/storage\<close>: payloads (\<open>payload.go\<close>) and the operations of \<open>storage.go\<close>
  except for the snapshot codec.  An operation takes the logger, the instant at which it runs and its
  arguments, and a pair of the engine and the logger's state; it returns its result with the new pair.
  The argument \<open>ks\<close> of an operation that ranges over \<open>data\<close> is the order in which the keys are visited.
  A compiled regular expression is a predicate, and \<open>regexp.Compile\<close> is the parameter \<open>compile\<close>.
\<close>

record PayloadMetadata =
  createdAt :: time
  expiresAt :: "time option"

record Payload =
  pvalue :: bytes
  metadata :: PayloadMetadata

definition NewPayloadMetadata :: "time \<Rightarrow> time option \<Rightarrow> PayloadMetadata" where
  "NewPayloadMetadata c x = \<lparr>createdAt = c, expiresAt = x\<rparr>"

definition NewPayload :: "bytes \<Rightarrow> PayloadMetadata \<Rightarrow> Payload" where
  "NewPayload v md = \<lparr>pvalue = v, metadata = md\<rparr>"

definition payload_expiry :: "Payload \<Rightarrow> time option" where
  "payload_expiry p = expiresAt (metadata p)"

definition IsExpired :: "PayloadMetadata \<Rightarrow> time \<Rightarrow> bool" where
  "IsExpired md now = expired (expiresAt md) now"

type_synonym Storage = "Payload engine"

subsection \<open>Writing\<close>

definition kv_setNoLock ::
  "'w logger \<Rightarrow> string \<Rightarrow> bytes \<Rightarrow> PayloadMetadata \<Rightarrow> Storage \<times> 'w \<Rightarrow> (goerr option \<times> Storage \<times> 'w) option" where
  "kv_setNoLock lg key value md = (\<lambda>(e, w). do {
     e2 \<leftarrow> dropExpiration key (e\<lparr>data := (data e)(key \<mapsto> NewPayload value md)\<rparr>);
     let e3 = addExpiration key (expiresAt md) e2;
     case lg ''kv'' ''SET'' [PathEscape key, EncodeToString value, expires_str (expiresAt md)] w of
       (err, w') \<Rightarrow> Some (err, e3, w') })"

definition kv_Set ::
  "'w logger \<Rightarrow> string \<Rightarrow> bytes \<Rightarrow> PayloadMetadata \<Rightarrow> Storage \<times> 'w \<Rightarrow> (goerr option \<times> Storage \<times> 'w) option" where
  "kv_Set lg key value md s = kv_setNoLock lg key value md s"

fun kv_msetNoLock ::
  "'w logger \<Rightarrow> (string \<times> Payload) list \<Rightarrow> Storage \<times> 'w \<Rightarrow> (goerr option \<times> Storage \<times> 'w) option" where
  "kv_msetNoLock lg [] s = Some (None, s)"
| "kv_msetNoLock lg ((k, v) # kvs) s = do {
     (err, s') \<leftarrow> kv_setNoLock lg k (pvalue v) (metadata v) s;
     if err \<noteq> None then Some (err, s') else kv_msetNoLock lg kvs s' }"

definition kv_Mset ::
  "'w logger \<Rightarrow> (string \<times> Payload) list \<Rightarrow> Storage \<times> 'w \<Rightarrow> (goerr option \<times> Storage \<times> 'w) option" where
  "kv_Mset lg kvs s = kv_msetNoLock lg kvs s"

definition kv_SetWithTTL ::
  "'w logger \<Rightarrow> time \<Rightarrow> string \<Rightarrow> bytes \<Rightarrow> int \<Rightarrow> Storage \<times> 'w \<Rightarrow> (goerr option \<times> Storage \<times> 'w) option" where
  "kv_SetWithTTL lg now key value ttl s =
     kv_Set lg key value (NewPayloadMetadata now (Some (now + ttl))) s"

fun kv_msetWithTTL_loop ::
  "'w logger \<Rightarrow> PayloadMetadata \<Rightarrow> (string \<times> Payload) list \<Rightarrow> Storage \<times> 'w \<Rightarrow>
   (goerr option \<times> Storage \<times> 'w) option" where
  "kv_msetWithTTL_loop lg md [] s = Some (None, s)"
| "kv_msetWithTTL_loop lg md ((k, v) # kvs) s = do {
     (err, s') \<leftarrow> kv_setNoLock lg k (pvalue v) md s;
     if err \<noteq> None then Some (err, s') else kv_msetWithTTL_loop lg md kvs s' }"

definition kv_msetWithTTLNoLock ::
  "'w logger \<Rightarrow> time \<Rightarrow> (string \<times> Payload) list \<Rightarrow> int \<Rightarrow> Storage \<times> 'w \<Rightarrow>
   (goerr option \<times> Storage \<times> 'w) option" where
  "kv_msetWithTTLNoLock lg now kvs ttl s =
     kv_msetWithTTL_loop lg (NewPayloadMetadata now (Some (now + ttl))) kvs s"

definition kv_MsetWithTTL ::
  "'w logger \<Rightarrow> time \<Rightarrow> (string \<times> Payload) list \<Rightarrow> int \<Rightarrow> Storage \<times> 'w \<Rightarrow>
   (goerr option \<times> Storage \<times> 'w) option" where
  "kv_MsetWithTTL lg now kvs ttl s = kv_msetWithTTLNoLock lg now kvs ttl s"

definition kv_Delete ::
  "'w logger \<Rightarrow> string \<Rightarrow> Storage \<times> 'w \<Rightarrow> (goerr option \<times> Storage \<times> 'w) option" where
  "kv_Delete lg key s = engine_Delete lg ''kv'' key s"

definition kv_resetNoLock :: "Storage \<Rightarrow> Storage" where
  "kv_resetNoLock e = e\<lparr>data := Map.empty, expirations := empty_heap, expirationMap := Map.empty\<rparr>"

definition kv_Reset :: "Storage \<Rightarrow> Storage" where
  "kv_Reset e = kv_resetNoLock e"

definition kv_Clear :: "Storage \<Rightarrow> Storage" where
  "kv_Clear e = clearNoLock e"

subsection \<open>Counters\<close>

definition kv_incrementByNoLock ::
  "'w logger \<Rightarrow> time \<Rightarrow> string \<Rightarrow> int \<Rightarrow> Storage \<times> 'w \<Rightarrow> ((goerr + int) \<times> Storage \<times> 'w) option" where
  "kv_incrementByNoLock lg now key amount = (\<lambda>(e, w).
     (let oper = (if amount < 0 then ''DECREMENT'' else ''INCREMENT'') in
      case data e key of
        None \<Rightarrow> Some (Inl (not_found key oper), e, w)
      | Some p \<Rightarrow>
          if IsExpired (metadata p) now then
            (case lg ''kv'' ''DELETE'' [PathEscape key] w of
               (None, w') \<Rightarrow> do { e' \<leftarrow> deleteNoLock key e; Some (Inl (key_expired key oper), e', w') }
             | (Some err, w') \<Rightarrow> Some (Inl (key_expired key oper), e, w'))
          else
            (case ParseInt (pvalue p) of
               (intVal, Some err) \<Rightarrow>
                 Some (Inl (KeyError key (Sentinel KeyNotIntegerError) (pvalue p) oper), e, w)
             | (intVal, None) \<Rightarrow>
                 (let newVal = wrap64 (intVal + amount);
                      newValueBytes = FormatInt newVal;
                      e1 = e\<lparr>data := (data e)(key \<mapsto> NewPayload newValueBytes (metadata p))\<rparr>
                  in case lg ''kv'' ''SET''
                            [PathEscape key, EncodeToString newValueBytes, expires_str (expiresAt (metadata p))] w of
                       (Some err, w') \<Rightarrow> Some (Inl err, e1, w')
                     | (None, w') \<Rightarrow> Some (Inr newVal, e1, w')))))"

definition kv_IncrementBy ::
  "'w logger \<Rightarrow> time \<Rightarrow> string \<Rightarrow> int \<Rightarrow> Storage \<times> 'w \<Rightarrow> ((goerr + int) \<times> Storage \<times> 'w) option" where
  "kv_IncrementBy lg now key amount s = kv_incrementByNoLock lg now key amount s"

definition kv_Increment ::
  "'w logger \<Rightarrow> time \<Rightarrow> string \<Rightarrow> Storage \<times> 'w \<Rightarrow> ((goerr + int) \<times> Storage \<times> 'w) option" where
  "kv_Increment lg now key s = kv_incrementByNoLock lg now key 1 s"

definition kv_DecrementBy ::
  "'w logger \<Rightarrow> time \<Rightarrow> string \<Rightarrow> int \<Rightarrow> Storage \<times> 'w \<Rightarrow> ((goerr + int) \<times> Storage \<times> 'w) option" where
  "kv_DecrementBy lg now key amount s = kv_incrementByNoLock lg now key (wrap64 (- amount)) s"

definition kv_Decrement ::
  "'w logger \<Rightarrow> time \<Rightarrow> string \<Rightarrow> Storage \<times> 'w \<Rightarrow> ((goerr + int) \<times> Storage \<times> 'w) option" where
  "kv_Decrement lg now key s = kv_incrementByNoLock lg now key (-1) s"

subsection \<open>Reading, with eviction of the expired\<close>

text \<open>
  \<open>Get\<close> and \<open>Exists\<close> look at the key under the read lock; when it has expired they release the lock
  and call \<open>Delete\<close>.  The flag says that \<open>Delete\<close> is to follow.
\<close>

definition kv_Get_read :: "time \<Rightarrow> string \<Rightarrow> Storage \<Rightarrow> (goerr + bytes) \<times> bool" where
  "kv_Get_read now key e =
     (case data e key of
        None \<Rightarrow> (Inl (not_found key ''GET''), False)
      | Some p \<Rightarrow>
          if IsExpired (metadata p) now then (Inl (key_expired key ''GET''), True)
          else (Inr (pvalue p), False))"

definition kv_Get ::
  "'w logger \<Rightarrow> time \<Rightarrow> string \<Rightarrow> Storage \<times> 'w \<Rightarrow> ((goerr + bytes) \<times> Storage \<times> 'w) option" where
  "kv_Get lg now key s =
     (case kv_Get_read now key (fst s) of (r, must_delete) \<Rightarrow>
        if must_delete then do { (err, s') \<leftarrow> kv_Delete lg key s; Some (r, s') } else Some (r, s))"

definition kv_Exists ::
  "'w logger \<Rightarrow> time \<Rightarrow> string \<Rightarrow> Storage \<times> 'w \<Rightarrow> (bool \<times> Storage \<times> 'w) option" where
  "kv_Exists lg now key s =
     (case data (fst s) key of
        None \<Rightarrow> Some (False, s)
      | Some p \<Rightarrow>
          if IsExpired (metadata p) now then do { (err, s') \<leftarrow> kv_Delete lg key s; Some (False, s') }
          else Some (True, s))"

fun kv_deleteExpiredKeys ::
  "'w logger \<Rightarrow> time \<Rightarrow> string list \<Rightarrow> Storage \<times> 'w \<Rightarrow> (Storage \<times> 'w) option" where
  "kv_deleteExpiredKeys lg now [] s = Some s"
| "kv_deleteExpiredKeys lg now (key # keys) (e, w) =
     (case data e key of
        None \<Rightarrow> kv_deleteExpiredKeys lg now keys (e, w)
      | Some p \<Rightarrow>
          if IsExpired (metadata p) now then
            (case lg ''kv'' ''DELETE'' [PathEscape key] w of
               (None, w') \<Rightarrow> do { e' \<leftarrow> deleteNoLock key e; kv_deleteExpiredKeys lg now keys (e', w') }
             | (Some err, w') \<Rightarrow> kv_deleteExpiredKeys lg now keys (e, w'))
          else kv_deleteExpiredKeys lg now keys (e, w))"

fun kv_mget_loop ::
  "time \<Rightarrow> (string \<rightharpoonup> Payload) \<Rightarrow> string list \<Rightarrow> (string \<rightharpoonup> bytes option) \<Rightarrow> string list \<Rightarrow>
   (string \<rightharpoonup> bytes option) \<times> string list" where
  "kv_mget_loop now m [] result expiredKeys = (result, expiredKeys)"
| "kv_mget_loop now m (key # keys) result expiredKeys =
     (case m key of
        Some p \<Rightarrow>
          if IsExpired (metadata p) now
          then kv_mget_loop now m keys (result(key \<mapsto> None)) (expiredKeys @ [key])
          else kv_mget_loop now m keys (result(key \<mapsto> Some (pvalue p))) expiredKeys
      | None \<Rightarrow> kv_mget_loop now m keys (result(key \<mapsto> None)) expiredKeys)"

definition kv_Mget ::
  "'w logger \<Rightarrow> time \<Rightarrow> string list \<Rightarrow> Storage \<times> 'w \<Rightarrow> ((string \<rightharpoonup> bytes option) \<times> Storage \<times> 'w) option" where
  "kv_Mget lg now keys s =
     (case kv_mget_loop now (data (fst s)) keys Map.empty [] of (result, expiredKeys) \<Rightarrow> do {
        s' \<leftarrow> (if expiredKeys \<noteq> [] then kv_deleteExpiredKeys lg now expiredKeys s else Some s);
        Some (result, s') })"

definition kv_count ::
  "'w logger \<Rightarrow> time \<Rightarrow> string list \<Rightarrow> (string \<Rightarrow> bool) \<Rightarrow> Storage \<times> 'w \<Rightarrow> (int \<times> Storage \<times> 'w) option" where
  "kv_count lg now ks p s =
     (case count_loop payload_expiry now p (data (fst s)) ks 0 [] of (count, expiredKeys) \<Rightarrow> do {
        s' \<leftarrow> (if expiredKeys \<noteq> [] then kv_deleteExpiredKeys lg now expiredKeys s else Some s);
        Some (count, s') })"

definition kv_find ::
  "'w logger \<Rightarrow> time \<Rightarrow> string list \<Rightarrow> (string \<Rightarrow> bool) \<Rightarrow> Storage \<times> 'w \<Rightarrow>
   ((string \<rightharpoonup> bytes) \<times> Storage \<times> 'w) option" where
  "kv_find lg now ks p s =
     (case find_loop payload_expiry pvalue now p (data (fst s)) ks Map.empty [] of (result, expiredKeys) \<Rightarrow> do {
        s' \<leftarrow> (if expiredKeys \<noteq> [] then kv_deleteExpiredKeys lg now expiredKeys s else Some s);
        Some (result, s') })"

definition kv_CountByPrefix where
  "kv_CountByPrefix lg now ks prefix s = kv_count lg now ks (\<lambda>k. HasPrefix k prefix) s"

definition kv_CountBySuffix where
  "kv_CountBySuffix lg now ks suffix s = kv_count lg now ks (\<lambda>k. HasSuffix k suffix) s"

definition kv_CountByRegex ::
  "(string \<Rightarrow> goerr + (string \<Rightarrow> bool)) \<Rightarrow> 'w logger \<Rightarrow> time \<Rightarrow> string list \<Rightarrow> string \<Rightarrow> Storage \<times> 'w \<Rightarrow>
   ((goerr + int) \<times> Storage \<times> 'w) option" where
  "kv_CountByRegex compile lg now ks regex s =
     (case compile regex of
        Inl err \<Rightarrow> Some (Inl (RegexError regex err), s)
      | Inr re \<Rightarrow> do { (n, s') \<leftarrow> kv_count lg now ks re s; Some (Inr n, s') })"

definition kv_FindByPrefix where
  "kv_FindByPrefix lg now ks prefix s = kv_find lg now ks (\<lambda>k. HasPrefix k prefix) s"

definition kv_FindBySuffix where
  "kv_FindBySuffix lg now ks suffix s = kv_find lg now ks (\<lambda>k. HasSuffix k suffix) s"

definition kv_FindByRegex ::
  "(string \<Rightarrow> goerr + (string \<Rightarrow> bool)) \<Rightarrow> 'w logger \<Rightarrow> time \<Rightarrow> string list \<Rightarrow> string \<Rightarrow> Storage \<times> 'w \<Rightarrow>
   ((goerr + (string \<rightharpoonup> bytes)) \<times> Storage \<times> 'w) option" where
  "kv_FindByRegex compile lg now ks regex s =
     (case compile regex of
        Inl err \<Rightarrow> Some (Inl (RegexError regex err), s)
      | Inr re \<Rightarrow> do { (m, s') \<leftarrow> kv_find lg now ks re s; Some (Inr m, s') })"

subsection \<open>Deleting by pattern\<close>

text \<open>The variants for prefixes and suffixes stop at a log failure too, and return the count alone.\<close>

definition kv_deleteByPrefixNoLock where
  "kv_deleteByPrefixNoLock lg now ks prefix s =
     map_option (\<lambda>((count, err), s'). (count, s'))
       (delete_loop lg ''kv'' payload_expiry now (\<lambda>k. HasPrefix k prefix) ks 0 s)"

definition kv_deleteBySuffixNoLock where
  "kv_deleteBySuffixNoLock lg now ks suffix s =
     map_option (\<lambda>((count, err), s'). (count, s'))
       (delete_loop lg ''kv'' payload_expiry now (\<lambda>k. HasSuffix k suffix) ks 0 s)"

definition kv_deleteByRegexNoLock where
  "kv_deleteByRegexNoLock lg now ks re s = delete_loop lg ''kv'' payload_expiry now re ks 0 s"

definition kv_DeleteByPrefix where
  "kv_DeleteByPrefix lg now ks prefix s = kv_deleteByPrefixNoLock lg now ks prefix s"

definition kv_DeleteBySuffix where
  "kv_DeleteBySuffix lg now ks suffix s = kv_deleteBySuffixNoLock lg now ks suffix s"

definition kv_DeleteByRegex ::
  "(string \<Rightarrow> goerr + (string \<Rightarrow> bool)) \<Rightarrow> 'w logger \<Rightarrow> time \<Rightarrow> string list \<Rightarrow> string \<Rightarrow> Storage \<times> 'w \<Rightarrow>
   ((int \<times> goerr option) \<times> Storage \<times> 'w) option" where
  "kv_DeleteByRegex compile lg now ks regex s =
     (case compile regex of
        Inl err \<Rightarrow> Some ((0, Some (RegexError regex err)), s)
      | Inr re \<Rightarrow> kv_deleteByRegexNoLock lg now ks re s)"

subsection \<open>Expiry, recovery, inspection\<close>

definition kv_cleanupExpiredNoLock :: "time \<Rightarrow> Storage \<Rightarrow> Storage option" where
  "kv_cleanupExpiredNoLock now e =
     map_option fst
       (cleanup_loop (\<lambda>key (e, u). do { e' \<leftarrow> deleteNoLock key e; Some (e', u) }) now (e, ()))"

definition kv_CleanupExpired :: "time \<Rightarrow> Storage \<Rightarrow> Storage option" where
  "kv_CleanupExpired now e = kv_cleanupExpiredNoLock now e"

definition kv_ProcessWalEntry :: "time \<Rightarrow> string \<Rightarrow> string list \<Rightarrow> Storage \<Rightarrow> Storage option" where
  "kv_ProcessWalEntry now action args e =
     (if action = ''DELETE'' then
        (case args of [] \<Rightarrow> Some e | a # _ \<Rightarrow> deleteNoLock (unescape_or_raw a) e)
      else if action = ''SET'' then
        (case args of
           a # b # expiresStr # _ \<Rightarrow>
             (let key = unescape_or_raw a; value = decode_or_raw b in
              if expiresStr = ''PERSISTENT'' then do {
                e2 \<leftarrow> dropExpiration key (e\<lparr>data := (data e)(key \<mapsto> NewPayload value (NewPayloadMetadata now None))\<rparr>);
                Some (addExpiration key None e2) }
              else
                (case ParseRFC3339 expiresStr of
                   None \<Rightarrow> Some e
                 | Some t \<Rightarrow>
                     if t < now then Some e
                     else do {
                       e2 \<leftarrow> dropExpiration key
                              (e\<lparr>data := (data e)(key \<mapsto> NewPayload value (NewPayloadMetadata now (Some t)))\<rparr>);
                       Some (addExpiration key (Some t) e2) }))
         | _ \<Rightarrow> Some e)
      else Some e)"

definition kv_SnapshotKey :: "time \<Rightarrow> string \<Rightarrow> Storage \<Rightarrow> Payload option" where
  "kv_SnapshotKey now key e =
     (case data e key of None \<Rightarrow> None | Some p \<Rightarrow> if IsExpired (metadata p) now then None else Some p)"

definition kv_KeyCount :: "Storage \<Rightarrow> nat" where
  "kv_KeyCount e = card (dom (data e))"

text \<open>An estimate; \<open>caps\<close> gives the capacity of the slice of a value, which the language leaves open.\<close>

definition kv_MemoryUsageBytes :: "(string \<Rightarrow> nat) \<Rightarrow> Storage \<Rightarrow> int" where
  "kv_MemoryUsageBytes caps e =
     wrap64 (\<Sum>k \<in> dom (data e). int (16 + length k) + 40 + int (24 + caps k))"

end
