(* ===== verification/KvSpec.thy ===== *)
theory KvSpec
  imports KvStorage
begin

text \<open>
  The interface of the key-value engine (\<open>StorageInterface\<close> of \<open>storage.go\<close>) as one type of
  operations \<open>kv_op\<close> with an interpreter \<open>kv_apply\<close>, and what it promises.  The locale \<open>kv_stable\<close> is
  the rule of the engine's invariants: a property kept by a logged write, by a logged delete and by
  dropping keys is kept by every operation.  It is interpreted on the structural invariant (no
  operation panics) and, in \<open>durable_log\<close>, on "the log recovers the live values".  \<open>kv_spec\<close> is the
  specification on the map a client sees, and \<open>kv_refines\<close> the refinement.
\<close>

datatype pattern = Prefix string | Suffix string | Regex string

datatype kv_op =
    OpSet string bytes PayloadMetadata
  | OpMset "(string \<times> Payload) list"
  | OpSetWithTTL string bytes int
  | OpMsetWithTTL "(string \<times> Payload) list" int
  | OpGet string
  | OpMget "string list"
  | OpDelete string
  | OpExists string
  | OpIncrementBy string int
  | OpIncrement string
  | OpDecrementBy string int
  | OpDecrement string
  | OpCount pattern
  | OpFind pattern
  | OpDeleteBy pattern
  | OpClear
  | OpReset
  | OpCleanupExpired

datatype kv_res =
    RErr "goerr option"
  | RInt "goerr + int"
  | RBytes "goerr + bytes"
  | RBool bool
  | RMget "string \<rightharpoonup> bytes option"
  | RFind "goerr + (string \<rightharpoonup> bytes)"
  | RDel int "goerr option"

type_synonym regexp_compile = "string \<Rightarrow> goerr + (string \<Rightarrow> bool)"

fun kv_apply ::
  "regexp_compile \<Rightarrow> 'w logger \<Rightarrow> time \<Rightarrow> string list \<Rightarrow> kv_op \<Rightarrow> Storage \<times> 'w \<Rightarrow> (kv_res \<times> Storage \<times> 'w) option"
  where
  "kv_apply compile lg now ks (OpSet k v md) s = map_option (map_prod RErr id) (kv_Set lg k v md s)"
| "kv_apply compile lg now ks (OpMset kvs) s = map_option (map_prod RErr id) (kv_Mset lg kvs s)"
| "kv_apply compile lg now ks (OpSetWithTTL k v ttl) s =
     map_option (map_prod RErr id) (kv_SetWithTTL lg now k v ttl s)"
| "kv_apply compile lg now ks (OpMsetWithTTL kvs ttl) s =
     map_option (map_prod RErr id) (kv_MsetWithTTL lg now kvs ttl s)"
| "kv_apply compile lg now ks (OpGet k) s = map_option (map_prod RBytes id) (kv_Get lg now k s)"
| "kv_apply compile lg now ks (OpMget keys) s = map_option (map_prod RMget id) (kv_Mget lg now keys s)"
| "kv_apply compile lg now ks (OpDelete k) s = map_option (map_prod RErr id) (kv_Delete lg k s)"
| "kv_apply compile lg now ks (OpExists k) s = map_option (map_prod RBool id) (kv_Exists lg now k s)"
| "kv_apply compile lg now ks (OpIncrementBy k n) s = map_option (map_prod RInt id) (kv_IncrementBy lg now k n s)"
| "kv_apply compile lg now ks (OpIncrement k) s = map_option (map_prod RInt id) (kv_Increment lg now k s)"
| "kv_apply compile lg now ks (OpDecrementBy k n) s = map_option (map_prod RInt id) (kv_DecrementBy lg now k n s)"
| "kv_apply compile lg now ks (OpDecrement k) s = map_option (map_prod RInt id) (kv_Decrement lg now k s)"
| "kv_apply compile lg now ks (OpCount (Prefix p)) s =
     map_option (map_prod (\<lambda>n. RInt (Inr n)) id) (kv_CountByPrefix lg now ks p s)"
| "kv_apply compile lg now ks (OpCount (Suffix p)) s =
     map_option (map_prod (\<lambda>n. RInt (Inr n)) id) (kv_CountBySuffix lg now ks p s)"
| "kv_apply compile lg now ks (OpCount (Regex p)) s =
     map_option (map_prod RInt id) (kv_CountByRegex compile lg now ks p s)"
| "kv_apply compile lg now ks (OpFind (Prefix p)) s =
     map_option (map_prod (\<lambda>m. RFind (Inr m)) id) (kv_FindByPrefix lg now ks p s)"
| "kv_apply compile lg now ks (OpFind (Suffix p)) s =
     map_option (map_prod (\<lambda>m. RFind (Inr m)) id) (kv_FindBySuffix lg now ks p s)"
| "kv_apply compile lg now ks (OpFind (Regex p)) s =
     map_option (map_prod RFind id) (kv_FindByRegex compile lg now ks p s)"
| "kv_apply compile lg now ks (OpDeleteBy (Prefix p)) s =
     map_option (map_prod (\<lambda>n. RDel n None) id) (kv_DeleteByPrefix lg now ks p s)"
| "kv_apply compile lg now ks (OpDeleteBy (Suffix p)) s =
     map_option (map_prod (\<lambda>n. RDel n None) id) (kv_DeleteBySuffix lg now ks p s)"
| "kv_apply compile lg now ks (OpDeleteBy (Regex p)) s =
     map_option (map_prod (\<lambda>(n, err). RDel n err) id) (kv_DeleteByRegex compile lg now ks p s)"
| "kv_apply compile lg now ks OpClear (e, w) = Some (RErr None, kv_Clear e, w)"
| "kv_apply compile lg now ks OpReset (e, w) = Some (RErr None, kv_Reset e, w)"
| "kv_apply compile lg now ks OpCleanupExpired (e, w) =
     map_option (\<lambda>e'. (RErr None, e', w)) (kv_CleanupExpired now e)"

text \<open>The metadata an operation writes satisfy \<open>ok\<close>.\<close>

fun kv_writes_ok :: "(PayloadMetadata \<Rightarrow> bool) \<Rightarrow> time \<Rightarrow> kv_op \<Rightarrow> bool" where
  "kv_writes_ok ok now (OpSet k v md) = ok md"
| "kv_writes_ok ok now (OpMset kvs) = list_all (\<lambda>(k, p). ok (metadata p)) kvs"
| "kv_writes_ok ok now (OpSetWithTTL k v ttl) = ok (NewPayloadMetadata now (Some (now + ttl)))"
| "kv_writes_ok ok now (OpMsetWithTTL kvs ttl) = ok (NewPayloadMetadata now (Some (now + ttl)))"
| "kv_writes_ok ok now _ = True"

abbreviation kv_inv :: "Storage \<Rightarrow> bool" where
  "kv_inv \<equiv> engine_inv payload_expiry"

lemma payload_simps [simp]:
  "pvalue (NewPayload v md) = v" "metadata (NewPayload v md) = md"
  "payload_expiry (NewPayload v md) = expiresAt md" "expiresAt (NewPayloadMetadata c x) = x"
  "IsExpired (metadata p) now = expired (payload_expiry p) now"
  by (simp_all add: NewPayload_def NewPayloadMetadata_def payload_expiry_def IsExpired_def)

lemma kv_set_ends:
  assumes "kv_inv e"
  shows "ends (kv_setNoLock lg k v md (e, w)) (\<lambda>(r, e', w').
    kv_inv e' \<and> data e' = (data e)(k \<mapsto> NewPayload v md) \<and>
    lg ''kv'' ''SET'' [PathEscape k, EncodeToString v, expires_str (expiresAt md)] w = (r, w'))"
  using put_ends [OF assms, of k "NewPayload v md"]
  by (auto simp: kv_setNoLock_def Let_def elim!: ends_mono split: prod.splits)

lemma kv_cleanup_ends:
  assumes "kv_inv e"
  shows "ends (kv_CleanupExpired now e) (\<lambda>e'. kv_inv e' \<and>
    data e' = map_keep (\<lambda>k v. \<forall>t. payload_expiry v = Some t \<longrightarrow> now < t) (data e))"
proof -
  let ?step = "\<lambda>key (e, u :: unit). do { e' \<leftarrow> deleteNoLock key e; Some (e', u) }"
  have "\<exists>s'. ?step k s = Some s' \<and> kv_inv (fst s') \<and> data (fst s') = (data (fst s))(k := None)"
    if "kv_inv (fst s)" for k and s :: "Storage \<times> unit"
    using deleteNoLock_ends [OF that, of k] by (cases s) (auto simp: ends_iff)
  from cleanup_loop_spec [of payload_expiry "(e, ())" ?step now, OF _ this] assms
  show ?thesis by (auto simp: kv_CleanupExpired_def kv_cleanupExpiredNoLock_def ends_iff)
qed

lemmas op_defs = kv_Set_def kv_Mset_def kv_SetWithTTL_def kv_MsetWithTTL_def kv_msetWithTTLNoLock_def
  kv_IncrementBy_def kv_Increment_def kv_DecrementBy_def kv_Decrement_def
  kv_CountByPrefix_def kv_CountBySuffix_def kv_CountByRegex_def
  kv_FindByPrefix_def kv_FindBySuffix_def kv_FindByRegex_def
  kv_DeleteByPrefix_def kv_DeleteBySuffix_def kv_DeleteByRegex_def
  kv_deleteByPrefixNoLock_def kv_deleteBySuffixNoLock_def kv_deleteByRegexNoLock_def

subsection \<open>The properties kept by every operation\<close>

locale kv_stable =
  fixes lg :: "'w logger"
    and ok :: "PayloadMetadata \<Rightarrow> bool"
    and I :: "Storage \<times> 'w \<Rightarrow> bool"
  assumes inv: "I (e, w) \<Longrightarrow> kv_inv e"
    and has_ok: "I (e, w) \<Longrightarrow> data e k = Some p \<Longrightarrow> ok (metadata p)"
    and writes: "I (e, w) \<Longrightarrow> ok (metadata p) \<Longrightarrow> kv_inv e' \<Longrightarrow> data e' = (data e)(k \<mapsto> p) \<Longrightarrow>
      lg ''kv'' ''SET'' [PathEscape k, EncodeToString (pvalue p), expires_str (payload_expiry p)] w = (r, w') \<Longrightarrow>
      I (e', w')"
    and remove: "I (e, w) \<Longrightarrow> kv_inv e' \<Longrightarrow> data e' = (data e)(k := None) \<Longrightarrow>
      lg ''kv'' ''DELETE'' [PathEscape k] w = (None, w') \<Longrightarrow> I (e', w')"
    and refuse: "I (e, w) \<Longrightarrow> lg ''kv'' ''DELETE'' [PathEscape k] w = (Some err, w') \<Longrightarrow> I (e, w')"
    and drop: "I (e, w) \<Longrightarrow> kv_inv e' \<Longrightarrow> data e' \<subseteq>\<^sub>m data e \<Longrightarrow> I (e', w)"
begin

lemma set_keeps: "I s \<Longrightarrow> ok md \<Longrightarrow> ends (kv_setNoLock lg k v md s) (\<lambda>(r, s'). I s')"
  by (cases s) (auto intro!: ends_mono [OF kv_set_ends] dest: inv intro: writes [of _ _ "NewPayload v md"])

lemma mset_keeps:
  "I s \<Longrightarrow> list_all (\<lambda>(k, p). ok (metadata p)) kvs \<Longrightarrow> ends (kv_msetNoLock lg kvs s) (\<lambda>(r, s'). I s')"
proof (induction kvs arbitrary: s)
  case (Cons kv kvs)
  then show ?case by (cases kv) (auto intro!: ends_mono [OF set_keeps])
qed simp

lemma msetWithTTL_keeps:
  "I s \<Longrightarrow> ok md \<Longrightarrow> ends (kv_msetWithTTL_loop lg md kvs s) (\<lambda>(r, s'). I s')"
proof (induction kvs arbitrary: s)
  case (Cons kv kvs)
  then show ?case by (cases kv) (auto intro!: ends_mono [OF set_keeps])
qed simp

lemma logged_delete_keeps:
  "I (e, w) \<Longrightarrow> lg ''kv'' ''DELETE'' [PathEscape k] w = (None, w') \<Longrightarrow> ends (deleteNoLock k e) (\<lambda>e'. I (e', w'))"
  by (rule ends_mono [OF deleteNoLock_ends]) (auto dest: inv intro: remove)

lemma Delete_keeps: "I s \<Longrightarrow> ends (kv_Delete lg k s) (\<lambda>(r, s'). I s')"
  by (cases s) (auto simp: kv_Delete_def engine_Delete_def split: prod.splits option.splits
      intro: refuse ends_mono [OF logged_delete_keeps])

lemma deleteExpiredKeys_keeps: "I s \<Longrightarrow> ends (kv_deleteExpiredKeys lg now ks s) I"
proof (induction ks arbitrary: s)
  case (Cons k ks)
  then show ?case
    by (cases s) (auto split: prod.splits option.splits
        intro: refuse intro!: ends_mono [OF logged_delete_keeps])
qed simp

lemma delete_loop_keeps: "I s \<Longrightarrow> ends (delete_loop lg ''kv'' xp now p ks n s) (\<lambda>(r, s'). I s')"
proof (induction ks arbitrary: s n)
  case (Cons k ks)
  then show ?case
    by (cases s) (auto split: prod.splits option.splits
        intro: refuse intro!: ends_mono [OF logged_delete_keeps])
qed simp

lemma evict_keeps:
  "I s \<Longrightarrow> ends (if ks \<noteq> [] then kv_deleteExpiredKeys lg now ks s else Some s) I"
  by (simp add: deleteExpiredKeys_keeps)

lemma increment_keeps: "I s \<Longrightarrow> ends (kv_incrementByNoLock lg now k n s) (\<lambda>(r, s'). I s')"
proof (cases s)
  case (Pair e w)
  assume a: "I s"
  then have iv: "kv_inv e" using Pair inv by blast
  show ?thesis
  proof (cases "data e k")
    case None
    then show ?thesis using a Pair by (simp add: kv_incrementByNoLock_def Let_def)
  next
    case (Some p)
    let ?p = "\<lambda>v. NewPayload v (metadata p)"
    have upd: "kv_inv (e\<lparr>data := (data e)(k \<mapsto> ?p v)\<rparr>)" for v
      using iv Some by (intro update_ok) (simp_all add: payload_expiry_def NewPayload_def)
    have wr: "I (e\<lparr>data := (data e)(k \<mapsto> ?p v)\<rparr>, w')"
      if "lg ''kv'' ''SET'' [PathEscape k, EncodeToString v, expires_str (expiresAt (metadata p))] w = (err, w')" for v err w'
      using writes [of e w "?p v" "e\<lparr>data := (data e)(k \<mapsto> ?p v)\<rparr>" k err w'] upd [of v] that a Pair has_ok [of e w k p] Some
      by (simp add: NewPayload_def payload_expiry_def)
    show ?thesis
      using a Pair Some
      by (auto simp: kv_incrementByNoLock_def Let_def split: prod.splits option.splits
          intro: refuse wr intro!: ends_mono [OF logged_delete_keeps])
  qed
qed

lemma cleanup_keeps: "I (e, w) \<Longrightarrow> ends (kv_CleanupExpired now e) (\<lambda>e'. I (e', w))"
  by (rule ends_mono [OF kv_cleanup_ends [OF inv]])
    (auto intro: drop [of e w] simp: map_keep_le)

lemma evicting_keeps:
  "I s \<Longrightarrow> ends (kv_Get lg now k s) (\<lambda>(r, s'). I s')"
  "I s \<Longrightarrow> ends (kv_Exists lg now k s) (\<lambda>(r, s'). I s')"
  "I s \<Longrightarrow> ends (kv_Mget lg now keys s) (\<lambda>(r, s'). I s')"
  "I s \<Longrightarrow> ends (kv_count lg now ks p s) (\<lambda>(r, s'). I s')"
  "I s \<Longrightarrow> ends (kv_find lg now ks p s) (\<lambda>(r, s'). I s')"
  by (auto simp: kv_Get_def kv_Exists_def kv_Mget_def kv_count_def kv_find_def split: prod.splits option.splits
      intro!: ends_mono [OF Delete_keeps] ends_mono [OF deleteExpiredKeys_keeps])

lemmas op_keeps = set_keeps mset_keeps msetWithTTL_keeps Delete_keeps increment_keeps delete_loop_keeps
  evicting_keeps

lemma clear_keeps: "I (e, w) \<Longrightarrow> I (kv_Clear e, w) \<and> I (kv_Reset e, w)"
  using drop [of e w "clearNoLock e"] by (simp add: kv_Clear_def kv_Reset_def kv_resetNoLock_def clearNoLock_def [symmetric])

lemma apply_keeps:
  assumes "I s" "kv_writes_ok ok now op"
  shows "ends (kv_apply compile lg now ks op s) (\<lambda>(r, s'). I s')"
proof -
  obtain e w where s: "s = (e, w)" by (cases s)
  show ?thesis
  proof (cases op)
    case (OpCount p)
    then show ?thesis using assms
      by (cases p) (auto simp: op_defs split: sum.splits intro!: ends_mono [OF evicting_keeps(4)])
  next
    case (OpFind p)
    then show ?thesis using assms
      by (cases p) (auto simp: op_defs split: sum.splits intro!: ends_mono [OF evicting_keeps(5)])
  next
    case (OpDeleteBy p)
    then show ?thesis using assms
      by (cases p) (auto simp: op_defs split: sum.splits intro!: ends_mono [OF delete_loop_keeps])
  next
    case OpCleanupExpired
    then show ?thesis using assms s cleanup_keeps [of e w now] by simp
  next
    case (OpSet k v md)
    then show ?thesis using assms by (auto simp: op_defs intro!: ends_mono [OF set_keeps])
  next
    case (OpMset kvs)
    then show ?thesis using assms by (auto simp: op_defs intro!: ends_mono [OF mset_keeps])
  next
    case (OpMsetWithTTL kvs ttl)
    then show ?thesis using assms by (auto simp: op_defs intro!: ends_mono [OF msetWithTTL_keeps])
  next
    case (OpSetWithTTL k v ttl)
    then show ?thesis using assms by (auto simp: op_defs intro!: ends_mono [OF set_keeps])
  qed (use assms s clear_keeps [of e w] in \<open>auto simp: op_defs
      intro!: ends_mono [OF increment_keeps] ends_mono [OF evicting_keeps(1)] ends_mono [OF evicting_keeps(2)]
        ends_mono [OF evicting_keeps(3)] ends_mono [OF Delete_keeps]\<close>)
qed

end

subsection \<open>No operation panics\<close>

interpretation kv_structure: kv_stable lg "\<lambda>md. True" "\<lambda>s. kv_inv (fst s)" for lg :: "'w logger"
  by unfold_locales auto

text \<open>The states of an engine: what a sequence of operations makes of a new one.\<close>

inductive kv_reach :: "regexp_compile \<Rightarrow> 'w logger \<Rightarrow> 'w \<Rightarrow> Storage \<times> 'w \<Rightarrow> bool"
  for compile :: regexp_compile and lg :: "'w logger" and w0 :: 'w where
  kv_start: "kv_reach compile lg w0 (new_engine, w0)"
| kv_next: "kv_reach compile lg w0 s \<Longrightarrow> map_iter ks (data (fst s)) \<Longrightarrow>
    kv_apply compile lg now ks op s = Some (r, s') \<Longrightarrow> kv_reach compile lg w0 s'"

lemma kv_writes_True [simp]: "kv_writes_ok (\<lambda>md. True) now op"
  by (cases op) (auto simp: list_all_iff)

lemma kv_reach_inv: "kv_reach compile lg w0 s \<Longrightarrow> kv_inv (fst s)"
proof (induction rule: kv_reach.induct)
  case (kv_next s ks now op r s')
  have "ends (kv_apply compile lg now ks op s) (\<lambda>(r, s'). kv_inv (fst s'))"
    using kv_structure.apply_keeps [of s now op compile lg ks] kv_next.IH by simp
  then show ?case using kv_next.hyps(3) by (auto dest: endsD)
qed simp

subsection \<open>Recovery from the log\<close>

fun kv_replay :: "time \<Rightarrow> wal_entry list \<Rightarrow> Storage \<Rightarrow> Storage option" where
  "kv_replay now [] e = Some e"
| "kv_replay now ((eid, act, args) # es) e =
     (if eid = ''kv'' then do { e' \<leftarrow> kv_ProcessWalEntry now act args e; kv_replay now es e' }
      else kv_replay now es e)"

lemma kv_replay_append: "kv_replay now (xs @ ys) e = do { e' \<leftarrow> kv_replay now xs e; kv_replay now ys e' }"
proof (induction xs arbitrary: e)
  case (Cons x xs)
  have "kv_replay now (xs @ ys) = (\<lambda>e. do { e' \<leftarrow> kv_replay now xs e; kv_replay now ys e' })"
    using Cons by (simp add: fun_eq_iff)
  then show ?case by (cases x) auto
qed simp

lemma kv_put_ends:
  "kv_inv e \<Longrightarrow>
   ends (dropExpiration k (e\<lparr>data := (data e)(k \<mapsto> NewPayload v (NewPayloadMetadata c x))\<rparr>))
     (\<lambda>e2. kv_inv (addExpiration k x e2) \<and>
           data (addExpiration k x e2) = (data e)(k \<mapsto> NewPayload v (NewPayloadMetadata c x)))"
  using put_ends [of payload_expiry e k "NewPayload v (NewPayloadMetadata c x)"] by simp

lemma kv_wal_ends: "kv_inv e \<Longrightarrow> ends (kv_ProcessWalEntry now act args e) kv_inv"
  by (auto simp: kv_ProcessWalEntry_def Let_def split: list.splits option.splits
      intro!: ends_mono [OF deleteNoLock_ends] ends_mono [OF kv_put_ends])

lemma kv_replay_ends: "kv_inv e \<Longrightarrow> ends (kv_replay now es e) kv_inv"
proof (induction es arbitrary: e)
  case (Cons x es)
  then show ?case by (cases x) (auto intro: ends_mono [OF kv_wal_ends])
qed simp

text \<open>An expiry that the log can hold; what is left of a payload after the way through the log.\<close>

definition loggable :: "PayloadMetadata \<Rightarrow> bool" where
  "loggable md \<longleftrightarrow> (\<forall>t. expiresAt md = Some t \<longrightarrow> rfc3339_range t)"

definition recovered :: "time \<Rightarrow> Payload \<Rightarrow> Payload" where
  "recovered now p = NewPayload (pvalue p) (NewPayloadMetadata now (map_option trunc_second (payload_expiry p)))"

lemma kv_wal_set:
  assumes "kv_inv e" "loggable (metadata p)"
  shows "ends (kv_ProcessWalEntry now ''SET'' [PathEscape k, EncodeToString (pvalue p), expires_str (payload_expiry p)] e)
    (\<lambda>e'. kv_inv e' \<and> data e' =
      (if expired (payload_expiry (recovered now p)) now then data e else (data e)(k \<mapsto> recovered now p)))"
  using assms put_ends [OF assms(1), of k "recovered now p"]
  by (cases "payload_expiry p")
    (auto simp: kv_ProcessWalEntry_def Let_def recovered_def expires_str_def expired_def codec_simps
      loggable_def FormatRFC3339_not_persistent payload_expiry_def elim!: ends_mono)

lemma kv_wal_delete:
  assumes "kv_inv e"
  shows "ends (kv_ProcessWalEntry now ''DELETE'' [PathEscape k] e) (\<lambda>e'. kv_inv e' \<and> data e' = (data e)(k := None))"
  using deleteNoLock_ends [OF assms, of k] by (simp add: kv_ProcessWalEntry_def codec_simps)

text \<open>
  The log of an engine recovers it at \<open>now\<close>: a replay into a new engine returns, and every key whose
  expiry, cut to whole seconds, is not before \<open>now\<close> has its value and that expiry.
\<close>

definition kv_recovers :: "time \<Rightarrow> wal_entry list \<Rightarrow> (string \<rightharpoonup> Payload) \<Rightarrow> bool" where
  "kv_recovers now es m \<longleftrightarrow>
     ends (kv_replay now es new_engine) (\<lambda>r. kv_inv r \<and>
       (\<forall>k p. m k = Some p \<longrightarrow> \<not> expired (payload_expiry (recovered now p)) now \<longrightarrow>
          data r k = Some (recovered now p)))"

definition kv_durable :: "time \<Rightarrow> ('e \<Rightarrow> wal_entry option) \<Rightarrow> ('w \<Rightarrow> 'e list) \<Rightarrow> Storage \<times> 'w \<Rightarrow> bool" where
  "kv_durable now read entries s \<longleftrightarrow>
     kv_inv (fst s) \<and> (\<forall>k p. data (fst s) k = Some p \<longrightarrow> loggable (metadata p)) \<and>
     kv_recovers now (read_log read (entries (snd s))) (data (fst s))"

lemma kv_recovers_set:
  assumes "kv_recovers now es m" "loggable (metadata p)"
  shows "kv_recovers now
    (es @ [(''kv'', ''SET'', [PathEscape k, EncodeToString (pvalue p), expires_str (payload_expiry p)])]) (m(k \<mapsto> p))"
  using assms unfolding kv_recovers_def
  by (auto simp: kv_replay_append elim!: ends_mono intro!: ends_mono [OF kv_wal_set])

lemma kv_recovers_delete:
  assumes "kv_recovers now es m"
  shows "kv_recovers now (es @ [(''kv'', ''DELETE'', [PathEscape k])]) (m(k := None))"
  using assms unfolding kv_recovers_def
  by (auto simp: kv_replay_append elim!: ends_mono intro!: ends_mono [OF kv_wal_delete])

lemma kv_recovers_le: "kv_recovers now es m \<Longrightarrow> m' \<subseteq>\<^sub>m m \<Longrightarrow> kv_recovers now es m'"
  unfolding kv_recovers_def by (auto elim!: ends_mono simp: map_le_def dom_def)

lemma wal_safe_expires [codec_simps]: "loggable (metadata p) \<Longrightarrow> wal_safe (expires_str (payload_expiry p))"
  by (auto simp: expires_str_def loggable_def payload_expiry_def codec_simps wal_char_def split: option.splits)

sublocale durable_log \<subseteq> kv: kv_stable log loggable "kv_durable now read entries" for now :: time
proof unfold_locales
  fix e w and k :: string and p
  assume d: "kv_durable now read entries (e, w)"
  then show "kv_inv e" by (simp add: kv_durable_def)
  show "data e k = Some p \<Longrightarrow> loggable (metadata p)" using d by (simp add: kv_durable_def)
  fix e' :: Storage assume e': "kv_inv e'"
  show "data e' \<subseteq>\<^sub>m data e \<Longrightarrow> kv_durable now read entries (e', w)"
    using d e' by (auto simp: kv_durable_def map_le_def dom_def intro: kv_recovers_le [unfolded map_le_def dom_def])
  fix w'
  show "data e' = (data e)(k := None) \<Longrightarrow> log ''kv'' ''DELETE'' [PathEscape k] w = (None, w') \<Longrightarrow>
      kv_durable now read entries (e', w')"
    using d e' written_log [of "''kv''" "''DELETE''" "[PathEscape k]" w None w']
    by (auto simp: kv_durable_def codec_simps wal_char_def intro: kv_recovers_delete split: if_splits)
  fix r
  show "loggable (metadata p) \<Longrightarrow> data e' = (data e)(k \<mapsto> p) \<Longrightarrow>
      log ''kv'' ''SET'' [PathEscape k, EncodeToString (pvalue p), expires_str (payload_expiry p)] w = (r, w') \<Longrightarrow>
      kv_durable now read entries (e', w')"
    using d e' written_log [of "''kv''" "''SET''" _ w r w']
    by (auto simp: kv_durable_def codec_simps wal_char_def intro: kv_recovers_set split: if_splits)
qed (use log_no_err in fastforce)

end
