(* ===== verification/KvRefine.thy ===== *)
theory KvRefine
  imports KvSpec
begin

text \<open>
  What a client of the key-value engine sees, and the refinement.  The client's view at an instant is
  a map from keys to values with their expiry, in which an expired key is absent.  \<open>kv_spec\<close> gives the
  result and the new view of each operation; \<open>kv_refines\<close> (in \<open>KvProps\<close>) says that the engine, with a logger that
  does not fail, implements it.  An error about an expired key counts as one about a missing key.
\<close>

type_synonym kv_map = "string \<rightharpoonup> bytes \<times> time option"

definition kv_abs :: "time \<Rightarrow> Storage \<Rightarrow> kv_map" where
  "kv_abs now e = visible payload_expiry (\<lambda>p. (pvalue p, payload_expiry p)) now e"

fun missing_for_expired :: "goerr \<Rightarrow> goerr" where
  "missing_for_expired (KeyError k (Sentinel KeyExpiredError) v oper) = KeyError k (Sentinel KeyNotFoundError) v oper"
| "missing_for_expired e = e"

fun kv_res_abs :: "kv_res \<Rightarrow> kv_res" where
  "kv_res_abs (RInt r) = RInt (map_sum missing_for_expired id r)"
| "kv_res_abs (RBytes r) = RBytes (map_sum missing_for_expired id r)"
| "kv_res_abs r = r"

definition spec_put :: "time \<Rightarrow> string \<Rightarrow> bytes \<Rightarrow> time option \<Rightarrow> kv_map \<Rightarrow> kv_map" where
  "spec_put now k v x A = (if expired x now then A(k := None) else A(k \<mapsto> (v, x)))"

definition spec_incr :: "string \<Rightarrow> int \<Rightarrow> kv_map \<Rightarrow> kv_res \<times> kv_map" where
  "spec_incr k n A =
     (let oper = (if n < 0 then ''DECREMENT'' else ''INCREMENT'') in
      case A k of
        None \<Rightarrow> (RInt (Inl (not_found k oper)), A)
      | Some (v, x) \<Rightarrow>
          (case ParseInt v of
             (z, Some err) \<Rightarrow> (RInt (Inl (KeyError k (Sentinel KeyNotIntegerError) v oper)), A)
           | (z, None) \<Rightarrow> (RInt (Inr (wrap64 (z + n))), A(k \<mapsto> (FormatInt (wrap64 (z + n)), x)))))"

fun matcher :: "regexp_compile \<Rightarrow> pattern \<Rightarrow> goerr + (string \<Rightarrow> bool)" where
  "matcher compile (Prefix p) = Inr (\<lambda>k. HasPrefix k p)"
| "matcher compile (Suffix p) = Inr (\<lambda>k. HasSuffix k p)"
| "matcher compile (Regex r) = (case compile r of Inl err \<Rightarrow> Inl (RegexError r err) | Inr m \<Rightarrow> Inr m)"

fun kv_spec :: "regexp_compile \<Rightarrow> time \<Rightarrow> kv_op \<Rightarrow> kv_map \<Rightarrow> kv_res \<times> kv_map" where
  "kv_spec compile now (OpSet k v md) A = (RErr None, spec_put now k v (expiresAt md) A)"
| "kv_spec compile now (OpMset kvs) A =
     (RErr None, fold (\<lambda>(k, p). spec_put now k (pvalue p) (payload_expiry p)) kvs A)"
| "kv_spec compile now (OpSetWithTTL k v ttl) A = (RErr None, spec_put now k v (Some (now + ttl)) A)"
| "kv_spec compile now (OpMsetWithTTL kvs ttl) A =
     (RErr None, fold (\<lambda>(k, p). spec_put now k (pvalue p) (Some (now + ttl))) kvs A)"
| "kv_spec compile now (OpGet k) A =
     (RBytes (case A k of None \<Rightarrow> Inl (not_found k ''GET'') | Some (v, x) \<Rightarrow> Inr v), A)"
| "kv_spec compile now (OpMget keys) A =
     (RMget (\<lambda>k. if k \<in> set keys then Some (map_option fst (A k)) else None), A)"
| "kv_spec compile now (OpDelete k) A = (RErr None, A(k := None))"
| "kv_spec compile now (OpExists k) A = (RBool (A k \<noteq> None), A)"
| "kv_spec compile now (OpIncrementBy k n) A = spec_incr k n A"
| "kv_spec compile now (OpIncrement k) A = spec_incr k 1 A"
| "kv_spec compile now (OpDecrementBy k n) A = spec_incr k (wrap64 (- n)) A"
| "kv_spec compile now (OpDecrement k) A = spec_incr k (-1) A"
| "kv_spec compile now (OpCount p) A =
     (RInt (case matcher compile p of Inl err \<Rightarrow> Inl err | Inr m \<Rightarrow> Inr (int (card {k \<in> dom A. m k}))), A)"
| "kv_spec compile now (OpFind p) A =
     (RFind (case matcher compile p of Inl err \<Rightarrow> Inl err
             | Inr m \<Rightarrow> Inr (\<lambda>k. if m k then map_option fst (A k) else None)), A)"
| "kv_spec compile now (OpDeleteBy p) A =
     (case matcher compile p of
        Inl err \<Rightarrow> (RDel 0 (Some err), A)
      | Inr m \<Rightarrow> (RDel (int (card {k \<in> dom A. m k})) None, A |` {k. \<not> m k}))"
| "kv_spec compile now OpClear A = (RErr None, Map.empty)"
| "kv_spec compile now OpReset A = (RErr None, Map.empty)"
| "kv_spec compile now OpCleanupExpired A =
     (RErr None, map_keep (\<lambda>k (v, x). \<forall>t. x = Some t \<longrightarrow> now < t) A)"

subsection \<open>The view and the primitive steps\<close>

lemma kv_abs_Some: "kv_abs now e k = Some (v, x) \<longleftrightarrow>
    (\<exists>p. data e k = Some p \<and> \<not> expired (payload_expiry p) now \<and> v = pvalue p \<and> x = payload_expiry p)"
  by (auto simp: kv_abs_def visible_def alive_Some)

lemma kv_abs_put:
  "data e' = (data e)(k \<mapsto> p) \<Longrightarrow> kv_abs now e' = spec_put now k (pvalue p) (payload_expiry p) (kv_abs now e)"
  unfolding kv_abs_def spec_put_def
  by (drule visible_put [where xp = payload_expiry and f = "\<lambda>p. (pvalue p, payload_expiry p)" and now = now]) auto

lemmas kv_abs_None = visible_None [where xp = payload_expiry and f = "\<lambda>p. (pvalue p, payload_expiry p)", folded kv_abs_def]
lemmas kv_abs_delete = visible_delete [where xp = payload_expiry and f = "\<lambda>p. (pvalue p, payload_expiry p)", folded kv_abs_def]
lemmas kv_abs_evict = visible_evict [where xp = payload_expiry and f = "\<lambda>p. (pvalue p, payload_expiry p)", folded kv_abs_def]
lemmas kv_abs_empty = visible_empty [where xp = payload_expiry and f = "\<lambda>p. (pvalue p, payload_expiry p)", folded kv_abs_def]
lemmas dom_kv_abs = dom_visible [where xp = payload_expiry and f = "\<lambda>p. (pvalue p, payload_expiry p)", folded kv_abs_def]
lemmas kv_abs_delete_loop = visible_delete_loop [where xp = payload_expiry and f = "\<lambda>p. (pvalue p, payload_expiry p)", folded kv_abs_def]

lemma kv_abs_fst: "map_option fst (kv_abs now e k) = map_option pvalue (alive payload_expiry now (data e) k)"
  by (cases "alive payload_expiry now (data e) k") (simp_all add: kv_abs_def visible_def)

lemma kv_abs_cleanup:
  "data e' = map_keep (\<lambda>k v. \<forall>t. payload_expiry v = Some t \<longrightarrow> now < t) (data e) \<Longrightarrow>
   kv_abs now e' = map_keep (\<lambda>k (v, x). \<forall>t. x = Some t \<longrightarrow> now < t) (kv_abs now e)"
  using visible_cleanup [of e' payload_expiry now e snd "\<lambda>p. (pvalue p, payload_expiry p)"]
  by (simp add: kv_abs_def case_prod_unfold)

lemma kv_mget_loop_eq:
  "kv_mget_loop now m keys r ex =
     ((\<lambda>k. if k \<in> set keys then Some (map_option pvalue (alive payload_expiry now m k)) else r k),
      ex @ filter (stale payload_expiry now m) keys)"
proof (induction keys arbitrary: r ex)
  case (Cons k keys)
  show ?case
  proof (cases "m k")
    case None
    then have "alive payload_expiry now m k = None" "\<not> stale payload_expiry now m k"
      by (simp_all add: alive_None_cases stale_def)
    then show ?thesis using Cons None by (auto simp: fun_eq_iff)
  next
    case (Some p)
    then show ?thesis
      using Cons alive_stale [of m k p payload_expiry now]
      by (cases "expired (payload_expiry p) now") (auto simp: fun_eq_iff stale_def)
  qed
qed auto

context reliable_logger begin

lemma kv_set_refines:
  assumes "kv_inv e"
  shows "ends (kv_setNoLock lg k v md (e, w)) (\<lambda>(r, e', w'). r = None \<and> kv_inv e' \<and>
    kv_abs now e' = spec_put now k v (expiresAt md) (kv_abs now e))"
proof -
  obtain w' where "lg ''kv'' ''SET'' [PathEscape k, EncodeToString v, expires_str (expiresAt md)] w = (None, w')"
    by (rule logged)
  then show ?thesis
    by (auto intro!: ends_mono [OF kv_set_ends [OF assms]] simp: kv_abs_put)
qed

lemma kv_delete_refines:
  assumes "kv_inv e"
  shows "ends (kv_Delete lg k (e, w)) (\<lambda>(r, e', w'). r = None \<and> kv_inv e' \<and> data e' = (data e)(k := None))"
proof -
  obtain w' where "lg ''kv'' ''DELETE'' [PathEscape k] w = (None, w')" by (rule logged)
  then show ?thesis
    by (auto simp: kv_Delete_def engine_Delete_def intro!: ends_mono [OF deleteNoLock_ends [OF assms]])
qed

lemma mset_refines:
  "kv_inv e \<Longrightarrow> ends (kv_msetNoLock lg kvs (e, w)) (\<lambda>(r, e', w'). r = None \<and> kv_inv e' \<and>
     kv_abs now e' = fold (\<lambda>(k, p). spec_put now k (pvalue p) (payload_expiry p)) kvs (kv_abs now e))"
proof (induction kvs arbitrary: e w)
  case (Cons kv kvs)
  show ?case
    by (cases kv) (auto intro!: ends_mono [OF kv_set_refines [OF Cons.prems, of _ _ _ _ now]]
        ends_mono [OF Cons.IH] simp: payload_expiry_def [symmetric])
qed simp

lemma msetWithTTL_refines:
  "kv_inv e \<Longrightarrow> ends (kv_msetWithTTL_loop lg md kvs (e, w)) (\<lambda>(r, e', w'). r = None \<and> kv_inv e' \<and>
     kv_abs now e' = fold (\<lambda>(k, p). spec_put now k (pvalue p) (expiresAt md)) kvs (kv_abs now e))"
proof (induction kvs arbitrary: e w)
  case (Cons kv kvs)
  show ?case
    by (cases kv) (auto intro!: ends_mono [OF kv_set_refines [OF Cons.prems, of _ _ _ _ now]] ends_mono [OF Cons.IH])
qed simp

lemma kv_evict_refines:
  "kv_inv e \<Longrightarrow> ends (kv_deleteExpiredKeys lg now ks (e, w)) (\<lambda>(e', w'). kv_inv e' \<and> kv_abs now e' = kv_abs now e)"
proof (induction ks arbitrary: e w)
  case (Cons k ks)
  obtain w' where lg: "lg ''kv'' ''DELETE'' [PathEscape k] w = (None, w')" by (rule logged)
  show ?case
    using Cons.prems lg kv_abs_evict [of _ e k now]
    by (auto split: option.splits simp: stale_def
        intro!: ends_mono [OF Cons.IH] ends_mono [OF deleteNoLock_ends [OF Cons.prems]])
qed simp

lemma kv_incr_refines:
  "kv_inv e \<Longrightarrow> ends (kv_incrementByNoLock lg now k n (e, w)) (\<lambda>(r, e', w'). kv_inv e' \<and>
     (kv_res_abs (RInt r), kv_abs now e') = spec_incr k n (kv_abs now e))"
proof -
  assume iv: "kv_inv e"
  let ?op = "if n < 0 then ''DECREMENT'' else ''INCREMENT''"
  show ?thesis
  proof (cases "data e k")
    case None
    then have "kv_abs now e k = None" by (simp add: kv_abs_None)
    then show ?thesis using None iv by (simp add: kv_incrementByNoLock_def spec_incr_def Let_def)
  next
    case (Some p)
    show ?thesis
    proof (cases "expired (payload_expiry p) now")
      case True
      then have st: "stale payload_expiry now (data e) k" using Some by (simp add: stale_def)
      then have a: "kv_abs now e k = None" by (simp add: kv_abs_None)
      obtain w' where lg: "lg ''kv'' ''DELETE'' [PathEscape k] w = (None, w')" by (rule logged)
      show ?thesis
        using Some True lg a kv_abs_evict [OF _ st]
        by (auto simp: kv_incrementByNoLock_def spec_incr_def Let_def
            intro!: ends_mono [OF deleteNoLock_ends [OF iv]])
    next
      case False
      then have a: "kv_abs now e k = Some (pvalue p, payload_expiry p)" using Some by (simp add: kv_abs_Some)
      obtain z r where pi: "ParseInt (pvalue p) = (z, r)" by fastforce
      let ?v = "FormatInt (wrap64 (z + n))"
      let ?e = "e\<lparr>data := (data e)(k \<mapsto> NewPayload ?v (metadata p))\<rparr>"
      obtain w' where lg: "lg ''kv'' ''SET'' [PathEscape k, EncodeToString ?v, expires_str (expiresAt (metadata p))] w
          = (None, w')" by (rule logged)
      have "kv_inv ?e" using iv Some by (intro update_ok) (simp_all add: payload_expiry_def)
      moreover have "kv_abs now ?e = (kv_abs now e)(k \<mapsto> (?v, payload_expiry p))"
        using kv_abs_put [of ?e e k "NewPayload ?v (metadata p)" now] False
        by (simp add: spec_put_def payload_expiry_def)
      ultimately show ?thesis
        using Some False a pi lg iv
        by (cases r) (auto simp: kv_incrementByNoLock_def spec_incr_def Let_def)
    qed
  qed
qed

lemma kv_get_refines:
  assumes "kv_inv e"
  shows "ends (kv_Get lg now k (e, w)) (\<lambda>(r, e', w'). kv_inv e' \<and> kv_abs now e' = kv_abs now e \<and>
    kv_res_abs (RBytes r) = RBytes (case kv_abs now e k of None \<Rightarrow> Inl (not_found k ''GET'') | Some (v, x) \<Rightarrow> Inr v))"
proof (cases "data e k")
  case None
  then have "kv_abs now e k = None" by (simp add: kv_abs_None)
  then show ?thesis using None assms by (simp add: kv_Get_def kv_Get_read_def)
next
  case (Some p)
  show ?thesis
  proof (cases "expired (payload_expiry p) now")
    case True
    then have st: "stale payload_expiry now (data e) k" using Some by (simp add: stale_def)
    then have "kv_abs now e k = None" by (simp add: kv_abs_None)
    then show ?thesis
      using Some True kv_abs_evict [OF _ st]
      by (auto simp: kv_Get_def kv_Get_read_def intro!: ends_mono [OF kv_delete_refines [OF assms]])
  next
    case False
    then have "kv_abs now e k = Some (pvalue p, payload_expiry p)" using Some by (simp add: kv_abs_Some)
    then show ?thesis using Some False assms by (simp add: kv_Get_def kv_Get_read_def)
  qed
qed

lemma kv_exists_refines:
  assumes "kv_inv e"
  shows "ends (kv_Exists lg now k (e, w)) (\<lambda>(r, e', w'). kv_inv e' \<and> kv_abs now e' = kv_abs now e \<and>
    r = (kv_abs now e k \<noteq> None))"
proof (cases "data e k")
  case None
  then have "kv_abs now e k = None" by (simp add: kv_abs_None)
  then show ?thesis using None assms by (simp add: kv_Exists_def)
next
  case (Some p)
  show ?thesis
  proof (cases "expired (payload_expiry p) now")
    case True
    then have st: "stale payload_expiry now (data e) k" using Some by (simp add: stale_def)
    then have "kv_abs now e k = None" by (simp add: kv_abs_None)
    then show ?thesis
      using Some True kv_abs_evict [OF _ st]
      by (auto simp: kv_Exists_def intro!: ends_mono [OF kv_delete_refines [OF assms]])
  next
    case False
    then have "kv_abs now e k = Some (pvalue p, payload_expiry p)" using Some by (simp add: kv_abs_Some)
    then show ?thesis using Some False assms by (simp add: kv_Exists_def)
  qed
qed

lemma kv_sweep_refines:
  assumes "kv_inv e"
  shows "ends (if ks \<noteq> [] then kv_deleteExpiredKeys lg now ks (e, w) else Some (e, w))
    (\<lambda>(e', w'). kv_inv e' \<and> kv_abs now e' = kv_abs now e)"
  using kv_evict_refines [OF assms, of now ks w] assms by simp

lemma kv_sweep_bind:
  assumes "kv_inv e" "\<And>e' w'. kv_inv e' \<Longrightarrow> kv_abs now e' = kv_abs now e \<Longrightarrow> Q (r, e', w')"
  shows "ends (do { s' \<leftarrow> (if ks \<noteq> [] then kv_deleteExpiredKeys lg now ks (e, w) else Some (e, w)); Some (r, s') }) Q"
  unfolding ends_simps(3)
  by (rule ends_mono_state [OF kv_sweep_refines [OF assms(1)]]) (use assms(2) in auto)

lemma mget_refines:
  assumes "kv_inv e"
  shows "ends (kv_Mget lg now keys (e, w)) (\<lambda>(r, e', w'). kv_inv e' \<and> kv_abs now e' = kv_abs now e \<and>
    r = (\<lambda>k. if k \<in> set keys then Some (map_option fst (kv_abs now e k)) else None))"
  unfolding kv_Mget_def fst_conv kv_mget_loop_eq prod.case
  by (rule kv_sweep_bind [OF assms]) (simp add: kv_abs_fst [abs_def] cong: if_cong)

lemma kv_count_refines:
  assumes "kv_inv e" "map_iter ks (data e)"
  shows "ends (kv_count lg now ks p (e, w)) (\<lambda>(r, e', w'). kv_inv e' \<and> kv_abs now e' = kv_abs now e \<and>
    r = int (card {k \<in> dom (kv_abs now e). p k}))"
  unfolding kv_count_def fst_conv count_loop_spec [OF assms(2)] prod.case
  by (rule kv_sweep_bind [OF assms(1)]) (simp add: dom_kv_abs)

lemma kv_find_refines:
  assumes "kv_inv e" "map_iter ks (data e)"
  shows "ends (kv_find lg now ks p (e, w)) (\<lambda>(r, e', w'). kv_inv e' \<and> kv_abs now e' = kv_abs now e \<and>
    r = (\<lambda>k. if p k then map_option fst (kv_abs now e k) else None))"
  unfolding kv_find_def fst_conv find_loop_spec [OF assms(2)] prod.case
  by (rule kv_sweep_bind [OF assms(1)]) (simp add: kv_abs_fst cong: if_cong)

lemma kv_deleteBy_refines:
  assumes "kv_inv e" "map_iter ks (data e)"
  shows "ends (delete_loop lg ''kv'' payload_expiry now p ks 0 (e, w)) (\<lambda>((n, err), e', w'). err = None \<and>
    kv_inv e' \<and> kv_abs now e' = kv_abs now e |` {k. \<not> p k} \<and> n = int (card {k \<in> dom (kv_abs now e). p k}))"
proof -
  from delete_loop_ends [OF assms(1) map_iter_distinct [OF assms(2)], of lg "''kv''" now p w]
  obtain n err e' w' where r: "delete_loop lg ''kv'' payload_expiry now p ks 0 (e, w) = Some ((n, err), e', w')"
    and post: "delete_loop_post payload_expiry now p ks e n err e'" by (auto simp: ends_iff)
  have "err = None" using delete_loop_reliable [OF _ r] no_error by blast
  with r post kv_abs_delete_loop [OF _ assms(2)] delete_loop_postD(1) [OF post] show ?thesis by simp
qed

lemma kv_cleanup_refines:
  assumes "kv_inv e"
  shows "ends (kv_CleanupExpired now e) (\<lambda>e'. kv_inv e' \<and>
    kv_abs now e' = map_keep (\<lambda>k (v, x). \<forall>t. x = Some t \<longrightarrow> now < t) (kv_abs now e))"
  by (rule ends_mono [OF kv_cleanup_ends [OF assms]]) (simp add: kv_abs_cleanup)

lemmas kv_step_refines = kv_set_refines mset_refines msetWithTTL_refines kv_get_refines kv_exists_refines mget_refines
  kv_incr_refines kv_count_refines kv_find_refines kv_deleteBy_refines kv_cleanup_refines

lemma kv_apply_refines:
  assumes "kv_inv e" "map_iter ks (data e)"
  shows "ends (kv_apply compile lg now ks op (e, w)) (\<lambda>(r, e', w').
    kv_inv e' \<and> (kv_res_abs r, kv_abs now e') = kv_spec compile now op (kv_abs now e))"
proof (cases op)
  case (OpCount p)
  then show ?thesis using assms
    by (cases p) (auto simp: op_defs split: sum.splits intro!: ends_mono [OF kv_count_refines [OF assms]])
next
  case (OpFind p)
  then show ?thesis using assms
    by (cases p) (auto simp: op_defs split: sum.splits intro!: ends_mono [OF kv_find_refines [OF assms]])
next
  case (OpDeleteBy p)
  then show ?thesis using assms
    by (cases p) (auto simp: op_defs split: sum.splits intro!: ends_mono [OF kv_deleteBy_refines [OF assms]])
next
  case (OpSet k v md)
  then show ?thesis
    by (auto simp: op_defs intro!: ends_mono [OF kv_set_refines [OF assms(1), of _ _ _ _ now]])
next
  case (OpSetWithTTL k v ttl)
  then show ?thesis
    by (auto simp: op_defs intro!: ends_mono [OF kv_set_refines [OF assms(1), of _ _ _ _ now]])
next
  case (OpMset kvs)
  then show ?thesis
    by (auto simp: op_defs intro!: ends_mono [OF mset_refines [OF assms(1), of _ _ now]])
next
  case (OpMsetWithTTL kvs ttl)
  then show ?thesis
    by (auto simp: op_defs intro!: ends_mono [OF msetWithTTL_refines [OF assms(1), of _ _ _ now]])
next
  case (OpGet k)
  then show ?thesis by (auto intro!: ends_mono [OF kv_get_refines [OF assms(1)]])
next
  case (OpMget keys)
  then show ?thesis by (auto intro!: ends_mono [OF mget_refines [OF assms(1)]])
next
  case (OpExists k)
  then show ?thesis by (auto intro!: ends_mono [OF kv_exists_refines [OF assms(1)]])
next
  case (OpDelete k)
  then show ?thesis by (auto simp: kv_abs_delete intro!: ends_mono [OF kv_delete_refines [OF assms(1)]])
next
  case OpCleanupExpired
  then show ?thesis by (auto intro!: ends_mono [OF kv_cleanup_refines [OF assms(1)]])
next
  case (OpIncrementBy k n)
  then show ?thesis by (auto simp: op_defs intro!: ends_mono [OF kv_incr_refines [OF assms(1)]])
next
  case (OpDecrementBy k n)
  then show ?thesis by (auto simp: op_defs intro!: ends_mono [OF kv_incr_refines [OF assms(1)]])
next
  case (OpIncrement k)
  then show ?thesis by (auto simp: op_defs intro!: ends_mono [OF kv_incr_refines [OF assms(1)]])
next
  case (OpDecrement k)
  then show ?thesis by (auto simp: op_defs intro!: ends_mono [OF kv_incr_refines [OF assms(1)]])
qed (auto simp: kv_Clear_def kv_Reset_def kv_resetNoLock_def clearNoLock_def [symmetric] kv_abs_empty)

end

end
