(* ===== verification/KvProps.thy ===== *)
theory KvProps
  imports KvRefine
begin

text \<open>
  The properties of the key-value engine.  The witnesses run the engine with \<open>list_log\<close>, a logger that
  keeps its entries in a list and never fails, and with \<open>broken_log\<close>, which always fails.
\<close>

definition list_log :: "wal_entry list logger" where
  "list_log e a args w = (None, w @ [(e, a, args)])"

definition broken_log :: "unit logger" where
  "broken_log e a args w = (Some (Sentinel WalFailedToWriteError), w)"

definition no_regexps :: regexp_compile where
  "no_regexps r = Inl (Sentinel KeyNotFoundError)"

definition kv_one :: Storage where
  "kv_one = new_engine\<lparr>data := [''n'' \<mapsto> NewPayload ''41'' (NewPayloadMetadata 7 None)]\<rparr>"

definition kv_one_log :: "wal_entry list" where
  "kv_one_log = [(''kv'', ''SET'', [PathEscape ''n'', EncodeToString ''41'', ''PERSISTENT''])]"

lemma kv_one_reach: "kv_reach no_regexps list_log [] (kv_one, kv_one_log)"
proof (rule kv_next [OF kv_start, where ks = "[]" and now = 7 and op = "OpSet ''n'' ''41'' (NewPayloadMetadata 7 None)"])
  show "map_iter [] (data (fst (new_engine, [])))" by (simp add: map_iter_def)
qed (simp add: kv_Set_def kv_setNoLock_def dropExpiration_def addExpiration_def new_engine_def list_log_def
    kv_one_def kv_one_log_def expires_str_def NewPayloadMetadata_def)

lemma kv_one_iter: "map_iter [''n''] (data kv_one)"
  by (auto simp: map_iter_def kv_one_def)

lemma kv_one_inv: "kv_inv kv_one"
  using kv_reach_inv [OF kv_one_reach] by simp

lemma list_log_ok: "fst (list_log e a args w) = None"
  by (simp add: list_log_def)

text \<open>
  C3.  No operation of the key-value engine panics or loops: after any sequence of operations from a new
  engine, with any logger (also one that fails), and whatever the order in which the map is visited, the
  heap, the expiration map and the data agree, and every further operation returns.
\<close>

theorem kv_never_panics:
  assumes "kv_reach compile lg w0 (e, w)" "map_iter ks (data e)"
  shows "kv_inv e \<and> (\<exists>r e' w'. kv_apply compile lg now ks op (e, w) = Some (r, e', w'))"
proof -
  have inv: "kv_inv e" using kv_reach_inv [OF assms(1)] by simp
  then show ?thesis
    using kv_structure.apply_keeps [of "(e, w)" now op compile lg ks] by (auto simp: ends_iff)
qed

lemma kv_never_panics_witness:
  "kv_inv kv_one \<and> (\<exists>r e' w'. kv_apply no_regexps list_log 9 [''n''] (OpDeleteBy (Prefix ''n'')) (kv_one, kv_one_log) =
    Some (r, e', w'))"
  by (rule kv_never_panics [OF kv_one_reach kv_one_iter])

text \<open>
  C1.  With a logger that does not fail, each operation implements \<open>kv_spec\<close>: its result (an expired key
  counting as a missing one) and what the clients see afterwards are those of the specification on the
  map the clients saw before.
\<close>

theorem kv_refines:
  assumes "\<And>e a args w. fst (lg e a args w) = None" "kv_reach compile lg w0 (e, w)" "map_iter ks (data e)"
  shows "\<exists>r e' w'. kv_apply compile lg now ks op (e, w) = Some (r, e', w') \<and>
    (kv_res_abs r, kv_abs now e') = kv_spec compile now op (kv_abs now e)"
proof -
  have r: "reliable_logger lg" using assms(1) by (rule reliable_logger.intro)
  have "kv_inv e" using kv_reach_inv [OF assms(2)] by simp
  from reliable_logger.kv_apply_refines [OF r this assms(3),
    where compile = compile and now = now and op = op and w = w]
  show ?thesis by (auto simp: ends_iff)
qed

lemma kv_refines_witness:
  "\<exists>r e' w'. kv_apply no_regexps list_log 9 [''n''] (OpIncrementBy ''n'' 1) (kv_one, kv_one_log) = Some (r, e', w') \<and>
    (kv_res_abs r, kv_abs 9 e') = kv_spec no_regexps 9 (OpIncrementBy ''n'' 1) (kv_abs 9 kv_one)"
  by (rule kv_refines [OF list_log_ok kv_one_reach kv_one_iter])

text \<open>
  What the clients see changes with time only by expiry: later, they see exactly the keys they saw
  whose expiry, if any, has not passed.
\<close>

theorem kv_time_passes:
  assumes "now \<le> later"
  shows "kv_abs later e = map_keep (\<lambda>k (v, x). \<not> expired x later) (kv_abs now e)"
proof
  fix k
  have "expired x now \<Longrightarrow> expired x later" for x using assms by (auto simp: expired_def split: option.splits)
  then show "kv_abs later e k = map_keep (\<lambda>k (v, x). \<not> expired x later) (kv_abs now e) k"
    by (cases "data e k") (auto simp: kv_abs_def visible_def alive_def map_keep_def)
qed

lemma kv_time_passes_witness:
  "kv_abs 9 kv_one = map_keep (\<lambda>k (v, x). \<not> expired x 9) (kv_abs 8 kv_one)"
  by (rule kv_time_passes) simp

text \<open>
  A counter: adding \<open>n\<close> to a visible value that is the decimal form of \<open>z\<close> returns \<open>z + n\<close> with the
  wrap-around of 64 bits, and a read of the key, at any instant at which it has not expired, returns that number.
\<close>

lemma kv_increment_then_get:
  assumes "\<And>e a args w. fst (lg e a args w) = None" "kv_inv e" "kv_abs now e k = Some (v, x)"
    "ParseInt v = (z, None)" "\<not> expired x later"
  shows "\<exists>e' w' v'. kv_IncrementBy lg now k n (e, w) = Some (Inr (wrap64 (z + n)), e', w') \<and>
    kv_Get lg later k (e', w') = Some (Inr v', e', w') \<and> ParseInt v' = (wrap64 (z + n), None)"
proof -
  have r: "reliable_logger lg" using assms(1) by (rule reliable_logger.intro)
  obtain res e' w' where inc: "kv_IncrementBy lg now k n (e, w) = Some (res, e', w')" and iv: "kv_inv e'"
    and sp: "(kv_res_abs (RInt res), kv_abs now e') = spec_incr k n (kv_abs now e)"
    using reliable_logger.kv_incr_refines [OF r assms(2), where now = now and k = k and n = n and w = w] by (auto simp: ends_iff kv_IncrementBy_def)
  have res: "res = Inr (wrap64 (z + n))" and ab: "kv_abs now e' k = Some (FormatInt (wrap64 (z + n)), x)"
    using sp assms(3,4) by (cases res; simp add: spec_incr_def Let_def)+
  then obtain p where "data e' k = Some p" "x = payload_expiry p" "FormatInt (wrap64 (z + n)) = pvalue p"
    unfolding kv_abs_Some by blast
  then have "data e' k = Some p" "\<not> expired (payload_expiry p) later" "pvalue p = FormatInt (wrap64 (z + n))"
    using assms(5) by simp_all
  then have "kv_Get lg later k (e', w') = Some (Inr (FormatInt (wrap64 (z + n))), e', w')"
    by (simp add: kv_Get_def kv_Get_read_def)
  moreover have "ParseInt (FormatInt (wrap64 (z + n))) = (wrap64 (z + n), None)"
    by (simp add: codec_simps)
  ultimately show ?thesis using inc res by blast
qed

lemma kv_one_abs: "kv_abs 8 kv_one ''n'' = Some (''41'', None)"
  by (simp add: kv_abs_Some kv_one_def expired_def)

lemma ParseInt_41: "ParseInt ''41'' = (41, None)"
  by (simp add: ParseInt_def split_sign_def ParseUint_def char_digit_def)

lemma kv_increment_then_get_witness:
  "\<exists>e' w' v'. kv_IncrementBy list_log 8 ''n'' (2 ^ 63 - 41) (kv_one, []) = Some (Inr (wrap64 (41 + (2 ^ 63 - 41))), e', w') \<and>
    kv_Get list_log 9 ''n'' (e', w') = Some (Inr v', e', w') \<and> ParseInt v' = (wrap64 (41 + (2 ^ 63 - 41)), None)"
  by (rule kv_increment_then_get [OF list_log_ok kv_one_inv kv_one_abs ParseInt_41]) (simp_all add: expired_def)

text \<open>
  C6.  \<open>CleanupExpired\<close> ends without a panic, removes exactly the keys whose expiry is not after \<open>now\<close>, and
  keeps the invariant; it removes a key at the very instant of its expiry, when \<open>Get\<close> still returns it.
\<close>

theorem kv_cleanup_exact:
  assumes "kv_reach compile lg w0 (e, w)"
  shows "\<exists>e'. kv_CleanupExpired now e = Some e' \<and> kv_inv e' \<and>
    (\<forall>k. data e' k = (case data e k of None \<Rightarrow> None
       | Some p \<Rightarrow> (case payload_expiry p of None \<Rightarrow> Some p | Some t \<Rightarrow> if now < t then Some p else None)))"
proof -
  have "kv_inv e" using kv_reach_inv [OF assms] by simp
  from kv_cleanup_ends [OF this, of now] obtain e' where e': "kv_CleanupExpired now e = Some e'" "kv_inv e'"
    "data e' = map_keep (\<lambda>k v. \<forall>t. payload_expiry v = Some t \<longrightarrow> now < t) (data e)"
    by (auto simp: ends_iff)
  have "data e' k = (case data e k of None \<Rightarrow> None
      | Some p \<Rightarrow> (case payload_expiry p of None \<Rightarrow> Some p | Some t \<Rightarrow> if now < t then Some p else None))" for k
    unfolding e'(3) map_keep_def by (cases "data e k"; cases "payload_expiry (the (data e k))") simp_all
  then show ?thesis using e' by blast
qed

lemma kv_cleanup_exact_witness:
  "\<exists>e'. kv_CleanupExpired 9 kv_one = Some e' \<and> kv_inv e' \<and>
    (\<forall>k. data e' k = (case data kv_one k of None \<Rightarrow> None
       | Some p \<Rightarrow> (case payload_expiry p of None \<Rightarrow> Some p | Some t \<Rightarrow> if 9 < t then Some p else None)))"
  by (rule kv_cleanup_exact [OF kv_one_reach])

text \<open>
  Order of the log and the memory.  \<open>Set\<close> changes the memory before it logs: with any logger the new
  value is there even when the error of the log is returned.  \<open>Delete\<close> logs first: when the log fails the
  engine is left as it was.
\<close>

theorem kv_log_order:
  assumes "kv_inv e"
  shows "(\<exists>r e' w'. kv_Set lg k v md (e, w) = Some (r, e', w') \<and> data e' = (data e)(k \<mapsto> NewPayload v md) \<and>
      (r, w') = lg ''kv'' ''SET'' [PathEscape k, EncodeToString v, expires_str (expiresAt md)] w) \<and>
    (\<exists>r e' w'. kv_Delete lg k (e, w) = Some (r, e', w') \<and>
      (if r = None then data e' = (data e)(k := None) else e' = e) \<and>
      (r, w') = lg ''kv'' ''DELETE'' [PathEscape k] w)"
proof
  show "\<exists>r e' w'. kv_Set lg k v md (e, w) = Some (r, e', w') \<and> data e' = (data e)(k \<mapsto> NewPayload v md) \<and>
      (r, w') = lg ''kv'' ''SET'' [PathEscape k, EncodeToString v, expires_str (expiresAt md)] w"
    using kv_set_ends [OF assms, of lg k v md w] by (auto simp: ends_iff kv_Set_def)
  obtain r w' where lg: "lg ''kv'' ''DELETE'' [PathEscape k] w = (r, w')" by fastforce
  then show "\<exists>r e' w'. kv_Delete lg k (e, w) = Some (r, e', w') \<and>
      (if r = None then data e' = (data e)(k := None) else e' = e) \<and>
      (r, w') = lg ''kv'' ''DELETE'' [PathEscape k] w"
    using deleteNoLock_ends [OF assms, of k]
    by (cases r) (auto simp: kv_Delete_def engine_Delete_def ends_iff)
qed

lemma kv_log_order_witness:
  "(\<exists>r e' w'. kv_Set broken_log ''n'' ''0'' (NewPayloadMetadata 9 None) (kv_one, ()) = Some (r, e', w') \<and>
      data e' = (data kv_one)(''n'' \<mapsto> NewPayload ''0'' (NewPayloadMetadata 9 None)) \<and>
      (r, w') = broken_log ''kv'' ''SET'' [PathEscape ''n'', EncodeToString ''0'', expires_str (expiresAt (NewPayloadMetadata 9 None))] ()) \<and>
    (\<exists>r e' w'. kv_Delete broken_log ''n'' (kv_one, ()) = Some (r, e', w') \<and>
      (if r = None then data e' = (data kv_one)(''n'' := None) else e' = kv_one) \<and>
      (r, w') = broken_log ''kv'' ''DELETE'' [PathEscape ''n''] ())"
  by (rule kv_log_order [OF kv_one_inv])

text \<open>
  The deletion by pattern with any logger: it removes only expired keys and keys of the pattern, it
  returns how many live keys of the pattern it removed, and unless it reports the error that stopped
  it no live key of the pattern is left.
\<close>

lemma kv_delete_by_regex:
  assumes "kv_inv e" "map_iter ks (data e)" "compile regex = Inr re"
  shows "\<exists>n err e' w'. kv_DeleteByRegex compile lg now ks regex (e, w) = Some ((n, err), e', w') \<and> kv_inv e' \<and>
    (\<forall>k. data e' k = data e k \<or> data e' k = None \<and> (re k \<or> kv_abs now e k = None)) \<and>
    n = int (card {k. re k \<and> kv_abs now e k \<noteq> None \<and> data e' k = None}) \<and>
    (err = None \<longrightarrow> (\<forall>k. re k \<longrightarrow> kv_abs now e' k = None))"
proof -
  from delete_loop_ends [OF assms(1) map_iter_distinct [OF assms(2)], of lg "''kv''" now re w]
  obtain n err e' w' where r: "delete_loop lg ''kv'' payload_expiry now re ks 0 (e, w) = Some ((n, err), e', w')"
    and post: "delete_loop_post payload_expiry now re ks e n err e'" by (auto simp: ends_iff)
  note p = delete_loop_postD [OF post]
  have dom: "set ks = dom (data e)" using map_iter_dom [OF assms(2)] .
  have frame: "data e' k = data e k \<or> data e' k = None \<and> (re k \<or> kv_abs now e k = None)" for k
    using p(2) [of k] by (auto simp: kv_abs_None)
  have "{k. re k \<and> kv_abs now e k \<noteq> None \<and> data e' k = None} =
      {k \<in> set ks. alive payload_expiry now (data e) k \<noteq> None \<and> re k \<and> data e' k = None}"
    using dom by (auto simp: kv_abs_def visible_def alive_Some)
  then have n: "n = int (card {k. re k \<and> kv_abs now e k \<noteq> None \<and> data e' k = None})" using p(4) by simp
  have gone: "kv_abs now e' k = None" if "err = None" "re k" for k
  proof (cases "k \<in> set ks")
    case True
    then show ?thesis using p(3) [OF that(1) True that(2)] by (simp add: kv_abs_def visible_def)
  next
    case False
    then show ?thesis using p(2) [of k] dom by (auto simp: kv_abs_None)
  qed
  have "kv_DeleteByRegex compile lg now ks regex (e, w) = Some ((n, err), e', w')"
    using r assms(3) by (simp add: kv_DeleteByRegex_def kv_deleteByRegexNoLock_def)
  then show ?thesis using p(1) frame n gone by blast
qed

lemma kv_delete_by_regex_witness:
  "\<exists>n err e' w'. kv_DeleteByRegex (\<lambda>r. Inr (\<lambda>k. k = r)) broken_log 9 [''n''] ''n'' (kv_one, ()) = Some ((n, err), e', w') \<and>
    kv_inv e' \<and> (\<forall>k. data e' k = data kv_one k \<or> data e' k = None \<and> (k = ''n'' \<or> kv_abs 9 kv_one k = None)) \<and>
    n = int (card {k. k = ''n'' \<and> kv_abs 9 kv_one k \<noteq> None \<and> data e' k = None}) \<and>
    (err = None \<longrightarrow> (\<forall>k. k = ''n'' \<longrightarrow> kv_abs 9 e' k = None))"
  by (rule kv_delete_by_regex [OF kv_one_inv kv_one_iter]) simp

text \<open>
  C7.  \<open>Get\<close> is not atomic: when a key has expired it gives the read lock back before it deletes the key,
  unconditionally.  A \<open>Set\<close> that comes in between succeeds and its value, without expiry, is deleted.
\<close>

theorem kv_get_loses_concurrent_set:
  assumes "\<And>e a args w. fst (lg e a args w) = None" "kv_inv e" "stale payload_expiry now (data e) k"
  shows "snd (kv_Get_read now k e) \<and>
    (\<exists>e1 w1 e2 w2. kv_Set lg k v (NewPayloadMetadata now None) (e, w) = Some (None, e1, w1) \<and>
       kv_abs now e1 k = Some (v, None) \<and>
       kv_Delete lg k (e1, w1) = Some (None, e2, w2) \<and> kv_abs now e2 k = None)"
proof -
  have r: "reliable_logger lg" using assms(1) by (rule reliable_logger.intro)
  obtain e1 w1 where s: "kv_Set lg k v (NewPayloadMetadata now None) (e, w) = Some (None, e1, w1)" "kv_inv e1"
    "kv_abs now e1 = spec_put now k v None (kv_abs now e)"
    using reliable_logger.kv_set_refines [OF r assms(2), where k = k and v = v and md = "NewPayloadMetadata now None" and w = w and now = now]
    by (auto simp: ends_iff kv_Set_def)
  obtain e2 w2 where d: "kv_Delete lg k (e1, w1) = Some (None, e2, w2)" "data e2 = (data e1)(k := None)"
    using reliable_logger.kv_delete_refines [OF r s(2), where k = k and w = w1] by (auto simp: ends_iff)
  have "kv_abs now e1 k = Some (v, None)" using s(3) by (simp add: spec_put_def expired_def)
  moreover have "kv_abs now e2 k = None" using d(2) by (simp add: kv_abs_None)
  moreover have "snd (kv_Get_read now k e)" using assms(3) by (auto simp: kv_Get_read_def stale_def)
  ultimately show ?thesis using s d by blast
qed

definition kv_stale_one :: Storage where
  "kv_stale_one = addExpiration ''n'' (Some 3)
     (new_engine\<lparr>data := [''n'' \<mapsto> NewPayload ''41'' (NewPayloadMetadata 1 (Some 3))]\<rparr>)"

lemma kv_stale_one_inv: "kv_inv kv_stale_one"
  using put_ends [OF engine_inv_new, where xp = payload_expiry and k = "''n''" and v = "NewPayload ''41'' (NewPayloadMetadata 1 (Some 3))"]
  by (simp add: kv_stale_one_def dropExpiration_def new_engine_def)

lemma kv_stale_one_stale: "stale payload_expiry 9 (data kv_stale_one) ''n''"
  by (simp add: stale_def kv_stale_one_def addExpiration_def expired_def split: prod.splits)

lemma kv_get_loses_concurrent_set_witness:
  "snd (kv_Get_read 9 ''n'' kv_stale_one) \<and>
    (\<exists>e1 w1 e2 w2. kv_Set list_log ''n'' ''42'' (NewPayloadMetadata 9 None) (kv_stale_one, []) = Some (None, e1, w1) \<and>
       kv_abs 9 e1 ''n'' = Some (''42'', None) \<and>
       kv_Delete list_log ''n'' (e1, w1) = Some (None, e2, w2) \<and> kv_abs 9 e2 ''n'' = None)"
  by (rule kv_get_loses_concurrent_set [OF list_log_ok kv_stale_one_inv kv_stale_one_stale])

end
