(* ===== verification/ListStorage.thy ===== *)
theory ListStorage
  imports Engine GoTime
begin

text \<open>
  The list engine, \<open>pkg/list_storage/list_storage.go\<close>, except for the snapshot codec.  A
  \<open>*list.List\<close> is the list of its elements: every key owns its list, so no aliasing is lost.  Calling a
  method on the nil list of a missing key, and reading the value of the nil element of an empty list,
  panic.
\<close>

record ListValue =
  elems :: "bytes list"
  list_createdAt :: time
  list_expiresAt :: "time option"

definition NewValue :: "bytes list \<Rightarrow> time \<Rightarrow> time option \<Rightarrow> ListValue" where
  "NewValue xs c x = \<lparr>elems = xs, list_createdAt = c, list_expiresAt = x\<rparr>"

type_synonym ListStorage = "ListValue engine"

definition bool_arg :: "bool \<Rightarrow> string" where
  "bool_arg b = (if b then ''true'' else ''false'')"

subsection \<open>Expired keys\<close>

definition list_drop_expired :: "time \<Rightarrow> string \<Rightarrow> ListStorage \<Rightarrow> ListStorage option" where
  "list_drop_expired now key e =
     (case data e key of
        None \<Rightarrow> Some e
      | Some v \<Rightarrow> if expired (list_expiresAt v) now then deleteNoLock key e else Some e)"

definition list_deleteExpiredKeys ::
  "'w logger \<Rightarrow> time \<Rightarrow> string list \<Rightarrow> ListStorage \<times> 'w \<Rightarrow> (ListStorage \<times> 'w) option" where
  "list_deleteExpiredKeys lg now ks s = sweep lg ''list'' list_expiresAt now ks s"

subsection \<open>Pushing and popping\<close>

fun push_all :: "bool \<Rightarrow> bytes list \<Rightarrow> bytes list \<Rightarrow> bytes list" where
  "push_all toLeft [] lst = lst"
| "push_all toLeft (v # vs) lst = push_all toLeft vs (if toLeft then v # lst else lst @ [v])"

definition list_pushNoLockAndNoWal ::
  "time \<Rightarrow> string \<Rightarrow> bytes list \<Rightarrow> time option \<Rightarrow> bool \<Rightarrow> ListStorage \<Rightarrow> ListStorage option" where
  "list_pushNoLockAndNoWal now key values x toLeft e = do {
     e1 \<leftarrow> list_drop_expired now key e;
     let val = (case data e1 key of
                  None \<Rightarrow> NewValue [] now x
                | Some v \<Rightarrow> if x \<noteq> None then v\<lparr>list_expiresAt := x\<rparr> else v);
     let e2 = e1\<lparr>data := (data e1)(key \<mapsto> val\<lparr>elems := push_all toLeft values (elems val)\<rparr>)\<rparr>;
     if x \<noteq> None then do { e3 \<leftarrow> dropExpiration key e2; Some (addExpiration key x e3) } else Some e2 }"

definition list_pushNoLock ::
  "'w logger \<Rightarrow> time \<Rightarrow> string \<Rightarrow> bytes list \<Rightarrow> time option \<Rightarrow> bool \<Rightarrow> ListStorage \<times> 'w \<Rightarrow>
   (goerr option \<times> ListStorage \<times> 'w) option" where
  "list_pushNoLock lg now key values x toLeft = (\<lambda>(e, w). do {
     e' \<leftarrow> list_pushNoLockAndNoWal now key values x toLeft e;
     case lg ''list'' (if toLeft then ''LPUSH'' else ''RPUSH'')
            (PathEscape key # expires_str x # map EncodeToString values) w of
       (err, w') \<Rightarrow> Some (err, e', w') })"

definition LeftPush where
  "LeftPush lg now key values x s = list_pushNoLock lg now key values x True s"

definition RightPush where
  "RightPush lg now key values x s = list_pushNoLock lg now key values x False s"

definition list_popNoLockAndNoWal :: "string \<Rightarrow> bool \<Rightarrow> ListStorage \<Rightarrow> (bytes \<times> ListStorage) option" where
  "list_popNoLockAndNoWal key fromLeft e =
     (case data e key of
        None \<Rightarrow> None
      | Some v \<Rightarrow>
          (case elems v of
             [] \<Rightarrow> None
           | b # bs \<Rightarrow>
               (let res = (if fromLeft then b else last (b # bs));
                    rest = (if fromLeft then bs else butlast (b # bs))
                in do {
                  e' \<leftarrow> (if rest = [] then deleteNoLock key e
                        else Some (e\<lparr>data := (data e)(key \<mapsto> v\<lparr>elems := rest\<rparr>)\<rparr>));
                  Some (res, e') })))"

definition list_popNoLock ::
  "'w logger \<Rightarrow> time \<Rightarrow> string \<Rightarrow> bool \<Rightarrow> ListStorage \<times> 'w \<Rightarrow> ((goerr + bytes) \<times> ListStorage \<times> 'w) option" where
  "list_popNoLock lg now key fromLeft s = do {
     (e, w) \<leftarrow> evict lg ''list'' list_expiresAt now key s;
     if (case data e key of None \<Rightarrow> True | Some v \<Rightarrow> elems v = []) then Some (Inl (not_found key ''POP''), e, w)
     else do {
       (res, e') \<leftarrow> list_popNoLockAndNoWal key fromLeft e;
       case lg ''list'' (if fromLeft then ''LPOP'' else ''RPOP'') [PathEscape key] w of
         (Some err, w') \<Rightarrow> Some (Inl err, e', w')
       | (None, w') \<Rightarrow> Some (Inr res, e', w') } }"

definition LeftPop where
  "LeftPop lg now key s = list_popNoLock lg now key True s"

definition RightPop where
  "RightPop lg now key s = list_popNoLock lg now key False s"

definition list_moveNoLockAndNoWal ::
  "time \<Rightarrow> string \<Rightarrow> string \<Rightarrow> bool \<Rightarrow> bool \<Rightarrow> ListStorage \<Rightarrow> (bytes \<times> ListStorage) option" where
  "list_moveNoLockAndNoWal now keyFrom keyTo srcLeft dstLeft e = do {
     (popped, e1) \<leftarrow> list_popNoLockAndNoWal keyFrom srcLeft e;
     let valTo = (case data e1 keyTo of None \<Rightarrow> NewValue [] now None | Some v \<Rightarrow> v);
     let lstTo = (if dstLeft then popped # elems valTo else elems valTo @ [popped]);
     Some (popped, e1\<lparr>data := (data e1)(keyTo \<mapsto> valTo\<lparr>elems := lstTo\<rparr>)\<rparr>) }"

definition list_Move ::
  "'w logger \<Rightarrow> time \<Rightarrow> string \<Rightarrow> string \<Rightarrow> bool \<Rightarrow> bool \<Rightarrow> ListStorage \<times> 'w \<Rightarrow>
   ((goerr + bytes) \<times> ListStorage \<times> 'w) option" where
  "list_Move lg now keyFrom keyTo srcLeft dstLeft s = do {
     (e, w) \<leftarrow> evict lg ''list'' list_expiresAt now keyFrom s;
     if (case data e keyFrom of None \<Rightarrow> True | Some v \<Rightarrow> elems v = [])
     then Some (Inl (not_found keyFrom ''MOVE''), e, w)
     else do {
       (e1, w1) \<leftarrow> evict lg ''list'' list_expiresAt now keyTo (e, w);
       (popped, e2) \<leftarrow> list_moveNoLockAndNoWal now keyFrom keyTo srcLeft dstLeft e1;
       case lg ''list'' ''MOVE'' [PathEscape keyFrom, PathEscape keyTo, bool_arg srcLeft, bool_arg dstLeft] w1 of
         (Some err, w') \<Rightarrow> Some (Inl err, e2, w')
       | (None, w') \<Rightarrow> Some (Inr popped, e2, w') } }"

subsection \<open>Reading\<close>

text \<open>
  A reader finds the list of a live key; a missing key gives \<^term>\<open>None\<close>, and so does an expired one,
  which is evicted under the write lock.
\<close>

definition list_read ::
  "'w logger \<Rightarrow> time \<Rightarrow> string \<Rightarrow> ListStorage \<times> 'w \<Rightarrow> (bytes list option \<times> ListStorage \<times> 'w) option" where
  "list_read lg now key s =
     (case data (fst s) key of
        None \<Rightarrow> Some (None, s)
      | Some v \<Rightarrow>
          if expired (list_expiresAt v) now then do { s' \<leftarrow> evict lg ''list'' list_expiresAt now key s; Some (None, s') }
          else Some (Some (elems v), s))"

definition list_Len :: "'w logger \<Rightarrow> time \<Rightarrow> string \<Rightarrow> ListStorage \<times> 'w \<Rightarrow> (int \<times> ListStorage \<times> 'w) option" where
  "list_Len lg now key s = do {
     (r, s') \<leftarrow> list_read lg now key s;
     Some (case r of None \<Rightarrow> 0 | Some xs \<Rightarrow> int (length xs), s') }"

fun range_loop :: "int \<Rightarrow> int \<Rightarrow> int \<Rightarrow> bytes list \<Rightarrow> bytes list" where
  "range_loop start stop idx [] = []"
| "range_loop start stop idx (b # bs) =
     (if stop < idx then []
      else if start \<le> idx then b # range_loop start stop (idx + 1) bs
      else range_loop start stop (idx + 1) bs)"

definition range_elems :: "int \<Rightarrow> int \<Rightarrow> bytes list \<Rightarrow> bytes list" where
  "range_elems startIndex stopIndex xs =
     (let n = int (length xs) in
      if n = 0 then []
      else
        (let start = (if startIndex < 0 then n + startIndex else startIndex);
             stop = (if stopIndex < 0 then n + stopIndex else stopIndex);
             start' = (if start < 0 then 0 else start);
             stop' = (if n \<le> stop then n - 1 else stop)
         in if stop' < start' then [] else range_loop start' stop' 0 xs))"

definition list_Range ::
  "'w logger \<Rightarrow> time \<Rightarrow> string \<Rightarrow> int \<Rightarrow> int \<Rightarrow> ListStorage \<times> 'w \<Rightarrow> (bytes list \<times> ListStorage \<times> 'w) option" where
  "list_Range lg now key startIndex stopIndex s = do {
     (r, s') \<leftarrow> list_read lg now key s;
     Some (case r of None \<Rightarrow> [] | Some xs \<Rightarrow> range_elems startIndex stopIndex xs, s') }"

definition list_Get where
  "list_Get lg now key s = list_Range lg now key 0 (-1) s"

fun index_loop :: "int \<Rightarrow> int \<Rightarrow> bytes list \<Rightarrow> bytes option" where
  "index_loop index idx [] = None"
| "index_loop index idx (b # bs) = (if idx = index then Some b else index_loop index (idx + 1) bs)"

definition list_Index ::
  "'w logger \<Rightarrow> time \<Rightarrow> string \<Rightarrow> int \<Rightarrow> ListStorage \<times> 'w \<Rightarrow> ((goerr + bytes) \<times> ListStorage \<times> 'w) option" where
  "list_Index lg now key index s = do {
     (r, s') \<leftarrow> list_read lg now key s;
     Some
       (case r of
          None \<Rightarrow> Inl (not_found key ''INDEX'')
        | Some xs \<Rightarrow>
            (let i = (if index < 0 then int (length xs) + index else index) in
             if i < 0 \<or> int (length xs) \<le> i then Inl (not_found key ''INDEX'')
             else (case index_loop i 0 xs of None \<Rightarrow> Inl (not_found key ''INDEX'') | Some b \<Rightarrow> Inr b)), s') }"

fun pos_loop :: "bytes \<Rightarrow> int \<Rightarrow> bytes list \<Rightarrow> int" where
  "pos_loop value idx [] = -1"
| "pos_loop value idx (b # bs) = (if b = value then idx else pos_loop value (idx + 1) bs)"

definition list_Pos ::
  "'w logger \<Rightarrow> time \<Rightarrow> string \<Rightarrow> bytes \<Rightarrow> ListStorage \<times> 'w \<Rightarrow> (int \<times> ListStorage \<times> 'w) option" where
  "list_Pos lg now key value s = do {
     (r, s') \<leftarrow> list_read lg now key s;
     Some (case r of None \<Rightarrow> -1 | Some xs \<Rightarrow> pos_loop value 0 xs, s') }"

definition SnapshotList :: "time \<Rightarrow> string \<Rightarrow> ListStorage \<Rightarrow> bytes list option" where
  "SnapshotList now key e =
     (case data e key of
        None \<Rightarrow> None
      | Some v \<Rightarrow> if expired (list_expiresAt v) now then None else Some (elems v))"

text \<open>The walk starts at the nearer end of the list; \<^term>\<open>None\<close> of the walk is a nil element.\<close>

fun walk_next :: "nat \<Rightarrow> bytes list \<Rightarrow> bytes option" where
  "walk_next i [] = None"
| "walk_next 0 (b # bs) = Some b"
| "walk_next (Suc i) (b # bs) = walk_next i bs"

definition SnapshotListIndex :: "time \<Rightarrow> string \<Rightarrow> int \<Rightarrow> ListStorage \<Rightarrow> bytes option" where
  "SnapshotListIndex now key index e =
     (case data e key of
        None \<Rightarrow> None
      | Some v \<Rightarrow>
          if expired (list_expiresAt v) now then None
          else
            (let n = int (length (elems v)); i = (if index < 0 then n + index else index) in
             if i < 0 \<or> n \<le> i then None
             else if i < n div 2 then walk_next (nat i) (elems v)
             else walk_next (nat (n - 1 - i)) (rev (elems v))))"

subsection \<open>Changing elements\<close>

fun replace_loop :: "int \<Rightarrow> bytes \<Rightarrow> int \<Rightarrow> bytes list \<Rightarrow> bytes list" where
  "replace_loop index value idx [] = []"
| "replace_loop index value idx (b # bs) =
     (if idx = index then value # bs else b # replace_loop index value (idx + 1) bs)"

definition list_replaceNoLockAndNoWal :: "string \<Rightarrow> int \<Rightarrow> bytes \<Rightarrow> ListStorage \<Rightarrow> ListStorage option" where
  "list_replaceNoLockAndNoWal key index value e =
     (case data e key of
        None \<Rightarrow> None
      | Some v \<Rightarrow> Some (e\<lparr>data := (data e)(key \<mapsto> v\<lparr>elems := replace_loop index value 0 (elems v)\<rparr>)\<rparr>))"

definition ReplaceAtIndex ::
  "'w logger \<Rightarrow> time \<Rightarrow> string \<Rightarrow> int \<Rightarrow> bytes \<Rightarrow> ListStorage \<times> 'w \<Rightarrow>
   (goerr option \<times> ListStorage \<times> 'w) option" where
  "ReplaceAtIndex lg now key index value s = do {
     (e, w) \<leftarrow> evict lg ''list'' list_expiresAt now key s;
     case data e key of
       None \<Rightarrow> Some (Some (not_found key ''REPLACE''), e, w)
     | Some v \<Rightarrow>
         (let n = int (length (elems v)); resIndex = (if index < 0 then n + index else index) in
          if resIndex < 0 \<or> n \<le> resIndex then Some (Some (not_found key ''REPLACE''), e, w)
          else do {
            e' \<leftarrow> list_replaceNoLockAndNoWal key resIndex value e;
            case lg ''list'' ''REPLACE'' [PathEscape key, FormatInt index, EncodeToString value] w of
              (err, w') \<Rightarrow> Some (err, e', w') }) }"

fun insert_loop :: "bytes \<Rightarrow> bytes \<Rightarrow> bool \<Rightarrow> bytes list \<Rightarrow> bytes list option" where
  "insert_loop pivot value before [] = None"
| "insert_loop pivot value before (b # bs) =
     (if b = pivot then Some (if before then value # b # bs else b # value # bs)
      else map_option (Cons b) (insert_loop pivot value before bs))"

definition list_insertNoLockAndNoWal ::
  "string \<Rightarrow> bytes \<Rightarrow> bytes \<Rightarrow> bool \<Rightarrow> ListStorage \<Rightarrow> (int \<times> ListStorage) option" where
  "list_insertNoLockAndNoWal key pivot value before e =
     (case data e key of
        None \<Rightarrow> None
      | Some v \<Rightarrow>
          (case insert_loop pivot value before (elems v) of
             None \<Rightarrow> Some (-1, e)
           | Some xs \<Rightarrow> Some (int (length xs), e\<lparr>data := (data e)(key \<mapsto> v\<lparr>elems := xs\<rparr>)\<rparr>)))"

definition list_Insert ::
  "'w logger \<Rightarrow> time \<Rightarrow> string \<Rightarrow> bytes \<Rightarrow> bytes \<Rightarrow> bool \<Rightarrow> ListStorage \<times> 'w \<Rightarrow>
   ((goerr + int) \<times> ListStorage \<times> 'w) option" where
  "list_Insert lg now key pivot value before s = do {
     (e, w) \<leftarrow> evict lg ''list'' list_expiresAt now key s;
     if data e key = None then Some (Inr 0, e, w)
     else do {
       (newLen, e') \<leftarrow> list_insertNoLockAndNoWal key pivot value before e;
       if newLen < 0 then Some (Inr (-1), e', w)
       else
         (case lg ''list'' ''INSERT'' [PathEscape key, EncodeToString pivot, EncodeToString value, bool_arg before] w of
            (Some err, w') \<Rightarrow> Some (Inl err, e', w')
          | (None, w') \<Rightarrow> Some (Inr newLen, e', w')) } }"

text \<open>
  The three loops of \<open>removeNoLockAndNoWal\<close>: at most \<open>limit\<close> occurrences from the left, the same from
  the right, all.
\<close>

fun remove_loop :: "bytes \<Rightarrow> int \<Rightarrow> int \<Rightarrow> bytes list \<Rightarrow> int \<times> bytes list" where
  "remove_loop x limit removed [] = (removed, [])"
| "remove_loop x limit removed (b # bs) =
     (if limit \<le> removed then (removed, b # bs)
      else if b = x then remove_loop x limit (removed + 1) bs
      else (case remove_loop x limit removed bs of (r, bs') \<Rightarrow> (r, b # bs')))"

fun remove_all_loop :: "bytes \<Rightarrow> int \<Rightarrow> bytes list \<Rightarrow> int \<times> bytes list" where
  "remove_all_loop x removed [] = (removed, [])"
| "remove_all_loop x removed (b # bs) =
     (if b = x then remove_all_loop x (removed + 1) bs
      else (case remove_all_loop x removed bs of (r, bs') \<Rightarrow> (r, b # bs')))"

definition remove_elems :: "int \<Rightarrow> bytes \<Rightarrow> bytes list \<Rightarrow> int \<times> bytes list" where
  "remove_elems count x xs =
     (if 0 < count then remove_loop x count 0 xs
      else if count < 0 then (case remove_loop x (wrap64 (- count)) 0 (rev xs) of (r, ys) \<Rightarrow> (r, rev ys))
      else remove_all_loop x 0 xs)"

definition list_removeNoLockAndNoWal :: "string \<Rightarrow> int \<Rightarrow> bytes \<Rightarrow> ListStorage \<Rightarrow> (int \<times> ListStorage) option" where
  "list_removeNoLockAndNoWal key count x e =
     (case data e key of
        None \<Rightarrow> None
      | Some v \<Rightarrow>
          (case remove_elems count x (elems v) of (removed, xs) \<Rightarrow> do {
             e' \<leftarrow> (if xs = [] then deleteNoLock key e
                   else Some (e\<lparr>data := (data e)(key \<mapsto> v\<lparr>elems := xs\<rparr>)\<rparr>));
             Some (removed, e') }))"

definition list_Remove ::
  "'w logger \<Rightarrow> time \<Rightarrow> string \<Rightarrow> int \<Rightarrow> bytes \<Rightarrow> ListStorage \<times> 'w \<Rightarrow>
   ((goerr + int) \<times> ListStorage \<times> 'w) option" where
  "list_Remove lg now key count x s = do {
     (e, w) \<leftarrow> evict lg ''list'' list_expiresAt now key s;
     if data e key = None then Some (Inr 0, e, w)
     else do {
       (removed, e') \<leftarrow> list_removeNoLockAndNoWal key count x e;
       if 0 < removed then
         (case lg ''list'' ''REMOVE'' [PathEscape key, FormatInt count, EncodeToString x] w of
            (Some err, w') \<Rightarrow> Some (Inl err, e', w')
          | (None, w') \<Rightarrow> Some (Inr removed, e', w'))
       else Some (Inr removed, e', w) } }"

subsection \<open>Deleting, expiry, patterns\<close>

definition list_Delete ::
  "'w logger \<Rightarrow> string \<Rightarrow> ListStorage \<times> 'w \<Rightarrow> (goerr option \<times> ListStorage \<times> 'w) option" where
  "list_Delete lg key s = engine_Delete lg ''list'' key s"

definition list_Reset :: "ListStorage \<Rightarrow> ListStorage" where
  "list_Reset e = e\<lparr>data := Map.empty, expirations := empty_heap, expirationMap := Map.empty\<rparr>"

definition list_Clear :: "ListStorage \<Rightarrow> ListStorage" where
  "list_Clear e = clearNoLock e"

definition list_CleanupExpired :: "'w logger \<Rightarrow> time \<Rightarrow> ListStorage \<times> 'w \<Rightarrow> (ListStorage \<times> 'w) option" where
  "list_CleanupExpired lg now s = logged_cleanup lg ''list'' now s"

definition list_KeyCount :: "ListStorage \<Rightarrow> nat" where
  "list_KeyCount e = card (dom (data e))"

text \<open>An estimate; \<open>caps\<close> gives the capacities of the slices of the elements, which the language leaves open.\<close>

definition list_MemoryUsageBytes :: "(string \<Rightarrow> nat \<Rightarrow> nat) \<Rightarrow> ListStorage \<Rightarrow> int" where
  "list_MemoryUsageBytes caps e =
     wrap64 (\<Sum>k \<in> dom (data e). int (16 + length k) + 40 + 56 +
       (\<Sum>i < length (elems (the (data e k))). 32 + int (24 + caps k i)))"

definition list_count ::
  "'w logger \<Rightarrow> time \<Rightarrow> string list \<Rightarrow> (string \<Rightarrow> bool) \<Rightarrow> ListStorage \<times> 'w \<Rightarrow> (int \<times> ListStorage \<times> 'w) option" where
  "list_count lg now ks p s = sweep_count lg ''list'' list_expiresAt now ks p s"

definition list_find ::
  "'w logger \<Rightarrow> time \<Rightarrow> string list \<Rightarrow> (string \<Rightarrow> bool) \<Rightarrow> ListStorage \<times> 'w \<Rightarrow>
   ((string \<rightharpoonup> bytes list) \<times> ListStorage \<times> 'w) option" where
  "list_find lg now ks p s = sweep_find lg ''list'' list_expiresAt elems now ks p s"

definition list_CountByPrefix where
  "list_CountByPrefix lg now ks pre s = list_count lg now ks (\<lambda>k. HasPrefix k pre) s"

definition list_CountBySuffix where
  "list_CountBySuffix lg now ks suf s = list_count lg now ks (\<lambda>k. HasSuffix k suf) s"

definition list_CountByRegex ::
  "(string \<Rightarrow> goerr + (string \<Rightarrow> bool)) \<Rightarrow> 'w logger \<Rightarrow> time \<Rightarrow> string list \<Rightarrow> string \<Rightarrow> ListStorage \<times> 'w \<Rightarrow>
   ((goerr + int) \<times> ListStorage \<times> 'w) option" where
  "list_CountByRegex compile lg now ks regex s =
     (case compile regex of
        Inl err \<Rightarrow> Some (Inl (RegexError regex err), s)
      | Inr re \<Rightarrow> do { (n, s') \<leftarrow> list_count lg now ks re s; Some (Inr n, s') })"

definition list_FindByPrefix where
  "list_FindByPrefix lg now ks pre s = list_find lg now ks (\<lambda>k. HasPrefix k pre) s"

definition list_FindBySuffix where
  "list_FindBySuffix lg now ks suf s = list_find lg now ks (\<lambda>k. HasSuffix k suf) s"

definition list_FindByRegex ::
  "(string \<Rightarrow> goerr + (string \<Rightarrow> bool)) \<Rightarrow> 'w logger \<Rightarrow> time \<Rightarrow> string list \<Rightarrow> string \<Rightarrow> ListStorage \<times> 'w \<Rightarrow>
   ((goerr + (string \<rightharpoonup> bytes list)) \<times> ListStorage \<times> 'w) option" where
  "list_FindByRegex compile lg now ks regex s =
     (case compile regex of
        Inl err \<Rightarrow> Some (Inl (RegexError regex err), s)
      | Inr re \<Rightarrow> do { (m, s') \<leftarrow> list_find lg now ks re s; Some (Inr m, s') })"

definition list_deleteByPrefixNoLock where
  "list_deleteByPrefixNoLock lg now ks pre s =
     delete_loop lg ''list'' list_expiresAt now (\<lambda>k. HasPrefix k pre) ks 0 s"

definition list_deleteBySuffixNoLock where
  "list_deleteBySuffixNoLock lg now ks suf s =
     delete_loop lg ''list'' list_expiresAt now (\<lambda>k. HasSuffix k suf) ks 0 s"

definition list_deleteByRegexNoLock where
  "list_deleteByRegexNoLock lg now ks re s = delete_loop lg ''list'' list_expiresAt now re ks 0 s"

definition list_DeleteByPrefix where
  "list_DeleteByPrefix lg now ks pre s = list_deleteByPrefixNoLock lg now ks pre s"

definition list_DeleteBySuffix where
  "list_DeleteBySuffix lg now ks suf s = list_deleteBySuffixNoLock lg now ks suf s"

definition list_DeleteByRegex ::
  "(string \<Rightarrow> goerr + (string \<Rightarrow> bool)) \<Rightarrow> 'w logger \<Rightarrow> time \<Rightarrow> string list \<Rightarrow> string \<Rightarrow> ListStorage \<times> 'w \<Rightarrow>
   ((int \<times> goerr option) \<times> ListStorage \<times> 'w) option" where
  "list_DeleteByRegex compile lg now ks regex s =
     (case compile regex of
        Inl err \<Rightarrow> Some ((0, Some (RegexError regex err)), s)
      | Inr re \<Rightarrow> list_deleteByRegexNoLock lg now ks re s)"

subsection \<open>Recovery\<close>

text \<open>\<open>strconv.Atoi\<close> is \<open>ParseInt\<close> to base ten; a value next to an ignored error is used as it is.\<close>

definition list_ProcessWalEntry :: "time \<Rightarrow> string \<Rightarrow> string list \<Rightarrow> ListStorage \<Rightarrow> ListStorage option" where
  "list_ProcessWalEntry now action args e =
     (if action = ''LPUSH'' \<or> action = ''RPUSH'' then
        (case args of
           a # expiresStr # vs \<Rightarrow>
             list_pushNoLockAndNoWal now (unescape_or_raw a) (map decode_or_raw vs)
               (if expiresStr = ''PERSISTENT'' then None else ParseRFC3339 expiresStr) (action = ''LPUSH'') e
         | _ \<Rightarrow> Some e)
      else if action = ''LPOP'' \<or> action = ''RPOP'' then
        (case args of
           a # _ \<Rightarrow> map_option snd (list_popNoLockAndNoWal (unescape_or_raw a) (action = ''LPOP'') e)
         | _ \<Rightarrow> Some e)
      else if action = ''MOVE'' then
        (case args of
           a # b # c # d # _ \<Rightarrow>
             map_option snd (list_moveNoLockAndNoWal now (unescape_or_empty a) (unescape_or_empty b)
               (c = ''true'') (d = ''true'') e)
         | _ \<Rightarrow> Some e)
      else if action = ''REPLACE'' then
        (case args of
           a # i # v # _ \<Rightarrow>
             (case ParseInt i of
                (index, None) \<Rightarrow> list_replaceNoLockAndNoWal (unescape_or_empty a) index (decode_or_raw v) e
              | (index, Some err) \<Rightarrow> Some e)
         | _ \<Rightarrow> Some e)
      else if action = ''INSERT'' then
        (case args of
           a # p # v # b # _ \<Rightarrow>
             map_option snd (list_insertNoLockAndNoWal (unescape_or_empty a) (fst (DecodeString p))
               (fst (DecodeString v)) (b = ''true'') e)
         | _ \<Rightarrow> Some e)
      else if action = ''REMOVE'' then
        (case args of
           a # c # v # _ \<Rightarrow>
             map_option snd (list_removeNoLockAndNoWal (unescape_or_empty a) (fst (ParseInt c)) (fst (DecodeString v)) e)
         | _ \<Rightarrow> Some e)
      else if action = ''DELETE'' then
        (case args of a # _ \<Rightarrow> deleteNoLock (unescape_or_empty a) e | _ \<Rightarrow> Some e)
      else Some e)"

end
