(* ===== verification/ListSpec.thy ===== *)
theory ListSpec
  imports ListStorage KvRefine
begin

text \<open>
  The list engine against its specification.  First the loops over a list are identified with functions
  of the library (\<open>take\<close>, \<open>drop\<close>, \<open>nth\<close>, list update, \<open>filter\<close>); then \<open>list_spec\<close> gives, for each operation
  of \<open>ListStorageInterface\<close>, its result and the new view of the clients, and \<open>list_apply_refines\<close> is the
  refinement.
\<close>

subsection \<open>The loops over a list\<close>

lemma push_all_eq: "push_all toLeft vs lst = (if toLeft then rev vs @ lst else lst @ vs)"
  by (induction toLeft vs lst rule: push_all.induct) simp_all

lemma range_loop_from: "start \<le> idx \<Longrightarrow> range_loop start stop idx xs = take (nat (stop + 1 - idx)) xs"
proof (induction start stop idx xs rule: range_loop.induct)
  case (2 start stop idx b bs)
  have "nat (stop + 1 - idx) = Suc (nat (stop + 1 - (idx + 1)))" if "idx \<le> stop" using that by simp
  then show ?case using 2 by auto
qed simp

lemma range_loop_eq:
  assumes "idx \<le> start"
  shows "range_loop start stop idx xs = take (nat (stop + 1 - start)) (drop (nat (start - idx)) xs)"
  using assms
proof (induction start stop idx xs rule: range_loop.induct)
  case (2 start stop idx b bs)
  show ?case
  proof (cases "idx = start")
    case True
    then show ?thesis by (simp only: range_loop_from) simp
  next
    case False
    then have "nat (start - idx) = Suc (nat (start - (idx + 1)))" "idx + 1 \<le> start" using 2(3) by auto
    then show ?thesis using 2(1) 2(2) False by auto
  qed
qed simp

lemma index_loop_eq: "idx \<le> i \<Longrightarrow> index_loop i idx xs = (if nat (i - idx) < length xs then Some (xs ! nat (i - idx)) else None)"
proof (induction i idx xs rule: index_loop.induct)
  case (2 index idx b bs)
  have "nat (index - idx) = Suc (nat (index - (idx + 1)))" if "idx \<noteq> index" using that 2(2) by simp
  then show ?case using 2 by auto
qed simp

lemma replace_loop_eq: "idx \<le> i \<Longrightarrow> replace_loop i v idx xs = xs[nat (i - idx) := v]"
proof (induction i v idx xs rule: replace_loop.induct)
  case (2 index v idx b bs)
  have "nat (index - idx) = Suc (nat (index - (idx + 1)))" if "idx \<noteq> index" using that 2(2) by simp
  then show ?case using 2 by auto
qed simp

lemma replace_loop_before: "i < idx \<Longrightarrow> replace_loop i v idx xs = xs"
  by (induction i v idx xs rule: replace_loop.induct) auto

lemma walk_next_eq: "walk_next i xs = (if i < length xs then Some (xs ! i) else None)"
  by (induction i xs rule: walk_next.induct) auto

lemma pos_loop_eq:
  "pos_loop v idx xs = (if v \<in> set xs then idx + int (length (takeWhile (\<lambda>b. b \<noteq> v) xs)) else -1)"
  by (induction v idx xs rule: pos_loop.induct) auto

lemma insert_loop_eq:
  "insert_loop p v before xs =
     (if p \<in> set xs
      then Some (takeWhile (\<lambda>b. b \<noteq> p) xs @ (if before then [v, p] else [p, v]) @ tl (dropWhile (\<lambda>b. b \<noteq> p) xs))
      else None)"
  by (induction p v before xs rule: insert_loop.induct) auto

fun drop_first :: "nat \<Rightarrow> 'a \<Rightarrow> 'a list \<Rightarrow> 'a list" where
  "drop_first n x [] = []"
| "drop_first n x (b # bs) = (if n = 0 then b # bs else if b = x then drop_first (n - 1) x bs else b # drop_first n x bs)"

lemma drop_first_0 [simp]: "drop_first 0 x xs = xs"
  by (cases xs) simp_all

lemma remove_loop_eq:
  "remove_loop x limit removed xs =
     (if limit \<le> removed then (removed, xs)
      else (removed + min (limit - removed) (int (count_list xs x)), drop_first (nat (limit - removed)) x xs))"
proof (induction x limit removed xs rule: remove_loop.induct)
  case (2 x limit removed b bs)
  have "nat (limit - (removed + 1)) = nat (limit - removed) - 1" by simp
  then show ?case using 2 by (auto split: prod.splits)
qed simp

lemma remove_all_loop_eq: "remove_all_loop x removed xs = (removed + int (count_list xs x), filter (\<lambda>b. b \<noteq> x) xs)"
  by (induction x removed xs rule: remove_all_loop.induct) auto

lemma drop_first_split:
  "\<exists>ys zs. xs = ys @ zs \<and> drop_first n x xs = filter (\<lambda>b. b \<noteq> x) ys @ zs \<and> count_list ys x = min n (count_list xs x)"
proof (induction n x xs rule: drop_first.induct)
  case (2 n x b bs)
  show ?case
  proof (cases "n = 0")
    case True
    then show ?thesis by (intro exI [of _ "[]"] exI [of _ "b # bs"]) (simp del: drop_first.simps)
  next
    case False
    define m where "m = (if b = x then n - 1 else n)"
    obtain ys zs where "bs = ys @ zs" "drop_first m x bs = filter (\<lambda>b. b \<noteq> x) ys @ zs" "count_list ys x = min m (count_list bs x)"
      using 2 False unfolding m_def by (cases "b = x") auto
    then show ?thesis using False
      by (intro exI [of _ "b # ys"] exI [of _ zs]) (auto simp: m_def)
  qed
qed simp

subsection \<open>The specification\<close>

datatype list_op =
    LPush bool string "bytes list" "time option"
  | LPop bool string
  | LMove string string bool bool
  | LLen string
  | LRange string int int
  | LGet string
  | LIndex string int
  | LReplace string int bytes
  | LInsert string bytes bytes bool
  | LRemove string int bytes
  | LPos string bytes
  | LDelete string
  | LCleanupExpired
  | LDeleteBy pattern
  | LFind pattern
  | LCount pattern
  | LClear
  | LReset

datatype list_res =
    LErr "goerr option"
  | LBytes "goerr + bytes"
  | LInt "goerr + int"
  | LElems "bytes list"
  | LFound "goerr + (string \<rightharpoonup> bytes list)"
  | LDel int "goerr option"

fun list_apply ::
  "regexp_compile \<Rightarrow> 'w logger \<Rightarrow> time \<Rightarrow> string list \<Rightarrow> list_op \<Rightarrow> ListStorage \<times> 'w \<Rightarrow>
   (list_res \<times> ListStorage \<times> 'w) option" where
  "list_apply compile lg now ks (LPush left k vs x) s =
     map_option (map_prod LErr id) (if left then LeftPush lg now k vs x s else RightPush lg now k vs x s)"
| "list_apply compile lg now ks (LPop left k) s =
     map_option (map_prod LBytes id) (if left then LeftPop lg now k s else RightPop lg now k s)"
| "list_apply compile lg now ks (LMove k k' l r) s = map_option (map_prod LBytes id) (list_Move lg now k k' l r s)"
| "list_apply compile lg now ks (LLen k) s = map_option (map_prod (LInt \<circ> Inr) id) (list_Len lg now k s)"
| "list_apply compile lg now ks (LRange k i j) s = map_option (map_prod LElems id) (list_Range lg now k i j s)"
| "list_apply compile lg now ks (LGet k) s = map_option (map_prod LElems id) (list_Get lg now k s)"
| "list_apply compile lg now ks (LIndex k i) s = map_option (map_prod LBytes id) (list_Index lg now k i s)"
| "list_apply compile lg now ks (LReplace k i v) s = map_option (map_prod LErr id) (ReplaceAtIndex lg now k i v s)"
| "list_apply compile lg now ks (LInsert k p v b) s = map_option (map_prod LInt id) (list_Insert lg now k p v b s)"
| "list_apply compile lg now ks (LRemove k n v) s = map_option (map_prod LInt id) (list_Remove lg now k n v s)"
| "list_apply compile lg now ks (LPos k v) s = map_option (map_prod (LInt \<circ> Inr) id) (list_Pos lg now k v s)"
| "list_apply compile lg now ks (LDelete k) s = map_option (map_prod LErr id) (list_Delete lg k s)"
| "list_apply compile lg now ks LCleanupExpired s = map_option (Pair (LErr None)) (list_CleanupExpired lg now s)"
| "list_apply compile lg now ks (LDeleteBy (Prefix p)) s =
     map_option (map_prod (\<lambda>(n, err). LDel n err) id) (list_DeleteByPrefix lg now ks p s)"
| "list_apply compile lg now ks (LDeleteBy (Suffix p)) s =
     map_option (map_prod (\<lambda>(n, err). LDel n err) id) (list_DeleteBySuffix lg now ks p s)"
| "list_apply compile lg now ks (LDeleteBy (Regex p)) s =
     map_option (map_prod (\<lambda>(n, err). LDel n err) id) (list_DeleteByRegex compile lg now ks p s)"
| "list_apply compile lg now ks (LFind (Prefix p)) s =
     map_option (map_prod (LFound \<circ> Inr) id) (list_FindByPrefix lg now ks p s)"
| "list_apply compile lg now ks (LFind (Suffix p)) s =
     map_option (map_prod (LFound \<circ> Inr) id) (list_FindBySuffix lg now ks p s)"
| "list_apply compile lg now ks (LFind (Regex p)) s =
     map_option (map_prod LFound id) (list_FindByRegex compile lg now ks p s)"
| "list_apply compile lg now ks (LCount (Prefix p)) s =
     map_option (map_prod (LInt \<circ> Inr) id) (list_CountByPrefix lg now ks p s)"
| "list_apply compile lg now ks (LCount (Suffix p)) s =
     map_option (map_prod (LInt \<circ> Inr) id) (list_CountBySuffix lg now ks p s)"
| "list_apply compile lg now ks (LCount (Regex p)) s =
     map_option (map_prod LInt id) (list_CountByRegex compile lg now ks p s)"
| "list_apply compile lg now ks LClear (e, w) = Some (LErr None, list_Clear e, w)"
| "list_apply compile lg now ks LReset (e, w) = Some (LErr None, list_Reset e, w)"

type_synonym list_map = "string \<rightharpoonup> bytes list \<times> time option"

definition list_abs :: "time \<Rightarrow> ListStorage \<Rightarrow> list_map" where
  "list_abs now e = visible list_expiresAt (\<lambda>v. (elems v, list_expiresAt v)) now e"

definition contents :: "list_map \<Rightarrow> string \<Rightarrow> bytes list" where
  "contents A k = (case A k of None \<Rightarrow> [] | Some (xs, x) \<Rightarrow> xs)"

definition expiry_of :: "list_map \<Rightarrow> string \<Rightarrow> time option" where
  "expiry_of A k = (case A k of None \<Rightarrow> None | Some (xs, x) \<Rightarrow> x)"

definition spec_store :: "string \<Rightarrow> bytes list \<Rightarrow> list_map \<Rightarrow> list_map" where
  "spec_store k xs A = A(k := if xs = [] then None else Some (xs, expiry_of A k))"

definition resolve :: "'a list \<Rightarrow> int \<Rightarrow> nat option" where
  "resolve xs i =
     (let j = (if i < 0 then int (length xs) + i else i) in
      if 0 \<le> j \<and> j < int (length xs) then Some (nat j) else None)"

definition slice :: "int \<Rightarrow> int \<Rightarrow> 'a list \<Rightarrow> 'a list" where
  "slice i j xs =
     (let n = int (length xs); a = max 0 (if i < 0 then n + i else i); b = (if j < 0 then n + j else j)
      in take (nat (b + 1 - a)) (drop (nat a) xs))"

definition spec_take :: "bool \<Rightarrow> 'a list \<Rightarrow> 'a \<times> 'a list" where
  "spec_take left xs = (if left then (hd xs, tl xs) else (last xs, butlast xs))"

definition spec_remove :: "int \<Rightarrow> bytes \<Rightarrow> bytes list \<Rightarrow> int \<times> bytes list" where
  "spec_remove n v xs =
     (if n = 0 then (int (count_list xs v), filter (\<lambda>b. b \<noteq> v) xs)
      else if 0 < n then (min n (int (count_list xs v)), drop_first (nat n) v xs)
      else (min (max 0 (wrap64 (- n))) (int (count_list xs v)), rev (drop_first (nat (wrap64 (- n))) v (rev xs))))"

definition spec_push :: "time \<Rightarrow> bool \<Rightarrow> string \<Rightarrow> bytes list \<Rightarrow> time option \<Rightarrow> list_map \<Rightarrow> list_map" where
  "spec_push now left k vs x A =
     (let x' = (if x \<noteq> None then x else expiry_of A k);
          xs = (if left then rev vs @ contents A k else contents A k @ vs)
      in A(k := if expired x' now then None else Some (xs, x')))"

fun list_spec :: "regexp_compile \<Rightarrow> time \<Rightarrow> list_op \<Rightarrow> list_map \<Rightarrow> list_res \<times> list_map" where
  "list_spec compile now (LPush left k vs x) A = (LErr None, spec_push now left k vs x A)"
| "list_spec compile now (LPop left k) A =
     (if contents A k = [] then (LBytes (Inl (not_found k ''POP'')), A)
      else (case spec_take left (contents A k) of (b, rest) \<Rightarrow> (LBytes (Inr b), spec_store k rest A)))"
| "list_spec compile now (LMove k k' l r) A =
     (if contents A k = [] then (LBytes (Inl (not_found k ''MOVE'')), A)
      else (case spec_take l (contents A k) of (b, rest) \<Rightarrow>
        (let A' = spec_store k rest A
         in (LBytes (Inr b), spec_store k' (if r then b # contents A' k' else contents A' k' @ [b]) A'))))"
| "list_spec compile now (LLen k) A = (LInt (Inr (int (length (contents A k)))), A)"
| "list_spec compile now (LRange k i j) A = (LElems (slice i j (contents A k)), A)"
| "list_spec compile now (LGet k) A = (LElems (contents A k), A)"
| "list_spec compile now (LIndex k i) A =
     (LBytes (case resolve (contents A k) i of
        None \<Rightarrow> Inl (not_found k ''INDEX'') | Some n \<Rightarrow> Inr (contents A k ! n)), A)"
| "list_spec compile now (LReplace k i v) A =
     (case resolve (contents A k) i of
        None \<Rightarrow> (LErr (Some (not_found k ''REPLACE'')), A)
      | Some n \<Rightarrow> (LErr None, spec_store k ((contents A k)[n := v]) A))"
| "list_spec compile now (LInsert k p v before) A =
     (if A k = None then (LInt (Inr 0), A)
      else if p \<notin> set (contents A k) then (LInt (Inr (-1)), A)
      else (LInt (Inr (int (length (contents A k)) + 1)),
            spec_store k (takeWhile (\<lambda>b. b \<noteq> p) (contents A k) @ (if before then [v, p] else [p, v]) @
              tl (dropWhile (\<lambda>b. b \<noteq> p) (contents A k))) A))"
| "list_spec compile now (LRemove k n v) A =
     (case spec_remove n v (contents A k) of (m, xs) \<Rightarrow> (LInt (Inr m), spec_store k xs A))"
| "list_spec compile now (LPos k v) A =
     (LInt (Inr (if v \<in> set (contents A k) then int (length (takeWhile (\<lambda>b. b \<noteq> v) (contents A k))) else -1)), A)"
| "list_spec compile now (LDelete k) A = (LErr None, A(k := None))"
| "list_spec compile now LCleanupExpired A = (LErr None, map_keep (\<lambda>k a. \<forall>t. snd a = Some t \<longrightarrow> now < t) A)"
| "list_spec compile now (LDeleteBy p) A =
     (case matcher compile p of
        Inl err \<Rightarrow> (LDel 0 (Some err), A)
      | Inr m \<Rightarrow> (LDel (int (card {k \<in> dom A. m k})) None, A |` {k. \<not> m k}))"
| "list_spec compile now (LFind p) A =
     (LFound (case matcher compile p of Inl err \<Rightarrow> Inl err
              | Inr m \<Rightarrow> Inr (\<lambda>k. if m k then map_option fst (A k) else None)), A)"
| "list_spec compile now (LCount p) A =
     (LInt (case matcher compile p of Inl err \<Rightarrow> Inl err | Inr m \<Rightarrow> Inr (int (card {k \<in> dom A. m k}))), A)"
| "list_spec compile now LClear A = (LErr None, Map.empty)"
| "list_spec compile now LReset A = (LErr None, Map.empty)"

abbreviation list_inv :: "ListStorage \<Rightarrow> bool" where
  "list_inv \<equiv> engine_inv list_expiresAt"

subsection \<open>The primitive steps\<close>

lemma list_abs_put:
  "data e' = (data e)(k \<mapsto> v) \<Longrightarrow>
   list_abs now e' = (list_abs now e)(k := if expired (list_expiresAt v) now then None else Some (elems v, list_expiresAt v))"
  unfolding list_abs_def by (rule visible_put)

lemma list_abs_delete: "data e' = (data e)(k := None) \<Longrightarrow> list_abs now e' = (list_abs now e)(k := None)"
  unfolding list_abs_def by (rule visible_delete)

lemma list_abs_evict:
  "data e' = (data e)(k := None) \<Longrightarrow> stale list_expiresAt now (data e) k \<Longrightarrow> list_abs now e' = list_abs now e"
  unfolding list_abs_def by (rule visible_evict)

lemma list_abs_None: "list_abs now e k = None \<longleftrightarrow> data e k = None \<or> stale list_expiresAt now (data e) k"
  unfolding list_abs_def by (rule visible_None)

lemma evicted_abs: "evicted list_expiresAt now e e' \<Longrightarrow> list_abs now e' = list_abs now e"
  unfolding list_abs_def by (rule evicted_visible)

lemma live_abs:
  "live_at list_expiresAt now k e \<Longrightarrow> list_abs now e k = map_option (\<lambda>v. (elems v, list_expiresAt v)) (data e k)"
  unfolding list_abs_def by (rule live_visible)

lemma live_contents:
  "live_at list_expiresAt now k e \<Longrightarrow>
   contents (list_abs now e) k = (case data e k of None \<Rightarrow> [] | Some v \<Rightarrow> elems v)"
  "live_at list_expiresAt now k e \<Longrightarrow>
   expiry_of (list_abs now e) k = (case data e k of None \<Rightarrow> None | Some v \<Rightarrow> list_expiresAt v)"
  by (simp_all add: live_abs contents_def expiry_of_def split: option.splits)

lemma store_ok:
  assumes "list_inv e" "live_at list_expiresAt now k e" "data e k = Some v" "xs \<noteq> []"
  shows "list_inv (e\<lparr>data := (data e)(k \<mapsto> v\<lparr>elems := xs\<rparr>)\<rparr>)"
    "list_abs now (e\<lparr>data := (data e)(k \<mapsto> v\<lparr>elems := xs\<rparr>)\<rparr>) = spec_store k xs (list_abs now e)"
proof -
  show "list_inv (e\<lparr>data := (data e)(k \<mapsto> v\<lparr>elems := xs\<rparr>)\<rparr>)"
    using assms by (intro update_ok) simp_all
  have "list_abs now (e\<lparr>data := (data e)(k \<mapsto> v\<lparr>elems := xs\<rparr>)\<rparr>) =
      (list_abs now e)(k := if expired (list_expiresAt v) now then None else Some (xs, list_expiresAt v))"
    using list_abs_put [of "e\<lparr>data := (data e)(k \<mapsto> v\<lparr>elems := xs\<rparr>)\<rparr>" e k "v\<lparr>elems := xs\<rparr>" now] by simp
  then show "list_abs now (e\<lparr>data := (data e)(k \<mapsto> v\<lparr>elems := xs\<rparr>)\<rparr>) = spec_store k xs (list_abs now e)"
    using assms(2-4) by (simp add: spec_store_def live_contents live_at_def)
qed

lemma erase_ends:
  "list_inv e \<Longrightarrow> ends (deleteNoLock k e) (\<lambda>e'. list_inv e' \<and> data e' = (data e)(k := None) \<and>
     list_abs now e' = spec_store k [] (list_abs now e))"
  by (rule ends_mono [OF deleteNoLock_ends]) (auto simp: spec_store_def list_abs_delete)

lemma pop_ends:
  assumes "list_inv e" "live_at list_expiresAt now k e" "data e k = Some v" "elems v \<noteq> []"
  shows "ends (list_popNoLockAndNoWal k left e) (\<lambda>(b, e'). list_inv e' \<and> b = fst (spec_take left (elems v)) \<and>
    list_abs now e' = spec_store k (snd (spec_take left (elems v))) (list_abs now e) \<and>
    data e' = (data e)(k := if snd (spec_take left (elems v)) = [] then None
                            else Some (v\<lparr>elems := snd (spec_take left (elems v))\<rparr>)))"
proof -
  obtain b bs where xs: "elems v = b # bs" using assms(4) by (cases "elems v") auto
  let ?rest = "snd (spec_take left (elems v))"
  have pop: "list_popNoLockAndNoWal k left e = do {
      e' \<leftarrow> (if ?rest = [] then deleteNoLock k e else Some (e\<lparr>data := (data e)(k \<mapsto> v\<lparr>elems := ?rest\<rparr>)\<rparr>));
      Some (fst (spec_take left (elems v)), e') }"
    using assms(3) xs by (simp add: list_popNoLockAndNoWal_def spec_take_def Let_def)
  show ?thesis
  proof (cases "?rest = []")
    case True
    then show ?thesis unfolding pop by (auto intro!: ends_mono [OF erase_ends [OF assms(1), of k now]])
  next
    case False
    then show ?thesis unfolding pop using store_ok [OF assms(1-3) False] by simp
  qed
qed

lemma add_ok:
  assumes "list_inv e" "xs \<noteq> []" "live_at list_expiresAt now k e"
    "val = (case data e k of None \<Rightarrow> NewValue [] now None | Some v \<Rightarrow> v)"
  shows "list_inv (e\<lparr>data := (data e)(k \<mapsto> val\<lparr>elems := xs\<rparr>)\<rparr>) \<and>
    list_abs now (e\<lparr>data := (data e)(k \<mapsto> val\<lparr>elems := xs\<rparr>)\<rparr>) = spec_store k xs (list_abs now e)"
proof (cases "data e k")
  case None
  have "list_inv (e\<lparr>data := (data e)(k \<mapsto> val\<lparr>elems := xs\<rparr>)\<rparr>)"
    using assms None by (intro update_ok) (simp_all add: NewValue_def)
  moreover have "list_abs now (e\<lparr>data := (data e)(k \<mapsto> val\<lparr>elems := xs\<rparr>)\<rparr>) = (list_abs now e)(k \<mapsto> (xs, None))"
    using None assms(4) list_abs_put [of "e\<lparr>data := (data e)(k \<mapsto> val\<lparr>elems := xs\<rparr>)\<rparr>" e k "val\<lparr>elems := xs\<rparr>" now]
    by (simp add: NewValue_def expired_def)
  ultimately show ?thesis using assms(2,3) None by (simp add: spec_store_def live_contents)
next
  case (Some v)
  then show ?thesis using store_ok [OF assms(1,3) Some assms(2)] assms(4) by simp
qed

lemma push_ends:
  assumes "list_inv e"
  shows "ends (list_pushNoLockAndNoWal now k vs x left e) (\<lambda>e'. list_inv e' \<and>
    list_abs now e' = spec_push now left k vs x (list_abs now e))"
proof -
  have "ends (list_drop_expired now k e) (\<lambda>e1. list_inv e1 \<and> list_abs now e1 = list_abs now e \<and> live_at list_expiresAt now k e1)"
    using evict_ends [OF assms, of "\<lambda>e a args w. (None, ())" "''list''" now k "()"] assms
    by (cases "data e k")
      (auto simp: evict_def list_drop_expired_def elim!: ends_mono split: if_splits dest: evicted_abs evicted_inv)
  then show ?thesis
    unfolding list_pushNoLockAndNoWal_def ends_simps(3)
  proof (rule ends_mono, elim conjE)
    fix e1 assume e1: "list_inv e1" "list_abs now e1 = list_abs now e" "live_at list_expiresAt now k e1"
    define val where "val = (case data e1 k of None \<Rightarrow> NewValue [] now x
      | Some v \<Rightarrow> if x \<noteq> None then v\<lparr>list_expiresAt := x\<rparr> else v)"
    define v' where "v' = val\<lparr>elems := push_all left vs (elems val)\<rparr>"
    have xp: "list_expiresAt v' = (if x \<noteq> None then x else expiry_of (list_abs now e1) k)"
      using e1(3) by (auto simp: v'_def val_def NewValue_def live_contents split: option.splits)
    have el: "elems v' = (if left then rev vs @ contents (list_abs now e1) k else contents (list_abs now e1) k @ vs)"
      using e1(3) by (auto simp: v'_def val_def NewValue_def live_contents push_all_eq split: option.splits)
    have abs: "list_abs now e' = spec_push now left k vs x (list_abs now e1)" if "data e' = (data e1)(k \<mapsto> v')" for e'
      unfolding list_abs_put [OF that] spec_push_def Let_def xp el by simp
    show "ends (let val = (case data e1 k of None \<Rightarrow> NewValue [] now x
           | Some v \<Rightarrow> if x \<noteq> None then v\<lparr>list_expiresAt := x\<rparr> else v);
         e2 = e1\<lparr>data := (data e1)(k \<mapsto> val\<lparr>elems := push_all left vs (elems val)\<rparr>)\<rparr>
         in if x \<noteq> None then do { e3 \<leftarrow> dropExpiration k e2; Some (addExpiration k x e3) } else Some e2)
       (\<lambda>e'. list_inv e' \<and> list_abs now e' = spec_push now left k vs x (list_abs now e))"
      unfolding Let_def val_def [symmetric] v'_def [symmetric]
    proof (cases "x = None")
      case True
      then have "Option.bind (data e1 k) list_expiresAt = list_expiresAt v'"
        using xp e1(3) by (cases "data e1 k") (simp_all add: live_contents)
      then show "ends (if x \<noteq> None
          then do { e3 \<leftarrow> dropExpiration k (e1\<lparr>data := (data e1)(k \<mapsto> v')\<rparr>); Some (addExpiration k x e3) }
          else Some (e1\<lparr>data := (data e1)(k \<mapsto> v')\<rparr>))
        (\<lambda>e'. list_inv e' \<and> list_abs now e' = spec_push now left k vs x (list_abs now e))"
        using True abs e1 update_ok [OF e1(1), of k v'] by simp
    next
      case False
      then have "list_expiresAt v' = x" using xp by simp
      then show "ends (if x \<noteq> None
          then do { e3 \<leftarrow> dropExpiration k (e1\<lparr>data := (data e1)(k \<mapsto> v')\<rparr>); Some (addExpiration k x e3) }
          else Some (e1\<lparr>data := (data e1)(k \<mapsto> v')\<rparr>))
        (\<lambda>e'. list_inv e' \<and> list_abs now e' = spec_push now left k vs x (list_abs now e))"
        using False abs e1(2) by (auto intro!: ends_mono [OF put_ends [OF e1(1), of k v']])
    qed
  qed
qed

end
