(* ===== verification/ListRefine.thy ===== *)
theory ListRefine
  imports ListSpec
begin

text \<open>
  The refinement proofs of the list engine: each operation, with a logger that does not fail, gives the
  result and the view that \<open>list_spec\<close> gives.
\<close>

subsection \<open>The refinement\<close>

lemma slice_eq: "range_elems i j xs = slice i j xs"
proof (cases "xs = []")
  case True
  then show ?thesis by (simp add: range_elems_def slice_def)
next
  case False
  define n where "n = int (length xs)"
  define a where "a = max 0 (if i < 0 then n + i else i)"
  define b where "b = (if j < 0 then n + j else j)"
  define b' where "b' = (if n \<le> b then n - 1 else b)"
  have "0 < n" using False by (simp add: n_def)
  have "range_elems i j xs = (if b' < a then [] else range_loop a b' 0 xs)"
    using \<open>0 < n\<close> unfolding range_elems_def Let_def n_def [symmetric] a_def b_def b'_def by (simp add: max_def)
  also have "\<dots> = take (nat (b' + 1 - a)) (drop (nat a) xs)"
    using range_loop_eq [of 0 a b' xs] by (simp add: a_def)
  also have "\<dots> = take (nat (b + 1 - a)) (drop (nat a) xs)"
  proof (cases "n \<le> b")
    case True
    then have "length (drop (nat a) xs) \<le> nat (b' + 1 - a)" "length (drop (nat a) xs) \<le> nat (b + 1 - a)"
      unfolding b'_def n_def by (simp_all add: a_def)
    then show ?thesis by simp
  qed (simp add: b'_def)
  finally show ?thesis by (simp add: slice_def Let_def n_def a_def b_def)
qed

lemma remove_elems_eq: "remove_elems n v xs = spec_remove n v xs"
proof -
  have "count_list (rev xs) v = count_list xs v" by simp
  then show ?thesis
    by (simp add: remove_elems_def spec_remove_def remove_loop_eq remove_all_loop_eq max_def min_def)
qed

lemma read_ends:
  assumes "list_inv e"
  shows "ends (list_read lg now k (e, w)) (\<lambda>(r, e', w'). list_inv e' \<and> list_abs now e' = list_abs now e \<and>
    r = map_option fst (list_abs now e k))"
proof (cases "data e k")
  case None
  then show ?thesis using assms live_abs [of now k e] by (simp add: list_read_def live_at_def)
next
  case (Some v)
  show ?thesis
  proof (cases "expired (list_expiresAt v) now")
    case True
    then have "list_abs now e k = None" using Some by (simp add: list_abs_None stale_def)
    then show ?thesis using Some True
      by (auto simp: list_read_def evicted_inv evicted_abs intro!: ends_mono [OF evict_ends [OF assms]])
  next
    case False
    then show ?thesis using Some assms live_abs [of now k e] by (simp add: list_read_def live_at_def)
  qed
qed

lemma list_abs_contents: "(case map_option fst (A k) of None \<Rightarrow> [] | Some xs \<Rightarrow> xs) = contents A k"
  by (auto simp: contents_def split: option.splits)

lemma spec_store_absent: "A k = None \<Longrightarrow> spec_store k [] A = A"
  by (auto simp: spec_store_def)

lemma move_ends:
  assumes "list_inv e" "live_at list_expiresAt now k e" "live_at list_expiresAt now k' e" "data e k = Some v" "elems v \<noteq> []"
  shows "ends (list_moveNoLockAndNoWal now k k' l r e) (\<lambda>(b, e'). list_inv e' \<and>
    (LBytes (Inr b), list_abs now e') = list_spec compile now (LMove k k' l r) (list_abs now e))"
proof -
  let ?b = "fst (spec_take l (elems v))" and ?rest = "snd (spec_take l (elems v))"
  have c: "contents (list_abs now e) k = elems v" using live_contents(1) [OF assms(2)] assms(4) by simp
  from pop_ends [OF assms(1,2,4,5), of l] obtain e3 where
    e3: "list_popNoLockAndNoWal k l e = Some (?b, e3)" "list_inv e3"
      "list_abs now e3 = spec_store k ?rest (list_abs now e)"
      "data e3 = (data e)(k := if ?rest = [] then None else Some (v\<lparr>elems := ?rest\<rparr>))"
    by (auto simp: ends_iff)
  have lv3: "live_at list_expiresAt now k' e3"
    using assms(2-4) unfolding live_at_def e3(4) by (auto split: if_splits)
  define val where "val = (case data e3 k' of None \<Rightarrow> NewValue [] now None | Some v \<Rightarrow> v)"
  have ct: "elems val = contents (list_abs now e3) k'"
    using live_contents(1) [OF lv3] by (auto simp: val_def NewValue_def split: option.splits)
  define xs where "xs = (if r then ?b # elems val else elems val @ [?b])"
  let ?e4 = "e3\<lparr>data := (data e3)(k' \<mapsto> val\<lparr>elems := xs\<rparr>)\<rparr>"
  have "xs \<noteq> []" by (simp add: xs_def)
  note e4 = add_ok [OF e3(2) this lv3 val_def]
  have "list_moveNoLockAndNoWal now k k' l r e = Some (?b, ?e4)"
    using e3(1) by (simp add: list_moveNoLockAndNoWal_def val_def xs_def Let_def)
  then show ?thesis
    using e4 assms(5) c e3(3) ct by (simp add: Let_def xs_def split_beta)
qed

lemma replace_ends:
  assumes "list_inv e" "live_at list_expiresAt now k e" "data e k = Some v" "0 \<le> i" "i < int (length (elems v))"
  shows "ends (list_replaceNoLockAndNoWal k i b e) (\<lambda>e'. list_inv e' \<and>
    list_abs now e' = spec_store k ((elems v)[nat i := b]) (list_abs now e))"
proof -
  have ne: "(elems v)[nat i := b] \<noteq> []" using assms(4,5) by auto
  show ?thesis
    using assms store_ok [OF assms(1-3) ne] by (simp add: list_replaceNoLockAndNoWal_def replace_loop_eq)
qed

lemma insert_ends:
  assumes "list_inv e" "live_at list_expiresAt now k e" "data e k = Some v"
  shows "ends (list_insertNoLockAndNoWal k p b before e) (\<lambda>(n, e'). list_inv e' \<and> (n = -1 \<longleftrightarrow> p \<notin> set (elems v)) \<and> -1 \<le> n \<and>
    (LInt (Inr n), list_abs now e') = list_spec compile now (LInsert k p b before) (list_abs now e))"
proof -
  have ct: "contents (list_abs now e) k = elems v" and nn: "list_abs now e k \<noteq> None"
    using live_contents(1) [OF assms(2)] live_abs [OF assms(2)] assms(3) by simp_all
  let ?xs = "takeWhile (\<lambda>b. b \<noteq> p) (elems v) @ (if before then [b, p] else [p, b]) @ tl (dropWhile (\<lambda>b. b \<noteq> p) (elems v))"
  show ?thesis
  proof (cases "p \<in> set (elems v)")
    case False
    then show ?thesis
      using assms ct nn by (simp add: list_insertNoLockAndNoWal_def insert_loop_eq)
  next
    case True
    then have "dropWhile (\<lambda>b. b \<noteq> p) (elems v) \<noteq> []" by (auto simp: dropWhile_eq_Nil_conv)
    then have "length (elems v) = length (takeWhile (\<lambda>b. b \<noteq> p) (elems v)) + Suc (length (tl (dropWhile (\<lambda>b. b \<noteq> p) (elems v))))"
      by (metis length_append length_Cons list.exhaust_sel takeWhile_dropWhile_id)
    then have len: "int (length ?xs) = int (length (elems v)) + 1" by auto
    let ?e2 = "e\<lparr>data := (data e)(k \<mapsto> v\<lparr>elems := ?xs\<rparr>)\<rparr>"
    have "list_insertNoLockAndNoWal k p b before e = Some (int (length (elems v)) + 1, ?e2)"
      using assms(3) True len by (simp add: list_insertNoLockAndNoWal_def insert_loop_eq del: length_append)
    then show ?thesis using True ct nn store_ok [OF assms(1,2,3), of ?xs] by simp
  qed
qed

lemma remove_ends:
  assumes "list_inv e" "live_at list_expiresAt now k e" "data e k = Some v"
  shows "ends (list_removeNoLockAndNoWal k n b e) (\<lambda>(m, e'). list_inv e' \<and>
    (LInt (Inr m), list_abs now e') = list_spec compile now (LRemove k n b) (list_abs now e))"
proof -
  have ct: "contents (list_abs now e) k = elems v" using live_contents(1) [OF assms(2)] assms(3) by simp
  obtain m xs where sr: "spec_remove n b (elems v) = (m, xs)" by fastforce
  show ?thesis
  proof (cases "xs = []")
    case True
    then show ?thesis using assms(3) sr ct
      by (auto simp: list_removeNoLockAndNoWal_def remove_elems_eq intro!: ends_mono [OF erase_ends [OF assms(1), of k now]])
  next
    case False
    then show ?thesis using assms(3) sr ct store_ok [OF assms(1-3) False]
      by (simp add: list_removeNoLockAndNoWal_def remove_elems_eq)
  qed
qed

context reliable_logger
begin

lemma list_push_refines:
  assumes "list_inv e"
  shows "ends (list_pushNoLock lg now k vs x left (e, w)) (\<lambda>(r, e', w'). r = None \<and> list_inv e' \<and>
    list_abs now e' = spec_push now left k vs x (list_abs now e))"
proof -
  obtain w' where "lg ''list'' (if left then ''LPUSH'' else ''RPUSH'') (PathEscape k # expires_str x # map EncodeToString vs) w
    = (None, w')" by (rule logged)
  then show ?thesis by (auto simp: list_pushNoLock_def intro!: ends_mono [OF push_ends [OF assms]])
qed

lemma list_pop_refines:
  assumes "list_inv e"
  shows "ends (list_popNoLock lg now k left (e, w)) (\<lambda>(r, e', w'). list_inv e' \<and>
    (LBytes r, list_abs now e') = list_spec compile now (LPop left k) (list_abs now e))"
proof -
  obtain e1 w1 where ev: "evict lg ''list'' list_expiresAt now k (e, w) = Some (e1, w1)"
    and evd: "evicted list_expiresAt now e e1" and lv1: "live_at list_expiresAt now k e1"
    using evict_ok [OF assms] .
  note e1 = evicted_inv [OF evd] evicted_abs [OF evd] lv1
  note c = live_contents(1) [OF e1(3), unfolded e1(2)]
  show ?thesis
  proof (cases "contents (list_abs now e) k = []")
    case True
    then have "case data e1 k of None \<Rightarrow> True | Some v \<Rightarrow> elems v = []" using c by (auto split: option.splits)
    then show ?thesis using True ev e1 by (simp add: list_popNoLock_def)
  next
    case False
    then obtain v where v: "data e1 k = Some v" "elems v \<noteq> []" "contents (list_abs now e) k = elems v"
      using c by (auto split: option.splits)
    from pop_ends [OF e1(1,3) v(1,2), of left] obtain e2 where
      e2: "list_popNoLockAndNoWal k left e1 = Some (fst (spec_take left (elems v)), e2)" "list_inv e2"
        "list_abs now e2 = spec_store k (snd (spec_take left (elems v))) (list_abs now e)"
      using e1(2) by (auto simp: ends_iff)
    obtain w2 where "lg ''list'' (if left then ''LPOP'' else ''RPOP'') [PathEscape k] w1 = (None, w2)" by (rule logged)
    then show ?thesis using False v ev e2 by (simp add: list_popNoLock_def split: prod.splits)
  qed
qed

lemma list_move_refines:
  assumes "list_inv e"
  shows "ends (list_Move lg now k k' l r (e, w)) (\<lambda>(res, e', w'). list_inv e' \<and>
    (LBytes res, list_abs now e') = list_spec compile now (LMove k k' l r) (list_abs now e))"
proof -
  obtain e1 w1 where ev: "evict lg ''list'' list_expiresAt now k (e, w) = Some (e1, w1)"
    and evd: "evicted list_expiresAt now e e1" and lv1: "live_at list_expiresAt now k e1"
    using evict_ok [OF assms] .
  note e1 = evicted_inv [OF evd] evicted_abs [OF evd] lv1
  note c = live_contents(1) [OF e1(3), unfolded e1(2)]
  show ?thesis
  proof (cases "contents (list_abs now e) k = []")
    case True
    then have "case data e1 k of None \<Rightarrow> True | Some v \<Rightarrow> elems v = []" using c by (auto split: option.splits)
    then show ?thesis using True ev e1 by (simp add: list_Move_def)
  next
    case False
    then obtain v where v: "data e1 k = Some v" "elems v \<noteq> []" "contents (list_abs now e) k = elems v"
      using c by (auto split: option.splits)
    obtain e2 w2 where ev2: "evict lg ''list'' list_expiresAt now k' (e1, w1) = Some (e2, w2)"
      and evd2: "evicted list_expiresAt now e1 e2" and lv2: "live_at list_expiresAt now k' e2"
      using evict_ok [OF e1(1)] .
    have e2: "list_inv e2" "list_abs now e2 = list_abs now e" "live_at list_expiresAt now k' e2"
      using evicted_inv [OF evd2] evicted_abs [OF evd2] e1(2) lv2 by simp_all
    have v2: "data e2 k = Some v" using evicted_keeps [OF evd2 v(1)] e1(3) v(1) by (simp add: live_at_def)
    then have lv: "live_at list_expiresAt now k e2" using e1(3) v(1) by (simp add: live_at_def)
    obtain w3 where "lg ''list'' ''MOVE'' [PathEscape k, PathEscape k', bool_arg l, bool_arg r] w2 = (None, w3)"
      by (rule logged)
    then show ?thesis
      using ev ev2 v(1,2) e2(2) by (auto simp: list_Move_def simp del: list_spec.simps
          intro!: ends_mono [OF move_ends [OF e2(1) lv e2(3) v2 v(2), where compile = compile]])
  qed
qed

lemma list_replace_refines:
  assumes "list_inv e"
  shows "ends (ReplaceAtIndex lg now k i b (e, w)) (\<lambda>(res, e', w'). list_inv e' \<and>
    (LErr res, list_abs now e') = list_spec compile now (LReplace k i b) (list_abs now e))"
proof -
  obtain e1 w1 where ev: "evict lg ''list'' list_expiresAt now k (e, w) = Some (e1, w1)"
    and evd: "evicted list_expiresAt now e e1" and lv1: "live_at list_expiresAt now k e1"
    using evict_ok [OF assms] .
  note e1 = evicted_inv [OF evd] evicted_abs [OF evd] lv1
  note c = live_contents(1) [OF e1(3), unfolded e1(2)]
  show ?thesis
  proof (cases "data e1 k")
    case None
    then have "resolve (contents (list_abs now e) k) i = None" using c by (simp add: resolve_def Let_def)
    then show ?thesis using None ev e1 by (simp add: ReplaceAtIndex_def)
  next
    case (Some v)
    then have ct: "contents (list_abs now e) k = elems v" using c by simp
    show ?thesis
    proof (cases "resolve (elems v) i")
      case None
      then show ?thesis using Some ev e1 ct by (auto simp: ReplaceAtIndex_def resolve_def Let_def split: if_splits)
    next
      case (Some n)
      let ?j = "if i < 0 then int (length (elems v)) + i else i"
      have j: "0 \<le> ?j" "?j < int (length (elems v))" "n = nat ?j"
        using Some by (simp_all add: resolve_def Let_def split: if_splits)
      obtain w2 where lg: "lg ''list'' ''REPLACE'' [PathEscape k, FormatInt i, EncodeToString b] w1 = (None, w2)"
        by (rule logged)
      have "ends (list_replaceNoLockAndNoWal k ?j b e1) (\<lambda>e'. list_inv e' \<and>
          list_abs now e' = spec_store k ((elems v)[n := b]) (list_abs now e))"
        using replace_ends [OF e1(1,3) \<open>data e1 k = Some v\<close> j(1,2), of b] e1(2) j(3) by simp
      then show ?thesis
        unfolding ReplaceAtIndex_def ev
        using \<open>data e1 k = Some v\<close> j lg Some ct by (auto simp: Let_def elim!: ends_mono)
    qed
  qed
qed

lemma list_insert_refines:
  assumes "list_inv e"
  shows "ends (list_Insert lg now k p b before (e, w)) (\<lambda>(res, e', w'). list_inv e' \<and>
    (LInt res, list_abs now e') = list_spec compile now (LInsert k p b before) (list_abs now e))"
proof -
  obtain e1 w1 where ev: "evict lg ''list'' list_expiresAt now k (e, w) = Some (e1, w1)"
    and evd: "evicted list_expiresAt now e e1" and lv1: "live_at list_expiresAt now k e1"
    using evict_ok [OF assms] .
  note e1 = evicted_inv [OF evd] evicted_abs [OF evd] lv1
  note c = live_contents(1) [OF e1(3), unfolded e1(2)] and ab = live_abs [OF e1(3), unfolded e1(2)]
  show ?thesis
  proof (cases "data e1 k")
    case None
    then show ?thesis using ev e1 ab by (simp add: list_Insert_def)
  next
    case (Some v)
    obtain w2 where lg: "lg ''list'' ''INSERT'' [PathEscape k, EncodeToString p, EncodeToString b, bool_arg before] w1
      = (None, w2)" by (rule logged)
    then show ?thesis
      using Some ev e1(2)
      by (auto simp: list_Insert_def simp del: list_spec.simps
          intro!: ends_mono [OF insert_ends [OF e1(1,3) Some, where compile = compile]])
  qed
qed

lemma list_remove_refines:
  assumes "list_inv e"
  shows "ends (list_Remove lg now k n b (e, w)) (\<lambda>(res, e', w'). list_inv e' \<and>
    (LInt res, list_abs now e') = list_spec compile now (LRemove k n b) (list_abs now e))"
proof -
  obtain e1 w1 where ev: "evict lg ''list'' list_expiresAt now k (e, w) = Some (e1, w1)"
    and evd: "evicted list_expiresAt now e e1" and lv1: "live_at list_expiresAt now k e1"
    using evict_ok [OF assms] .
  note e1 = evicted_inv [OF evd] evicted_abs [OF evd] lv1
  note c = live_contents(1) [OF e1(3), unfolded e1(2)] and ab = live_abs [OF e1(3), unfolded e1(2)]
  show ?thesis
  proof (cases "data e1 k")
    case None
    then have "contents (list_abs now e) k = []" "list_abs now e k = None" using c ab by simp_all
    then show ?thesis using None ev e1
      by (simp add: list_Remove_def spec_remove_def spec_store_absent)
  next
    case (Some v)
    obtain w2 where lg: "lg ''list'' ''REMOVE'' [PathEscape k, FormatInt n, EncodeToString b] w1 = (None, w2)"
      by (rule logged)
    then show ?thesis
      using Some ev e1(2)
      by (auto simp: list_Remove_def simp del: list_spec.simps
          intro!: ends_mono [OF remove_ends [OF e1(1,3) Some, where compile = compile]])
  qed
qed

lemma list_delete_refines:
  assumes "list_inv e"
  shows "ends (list_Delete lg k (e, w)) (\<lambda>(r, e', w'). r = None \<and> list_inv e' \<and>
    list_abs now e' = (list_abs now e)(k := None))"
proof -
  obtain w' where "lg ''list'' ''DELETE'' [PathEscape k] w = (None, w')" by (rule logged)
  then show ?thesis
    by (auto simp: list_Delete_def engine_Delete_def list_abs_delete intro!: ends_mono [OF deleteNoLock_ends [OF assms]])
qed

lemma list_deleteBy_refines:
  assumes "list_inv e" "map_iter ks (data e)"
  shows "ends (delete_loop lg ''list'' list_expiresAt now p ks 0 (e, w)) (\<lambda>((n, err), e', w'). err = None \<and>
    list_inv e' \<and> list_abs now e' = list_abs now e |` {k. \<not> p k} \<and> n = int (card {k \<in> dom (list_abs now e). p k}))"
  unfolding list_abs_def by (rule ends_mono [OF delete_loop_visible [OF assms no_error]]) auto

end

lemma list_abs_fst: "visible list_expiresAt elems now e k = map_option fst (list_abs now e k)"
  by (cases "alive list_expiresAt now (data e) k") (simp_all add: list_abs_def visible_def)

lemma list_count_ends:
  assumes "list_inv e" "map_iter ks (data e)"
  shows "ends (list_count lg now ks p (e, w)) (\<lambda>(r, e', w'). list_inv e' \<and> list_abs now e' = list_abs now e \<and>
    r = int (card {k \<in> dom (list_abs now e). p k}))"
  unfolding list_count_def
  by (rule ends_mono [OF sweep_count_ends [OF assms, where f = "\<lambda>v. (elems v, list_expiresAt v)"]])
    (auto simp: evicted_inv evicted_abs list_abs_def [symmetric])

lemma list_find_ends:
  assumes "list_inv e" "map_iter ks (data e)"
  shows "ends (list_find lg now ks p (e, w)) (\<lambda>(r, e', w'). list_inv e' \<and> list_abs now e' = list_abs now e \<and>
    r = (\<lambda>k. if p k then map_option fst (list_abs now e k) else None))"
  unfolding list_find_def
  by (rule ends_mono [OF sweep_find_ends [OF assms]]) (auto simp: evicted_inv evicted_abs list_abs_fst cong: if_cong)

lemma list_cleanup_ends:
  assumes "list_inv e"
  shows "ends (list_CleanupExpired lg now (e, w)) (\<lambda>(e', w'). list_inv e' \<and>
    data e' = map_keep (\<lambda>k v. \<forall>t. list_expiresAt v = Some t \<longrightarrow> now < t) (data e))"
  unfolding list_CleanupExpired_def by (rule logged_cleanup_ends [OF assms])

lemma list_cleanup_refines:
  assumes "list_inv e"
  shows "ends (list_CleanupExpired lg now (e, w)) (\<lambda>(e', w'). list_inv e' \<and>
    list_abs now e' = map_keep (\<lambda>k a. \<forall>t. snd a = Some t \<longrightarrow> now < t) (list_abs now e))"
  by (rule ends_mono [OF list_cleanup_ends [OF assms]])
    (auto simp: list_abs_def intro!: visible_cleanup)

lemma index_elems:
  "(let j = if i < 0 then int (length xs) + i else i in
    if j < 0 \<or> int (length xs) \<le> j then err
    else (case index_loop j 0 xs of None \<Rightarrow> err | Some b \<Rightarrow> Inr b)) =
   (case resolve xs i of None \<Rightarrow> err | Some n \<Rightarrow> Inr (xs ! n))"
  by (auto simp: resolve_def index_loop_eq Let_def)

lemma resolve_Nil: "resolve [] i = None"
  by (simp add: resolve_def Let_def)

lemma slice_Nil: "slice i j [] = []"
  by (simp add: slice_def Let_def)

lemma contents_fst: "map_option fst (list_abs now e k) = None \<Longrightarrow> contents (list_abs now e) k = []"
  "map_option fst (list_abs now e k) = Some xs \<Longrightarrow> contents (list_abs now e) k = xs"
  by (auto simp: contents_def)

lemma read_bind:
  assumes "list_inv e"
    "\<And>r e' w'. list_inv e' \<Longrightarrow> list_abs now e' = list_abs now e \<Longrightarrow>
       contents (list_abs now e) k = (case r of None \<Rightarrow> [] | Some xs \<Rightarrow> xs) \<Longrightarrow> Q (f r, e', w')"
  shows "ends (do { (r, s') \<leftarrow> list_read lg now k (e, w); Some (f r, s') }) Q"
  unfolding ends_simps(3)
  by (rule ends_mono_pair [OF read_ends [OF assms(1)]]) (auto intro!: assms(2) simp: contents_def split: option.splits)

lemma list_read_ops:
  assumes "list_inv e"
  shows
    "ends (list_Len lg now k (e, w)) (\<lambda>(r, e', w'). list_inv e' \<and> list_abs now e' = list_abs now e \<and>
       r = int (length (contents (list_abs now e) k)))"
    "ends (list_Range lg now k i j (e, w)) (\<lambda>(r, e', w'). list_inv e' \<and> list_abs now e' = list_abs now e \<and>
       r = slice i j (contents (list_abs now e) k))"
    "ends (list_Index lg now k i (e, w)) (\<lambda>(r, e', w'). list_inv e' \<and> list_abs now e' = list_abs now e \<and>
       r = (case resolve (contents (list_abs now e) k) i of None \<Rightarrow> Inl (not_found k ''INDEX'')
            | Some n \<Rightarrow> Inr (contents (list_abs now e) k ! n)))"
    "ends (list_Pos lg now k v (e, w)) (\<lambda>(r, e', w'). list_inv e' \<and> list_abs now e' = list_abs now e \<and>
       r = (if v \<in> set (contents (list_abs now e) k)
            then int (length (takeWhile (\<lambda>b. b \<noteq> v) (contents (list_abs now e) k))) else -1))"
  unfolding list_Len_def list_Range_def list_Index_def list_Pos_def index_elems slice_eq pos_loop_eq
  by (rule read_bind [OF assms]; auto simp: resolve_Nil slice_Nil split: option.splits)+

lemma list_abs_empty: "data e = Map.empty \<Longrightarrow> list_abs now e = Map.empty"
  by (simp add: list_abs_def visible_empty)

lemma slice_all: "slice 0 (-1) xs = xs"
  by (simp add: slice_def Let_def)

context reliable_logger
begin

lemma list_apply_refines:
  assumes "list_inv e" "map_iter ks (data e)"
  shows "ends (list_apply compile lg now ks op (e, w)) (\<lambda>(r, e', w').
    list_inv e' \<and> (r, list_abs now e') = list_spec compile now op (list_abs now e))"
proof (cases op)
  case (LCount p)
  then show ?thesis
    by (cases p) (auto simp: list_CountByPrefix_def list_CountBySuffix_def list_CountByRegex_def assms(1) split: sum.splits
        intro!: ends_mono [OF list_count_ends [OF assms]])
next
  case (LFind p)
  then show ?thesis
    by (cases p) (auto simp: list_FindByPrefix_def list_FindBySuffix_def list_FindByRegex_def assms(1) split: sum.splits
        intro!: ends_mono [OF list_find_ends [OF assms]])
next
  case (LDeleteBy p)
  then show ?thesis
    by (cases p) (auto simp: list_DeleteByPrefix_def list_DeleteBySuffix_def list_DeleteByRegex_def
        list_deleteByPrefixNoLock_def list_deleteBySuffixNoLock_def list_deleteByRegexNoLock_def assms(1) split: sum.splits
        intro!: ends_mono [OF list_deleteBy_refines [OF assms]])
next
  case (LPush left k vs x)
  then show ?thesis
    by (auto simp: LeftPush_def RightPush_def intro!: ends_mono [OF list_push_refines [OF assms(1), where now = now]])
next
  case (LPop left k)
  then show ?thesis
    by (auto simp: LeftPop_def RightPop_def simp del: list_spec.simps
        intro!: ends_mono [OF list_pop_refines [OF assms(1), where compile = compile]])
next
  case (LMove k k' l r)
  then show ?thesis
    by (auto simp del: list_spec.simps intro!: ends_mono [OF list_move_refines [OF assms(1), where compile = compile]])
next
  case (LReplace k i v)
  then show ?thesis
    by (auto simp del: list_spec.simps intro!: ends_mono [OF list_replace_refines [OF assms(1), where compile = compile]])
next
  case (LInsert k p v b)
  then show ?thesis
    by (auto simp del: list_spec.simps intro!: ends_mono [OF list_insert_refines [OF assms(1), where compile = compile]])
next
  case (LRemove k n v)
  then show ?thesis
    by (auto simp del: list_spec.simps intro!: ends_mono [OF list_remove_refines [OF assms(1), where compile = compile]])
next
  case (LDelete k)
  then show ?thesis by (auto intro!: ends_mono [OF list_delete_refines [OF assms(1), where now = now]])
next
  case LCleanupExpired
  then show ?thesis by (auto intro!: ends_mono [OF list_cleanup_refines [OF assms(1)]])
next
  case (LGet k)
  then show ?thesis by (auto simp: list_Get_def slice_all intro!: ends_mono [OF list_read_ops(2) [OF assms(1)]])
qed (auto simp: list_Clear_def list_Reset_def clearNoLock_def [symmetric] list_abs_empty
    intro!: ends_mono [OF list_read_ops(1) [OF assms(1)]] ends_mono [OF list_read_ops(2) [OF assms(1)]]
      ends_mono [OF list_read_ops(3) [OF assms(1)]] ends_mono [OF list_read_ops(4) [OF assms(1)]])

end

end
