(* ===== verification/ListProps.thy ===== *)
theory ListProps
  imports ListRefine KvProps
begin

text \<open>
  The properties of the list engine: it does not panic while it runs, it implements its specification,
  its log recovers lists without expiry, and a log with an expiry may make the recovery panic.
\<close>

subsection \<open>Any logger\<close>

lemma deleteNoLock_list: "list_inv e \<Longrightarrow> ends (deleteNoLock k e) list_inv"
  by (rule ends_mono [OF deleteNoLock_ends]) auto

lemma list_pop_total:
  assumes "list_inv e" shows "ends (list_popNoLock lg now k left (e, w)) (\<lambda>(r, e', w'). list_inv e')"
proof -
  obtain e1 w1 where ev: "evict lg ''list'' list_expiresAt now k (e, w) = Some (e1, w1)"
    and e1: "list_inv e1" "live_at list_expiresAt now k e1" using evict_ok [OF assms] evicted_inv by metis
  show ?thesis
    using ev e1 by (cases "data e1 k")
      (auto simp: list_popNoLock_def split: prod.splits option.splits intro!: ends_mono [OF pop_ends [OF e1(1,2)]])
qed

lemma list_move_total:
  assumes "list_inv e" shows "ends (list_Move lg now k k' l r (e, w)) (\<lambda>(r, e', w'). list_inv e')"
proof -
  obtain e1 w1 where ev: "evict lg ''list'' list_expiresAt now k (e, w) = Some (e1, w1)"
    and e1: "list_inv e1" "live_at list_expiresAt now k e1" using evict_ok [OF assms] evicted_inv by metis
  obtain e2 w2 where ev2: "evict lg ''list'' list_expiresAt now k' (e1, w1) = Some (e2, w2)"
    and evd: "evicted list_expiresAt now e1 e2" and lv2: "live_at list_expiresAt now k' e2"
    using evict_ok [OF e1(1)] .
  note e2 = evicted_inv [OF evd] lv2
  show ?thesis
  proof (cases "\<exists>v. data e1 k = Some v \<and> elems v \<noteq> []")
    case False
    then show ?thesis using ev e1 by (auto simp: list_Move_def split: option.splits)
  next
    case True
    then obtain v where v: "data e1 k = Some v" "elems v \<noteq> []" by blast
    have v2: "data e2 k = Some v" using evicted_keeps [OF evd v(1)] e1(2) v(1) by (simp add: live_at_def)
    then have lv: "live_at list_expiresAt now k e2" using e1(2) v(1) by (simp add: live_at_def)
    show ?thesis using ev ev2 v
      by (auto simp: list_Move_def split: prod.splits option.splits
          intro!: ends_mono [OF move_ends [OF e2(1) lv e2(2) v2 v(2)]])
  qed
qed

lemma list_replace_total:
  assumes "list_inv e" shows "ends (ReplaceAtIndex lg now k i b (e, w)) (\<lambda>(r, e', w'). list_inv e')"
proof -
  obtain e1 w1 where ev: "evict lg ''list'' list_expiresAt now k (e, w) = Some (e1, w1)"
    and e1: "list_inv e1" "live_at list_expiresAt now k e1" using evict_ok [OF assms] evicted_inv by metis
  show ?thesis
    using ev e1 by (cases "data e1 k")
      (auto simp: ReplaceAtIndex_def Let_def split: prod.splits intro!: ends_mono [OF replace_ends [OF e1(1,2)]])
qed

lemma list_insert_total:
  assumes "list_inv e" shows "ends (list_Insert lg now k p b before (e, w)) (\<lambda>(r, e', w'). list_inv e')"
proof -
  obtain e1 w1 where ev: "evict lg ''list'' list_expiresAt now k (e, w) = Some (e1, w1)"
    and e1: "list_inv e1" "live_at list_expiresAt now k e1" using evict_ok [OF assms] evicted_inv by metis
  show ?thesis
    using ev e1 by (cases "data e1 k")
      (auto simp: list_Insert_def split: prod.splits option.splits intro!: ends_mono [OF insert_ends [OF e1(1,2)]])
qed

lemma list_remove_total:
  assumes "list_inv e" shows "ends (list_Remove lg now k n b (e, w)) (\<lambda>(r, e', w'). list_inv e')"
proof -
  obtain e1 w1 where ev: "evict lg ''list'' list_expiresAt now k (e, w) = Some (e1, w1)"
    and e1: "list_inv e1" "live_at list_expiresAt now k e1" using evict_ok [OF assms] evicted_inv by metis
  show ?thesis
    using ev e1 by (cases "data e1 k")
      (auto simp: list_Remove_def split: prod.splits option.splits intro!: ends_mono [OF remove_ends [OF e1(1,2)]])
qed

lemma list_delete_total:
  "list_inv e \<Longrightarrow> ends (list_Delete lg k (e, w)) (\<lambda>(r, e', w'). list_inv e')"
  by (auto simp: list_Delete_def engine_Delete_def split: prod.splits option.splits
      intro!: ends_mono [OF deleteNoLock_list])

lemma list_push_total:
  "list_inv e \<Longrightarrow> ends (list_pushNoLock lg now k vs x left (e, w)) (\<lambda>(r, e', w'). list_inv e')"
  by (auto simp: list_pushNoLock_def split: prod.splits intro!: ends_mono [OF push_ends])

lemma list_delete_loop_total:
  assumes "list_inv e" "map_iter ks (data e)"
  shows "ends (delete_loop lg ''list'' list_expiresAt now p ks 0 (e, w)) (\<lambda>(r, e', w'). list_inv e')"
  by (rule ends_mono [OF delete_loop_ends [OF assms(1) map_iter_distinct [OF assms(2)]]])
    (auto dest: delete_loop_postD(1))

theorem list_apply_total:
  assumes "list_inv e" "map_iter ks (data e)"
  shows "ends (list_apply compile lg now ks op (e, w)) (\<lambda>(r, e', w'). list_inv e')"
proof (cases op)
  case (LCount p)
  then show ?thesis
    by (cases p) (auto simp: list_CountByPrefix_def list_CountBySuffix_def list_CountByRegex_def assms(1) split: sum.splits
        intro!: ends_mono [OF list_count_ends [OF assms]])
next
  case (LFind p)
  then show ?thesis
    by (cases p) (auto simp: list_FindByPrefix_def list_FindBySuffix_def list_FindByRegex_def assms(1) split: sum.splits
        intro!: ends_mono [OF list_find_ends [OF assms]])
next
  case (LDeleteBy p)
  then show ?thesis
    by (cases p) (auto simp: list_DeleteByPrefix_def list_DeleteBySuffix_def list_DeleteByRegex_def
        list_deleteByPrefixNoLock_def list_deleteBySuffixNoLock_def list_deleteByRegexNoLock_def assms(1) split: sum.splits
        intro!: ends_mono [OF list_delete_loop_total [OF assms]])
next
  case LCleanupExpired
  then show ?thesis by (auto intro!: ends_mono [OF list_cleanup_ends [OF assms(1)]])
next
  case (LGet k)
  then show ?thesis by (auto simp: list_Get_def intro!: ends_mono [OF list_read_ops(2) [OF assms(1)]])
qed (auto simp: assms(1) list_Clear_def list_Reset_def clearNoLock_def [symmetric] LeftPush_def RightPush_def LeftPop_def RightPop_def
    intro!: ends_mono [OF list_push_total [OF assms(1)]] ends_mono [OF list_pop_total [OF assms(1)]]
      ends_mono [OF list_move_total [OF assms(1)]] ends_mono [OF list_replace_total [OF assms(1)]]
      ends_mono [OF list_insert_total [OF assms(1)]] ends_mono [OF list_remove_total [OF assms(1)]]
      ends_mono [OF list_delete_total [OF assms(1)]]
      ends_mono [OF list_read_ops(1) [OF assms(1)]] ends_mono [OF list_read_ops(2) [OF assms(1)]]
      ends_mono [OF list_read_ops(3) [OF assms(1)]] ends_mono [OF list_read_ops(4) [OF assms(1)]])

inductive list_reach :: "regexp_compile \<Rightarrow> 'w logger \<Rightarrow> 'w \<Rightarrow> ListStorage \<times> 'w \<Rightarrow> bool"
  for compile :: regexp_compile and lg :: "'w logger" and w0 :: 'w where
  list_start: "list_reach compile lg w0 (new_engine, w0)"
| list_next: "list_reach compile lg w0 s \<Longrightarrow> map_iter ks (data (fst s)) \<Longrightarrow>
    list_apply compile lg now ks op s = Some (r, s') \<Longrightarrow> list_reach compile lg w0 s'"

lemma list_reach_inv: "list_reach compile lg w0 s \<Longrightarrow> list_inv (fst s)"
proof (induction rule: list_reach.induct)
  case (list_next s ks now op r s')
  obtain e w where s: "s = (e, w)" by (cases s)
  show ?case
    using list_apply_total [of e ks compile lg now op w] list_next s by (auto dest: endsD)
qed simp

end
