(* ===== verification/ListRecovery.thy ===== *)
theory ListRecovery
  imports ListProps
begin

text \<open>
  Recovery of the list engine from its log.  Lists without expiry (\<open>plain\<close>) come back exactly, as long
  as \<open>ReplaceAtIndex\<close> is called with an index that is not negative; with an expiry, or with a negative
  index, they may not (\<open>ListProps\<close> and the properties at the end).
\<close>

definition plain :: "ListStorage \<Rightarrow> bool" where
  "plain e \<longleftrightarrow> (\<forall>k v. data e k = Some v \<longrightarrow> list_expiresAt v = None \<and> elems v \<noteq> [])"

definition lists :: "ListStorage \<Rightarrow> (string \<rightharpoonup> bytes list)" where
  "lists e = (\<lambda>k. map_option elems (data e k))"

definition listing :: "(string \<rightharpoonup> bytes list) \<Rightarrow> ListStorage \<Rightarrow> bool" where
  "listing L e \<longleftrightarrow> list_inv e \<and> plain e \<and> lists e = L"

definition list_at :: "(string \<rightharpoonup> bytes list) \<Rightarrow> string \<Rightarrow> bytes list" where
  "list_at L k = (case L k of None \<Rightarrow> [] | Some xs \<Rightarrow> xs)"

definition store_list :: "string \<Rightarrow> bytes list \<Rightarrow> (string \<rightharpoonup> bytes list) \<Rightarrow> (string \<rightharpoonup> bytes list)" where
  "store_list k xs L = L(k := if xs = [] then None else Some xs)"

lemma listing_new: "listing Map.empty new_engine"
  by (simp add: listing_def plain_def lists_def)

lemma listing_None: "listing L e \<Longrightarrow> L k = None \<Longrightarrow> data e k = None"
  by (auto simp: listing_def lists_def)

lemma listing_Some:
  "listing L e \<Longrightarrow> L k = Some xs \<Longrightarrow> xs \<noteq> [] \<and> (\<exists>v. data e k = Some v \<and> elems v = xs \<and> list_expiresAt v = None)"
  by (auto simp: listing_def lists_def plain_def)

lemma listing_store:
  assumes "listing L e" "xs \<noteq> []" "list_expiresAt val = None"
  shows "listing (store_list k xs L) (e\<lparr>data := (data e)(k \<mapsto> val\<lparr>elems := xs\<rparr>)\<rparr>)"
proof -
  have "Option.bind (data e k) list_expiresAt = list_expiresAt (val\<lparr>elems := xs\<rparr>)"
    using assms(1,3) by (cases "data e k") (auto simp: listing_def plain_def)
  then have "list_inv (e\<lparr>data := (data e)(k \<mapsto> val\<lparr>elems := xs\<rparr>)\<rparr>)"
    using assms(1) by (intro update_ok) (simp_all add: listing_def)
  then show ?thesis using assms by (auto simp: listing_def plain_def lists_def store_list_def)
qed

lemma listing_erase:
  assumes "listing L e" shows "ends (deleteNoLock k e) (listing (store_list k [] L))"
proof -
  have "list_inv e" using assms by (simp add: listing_def)
  then show ?thesis
    using assms
    by (auto simp: listing_def plain_def lists_def store_list_def fun_eq_iff
        intro!: ends_mono [OF deleteNoLock_ends [of list_expiresAt]])
qed

lemma listing_store_or_erase:
  assumes "listing L e" "list_expiresAt val = None"
  shows "ends (if xs = [] then deleteNoLock k e else Some (e\<lparr>data := (data e)(k \<mapsto> val\<lparr>elems := xs\<rparr>)\<rparr>))
    (listing (store_list k xs L))"
  using listing_erase [OF assms(1)] listing_store [OF assms(1) _ assms(2)] by simp

subsection \<open>The primitive steps on lists without expiry\<close>

text \<open>What a logged operation does to the lists.\<close>

fun list_effect :: "list_op \<Rightarrow> (string \<rightharpoonup> bytes list) \<Rightarrow> (string \<rightharpoonup> bytes list)" where
  "list_effect (LPush left k vs x) L = store_list k (if left then rev vs @ list_at L k else list_at L k @ vs) L"
| "list_effect (LPop left k) L = store_list k (snd (spec_take left (list_at L k))) L"
| "list_effect (LMove k k' l r) L =
     (let b = fst (spec_take l (list_at L k)); L' = store_list k (snd (spec_take l (list_at L k))) L
      in store_list k' (if r then b # list_at L' k' else list_at L' k' @ [b]) L')"
| "list_effect (LReplace k i v) L = store_list k (replace_loop i v 0 (list_at L k)) L"
| "list_effect (LInsert k p v before) L =
     store_list k (case insert_loop p v before (list_at L k) of None \<Rightarrow> list_at L k | Some xs \<Rightarrow> xs) L"
| "list_effect (LRemove k n v) L = store_list k (snd (remove_elems n v (list_at L k))) L"
| "list_effect (LDelete k) L = store_list k [] L"
| "list_effect _ L = L"

lemma plain_push:
  assumes "listing L e" "vs \<noteq> []"
  shows "ends (list_pushNoLockAndNoWal now k vs None left e) (listing (list_effect (LPush left k vs x) L))"
proof (cases "L k")
  case None
  then have d: "data e k = None" "list_at L k = []" using listing_None [OF assms(1)] by (simp_all add: list_at_def)
  have "push_all left vs [] \<noteq> []" using assms(2) by (simp add: push_all_eq)
  from listing_store [OF assms(1) this, of "NewValue [] now None" k] show ?thesis
    using d by (cases left) (simp_all add: list_pushNoLockAndNoWal_def list_drop_expired_def Let_def NewValue_def push_all_eq)
next
  case (Some xs)
  then obtain v where v: "data e k = Some v" "elems v = xs" "list_expiresAt v = None" "xs \<noteq> []"
    using listing_Some [OF assms(1) Some] by blast
  have "push_all left vs xs \<noteq> []" using assms(2) by (simp add: push_all_eq)
  from listing_store [OF assms(1) this v(3), of k] show ?thesis
    using v Some
    by (cases left)
      (simp_all add: list_pushNoLockAndNoWal_def list_drop_expired_def Let_def push_all_eq list_at_def expired_def)
qed

lemma plain_pop:
  assumes "listing L e" "L k = Some xs"
  shows "ends (list_popNoLockAndNoWal k left e) (\<lambda>(b, e'). b = fst (spec_take left xs) \<and> listing (list_effect (LPop left k) L) e')"
proof -
  obtain v where v: "data e k = Some v" "elems v = xs" "list_expiresAt v = None" "xs \<noteq> []"
    using listing_Some [OF assms] by blast
  then obtain b bs where xs: "xs = b # bs" by (cases xs) auto
  have "list_at L k = xs" using assms(2) by (simp add: list_at_def)
  then show ?thesis
    using v xs listing_store_or_erase [OF assms(1) v(3), of "snd (spec_take left xs)" k]
    by (auto simp: list_popNoLockAndNoWal_def spec_take_def Let_def split: if_splits)
qed

lemma plain_move:
  assumes "listing L e" "L k = Some xs"
  shows "ends (list_moveNoLockAndNoWal now k k' l r e) (\<lambda>(b, e'). listing (list_effect (LMove k k' l r) L) e')"
proof -
  let ?L1 = "list_effect (LPop l k) L" and ?b = "fst (spec_take l xs)"
  have at: "list_at L k = xs" using assms(2) by (simp add: list_at_def)
  have "ends (Some (?b, e1\<lparr>data := (data e1)(k' \<mapsto> val\<lparr>elems := if r then ?b # elems val else elems val @ [?b]\<rparr>)\<rparr>))
      (\<lambda>(b, e'). listing (list_effect (LMove k k' l r) L) e')"
    if e1: "listing ?L1 e1" and val: "val = (case data e1 k' of None \<Rightarrow> NewValue [] now None | Some v \<Rightarrow> v)" for e1 val
  proof -
    have "elems val = list_at ?L1 k' \<and> list_expiresAt val = None"
    proof (cases "?L1 k'")
      case None
      then show ?thesis using val listing_None [OF e1 None] by (simp add: list_at_def NewValue_def)
    next
      case (Some ys)
      then show ?thesis using val listing_Some [OF e1 Some] by (auto simp: list_at_def)
    qed
    then show ?thesis
      using listing_store [OF e1, of "if r then ?b # elems val else elems val @ [?b]" val k'] at
      by (cases r) (simp_all add: Let_def)
  qed
  then show ?thesis
    unfolding list_moveNoLockAndNoWal_def Let_def ends_simps(3)
    by (intro ends_mono [OF plain_pop [OF assms]]) auto
qed

lemma plain_replace:
  assumes "listing L e" "L k = Some xs"
  shows "ends (list_replaceNoLockAndNoWal k i b e) (listing (list_effect (LReplace k i b) L))"
proof -
  obtain v where v: "data e k = Some v" "elems v = xs" "list_expiresAt v = None" "xs \<noteq> []"
    using listing_Some [OF assms] by blast
  have "replace_loop i b 0 xs \<noteq> []" using v(4) by (cases xs) auto
  from listing_store [OF assms(1) this v(3)] show ?thesis
    using v assms(2) by (simp add: list_replaceNoLockAndNoWal_def list_at_def)
qed

lemma plain_insert:
  assumes "listing L e" "L k = Some xs"
  shows "ends (list_insertNoLockAndNoWal k p b before e) (\<lambda>(n, e'). listing (list_effect (LInsert k p b before) L) e' \<and>
    (n < 0 \<longrightarrow> e' = e))"
proof -
  obtain v where v: "data e k = Some v" "elems v = xs" "list_expiresAt v = None" "xs \<noteq> []"
    using listing_Some [OF assms] by blast
  show ?thesis
  proof (cases "insert_loop p b before xs")
    case None
    have "store_list k xs L = L" using assms(2) v(4) by (auto simp: store_list_def)
    then show ?thesis using v assms None by (simp add: list_insertNoLockAndNoWal_def list_at_def)
  next
    case (Some ys)
    have "ys \<noteq> []" using Some v(4) by (cases xs) (auto split: if_splits)
    from listing_store [OF assms(1) this v(3)] show ?thesis
      using v assms(2) Some by (simp add: list_insertNoLockAndNoWal_def list_at_def)
  qed
qed

lemma plain_remove:
  assumes "listing L e" "L k = Some xs"
  shows "ends (list_removeNoLockAndNoWal k n b e) (\<lambda>(m, e'). m = fst (remove_elems n b xs) \<and>
    listing (list_effect (LRemove k n b) L) e')"
proof -
  obtain v where v: "data e k = Some v" "elems v = xs" "list_expiresAt v = None" "xs \<noteq> []"
    using listing_Some [OF assms] by blast
  show ?thesis
    using v assms(2) listing_store_or_erase [OF assms(1) v(3), of "snd (remove_elems n b xs)" k]
    by (auto simp: list_removeNoLockAndNoWal_def list_at_def split: prod.splits)
qed

lemma drop_first_absent: "x \<notin> set xs \<Longrightarrow> drop_first n x xs = xs"
  by (induction n x xs rule: drop_first.induct) auto

lemma remove_nothing:
  assumes "\<not> 0 < fst (remove_elems n b xs)" shows "snd (remove_elems n b xs) = xs"
proof -
  have "count_list xs b = 0 \<or> n < 0 \<and> wrap64 (- n) \<le> 0"
    using assms by (auto simp: remove_elems_eq spec_remove_def min_def max_def split: if_splits)
  then show ?thesis
    by (auto simp: remove_elems_eq spec_remove_def count_list_0_iff drop_first_absent intro: filter_True)
qed

subsection \<open>The live operations log what they do\<close>

fun list_entry :: "list_op \<Rightarrow> wal_entry" where
  "list_entry (LPush left k vs x) =
     (''list'', if left then ''LPUSH'' else ''RPUSH'', PathEscape k # expires_str x # map EncodeToString vs)"
| "list_entry (LPop left k) = (''list'', if left then ''LPOP'' else ''RPOP'', [PathEscape k])"
| "list_entry (LMove k k' l r) = (''list'', ''MOVE'', [PathEscape k, PathEscape k', bool_arg l, bool_arg r])"
| "list_entry (LReplace k i v) = (''list'', ''REPLACE'', [PathEscape k, FormatInt i, EncodeToString v])"
| "list_entry (LInsert k p v b) = (''list'', ''INSERT'', [PathEscape k, EncodeToString p, EncodeToString v, bool_arg b])"
| "list_entry (LRemove k n v) = (''list'', ''REMOVE'', [PathEscape k, FormatInt n, EncodeToString v])"
| "list_entry (LDelete k) = (''list'', ''DELETE'', [PathEscape k])"
| "list_entry op = ([], [], [])"

text \<open>The operations whose log is exact: no expiry, something to push, 64-bit numbers, no negative index.\<close>

fun exact_op :: "list_op \<Rightarrow> bool" where
  "exact_op (LPush left k vs x) = (x = None \<and> vs \<noteq> [])"
| "exact_op (LReplace k i v) = (0 \<le> i \<and> int64_range i)"
| "exact_op (LRemove k n v) = int64_range n"
| "exact_op (LPop left k) = True"
| "exact_op (LMove k k' l r) = True"
| "exact_op (LInsert k p v b) = True"
| "exact_op (LDelete k) = True"
| "exact_op (LLen k) = True"
| "exact_op (LRange k i j) = True"
| "exact_op (LGet k) = True"
| "exact_op (LIndex k i) = True"
| "exact_op (LPos k v) = True"
| "exact_op _ = False"

lemma plain_evict: "listing L e \<Longrightarrow> evict lg eid list_expiresAt now k (e, w) = Some (e, w)"
  by (rule evict_live) (auto simp: listing_def plain_def expired_def live_at_def)

lemma plain_read: "listing L e \<Longrightarrow> list_read lg now k (e, w) = Some (L k, e, w)"
  by (cases "data e k") (auto simp: list_read_def listing_def plain_def expired_def lists_def)

text \<open>The operations that need the list to exist.\<close>

fun needs_list :: "list_op \<Rightarrow> string option" where
  "needs_list (LPop left k) = Some k"
| "needs_list (LMove k k' l r) = Some k"
| "needs_list (LReplace k i v) = Some k"
| "needs_list (LInsert k p v b) = Some k"
| "needs_list (LRemove k n v) = Some k"
| "needs_list _ = None"

text \<open>Either nothing happened and nothing was logged, or the effect happened and its entry was logged.\<close>

definition logged_effect :: "'w logger \<Rightarrow> list_op \<Rightarrow> (string \<rightharpoonup> bytes list) \<Rightarrow> 'w \<Rightarrow> ListStorage \<Rightarrow> 'w \<Rightarrow> bool" where
  "logged_effect lg op L w e' w' \<longleftrightarrow>
     listing L e' \<and> w' = w \<or>
     (case list_entry op of (eid, act, args) \<Rightarrow>
        listing (list_effect op L) e' \<and> lg eid act args w = (None, w') \<and>
        (\<forall>k. needs_list op = Some k \<longrightarrow> L k \<noteq> None))"

context reliable_logger
begin

lemma push_op_logs:
  assumes "listing L e" "exact_op (LPush left k vs x)"
  shows "ends (list_apply compile lg now ks (LPush left k vs x) (e, w)) (\<lambda>(res, e', w'). logged_effect lg (LPush left k vs x) L w e' w')"
proof -
  obtain w' where "lg ''list'' (if left then ''LPUSH'' else ''RPUSH'') (PathEscape k # expires_str x # map EncodeToString vs) w
    = (None, w')" by (rule logged)
  then show ?thesis
    using assms
    by (auto simp: LeftPush_def RightPush_def list_pushNoLock_def logged_effect_def simp del: list_effect.simps
        intro!: ends_mono [OF plain_push [OF assms(1)]])
qed

lemma pop_op_logs:
  assumes "listing L e" "exact_op (LPop left k)"
  shows "ends (list_apply compile lg now ks (LPop left k) (e, w)) (\<lambda>(res, e', w'). logged_effect lg (LPop left k) L w e' w')"
proof -
  obtain w' where lg: "lg ''list'' (if left then ''LPOP'' else ''RPOP'') [PathEscape k] w = (None, w')" by (rule logged)
  have "ends (list_popNoLock lg now k left (e, w)) (\<lambda>(res, e', w'). logged_effect lg (LPop left k) L w e' w')"
  proof (cases "L k")
    case None
    then show ?thesis using assms(1) listing_None [OF assms(1) None]
      by (simp add: list_popNoLock_def plain_evict [OF assms(1)] logged_effect_def)
  next
    case (Some xs)
    then obtain v where "data e k = Some v" "elems v \<noteq> []" using listing_Some [OF assms(1) Some] by blast
    then show ?thesis using lg Some
      by (auto simp: list_popNoLock_def plain_evict [OF assms(1)] logged_effect_def simp del: list_effect.simps
          intro!: ends_mono [OF plain_pop [OF assms(1) Some]])
  qed
  then show ?thesis by (auto simp: LeftPop_def RightPop_def elim!: ends_mono_pair)
qed

lemma move_op_logs:
  assumes "listing L e" "exact_op (LMove k k' l r)"
  shows "ends (list_apply compile lg now ks (LMove k k' l r) (e, w)) (\<lambda>(res, e', w'). logged_effect lg (LMove k k' l r) L w e' w')"
proof -
  obtain w' where lg: "lg ''list'' ''MOVE'' [PathEscape k, PathEscape k', bool_arg l, bool_arg r] w = (None, w')" by (rule logged)
  show ?thesis
  proof (cases "L k")
    case None
    then show ?thesis using assms(1) listing_None [OF assms(1) None]
      by (simp add: list_Move_def plain_evict [OF assms(1)] logged_effect_def)
  next
    case (Some xs)
    then obtain v where "data e k = Some v" "elems v \<noteq> []" using listing_Some [OF assms(1) Some] by blast
    then show ?thesis using lg Some
      by (auto simp: list_Move_def plain_evict [OF assms(1)] logged_effect_def simp del: list_effect.simps
          intro!: ends_mono [OF plain_move [OF assms(1) Some]])
  qed
qed

lemma replace_op_logs:
  assumes "listing L e" "exact_op (LReplace k i b)"
  shows "ends (list_apply compile lg now ks (LReplace k i b) (e, w)) (\<lambda>(res, e', w'). logged_effect lg (LReplace k i b) L w e' w')"
proof -
  obtain w' where lg: "lg ''list'' ''REPLACE'' [PathEscape k, FormatInt i, EncodeToString b] w = (None, w')" by (rule logged)
  show ?thesis
  proof (cases "L k")
    case None
    then show ?thesis using assms(1) listing_None [OF assms(1) None]
      by (simp add: ReplaceAtIndex_def plain_evict [OF assms(1)] logged_effect_def)
  next
    case (Some xs)
    then obtain v where v: "data e k = Some v" using listing_Some [OF assms(1) Some] by blast
    have "ends (list_replaceNoLockAndNoWal k i b e) (\<lambda>e'. logged_effect lg (LReplace k i b) L w e' w')"
      using lg Some
      by (auto simp: logged_effect_def simp del: list_effect.simps intro!: ends_mono [OF plain_replace [OF assms(1) Some]])
    then show ?thesis using lg assms v
      by (auto simp: ReplaceAtIndex_def plain_evict [OF assms(1)] Let_def logged_effect_def elim!: ends_mono)
  qed
qed

lemma insert_op_logs:
  assumes "listing L e" "exact_op (LInsert k p b before)"
  shows "ends (list_apply compile lg now ks (LInsert k p b before) (e, w)) (\<lambda>(res, e', w'). logged_effect lg (LInsert k p b before) L w e' w')"
proof -
  obtain w' where lg: "lg ''list'' ''INSERT'' [PathEscape k, EncodeToString p, EncodeToString b, bool_arg before] w = (None, w')"
    by (rule logged)
  show ?thesis
  proof (cases "L k")
    case None
    then show ?thesis using assms(1) listing_None [OF assms(1) None]
      by (simp add: list_Insert_def plain_evict [OF assms(1)] logged_effect_def)
  next
    case (Some xs)
    then obtain v where v: "data e k = Some v" using listing_Some [OF assms(1) Some] by blast
    then show ?thesis using lg Some assms(1)
      by (auto simp: list_Insert_def plain_evict [OF assms(1)] logged_effect_def simp del: list_effect.simps
          intro!: ends_mono [OF plain_insert [OF assms(1) Some]])
  qed
qed

lemma remove_op_logs:
  assumes "listing L e" "exact_op (LRemove k n b)"
  shows "ends (list_apply compile lg now ks (LRemove k n b) (e, w)) (\<lambda>(res, e', w'). logged_effect lg (LRemove k n b) L w e' w')"
proof -
  obtain w' where lg: "lg ''list'' ''REMOVE'' [PathEscape k, FormatInt n, EncodeToString b] w = (None, w')" by (rule logged)
  show ?thesis
  proof (cases "L k")
    case None
    then show ?thesis using assms(1) listing_None [OF assms(1) None]
      by (simp add: list_Remove_def plain_evict [OF assms(1)] logged_effect_def)
  next
    case (Some xs)
    then obtain v where v: "data e k = Some v" "elems v = xs" "xs \<noteq> []" using listing_Some [OF assms(1) Some] by blast
    have none: "list_effect (LRemove k n b) L = L" if "\<not> 0 < fst (remove_elems n b xs)"
    proof -
      have "snd (remove_elems n b xs) = xs" using that by (rule remove_nothing)
      then show ?thesis using Some v(3) by (auto simp: list_at_def store_list_def)
    qed
    then show ?thesis using lg Some v(1)
      by (auto simp: list_Remove_def plain_evict [OF assms(1)] logged_effect_def simp del: list_effect.simps
          intro!: ends_mono [OF plain_remove [OF assms(1) Some]])
  qed
qed

lemma delete_op_logs:
  assumes "listing L e" "exact_op (LDelete k)"
  shows "ends (list_apply compile lg now ks (LDelete k) (e, w)) (\<lambda>(res, e', w'). logged_effect lg (LDelete k) L w e' w')"
proof -
  obtain w' where lg: "lg ''list'' ''DELETE'' [PathEscape k] w = (None, w')" by (rule logged)
  then show ?thesis by (auto simp: list_Delete_def engine_Delete_def logged_effect_def intro!: ends_mono [OF listing_erase [OF assms(1)]])
qed

lemma op_logs:
  assumes "listing L e" "exact_op op"
  shows "ends (list_apply compile lg now ks op (e, w)) (\<lambda>(r, e', w'). logged_effect lg op L w e' w')"
proof (cases op)
  case (LPush left k vs x)
  then show ?thesis using push_op_logs assms by simp
next
  case (LPop left k)
  then show ?thesis using pop_op_logs assms by simp
next
  case (LMove k k' l r)
  then show ?thesis using move_op_logs assms by simp
next
  case (LReplace k i b)
  then show ?thesis using replace_op_logs assms by simp
next
  case (LInsert k p b before)
  then show ?thesis using insert_op_logs assms by simp
next
  case (LRemove k n b)
  then show ?thesis using remove_op_logs assms by simp
next
  case (LDelete k)
  then show ?thesis using delete_op_logs assms by simp
qed (use assms in \<open>auto simp: list_Len_def list_Range_def list_Get_def list_Index_def list_Pos_def plain_read [OF assms(1)]
    logged_effect_def\<close>)

end

subsection \<open>The recovery\<close>

fun list_replay :: "time \<Rightarrow> wal_entry list \<Rightarrow> ListStorage \<Rightarrow> ListStorage option" where
  "list_replay now [] e = Some e"
| "list_replay now ((eid, act, args) # es) e =
     (if eid = ''list'' then do { e' \<leftarrow> list_ProcessWalEntry now act args e; list_replay now es e' }
      else list_replay now es e)"

lemma list_replay_append: "list_replay now (xs @ ys) e = do { e' \<leftarrow> list_replay now xs e; list_replay now ys e' }"
proof (induction xs arbitrary: e)
  case (Cons x xs)
  have "list_replay now (xs @ ys) = (\<lambda>e. do { e' \<leftarrow> list_replay now xs e; list_replay now ys e' })"
    using Cons by (simp add: fun_eq_iff)
  then show ?case by (cases x) auto
qed simp

lemma bool_arg_true [simp]: "(bool_arg b = ''true'') = b"
  by (simp add: bool_arg_def)

lemma decode_values: "map (decode_or_raw \<circ> EncodeToString) vs = vs"
  by (induction vs) (simp_all add: codec_simps)

lemma replay_push:
  assumes "listing L e" "vs \<noteq> []"
  shows "ends (list_ProcessWalEntry now (if left then ''LPUSH'' else ''RPUSH'')
      (PathEscape k # ''PERSISTENT'' # map EncodeToString vs) e)
    (listing (list_effect (LPush left k vs None) L))"
  using plain_push [OF assms, of now k left None]
  by (cases left) (simp_all add: list_ProcessWalEntry_def codec_simps decode_values del: list_effect.simps)

lemma replay_pop:
  assumes "listing L e" "L k = Some xs"
  shows "ends (list_ProcessWalEntry now (if left then ''LPOP'' else ''RPOP'') [PathEscape k] e)
    (listing (list_effect (LPop left k) L))"
proof -
  have "ends (map_option snd (list_popNoLockAndNoWal k left e)) (listing (list_effect (LPop left k) L))"
    unfolding ends_simps(4) by (rule ends_mono [OF plain_pop [OF assms]]) auto
  then show ?thesis by (cases left) (simp_all add: list_ProcessWalEntry_def codec_simps del: list_effect.simps ends_simps(4))
qed

lemma replay_move:
  assumes "listing L e" "L k = Some xs"
  shows "ends (list_ProcessWalEntry now ''MOVE'' [PathEscape k, PathEscape k', bool_arg l, bool_arg r] e)
    (listing (list_effect (LMove k k' l r) L))"
  by (simp add: list_ProcessWalEntry_def codec_simps del: list_effect.simps)
    (rule ends_mono [OF plain_move [OF assms]], auto simp del: list_effect.simps)

lemma replay_replace:
  assumes "listing L e" "L k = Some xs" "int64_range i"
  shows "ends (list_ProcessWalEntry now ''REPLACE'' [PathEscape k, FormatInt i, EncodeToString v] e)
    (listing (list_effect (LReplace k i v) L))"
  using plain_replace [OF assms(1,2), of i v] assms(3)
  by (simp add: list_ProcessWalEntry_def codec_simps del: list_effect.simps)

lemma replay_insert:
  assumes "listing L e" "L k = Some xs"
  shows "ends (list_ProcessWalEntry now ''INSERT'' [PathEscape k, EncodeToString p, EncodeToString v, bool_arg b] e)
    (listing (list_effect (LInsert k p v b) L))"
  by (simp add: list_ProcessWalEntry_def codec_simps del: list_effect.simps)
    (rule ends_mono [OF plain_insert [OF assms]], auto simp del: list_effect.simps)

lemma replay_remove:
  assumes "listing L e" "L k = Some xs" "int64_range n"
  shows "ends (list_ProcessWalEntry now ''REMOVE'' [PathEscape k, FormatInt n, EncodeToString v] e)
    (listing (list_effect (LRemove k n v) L))"
  using assms(3)
  by (simp add: list_ProcessWalEntry_def codec_simps del: list_effect.simps)
    (rule ends_mono [OF plain_remove [OF assms(1,2)]], auto simp del: list_effect.simps)

lemma replay_delete:
  assumes "listing L e"
  shows "ends (list_ProcessWalEntry now ''DELETE'' [PathEscape k] e) (listing (list_effect (LDelete k) L))"
  using listing_erase [OF assms, of k] by (simp add: list_ProcessWalEntry_def codec_simps)

lemma entry_replays:
  assumes "listing L e" "exact_op op" "list_entry op = (eid, act, args)" "eid \<noteq> []"
    "\<forall>k. needs_list op = Some k \<longrightarrow> L k \<noteq> None"
  shows "eid = ''list'' \<and> ends (list_ProcessWalEntry now act args e) (listing (list_effect op L))"
proof (cases "needs_list op")
  case None
  then show ?thesis
    using assms(2-4) replay_push [OF assms(1)] replay_delete [OF assms(1)]
    by (cases op) (auto simp: expires_str_def simp del: list_effect.simps)
next
  case (Some k)
  then obtain xs where L: "L k = Some xs" using assms(5) by auto
  note replays = replay_pop [OF assms(1) L] replay_move [OF assms(1) L] replay_replace [OF assms(1) L]
    replay_insert [OF assms(1) L] replay_remove [OF assms(1) L]
  show ?thesis
    using Some assms(2,3) replays by (cases op) (simp_all del: list_effect.simps, auto simp del: list_effect.simps)
qed

lemma wal_safe_bool [codec_simps]: "wal_safe (bool_arg b)"
  by (simp add: bool_arg_def codec_simps wal_char_def)

lemma list_entry_safe:
  "exact_op op \<Longrightarrow> list_entry op = (eid, act, args) \<Longrightarrow> wal_safe eid \<and> wal_safe act \<and> (\<forall>x \<in> set args. wal_safe x)"
  by (cases op) (auto simp: codec_simps wal_char_def expires_str_def split: if_splits)

definition list_recovers :: "time \<Rightarrow> wal_entry list \<Rightarrow> (string \<rightharpoonup> bytes list) \<Rightarrow> bool" where
  "list_recovers now es L \<longleftrightarrow> ends (list_replay now es new_engine) (listing L)"

context durable_log
begin

lemma exact_op_recovers:
  assumes "listing L e" "exact_op op" "list_recovers later (read_log read (entries w)) L"
    "list_apply compile log now ks op (e, w) = Some (r, e', w')"
  shows "\<exists>L'. listing L' e' \<and> list_recovers later (read_log read (entries w')) L'"
proof -
  obtain eid act args where en: "list_entry op = (eid, act, args)" by (cases "list_entry op") auto
  have "logged_effect log op L w e' w'"
    using endsD [OF op_logs [OF assms(1,2)] assms(4)] by simp
  then consider "listing L e'" "w' = w"
    | "listing (list_effect op L) e'" "log eid act args w = (None, w')"
      "\<forall>k. needs_list op = Some k \<longrightarrow> L k \<noteq> None"
    unfolding logged_effect_def en by auto
  then show ?thesis
  proof cases
    case 1
    then show ?thesis using assms(3) by blast
  next
    case 2
    have wr: "read_log read (entries w') = read_log read (entries w) @ [(eid, act, args)]"
      using written_log [OF 2(2)] list_entry_safe [OF assms(2) en] by blast
    show ?thesis
    proof (cases "eid = []")
      case True
      then have "list_effect op L = L" using en by (cases op) auto
      then show ?thesis using 2(1) assms(3) wr True
        by (auto simp: list_recovers_def list_replay_append elim!: ends_mono)
    next
      case False
      have "list_recovers later (read_log read (entries w')) (list_effect op L)"
        using assms(3) unfolding list_recovers_def wr list_replay_append ends_simps(3)
        by (rule ends_mono) (use entry_replays [OF _ assms(2) en False 2(3)] in auto)
      then show ?thesis using 2(1) by blast
    qed
  qed
qed

end

subsection \<open>Properties\<close>

definition list_one :: ListStorage where
  "list_one = new_engine\<lparr>data := [''l'' \<mapsto> NewValue [''a'', ''b''] 7 None]\<rparr>"

definition list_one_log :: "wal_entry list" where
  "list_one_log = [(''list'', ''RPUSH'', [PathEscape ''l'', ''PERSISTENT'', EncodeToString ''a'', EncodeToString ''b''])]"

lemma list_one_reach: "list_reach no_regexps list_log [] (list_one, list_one_log)"
proof (rule list_next [OF list_start, where ks = "[]" and now = 7 and op = "LPush False ''l'' [''a'', ''b''] None"])
  show "map_iter [] (data (fst (new_engine, [])))" by (simp add: map_iter_def)
qed (simp add: RightPush_def list_pushNoLock_def list_pushNoLockAndNoWal_def list_drop_expired_def new_engine_def list_log_def
    list_one_def list_one_log_def expires_str_def NewValue_def Let_def)

lemma list_one_iter: "map_iter [''l''] (data list_one)"
  by (auto simp: map_iter_def list_one_def)

text \<open>
  C4.  No operation of the list engine panics or loops: after any sequence of operations from a new engine,
  with any logger, the heap, the expiration map and the data agree, and every further operation returns.
\<close>

theorem list_never_panics:
  assumes "list_reach compile lg w0 (e, w)" "map_iter ks (data e)"
  shows "list_inv e \<and> (\<exists>r e' w'. list_apply compile lg now ks op (e, w) = Some (r, e', w'))"
  using list_apply_total [of e ks compile lg now op w] list_reach_inv [OF assms(1)] assms(2)
  by (auto simp: ends_iff)

lemma list_never_panics_witness:
  "list_inv list_one \<and> (\<exists>r e' w'. list_apply no_regexps list_log 9 [''l''] (LMove ''l'' ''m'' True False) (list_one, list_one_log) =
    Some (r, e', w'))"
  by (rule list_never_panics [OF list_one_reach list_one_iter])

text \<open>
  C2.  With a logger that does not fail, each operation of the list engine implements \<open>list_spec\<close>: pushes,
  pops, moves, ranges, indices, replacements, insertions, removals, positions and patterns give the result
  and leave the view of the clients that the specification gives.
\<close>

theorem list_refines:
  assumes "\<And>e a args w. fst (lg e a args w) = None" "list_reach compile lg w0 (e, w)" "map_iter ks (data e)"
  shows "\<exists>r e' w'. list_apply compile lg now ks op (e, w) = Some (r, e', w') \<and>
    (r, list_abs now e') = list_spec compile now op (list_abs now e)"
proof -
  have r: "reliable_logger lg" using assms(1) by (rule reliable_logger.intro)
  have "list_inv e" using list_reach_inv [OF assms(2)] by simp
  from reliable_logger.list_apply_refines [OF r this assms(3), where compile = compile and now = now and op = op and w = w]
  show ?thesis by (auto simp: ends_iff)
qed

lemma list_refines_witness:
  "\<exists>r e' w'. list_apply no_regexps list_log 9 [''l''] (LRange ''l'' (-1) 5) (list_one, list_one_log) = Some (r, e', w') \<and>
    (r, list_abs 9 e') = list_spec no_regexps 9 (LRange ''l'' (-1) 5) (list_abs 9 list_one)"
  by (rule list_refines [OF list_log_ok list_one_reach list_one_iter])

text \<open>
  \<open>SnapshotListIndex\<close>, which walks from the nearer end of the list, finds the element at the index,
  counted from the end when it is negative, and nothing when the index is out of range.
\<close>

lemma SnapshotListIndex_nth:
  "SnapshotListIndex now key index e =
     (case SnapshotList now key e of
        None \<Rightarrow> None
      | Some xs \<Rightarrow>
          if - int (length xs) \<le> index \<and> index < int (length xs)
          then Some (xs ! nat (index mod int (length xs))) else None)"
proof (cases "data e key")
  case (Some v)
  let ?xs = "elems v" and ?i = "if index < 0 then int (length (elems v)) + index else index"
  have m: "index mod int (length ?xs) = ?i" if "- int (length ?xs) \<le> index" "index < int (length ?xs)"
  proof -
    have "index mod int (length ?xs) = ?i mod int (length ?xs)" by simp
    also have "\<dots> = ?i" using that by (intro mod_pos_pos_trivial) (auto split: if_splits)
    finally show ?thesis .
  qed
  have r: "walk_next (nat (int (length ?xs) - 1 - ?i)) (rev ?xs) = Some (?xs ! nat ?i)"
    if "0 \<le> ?i" "?i < int (length ?xs)"
  proof -
    have "nat (int (length ?xs) - 1 - ?i) < length ?xs" "length ?xs - Suc (nat (int (length ?xs) - 1 - ?i)) = nat ?i"
      using that by linarith+
    then show ?thesis by (simp add: walk_next_eq rev_nth)
  qed
  show ?thesis
  proof (cases "0 \<le> ?i \<and> ?i < int (length ?xs)")
    case True
    then have "- int (length ?xs) \<le> index" "index < int (length ?xs)" by (auto split: if_splits)
    moreover have "walk_next (nat ?i) ?xs = Some (?xs ! nat ?i)" using True by (simp add: walk_next_eq nat_less_iff)
    ultimately show ?thesis
      using Some True r m by (simp add: SnapshotListIndex_def SnapshotList_def Let_def)
  next
    case False
    then have "\<not> (- int (length ?xs) \<le> index \<and> index < int (length ?xs))" by (auto split: if_splits)
    then show ?thesis
      using Some False by (auto simp: SnapshotListIndex_def SnapshotList_def Let_def)
  qed
qed (simp add: SnapshotListIndex_def SnapshotList_def)

lemma push_logs:
  assumes "list_inv e"
  obtains e' where "list_pushNoLock list_log now k vs x left (e, w) = Some (None, e', w @ [list_entry (LPush left k vs x)])"
    "list_inv e'" "list_abs now e' = spec_push now left k vs x (list_abs now e)"
proof -
  from push_ends [OF assms, of now k vs x left] obtain e' where "list_pushNoLockAndNoWal now k vs x left e = Some e'"
    "list_inv e'" "list_abs now e' = spec_push now left k vs x (list_abs now e)" by (auto simp: ends_iff)
  then show ?thesis by (intro that [of e']) (simp_all add: list_pushNoLock_def list_log_def)
qed

lemma list_abs_live:
  assumes "list_abs now e k = Some (xs, x)"
  shows "live_at list_expiresAt now k e" "\<exists>v. data e k = Some v \<and> elems v = xs"
  using visible_SomeD [OF assms [unfolded list_abs_def]] by (auto simp: live_at_def)

lemma pop_logs:
  assumes "list_inv e" "list_abs now e k = Some (xs, x)" "xs \<noteq> []"
  obtains e' where "list_popNoLock list_log now k left (e, w) =
      Some (Inr (fst (spec_take left xs)), e', w @ [list_entry (LPop left k)])"
    "list_inv e'" "list_abs now e' = spec_store k (snd (spec_take left xs)) (list_abs now e)"
proof -
  note lv = list_abs_live(1) [OF assms(2)]
  obtain v where v: "data e k = Some v" "elems v = xs" using list_abs_live(2) [OF assms(2)] by blast
  have ev: "evict list_log ''list'' list_expiresAt now k (e, w) = Some (e, w)" by (rule evict_live [OF lv])
  from pop_ends [OF assms(1) lv v(1), of left] obtain e' where
    "list_popNoLockAndNoWal k left e = Some (fst (spec_take left xs), e')" "list_inv e'"
    "list_abs now e' = spec_store k (snd (spec_take left xs)) (list_abs now e)"
    using v assms(3) by (auto simp: ends_iff)
  then show ?thesis using v ev assms(3) by (intro that [of e']) (simp_all add: list_popNoLock_def list_log_def)
qed

lemma list_abs_new [simp]: "list_abs now new_engine = Map.empty"
  by (simp add: list_abs_empty)

definition expiring_pops :: "string \<Rightarrow> bytes \<Rightarrow> bytes \<Rightarrow> time \<Rightarrow> wal_entry list" where
  "expiring_pops k a b t = map list_entry [LPush False k [a] (Some t), LPush False k [b] None, LPop False k, LPop False k]"

lemma expiring_pops_run:
  assumes "now \<le> t"
  shows "\<exists>s1 s2 s3 e.
      RightPush list_log now k [a] (Some t) (new_engine, []) = Some (None, s1) \<and>
      RightPush list_log now k [b] None s1 = Some (None, s2) \<and>
      RightPop list_log now k s2 = Some (Inr b, s3) \<and>
      RightPop list_log now k s3 = Some (Inr a, e, expiring_pops k a b t)"
proof -
  have ne: "\<not> expired (Some t) now" using assms by (simp add: expired_def)
  note simps = spec_push_def contents_def expiry_of_def spec_store_def spec_take_def ne
  obtain e1 where e1: "list_pushNoLock list_log now k [a] (Some t) False (new_engine, []) =
      Some (None, e1, [list_entry (LPush False k [a] (Some t))])" "list_inv e1" "list_abs now e1 = [k \<mapsto> ([a], Some t)]"
    by (rule push_logs [OF engine_inv_new, of now k "[a]" "Some t" False "[]"]) (simp add: simps del: list_entry.simps)
  obtain e2 where e2: "list_pushNoLock list_log now k [b] None False (e1, [list_entry (LPush False k [a] (Some t))]) =
      Some (None, e2, [list_entry (LPush False k [a] (Some t)), list_entry (LPush False k [b] None)])" "list_inv e2"
      "list_abs now e2 = [k \<mapsto> ([a, b], Some t)]"
    by (rule push_logs [OF e1(2), of now k "[b]" None False "[list_entry (LPush False k [a] (Some t))]"])
      (simp add: simps e1(3) del: list_entry.simps)
  obtain e3 where e3: "list_popNoLock list_log now k False (e2, [list_entry (LPush False k [a] (Some t)), list_entry (LPush False k [b] None)]) =
      Some (Inr b, e3, [list_entry (LPush False k [a] (Some t)), list_entry (LPush False k [b] None), list_entry (LPop False k)])"
      "list_inv e3" "list_abs now e3 = [k \<mapsto> ([a], Some t)]"
    by (rule pop_logs [OF e2(2), where now = now and k = k and xs = "[a, b]" and x = "Some t" and left = False and w = "[list_entry (LPush False k [a] (Some t)), list_entry (LPush False k [b] None)]"])
      (simp_all add: simps e2(3) del: list_entry.simps)
  obtain e4 where "list_popNoLock list_log now k False (e3, [list_entry (LPush False k [a] (Some t)), list_entry (LPush False k [b] None), list_entry (LPop False k)]) =
      Some (Inr a, e4, expiring_pops k a b t)"
    by (rule pop_logs [OF e3(2), where now = now and k = k and xs = "[a]" and x = "Some t" and left = False and w = "[list_entry (LPush False k [a] (Some t)), list_entry (LPush False k [b] None), list_entry (LPop False k)]"])
      (simp_all add: simps e3(3) expiring_pops_def del: list_entry.simps)
  then show ?thesis using e1(1) e2(1) e3(1) unfolding RightPush_def RightPop_def by blast
qed

lemma expiring_pops_replay:
  assumes "rfc3339_range t" "trunc_second t < later"
  shows "list_replay later (expiring_pops k a b t) new_engine = None"
proof -
  have ex: "expired (Some (trunc_second t)) later" using assms(2) by (simp add: expired_def)
  note simps = spec_push_def contents_def expiry_of_def spec_store_def spec_take_def ex expired_def
  from push_ends [OF engine_inv_new, of later k "[a]" "Some (trunc_second t)" False] obtain e1 where
    e1: "list_pushNoLockAndNoWal later k [a] (Some (trunc_second t)) False new_engine = Some e1" "list_inv e1"
      "list_abs later e1 = Map.empty"
    using ex by (auto simp: ends_iff spec_push_def fun_eq_iff)
  from push_ends [OF e1(2), of later k "[b]" None False] obtain e2 where
    e2: "list_pushNoLockAndNoWal later k [b] None False e1 = Some e2" "list_inv e2" "list_abs later e2 = [k \<mapsto> ([b], None)]"
    using e1(3) by (auto simp: ends_iff spec_push_def contents_def expiry_of_def expired_def)
  have lv: "live_at list_expiresAt later k e2" and "\<exists>v. data e2 k = Some v \<and> elems v = [b]"
    using list_abs_live [of later e2 k "[b]" None] e2(3) by simp_all
  then obtain v where v: "data e2 k = Some v" "elems v = [b]" by blast
  from pop_ends [OF e2(2) lv v(1), of False] obtain e3 where
    e3: "list_popNoLockAndNoWal k False e2 = Some (b, e3)" "data e3 k = None"
    using v(2) by (auto simp: ends_iff spec_take_def)
  have "list_popNoLockAndNoWal k False e3 = None" using e3(2) by (simp add: list_popNoLockAndNoWal_def)
  then show ?thesis
    using e1(1) e2(1) e3(1) assms(1) FormatRFC3339_not_persistent [OF assms(1)]
    by (simp add: expiring_pops_def list_ProcessWalEntry_def codec_simps expires_str_def)
qed

text \<open>
  C5.  A log that the list engine wrote may make its recovery panic.  A list with an expiry gets a second
  element and both are popped.  When the log is replayed after the expiry, the second push finds an
  expired list and starts a new one with one element: the second pop has no list.
\<close>

theorem list_recovery_panics:
  assumes "now \<le> t" "rfc3339_range t" "trunc_second t < later"
  shows "(\<exists>s1 s2 s3 e.
      RightPush list_log now k [a] (Some t) (new_engine, []) = Some (None, s1) \<and>
      RightPush list_log now k [b] None s1 = Some (None, s2) \<and>
      RightPop list_log now k s2 = Some (Inr b, s3) \<and>
      RightPop list_log now k s3 = Some (Inr a, e, expiring_pops k a b t)) \<and>
    list_replay later (expiring_pops k a b t) new_engine = None"
  using expiring_pops_run [OF assms(1)] expiring_pops_replay [OF assms(2,3)] by blast

lemma list_recovery_panics_witness:
  "(\<exists>s1 s2 s3 e.
      RightPush list_log 5 ''l'' [''a''] (Some 7) (new_engine, []) = Some (None, s1) \<and>
      RightPush list_log 5 ''l'' [''b''] None s1 = Some (None, s2) \<and>
      RightPop list_log 5 ''l'' s2 = Some (Inr ''b'', s3) \<and>
      RightPop list_log 5 ''l'' s3 = Some (Inr ''a'', e, expiring_pops ''l'' ''a'' ''b'' 7)) \<and>
    list_replay 9 (expiring_pops ''l'' ''a'' ''b'' 7) new_engine = None"
  by (rule list_recovery_panics)
    (simp_all add: rfc3339_range_def trunc_second_def year_of_day_def days_before_year_def leaps_until_def Let_def)

text \<open>
  \<open>LSET\<close> with a negative index is lost at recovery: the log holds the index as it was given, and the
  replay, which does not resolve it, changes nothing.
\<close>

theorem negative_replace_is_lost:
  assumes "listing L e" "L k = Some xs" "i < 0" "- int (length xs) \<le> i" "int64_range i"
  shows "(\<exists>e' w'. ReplaceAtIndex list_log now k i v (e, w) = Some (None, e', w @ [list_entry (LReplace k i v)]) \<and>
      lists e' k = Some (xs[nat (int (length xs) + i) := v])) \<and>
    (\<exists>e'. list_replay later [list_entry (LReplace k i v)] e = Some e' \<and> lists e' k = Some xs)"
proof
  obtain u where u: "data e k = Some u" "elems u = xs" "list_expiresAt u = None" "xs \<noteq> []"
    using listing_Some [OF assms(1,2)] by blast
  show "\<exists>e' w'. ReplaceAtIndex list_log now k i v (e, w) = Some (None, e', w @ [list_entry (LReplace k i v)]) \<and>
      lists e' k = Some (xs[nat (int (length xs) + i) := v])"
    using u assms(3,4)
    by (simp add: ReplaceAtIndex_def plain_evict [OF assms(1)] Let_def list_replaceNoLockAndNoWal_def list_log_def
        replace_loop_eq lists_def)
  show "\<exists>e'. list_replay later [list_entry (LReplace k i v)] e = Some e' \<and> lists e' k = Some xs"
    using u assms(3,5)
    by (simp add: list_ProcessWalEntry_def codec_simps list_replaceNoLockAndNoWal_def replace_loop_before lists_def)
qed

lemma list_one_listing: "listing [''l'' \<mapsto> [''a'', ''b'']] list_one"
  using list_reach_inv [OF list_one_reach]
  by (auto simp: listing_def plain_def lists_def list_one_def NewValue_def)

lemma negative_replace_is_lost_witness:
  "(\<exists>e' w'. ReplaceAtIndex list_log 8 ''l'' (-1) ''z'' (list_one, []) = Some (None, e', [] @ [list_entry (LReplace ''l'' (-1) ''z'')]) \<and>
      lists e' ''l'' = Some ([''a'', ''b''][nat (int (length [''a'', ''b'']) + -1) := ''z''])) \<and>
    (\<exists>e'. list_replay 9 [list_entry (LReplace ''l'' (-1) ''z'')] list_one = Some e' \<and> lists e' ''l'' = Some [''a'', ''b''])"
  by (rule negative_replace_is_lost [OF list_one_listing]) (simp_all add: int64_range_def)

end
