(* ===== verification/SetStorage.thy ===== *)
theory SetStorage
  imports Engine GoTime
begin

text \<open>
  The set engine, \<open>pkg/set_storage/set_storage.go\<close>, except for the snapshot codec.  A
  \<open>map[string]struct{}\<close> is the set of its keys; every key of the engine owns its set.  Go ranges over a
  map in an unspecified order: \<open>iter S\<close>, an argument of the operations that range over a set, is the list
  of the members of \<open>S\<close> in the order they are visited (\<open>iter_ok iter\<close>).
\<close>

record SetValue =
  members :: "bytes set"
  set_createdAt :: time
  set_expiresAt :: "time option"

definition NewSetValue :: "bytes set \<Rightarrow> time \<Rightarrow> time option \<Rightarrow> SetValue" where
  "NewSetValue ms c x = \<lparr>members = ms, set_createdAt = c, set_expiresAt = x\<rparr>"

type_synonym SetStorage = "SetValue engine"
type_synonym set_order = "bytes set \<Rightarrow> bytes list"

definition iter_ok :: "set_order \<Rightarrow> bool" where
  "iter_ok iter \<longleftrightarrow> (\<forall>S. finite S \<longrightarrow> distinct (iter S) \<and> set (iter S) = S)"

abbreviation set_evict :: "'w logger \<Rightarrow> time \<Rightarrow> string \<Rightarrow> SetStorage \<times> 'w \<Rightarrow> (SetStorage \<times> 'w) option" where
  "set_evict lg now key \<equiv> evict lg ''set'' set_expiresAt now key"

definition set_deleteExpiredKeys ::
  "'w logger \<Rightarrow> time \<Rightarrow> string list \<Rightarrow> SetStorage \<times> 'w \<Rightarrow> (SetStorage \<times> 'w) option" where
  "set_deleteExpiredKeys lg now ks s = sweep lg ''set'' set_expiresAt now ks s"

subsection \<open>Adding and removing members\<close>

fun add_loop :: "bytes list \<Rightarrow> bytes set \<Rightarrow> int \<Rightarrow> bytes set \<times> int" where
  "add_loop [] mSet added = (mSet, added)"
| "add_loop (m # ms) mSet added =
     (if m \<notin> mSet then add_loop ms (insert m mSet) (added + 1) else add_loop ms mSet added)"

definition sAddNoLockAndNoWal ::
  "time \<Rightarrow> string \<Rightarrow> bytes list \<Rightarrow> time option \<Rightarrow> SetStorage \<Rightarrow> (int \<times> SetStorage) option" where
  "sAddNoLockAndNoWal now key ms x e =
     (let val = (case data e key of
                   None \<Rightarrow> NewSetValue {} now x
                 | Some v \<Rightarrow> if x \<noteq> None then v\<lparr>set_expiresAt := x\<rparr> else v)
      in case add_loop ms (members val) 0 of (mSet, added) \<Rightarrow>
           (let e1 = e\<lparr>data := (data e)(key \<mapsto> val\<lparr>members := mSet\<rparr>)\<rparr>
            in if x \<noteq> None then do { e2 \<leftarrow> dropExpiration key e1; Some (added, addExpiration key x e2) }
               else Some (added, e1)))"

definition SAdd ::
  "'w logger \<Rightarrow> time \<Rightarrow> string \<Rightarrow> bytes list \<Rightarrow> time option \<Rightarrow> SetStorage \<times> 'w \<Rightarrow>
   ((goerr + int) \<times> SetStorage \<times> 'w) option" where
  "SAdd lg now key ms x s = do {
     (e, w) \<leftarrow> set_evict lg now key s;
     (added, e') \<leftarrow> sAddNoLockAndNoWal now key ms x e;
     let expiresStr = (if x \<noteq> None then expires_str x
                       else (case data e' key of None \<Rightarrow> ''PERSISTENT'' | Some v \<Rightarrow> expires_str (set_expiresAt v)));
     case lg ''set'' ''SADD'' (PathEscape key # expiresStr # map EncodeToString ms) w of
       (Some err, w') \<Rightarrow> Some (Inl err, e', w')
     | (None, w') \<Rightarrow> Some (Inr added, e', w') }"

fun rem_loop :: "bytes list \<Rightarrow> bytes set \<Rightarrow> int \<Rightarrow> bytes set \<times> int" where
  "rem_loop [] mSet removed = (mSet, removed)"
| "rem_loop (m # ms) mSet removed =
     (if m \<in> mSet then rem_loop ms (mSet - {m}) (removed + 1) else rem_loop ms mSet removed)"

text \<open>On a missing key the zero \<open>Value\<close> has a nil map: nothing is removed and the key is deleted.\<close>

definition sRemNoLockAndNoWal :: "string \<Rightarrow> bytes list \<Rightarrow> SetStorage \<Rightarrow> (int \<times> SetStorage) option" where
  "sRemNoLockAndNoWal key ms e =
     (case data e key of
        None \<Rightarrow> do { e' \<leftarrow> deleteNoLock key e; Some (0, e') }
      | Some v \<Rightarrow>
          (case rem_loop ms (members v) 0 of (mSet, removed) \<Rightarrow> do {
             e' \<leftarrow> (if mSet = {} then deleteNoLock key e
                   else Some (e\<lparr>data := (data e)(key \<mapsto> v\<lparr>members := mSet\<rparr>)\<rparr>));
             Some (removed, e') }))"

definition SRem ::
  "'w logger \<Rightarrow> time \<Rightarrow> string \<Rightarrow> bytes list \<Rightarrow> SetStorage \<times> 'w \<Rightarrow> ((goerr + int) \<times> SetStorage \<times> 'w) option" where
  "SRem lg now key ms s = do {
     (e, w) \<leftarrow> set_evict lg now key s;
     if data e key = None then Some (Inr 0, e, w)
     else do {
       (removed, e') \<leftarrow> sRemNoLockAndNoWal key ms e;
       if 0 < removed then
         (case lg ''set'' ''SREM'' (PathEscape key # map EncodeToString ms) w of
            (Some err, w') \<Rightarrow> Some (Inl err, e', w')
          | (None, w') \<Rightarrow> Some (Inr removed, e', w'))
       else Some (Inr removed, e', w) } }"

fun pop_loop :: "nat \<Rightarrow> bytes list \<Rightarrow> bytes list \<Rightarrow> bytes set \<Rightarrow> bytes list \<times> bytes set" where
  "pop_loop limit [] popped mSet = (popped, mSet)"
| "pop_loop limit (m # ms) popped mSet =
     (if length (popped @ [m]) = limit then (popped @ [m], mSet - {m})
      else pop_loop limit ms (popped @ [m]) (mSet - {m}))"

definition SPop ::
  "'w logger \<Rightarrow> time \<Rightarrow> set_order \<Rightarrow> string \<Rightarrow> int \<Rightarrow> SetStorage \<times> 'w \<Rightarrow>
   ((goerr + bytes list) \<times> SetStorage \<times> 'w) option" where
  "SPop lg now iter key count s = do {
     (e, w) \<leftarrow> set_evict lg now key s;
     case data e key of
       None \<Rightarrow> Some (Inl (not_found key ''SPOP''), e, w)
     | Some v \<Rightarrow>
         if card (members v) = 0 then Some (Inl (not_found key ''SPOP''), e, w)
         else if count \<le> 0 then Some (Inr [], e, w)
         else
           (let limit = (if int (card (members v)) < count then int (card (members v)) else count) in
            case pop_loop (nat limit) (iter (members v)) [] (members v) of (popped, mSet) \<Rightarrow> do {
              e' \<leftarrow> (let e1 = e\<lparr>data := (data e)(key \<mapsto> v\<lparr>members := mSet\<rparr>)\<rparr>
                    in if card mSet = 0 then deleteNoLock key e1 else Some e1);
              case lg ''set'' ''SPOP'' (PathEscape key # map EncodeToString popped) w of
                (Some err, w') \<Rightarrow> Some (Inl err, e', w')
              | (None, w') \<Rightarrow> Some (Inr popped, e', w') }) }"

definition sMoveNoLockAndNoWal :: "time \<Rightarrow> string \<Rightarrow> string \<Rightarrow> bytes \<Rightarrow> SetStorage \<Rightarrow> SetStorage option" where
  "sMoveNoLockAndNoWal now srcKey dstKey m e = do {
     (removed, e1) \<leftarrow> sRemNoLockAndNoWal srcKey [m] e;
     (added, e2) \<leftarrow> sAddNoLockAndNoWal now dstKey [m] None e1;
     Some e2 }"

definition SMove ::
  "'w logger \<Rightarrow> time \<Rightarrow> string \<Rightarrow> string \<Rightarrow> bytes \<Rightarrow> SetStorage \<times> 'w \<Rightarrow>
   ((goerr + bool) \<times> SetStorage \<times> 'w) option" where
  "SMove lg now srcKey dstKey m s = do {
     (e, w) \<leftarrow> set_evict lg now srcKey s;
     if (case data e srcKey of None \<Rightarrow> True | Some v \<Rightarrow> m \<notin> members v) then Some (Inr False, e, w)
     else do {
       (e1, w1) \<leftarrow> set_evict lg now dstKey (e, w);
       e2 \<leftarrow> sMoveNoLockAndNoWal now srcKey dstKey m e1;
       case lg ''set'' ''SMOVE'' [PathEscape srcKey, PathEscape dstKey, EncodeToString m] w1 of
         (Some err, w') \<Rightarrow> Some (Inl err, e2, w')
       | (None, w') \<Rightarrow> Some (Inr True, e2, w') } }"

subsection \<open>Reading\<close>

definition set_read ::
  "'w logger \<Rightarrow> time \<Rightarrow> string \<Rightarrow> SetStorage \<times> 'w \<Rightarrow> (bytes set option \<times> SetStorage \<times> 'w) option" where
  "set_read lg now key s =
     (case data (fst s) key of
        None \<Rightarrow> Some (None, s)
      | Some v \<Rightarrow>
          if expired (set_expiresAt v) now then do { s' \<leftarrow> set_evict lg now key s; Some (None, s') }
          else Some (Some (members v), s))"

definition SIsMember ::
  "'w logger \<Rightarrow> time \<Rightarrow> string \<Rightarrow> bytes \<Rightarrow> SetStorage \<times> 'w \<Rightarrow> (bool \<times> SetStorage \<times> 'w) option" where
  "SIsMember lg now key m s = do {
     (r, s') \<leftarrow> set_read lg now key s;
     Some (case r of None \<Rightarrow> False | Some ms \<Rightarrow> m \<in> ms, s') }"

definition SMIsMember ::
  "'w logger \<Rightarrow> time \<Rightarrow> string \<Rightarrow> bytes list \<Rightarrow> SetStorage \<times> 'w \<Rightarrow> (bool list \<times> SetStorage \<times> 'w) option" where
  "SMIsMember lg now key xs s = do {
     (r, s') \<leftarrow> set_read lg now key s;
     Some (case r of None \<Rightarrow> replicate (length xs) False | Some ms \<Rightarrow> map (\<lambda>m. m \<in> ms) xs, s') }"

definition SMembers ::
  "'w logger \<Rightarrow> time \<Rightarrow> set_order \<Rightarrow> string \<Rightarrow> SetStorage \<times> 'w \<Rightarrow> (bytes list \<times> SetStorage \<times> 'w) option" where
  "SMembers lg now iter key s = do {
     (r, s') \<leftarrow> set_read lg now key s;
     Some (case r of None \<Rightarrow> [] | Some ms \<Rightarrow> iter ms, s') }"

definition SCard :: "'w logger \<Rightarrow> time \<Rightarrow> string \<Rightarrow> SetStorage \<times> 'w \<Rightarrow> (int \<times> SetStorage \<times> 'w) option" where
  "SCard lg now key s = do {
     (r, s') \<leftarrow> set_read lg now key s;
     Some (case r of None \<Rightarrow> 0 | Some ms \<Rightarrow> int (card ms), s') }"

text \<open>
  A negative count asks for \<open>-count\<close> members with repetitions, picked with the clock (\<open>clock i\<close> is
  \<open>time.Now().UnixNano()\<close> at the \<open>i\<close>-th round).  \<open>make\<close> panics on a capacity that is negative (the count
  was the least \<open>int\<close>) or whose bytes, 24 for each slice header, exceed the 48 bits of the address
  space.  \<open>%\<close> truncates towards zero.
\<close>

definition go_rem :: "int \<Rightarrow> int \<Rightarrow> int" where
  "go_rem a n = (if a < 0 then - ((- a) mod n) else a mod n)"

definition make_ok :: "int \<Rightarrow> bool" where
  "make_ok cap \<longleftrightarrow> 0 \<le> cap \<and> 24 * cap \<le> 2 ^ 48"

definition pick_index :: "(nat \<Rightarrow> int) \<Rightarrow> nat \<Rightarrow> nat \<Rightarrow> nat" where
  "pick_index clock len i =
     (let idx = go_rem (wrap64 (clock i + int i)) (int len) in nat (if idx < 0 then - idx else idx))"

definition random_members :: "(nat \<Rightarrow> int) \<Rightarrow> set_order \<Rightarrow> int \<Rightarrow> bytes set \<Rightarrow> bytes list option" where
  "random_members clock iter count ms =
     (if card ms = 0 \<or> count = 0 then Some []
      else if 0 \<le> count then
        (let limit = (if int (card ms) < count then int (card ms) else count) in
         if make_ok limit then Some (take (nat limit) (iter ms)) else None)
      else
        (let limit = wrap64 (- count); allKeys = iter ms in
         if make_ok limit then Some (map (\<lambda>i. allKeys ! pick_index clock (card ms) i) [0..<nat limit]) else None))"

definition SRandMember ::
  "'w logger \<Rightarrow> time \<Rightarrow> (nat \<Rightarrow> int) \<Rightarrow> set_order \<Rightarrow> string \<Rightarrow> int \<Rightarrow> SetStorage \<times> 'w \<Rightarrow>
   (bytes list \<times> SetStorage \<times> 'w) option" where
  "SRandMember lg now clock iter key count s = do {
     (r, s') \<leftarrow> set_read lg now key s;
     case r of
       None \<Rightarrow> Some ([], s')
     | Some ms \<Rightarrow> do { res \<leftarrow> random_members clock iter count ms; Some (res, s') } }"

definition SnapshotMembers :: "time \<Rightarrow> set_order \<Rightarrow> string \<Rightarrow> SetStorage \<Rightarrow> bytes list option" where
  "SnapshotMembers now iter key e =
     (case data e key of
        None \<Rightarrow> None
      | Some v \<Rightarrow> if expired (set_expiresAt v) now then None else Some (iter (members v)))"

subsection \<open>Intersection, union, difference\<close>

text \<open>
  The first loop of \<open>SInter\<close> gathers the live sets and the expired keys; \<^term>\<open>None\<close> is the early return
  at a missing key.
\<close>

fun inter_collect ::
  "time \<Rightarrow> (string \<rightharpoonup> SetValue) \<Rightarrow> string list \<Rightarrow> bytes set list \<Rightarrow> string list \<Rightarrow>
   (bytes set list \<times> string list) option" where
  "inter_collect now m [] sets expiredKeys = Some (sets, expiredKeys)"
| "inter_collect now m (k # ks) sets expiredKeys =
     (case m k of
        None \<Rightarrow> None
      | Some v \<Rightarrow>
          if expired (set_expiresAt v) now then inter_collect now m ks sets (expiredKeys @ [k])
          else inter_collect now m ks (sets @ [members v]) expiredKeys)"

fun smallest_loop :: "bytes set list \<Rightarrow> nat \<Rightarrow> nat \<Rightarrow> bytes set list \<Rightarrow> nat" where
  "smallest_loop sets smallestIdx i [] = smallestIdx"
| "smallest_loop sets smallestIdx i (S # Ss) =
     smallest_loop sets (if card S < card (sets ! smallestIdx) then i else smallestIdx) (Suc i) Ss"

text \<open>The members of the smallest set that are in all others; no set at all is an index out of range.\<close>

definition intersect_sets :: "set_order \<Rightarrow> bytes set list \<Rightarrow> bytes list option" where
  "intersect_sets iter sets =
     (if sets = [] then None
      else
        (let sm = smallest_loop sets 0 1 (tl sets)
         in Some (filter (\<lambda>item. list_all (\<lambda>idx. idx = sm \<or> item \<in> sets ! idx) [0..<length sets]) (iter (sets ! sm)))))"

definition SInter ::
  "'w logger \<Rightarrow> time \<Rightarrow> set_order \<Rightarrow> string list \<Rightarrow> SetStorage \<times> 'w \<Rightarrow> (bytes list \<times> SetStorage \<times> 'w) option" where
  "SInter lg now iter keys s =
     (if keys = [] then Some ([], s)
      else
        (case inter_collect now (data (fst s)) keys [] [] of
           None \<Rightarrow> Some ([], s)
         | Some (sets, expiredKeys) \<Rightarrow>
             if expiredKeys \<noteq> [] then do { s' \<leftarrow> set_deleteExpiredKeys lg now expiredKeys s; Some ([], s') }
             else do { res \<leftarrow> intersect_sets iter sets; Some (res, s) }))"

definition SInterCard ::
  "'w logger \<Rightarrow> time \<Rightarrow> set_order \<Rightarrow> string list \<Rightarrow> int \<Rightarrow> SetStorage \<times> 'w \<Rightarrow> (int \<times> SetStorage \<times> 'w) option" where
  "SInterCard lg now iter keys limit s = do {
     (res, s') \<leftarrow> SInter lg now iter keys s;
     Some (if 0 < limit \<and> limit < int (length res) then limit else int (length res), s') }"

text \<open>
  The loop of \<open>sInterStoreNoLockAndNoWal\<close> over the keys: an expired key is deleted and skipped; the flag
  is \<^term>\<open>False\<close> when it returned at a missing key.
\<close>

fun store_collect ::
  "time \<Rightarrow> string list \<Rightarrow> bytes set list \<Rightarrow> SetStorage \<Rightarrow> (bool \<times> bytes set list \<times> SetStorage) option" where
  "store_collect now [] sets e = Some (True, sets, e)"
| "store_collect now (k # ks) sets e =
     (case data e k of
        None \<Rightarrow> Some (False, sets, e)
      | Some v \<Rightarrow>
          if expired (set_expiresAt v) now then do { e' \<leftarrow> deleteNoLock k e; store_collect now ks sets e' }
          else store_collect now ks (sets @ [members v]) e)"

definition store_members :: "time \<Rightarrow> string \<Rightarrow> bytes set \<Rightarrow> SetStorage \<Rightarrow> SetStorage" where
  "store_members now dstKey mSet e =
     (if 0 < card mSet then e\<lparr>data := (data e)(dstKey \<mapsto> NewSetValue mSet now None)\<rparr> else e)"

definition sInterStoreNoLockAndNoWal ::
  "time \<Rightarrow> set_order \<Rightarrow> string \<Rightarrow> string list \<Rightarrow> SetStorage \<Rightarrow> SetStorage option" where
  "sInterStoreNoLockAndNoWal now iter dstKey keys e = do {
     e1 \<leftarrow> deleteNoLock dstKey e;
     if keys = [] then Some e1
     else do {
       (complete, sets, e2) \<leftarrow> store_collect now keys [] e1;
       if \<not> complete then Some e2
       else do { res \<leftarrow> intersect_sets iter sets; Some (store_members now dstKey (set res) e2) } } }"

text \<open>
  The storing operations read under the read lock at \<open>now\<close>, then store under the write lock at \<open>now'\<close>.
\<close>

definition set_logged ::
  "'w logger \<Rightarrow> string \<Rightarrow> string \<Rightarrow> string list \<Rightarrow> int \<Rightarrow> SetStorage \<times> 'w \<Rightarrow> (goerr + int) \<times> SetStorage \<times> 'w" where
  "set_logged lg action dstKey keys n = (\<lambda>(e, w).
     (case lg ''set'' action (PathEscape dstKey # map PathEscape keys) w of
        (Some err, w') \<Rightarrow> (Inl err, e, w')
      | (None, w') \<Rightarrow> (Inr n, e, w')))"

definition SInterStore ::
  "'w logger \<Rightarrow> time \<Rightarrow> time \<Rightarrow> set_order \<Rightarrow> string \<Rightarrow> string list \<Rightarrow> SetStorage \<times> 'w \<Rightarrow>
   ((goerr + int) \<times> SetStorage \<times> 'w) option" where
  "SInterStore lg now now' iter dstKey keys s = do {
     (res, (e, w)) \<leftarrow> SInter lg now iter keys s;
     e' \<leftarrow> sInterStoreNoLockAndNoWal now' iter dstKey keys e;
     Some (set_logged lg ''SINTERSTORE'' dstKey keys (int (length res)) (e', w)) }"

fun union_collect ::
  "time \<Rightarrow> (string \<rightharpoonup> SetValue) \<Rightarrow> string list \<Rightarrow> bytes set \<Rightarrow> string list \<Rightarrow> bytes set \<times> string list" where
  "union_collect now m [] tempSet expiredKeys = (tempSet, expiredKeys)"
| "union_collect now m (k # ks) tempSet expiredKeys =
     (case m k of
        None \<Rightarrow> union_collect now m ks tempSet expiredKeys
      | Some v \<Rightarrow>
          if expired (set_expiresAt v) now then union_collect now m ks tempSet (expiredKeys @ [k])
          else union_collect now m ks (tempSet \<union> members v) expiredKeys)"

definition SUnion ::
  "'w logger \<Rightarrow> time \<Rightarrow> set_order \<Rightarrow> string list \<Rightarrow> SetStorage \<times> 'w \<Rightarrow> (bytes list \<times> SetStorage \<times> 'w) option" where
  "SUnion lg now iter keys s =
     (case union_collect now (data (fst s)) keys {} [] of (tempSet, expiredKeys) \<Rightarrow> do {
        s' \<leftarrow> (if expiredKeys \<noteq> [] then set_deleteExpiredKeys lg now expiredKeys s else Some s);
        Some (iter tempSet, s') })"

fun union_store_loop :: "time \<Rightarrow> string list \<Rightarrow> bytes set \<Rightarrow> SetStorage \<Rightarrow> (bytes set \<times> SetStorage) option" where
  "union_store_loop now [] mSet e = Some (mSet, e)"
| "union_store_loop now (k # ks) mSet e =
     (case data e k of
        None \<Rightarrow> union_store_loop now ks mSet e
      | Some v \<Rightarrow>
          if expired (set_expiresAt v) now then do { e' \<leftarrow> deleteNoLock k e; union_store_loop now ks mSet e' }
          else union_store_loop now ks (mSet \<union> members v) e)"

definition sUnionStoreNoLockAndNoWal :: "time \<Rightarrow> string \<Rightarrow> string list \<Rightarrow> SetStorage \<Rightarrow> SetStorage option" where
  "sUnionStoreNoLockAndNoWal now dstKey keys e = do {
     e1 \<leftarrow> deleteNoLock dstKey e;
     (mSet, e2) \<leftarrow> union_store_loop now keys {} e1;
     Some (store_members now dstKey mSet e2) }"

definition SUnionStore ::
  "'w logger \<Rightarrow> time \<Rightarrow> time \<Rightarrow> set_order \<Rightarrow> string \<Rightarrow> string list \<Rightarrow> SetStorage \<times> 'w \<Rightarrow>
   ((goerr + int) \<times> SetStorage \<times> 'w) option" where
  "SUnionStore lg now now' iter dstKey keys s = do {
     (res, (e, w)) \<leftarrow> SUnion lg now iter keys s;
     e' \<leftarrow> sUnionStoreNoLockAndNoWal now' dstKey keys e;
     Some (set_logged lg ''SUNIONSTORE'' dstKey keys (int (length res)) (e', w)) }"

definition is_stale_key :: "time \<Rightarrow> (string \<rightharpoonup> SetValue) \<Rightarrow> string \<Rightarrow> bool" where
  "is_stale_key now m k = (case m k of None \<Rightarrow> False | Some v \<Rightarrow> expired (set_expiresAt v) now)"

fun diff_loop :: "time \<Rightarrow> (string \<rightharpoonup> SetValue) \<Rightarrow> string list \<Rightarrow> bytes set \<Rightarrow> bytes set" where
  "diff_loop now m [] tempSet = tempSet"
| "diff_loop now m (k # ks) tempSet =
     (case m k of
        None \<Rightarrow> diff_loop now m ks tempSet
      | Some v \<Rightarrow>
          if expired (set_expiresAt v) now then diff_loop now m ks tempSet
          else diff_loop now m ks (tempSet - members v))"

definition SDiff ::
  "'w logger \<Rightarrow> time \<Rightarrow> set_order \<Rightarrow> string list \<Rightarrow> SetStorage \<times> 'w \<Rightarrow> (bytes list \<times> SetStorage \<times> 'w) option" where
  "SDiff lg now iter keys s =
     (case keys of
        [] \<Rightarrow> Some ([], s)
      | firstKey # rest \<Rightarrow>
          (let expiredKeys = filter (is_stale_key now (data (fst s))) keys in do {
             s' \<leftarrow> (if expiredKeys \<noteq> [] then set_deleteExpiredKeys lg now expiredKeys s else Some s);
             if expiredKeys \<noteq> [] \<and> is_stale_key now (data (fst s)) firstKey then Some ([], s')
             else
               (case data (fst s') firstKey of
                  None \<Rightarrow> Some ([], s')
                | Some v \<Rightarrow>
                    if expired (set_expiresAt v) now then Some ([], s')
                    else Some (iter (diff_loop now (data (fst s')) rest (members v)), s')) }))"

fun diff_store_loop :: "time \<Rightarrow> string list \<Rightarrow> bytes set \<Rightarrow> SetStorage \<Rightarrow> (bytes set \<times> SetStorage) option" where
  "diff_store_loop now [] mSet e = Some (mSet, e)"
| "diff_store_loop now (k # ks) mSet e =
     (case data e k of
        None \<Rightarrow> diff_store_loop now ks mSet e
      | Some v \<Rightarrow>
          if expired (set_expiresAt v) now then do { e' \<leftarrow> deleteNoLock k e; diff_store_loop now ks mSet e' }
          else diff_store_loop now ks (mSet - members v) e)"

definition sDiffStoreNoLockAndNoWal :: "time \<Rightarrow> string \<Rightarrow> string list \<Rightarrow> SetStorage \<Rightarrow> SetStorage option" where
  "sDiffStoreNoLockAndNoWal now dstKey keys e = do {
     e1 \<leftarrow> deleteNoLock dstKey e;
     (case keys of
        [] \<Rightarrow> Some e1
      | firstKey # rest \<Rightarrow>
          (case data e1 firstKey of
             None \<Rightarrow> Some e1
           | Some v \<Rightarrow>
               if expired (set_expiresAt v) now then deleteNoLock firstKey e1
               else do {
                 (mSet, e2) \<leftarrow> diff_store_loop now rest (members v) e1;
                 Some (store_members now dstKey mSet e2) })) }"

definition SDiffStore ::
  "'w logger \<Rightarrow> time \<Rightarrow> time \<Rightarrow> set_order \<Rightarrow> string \<Rightarrow> string list \<Rightarrow> SetStorage \<times> 'w \<Rightarrow>
   ((goerr + int) \<times> SetStorage \<times> 'w) option" where
  "SDiffStore lg now now' iter dstKey keys s = do {
     (res, (e, w)) \<leftarrow> SDiff lg now iter keys s;
     e' \<leftarrow> sDiffStoreNoLockAndNoWal now' dstKey keys e;
     Some (set_logged lg ''SDIFFSTORE'' dstKey keys (int (length res)) (e', w)) }"

subsection \<open>Deleting, expiry, patterns\<close>

definition set_Delete ::
  "'w logger \<Rightarrow> string \<Rightarrow> SetStorage \<times> 'w \<Rightarrow> (goerr option \<times> SetStorage \<times> 'w) option" where
  "set_Delete lg key s = engine_Delete lg ''set'' key s"

definition set_Reset :: "SetStorage \<Rightarrow> SetStorage" where
  "set_Reset e = e\<lparr>data := Map.empty, expirations := empty_heap, expirationMap := Map.empty\<rparr>"

definition set_Clear :: "SetStorage \<Rightarrow> SetStorage" where
  "set_Clear e = clearNoLock e"

definition set_CleanupExpired :: "'w logger \<Rightarrow> time \<Rightarrow> SetStorage \<times> 'w \<Rightarrow> (SetStorage \<times> 'w) option" where
  "set_CleanupExpired lg now s = logged_cleanup lg ''set'' now s"

definition set_KeyCount :: "SetStorage \<Rightarrow> nat" where
  "set_KeyCount e = card (dom (data e))"

definition set_MemoryUsageBytes :: "SetStorage \<Rightarrow> int" where
  "set_MemoryUsageBytes e =
     wrap64 (\<Sum>k \<in> dom (data e). int (16 + length k) + 40 +
       (\<Sum>b \<in> members (the (data e k)). int (16 + length b) + 40))"

definition set_count ::
  "'w logger \<Rightarrow> time \<Rightarrow> string list \<Rightarrow> (string \<Rightarrow> bool) \<Rightarrow> SetStorage \<times> 'w \<Rightarrow> (int \<times> SetStorage \<times> 'w) option" where
  "set_count lg now ks p s = sweep_count lg ''set'' set_expiresAt now ks p s"

definition set_find ::
  "'w logger \<Rightarrow> time \<Rightarrow> set_order \<Rightarrow> string list \<Rightarrow> (string \<Rightarrow> bool) \<Rightarrow> SetStorage \<times> 'w \<Rightarrow>
   ((string \<rightharpoonup> bytes list) \<times> SetStorage \<times> 'w) option" where
  "set_find lg now iter ks p s = sweep_find lg ''set'' set_expiresAt (\<lambda>v. iter (members v)) now ks p s"

definition set_CountByPrefix where
  "set_CountByPrefix lg now ks pre s = set_count lg now ks (\<lambda>k. HasPrefix k pre) s"

definition set_CountBySuffix where
  "set_CountBySuffix lg now ks suf s = set_count lg now ks (\<lambda>k. HasSuffix k suf) s"

definition set_CountByRegex ::
  "(string \<Rightarrow> goerr + (string \<Rightarrow> bool)) \<Rightarrow> 'w logger \<Rightarrow> time \<Rightarrow> string list \<Rightarrow> string \<Rightarrow> SetStorage \<times> 'w \<Rightarrow>
   ((goerr + int) \<times> SetStorage \<times> 'w) option" where
  "set_CountByRegex compile lg now ks regex s =
     (case compile regex of
        Inl err \<Rightarrow> Some (Inl (RegexError regex err), s)
      | Inr re \<Rightarrow> do { (n, s') \<leftarrow> set_count lg now ks re s; Some (Inr n, s') })"

definition set_FindByPrefix where
  "set_FindByPrefix lg now iter ks pre s = set_find lg now iter ks (\<lambda>k. HasPrefix k pre) s"

definition set_FindBySuffix where
  "set_FindBySuffix lg now iter ks suf s = set_find lg now iter ks (\<lambda>k. HasSuffix k suf) s"

definition set_FindByRegex ::
  "(string \<Rightarrow> goerr + (string \<Rightarrow> bool)) \<Rightarrow> 'w logger \<Rightarrow> time \<Rightarrow> set_order \<Rightarrow> string list \<Rightarrow> string \<Rightarrow> SetStorage \<times> 'w \<Rightarrow>
   ((goerr + (string \<rightharpoonup> bytes list)) \<times> SetStorage \<times> 'w) option" where
  "set_FindByRegex compile lg now iter ks regex s =
     (case compile regex of
        Inl err \<Rightarrow> Some (Inl (RegexError regex err), s)
      | Inr re \<Rightarrow> do { (m, s') \<leftarrow> set_find lg now iter ks re s; Some (Inr m, s') })"

definition set_deleteByPrefixNoLock where
  "set_deleteByPrefixNoLock lg now ks pre s =
     delete_loop lg ''set'' set_expiresAt now (\<lambda>k. HasPrefix k pre) ks 0 s"

definition set_deleteBySuffixNoLock where
  "set_deleteBySuffixNoLock lg now ks suf s =
     delete_loop lg ''set'' set_expiresAt now (\<lambda>k. HasSuffix k suf) ks 0 s"

definition set_deleteByRegexNoLock where
  "set_deleteByRegexNoLock lg now ks re s = delete_loop lg ''set'' set_expiresAt now re ks 0 s"

definition set_DeleteByPrefix where
  "set_DeleteByPrefix lg now ks pre s = set_deleteByPrefixNoLock lg now ks pre s"

definition set_DeleteBySuffix where
  "set_DeleteBySuffix lg now ks suf s = set_deleteBySuffixNoLock lg now ks suf s"

definition set_DeleteByRegex ::
  "(string \<Rightarrow> goerr + (string \<Rightarrow> bool)) \<Rightarrow> 'w logger \<Rightarrow> time \<Rightarrow> string list \<Rightarrow> string \<Rightarrow> SetStorage \<times> 'w \<Rightarrow>
   ((int \<times> goerr option) \<times> SetStorage \<times> 'w) option" where
  "set_DeleteByRegex compile lg now ks regex s =
     (case compile regex of
        Inl err \<Rightarrow> Some ((0, Some (RegexError regex err)), s)
      | Inr re \<Rightarrow> set_deleteByRegexNoLock lg now ks re s)"

subsection \<open>Recovery\<close>

text \<open>The members that decode; a member that does not is left out.\<close>

definition decode_members :: "string list \<Rightarrow> bytes list" where
  "decode_members raws =
     List.map_filter (\<lambda>raw. case DecodeString raw of (b, ok) \<Rightarrow> if ok then Some b else None) raws"

definition set_ProcessWalEntry :: "time \<Rightarrow> set_order \<Rightarrow> string \<Rightarrow> string list \<Rightarrow> SetStorage \<Rightarrow> SetStorage option" where
  "set_ProcessWalEntry now iter action args e =
     (if action = ''SADD'' then
        (case args of
           a # expiresStr # ms \<Rightarrow>
             map_option snd (sAddNoLockAndNoWal now (unescape_or_empty a) (decode_members ms)
               (if expiresStr = ''PERSISTENT'' then None else ParseRFC3339 expiresStr) e)
         | _ \<Rightarrow> Some e)
      else if action = ''SREM'' \<or> action = ''SPOP'' then
        (case args of
           a # ms \<Rightarrow> map_option snd (sRemNoLockAndNoWal (unescape_or_empty a) (decode_members ms) e)
         | _ \<Rightarrow> Some e)
      else if action = ''SMOVE'' then
        (case args of
           a # b # c # _ \<Rightarrow>
             (case DecodeString c of (m, ok) \<Rightarrow>
                if ok then sMoveNoLockAndNoWal now (unescape_or_empty a) (unescape_or_empty b) m e else Some e)
         | _ \<Rightarrow> Some e)
      else if action = ''SINTERSTORE'' then
        (case args of
           a # ks \<Rightarrow> sInterStoreNoLockAndNoWal now iter (unescape_or_empty a) (map unescape_or_empty ks) e
         | _ \<Rightarrow> Some e)
      else if action = ''SUNIONSTORE'' then
        (case args of
           a # ks \<Rightarrow> sUnionStoreNoLockAndNoWal now (unescape_or_empty a) (map unescape_or_empty ks) e
         | _ \<Rightarrow> Some e)
      else if action = ''SDIFFSTORE'' then
        (case args of
           a # ks \<Rightarrow> sDiffStoreNoLockAndNoWal now (unescape_or_empty a) (map unescape_or_empty ks) e
         | _ \<Rightarrow> Some e)
      else if action = ''DELETE'' then
        (case args of a # _ \<Rightarrow> deleteNoLock (unescape_or_empty a) e | _ \<Rightarrow> Some e)
      else Some e)"

end
