(* ===== verification/SetSpec.thy ===== *)
theory SetSpec
  imports SetStorage KvRefine
begin

text \<open>
  The specification of the set engine.  Go leaves the order of the members open, and SPOP and SRANDMEMBER
  choose by it, so the specification is a relation: \<open>set_ok compile now op A r A'\<close> says that \<open>op\<close> may
  answer \<open>r\<close> and take the clients' view from \<open>A\<close> to \<open>A'\<close>.
\<close>

datatype combination = KInter | KUnion | KDiff

datatype set_op =
    OAdd string "bytes list" "time option"
  | ORem string "bytes list"
  | OPop string int
  | OMove string string bytes
  | OIsMember string bytes
  | OMIsMember string "bytes list"
  | OMembers string
  | OCard string
  | ORandMember string int
  | OCombine combination "string list"
  | OInterCard "string list" int
  | OStore combination string "string list"
  | ODelete string
  | OCleanupExpired
  | ODeleteBy pattern
  | OFind pattern
  | OCount pattern
  | OClear
  | OReset

datatype set_res =
    RErr "goerr option"
  | RInt "goerr + int"
  | RBool "goerr + bool"
  | RBools "bool list"
  | RElems "goerr + bytes list"
  | RFound "goerr + (string \<rightharpoonup> bytes list)"
  | RDel int "goerr option"

definition set_combine ::
  "'w logger \<Rightarrow> time \<Rightarrow> set_order \<Rightarrow> combination \<Rightarrow> string list \<Rightarrow> SetStorage \<times> 'w \<Rightarrow>
   (bytes list \<times> SetStorage \<times> 'w) option" where
  "set_combine lg now iter c keys s =
     (case c of KInter \<Rightarrow> SInter lg now iter keys s | KUnion \<Rightarrow> SUnion lg now iter keys s
      | KDiff \<Rightarrow> SDiff lg now iter keys s)"

definition set_store ::
  "'w logger \<Rightarrow> time \<Rightarrow> time \<Rightarrow> set_order \<Rightarrow> combination \<Rightarrow> string \<Rightarrow> string list \<Rightarrow> SetStorage \<times> 'w \<Rightarrow>
   ((goerr + int) \<times> SetStorage \<times> 'w) option" where
  "set_store lg now now' iter c dst keys s =
     (case c of KInter \<Rightarrow> SInterStore lg now now' iter dst keys s | KUnion \<Rightarrow> SUnionStore lg now now' iter dst keys s
      | KDiff \<Rightarrow> SDiffStore lg now now' iter dst keys s)"

text \<open>
  The operations of \<open>SetStorageInterface\<close>.  A storing operation reads the clock under the read lock, at
  \<open>now\<close>, and once more under the write lock, at \<open>later\<close>; the other operations read it at \<open>now\<close>.
\<close>

fun set_apply ::
  "regexp_compile \<Rightarrow> 'w logger \<Rightarrow> time \<Rightarrow> time \<Rightarrow> (nat \<Rightarrow> int) \<Rightarrow> set_order \<Rightarrow> string list \<Rightarrow> set_op \<Rightarrow> SetStorage \<times> 'w \<Rightarrow>
   (set_res \<times> SetStorage \<times> 'w) option" where
  "set_apply compile lg now later clock iter ks (OAdd k ms x) s = map_option (map_prod RInt id) (SAdd lg now k ms x s)"
| "set_apply compile lg now later clock iter ks (ORem k ms) s = map_option (map_prod RInt id) (SRem lg now k ms s)"
| "set_apply compile lg now later clock iter ks (OPop k n) s = map_option (map_prod RElems id) (SPop lg now iter k n s)"
| "set_apply compile lg now later clock iter ks (OMove k k' m) s = map_option (map_prod RBool id) (SMove lg now k k' m s)"
| "set_apply compile lg now later clock iter ks (OIsMember k m) s = map_option (map_prod (RBool \<circ> Inr) id) (SIsMember lg now k m s)"
| "set_apply compile lg now later clock iter ks (OMIsMember k ms) s = map_option (map_prod RBools id) (SMIsMember lg now k ms s)"
| "set_apply compile lg now later clock iter ks (OMembers k) s = map_option (map_prod (RElems \<circ> Inr) id) (SMembers lg now iter k s)"
| "set_apply compile lg now later clock iter ks (OCard k) s = map_option (map_prod (RInt \<circ> Inr) id) (SCard lg now k s)"
| "set_apply compile lg now later clock iter ks (ORandMember k n) s =
     map_option (map_prod (RElems \<circ> Inr) id) (SRandMember lg now clock iter k n s)"
| "set_apply compile lg now later clock iter ks (OCombine c keys) s =
     map_option (map_prod (RElems \<circ> Inr) id) (set_combine lg now iter c keys s)"
| "set_apply compile lg now later clock iter ks (OInterCard keys limit) s =
     map_option (map_prod (RInt \<circ> Inr) id) (SInterCard lg now iter keys limit s)"
| "set_apply compile lg now later clock iter ks (OStore c dst keys) s =
     map_option (map_prod RInt id) (set_store lg now later iter c dst keys s)"
| "set_apply compile lg now later clock iter ks (ODelete k) s = map_option (map_prod RErr id) (set_Delete lg k s)"
| "set_apply compile lg now later clock iter ks OCleanupExpired s = map_option (Pair (RErr None)) (set_CleanupExpired lg now s)"
| "set_apply compile lg now later clock iter ks (ODeleteBy (Prefix p)) s =
     map_option (map_prod (\<lambda>(n, err). RDel n err) id) (set_DeleteByPrefix lg now ks p s)"
| "set_apply compile lg now later clock iter ks (ODeleteBy (Suffix p)) s =
     map_option (map_prod (\<lambda>(n, err). RDel n err) id) (set_DeleteBySuffix lg now ks p s)"
| "set_apply compile lg now later clock iter ks (ODeleteBy (Regex p)) s =
     map_option (map_prod (\<lambda>(n, err). RDel n err) id) (set_DeleteByRegex compile lg now ks p s)"
| "set_apply compile lg now later clock iter ks (OFind (Prefix p)) s =
     map_option (map_prod (RFound \<circ> Inr) id) (set_FindByPrefix lg now iter ks p s)"
| "set_apply compile lg now later clock iter ks (OFind (Suffix p)) s =
     map_option (map_prod (RFound \<circ> Inr) id) (set_FindBySuffix lg now iter ks p s)"
| "set_apply compile lg now later clock iter ks (OFind (Regex p)) s =
     map_option (map_prod RFound id) (set_FindByRegex compile lg now iter ks p s)"
| "set_apply compile lg now later clock iter ks (OCount (Prefix p)) s =
     map_option (map_prod (RInt \<circ> Inr) id) (set_CountByPrefix lg now ks p s)"
| "set_apply compile lg now later clock iter ks (OCount (Suffix p)) s =
     map_option (map_prod (RInt \<circ> Inr) id) (set_CountBySuffix lg now ks p s)"
| "set_apply compile lg now later clock iter ks (OCount (Regex p)) s =
     map_option (map_prod RInt id) (set_CountByRegex compile lg now ks p s)"
| "set_apply compile lg now later clock iter ks OClear (e, w) = Some (RErr None, set_Clear e, w)"
| "set_apply compile lg now later clock iter ks OReset (e, w) = Some (RErr None, set_Reset e, w)"

subsection \<open>The specification\<close>

type_synonym set_map = "string \<rightharpoonup> bytes set \<times> time option"

definition set_abs :: "time \<Rightarrow> SetStorage \<Rightarrow> set_map" where
  "set_abs now e = visible set_expiresAt (\<lambda>v. (members v, set_expiresAt v)) now e"

definition mem :: "set_map \<Rightarrow> string \<Rightarrow> bytes set" where
  "mem A k = (case A k of None \<Rightarrow> {} | Some (S, x) \<Rightarrow> S)"

definition ttl :: "set_map \<Rightarrow> string \<Rightarrow> time option" where
  "ttl A k = (case A k of None \<Rightarrow> None | Some (S, x) \<Rightarrow> x)"

text \<open>A key whose last member goes goes too.\<close>

definition shrink :: "string \<Rightarrow> bytes set \<Rightarrow> set_map \<Rightarrow> set_map" where
  "shrink k M A = (case A k of None \<Rightarrow> A | Some (S, x) \<Rightarrow> A(k := if S - M = {} then None else Some (S - M, x)))"

definition combine :: "combination \<Rightarrow> set_map \<Rightarrow> string list \<Rightarrow> bytes set" where
  "combine c A keys =
     (case c of
        KInter \<Rightarrow> if keys = [] \<or> (\<exists>k \<in> set keys. A k = None) then {} else (\<Inter>k \<in> set keys. mem A k)
      | KUnion \<Rightarrow> (\<Union>k \<in> set keys. mem A k)
      | KDiff \<Rightarrow> (case keys of [] \<Rightarrow> {} | k # ks \<Rightarrow> mem A k - (\<Union>j \<in> set ks. mem A j)))"

definition listing_of :: "'a list \<Rightarrow> 'a set \<Rightarrow> bool" where
  "listing_of xs S \<longleftrightarrow> distinct xs \<and> set xs = S"

definition found :: "(string \<Rightarrow> bool) \<Rightarrow> set_map \<Rightarrow> (string \<rightharpoonup> bytes list) \<Rightarrow> bool" where
  "found m A f \<longleftrightarrow> (\<forall>k. rel_option listing_of (f k) (if m k then map_option fst (A k) else None))"

text \<open>
  The storing operations answer the size of the combination of the keys and leave that combination, when
  it has members, at the destination (\<open>API_CONTRACT.md\<close>: "Stores result, returns new set size").
\<close>

fun set_ok :: "regexp_compile \<Rightarrow> time \<Rightarrow> set_op \<Rightarrow> set_map \<Rightarrow> set_res \<Rightarrow> set_map \<Rightarrow> bool" where
  "set_ok compile now (OAdd k ms x) A r A' =
     (let x' = (if x \<noteq> None then x else ttl A k)
      in r = RInt (Inr (int (card (set ms - mem A k)))) \<and>
         A' = A(k := if expired x' now then None else Some (mem A k \<union> set ms, x')))"
| "set_ok compile now (ORem k ms) A r A' =
     (r = RInt (Inr (int (card (mem A k \<inter> set ms)))) \<and> A' = shrink k (set ms) A)"
| "set_ok compile now (OPop k n) A r A' =
     (if mem A k = {} then r = RElems (Inl (not_found k ''SPOP'')) \<and> A' = A
      else (\<exists>ps. r = RElems (Inr ps) \<and> distinct ps \<and> set ps \<subseteq> mem A k \<and>
             length ps = nat (min n (int (card (mem A k)))) \<and> A' = shrink k (set ps) A))"
| "set_ok compile now (OMove k k' m) A r A' =
     (if m \<notin> mem A k then r = RBool (Inr False) \<and> A' = A
      else r = RBool (Inr True) \<and>
           (let A1 = shrink k {m} A in A' = A1(k' \<mapsto> (insert m (mem A1 k'), ttl A1 k'))))"
| "set_ok compile now (OIsMember k m) A r A' = (r = RBool (Inr (m \<in> mem A k)) \<and> A' = A)"
| "set_ok compile now (OMIsMember k ms) A r A' = (r = RBools (map (\<lambda>m. m \<in> mem A k) ms) \<and> A' = A)"
| "set_ok compile now (OMembers k) A r A' = ((\<exists>xs. r = RElems (Inr xs) \<and> listing_of xs (mem A k)) \<and> A' = A)"
| "set_ok compile now (OCard k) A r A' = (r = RInt (Inr (int (card (mem A k)))) \<and> A' = A)"
| "set_ok compile now (ORandMember k n) A r A' =
     ((\<exists>xs. r = RElems (Inr xs) \<and> set xs \<subseteq> mem A k \<and> (0 \<le> n \<longrightarrow> distinct xs) \<and>
        length xs = (if mem A k = {} then 0 else nat (if n < 0 then - n else min n (int (card (mem A k)))))) \<and> A' = A)"
| "set_ok compile now (OCombine c keys) A r A' =
     ((\<exists>xs. r = RElems (Inr xs) \<and> listing_of xs (combine c A keys)) \<and> A' = A)"
| "set_ok compile now (OInterCard keys limit) A r A' =
     (r = RInt (Inr (let n = int (card (combine KInter A keys)) in if 0 < limit then min limit n else n)) \<and> A' = A)"
| "set_ok compile now (OStore c dst keys) A r A' =
     (let S = combine c A keys
      in r = RInt (Inr (int (card S))) \<and> A' = A(dst := if S = {} then None else Some (S, None)))"
| "set_ok compile now (ODelete k) A r A' = (r = RErr None \<and> A' = A(k := None))"
| "set_ok compile now OCleanupExpired A r A' =
     (r = RErr None \<and> A' = map_keep (\<lambda>k a. \<forall>t. snd a = Some t \<longrightarrow> now < t) A)"
| "set_ok compile now (ODeleteBy p) A r A' =
     (case matcher compile p of
        Inl err \<Rightarrow> r = RDel 0 (Some err) \<and> A' = A
      | Inr m \<Rightarrow> r = RDel (int (card {k \<in> dom A. m k})) None \<and> A' = A |` {k. \<not> m k})"
| "set_ok compile now (OFind p) A r A' =
     (case matcher compile p of
        Inl err \<Rightarrow> r = RFound (Inl err) \<and> A' = A
      | Inr m \<Rightarrow> (\<exists>f. r = RFound (Inr f) \<and> found m A f) \<and> A' = A)"
| "set_ok compile now (OCount p) A r A' =
     (case matcher compile p of
        Inl err \<Rightarrow> r = RInt (Inl err) \<and> A' = A
      | Inr m \<Rightarrow> r = RInt (Inr (int (card {k \<in> dom A. m k}))) \<and> A' = A)"
| "set_ok compile now OClear A r A' = (r = RErr None \<and> A' = Map.empty)"
| "set_ok compile now OReset A r A' = (r = RErr None \<and> A' = Map.empty)"

text \<open>
  The requests on which the engine panics.  SRANDMEMBER does when the slice for its answer cannot be made:
  the key holds members and the count is the least \<open>int\<close> or asks for more than the address space holds.
  SINTERSTORE does when it is asked to intersect keys that are all present at its first reading of the
  clock and all expired at the second: it drops them one by one and takes the first of no sets.  (A key
  named twice, or the destination, is missing when its turn comes and ends the second pass early.)
\<close>

fun set_panics :: "time \<Rightarrow> set_op \<Rightarrow> set_map \<Rightarrow> bool" where
  "set_panics later (ORandMember k n) A \<longleftrightarrow> n \<noteq> 0 \<and> mem A k \<noteq> {} \<and>
     \<not> make_ok (if 0 \<le> n then min n (int (card (mem A k))) else wrap64 (- n))"
| "set_panics later (OStore KInter dst keys) A \<longleftrightarrow> keys \<noteq> [] \<and> distinct keys \<and> dst \<notin> set keys \<and>
     (\<forall>k \<in> set keys. \<exists>S t. A k = Some (S, Some t) \<and> t < later)"
| "set_panics later op A \<longleftrightarrow> False"

text \<open>
  The requests that \<open>set_ok\<close> speaks of: an SRANDMEMBER whose count is an \<open>int\<close>, and a storing operation
  whose destination is not among its sources and whose sources do not run out between the two readings.
\<close>

fun set_regular :: "time \<Rightarrow> set_op \<Rightarrow> set_map \<Rightarrow> bool" where
  "set_regular later (ORandMember k n) A \<longleftrightarrow> int64_range n"
| "set_regular later (OStore c dst keys) A \<longleftrightarrow> dst \<notin> set keys \<and>
     (\<forall>k \<in> set keys. \<forall>S t. A k = Some (S, Some t) \<longrightarrow> later \<le> t)"
| "set_regular later op A \<longleftrightarrow> True"

end
