(* ===== verification/SetRefine.thy ===== *)
theory SetRefine
  imports SetSpec
begin

text \<open>
  The set engine meets its specification.  Each operation is treated once, with any logger: it returns,
  keeps the invariant \<open>set_inv\<close>, and, when the logger does not fail, its answer and the new view are ones
  that \<open>set_ok\<close> allows.
\<close>

definition set_inv :: "SetStorage \<Rightarrow> bool" where
  "set_inv e \<longleftrightarrow> engine_inv set_expiresAt e \<and> (\<forall>k v. data e k = Some v \<longrightarrow> finite (members v))"

lemma set_inv_engine: "set_inv e \<Longrightarrow> engine_inv set_expiresAt e"
  by (simp add: set_inv_def)

lemma set_inv_finite: "set_inv e \<Longrightarrow> data e k = Some v \<Longrightarrow> finite (members v)"
  by (simp add: set_inv_def)

lemma set_inv_new [simp]: "set_inv new_engine"
  by (simp add: set_inv_def)

lemma set_inv_le: "engine_inv set_expiresAt e' \<Longrightarrow> data e' \<subseteq>\<^sub>m data e \<Longrightarrow> set_inv e \<Longrightarrow> set_inv e'"
  unfolding set_inv_def map_le_def by (metis domI)

lemma evicted_set_inv: "evicted set_expiresAt now e e' \<Longrightarrow> set_inv e \<Longrightarrow> set_inv e'"
  unfolding evicted_def using set_inv_le by blast

lemma evicted_set_abs: "evicted set_expiresAt now e e' \<Longrightarrow> set_abs now e' = set_abs now e"
  by (simp add: set_abs_def evicted_visible)

lemma set_inv_put:
  "engine_inv set_expiresAt e' \<Longrightarrow> data e' = (data e)(k \<mapsto> v) \<Longrightarrow> finite (members v) \<Longrightarrow> set_inv e \<Longrightarrow> set_inv e'"
  by (auto simp: set_inv_def)

lemma set_inv_del:
  "engine_inv set_expiresAt e' \<Longrightarrow> data e' = (data e)(k := None) \<Longrightarrow> set_inv e \<Longrightarrow> set_inv e'"
  by (auto simp: set_inv_def)

lemma set_abs_put:
  "data e' = (data e)(k \<mapsto> v) \<Longrightarrow>
   set_abs now e' = (set_abs now e)(k := if expired (set_expiresAt v) now then None else Some (members v, set_expiresAt v))"
  unfolding set_abs_def by (rule visible_put)

lemma set_abs_delete: "data e' = (data e)(k := None) \<Longrightarrow> set_abs now e' = (set_abs now e)(k := None)"
  unfolding set_abs_def by (rule visible_delete)

lemma live_set_abs:
  "live_at set_expiresAt now k e \<Longrightarrow> set_abs now e k = map_option (\<lambda>v. (members v, set_expiresAt v)) (data e k)"
  unfolding set_abs_def by (rule live_visible)

lemma live_mem:
  "live_at set_expiresAt now k e \<Longrightarrow> mem (set_abs now e) k = (case data e k of None \<Rightarrow> {} | Some v \<Rightarrow> members v)"
  "live_at set_expiresAt now k e \<Longrightarrow> ttl (set_abs now e) k = Option.bind (data e k) set_expiresAt"
  by (simp_all add: live_set_abs mem_def ttl_def split: option.splits)

lemma stale_set_abs: "stale set_expiresAt now (data e) k \<Longrightarrow> set_abs now e k = None"
  by (simp add: set_abs_def visible_None)

lemma finite_mem: "set_inv e \<Longrightarrow> finite (mem (set_abs now e) k)"
  by (auto simp: mem_def set_abs_def set_inv_finite split: option.splits dest!: visible_SomeD)

lemma finite_combine: "set_inv e \<Longrightarrow> finite (combine c (set_abs now e) keys)"
  by (auto simp: combine_def finite_mem split: combination.splits list.splits)

lemma set_evict_ok:
  assumes "set_inv e"
  obtains e1 w1 where "set_evict lg now k (e, w) = Some (e1, w1)" "evicted set_expiresAt now e e1"
    "set_inv e1" "set_abs now e1 = set_abs now e" "live_at set_expiresAt now k e1"
  using evict_ok [OF set_inv_engine [OF assms]] evicted_set_inv [OF _ assms] evicted_set_abs by metis

lemma set_delete_ok:
  assumes "set_inv e"
  obtains e' where "deleteNoLock k e = Some e'" "set_inv e'" "data e' = (data e)(k := None)"
    "set_abs now e' = (set_abs now e)(k := None)"
  using deleteNoLock_ok [OF set_inv_engine [OF assms], of k] set_inv_del [OF _ _ assms] set_abs_delete by metis

lemma set_update_ok:
  assumes "set_inv e" "Option.bind (data e k) set_expiresAt = set_expiresAt v" "finite (members v)"
  shows "set_inv (e\<lparr>data := (data e)(k \<mapsto> v)\<rparr>)"
  using assms by (auto intro!: set_inv_put [of _ e k v] update_ok dest: set_inv_engine)

lemma reliable_no_fail: "reliable_logger lg \<Longrightarrow> lg e a args w = (Some err, w') \<Longrightarrow> False"
  using reliable_logger.no_error [of lg e a args w] by simp

subsection \<open>Adding and removing\<close>

lemma add_loop_eq: "add_loop ms S n = (S \<union> set ms, n + int (card (set ms - S)))"
proof (induction ms S n rule: add_loop.induct)
  case (2 m ms S n)
  show ?case
  proof (cases "m \<in> S")
    case True
    then have "insert m (set ms) - S = set ms - S" "S \<union> insert m (set ms) = S \<union> set ms" by auto
    then show ?thesis using 2 True by simp
  next
    case False
    then have "insert m (set ms) - S = insert m (set ms - insert m S)" by auto
    then have "card (insert m (set ms) - S) = Suc (card (set ms - insert m S))" by simp
    then show ?thesis using 2 False by simp
  qed
qed simp

lemma rem_loop_eq: "finite S \<Longrightarrow> rem_loop ms S n = (S - set ms, n + int (card (S \<inter> set ms)))"
proof (induction ms S n rule: rem_loop.induct)
  case (2 m ms S n)
  show ?case
  proof (cases "m \<in> S")
    case True
    then have "S \<inter> insert m (set ms) = insert m ((S - {m}) \<inter> set ms)" by auto
    then have "card (S \<inter> insert m (set ms)) = Suc (card ((S - {m}) \<inter> set ms))"
      using 2(3) by simp
    then show ?thesis using 2 True by auto
  next
    case False
    then show ?thesis using 2 by (auto simp: Int_insert_right)
  qed
qed simp

lemma pop_loop_eq:
  "length popped < limit \<Longrightarrow> limit \<le> length popped + length ms \<Longrightarrow>
   pop_loop limit ms popped S = (popped @ take (limit - length popped) ms, S - set (take (limit - length popped) ms))"
proof (induction limit ms popped S rule: pop_loop.induct)
  case (2 limit m ms popped S)
  have t: "take (limit - length popped) (m # ms) = m # take (limit - length (popped @ [m])) ms"
    using 2(2) by (simp add: take_Cons')
  show ?case
  proof (cases "length (popped @ [m]) = limit")
    case True
    then have "limit - length popped = 1" by auto
    then show ?thesis using True by auto
  next
    case False
    then have "length (popped @ [m]) < limit" using 2(2) by auto
    then show ?thesis using 2(1) [OF False] 2(3) False t by auto
  qed
qed simp

lemma sAdd_ends:
  assumes "set_inv e" "live_at set_expiresAt now k e"
  shows "ends (sAddNoLockAndNoWal now k ms x e) (\<lambda>(n, e'). set_inv e' \<and> n = int (card (set ms - mem (set_abs now e) k)) \<and>
    (\<exists>v. data e' = (data e)(k \<mapsto> v) \<and> members v = mem (set_abs now e) k \<union> set ms \<and>
      set_expiresAt v = (if x \<noteq> None then x else ttl (set_abs now e) k)))"
proof -
  define val where "val = (case data e k of None \<Rightarrow> NewSetValue {} now x
    | Some v \<Rightarrow> if x \<noteq> None then v\<lparr>set_expiresAt := x\<rparr> else v)"
  define v' where "v' = val\<lparr>members := members val \<union> set ms\<rparr>"
  have m: "members val = mem (set_abs now e) k"
    by (auto simp: val_def NewSetValue_def live_mem [OF assms(2)] split: option.splits)
  have xp: "set_expiresAt v' = (if x \<noteq> None then x else ttl (set_abs now e) k)"
    by (auto simp: v'_def val_def NewSetValue_def live_mem [OF assms(2)] split: option.splits)
  have fin: "finite (members v')" using m finite_mem [OF assms(1)] by (simp add: v'_def)
  have op: "sAddNoLockAndNoWal now k ms x e =
      (let e1 = e\<lparr>data := (data e)(k \<mapsto> v')\<rparr> in
       if x \<noteq> None then do { e2 \<leftarrow> dropExpiration k e1; Some (int (card (set ms - mem (set_abs now e) k)), addExpiration k x e2) }
       else Some (int (card (set ms - mem (set_abs now e) k)), e1))"
    unfolding sAddNoLockAndNoWal_def val_def [symmetric] add_loop_eq v'_def m [symmetric] by simp
  show ?thesis
  proof (cases "x = None")
    case True
    then have "Option.bind (data e k) set_expiresAt = set_expiresAt v'" using xp live_mem(2) [OF assms(2)] by simp
    then show ?thesis
      unfolding op using True set_update_ok [OF assms(1) _ fin] m xp by (auto simp: v'_def)
  next
    case False
    then have "set_expiresAt v' = x" using xp by simp
    show ?thesis
      unfolding op using \<open>set_expiresAt v' = x\<close> False m put_ends [OF set_inv_engine [OF assms(1)], of k v']
      by (auto simp: v'_def elim!: ends_mono intro!: set_inv_put [OF _ _ _ assms(1)] simp: finite_mem [OF assms(1)])
  qed
qed

lemma sRem_ends:
  assumes "set_inv e" "live_at set_expiresAt now k e"
  shows "ends (sRemNoLockAndNoWal k ms e) (\<lambda>(n, e'). set_inv e' \<and> n = int (card (mem (set_abs now e) k \<inter> set ms)) \<and>
    (\<forall>j. live_at set_expiresAt now j e \<longrightarrow> live_at set_expiresAt now j e') \<and>
    set_abs now e' = shrink k (set ms) (set_abs now e))"
proof (cases "data e k")
  case None
  then have "set_abs now e k = None" using live_set_abs [OF assms(2)] by simp
  moreover obtain e' where "deleteNoLock k e = Some e'" "set_inv e'" "data e' = (data e)(k := None)"
      "set_abs now e' = (set_abs now e)(k := None)" using set_delete_ok [OF assms(1)] .
  ultimately show ?thesis
    using None by (simp add: sRemNoLockAndNoWal_def mem_def shrink_def live_at_def fun_upd_idem)
next
  case (Some v)
  have fin: "finite (members v)" using set_inv_finite [OF assms(1) Some] .
  have a: "set_abs now e k = Some (members v, set_expiresAt v)" "mem (set_abs now e) k = members v"
    using live_set_abs [OF assms(2)] Some by (simp_all add: mem_def)
  have nx: "\<not> expired (set_expiresAt v) now" using assms(2) Some by (simp add: live_at_def)
  show ?thesis
  proof (cases "members v - set ms = {}")
    case True
    obtain e' where e': "deleteNoLock k e = Some e'" "set_inv e'" "data e' = (data e)(k := None)"
      "set_abs now e' = (set_abs now e)(k := None)" using set_delete_ok [OF assms(1)] .
    then show ?thesis
      using Some True a by (simp add: sRemNoLockAndNoWal_def rem_loop_eq [OF fin] shrink_def live_at_def)
  next
    case False
    let ?v = "v\<lparr>members := members v - set ms\<rparr>"
    have "set_inv (e\<lparr>data := (data e)(k \<mapsto> ?v)\<rparr>)" using Some fin by (intro set_update_ok [OF assms(1)]) simp_all
    moreover have "set_abs now (e\<lparr>data := (data e)(k \<mapsto> ?v)\<rparr>) = shrink k (set ms) (set_abs now e)"
      using set_abs_put [of "e\<lparr>data := (data e)(k \<mapsto> ?v)\<rparr>" e k ?v now] nx False a by (simp add: shrink_def)
    ultimately show ?thesis
      using Some False a nx by (simp add: sRemNoLockAndNoWal_def rem_loop_eq [OF fin] live_at_def)
  qed
qed

subsection \<open>The operations on one key\<close>

definition set_meets ::
  "regexp_compile \<Rightarrow> 'w logger \<Rightarrow> time \<Rightarrow> set_op \<Rightarrow> SetStorage \<Rightarrow> set_res \<Rightarrow> SetStorage \<Rightarrow> bool" where
  "set_meets compile lg now op e r e' \<longleftrightarrow>
     set_inv e' \<and> (reliable_logger lg \<longrightarrow> set_ok compile now op (set_abs now e) r (set_abs now e'))"

lemma set_meetsI:
  "set_inv e' \<Longrightarrow> set_ok compile now op (set_abs now e) r (set_abs now e') \<Longrightarrow> set_meets compile lg now op e r e'"
  by (simp add: set_meets_def)

lemma set_meets_fail:
  "lg eid a args w = (Some err, w') \<Longrightarrow> set_inv e' \<Longrightarrow> set_meets compile lg now op e r e'"
  by (auto simp: set_meets_def dest: reliable_no_fail)

lemma add_meets:
  assumes "set_inv e"
  shows "ends (SAdd lg now k ms x (e, w)) (\<lambda>(r, e', w'). set_meets compile lg now (OAdd k ms x) e (RInt r) e')"
proof -
  obtain e1 w1 where ev: "set_evict lg now k (e, w) = Some (e1, w1)" and e1: "set_inv e1"
    "set_abs now e1 = set_abs now e" "live_at set_expiresAt now k e1" using set_evict_ok [OF assms] .
  from sAdd_ends [OF e1(1,3), of ms x] obtain n e2 v where op: "sAddNoLockAndNoWal now k ms x e1 = Some (n, e2)" and
    e2: "set_inv e2" "n = int (card (set ms - mem (set_abs now e) k))" "data e2 = (data e1)(k \<mapsto> v)"
      "members v = mem (set_abs now e) k \<union> set ms" "set_expiresAt v = (if x \<noteq> None then x else ttl (set_abs now e) k)"
    using e1(2) by (auto simp: ends_iff)
  have "set_meets compile lg now (OAdd k ms x) e (RInt (Inr n)) e2"
    using e2 set_abs_put [OF e2(3), of now] e1(2) by (intro set_meetsI) (auto simp: Let_def)
  then show ?thesis
    using ev op e2(1) by (auto simp: SAdd_def split: prod.splits option.splits intro: set_meets_fail simp del: set_ok.simps)
qed

lemma rem_meets:
  assumes "set_inv e"
  shows "ends (SRem lg now k ms (e, w)) (\<lambda>(r, e', w'). set_meets compile lg now (ORem k ms) e (RInt r) e')"
proof -
  obtain e1 w1 where ev: "set_evict lg now k (e, w) = Some (e1, w1)" and e1: "set_inv e1"
    "set_abs now e1 = set_abs now e" "live_at set_expiresAt now k e1" using set_evict_ok [OF assms] .
  have meets: "set_meets compile lg now (ORem k ms) e (RInt (Inr n)) e2"
    if "set_inv e2 \<and> n = int (card (mem (set_abs now e1) k \<inter> set ms)) \<and>
      (\<forall>j. live_at set_expiresAt now j e1 \<longrightarrow> live_at set_expiresAt now j e2) \<and>
      set_abs now e2 = shrink k (set ms) (set_abs now e1)" for n e2
    using that e1(2) by (intro set_meetsI) auto
  show ?thesis
  proof (cases "data e1 k")
    case None
    then have "set_abs now e1 k = None" using live_set_abs [OF e1(3)] by simp
    then show ?thesis using None ev e1 by (auto simp: SRem_def mem_def shrink_def intro!: set_meetsI)
  next
    case (Some v)
    then have cond: "data e1 k = None \<longleftrightarrow> False" by simp
    show ?thesis
      unfolding SRem_def ev bind.simps prod.case cond if_False ends_simps(3)
      by (rule ends_mono [OF sRem_ends [OF e1(1,3)]])
        (auto split: prod.splits option.splits intro: set_meets_fail meets simp del: set_ok.simps)
  qed
qed

lemma pop_meets:
  assumes "set_inv e" "iter_ok iter"
  shows "ends (SPop lg now iter k n (e, w)) (\<lambda>(r, e', w'). set_meets compile lg now (OPop k n) e (RElems r) e')"
proof -
  obtain e1 w1 where ev: "set_evict lg now k (e, w) = Some (e1, w1)" and e1: "set_inv e1"
    "set_abs now e1 = set_abs now e" "live_at set_expiresAt now k e1" using set_evict_ok [OF assms(1)] .
  note m = live_mem(1) [OF e1(3), unfolded e1(2)] and ab = live_set_abs [OF e1(3), unfolded e1(2)]
  show ?thesis
  proof (cases "mem (set_abs now e) k = {}")
    case True
    then have "case data e1 k of None \<Rightarrow> True | Some v \<Rightarrow> members v = {}" using m by (auto split: option.splits)
    then show ?thesis using ev e1 True by (auto simp: SPop_def split: option.splits intro!: set_meetsI)
  next
    case False
    then obtain v where v: "data e1 k = Some v" "members v \<noteq> {}" "mem (set_abs now e) k = members v"
      using m by (auto split: option.splits)
    have fin: "finite (members v)" using set_inv_finite [OF e1(1) v(1)] .
    have it: "distinct (iter (members v))" "set (iter (members v)) = members v"
      using assms(2) fin by (auto simp: iter_ok_def)
    have len: "length (iter (members v)) = card (members v)" using it by (metis distinct_card)
    have sh: "shrink k S (set_abs now e) = (set_abs now e)(k := if members v - S = {} then None else Some (members v - S, set_expiresAt v))" for S
      using ab v(1) by (simp add: shrink_def)
    show ?thesis
    proof (cases "n \<le> 0")
      case True
      have "set_meets compile lg now (OPop k n) e (RElems (Inr [])) e1"
        using True False sh [of "{}"] ab v e1 by (intro set_meetsI) (auto simp: fun_upd_idem)
      then show ?thesis using ev v fin True by (simp add: SPop_def)
    next
      case n: False
      define lim where "lim = nat (min n (int (card (members v))))"
      define ps where "ps = take lim (iter (members v))"
      have "0 < card (members v)" using v(2) fin by (simp add: card_gt_0_iff)
      then have lim: "0 < lim" "lim \<le> length (iter (members v))" using n len by (auto simp: lim_def)
      have limeq: "nat (if int (card (members v)) < n then int (card (members v)) else n) = lim" by (simp add: lim_def)
      have pop: "pop_loop lim (iter (members v)) [] (members v) = (ps, members v - set ps)"
        using pop_loop_eq [of "[]" lim "iter (members v)" "members v"] lim by (simp add: ps_def)
      have ps: "distinct ps" "set ps \<subseteq> members v" "length ps = lim"
        using it lim set_take_subset [of lim "iter (members v)"] by (auto simp: ps_def)
      let ?e1 = "e1\<lparr>data := (data e1)(k \<mapsto> v\<lparr>members := members v - set ps\<rparr>)\<rparr>"
      have i1: "set_inv ?e1" using v(1) fin by (intro set_update_ok [OF e1(1)]) simp_all
      obtain e2 where e2: "deleteNoLock k ?e1 = Some e2" "set_inv e2" "set_abs now e2 = (set_abs now ?e1)(k := None)"
        using set_delete_ok [OF i1] by metis
      have a1: "set_abs now ?e1 = (set_abs now e)(k \<mapsto> (members v - set ps, set_expiresAt v))"
        using set_abs_put [of ?e1 e1 k "v\<lparr>members := members v - set ps\<rparr>" now] e1(2,3) v(1) by (simp add: live_at_def)
      define e3 where "e3 = (if members v - set ps = {} then e2 else ?e1)"
      have e3: "set_inv e3" "set_abs now e3 = shrink k (set ps) (set_abs now e)"
        using e2 i1 a1 sh [of "set ps"] by (auto simp: e3_def)
      have op: "SPop lg now iter k n (e, w) =
          (case lg ''set'' ''SPOP'' (PathEscape k # map EncodeToString ps) w1 of
            (Some err, w') \<Rightarrow> Some (Inl err, e3, w') | (None, w') \<Rightarrow> Some (Inr ps, e3, w'))"
        using ev v(1,2) fin n e2(1) limeq pop unfolding e3_def
        by (cases "members v - set ps = {}") (simp_all add: SPop_def Let_def)
      have "set_meets compile lg now (OPop k n) e (RElems (Inr ps)) e3"
        using e3 ps False v(3) by (intro set_meetsI) (auto simp: lim_def)
      then show ?thesis
        unfolding op using e3(1) by (auto split: prod.splits option.splits intro: set_meets_fail simp del: set_ok.simps)
    qed
  qed
qed

lemma move_meets:
  assumes "set_inv e"
  shows "ends (SMove lg now k k' m (e, w)) (\<lambda>(r, e', w'). set_meets compile lg now (OMove k k' m) e (RBool r) e')"
proof -
  obtain e1 w1 where ev: "set_evict lg now k (e, w) = Some (e1, w1)" and e1: "set_inv e1"
    "set_abs now e1 = set_abs now e" "live_at set_expiresAt now k e1" using set_evict_ok [OF assms(1)] .
  have absent: "(case data e1 k of None \<Rightarrow> True | Some v \<Rightarrow> m \<notin> members v) \<longleftrightarrow> m \<notin> mem (set_abs now e) k"
    using live_mem(1) [OF e1(3)] e1(2) by (auto split: option.splits)
  show ?thesis
  proof (cases "m \<in> mem (set_abs now e) k")
    case False
    then show ?thesis using ev e1 absent by (simp add: SMove_def set_meets_def)
  next
    case True
    obtain e2 w2 where ev2: "set_evict lg now k' (e1, w1) = Some (e2, w2)" and evd: "evicted set_expiresAt now e1 e2"
      and e2: "set_inv e2" "set_abs now e2 = set_abs now e" "live_at set_expiresAt now k' e2"
      using set_evict_ok [OF e1(1)] e1(2) by metis
    have lv: "live_at set_expiresAt now k e2"
      using e1(3) evicted_le [OF evd] unfolding live_at_def by blast
    from sRem_ends [OF e2(1) lv, of "[m]"] obtain n e3 where rm: "sRemNoLockAndNoWal k [m] e2 = Some (n, e3)"
      and e3: "set_inv e3" "set_abs now e3 = shrink k {m} (set_abs now e)" "live_at set_expiresAt now k' e3"
      using e2(2,3) by (auto simp: ends_iff)
    from sAdd_ends [OF e3(1,3), of "[m]" None] obtain n' e4 v where ad: "sAddNoLockAndNoWal now k' [m] None e3 = Some (n', e4)"
      and e4: "set_inv e4" "data e4 = (data e3)(k' \<mapsto> v)" "members v = insert m (mem (set_abs now e3) k')"
        "set_expiresAt v = ttl (set_abs now e3) k'"
      by (auto simp: ends_iff)
    have "\<not> expired (set_expiresAt v) now"
      unfolding e4(4) live_mem(2) [OF e3(3)] using e3(3) by (auto simp: live_at_def expired_def split: option.splits Option.bind_splits)
    then have "set_abs now e4 = (set_abs now e3)(k' \<mapsto> (insert m (mem (set_abs now e3) k'), ttl (set_abs now e3) k'))"
      using set_abs_put [OF e4(2), of now] e4(3,4) by simp
    then have "set_meets compile lg now (OMove k k' m) e (RBool (Inr True)) e4"
      using True e4(1) e3(2) by (intro set_meetsI) (simp_all add: Let_def)
    moreover have "SMove lg now k k' m (e, w) =
        (case lg ''set'' ''SMOVE'' [PathEscape k, PathEscape k', EncodeToString m] w2 of
          (Some err, w') \<Rightarrow> Some (Inl err, e4, w') | (None, w') \<Rightarrow> Some (Inr True, e4, w'))"
      using ev absent True ev2 rm ad by (simp add: SMove_def sMoveNoLockAndNoWal_def)
    ultimately show ?thesis
      using e4(1) by (auto split: prod.splits option.splits intro: set_meets_fail simp del: set_ok.simps)
  qed
qed

lemma set_read_ends:
  assumes "set_inv e"
  shows "ends (set_read lg now k (e, w)) (\<lambda>(r, e', w'). set_inv e' \<and> set_abs now e' = set_abs now e \<and>
    r = map_option fst (set_abs now e k))"
proof (cases "data e k")
  case None
  then show ?thesis using assms live_set_abs [of now k e] by (simp add: set_read_def live_at_def)
next
  case (Some v)
  show ?thesis
  proof (cases "expired (set_expiresAt v) now")
    case True
    then have "set_abs now e k = None" using Some by (simp add: stale_set_abs stale_def)
    moreover obtain e1 w1 where "set_evict lg now k (e, w) = Some (e1, w1)" "set_inv e1" "set_abs now e1 = set_abs now e"
      using set_evict_ok [OF assms] .
    ultimately show ?thesis using Some True by (simp add: set_read_def)
  next
    case False
    then show ?thesis using Some assms live_set_abs [of now k e] by (simp add: set_read_def live_at_def)
  qed
qed

lemma set_read_bind:
  assumes "set_inv e"
    "\<And>r e' w'. r = map_option fst (set_abs now e k) \<Longrightarrow> set_inv e' \<Longrightarrow> set_abs now e' = set_abs now e \<Longrightarrow>
       ends (f r (e', w')) Q"
  shows "ends (do { (r, s') \<leftarrow> set_read lg now k (e, w); f r s' }) Q"
  unfolding ends_simps(3)
  by (rule ends_mono_pair [OF set_read_ends [OF assms(1)]]) (auto intro!: assms(2))

lemma map_fst_mem:
  "map_option fst (A k) = None \<Longrightarrow> mem A k = {}" "map_option fst (A k) = Some S \<Longrightarrow> mem A k = S"
  by (auto simp: mem_def)

lemma iter_okD: "iter_ok iter \<Longrightarrow> finite S \<Longrightarrow> listing_of (iter S) S"
  by (simp add: iter_ok_def listing_of_def)

lemma listing_length: "listing_of xs S \<Longrightarrow> length xs = card S"
  by (metis listing_of_def distinct_card)

lemma meets_same:
  "set_inv e' \<Longrightarrow> set_abs now e' = set_abs now e \<Longrightarrow> set_ok compile now op (set_abs now e) r (set_abs now e) \<Longrightarrow>
   set_meets compile lg now op e r e'"
  by (simp add: set_meets_def)

lemma read_meets:
  assumes "set_inv e"
  shows
    "ends (SIsMember lg now k m (e, w)) (\<lambda>(r, e', w'). set_meets compile lg now (OIsMember k m) e (RBool (Inr r)) e')"
    "ends (SMIsMember lg now k ms (e, w)) (\<lambda>(r, e', w'). set_meets compile lg now (OMIsMember k ms) e (RBools r) e')"
    "ends (SCard lg now k (e, w)) (\<lambda>(r, e', w'). set_meets compile lg now (OCard k) e (RInt (Inr r)) e')"
    "iter_ok iter \<Longrightarrow>
     ends (SMembers lg now iter k (e, w)) (\<lambda>(r, e', w'). set_meets compile lg now (OMembers k) e (RElems (Inr r)) e')"
proof -
  have list: "listing_of (case map_option fst (set_abs now e k) of None \<Rightarrow> [] | Some S \<Rightarrow> iter S) (mem (set_abs now e) k)"
    if "iter_ok iter"
  proof (cases "set_abs now e k")
    case None
    then show ?thesis by (simp add: mem_def listing_of_def)
  next
    case (Some a)
    then have "mem (set_abs now e) k = fst a" by (simp add: mem_def split_beta)
    then show ?thesis using Some iter_okD [OF that finite_mem [OF assms], of now k] by simp
  qed
  show "ends (SIsMember lg now k m (e, w)) (\<lambda>(r, e', w'). set_meets compile lg now (OIsMember k m) e (RBool (Inr r)) e')"
    unfolding SIsMember_def
    by (rule set_read_bind [OF assms]) (cases "set_abs now e k"; simp add: set_meets_def mem_def split_beta)
  show "ends (SMIsMember lg now k ms (e, w)) (\<lambda>(r, e', w'). set_meets compile lg now (OMIsMember k ms) e (RBools r) e')"
    unfolding SMIsMember_def
    by (rule set_read_bind [OF assms]) (cases "set_abs now e k"; simp add: set_meets_def mem_def map_replicate_const split_beta)
  show "ends (SCard lg now k (e, w)) (\<lambda>(r, e', w'). set_meets compile lg now (OCard k) e (RInt (Inr r)) e')"
    unfolding SCard_def
    by (rule set_read_bind [OF assms]) (cases "set_abs now e k"; simp add: set_meets_def mem_def split_beta)
  show "ends (SMembers lg now iter k (e, w)) (\<lambda>(r, e', w'). set_meets compile lg now (OMembers k) e (RElems (Inr r)) e')"
    if "iter_ok iter"
    unfolding SMembers_def
    by (rule set_read_bind [OF assms], simp, rule meets_same) (use list [OF that] in auto)
qed

text \<open>SRANDMEMBER: the positions it picks are in range, and the allocation succeeds for a count allowed.\<close>

lemma pick_index_less:
  assumes "0 < n" shows "pick_index clock n i < n"
proof -
  let ?idx = "go_rem (wrap64 (clock i + int i)) (int n)"
  have "0 \<le> z mod int n \<and> z mod int n < int n" for z using assms by simp
  then have "- int n < ?idx \<and> ?idx < int n" unfolding go_rem_def by (smt (verit))
  moreover have "pick_index clock n i = nat (if ?idx < 0 then - ?idx else ?idx)" by (simp add: pick_index_def Let_def)
  ultimately show ?thesis using assms by (auto simp: nat_less_iff)
qed

lemma random_members_none:
  "finite S \<Longrightarrow> random_members clock iter n S = None \<longleftrightarrow>
     n \<noteq> 0 \<and> S \<noteq> {} \<and> \<not> make_ok (if 0 \<le> n then min n (int (card S)) else wrap64 (- n))"
  by (auto simp: random_members_def Let_def min_def)

lemma random_members_ok:
  assumes "iter_ok iter" "finite S" "int64_range n" "random_members clock iter n S = Some xs"
  shows "set xs \<subseteq> S \<and> (0 \<le> n \<longrightarrow> distinct xs) \<and>
    length xs = (if S = {} then 0 else nat (if n < 0 then - n else min n (int (card S))))"
proof (cases "S = {} \<or> n = 0")
  case True
  then show ?thesis using assms(4) by (auto simp: random_members_def)
next
  case False
  have it: "distinct (iter S)" "set (iter S) = S" using assms(1,2) by (auto simp: iter_ok_def)
  have len: "length (iter S) = card S" using it by (metis distinct_card)
  have c: "0 < card S" using False assms(2) by (simp add: card_gt_0_iff)
  show ?thesis
  proof (cases "0 \<le> n")
    case True
    define lim where "lim = min n (int (card S))"
    have lim: "nat lim \<le> card S" by (simp add: lim_def)
    have "(if int (card S) < n then int (card S) else n) = lim" by (simp add: lim_def)
    then have "xs = take (nat lim) (iter S)"
      using False c True assms(4) by (simp add: random_members_def Let_def split: if_splits)
    then show ?thesis
      using it len True False lim set_take_subset [of "nat lim" "iter S"] by (auto simp: lim_def)
  next
    case neg: False
    then have mk: "make_ok (wrap64 (- n))" and xs: "xs = map (\<lambda>i. iter S ! pick_index clock (card S) i) [0..<nat (wrap64 (- n))]"
      using False c assms(4) by (auto simp: random_members_def Let_def split: if_splits)
    have "n \<noteq> - (2 ^ 63)" using mk by (auto simp: make_ok_def wrap64_def)
    then have w: "wrap64 (- n) = - n" using assms(3) neg by (intro wrap64_id) (auto simp: int64_range_def)
    moreover have "iter S ! pick_index clock (card S) i \<in> S" for i
      using pick_index_less [OF c] len it(2) nth_mem by metis
    ultimately show ?thesis using False neg xs by auto
  qed
qed

lemma random_total:
  assumes "set_inv e"
  shows "SRandMember lg now clock iter k n (e, w) = None \<longleftrightarrow> set_panics later (ORandMember k n) (set_abs now e)"
    "SRandMember lg now clock iter k n (e, w) = Some (xs, e', w') \<Longrightarrow> set_inv e' \<and> set_abs now e' = set_abs now e \<and>
       random_members clock iter n (mem (set_abs now e) k) = Some xs"
proof -
  have none: "random_members clock iter n {} = Some []" by (simp add: random_members_def)
  obtain e1 w1 where r: "set_read lg now k (e, w) = Some (map_option fst (set_abs now e k), e1, w1)" "set_inv e1" "set_abs now e1 = set_abs now e"
    using set_read_ends [OF assms, of lg now k w] by (auto simp: ends_iff)
  have run: "SRandMember lg now clock iter k n (e, w) = map_option (\<lambda>xs. (xs, e1, w1)) (random_members clock iter n (mem (set_abs now e) k))"
    by (cases "set_abs now e k") (auto simp: SRandMember_def r(1) mem_def none split: option.splits bind_splits)
  show "SRandMember lg now clock iter k n (e, w) = None \<longleftrightarrow> set_panics later (ORandMember k n) (set_abs now e)"
    unfolding run by (simp add: random_members_none [OF finite_mem [OF assms]])
  show "SRandMember lg now clock iter k n (e, w) = Some (xs, e', w') \<Longrightarrow> set_inv e' \<and> set_abs now e' = set_abs now e \<and>
       random_members clock iter n (mem (set_abs now e) k) = Some xs"
    unfolding run using r(2,3) by auto
qed

lemma random_meets:
  assumes "set_inv e" "iter_ok iter" "int64_range n" "SRandMember lg now clock iter k n (e, w) = Some (xs, e', w')"
  shows "set_meets compile lg now (ORandMember k n) e (RElems (Inr xs)) e'"
proof -
  note r = random_total(2) [OF assms(1,4)]
  show ?thesis
    using r random_members_ok [OF assms(2) finite_mem [OF assms(1)] assms(3) r [THEN conjunct2, THEN conjunct2]]
    by (intro meets_same) auto
qed

subsection \<open>Combining sets\<close>

lemma combine_absent: "set_abs now e' = set_abs now e \<Longrightarrow> combine c (set_abs now e') ks = combine c (set_abs now e) ks"
  by simp

definition all_live :: "time \<Rightarrow> string list \<Rightarrow> SetStorage \<Rightarrow> bool" where
  "all_live now ks e \<longleftrightarrow> (\<forall>k \<in> set ks. live_at set_expiresAt now k e)"

lemma is_stale_key_simps [simp]:
  "m k = None \<Longrightarrow> \<not> is_stale_key now m k"
  "m k = Some v \<Longrightarrow> is_stale_key now m k = expired (set_expiresAt v) now"
  by (simp_all add: is_stale_key_def)

lemma is_stale_key_live: "is_stale_key now (data e) k \<longleftrightarrow> \<not> live_at set_expiresAt now k e"
  by (auto simp: is_stale_key_def live_at_def split: option.splits)

definition fresh_members :: "time \<Rightarrow> (string \<rightharpoonup> SetValue) \<Rightarrow> string \<Rightarrow> bytes set" where
  "fresh_members now m k = (if is_stale_key now m k then {} else case m k of None \<Rightarrow> {} | Some v \<Rightarrow> members v)"

lemma fresh_members_simps [simp]:
  "m k = None \<Longrightarrow> fresh_members now m k = {}"
  "m k = Some v \<Longrightarrow> fresh_members now m k = (if expired (set_expiresAt v) now then {} else members v)"
  by (simp_all add: fresh_members_def)

lemma fresh_members_mem: "fresh_members now (data e) k = mem (set_abs now e) k"
proof (cases "is_stale_key now (data e) k")
  case True
  then have "set_abs now e k = None"
    by (intro stale_set_abs) (auto simp: is_stale_key_def stale_def split: option.splits)
  then show ?thesis using True by (simp add: mem_def fresh_members_def)
next
  case False
  then show ?thesis using live_mem(1) [of now k e] by (simp add: is_stale_key_live fresh_members_def)
qed

lemma inter_collect_eq:
  "inter_collect now m ks sets ex =
     (if \<exists>k \<in> set ks. m k = None then None
      else Some (sets @ map (fresh_members now m) (filter (\<lambda>k. \<not> is_stale_key now m k) ks),
                 ex @ filter (is_stale_key now m) ks))"
  by (induction now m ks sets ex rule: inter_collect.induct) (auto split: option.splits)

lemma union_collect_eq:
  "union_collect now m ks S ex = (S \<union> (\<Union>k \<in> set ks. fresh_members now m k), ex @ filter (is_stale_key now m) ks)"
  by (induction now m ks S ex rule: union_collect.induct) (simp_all add: Un_assoc split: option.splits)

lemma diff_loop_eq: "diff_loop now m ks S = S - (\<Union>k \<in> set ks. fresh_members now m k)"
  by (induction now m ks S rule: diff_loop.induct) (auto split: option.splits)

lemma smallest_loop_less:
  "i + length Ss = n \<Longrightarrow> sm < n \<Longrightarrow> i \<le> n \<Longrightarrow> smallest_loop sets sm i Ss < n"
proof (induction sets sm i Ss rule: smallest_loop.induct)
  case (2 sets sm i S Ss)
  then show ?case by simp
qed simp

lemma intersect_sets_ok:
  assumes "sets \<noteq> []" "\<forall>S \<in> set sets. finite S" "iter_ok iter"
  obtains xs where "intersect_sets iter sets = Some xs" "listing_of xs (\<Inter> (set sets))"
proof -
  define sm where "sm = smallest_loop sets 0 1 (tl sets)"
  have sm: "sm < length sets" using assms(1) by (cases sets) (auto simp: sm_def intro!: smallest_loop_less)
  have it: "distinct (iter (sets ! sm))" "set (iter (sets ! sm)) = sets ! sm"
    using assms sm by (auto simp: iter_ok_def)
  define xs where "xs = filter (\<lambda>item. list_all (\<lambda>idx. idx = sm \<or> item \<in> sets ! idx) [0..<length sets]) (iter (sets ! sm))"
  have "set xs = {x \<in> sets ! sm. \<forall>idx < length sets. idx = sm \<or> x \<in> sets ! idx}"
    using it(2) by (auto simp: xs_def list_all_iff)
  also have "\<dots> = \<Inter> (set sets)" using sm by (auto simp: set_conv_nth)
  finally have "listing_of xs (\<Inter> (set sets))" using it(1) by (simp add: listing_of_def xs_def)
  moreover have "intersect_sets iter sets = Some xs" using assms(1) by (simp add: intersect_sets_def Let_def xs_def sm_def)
  ultimately show ?thesis using that by blast
qed

lemma evicted_live_at: "evicted xp now e e' \<Longrightarrow> live_at xp now k e \<Longrightarrow> live_at xp now k e'"
  unfolding live_at_def by (metis evicted_le)

lemma sweep_live:
  "engine_inv xp e \<Longrightarrow>
   ends (sweep lg eid xp now ks (e, w)) (\<lambda>(e', w'). evicted xp now e e' \<and> (\<forall>k \<in> set ks. live_at xp now k e'))"
proof (induction ks arbitrary: e w)
  case (Cons k ks)
  obtain e1 w1 where e1: "evict lg eid xp now k (e, w) = Some (e1, w1)" "evicted xp now e e1" "live_at xp now k e1"
    using evict_ok [OF Cons.prems] .
  show ?case
    using Cons.IH [OF evicted_inv [OF e1(2)], of w1] e1
    by (auto elim!: ends_mono intro: evicted_trans evicted_live_at)
qed (simp add: evicted_refl)

lemma set_sweep_ok:
  assumes "set_inv e"
  obtains e1 w1 where "set_deleteExpiredKeys lg now ks (e, w) = Some (e1, w1)" "set_inv e1"
    "set_abs now e1 = set_abs now e" "\<forall>k \<in> set ks. live_at set_expiresAt now k e1"
    "evicted set_expiresAt now e e1"
  using sweep_live [OF set_inv_engine [OF assms], of lg "''set''" now ks w]
    evicted_set_inv [OF _ assms] evicted_set_abs
  by (auto simp: set_deleteExpiredKeys_def ends_iff)

lemma stale_sweep_ok:
  assumes "set_inv e"
  obtains e1 w1 where "set_deleteExpiredKeys lg now (filter (is_stale_key now (data e)) ks) (e, w) = Some (e1, w1)" "set_inv e1"
    "set_abs now e1 = set_abs now e" "\<forall>k \<in> set ks. live_at set_expiresAt now k e1"
proof -
  obtain e1 w1 where e1: "set_deleteExpiredKeys lg now (filter (is_stale_key now (data e)) ks) (e, w) = Some (e1, w1)" "set_inv e1"
    "set_abs now e1 = set_abs now e" "\<forall>k \<in> set (filter (is_stale_key now (data e)) ks). live_at set_expiresAt now k e1"
    "evicted set_expiresAt now e e1"
    using set_sweep_ok [OF assms] .
  then have "live_at set_expiresAt now k e1" if "k \<in> set ks" for k
    using that evicted_live_at [OF e1(5), of k] by (cases "is_stale_key now (data e) k") (auto simp: is_stale_key_live)
  then show ?thesis using that e1(1-3) by blast
qed

text \<open>What the combining operations leave behind: no key is expired, unless \<open>SInter\<close> found one missing.\<close>

definition settled :: "combination \<Rightarrow> time \<Rightarrow> string list \<Rightarrow> SetStorage \<Rightarrow> bool" where
  "settled c now ks e \<longleftrightarrow>
     c = KInter \<and> (\<exists>k \<in> set ks. data e k = None) \<or> (\<forall>k \<in> set ks. live_at set_expiresAt now k e)"

lemma inter_ends:
  assumes "set_inv e" "iter_ok iter"
  shows "ends (SInter lg now iter ks (e, w)) (\<lambda>(r, e', w'). set_inv e' \<and> set_abs now e' = set_abs now e \<and>
    listing_of r (combine KInter (set_abs now e) ks) \<and> settled KInter now ks e')"
proof -
  consider "ks = []" | "ks \<noteq> []" "\<exists>k \<in> set ks. data e k = None"
    | "ks \<noteq> []" "\<forall>k \<in> set ks. data e k \<noteq> None" "\<exists>k \<in> set ks. is_stale_key now (data e) k"
    | "ks \<noteq> []" "\<forall>k \<in> set ks. data e k \<noteq> None" "\<forall>k \<in> set ks. \<not> is_stale_key now (data e) k"
    by metis
  then show ?thesis
  proof cases
    case 1
    then show ?thesis using assms by (simp add: SInter_def combine_def listing_of_def settled_def)
  next
    case 2
    then have "\<exists>k \<in> set ks. set_abs now e k = None" by (auto simp: set_abs_def visible_None)
    then show ?thesis using 2 assms by (auto simp: SInter_def inter_collect_eq combine_def listing_of_def settled_def)
  next
    case 3
    define ex where "ex = filter (is_stale_key now (data e)) ks"
    have ex: "ex \<noteq> []" using 3(3) by (auto simp: ex_def filter_empty_conv)
    obtain e1 w1 where e1: "set_deleteExpiredKeys lg now ex (e, w) = Some (e1, w1)" "set_inv e1"
      "set_abs now e1 = set_abs now e" "\<forall>k \<in> set ex. live_at set_expiresAt now k e1" "evicted set_expiresAt now e e1"
      using set_sweep_ok [OF assms(1)] .
    obtain k where k: "k \<in> set ks" "is_stale_key now (data e) k" using 3(3) by blast
    have "data e1 k = None"
    proof (rule ccontr)
      assume "data e1 k \<noteq> None"
      then obtain v where "data e1 k = Some v" by blast
      then have "\<not> expired (set_expiresAt v) now" "data e k = Some v"
        using e1(4) k evicted_le [OF e1(5)] by (auto simp: ex_def live_at_def)
      then show False using k(2) by simp
    qed
    moreover have "set_abs now e k = None"
      using k(2) by (intro stale_set_abs) (auto simp: is_stale_key_def stale_def split: option.splits)
    ultimately show ?thesis
      using 3(1,2) ex e1 k(1)
      by (auto simp: SInter_def inter_collect_eq ex_def [symmetric] combine_def listing_of_def settled_def)
  next
    case 4
    then have ex: "filter (is_stale_key now (data e)) ks = []" "filter (\<lambda>k. \<not> is_stale_key now (data e) k) ks = ks"
      by (auto simp: filter_empty_conv)
    have live: "set_abs now e k \<noteq> None" if "k \<in> set ks" for k
      using 4 that live_set_abs [of now k e] by (auto simp: is_stale_key_live)
    let ?sets = "map (fresh_members now (data e)) ks"
    have "\<forall>S \<in> set ?sets. finite S" using finite_mem [OF assms(1)] by (auto simp: fresh_members_mem)
    then obtain xs where xs: "intersect_sets iter ?sets = Some xs" "listing_of xs (\<Inter> (set ?sets))"
      using intersect_sets_ok [OF _ _ assms(2), of ?sets] 4(1) by auto
    have ne: "(ks = [] \<or> (\<exists>k \<in> set ks. set_abs now e k = None)) = False" using live 4(1) by blast
    have "\<Inter> (set ?sets) = combine KInter (set_abs now e) ks"
      unfolding combine_def combination.case ne if_False by (simp add: fresh_members_mem)
    then show ?thesis
      using 4 ex xs assms(1) by (auto simp: SInter_def inter_collect_eq settled_def is_stale_key_live)
  qed
qed

lemma union_ends:
  assumes "set_inv e" "iter_ok iter"
  shows "ends (SUnion lg now iter ks (e, w)) (\<lambda>(r, e', w'). set_inv e' \<and> set_abs now e' = set_abs now e \<and>
    listing_of r (combine KUnion (set_abs now e) ks) \<and> settled KUnion now ks e')"
proof -
  let ?ex = "filter (is_stale_key now (data e)) ks"
  have r: "listing_of (iter (combine KUnion (set_abs now e) ks)) (combine KUnion (set_abs now e) ks)"
    using iter_okD [OF assms(2) finite_combine [OF assms(1)]] .
  obtain e1 w1 where e1: "set_deleteExpiredKeys lg now ?ex (e, w) = Some (e1, w1)" "set_inv e1" "set_abs now e1 = set_abs now e"
    "\<forall>k \<in> set ks. live_at set_expiresAt now k e1"
    using stale_sweep_ok [OF assms(1)] .
  have "union_collect now (data e) ks {} [] = (combine KUnion (set_abs now e) ks, ?ex)"
    by (simp add: union_collect_eq combine_def fresh_members_mem)
  moreover have "set_deleteExpiredKeys lg now [] (e, w) = Some (e, w)" by (simp add: set_deleteExpiredKeys_def)
  ultimately show ?thesis using r e1 assms(1) by (auto simp: SUnion_def settled_def)
qed

lemma diff_ends:
  assumes "set_inv e" "iter_ok iter"
  shows "ends (SDiff lg now iter ks (e, w)) (\<lambda>(r, e', w'). set_inv e' \<and> set_abs now e' = set_abs now e \<and>
    listing_of r (combine KDiff (set_abs now e) ks) \<and> settled KDiff now ks e')"
proof (cases ks)
  case Nil
  then show ?thesis using assms by (simp add: SDiff_def combine_def listing_of_def settled_def)
next
  case (Cons k rest)
  let ?ex = "filter (is_stale_key now (data e)) ks"
  have r: "listing_of (iter (combine KDiff (set_abs now e) ks)) (combine KDiff (set_abs now e) ks)"
    using iter_okD [OF assms(2) finite_combine [OF assms(1)]] .
  obtain e1 w1 where e1: "(if ?ex \<noteq> [] then set_deleteExpiredKeys lg now ?ex (e, w) else Some (e, w)) = Some (e1, w1)"
    "set_inv e1" "set_abs now e1 = set_abs now e" "settled KDiff now ks e1"
  proof (cases "?ex = []")
    case True
    then show ?thesis using that assms(1) by (auto simp: settled_def filter_empty_conv is_stale_key_live)
  next
    case False
    obtain e1 w1 where "set_deleteExpiredKeys lg now ?ex (e, w) = Some (e1, w1)" "set_inv e1" "set_abs now e1 = set_abs now e"
      "\<forall>k \<in> set ks. live_at set_expiresAt now k e1" using stale_sweep_ok [OF assms(1)] .
    then show ?thesis using that False by (simp add: settled_def)
  qed
  have none: "combine KDiff (set_abs now e) ks = {}" if "mem (set_abs now e) k = {}"
    using that Cons by (simp add: combine_def)
  have stale: "combine KDiff (set_abs now e) ks = {}" if "is_stale_key now (data e) k"
    using that fresh_members_mem [of now e k] by (intro none) (simp add: fresh_members_def)
  have dl: "diff_loop now (data e1) rest (members v) = combine KDiff (set_abs now e) ks"
    if "data e1 k = Some v" "\<not> expired (set_expiresAt v) now" for v
    using that fresh_members_mem [of now e1] e1(3) Cons by (simp add: diff_loop_eq combine_def) (metis fresh_members_simps(2))
  have gone: "combine KDiff (set_abs now e) ks = {}"
    if "data e1 k = None \<or> (\<exists>v. data e1 k = Some v \<and> expired (set_expiresAt v) now)"
    using that fresh_members_mem [of now e1 k] e1(3) by (intro none) auto
  have run: "SDiff lg now iter ks (e, w) =
     (if ?ex \<noteq> [] \<and> is_stale_key now (data e) k then Some ([], e1, w1)
      else (case data e1 k of None \<Rightarrow> Some ([], e1, w1)
        | Some v \<Rightarrow> if expired (set_expiresAt v) now then Some ([], e1, w1)
            else Some (iter (diff_loop now (data e1) rest (members v)), e1, w1)))"
    using e1(1) unfolding SDiff_def Cons list.case Let_def fst_conv by (simp cong: if_cong option.case_cong)
  show ?thesis
    unfolding run using r e1(2-4) stale gone dl
    by (auto simp: listing_of_def split: option.splits)
qed

lemma combine_ends:
  assumes "set_inv e" "iter_ok iter"
  shows "ends (set_combine lg now iter c ks (e, w)) (\<lambda>(r, e', w'). set_inv e' \<and> set_abs now e' = set_abs now e \<and>
    listing_of r (combine c (set_abs now e) ks) \<and> settled c now ks e')"
  using inter_ends [OF assms, of lg now ks w] union_ends [OF assms, of lg now ks w] diff_ends [OF assms, of lg now ks w]
  by (cases c) (auto simp: set_combine_def elim!: ends_mono)

subsection \<open>Storing a combination\<close>

lemma store_collect_live:
  "\<forall>k \<in> set ks. live_at set_expiresAt now k e \<Longrightarrow>
   store_collect now ks sets e = Some (if \<exists>k \<in> set ks. data e k = None then (False, sets @ map (fresh_members now (data e)) (takeWhile (\<lambda>k. data e k \<noteq> None) ks), e)
     else (True, sets @ map (fresh_members now (data e)) ks, e))"
  by (induction now ks sets e rule: store_collect.induct) (auto simp: live_at_def split: option.splits)

lemma drop_stale_ok:
  assumes "set_inv e" "data e k = Some v" "expired (set_expiresAt v) now"
  obtains e1 where "deleteNoLock k e = Some e1" "set_inv e1" "set_abs now e1 = set_abs now e" "data e1 = (data e)(k := None)"
proof -
  obtain e1 where e1: "deleteNoLock k e = Some e1" "set_inv e1" "set_abs now e1 = (set_abs now e)(k := None)"
    "data e1 = (data e)(k := None)"
    using set_delete_ok [OF assms(1)] by metis
  moreover have "set_abs now e k = None" using assms(2,3) by (simp add: stale_set_abs stale_def)
  ultimately show ?thesis using that by (simp add: fun_upd_idem)
qed

lemma store_collect_absent:
  "set_inv e \<Longrightarrow> \<exists>k \<in> set ks. data e k = None \<Longrightarrow>
   (\<And>k. k \<in> set ks \<Longrightarrow> live_at set_expiresAt now k e \<longrightarrow> live_at set_expiresAt t k e) \<Longrightarrow>
   ends (store_collect t ks sets e) (\<lambda>(c, sets', e'). \<not> c \<and> set_inv e' \<and> set_abs now e' = set_abs now e)"
proof (induction ks arbitrary: sets e)
  case (Cons k ks)
  show ?case
  proof (cases "data e k")
    case None
    then show ?thesis using Cons.prems by simp
  next
    case (Some v)
    show ?thesis
    proof (cases "expired (set_expiresAt v) t")
      case True
      then have "expired (set_expiresAt v) now" using Cons.prems(3) [of k] Some by (auto simp: live_at_def)
      from drop_stale_ok [OF Cons.prems(1) Some this] obtain e1 where
        e1: "deleteNoLock k e = Some e1" "set_inv e1" "set_abs now e1 = set_abs now e" "data e1 = (data e)(k := None)" .
      moreover have "\<exists>k \<in> set ks. data e1 k = None" using Cons.prems(2) Some e1(4) by auto
      moreover have "live_at set_expiresAt now j e1 \<longrightarrow> live_at set_expiresAt t j e1" if "j \<in> set ks" for j
        using Cons.prems(3) [of j] that by (auto simp: live_at_def e1(4) split: if_splits)
      ultimately show ?thesis using Cons.IH [OF e1(2)] Some True by simp
    next
      case False
      then show ?thesis using Cons Some by simp
    qed
  qed
qed simp

lemma mem_data:
  "data e k = None \<Longrightarrow> mem (set_abs now e) k = {}"
  "data e k = Some v \<Longrightarrow> mem (set_abs now e) k = (if expired (set_expiresAt v) now then {} else members v)"
  by (simp_all add: fresh_members_mem [symmetric])

lemma union_store_ends:
  "set_inv e \<Longrightarrow> ends (union_store_loop now ks M e) (\<lambda>(M', e'). set_inv e' \<and> set_abs now e' = set_abs now e \<and>
     (\<forall>d. data e d = None \<longrightarrow> data e' d = None) \<and> M' = M \<union> (\<Union>k \<in> set ks. mem (set_abs now e) k))"
proof (induction ks arbitrary: M e)
  case (Cons k ks)
  show ?case
  proof (cases "data e k")
    case (Some v)
    show ?thesis
    proof (cases "expired (set_expiresAt v) now")
      case True
      obtain e1 where e1: "deleteNoLock k e = Some e1" "set_inv e1" "set_abs now e1 = set_abs now e" "data e1 = (data e)(k := None)"
        using drop_stale_ok [OF Cons.prems Some True] .
      then show ?thesis using Some True by (auto simp: mem_data intro!: ends_mono [OF Cons.IH [OF e1(2), of M]])
    next
      case False
      then show ?thesis using Cons.IH [OF Cons.prems, of "M \<union> members v"] Some by (simp add: mem_data Un_assoc)
    qed
  qed (use Cons in \<open>simp add: mem_data\<close>)
qed simp

lemma diff_store_ends:
  "set_inv e \<Longrightarrow> ends (diff_store_loop now ks M e) (\<lambda>(M', e'). set_inv e' \<and> set_abs now e' = set_abs now e \<and>
     (\<forall>d. data e d = None \<longrightarrow> data e' d = None) \<and> M' = M - (\<Union>k \<in> set ks. mem (set_abs now e) k))"
proof (induction ks arbitrary: M e)
  case (Cons k ks)
  show ?case
  proof (cases "data e k")
    case (Some v)
    show ?thesis
    proof (cases "expired (set_expiresAt v) now")
      case True
      obtain e1 where e1: "deleteNoLock k e = Some e1" "set_inv e1" "set_abs now e1 = set_abs now e" "data e1 = (data e)(k := None)"
        using drop_stale_ok [OF Cons.prems Some True] .
      then show ?thesis using Some True by (auto simp: mem_data intro!: ends_mono [OF Cons.IH [OF e1(2), of M]])
    next
      case False
      then show ?thesis using Cons.IH [OF Cons.prems, of "M - members v"] Some by (simp add: mem_data Diff_eq Int_assoc)
    qed
  qed (use Cons in \<open>simp add: mem_data\<close>)
qed simp

lemma store_members_ok:
  assumes "set_inv e" "data e dst = None" "finite S"
  shows "set_inv (store_members now dst S e)"
    "set_abs now (store_members now dst S e) = (if S = {} then set_abs now e else (set_abs now e)(dst \<mapsto> (S, None)))"
proof -
  have c: "0 < card S \<longleftrightarrow> S \<noteq> {}" using assms(3) by (simp add: card_gt_0_iff)
  let ?e = "e\<lparr>data := (data e)(dst \<mapsto> NewSetValue S now None)\<rparr>"
  have "set_inv ?e" using assms by (intro set_update_ok) (auto simp: NewSetValue_def)
  moreover have "set_abs now ?e = (set_abs now e)(dst \<mapsto> (S, None))"
    using set_abs_put [of ?e e dst "NewSetValue S now None" now] by (simp add: NewSetValue_def expired_def)
  ultimately show "set_inv (store_members now dst S e)"
    "set_abs now (store_members now dst S e) = (if S = {} then set_abs now e else (set_abs now e)(dst \<mapsto> (S, None)))"
    using assms(1) by (simp_all add: store_members_def c)
qed

lemma inter_store_ends:
  assumes "set_inv e" "iter_ok iter" "settled KInter now ks e"
  shows "ends (sInterStoreNoLockAndNoWal now iter dst ks e) (\<lambda>e'. set_inv e' \<and>
    (let A1 = (set_abs now e)(dst := None); S = combine KInter A1 ks
     in set_abs now e' = (if S = {} then A1 else A1(dst \<mapsto> (S, None)))))"
proof -
  obtain e1 where e1: "deleteNoLock dst e = Some e1" "set_inv e1" "data e1 = (data e)(dst := None)"
    "set_abs now e1 = (set_abs now e)(dst := None)" using set_delete_ok [OF assms(1)] .
  show ?thesis
  proof (cases "ks = [] \<or> (\<exists>k \<in> set ks. data e1 k = None)")
    case True
    then have "combine KInter ((set_abs now e)(dst := None)) ks = {}"
      unfolding e1(4) [symmetric] combine_def by (auto simp: set_abs_def visible_None)
    then show ?thesis
      using True e1 by (auto simp: sInterStoreNoLockAndNoWal_def intro!: ends_mono [OF store_collect_absent [OF e1(2), where now = now]])
  next
    case False
    then have "\<forall>k \<in> set ks. live_at set_expiresAt now k e1"
      using assms(3) e1(3) by (auto simp: settled_def live_at_def split: if_splits)
    then have sc: "store_collect now ks [] e1 = Some (True, map (fresh_members now (data e1)) ks, e1)"
      and ab: "\<not> (\<exists>k \<in> set ks. set_abs now e1 k = None)"
      using False by (auto simp: store_collect_live live_set_abs)
    let ?sets = "map (fresh_members now (data e1)) ks"
    have "\<forall>S \<in> set ?sets. finite S" using finite_mem [OF e1(2)] by (auto simp: fresh_members_mem)
    then obtain xs where xs: "intersect_sets iter ?sets = Some xs" "listing_of xs (\<Inter> (set ?sets))"
      using intersect_sets_ok [OF _ _ assms(2), of ?sets] False by auto
    have ne: "(ks = [] \<or> (\<exists>k \<in> set ks. set_abs now e1 k = None)) = False" using ab False by blast
    have "\<Inter> (set ?sets) = combine KInter (set_abs now e1) ks"
      unfolding combine_def combination.case ne if_False by (simp add: fresh_members_mem)
    then have S: "set xs = combine KInter (set_abs now e1) ks" using xs(2) by (simp add: listing_of_def)
    have "sInterStoreNoLockAndNoWal now iter dst ks e = Some (store_members now dst (set xs) e1)"
      using e1(1) False sc xs(1) by (simp add: sInterStoreNoLockAndNoWal_def)
    then show ?thesis
      using store_members_ok [OF e1(2), of dst "set xs" now, OF _ finite_set] e1(3) unfolding S by (simp add: Let_def e1(4))
  qed
qed

lemma union_store_op_ends:
  assumes "set_inv e"
  shows "ends (sUnionStoreNoLockAndNoWal now dst ks e) (\<lambda>e'. set_inv e' \<and>
    (let A1 = (set_abs now e)(dst := None); S = combine KUnion A1 ks
     in set_abs now e' = (if S = {} then A1 else A1(dst \<mapsto> (S, None)))))"
proof -
  obtain e1 where e1: "deleteNoLock dst e = Some e1" "set_inv e1" "data e1 = (data e)(dst := None)"
    "set_abs now e1 = (set_abs now e)(dst := None)" using set_delete_ok [OF assms(1)] .
  from union_store_ends [OF e1(2), of now ks "{}"] obtain M e2 where "union_store_loop now ks {} e1 = Some (M, e2)"
    and e2: "set_inv e2" "set_abs now e2 = set_abs now e1" "data e2 dst = None" "M = combine KUnion (set_abs now e1) ks"
    using e1(3) by (auto simp: ends_iff combine_def)
  moreover have "finite M" using e2(4) finite_combine [OF e1(2)] by simp
  ultimately show ?thesis
    using store_members_ok [OF e2(1,3), of M now] e1(1,4) by (simp add: sUnionStoreNoLockAndNoWal_def Let_def)
qed

lemma diff_store_op_ends:
  assumes "set_inv e"
  shows "ends (sDiffStoreNoLockAndNoWal now dst ks e) (\<lambda>e'. set_inv e' \<and>
    (let A1 = (set_abs now e)(dst := None); S = combine KDiff A1 ks
     in set_abs now e' = (if S = {} then A1 else A1(dst \<mapsto> (S, None)))))"
proof -
  obtain e1 where e1: "deleteNoLock dst e = Some e1" "set_inv e1" "data e1 = (data e)(dst := None)"
    "set_abs now e1 = (set_abs now e)(dst := None)" using set_delete_ok [OF assms(1)] .
  show ?thesis
  proof (cases ks)
    case Nil
    then show ?thesis using e1 by (simp add: sDiffStoreNoLockAndNoWal_def combine_def)
  next
    case (Cons k rest)
    have none: "combine KDiff (set_abs now e1) ks = {}" if "mem (set_abs now e1) k = {}"
      using that Cons by (simp add: combine_def)
    show ?thesis
    proof (cases "data e1 k")
      case None
      then have "combine KDiff (set_abs now e1) ks = {}" by (intro none) (simp add: mem_data)
      then show ?thesis using None Cons e1 by (simp add: sDiffStoreNoLockAndNoWal_def)
    next
      case (Some v)
      show ?thesis
      proof (cases "expired (set_expiresAt v) now")
        case True
        obtain e2 where "deleteNoLock k e1 = Some e2" "set_inv e2" "set_abs now e2 = set_abs now e1"
          using drop_stale_ok [OF e1(2) Some True] .
        moreover have "combine KDiff (set_abs now e1) ks = {}" using Some True by (intro none) (simp add: mem_data)
        ultimately show ?thesis using Some True Cons e1 by (simp add: sDiffStoreNoLockAndNoWal_def)
      next
        case False
        from diff_store_ends [OF e1(2), of now rest "members v"] obtain M e2
          where run: "diff_store_loop now rest (members v) e1 = Some (M, e2)"
            and e2: "set_inv e2" "set_abs now e2 = set_abs now e1" "data e2 dst = None" "M = combine KDiff (set_abs now e1) ks"
          using e1(3) Some False Cons by (auto simp: ends_iff combine_def mem_data)
        moreover have "finite M" using e2(4) finite_combine [OF e1(2)] by simp
        ultimately show ?thesis
          using store_members_ok [OF e2(1,3), of M now] e1(1,4) Some False Cons by (simp add: sDiffStoreNoLockAndNoWal_def Let_def)
      qed
    qed
  qed
qed

subsection \<open>The second reading of the clock\<close>

text \<open>
  The store looks at the clock again, at \<open>later\<close>.  It panics where the intersection is asked for keys that are
  all there and all expired by then; otherwise the engine stays well formed.
\<close>

lemma store_collect_total:
  assumes "set_inv e" "\<forall>S \<in> set sets. finite S"
  shows "\<exists>complete sets' e'. store_collect t ks sets e = Some (complete, sets', e') \<and> set_inv e' \<and> (\<forall>S \<in> set sets'. finite S) \<and>
    (\<forall>d. data e d = None \<longrightarrow> data e' d = None) \<and>
    (complete \<and> sets' = [] \<longleftrightarrow> sets = [] \<and> distinct ks \<and> (\<forall>k \<in> set ks. is_stale_key t (data e) k))"
  using assms
proof (induction ks arbitrary: e sets)
  case (Cons k ks)
  show ?case
  proof (cases "data e k")
    case (Some v)
    show ?thesis
    proof (cases "expired (set_expiresAt v) t")
      case True
      obtain e1 where e1: "deleteNoLock k e = Some e1" "set_inv e1" "data e1 = (data e)(k := None)"
        using drop_stale_ok [OF Cons.prems(1) Some True] by metis
      have stale: "(\<forall>j \<in> set ks. is_stale_key t (data e1) j) \<longleftrightarrow> k \<notin> set ks \<and> (\<forall>j \<in> set ks. is_stale_key t (data e) j)"
        by (auto simp: e1(3) is_stale_key_def)
      have "is_stale_key t (data e) k" "store_collect t (k # ks) sets e = store_collect t ks sets e1"
        using Some True e1(1) by simp_all
      note run = this(2) and k = this(1)
      from Cons.IH [OF e1(2) Cons.prems(2)] obtain c' s' e2 where ih: "store_collect t ks sets e1 = Some (c', s', e2)"
          "set_inv e2" "\<forall>S \<in> set s'. finite S" "\<forall>d. data e1 d = None \<longrightarrow> data e2 d = None"
          "c' \<and> s' = [] \<longleftrightarrow> sets = [] \<and> distinct ks \<and> (\<forall>k \<in> set ks. is_stale_key t (data e1) k)"
        by blast
      have "c' \<and> s' = [] \<longleftrightarrow> sets = [] \<and> distinct (k # ks) \<and> (\<forall>j \<in> set (k # ks). is_stale_key t (data e) j)"
        unfolding ih(5) stale using k by auto
      moreover have "\<forall>d. data e d = None \<longrightarrow> data e2 d = None" using ih(4) by (simp add: e1(3))
      ultimately show ?thesis unfolding run using ih(1-3) by blast
    next
      case False
      have "finite (members v)" using set_inv_finite [OF Cons.prems(1) Some] .
      then have fin: "\<forall>S \<in> set (sets @ [members v]). finite S" using Cons.prems(2) by auto
      have "\<not> is_stale_key t (data e) k" "store_collect t (k # ks) sets e = store_collect t ks (sets @ [members v]) e"
        using Some False by simp_all
      note run = this(2) and k = this(1)
      from Cons.IH [OF Cons.prems(1) fin] show ?thesis unfolding run using k by simp
    qed
  next
    case None
    then show ?thesis using Cons.prems by (intro exI [of _ False] exI [of _ sets] exI [of _ e]) simp
  qed
qed (auto intro!: exI [of _ True])

definition store_again :: "combination \<Rightarrow> time \<Rightarrow> set_order \<Rightarrow> string \<Rightarrow> string list \<Rightarrow> SetStorage \<Rightarrow> SetStorage option" where
  "store_again c t iter dst ks e =
     (case c of KInter \<Rightarrow> sInterStoreNoLockAndNoWal t iter dst ks e | KUnion \<Rightarrow> sUnionStoreNoLockAndNoWal t dst ks e
      | KDiff \<Rightarrow> sDiffStoreNoLockAndNoWal t dst ks e)"

lemma inter_store_total:
  assumes "set_inv e" "iter_ok iter"
  shows "case sInterStoreNoLockAndNoWal t iter dst ks e of
      None \<Rightarrow> ks \<noteq> [] \<and> distinct ks \<and> dst \<notin> set ks \<and> (\<forall>k \<in> set ks. is_stale_key t (data e) k)
    | Some e' \<Rightarrow> set_inv e' \<and> \<not> (ks \<noteq> [] \<and> distinct ks \<and> dst \<notin> set ks \<and> (\<forall>k \<in> set ks. is_stale_key t (data e) k))"
proof -
  obtain e1 where e1: "deleteNoLock dst e = Some e1" "set_inv e1" "data e1 = (data e)(dst := None)"
    using set_delete_ok [OF assms(1)] by metis
  have stale: "(\<forall>k \<in> set ks. is_stale_key t (data e1) k) \<longleftrightarrow> dst \<notin> set ks \<and> (\<forall>k \<in> set ks. is_stale_key t (data e) k)"
    by (auto simp: e1(3) is_stale_key_def)
  have "\<forall>S \<in> set ([] :: bytes set list). finite S" by simp
  from store_collect_total [OF e1(2) this, of t ks] obtain complete sets e2
    where sc: "store_collect t ks [] e1 = Some (complete, sets, e2)" "set_inv e2" "\<forall>S \<in> set sets. finite S"
      and none: "\<forall>d. data e1 d = None \<longrightarrow> data e2 d = None"
      and all: "complete \<and> sets = [] \<longleftrightarrow> distinct ks \<and> (\<forall>k \<in> set ks. is_stale_key t (data e1) k)"
    by (auto simp only: simp_thms)
  have dst: "data e2 dst = None" using none by (simp add: e1(3))
  consider "ks = []" | "ks \<noteq> []" "\<not> complete" | "ks \<noteq> []" complete "sets = []"
    | "ks \<noteq> []" complete "sets \<noteq> []" by blast
  then show ?thesis
  proof cases
    case 4
    then obtain xs where "intersect_sets iter sets = Some xs"
      using intersect_sets_ok [OF _ sc(3) assms(2)] by metis
    moreover have "set_inv (store_members t dst (set xs) e2)" using store_members_ok(1) [OF sc(2) dst] by simp
    ultimately show ?thesis using 4 sc(1) all stale e1(1) by (auto simp: sInterStoreNoLockAndNoWal_def)
  qed (use sc(1,2) all stale e1(1,2) in \<open>auto simp: sInterStoreNoLockAndNoWal_def intersect_sets_def\<close>)
qed

text \<open>A store at a later time does what one at the first time would, if no key has run out since.\<close>

lemma store_members_view: "set_abs now (store_members t dst S e) = set_abs now (store_members t' dst S e)"
  by (auto simp: store_members_def set_abs_def visible_def alive_def map_keep_def NewSetValue_def fun_eq_iff)

lemma loops_live:
  assumes "\<forall>k \<in> set ks. live_at set_expiresAt t k e"
  shows "union_store_loop t ks M e = Some (M \<union> (\<Union>k \<in> set ks. case data e k of None \<Rightarrow> {} | Some v \<Rightarrow> members v), e)"
    "diff_store_loop t ks M e = Some (M - (\<Union>k \<in> set ks. case data e k of None \<Rightarrow> {} | Some v \<Rightarrow> members v), e)"
  using assms
  by (induction ks arbitrary: M) (auto simp: live_at_def split: option.splits)

lemma store_collect_same:
  assumes "\<forall>k \<in> set ks. live_at set_expiresAt t k e" "\<forall>k \<in> set ks. live_at set_expiresAt t' k e"
  shows "store_collect t ks sets e = store_collect t' ks sets e"
  using assms by (induction ks arbitrary: sets) (auto simp: live_at_def split: option.splits)

lemma store_again_same:
  assumes "set_inv e" "iter_ok iter" "settled c now ks e"
    "\<forall>k \<in> set ks. live_at set_expiresAt now k e \<longrightarrow> live_at set_expiresAt later k e"
    "store_again c later iter dst ks e = Some e'" "store_again c now iter dst ks e = Some e''"
  shows "set_abs now e' = set_abs now e''"
proof -
  obtain e1 where e1: "deleteNoLock dst e = Some e1" "set_inv e1" "data e1 = (data e)(dst := None)"
    using set_delete_ok [OF assms(1)] by metis
  have mono: "live_at set_expiresAt now k e1 \<longrightarrow> live_at set_expiresAt later k e1" if "k \<in> set ks" for k
    using that assms(4) by (auto simp: live_at_def e1(3) split: if_splits)
  show ?thesis
  proof (cases "c = KInter \<and> (\<exists>k \<in> set ks. data e k = None)")
    case True
    then have "\<exists>k \<in> set ks. data e1 k = None" by (auto simp: e1(3))
    from store_collect_absent [OF e1(2) this mono, of "[]"] store_collect_absent [OF e1(2) this, of now now "[]"]
    show ?thesis using True assms(5,6) e1(1)
      by (auto simp: store_again_def sInterStoreNoLockAndNoWal_def ends_iff split: if_splits)
  next
    case False
    then have now: "\<forall>k \<in> set ks. live_at set_expiresAt now k e1"
      using assms(3) by (auto simp: settled_def live_at_def e1(3))
    with mono have later: "\<forall>k \<in> set ks. live_at set_expiresAt later k e1" by blast
    show ?thesis
      using assms(5,6) store_collect_same [OF now later, of "[]"] e1(1) now later store_members_view [of now later dst _ _ now]
      by (cases c; cases ks)
        (auto simp: store_again_def sInterStoreNoLockAndNoWal_def sUnionStoreNoLockAndNoWal_def sDiffStoreNoLockAndNoWal_def loops_live
          live_at_def split: bind_splits if_splits option.splits)
  qed
qed

definition store_outcome :: "time \<Rightarrow> combination \<Rightarrow> string \<Rightarrow> string list \<Rightarrow> SetStorage \<Rightarrow> bytes list \<Rightarrow> SetStorage \<Rightarrow> bool" where
  "store_outcome now c dst ks e res e' \<longleftrightarrow>
     (let A = set_abs now e; S = combine c (A(dst := None)) ks
      in length res = card (combine c A ks) \<and> set_abs now e' = A(dst := if S = {} then None else Some (S, None)))"

lemma set_store_total:
  assumes "set_inv e" "iter_ok iter"
  obtains (panics_case) "set_store lg now later iter c dst ks (e, w) = None" "set_panics later (OStore c dst ks) (set_abs now e)"
    | (stores_case) res e' w1 act where "\<not> set_panics later (OStore c dst ks) (set_abs now e)"
      "set_store lg now later iter c dst ks (e, w) = Some (set_logged lg act dst ks (int (length res)) (e', w1))" "set_inv e'"
      "(\<forall>k \<in> set ks. \<forall>S x. set_abs now e k = Some (S, Some x) \<longrightarrow> later \<le> x) \<Longrightarrow> store_outcome now c dst ks e res e'"
proof -
  define act where "act = (case c of KInter \<Rightarrow> ''SINTERSTORE'' | KUnion \<Rightarrow> ''SUNIONSTORE'' | KDiff \<Rightarrow> ''SDIFFSTORE'')"
  obtain res e1 w1 where r: "set_combine lg now iter c ks (e, w) = Some (res, e1, w1)" "set_inv e1"
    "set_abs now e1 = set_abs now e" "listing_of res (combine c (set_abs now e) ks)" "settled c now ks e1"
    using combine_ends [OF assms, of lg now c ks w] by (auto simp: ends_iff)
  have op: "set_store lg now later iter c dst ks (e, w) =
      map_option (\<lambda>e'. set_logged lg act dst ks (int (length res)) (e', w1)) (store_again c later iter dst ks e1)"
    using r(1) by (cases c) (simp_all add: set_store_def set_combine_def act_def store_again_def
        SInterStore_def SUnionStore_def SDiffStore_def bind_eq_Some_conv map_option_case split: option.splits bind_splits)
  have stale: "is_stale_key later (data e1) k \<longleftrightarrow> (\<exists>S x. set_abs now e k = Some (S, Some x) \<and> x < later)"
    if "live_at set_expiresAt now k e1" for k
    using that live_set_abs [OF that] by (auto simp: r(3) is_stale_key_def expired_def split: option.splits)
  have panics: "set_panics later (OStore KInter dst ks) (set_abs now e) \<longleftrightarrow>
      ks \<noteq> [] \<and> distinct ks \<and> dst \<notin> set ks \<and> (\<forall>k \<in> set ks. is_stale_key later (data e1) k)" if "c = KInter"
  proof -
    have "live_at set_expiresAt now k e1"
      if "k \<in> set ks" "(\<forall>j \<in> set ks. is_stale_key later (data e1) j) \<or> (\<forall>j \<in> set ks. set_abs now e j \<noteq> None)" for k
      using that r(5) unfolding settled_def r(3) [symmetric] by (auto simp: set_abs_def visible_None)
    then show ?thesis using stale by (simp only: set_panics.simps) blast
  qed
  have others: "\<exists>e'. store_again c later iter dst ks e1 = Some e' \<and> set_inv e'" if "c \<noteq> KInter"
    using that union_store_op_ends [OF r(2), of later dst ks] diff_store_op_ends [OF r(2), of later dst ks]
    by (cases c) (auto simp: store_again_def ends_iff)
  note inter = inter_store_total [OF r(2) assms(2), where t = later and dst = dst and ks = ks]
  show ?thesis
  proof (cases "store_again c later iter dst ks e1")
    case None
    then have c: "c = KInter" using others by auto
    have "set_panics later (OStore c dst ks) (set_abs now e)"
      using inter None unfolding c panics [OF c] by (simp add: store_again_def)
    then show ?thesis using panics_case op None by simp
  next
    case (Some e')
    have inv: "set_inv e'" and np: "\<not> set_panics later (OStore c dst ks) (set_abs now e)"
    proof -
      have "set_inv e' \<and> \<not> set_panics later (OStore c dst ks) (set_abs now e)"
      proof (cases "c = KInter")
        case True
        show ?thesis using inter Some unfolding True panics [OF True] by (simp add: store_again_def)
      next
        case False
        then show ?thesis using others Some by (cases c) auto
      qed
      then show "set_inv e'" "\<not> set_panics later (OStore c dst ks) (set_abs now e)" by simp_all
    qed
    have "store_outcome now c dst ks e res e'"
      if steady: "\<forall>k \<in> set ks. \<forall>S x. set_abs now e k = Some (S, Some x) \<longrightarrow> later \<le> x"
    proof -
      have mono: "\<forall>k \<in> set ks. live_at set_expiresAt now k e1 \<longrightarrow> live_at set_expiresAt later k e1"
        using steady live_set_abs [of now _ e1] by (fastforce simp: r(3) live_at_def expired_def split: option.splits)
      have "ends (store_again c now iter dst ks e1) (\<lambda>e''. set_inv e'' \<and>
          (let A1 = (set_abs now e1)(dst := None); S = combine c A1 ks
           in set_abs now e'' = (if S = {} then A1 else A1(dst \<mapsto> (S, None)))))"
        using inter_store_ends [OF r(2) assms(2)] union_store_op_ends [OF r(2)] diff_store_op_ends [OF r(2)] r(5)
        by (cases c) (simp_all add: store_again_def)
      then obtain e'' where e'': "store_again c now iter dst ks e1 = Some e''" "set_abs now e'' =
          (let A1 = (set_abs now e)(dst := None); S = combine c A1 ks in if S = {} then A1 else A1(dst \<mapsto> (S, None)))"
        by (auto simp: ends_iff Let_def r(3))
      have "set_abs now e' = set_abs now e''" by (rule store_again_same [OF r(2) assms(2) r(5) mono Some e''(1)])
      then show ?thesis using e''(2) listing_length [OF r(4)] by (simp add: store_outcome_def Let_def)
    qed
    then show ?thesis using stores_case [OF np _ inv] op Some by simp
  qed
qed

lemma combine_cong: "(\<And>k. k \<in> set ks \<Longrightarrow> A k = B k) \<Longrightarrow> combine c A ks = combine c B ks"
proof -
  assume eq: "\<And>k. k \<in> set ks \<Longrightarrow> A k = B k"
  then have "mem A k = mem B k" if "k \<in> set ks" for k using that by (simp add: mem_def)
  then show ?thesis using eq by (cases c) (auto simp: combine_def split: list.splits)
qed

lemma store_total:
  assumes "set_inv e" "iter_ok iter"
  shows "set_store lg now later iter c dst ks (e, w) = None \<longleftrightarrow> set_panics later (OStore c dst ks) (set_abs now e)"
    "set_store lg now later iter c dst ks (e, w) = Some (r, e', w') \<Longrightarrow> set_inv e'"
  by (rule set_store_total [OF assms, of lg now later c dst ks w];
      auto simp: set_logged_def split: prod.splits option.splits)+

lemma store_meets:
  assumes "set_inv e" "iter_ok iter" "set_store lg now later iter c dst ks (e, w) = Some (r, e', w')"
    "set_regular later (OStore c dst ks) (set_abs now e)"
  shows "set_meets compile lg now (OStore c dst ks) e (RInt r) e'"
proof (rule set_store_total [OF assms(1,2), of lg now later c dst ks w])
  fix res e1 w1 act
  assume run: "set_store lg now later iter c dst ks (e, w) = Some (set_logged lg act dst ks (int (length res)) (e1, w1))"
    and inv: "set_inv e1"
    and outcome: "\<forall>k \<in> set ks. \<forall>S x. set_abs now e k = Some (S, Some x) \<longrightarrow> later \<le> x \<Longrightarrow> store_outcome now c dst ks e res e1"
  have reg: "dst \<notin> set ks" "store_outcome now c dst ks e res e1" using assms(4) outcome by simp_all
  have "combine c ((set_abs now e)(dst := None)) ks = combine c (set_abs now e) ks"
    using reg(1) by (intro combine_cong) auto
  then have "set_meets compile lg now (OStore c dst ks) e (RInt (Inr (int (length res)))) e1"
    using reg(2) inv by (intro set_meetsI) (simp_all add: store_outcome_def Let_def)
  then show ?thesis
    using assms(3) run inv by (auto simp: set_logged_def split: prod.splits option.splits intro: set_meets_fail simp del: set_ok.simps)
qed (use assms(3) in simp)

subsection \<open>The refinement\<close>

lemma combine_meets:
  assumes "set_inv e" "iter_ok iter"
  shows
    "ends (set_combine lg now iter c ks (e, w)) (\<lambda>(r, e', w'). set_meets compile lg now (OCombine c ks) e (RElems (Inr r)) e')"
    "ends (SInterCard lg now iter ks n (e, w)) (\<lambda>(r, e', w'). set_meets compile lg now (OInterCard ks n) e (RInt (Inr r)) e')"
proof -
  show "ends (set_combine lg now iter c ks (e, w)) (\<lambda>(r, e', w'). set_meets compile lg now (OCombine c ks) e (RElems (Inr r)) e')"
    by (rule ends_mono [OF combine_ends [OF assms]]) (auto intro!: meets_same)
  show "ends (SInterCard lg now iter ks n (e, w)) (\<lambda>(r, e', w'). set_meets compile lg now (OInterCard ks n) e (RInt (Inr r)) e')"
    unfolding SInterCard_def ends_simps(3)
    by (rule ends_mono [OF inter_ends [OF assms]]) (auto simp: Let_def min_def listing_length intro!: meets_same)
qed

lemma set_delete_meets:
  assumes "set_inv e"
  shows "ends (set_Delete lg k (e, w)) (\<lambda>(r, e', w'). set_meets compile lg now (ODelete k) e (RErr r) e')"
proof -
  obtain e1 where e1: "deleteNoLock k e = Some e1" "set_inv e1" "set_abs now e1 = (set_abs now e)(k := None)"
    using set_delete_ok [OF assms] by metis
  then have "set_meets compile lg now (ODelete k) e (RErr None) e1" by (intro set_meetsI) simp_all
  then show ?thesis
    using e1(1) assms
    by (auto simp: set_Delete_def engine_Delete_def split: prod.splits option.splits intro: set_meets_fail simp del: set_ok.simps)
qed

lemma set_abs_fst:
  "visible set_expiresAt (\<lambda>v. f (members v)) now e k = map_option (f \<circ> fst) (set_abs now e k)"
  by (cases "alive set_expiresAt now (data e) k") (simp_all add: set_abs_def visible_def)

lemma set_count_ends:
  assumes "set_inv e" "map_iter ks (data e)"
  shows "ends (set_count lg now ks p (e, w)) (\<lambda>(r, e', w'). set_inv e' \<and> set_abs now e' = set_abs now e \<and>
    r = int (card {k \<in> dom (set_abs now e). p k}))"
  unfolding set_count_def
  by (rule ends_mono [OF sweep_count_ends [OF set_inv_engine [OF assms(1)] assms(2), where f = "\<lambda>v. (members v, set_expiresAt v)"]])
    (auto simp: evicted_set_inv [OF _ assms(1)] evicted_set_abs set_abs_def [symmetric])

lemma set_find_ends:
  assumes "set_inv e" "map_iter ks (data e)" "iter_ok iter"
  shows "ends (set_find lg now iter ks p (e, w)) (\<lambda>(r, e', w'). set_inv e' \<and> set_abs now e' = set_abs now e \<and>
    found p (set_abs now e) r)"
proof -
  have "rel_option listing_of (map_option (iter \<circ> fst) (set_abs now e k)) (map_option fst (set_abs now e k))" for k
    using iter_okD [OF assms(3) finite_mem [OF assms(1)], of now k] by (cases "set_abs now e k") (auto simp: mem_def)
  then show ?thesis
    unfolding set_find_def
    by (intro ends_mono [OF sweep_find_ends [OF set_inv_engine [OF assms(1)] assms(2)]])
      (auto simp: found_def evicted_set_inv [OF _ assms(1)] evicted_set_abs set_abs_fst)
qed

lemma set_deleteBy_ends:
  assumes "set_inv e" "map_iter ks (data e)"
  shows "ends (delete_loop lg ''set'' set_expiresAt now p ks 0 (e, w)) (\<lambda>((n, err), e', w'). set_inv e' \<and>
    (reliable_logger lg \<longrightarrow> err = None \<and> set_abs now e' = set_abs now e |` {k. \<not> p k} \<and> n = int (card {k \<in> dom (set_abs now e). p k})))"
proof (cases "reliable_logger lg")
  case True
  then show ?thesis
    unfolding set_abs_def
    by (intro ends_mono [OF delete_loop_visible [OF set_inv_engine [OF assms(1)] assms(2)]])
      (auto simp: reliable_logger.no_error intro: set_inv_le [OF _ _ assms(1)])
next
  case False
  have "set_inv e'" if "delete_loop_post set_expiresAt now p ks e n err e'" for n err e'
  proof (rule set_inv_le [OF delete_loop_postD(1) [OF that] _ assms(1)])
    show "data e' \<subseteq>\<^sub>m data e" unfolding map_le_def using delete_loop_postD(2) [OF that] by (metis domIff)
  qed
  then show ?thesis
    using False by (intro ends_mono [OF delete_loop_ends [OF set_inv_engine [OF assms(1)] map_iter_distinct [OF assms(2)]]]) auto
qed

lemma set_cleanup_meets:
  assumes "set_inv e"
  shows "ends (set_CleanupExpired lg now (e, w)) (\<lambda>(e', w'). set_meets compile lg now OCleanupExpired e (RErr None) e')"
  unfolding set_CleanupExpired_def
proof (rule ends_mono_state [OF logged_cleanup_ends [OF set_inv_engine [OF assms]]])
  fix e' :: SetStorage and w' :: 'a
  assume "case (e', w') of (e', w') \<Rightarrow> engine_inv set_expiresAt e' \<and>
    data e' = map_keep (\<lambda>k v. \<forall>t. set_expiresAt v = Some t \<longrightarrow> now < t) (data e)"
  then have "set_inv e'" "set_abs now e' = map_keep (\<lambda>k a. \<forall>t. snd a = Some t \<longrightarrow> now < t) (set_abs now e)"
    using map_keep_le [of _ "data e"] by (auto simp: set_abs_def intro: set_inv_le [OF _ _ assms] intro!: visible_cleanup)
  then show "case (e', w') of (e', w') \<Rightarrow> set_meets compile lg now OCleanupExpired e (RErr None) e'"
    by (auto intro: set_meetsI)
qed

lemma set_clear: "set_inv (clearNoLock e)" "set_abs now (clearNoLock e) = Map.empty"
proof -
  have "engine_inv set_expiresAt (clearNoLock e)" by simp
  then show "set_inv (clearNoLock e)" by (simp add: set_inv_def)
  show "set_abs now (clearNoLock e) = Map.empty" unfolding set_abs_def by (rule visible_empty) (simp add: clearNoLock_def)
qed

text \<open>
  What a request comes to: it panics where \<open>set_panics\<close> says so, the engine stays well formed, and a regular
  request meets its specification.
\<close>

definition set_outcome ::
  "regexp_compile \<Rightarrow> 'w logger \<Rightarrow> time \<Rightarrow> time \<Rightarrow> set_op \<Rightarrow> SetStorage \<Rightarrow> (set_res \<times> SetStorage \<times> 'w) option \<Rightarrow> bool" where
  "set_outcome compile lg now later op e x \<longleftrightarrow>
     (case x of
        None \<Rightarrow> set_panics later op (set_abs now e)
      | Some (r, e', w') \<Rightarrow> \<not> set_panics later op (set_abs now e) \<and> set_inv e' \<and>
          (set_regular later op (set_abs now e) \<longrightarrow> set_meets compile lg now op e r e'))"

lemma outcome_ends:
  "\<not> set_panics later op (set_abs now e) \<Longrightarrow> ends x (\<lambda>(r, e', w'). set_meets compile lg now op e r e') \<Longrightarrow>
   set_outcome compile lg now later op e x"
  by (auto simp: set_outcome_def ends_iff set_meets_def)

lemma plain_apply_meets:
  assumes "set_inv e" "map_iter ks (data e)" "iter_ok iter" "\<And>k n. op \<noteq> ORandMember k n" "\<And>c dst keys. op \<noteq> OStore c dst keys"
  shows "ends (set_apply compile lg now later clock iter ks op (e, w)) (\<lambda>(r, e', w'). set_meets compile lg now op e r e')"
proof (cases op)
  case (OCount p)
  then show ?thesis
    by (cases p) (auto simp: set_CountByPrefix_def set_CountBySuffix_def set_CountByRegex_def assms(1) set_meets_def split: sum.splits
        intro!: ends_mono [OF set_count_ends [OF assms(1,2)]])
next
  case (OFind p)
  then show ?thesis
    by (cases p) (auto simp: set_FindByPrefix_def set_FindBySuffix_def set_FindByRegex_def assms(1) set_meets_def split: sum.splits
        intro!: ends_mono [OF set_find_ends [OF assms(1-3)]])
next
  case (ODeleteBy p)
  then show ?thesis
    by (cases p) (auto simp: set_DeleteByPrefix_def set_DeleteBySuffix_def set_DeleteByRegex_def
        set_deleteByPrefixNoLock_def set_deleteBySuffixNoLock_def set_deleteByRegexNoLock_def assms(1) set_meets_def split: sum.splits
        intro!: ends_mono [OF set_deleteBy_ends [OF assms(1,2)]])
next
  case OClear
  then show ?thesis using set_clear by (auto simp: set_Clear_def set_meets_def)
next
  case OReset
  then show ?thesis using set_clear by (auto simp: set_Reset_def set_meets_def clearNoLock_def [symmetric])
next
  case OCleanupExpired
  then show ?thesis
    by (auto simp del: set_ok.simps intro!: ends_mono [OF set_cleanup_meets [OF assms(1), where compile = compile]])
qed (use assms(4,5) in \<open>auto simp del: set_ok.simps intro!:
    ends_mono [OF add_meets [OF assms(1), where compile = compile]]
    ends_mono [OF rem_meets [OF assms(1), where compile = compile]]
    ends_mono [OF pop_meets [OF assms(1,3), where compile = compile]]
    ends_mono [OF move_meets [OF assms(1), where compile = compile]]
    ends_mono [OF read_meets(1) [OF assms(1), where compile = compile]]
    ends_mono [OF read_meets(2) [OF assms(1), where compile = compile]]
    ends_mono [OF read_meets(3) [OF assms(1), where compile = compile]]
    ends_mono [OF read_meets(4) [OF assms(1,3), where compile = compile]]
    ends_mono [OF combine_meets(1) [OF assms(1,3), where compile = compile]]
    ends_mono [OF combine_meets(2) [OF assms(1,3), where compile = compile]]
    ends_mono [OF set_delete_meets [OF assms(1), where compile = compile]]\<close>)

lemma set_apply_outcome:
  assumes "set_inv e" "map_iter ks (data e)" "iter_ok iter"
  shows "set_outcome compile lg now later op e (set_apply compile lg now later clock iter ks op (e, w))"
proof -
  consider (random) k n where "op = ORandMember k n" | (store) c dst keys where "op = OStore c dst keys"
    | (plain) "\<And>k n. op \<noteq> ORandMember k n" "\<And>c dst keys. op \<noteq> OStore c dst keys" by blast
  then show ?thesis
  proof cases
    case random
    show ?thesis
    proof (cases "SRandMember lg now clock iter k n (e, w)")
      case None
      then have "set_panics later op (set_abs now e)" unfolding random by (rule random_total(1) [OF assms(1), THEN iffD1])
      then show ?thesis using None random by (simp add: set_outcome_def del: set_panics.simps)
    next
      case (Some x)
      then obtain xs e' w' where x: "SRandMember lg now clock iter k n (e, w) = Some (xs, e', w')" by (cases x) auto
      have "\<not> set_panics later op (set_abs now e)" unfolding random using x random_total(1) [OF assms(1)] by (metis option.distinct(1))
      then show ?thesis
        using random_total(2) [OF assms(1) x] random_meets [OF assms(1,3) _ x, of compile] x random
        by (simp add: set_outcome_def)
    qed
  next
    case store
    show ?thesis
    proof (cases "set_store lg now later iter c dst keys (e, w)")
      case None
      then have "set_panics later op (set_abs now e)" unfolding store by (rule store_total(1) [OF assms(1,3), THEN iffD1])
      then show ?thesis using None store by (simp add: set_outcome_def del: set_panics.simps)
    next
      case (Some x)
      then obtain r e' w' where x: "set_store lg now later iter c dst keys (e, w) = Some (r, e', w')" by (cases x) auto
      then have np: "\<not> set_panics later op (set_abs now e)"
        unfolding store using store_total(1) [OF assms(1,3)] by (metis option.distinct(1))
      show ?thesis
        using store_total(2) [OF assms(1,3) x] store_meets [OF assms(1,3) x, of compile] np x store
        by (simp add: set_outcome_def del: set_panics.simps set_regular.simps)
    qed
  next
    case plain
    have "\<not> set_panics later op (set_abs now e)"
      using plain by (cases "(later, op, set_abs now e)" rule: set_panics.cases) auto
    then show ?thesis using plain_apply_meets [OF assms plain] by (rule outcome_ends)
  qed
qed

end
