(* ===== verification/SetProps.thy ===== *)
theory SetProps
  imports SetRefine KvProps "HOL-Library.Char_ord" "HOL-Library.List_Lexorder"
begin

text \<open>
  The properties of the set engine: it implements its specification on the regular requests and panics on
  exactly the ones that \<open>set_panics\<close> lists, SINTERSTORE of keys that expire between its two looks at them among
  them; a storing operation into one of its sources counts one set and stores another; and the recovery of
  SINTERSTORE reads expired keys as absent operands.
\<close>

inductive set_reach :: "regexp_compile \<Rightarrow> 'w logger \<Rightarrow> 'w \<Rightarrow> set_order \<Rightarrow> SetStorage \<times> 'w \<Rightarrow> bool"
  for compile :: regexp_compile and lg :: "'w logger" and w0 :: 'w and iter :: set_order where
  set_start: "set_reach compile lg w0 iter (new_engine, w0)"
| set_next: "set_reach compile lg w0 iter s \<Longrightarrow> map_iter ks (data (fst s)) \<Longrightarrow>
    set_apply compile lg now later clock iter ks op s = Some (r, s') \<Longrightarrow> set_reach compile lg w0 iter s'"

lemma set_reach_inv: "set_reach compile lg w0 iter s \<Longrightarrow> iter_ok iter \<Longrightarrow> set_inv (fst s)"
proof (induction rule: set_reach.induct)
  case (set_next s ks now later clock op r s')
  obtain e w where s: "s = (e, w)" by (cases s)
  show ?case
    using set_apply_outcome [of e ks iter compile lg now later op clock w] set_next s
    by (cases s') (simp add: set_outcome_def)
qed simp

subsection \<open>An example\<close>

lemma iter_ok_sorted: "iter_ok sorted_list_of_set"
  by (simp add: iter_ok_def)

definition set_one :: SetStorage where
  "set_one = fst (snd (the (SAdd list_log 5 ''s'' [''a''] (Some 7) (new_engine, []))))"

definition set_one_log :: "wal_entry list" where
  "set_one_log = snd (snd (the (SAdd list_log 5 ''s'' [''a''] (Some 7) (new_engine, []))))"

lemma set_one_run: "SAdd list_log 5 ''s'' [''a''] (Some 7) (new_engine, []) = Some (Inr 1, set_one, set_one_log)"
proof -
  have inv: "set_inv new_engine" by simp
  obtain r e w where run: "SAdd list_log 5 ''s'' [''a''] (Some 7) (new_engine, []) = Some (r, e, w)"
    and m: "set_meets no_regexps list_log 5 (OAdd ''s'' [''a''] (Some 7)) new_engine (RInt r) e"
    using add_meets [OF inv, of list_log 5 "''s''" "[''a'']" "Some 7" "[]" no_regexps] by (auto simp: ends_iff)
  have "reliable_logger list_log" using list_log_ok by (rule reliable_logger.intro)
  then have "r = Inr 1"
    using m by (simp add: set_meets_def Let_def mem_def set_abs_def visible_empty)
  then show ?thesis using run by (simp add: set_one_def set_one_log_def)
qed

lemma set_one_reach: "set_reach no_regexps list_log [] sorted_list_of_set (set_one, set_one_log)"
proof (rule set_next [OF set_start])
  show "map_iter [] (data (fst (new_engine :: SetStorage, [])))" by (simp add: map_iter_def)
  show "set_apply no_regexps list_log 5 5 (\<lambda>i. 0) sorted_list_of_set [] (OAdd ''s'' [''a''] (Some 7)) (new_engine, []) =
      Some (RInt (Inr 1), set_one, set_one_log)"
    by (simp add: set_one_run)
qed

lemma set_one_data: "\<exists>v. data set_one = [''s'' \<mapsto> v] \<and> members v = {''a''} \<and> set_expiresAt v = Some 7"
proof -
  have inv: "set_inv new_engine" and lv: "live_at set_expiresAt 5 ''s'' (new_engine :: SetStorage)"
    by (simp_all add: live_at_def)
  obtain n e1 v where op: "sAddNoLockAndNoWal 5 ''s'' [''a''] (Some 7) (new_engine :: SetStorage) = Some (n, e1)"
    "data e1 = (data (new_engine :: SetStorage))(''s'' \<mapsto> v)" "members v = {''a''}" "set_expiresAt v = Some 7"
    using sAdd_ends [OF inv lv, of "[''a'']" "Some 7"]
    by (auto simp: ends_iff mem_def set_abs_def visible_empty)
  have "set_evict list_log 5 ''s'' (new_engine, []) = Some (new_engine, [])"
    by (rule evict_live [OF lv])
  then have "set_one = e1" using op(1) list_log_ok set_one_run
    by (auto simp: SAdd_def split: prod.splits option.splits)
  then show ?thesis using op(2-4) by (intro exI [of _ v]) simp
qed

lemma set_one_iter: "map_iter [''s''] (data set_one)"
proof -
  obtain v where "data set_one = [''s'' \<mapsto> v]" using set_one_data by blast
  then show ?thesis by (simp add: map_iter_def)
qed

lemma set_one_view: "set_abs 6 set_one ''s'' = Some ({''a''}, Some 7)"
proof -
  obtain v where v: "data set_one = [''s'' \<mapsto> v]" "members v = {''a''}" "set_expiresAt v = Some 7" using set_one_data by blast
  then have "live_at set_expiresAt 6 ''s'' set_one" by (simp add: live_at_def expired_def)
  from live_set_abs [OF this] show ?thesis by (simp add: v)
qed

subsection \<open>The properties\<close>

text \<open>
  C8.  With a logger that does not fail, each operation of the set engine gives an answer and a new view
  that \<open>set_ok\<close> allows: SINTER is the intersection, SUNION the union, SDIFF the difference, a removal
  counts the members it removed, SPOP takes that many members out, SMOVE moves one, and a storing operation
  answers the size of the combination of its sources and leaves that combination at the destination.  The
  theorem speaks of the requests that do not panic (\<open>set_panics\<close>: an SRANDMEMBER whose answer cannot be
  allocated, an SINTERSTORE all of whose sources run out between its two readings of the clock) and that are
  regular (\<open>set_regular\<close>): for SRANDMEMBER the count is a 64-bit \<open>int\<close>; for the storing operations the
  destination is not one of the sources, and no source that is live at the first reading of the clock has
  expired at the second.  (For a destination among the sources see \<open>store_into_source\<close> below.)
\<close>

theorem set_refines:
  assumes "\<And>e a args w. fst (lg e a args w) = None" "iter_ok iter" "set_reach compile lg w0 iter (e, w)"
    "map_iter ks (data e)" "set_regular later op (set_abs now e)" "\<not> set_panics later op (set_abs now e)"
  shows "\<exists>r e' w'. set_apply compile lg now later clock iter ks op (e, w) = Some (r, e', w') \<and>
    set_ok compile now op (set_abs now e) r (set_abs now e')"
proof -
  have r: "reliable_logger lg" using assms(1) by (rule reliable_logger.intro)
  have "set_inv e" using set_reach_inv [OF assms(3,2)] by simp
  from set_apply_outcome [OF this assms(4,2), of compile lg now later op clock w] assms(5,6) r
  show ?thesis by (auto simp: set_outcome_def set_meets_def split: option.splits)
qed

lemma set_refines_witness:
  "\<exists>r e' w'. set_apply no_regexps list_log 6 7 (\<lambda>i. 0) sorted_list_of_set [''s''] (OStore KUnion ''d'' [''s'']) (set_one, set_one_log) =
      Some (r, e', w') \<and>
    set_ok no_regexps 6 (OStore KUnion ''d'' [''s'']) (set_abs 6 set_one) r (set_abs 6 e')"
proof (rule set_refines [OF list_log_ok iter_ok_sorted set_one_reach set_one_iter])
  show "set_regular 7 (OStore KUnion ''d'' [''s'']) (set_abs 6 set_one)"
    by (simp add: set_one_view)
qed simp

text \<open>
  C9.  With any logger, and at any two readings of the clock, an operation of the set engine panics on exactly
  the requests that \<open>set_panics\<close> lists: SRANDMEMBER on a key with members, when the slice for the answer cannot
  be made (the count is the least \<open>int\<close>, or the answer needs more than \<open>2 ^ 48\<close> bytes of slice headers); and
  SINTERSTORE of distinct keys, the destination not among them, that are all live at its first reading of the
  clock and all expired at its second.  On any other request it answers, and in every state that is reached
  the sets are finite and the heap, the expiration map and the data agree.
\<close>

theorem set_panics_exactly:
  assumes "iter_ok iter" "set_reach compile lg w0 iter (e, w)" "map_iter ks (data e)"
  shows "set_inv e \<and> (set_apply compile lg now later clock iter ks op (e, w) = None \<longleftrightarrow> set_panics later op (set_abs now e))"
proof -
  have "set_inv e" using set_reach_inv [OF assms(2,1)] by simp
  with set_apply_outcome [OF this assms(3,1), of compile lg now later op clock w]
  show ?thesis by (auto simp: set_outcome_def split: option.splits)
qed

lemma set_panics_exactly_witness:
  "set_inv set_one \<and>
    set_apply no_regexps list_log 6 8 (\<lambda>i. 0) sorted_list_of_set [''s''] (OStore KInter ''d'' [''s'']) (set_one, set_one_log) = None \<and>
    set_apply no_regexps list_log 6 7 (\<lambda>i. 0) sorted_list_of_set [''s''] (OStore KInter ''d'' [''s'']) (set_one, set_one_log) \<noteq> None"
proof -
  note t = set_panics_exactly [OF iter_ok_sorted set_one_reach set_one_iter, of 6]
  show ?thesis using t [of 8 _ "OStore KInter ''d'' [''s'']"] t [of 7 _ "OStore KInter ''d'' [''s'']"] by (simp add: set_one_view)
qed

text \<open>
  SRANDMEMBER panics on the least \<open>int\<close> and on any count below \<open>- 2 ^ 48 / 24\<close>, when the key holds
  a set: the slice for the answer cannot be made.
\<close>

lemma random_member_none:
  assumes "data e k = Some v" "\<not> expired (set_expiresAt v) now" "finite (members v)" "members v \<noteq> {}"
    "n < - (2 ^ 48 div 24)" "int64_range n"
  shows "SRandMember lg now clock iter k n (e, w) = None"
proof -
  have "\<not> make_ok (wrap64 (- n))"
  proof (cases "n = - (2 ^ 63)")
    case True
    then show ?thesis by (simp add: make_ok_def wrap64_def)
  next
    case False
    then have "wrap64 (- n) = - n" using assms(6) by (intro wrap64_id) (auto simp: int64_range_def)
    then show ?thesis using assms(5) by (simp add: make_ok_def)
  qed
  then have "random_members clock iter n (members v) = None"
    using assms(3-5) by (simp add: random_members_def Let_def)
  then show ?thesis using assms(1,2) by (simp add: SRandMember_def set_read_def)
qed

subsection \<open>Keys that expire under a storing operation\<close>

lemma inter_store_expired:
  assumes "set_inv e" "iter_ok iter" "ks \<noteq> []" "distinct ks" "dst \<notin> set ks" "\<forall>k \<in> set ks. is_stale_key now (data e) k"
  shows "sInterStoreNoLockAndNoWal now iter dst ks e = None"
  using inter_store_total [OF assms(1,2), where t = now and dst = dst and ks = ks] assms(3-6) by (auto split: option.splits)

text \<open>
  C10.  The recovery of SINTERSTORE looks at the clock of the recovery.  A key that was live when the
  operation ran and has expired since is skipped: what is stored is the intersection of the other keys,
  not the one the client was told of.  When all have expired the recovery panics, and so does the start
  of the server on that log.
\<close>

theorem inter_store_recovery:
  assumes "set_inv e" "iter_ok iter" "a \<noteq> b" "d \<noteq> a" "d \<noteq> b"
    "data e a = Some u" "\<not> expired (set_expiresAt u) now" "members u \<noteq> {}"
    "data e b = Some v" "expired (set_expiresAt v) now"
    "unescape_or_empty da = d" "unescape_or_empty aa = a" "unescape_or_empty ba = b"
  shows "(\<exists>e'. set_ProcessWalEntry now iter ''SINTERSTORE'' [da, aa, ba] e = Some e' \<and>
      set_abs now e' d = Some (members u, None)) \<and>
    set_ProcessWalEntry now iter ''SINTERSTORE'' [da, ba] e = None"
proof -
  obtain e1 where e1: "deleteNoLock d e = Some e1" "set_inv e1" "data e1 = (data e)(d := None)"
    using set_delete_ok [OF assms(1)] by metis
  have d1: "data e1 a = Some u" "data e1 b = Some v" "data e1 d = None" using assms e1(3) by simp_all
  obtain e2 where e2: "deleteNoLock b e1 = Some e2" "set_inv e2" "data e2 = (data e1)(b := None)"
    using drop_stale_ok [OF e1(2) d1(2) assms(10)] by metis
  have d2: "data e2 d = None" using e2(3) d1 assms(5) by simp
  have fin: "finite (members u)" using set_inv_finite [OF assms(1,6)] .
  obtain xs where "intersect_sets iter [members u] = Some xs" "listing_of xs (\<Inter> (set [members u]))"
    using intersect_sets_ok [of "[members u]" iter, OF _ _ assms(2)] fin by (metis empty_iff empty_set list.distinct(1) set_ConsD)
  then have xs: "intersect_sets iter [members u] = Some xs" "set xs = members u" by (simp_all add: listing_of_def)
  have "store_collect now [a, b] [] e1 = Some (True, [members u], e2)"
    using d1 e2(1) assms(7,10) by simp
  then have "sInterStoreNoLockAndNoWal now iter d [a, b] e = Some (store_members now d (members u) e2)"
    using e1(1) xs by (simp add: sInterStoreNoLockAndNoWal_def)
  moreover have "set_abs now (store_members now d (members u) e2) d = Some (members u, None)"
    using store_members_ok(2) [OF e2(2) d2 fin] assms(8) by simp
  ultimately have first: "\<exists>e'. set_ProcessWalEntry now iter ''SINTERSTORE'' [da, aa, ba] e = Some e' \<and>
      set_abs now e' d = Some (members u, None)"
    using assms(11-13) by (simp add: set_ProcessWalEntry_def)
  have "sInterStoreNoLockAndNoWal now iter d [b] e = None"
    using assms(5,9,10) by (intro inter_store_expired [OF assms(1,2)]) simp_all
  then have "set_ProcessWalEntry now iter ''SINTERSTORE'' [da, ba] e = None"
    using assms(11,13) by (simp add: set_ProcessWalEntry_def)
  with first show ?thesis by blast
qed

definition set_two :: SetStorage where
  "set_two = snd (the (sAddNoLockAndNoWal 9 ''a'' [''x''] None set_one))"

lemma set_two_data:
  obtains u v where "set_inv set_two" "data set_two = [''s'' \<mapsto> v, ''a'' \<mapsto> u]" "members v = {''a''}"
    "set_expiresAt v = Some 7" "members u = {''x''}" "set_expiresAt u = None"
proof -
  obtain v where v: "data set_one = [''s'' \<mapsto> v]" "members v = {''a''}" "set_expiresAt v = Some 7" using set_one_data by blast
  have inv: "set_inv set_one" using set_reach_inv [OF set_one_reach iter_ok_sorted] by simp
  have lv: "live_at set_expiresAt 9 ''a'' set_one" using v by (simp add: live_at_def)
  have m: "mem (set_abs 9 set_one) ''a'' = {}" "ttl (set_abs 9 set_one) ''a'' = None"
    unfolding live_mem [OF lv] v(1) by simp_all
  from sAdd_ends [OF inv lv, of "[''x'']" None, unfolded m] obtain n e1 u where
    "sAddNoLockAndNoWal 9 ''a'' [''x''] None set_one = Some (n, e1)"
    and e1: "set_inv e1" "data e1 = (data set_one)(''a'' \<mapsto> u)" "members u = {''x''}" "set_expiresAt u = None"
    unfolding ends_iff by auto
  then have "set_two = e1" by (simp add: set_two_def)
  then show ?thesis using that [of v u] v e1 by simp
qed

lemma inter_store_recovery_witness:
  "(\<exists>e'. set_ProcessWalEntry 9 sorted_list_of_set ''SINTERSTORE'' [PathEscape ''d'', PathEscape ''a'', PathEscape ''s''] set_two = Some e' \<and>
      set_abs 9 e' ''d'' = Some ({''x''}, None)) \<and>
    set_ProcessWalEntry 9 sorted_list_of_set ''SINTERSTORE'' [PathEscape ''d'', PathEscape ''s''] set_two = None"
proof -
  obtain u v where inv: "set_inv set_two" and d: "data set_two = [''s'' \<mapsto> v, ''a'' \<mapsto> u]" "members v = {''a''}"
    "set_expiresAt v = Some 7" "members u = {''x''}" "set_expiresAt u = None"
    by (rule set_two_data)
  have ex: "data set_two ''a'' = Some u" "data set_two ''s'' = Some v" using d(1) by simp_all
  have e: "\<not> expired (set_expiresAt u) 9" "expired (set_expiresAt v) 9" using d(3,5) by (simp_all add: expired_def)
  have "members u \<noteq> {}" using d(4) by simp
  note t = inter_store_recovery [OF inv iter_ok_sorted _ _ _ ex(1) e(1) this ex(2) e(2), of "''d''"
      "PathEscape ''d''" "PathEscape ''a''" "PathEscape ''s''", unfolded d(4)]
  show ?thesis by (rule t) (simp_all only: unescape_PathEscape, simp_all)
qed

text \<open>
  SINTERSTORE, SUNIONSTORE and SDIFFSTORE tell the client the size of the combination of the keys
  as they were; the destination is deleted before it is computed again, so a destination among the keys
  is left out of what is stored: a union into one of its own keys loses that key's members.
\<close>

theorem store_into_source:
  assumes "\<And>e a args w. fst (lg e a args w) = None" "iter_ok iter" "set_inv e" "dst \<in> set ks"
    and steady: "\<forall>k \<in> set ks. \<forall>S x. set_abs now e k = Some (S, Some x) \<longrightarrow> later \<le> x"
  shows "\<exists>e' w'. set_store lg now later iter c dst ks (e, w) = Some (Inr (int (card (combine c (set_abs now e) ks))), e', w') \<and>
    mem (set_abs now e') dst = combine c ((set_abs now e)(dst := None)) ks \<and>
    (c = KInter \<longrightarrow> mem (set_abs now e') dst = {})"
proof -
  have c: "combine KInter ((set_abs now e)(dst := None)) ks = {}" using assms(4) by (auto simp: combine_def)
  have "\<not> set_panics later (OStore c dst ks) (set_abs now e)" using assms(4) by (cases c) simp_all
  then obtain res e' w1 act
    where run: "set_store lg now later iter c dst ks (e, w) = Some (set_logged lg act dst ks (int (length res)) (e', w1))"
      and e': "store_outcome now c dst ks e res e'"
    using set_store_total [OF assms(3,2), of lg now later c dst ks w] steady by metis
  have "fst (set_logged lg act dst ks n (e', w1)) = Inr n" "fst (snd (set_logged lg act dst ks n (e', w1))) = e'" for n
    using assms(1) [of "''set''" act "PathEscape dst # map PathEscape ks" w1]
    by (auto simp: set_logged_def split: prod.splits)
  then show ?thesis using run e' c
    by (intro exI [of _ e'] exI [of _ "snd (snd (set_logged lg act dst ks (int (length res)) (e', w1)))"])
      (auto simp: store_outcome_def Let_def mem_def prod_eq_iff)
qed

end
