(* ===== verification/SnapshotCodec.thy ===== *)
theory SnapshotCodec
  imports Engine
begin

text \<open>
  The binary format of the snapshots, \<open>pkg/snapshot/snapshot.go\<close>, and what the \<open>SerializeState\<close> and
  \<open>DeserializeState\<close> of the engines share.  A reader is the list of the bytes that are left; a read
  returns its value and the rest, or the error of \<open>io.ReadFull\<close>: \<open>EOF\<close> at the end of the input,
  \<open>UnexpectedEOF\<close> when the input ends inside the value.  A write goes to a \<open>bytes.Buffer\<close>, which does not
  fail, so a writer is the list of bytes it appends.
\<close>

datatype ioerr = EOF | UnexpectedEOF

type_synonym 'a reads = "bytes \<Rightarrow> ioerr + 'a \<times> bytes"

definition and_then :: "'a reads \<Rightarrow> ('a \<Rightarrow> 'b reads) \<Rightarrow> 'b reads" where
  "and_then r f bs = (case r bs of Inl err \<Rightarrow> Inl err | Inr (x, rest) \<Rightarrow> f x rest)"

definition yields :: "'a \<Rightarrow> 'a reads" where
  "yields x bs = Inr (x, bs)"

text \<open>\<open>io.ReadFull\<close> into a buffer of \<open>n\<close> bytes.\<close>

definition ReadFull :: "nat \<Rightarrow> bytes reads" where
  "ReadFull n bs =
     (if n \<le> length bs then Inr (take n bs, drop n bs) else if bs = [] then Inl EOF else Inl UnexpectedEOF)"

subsection \<open>Integers in little-endian order\<close>

fun le_bytes :: "nat \<Rightarrow> nat \<Rightarrow> bytes" where
  "le_bytes 0 n = []"
| "le_bytes (Suc w) n = char_of (n mod 256) # le_bytes w (n div 256)"

fun le_value :: "bytes \<Rightarrow> nat" where
  "le_value [] = 0"
| "le_value (c # cs) = byte_of c + 256 * le_value cs"

text \<open>The unsigned type is given by its width \<open>w\<close> in bytes.\<close>

definition WriteUintValue :: "nat \<Rightarrow> nat \<Rightarrow> bytes" where
  "WriteUintValue w n = le_bytes w n"

definition ReadUintValue :: "nat \<Rightarrow> nat reads" where
  "ReadUintValue w = and_then (ReadFull w) (\<lambda>bs. yields (le_value bs))"

definition WriteInt64Value :: "int \<Rightarrow> bytes" where
  "WriteInt64Value z = le_bytes 8 (nat (z mod 2 ^ 64))"

definition ReadInt64Value :: "int reads" where
  "ReadInt64Value = and_then (ReadFull 8) (\<lambda>bs. yields (wrap64 (int (le_value bs))))"

text \<open>The length is truncated to 32 bits, the value is not.\<close>

definition WriteBytes :: "bytes \<Rightarrow> bytes" where
  "WriteBytes v = WriteUintValue 4 (length v) @ v"

definition ReadBytes :: "bytes reads" where
  "ReadBytes = and_then (ReadUintValue 4) ReadFull"

subsection \<open>Reading back\<close>

lemma length_le_bytes [simp]: "length (le_bytes w n) = w"
  by (induction w n rule: le_bytes.induct) simp_all

lemma byte_of_char_of [simp]: "byte_of (char_of n) = n mod 256"
  by (simp add: byte_of_def)

lemma le_value_le_bytes [simp]: "le_value (le_bytes w n) = n mod 256 ^ w"
proof (induction w n rule: le_bytes.induct)
  case (2 w n)
  have "n mod 256 + 256 * (n div 256 mod 256 ^ w) = n mod (256 * 256 ^ w)" by (simp add: mod_mult2_eq)
  then show ?case using 2 by simp
qed simp

lemma ReadFull_append: "length v = n \<Longrightarrow> ReadFull n (v @ rest) = Inr (v, rest)"
  by (simp add: ReadFull_def)

named_theorems reads_back \<open>a reader reads what the writer wrote\<close>

lemma ReadUintValue_back [reads_back]: "n < 256 ^ w \<Longrightarrow> ReadUintValue w (WriteUintValue w n @ rest) = Inr (n, rest)"
  by (simp add: ReadUintValue_def WriteUintValue_def and_then_def yields_def ReadFull_append)

lemma ReadInt64Value_back [reads_back]: "int64_range z \<Longrightarrow> ReadInt64Value (WriteInt64Value z @ rest) = Inr (z, rest)"
proof -
  assume r: "int64_range z"
  have "nat (z mod 2 ^ 64) < 256 ^ 8" by (simp add: nat_less_iff)
  then have "wrap64 (int (le_value (le_bytes 8 (nat (z mod 2 ^ 64))))) = wrap64 (z mod 2 ^ 64)" by simp
  also have "\<dots> = wrap64 z" unfolding wrap64_def by (simp add: mod_add_left_eq)
  finally show ?thesis using r
    by (simp add: ReadInt64Value_def WriteInt64Value_def and_then_def yields_def ReadFull_append)
qed

lemma ReadBytes_back [reads_back]: "length v < 2 ^ 32 \<Longrightarrow> ReadBytes (WriteBytes v @ rest) = Inr (v, rest)"
  by (simp add: ReadBytes_def WriteBytes_def and_then_def ReadUintValue_back ReadFull_append)

text \<open>
  More input does not change what a reader has read.  Such a reader does not accept an input that ends
  too early.
\<close>

definition streams :: "'a reads \<Rightarrow> bool" where
  "streams r \<longleftrightarrow> (\<forall>bs x rest tail. r bs = Inr (x, rest) \<longrightarrow> r (bs @ tail) = Inr (x, rest @ tail))"

named_theorems streaming \<open>readers that stream\<close>

lemma streamsD: "streams r \<Longrightarrow> r bs = Inr (x, rest) \<Longrightarrow> r (bs @ tail) = Inr (x, rest @ tail)"
  by (simp add: streams_def)

lemma streams_and_then [streaming]: "streams r \<Longrightarrow> (\<And>x. streams (f x)) \<Longrightarrow> streams (and_then r f)"
  unfolding streams_def and_then_def by (auto split: sum.splits)

lemma streams_yields [streaming]: "streams (yields x)"
  by (simp add: streams_def yields_def)

lemma streams_ReadFull [streaming]: "streams (ReadFull n)"
  by (auto simp: streams_def ReadFull_def split: if_splits)

lemma streams_ReadUintValue [streaming]: "streams (ReadUintValue w)"
  unfolding ReadUintValue_def by (intro streaming)

lemma streams_ReadInt64Value [streaming]: "streams ReadInt64Value"
  unfolding ReadInt64Value_def by (intro streaming)

lemma streams_ReadBytes [streaming]: "streams ReadBytes"
  unfolding ReadBytes_def by (intro streaming)

lemma streams_truncated:
  assumes "streams r" "r bs = Inr (x, [])" "n < length bs"
  shows "\<exists>err. r (take n bs) = Inl err"
proof (cases "r (take n bs)")
  case (Inr p)
  then have "r (take n bs @ drop n bs) = Inr (fst p, snd p @ drop n bs)"
    using streamsD [OF assms(1), of "take n bs" "fst p" "snd p" "drop n bs"] by simp
  then show ?thesis using assms(2,3) by simp
qed simp

subsection \<open>The header\<close>

definition FirstBytes :: bytes where
  "FirstBytes = ''RCDB''"

definition Version :: nat where
  "Version = 1"

record SnapshotHeader =
  firstBytes :: bytes
  header_version :: nat
  header_count :: nat

definition CreateSnapshotHeader :: "nat \<Rightarrow> SnapshotHeader" where
  "CreateSnapshotHeader n = \<lparr>firstBytes = FirstBytes, header_version = Version, header_count = n\<rparr>"

definition Validate :: "SnapshotHeader \<Rightarrow> goerr option" where
  "Validate sh =
     (let expected = CreateSnapshotHeader (header_count sh) in
      if firstBytes sh \<noteq> firstBytes expected then Some (Sentinel ErrInvalidSnapshotMagic)
      else if header_version sh \<noteq> header_version expected then Some (Sentinel ErrInvalidSnapshotVersion)
      else None)"

definition WriteHeader :: "nat \<Rightarrow> bytes" where
  "WriteHeader n =
     (let h = CreateSnapshotHeader n
      in firstBytes h @ WriteUintValue 2 (header_version h) @ WriteUintValue 8 (header_count h))"

definition ReadSnapshotHeader :: "SnapshotHeader reads" where
  "ReadSnapshotHeader =
     and_then (ReadFull 4) (\<lambda>magic. and_then (ReadUintValue 2) (\<lambda>v. and_then (ReadUintValue 8) (\<lambda>n.
       yields \<lparr>firstBytes = magic, header_version = v, header_count = n\<rparr>)))"

lemma FirstBytes_read [reads_back]: "ReadFull 4 (FirstBytes @ rest) = Inr (FirstBytes, rest)"
  by (rule ReadFull_append) (simp add: FirstBytes_def)

lemma and_then_back: "r bs = Inr (x, rest) \<Longrightarrow> and_then r f bs = f x rest"
  by (simp add: and_then_def)

lemma ReadSnapshotHeader_back [reads_back]:
  "n < 2 ^ 64 \<Longrightarrow> ReadSnapshotHeader (WriteHeader n @ rest) = Inr (CreateSnapshotHeader n, rest)"
  by (simp add: ReadSnapshotHeader_def WriteHeader_def Let_def CreateSnapshotHeader_def and_then_back
      Version_def yields_def reads_back)

lemma Validate_created [simp]: "Validate (CreateSnapshotHeader n) = None"
  by (simp add: Validate_def CreateSnapshotHeader_def Let_def)


subsection \<open>The state of an engine\<close>

text \<open>
  The engines write the number of their keys and, for each key in the order \<open>ks\<close>, the key and its value;
  they differ in \<open>wv\<close>, which writes a value, and \<open>rv\<close>, which reads one.
\<close>

definition write_expiry :: "time option \<Rightarrow> bytes" where
  "write_expiry x =
     (case x of None \<Rightarrow> WriteUintValue 1 0 | Some t \<Rightarrow> WriteUintValue 1 1 @ WriteInt64Value t)"

definition read_expiry :: "time option reads" where
  "read_expiry = and_then (ReadUintValue 1) (\<lambda>hasExpiry.
     if hasExpiry = 1 then and_then ReadInt64Value (\<lambda>t. yields (Some t)) else yields None)"

definition write_state :: "('v \<Rightarrow> bytes) \<Rightarrow> string list \<Rightarrow> 'v engine \<Rightarrow> bytes" where
  "write_state wv ks e =
     WriteUintValue 8 (card (dom (data e))) @
     concat (map (\<lambda>k. case data e k of None \<Rightarrow> [] | Some v \<Rightarrow> WriteBytes k @ wv v) ks)"

fun read_entries ::
  "('v \<Rightarrow> time option) \<Rightarrow> 'v reads \<Rightarrow> nat \<Rightarrow> bytes \<Rightarrow> 'v engine \<Rightarrow> ioerr option \<times> bytes \<times> 'v engine" where
  "read_entries xp rv 0 bs e = (None, bs, e)"
| "read_entries xp rv (Suc n) bs e =
     (case ReadBytes bs of
        Inl err \<Rightarrow> (Some err, [], e)
      | Inr (key, bs1) \<Rightarrow>
          (case rv bs1 of
             Inl err \<Rightarrow> (Some err, [], e)
           | Inr (v, bs2) \<Rightarrow>
               read_entries xp rv n bs2 (addExpiration key (xp v) (e\<lparr>data := (data e)(key \<mapsto> v)\<rparr>))))"

definition read_state ::
  "('v \<Rightarrow> time option) \<Rightarrow> 'v reads \<Rightarrow> bytes \<Rightarrow> 'v engine \<Rightarrow> ioerr option \<times> bytes \<times> 'v engine" where
  "read_state xp rv bs e =
     (case ReadUintValue 8 bs of
        Inl err \<Rightarrow> (Some err, [], e)
      | Inr (n, bs1) \<Rightarrow> read_entries xp rv n bs1 (clearNoLock e))"

fun read_many :: "nat \<Rightarrow> 'a reads \<Rightarrow> 'a list reads" where
  "read_many 0 r = yields []"
| "read_many (Suc n) r = and_then r (\<lambda>x. and_then (read_many n r) (\<lambda>xs. yields (x # xs)))"

lemma streams_read_many [streaming]: "streams r \<Longrightarrow> streams (read_many n r)"
  by (induction n r rule: read_many.induct) (simp_all add: streaming)

lemma streams_expiry [streaming]: "streams read_expiry"
  unfolding read_expiry_def by (auto intro!: streaming)

lemma read_expiry_back [reads_back]:
  "(\<And>t. x = Some t \<Longrightarrow> int64_range t) \<Longrightarrow> read_expiry (write_expiry x @ rest) = Inr (x, rest)"
  by (cases x) (simp_all add: read_expiry_def write_expiry_def and_then_back reads_back yields_def)

lemma read_many_back:
  "(\<And>x rest. x \<in> set xs \<Longrightarrow> r (w x @ rest) = Inr (x, rest)) \<Longrightarrow>
   read_many (length xs) r (concat (map w xs) @ rest) = Inr (xs, rest)"
  by (induction xs arbitrary: rest) (simp_all add: and_then_back yields_def)

text \<open>Reading the entries is reading the pairs, then storing them one by one.\<close>

definition store_entry :: "('v \<Rightarrow> time option) \<Rightarrow> string \<times> 'v \<Rightarrow> 'v engine \<Rightarrow> 'v engine" where
  "store_entry xp = (\<lambda>(k, v) e. addExpiration k (xp v) (e\<lparr>data := (data e)(k \<mapsto> v)\<rparr>))"

definition read_pair :: "'v reads \<Rightarrow> (string \<times> 'v) reads" where
  "read_pair rv = and_then ReadBytes (\<lambda>k. and_then rv (\<lambda>v. yields (k, v)))"

lemma read_entries_eq:
  "(case read_many n (read_pair rv) bs of
      Inl err \<Rightarrow> fst (read_entries xp rv n bs e) = Some err
    | Inr (ps, rest) \<Rightarrow> read_entries xp rv n bs e = (None, rest, fold (store_entry xp) ps e))"
proof (induction xp rv n bs e rule: read_entries.induct)
  case (2 xp rv n bs e)
  then show ?case
    by (auto simp: read_pair_def and_then_def yields_def store_entry_def split: sum.splits)
qed (simp add: yields_def)

lemma store_entry_ok:
  assumes "engine_inv xp e" "data e k = None"
  shows "engine_inv xp (store_entry xp (k, v) e) \<and> data (store_entry xp (k, v) e) = (data e)(k \<mapsto> v)"
proof -
  have "due_of e k = None" using assms by (simp add: engine_inv_def expiry_view_def)
  then have "expirationMap e k = None" by (simp add: due_of_def)
  then have "dropExpiration k (e\<lparr>data := (data e)(k \<mapsto> v)\<rparr>) = Some (e\<lparr>data := (data e)(k \<mapsto> v)\<rparr>)"
    by (simp add: dropExpiration_def)
  then show ?thesis using put_ends [OF assms(1), of k v] by (simp add: store_entry_def)
qed

lemma store_entries_ok:
  "engine_inv xp e \<Longrightarrow> distinct (map fst ps) \<Longrightarrow> \<forall>k \<in> fst ` set ps. data e k = None \<Longrightarrow>
   engine_inv xp (fold (store_entry xp) ps e) \<and> data (fold (store_entry xp) ps e) = data e ++ map_of ps"
proof (induction ps arbitrary: e)
  case (Cons p ps)
  obtain k v where p: "p = (k, v)" by (cases p)
  let ?e = "store_entry xp (k, v) e"
  have e: "engine_inv xp ?e" "data ?e = (data e)(k \<mapsto> v)" using store_entry_ok [OF Cons.prems(1)] Cons.prems(3) p by simp_all
  have "\<forall>j \<in> fst ` set ps. data ?e j = None" using Cons.prems(2,3) e(2) p by auto
  then have "data (fold (store_entry xp) ps ?e) = data ?e ++ map_of ps" "engine_inv xp (fold (store_entry xp) ps ?e)"
    using Cons.IH [OF e(1)] Cons.prems(2) by simp_all
  moreover have m: "data e ++ map_of (p # ps) = (data e)(k \<mapsto> v) ++ map_of ps"
  proof -
    have "k \<notin> dom (map_of ps)" using Cons.prems(2) p by (simp add: dom_map_of_conv_image_fst)
    then show ?thesis using p by (simp add: map_add_upd_left)
  qed
  ultimately show ?case unfolding m using p e(2) by simp
qed simp

locale value_codec =
  fixes xp :: "'v \<Rightarrow> time option"
    and wv :: "'v \<Rightarrow> bytes"
    and rv :: "'v reads"
    and ok :: "'v \<Rightarrow> bool"
  assumes value_back: "ok v \<Longrightarrow> rv (wv v @ rest) = Inr (v, rest)"
    and value_streams: "streams rv"
begin

definition fits :: "'v engine \<Rightarrow> bool" where
  "fits e \<longleftrightarrow> card (dom (data e)) < 2 ^ 64 \<and> (\<forall>k v. data e k = Some v \<longrightarrow> length k < 2 ^ 32 \<and> ok v)"

lemma state_back:
  assumes "engine_inv xp e" "map_iter ks (data e)" "fits e"
  shows "\<exists>e'. read_state xp rv (write_state wv ks e @ rest) e0 = (None, rest, e') \<and> engine_inv xp e' \<and> data e' = data e"
proof -
  define ps where "ps = map (\<lambda>k. (k, the (data e k))) ks"
  have some: "data e k = Some (the (data e k))" if "k \<in> set ks" for k
    using that assms(2) by (auto simp: map_iter_def)
  have len: "length ps = card (dom (data e))" using map_iter_length [OF assms(2)] by (simp add: ps_def)
  have body: "concat (map (\<lambda>k. case data e k of None \<Rightarrow> [] | Some v \<Rightarrow> WriteBytes k @ wv v) ks) =
      concat (map (\<lambda>(k, v). WriteBytes k @ wv v) ps)"
  proof -
    have "map (\<lambda>k. case data e k of None \<Rightarrow> [] | Some v \<Rightarrow> WriteBytes k @ wv v) ks = map (\<lambda>(k, v). WriteBytes k @ wv v) ps"
      unfolding ps_def map_map by (rule map_cong [OF refl]) (drule some, metis comp_apply option.simps(5) case_prod_conv)
    then show ?thesis by simp
  qed
  have pair: "read_pair rv ((\<lambda>(k, v). WriteBytes k @ wv v) p @ rest) = Inr (p, rest)" if p_in: "p \<in> set ps" for p rest
  proof -
    obtain k where p: "p = (k, the (data e k))" and "k \<in> set ks" using p_in unfolding ps_def by auto
    then have "length k < 2 ^ 32" "ok (the (data e k))" using assms(3) some by (auto simp: fits_def)
    then show ?thesis using value_back by (simp add: p read_pair_def and_then_back reads_back yields_def)
  qed
  have "read_many (length ps) (read_pair rv) (concat (map (\<lambda>(k, v). WriteBytes k @ wv v) ps) @ rest) = Inr (ps, rest)"
    using read_many_back [of ps "read_pair rv", OF pair] by simp
  then have entries: "read_entries xp rv (length ps) (concat (map (\<lambda>(k, v). WriteBytes k @ wv v) ps) @ rest) (clearNoLock e0) =
      (None, rest, fold (store_entry xp) ps (clearNoLock e0))"
    using read_entries_eq [where xp = xp and e = "clearNoLock e0" and n = "length ps" and rv = rv and
        bs = "concat (map (\<lambda>(k, v). WriteBytes k @ wv v) ps) @ rest"] by simp
  have "distinct (map fst ps)" using map_iter_distinct [OF assms(2)] by (simp add: ps_def comp_def)
  then have stored: "engine_inv xp (fold (store_entry xp) ps (clearNoLock e0))"
    "data (fold (store_entry xp) ps (clearNoLock e0)) = map_of ps"
    using store_entries_ok [of xp "clearNoLock e0" ps] by simp_all
  have "map_of ps = data e"
  proof
    fix k show "map_of ps k = data e k"
    proof (cases "k \<in> set ks")
      case True
      then show ?thesis using some [OF True] by (simp add: ps_def map_of_map_restrict)
    next
      case False
      then have "data e k = None" using assms(2) by (auto simp: map_iter_def)
      then show ?thesis using False by (simp add: ps_def map_of_map_restrict)
    qed
  qed
  moreover have "read_state xp rv (write_state wv ks e @ rest) e0 =
      (None, rest, fold (store_entry xp) ps (clearNoLock e0))"
    using entries assms(3) unfolding read_state_def write_state_def body len [symmetric]
    by (simp add: fits_def len ReadUintValue_back)
  ultimately show ?thesis using stored by auto
qed

text \<open>A state cut short is refused.\<close>

lemma state_truncated:
  assumes "engine_inv xp e" "map_iter ks (data e)" "fits e" "n < length (write_state wv ks e)"
  shows "fst (read_state xp rv (take n (write_state wv ks e)) e0) \<noteq> None"
proof -
  let ?r = "and_then (ReadUintValue 8) (\<lambda>n. read_many n (read_pair rv))"
  have st: "streams ?r" unfolding read_pair_def by (intro streaming value_streams)
  have rel: "(case ?r bs of Inl err \<Rightarrow> fst (read_state xp rv bs e0) = Some err
      | Inr (ps, rest) \<Rightarrow> fst (read_state xp rv bs e0) = None \<and> fst (snd (read_state xp rv bs e0)) = rest)" for bs
  proof (cases "ReadUintValue 8 bs")
    case (Inr p)
    then show ?thesis
      using read_entries_eq [where xp = xp and e = "clearNoLock e0" and n = "fst p" and rv = rv and bs = "snd p"]
      by (auto simp: read_state_def and_then_def split_beta split: sum.splits)
  qed (simp add: read_state_def and_then_def)
  obtain e' where "read_state xp rv (write_state wv ks e) e0 = (None, [], e')"
    using state_back [OF assms(1-3), of "[]" e0] by auto
  then obtain ps where "?r (write_state wv ks e) = Inr (ps, [])"
    using rel [of "write_state wv ks e"] by (auto split: sum.splits)
  then obtain err where "?r (take n (write_state wv ks e)) = Inl err"
    using streams_truncated [OF st _ assms(4)] by blast
  then show ?thesis using rel [of "take n (write_state wv ks e)"] by simp
qed

end

end
