(* ===== verification/Snapshots.thy ===== *)
theory Snapshots
  imports SnapshotCodec KvSpec ListSpec SetRefine
begin

text \<open>
  The snapshots of the key-value, list and set engines (\<open>SerializeState\<close>, \<open>DeserializeState\<close>) and the
  snapshot file with its sections (\<open>Snapshot\<close> in \<open>pkg/snapshot/snapshot.go\<close>).  \<open>DeserializeState\<close> gives
  its error, what is left of the reader and the engine, which is partly filled when there is an error.
\<close>

subsection \<open>The engines\<close>

definition kv_write_value :: "Payload \<Rightarrow> bytes" where
  "kv_write_value p =
     WriteBytes (pvalue p) @ WriteInt64Value (createdAt (metadata p)) @ write_expiry (expiresAt (metadata p))"

definition kv_read_value :: "Payload reads" where
  "kv_read_value =
     and_then ReadBytes (\<lambda>v. and_then ReadInt64Value (\<lambda>c. and_then read_expiry (\<lambda>x.
       yields \<lparr>pvalue = v, metadata = \<lparr>createdAt = c, expiresAt = x\<rparr>\<rparr>)))"

definition kv_SerializeState :: "string list \<Rightarrow> Storage \<Rightarrow> bytes" where
  "kv_SerializeState ks e = write_state kv_write_value ks e"

definition kv_DeserializeState :: "bytes \<Rightarrow> Storage \<Rightarrow> ioerr option \<times> bytes \<times> Storage" where
  "kv_DeserializeState bs e = read_state payload_expiry kv_read_value bs e"

definition list_write_value :: "ListValue \<Rightarrow> bytes" where
  "list_write_value v =
     WriteUintValue 8 (length (elems v)) @ concat (map WriteBytes (elems v)) @
     WriteInt64Value (list_createdAt v) @ write_expiry (list_expiresAt v)"

definition list_read_value :: "ListValue reads" where
  "list_read_value =
     and_then (ReadUintValue 8) (\<lambda>n. and_then (read_many n ReadBytes) (\<lambda>xs.
     and_then ReadInt64Value (\<lambda>c. and_then read_expiry (\<lambda>x.
       yields \<lparr>elems = xs, list_createdAt = c, list_expiresAt = x\<rparr>))))"

definition list_SerializeState :: "string list \<Rightarrow> ListStorage \<Rightarrow> bytes" where
  "list_SerializeState ks e = write_state list_write_value ks e"

definition list_DeserializeState :: "bytes \<Rightarrow> ListStorage \<Rightarrow> ioerr option \<times> bytes \<times> ListStorage" where
  "list_DeserializeState bs e = read_state list_expiresAt list_read_value bs e"

definition set_write_value :: "set_order \<Rightarrow> SetValue \<Rightarrow> bytes" where
  "set_write_value iter v =
     WriteUintValue 8 (card (members v)) @ concat (map WriteBytes (iter (members v))) @
     WriteInt64Value (set_createdAt v) @ write_expiry (set_expiresAt v)"

definition set_read_value :: "SetValue reads" where
  "set_read_value =
     and_then (ReadUintValue 8) (\<lambda>n. and_then (read_many n ReadBytes) (\<lambda>xs.
     and_then ReadInt64Value (\<lambda>c. and_then read_expiry (\<lambda>x.
       yields \<lparr>members = set xs, set_createdAt = c, set_expiresAt = x\<rparr>))))"

definition set_SerializeState :: "set_order \<Rightarrow> string list \<Rightarrow> SetStorage \<Rightarrow> bytes" where
  "set_SerializeState iter ks e = write_state (set_write_value iter) ks e"

definition set_DeserializeState :: "bytes \<Rightarrow> SetStorage \<Rightarrow> ioerr option \<times> bytes \<times> SetStorage" where
  "set_DeserializeState bs e = read_state set_expiresAt set_read_value bs e"

text \<open>What the format can hold: lengths of 32 bits, instants of 64 bits.\<close>

definition times_fit :: "time \<Rightarrow> time option \<Rightarrow> bool" where
  "times_fit c x \<longleftrightarrow> int64_range c \<and> (\<forall>t. x = Some t \<longrightarrow> int64_range t)"

definition kv_fits :: "Payload \<Rightarrow> bool" where
  "kv_fits p \<longleftrightarrow> length (pvalue p) < 2 ^ 32 \<and> times_fit (createdAt (metadata p)) (expiresAt (metadata p))"

definition list_fits :: "ListValue \<Rightarrow> bool" where
  "list_fits v \<longleftrightarrow> length (elems v) < 2 ^ 64 \<and> (\<forall>b \<in> set (elems v). length b < 2 ^ 32) \<and>
     times_fit (list_createdAt v) (list_expiresAt v)"

definition set_fits :: "SetValue \<Rightarrow> bool" where
  "set_fits v \<longleftrightarrow> finite (members v) \<and> card (members v) < 2 ^ 64 \<and> (\<forall>b \<in> members v. length b < 2 ^ 32) \<and>
     times_fit (set_createdAt v) (set_expiresAt v)"

lemma ReadBytes_many:
  "\<forall>b \<in> set xs. length b < 2 ^ 32 \<Longrightarrow>
   read_many (length xs) ReadBytes (concat (map WriteBytes xs) @ rest) = Inr (xs, rest)"
  by (rule read_many_back) (simp add: reads_back)

interpretation kv_codec: value_codec payload_expiry kv_write_value kv_read_value kv_fits
proof
  show "streams kv_read_value" unfolding kv_read_value_def by (intro streaming)
  show "kv_fits p \<Longrightarrow> kv_read_value (kv_write_value p @ rest) = Inr (p, rest)" for p rest
    by (simp add: kv_fits_def times_fit_def kv_read_value_def kv_write_value_def and_then_back reads_back yields_def)
qed

interpretation list_codec: value_codec list_expiresAt list_write_value list_read_value list_fits
proof
  show "streams list_read_value" unfolding list_read_value_def by (intro streaming)
  show "list_fits v \<Longrightarrow> list_read_value (list_write_value v @ rest) = Inr (v, rest)" for v rest
    by (simp add: list_fits_def times_fit_def list_read_value_def list_write_value_def and_then_back reads_back
        ReadBytes_many yields_def)
qed

definition set_codec_ok :: "set_order \<Rightarrow> SetValue \<Rightarrow> bool" where
  "set_codec_ok iter v \<longleftrightarrow> iter_ok iter \<and> set_fits v"

interpretation set_codec: value_codec set_expiresAt "set_write_value iter" set_read_value "set_codec_ok iter" for iter
proof
  show "streams set_read_value" unfolding set_read_value_def by (intro streaming)
  show "set_read_value (set_write_value iter v @ rest) = Inr (v, rest)" if "set_codec_ok iter v" for v rest
  proof -
    have it: "set (iter (members v)) = members v" "card (members v) = length (iter (members v))"
      using that iter_okD [of iter "members v"] listing_length [of "iter (members v)" "members v"]
      by (auto simp: set_codec_ok_def set_fits_def listing_of_def)
    have "length (iter (members v)) < 2 ^ 64" "\<forall>b \<in> set (iter (members v)). length b < 2 ^ 32"
      using that it by (simp_all add: set_codec_ok_def set_fits_def)
    then show ?thesis
      using that unfolding set_write_value_def it(2)
      by (simp add: set_codec_ok_def set_fits_def times_fit_def set_read_value_def and_then_back reads_back
          ReadBytes_many yields_def it(1))
  qed
qed

subsection \<open>The snapshot file\<close>

record Snapshot =
  snap_path :: string
  sHeader :: SnapshotHeader

definition NewSnapshot :: "string \<Rightarrow> Snapshot" where
  "NewSnapshot path = \<lparr>snap_path = path, sHeader = CreateSnapshotHeader 0\<rparr>"

fun ioerr_err :: "ioerr \<Rightarrow> goerr" where
  "ioerr_err EOF = PlainError ''EOF''"
| "ioerr_err UnexpectedEOF = PlainError ''unexpected EOF''"

text \<open>
  The sections, in the order in which the map of serializers is visited, each with what its serializer
  returned.  The result is the error, and the bytes written until then.
\<close>

fun write_sections :: "string \<Rightarrow> (string \<times> (goerr + bytes)) list \<Rightarrow> goerr option \<times> bytes" where
  "write_sections path [] = (None, [])"
| "write_sections path ((engineID, r) # secs) =
     (case r of
        Inl err \<Rightarrow> (Some (SnapshotError path (JoinedError [Sentinel ErrSnapshotWriteFailed, err]) ''WRITE''), WriteBytes engineID)
      | Inr buf \<Rightarrow>
          (case write_sections path secs of
             (err, out) \<Rightarrow> (err, WriteBytes engineID @ WriteUintValue 8 (length buf) @ buf @ out)))"

definition SaveSnapshot :: "Snapshot \<Rightarrow> (string \<times> (goerr + bytes)) list \<Rightarrow> goerr option \<times> bytes" where
  "SaveSnapshot s secs =
     (case write_sections (snap_path s) secs of (err, out) \<Rightarrow> (err, WriteHeader (length secs) @ out))"

text \<open>
  The calls of the operating system that \<open>Save\<close> makes; \<open>fails\<close> says which of them fail, \<open>space\<close> how many bytes
  can be written.  The deferred function removes the temporary file after an error.
\<close>

datatype os_call = OsCreate | OsSync | OsClose | OsRename | OsRemove

type_synonym files = "string \<rightharpoonup> bytes"

definition Save ::
  "(os_call \<Rightarrow> bool) \<Rightarrow> nat option \<Rightarrow> Snapshot \<Rightarrow> (string \<times> (goerr + bytes)) list \<Rightarrow> files \<Rightarrow> goerr option \<times> files" where
  "Save fails space s secs fs =
     (let tmpPath = snap_path s @ ''.tmp'';
          failed = (\<lambda>msg oper path. Some (SnapshotError path (WrappedError msg (PlainError oper)) oper));
          removed = (\<lambda>fs. if fails OsRemove then fs else fs(tmpPath := None))
      in if fails OsCreate then (failed ''failed to create temporary snapshot file'' ''CREATE'' tmpPath, fs)
         else (case SaveSnapshot s secs of (err, out) \<Rightarrow>
           (let (err, out) = (case space of
                  None \<Rightarrow> (err, out)
                | Some n \<Rightarrow> if n < length out then (failed ''write'' ''WRITE'' (snap_path s), take n out) else (err, out));
                fs1 = fs(tmpPath \<mapsto> out)
            in if err \<noteq> None then (err, removed fs1)
               else if fails OsSync then (failed ''failed to sync snapshot file'' ''SYNC'' tmpPath, removed fs1)
               else if fails OsClose then (failed ''failed to close snapshot file'' ''CLOSE'' tmpPath, removed fs1)
               else if fails OsRename then (failed ''failed to rename snapshot file'' ''RENAME'' (snap_path s), removed fs1)
               else (None, fs1(tmpPath := None, snap_path s \<mapsto> out)))))"

text \<open>
  \<open>des\<close> is the callback: it reads a section through a \<open>LimitReader\<close> and returns its error and what it
  left.  What it left is skipped; the file may end before (\<open>CopyN\<close>).
\<close>

definition load_section ::
  "string \<Rightarrow> (string \<Rightarrow> bytes \<Rightarrow> 's \<Rightarrow> goerr option \<times> bytes \<times> 's) \<Rightarrow> bytes \<Rightarrow> 's \<Rightarrow> goerr option \<times> bytes \<times> 's" where
  "load_section path des bs s =
     (case and_then ReadBytes (\<lambda>engineID. and_then (ReadUintValue 8) (\<lambda>len. yields (engineID, len))) bs of
        Inl err \<Rightarrow> (Some (SnapshotError path (JoinedError [Sentinel ErrSnapshotReadFailed, ioerr_err err]) ''READ''), [], s)
      | Inr ((engineID, sectionLen), rest) \<Rightarrow>
          (let limit = wrap64 (int sectionLen); sec = take (nat limit) rest in
           case des engineID sec s of
             (Some err, left, s') \<Rightarrow> (Some (SnapshotError path err ''LOAD''), [], s')
           | (None, left, s') \<Rightarrow>
               (let consumed = length sec - length left; remaining = limit - int consumed; rest' = drop consumed rest
                in if 0 < remaining \<and> int (length rest') < remaining
                   then (Some (SnapshotError path (JoinedError [Sentinel ErrSnapshotReadFailed, ioerr_err EOF]) ''READ''), [], s')
                   else (None, drop (nat remaining) rest', s'))))"

fun load_sections ::
  "string \<Rightarrow> (string \<Rightarrow> bytes \<Rightarrow> 's \<Rightarrow> goerr option \<times> bytes \<times> 's) \<Rightarrow> nat \<Rightarrow> bytes \<Rightarrow> 's \<Rightarrow> goerr option \<times> 's" where
  "load_sections path des 0 bs s = (None, s)"
| "load_sections path des (Suc n) bs s =
     (case load_section path des bs s of
        (Some err, rest, s') \<Rightarrow> (Some err, s')
      | (None, rest, s') \<Rightarrow> load_sections path des n rest s')"

definition LoadSnapshot ::
  "Snapshot \<Rightarrow> (string \<Rightarrow> bytes \<Rightarrow> 's \<Rightarrow> goerr option \<times> bytes \<times> 's) \<Rightarrow> bytes \<Rightarrow> 's \<Rightarrow> goerr option \<times> Snapshot \<times> 's" where
  "LoadSnapshot sn des bs s =
     (case ReadSnapshotHeader bs of
        Inl err \<Rightarrow>
          (Some (SnapshotError (snap_path sn) (JoinedError [Sentinel ErrSnapshotReadFailed, ioerr_err err]) ''LOAD''), sn, s)
      | Inr (header, rest) \<Rightarrow>
          (case Validate header of
             Some err \<Rightarrow> (Some (SnapshotError (snap_path sn) err ''LOAD''), sn, s)
           | None \<Rightarrow>
               (case load_sections (snap_path sn) des (header_count header) rest s of
                  (err, s') \<Rightarrow> (err, sn\<lparr>sHeader := header\<rparr>, s'))))"

text \<open>\<^term>\<open>None\<close>: the file does not exist (\<open>os.ErrNotExist\<close>).\<close>

definition Load ::
  "Snapshot \<Rightarrow> (string \<Rightarrow> bytes \<Rightarrow> 's \<Rightarrow> goerr option \<times> bytes \<times> 's) \<Rightarrow> files \<Rightarrow> 's \<Rightarrow>
   (goerr option \<times> Snapshot \<times> 's) option" where
  "Load sn des fs s =
     (case fs (snap_path sn) of None \<Rightarrow> None | Some bs \<Rightarrow> Some (LoadSnapshot sn des bs s))"

definition snapshot_Delete :: "(os_call \<Rightarrow> bool) \<Rightarrow> Snapshot \<Rightarrow> files \<Rightarrow> goerr option \<times> files" where
  "snapshot_Delete fails sn fs =
     (if fs (snap_path sn) \<noteq> None \<and> fails OsRemove
      then (Some (SnapshotError (snap_path sn) (WrappedError ''failed to delete snapshot file'' (PlainError ''DELETE'')) ''DELETE''), fs)
      else (None, fs(snap_path sn := None)))"

text \<open>Giving the sections to the callback one after the other, until it fails.\<close>

fun apply_sections ::
  "string \<Rightarrow> (string \<Rightarrow> bytes \<Rightarrow> 's \<Rightarrow> goerr option \<times> bytes \<times> 's) \<Rightarrow> (string \<times> bytes) list \<Rightarrow> 's \<Rightarrow> goerr option \<times> 's" where
  "apply_sections path des [] s = (None, s)"
| "apply_sections path des ((engineID, buf) # secs) s =
     (case des engineID buf s of
        (Some err, left, s') \<Rightarrow> (Some (SnapshotError path err ''LOAD''), s')
      | (None, left, s') \<Rightarrow> apply_sections path des secs s')"

definition section_fits :: "string \<times> bytes \<Rightarrow> bool" where
  "section_fits = (\<lambda>(engineID, buf). length engineID < 2 ^ 32 \<and> length buf < 2 ^ 63)"

lemma write_sections_ok:
  "write_sections path (map (\<lambda>(i, b). (i, Inr b)) secs) =
     (None, concat (map (\<lambda>(i, b). WriteBytes i @ WriteUintValue 8 (length b) @ b) secs))"
  by (induction secs) auto

lemma load_sections_back:
  assumes "list_all section_fits secs"
    "\<And>i bs s err left s'. (i, bs) \<in> set secs \<Longrightarrow> des i bs s = (err, left, s') \<Longrightarrow> length left \<le> length bs"
  shows "load_sections path des (length secs)
    (concat (map (\<lambda>(i, b). WriteBytes i @ WriteUintValue 8 (length b) @ b) secs)) s = apply_sections path des secs s"
  using assms
proof (induction secs arbitrary: s)
  case (Cons sec secs)
  obtain i b where sec: "sec = (i, b)" by (cases sec)
  have fit: "length i < 2 ^ 32" "length b < 256 ^ 8" "wrap64 (int (length b)) = int (length b)"
    using Cons.prems sec by (auto simp: section_fits_def intro!: wrap64_id simp: int64_range_def)
  obtain err left s' where d: "des i b s = (err, left, s')" by (metis prod_cases3)
  have l: "length left \<le> length b" using Cons.prems(2) [OF _ d] sec by simp
  have IH: "load_sections path des (length secs)
      (concat (map (\<lambda>(i, b). WriteBytes i @ WriteUintValue 8 (length b) @ b) secs)) t = apply_sections path des secs t" for t
    by (rule Cons.IH, use Cons.prems(1) in simp, rule Cons.prems(2) [OF list.set_intros(2)])
  show ?case
  proof (cases err)
    case None
    have "nat (int (length b) - int (length b - length left)) = length left" using l by simp
    then show ?thesis
      using IH sec fit d l None
      by (simp add: load_section_def and_then_back yields_def reads_back Let_def)
  next
    case (Some a)
    then show ?thesis using sec fit d by (simp add: load_section_def and_then_back yields_def reads_back Let_def)
  qed
qed simp

end
