(* ===== verification/SnapshotProps.thy ===== *)
theory SnapshotProps
  imports Snapshots ListRecovery SetProps
begin

text \<open>
  The properties of the snapshots: an engine reads back the state it wrote, a state cut short is refused,
  the file is replaced as a whole or not at all, and its sections reach the callback as they were written.
\<close>

lemma kv_snapshot_back:
  assumes "kv_inv e" "map_iter ks (data e)" "card (dom (data e)) < 2 ^ 64"
    "\<And>k p. data e k = Some p \<Longrightarrow> length k < 2 ^ 32 \<and> kv_fits p"
  shows "\<exists>e'. kv_DeserializeState (kv_SerializeState ks e @ rest) e0 = (None, rest, e') \<and> kv_inv e' \<and> data e' = data e"
proof -
  have "kv_codec.fits e" unfolding kv_codec.fits_def using assms(3,4) by blast
  then show ?thesis
    using kv_codec.state_back [OF assms(1,2)] by (simp add: kv_DeserializeState_def kv_SerializeState_def)
qed

text \<open>
  C11.  A key-value engine reads back what it wrote, whatever it held before and whatever follows: the
  same data, with a heap and an expiration map that agree with it.
\<close>

theorem kv_snapshot_roundtrip:
  assumes "kv_inv e" "map_iter ks (data e)" "card (dom (data e)) < 2 ^ 64"
    "\<And>k p. data e k = Some p \<Longrightarrow> length k < 2 ^ 32 \<and> kv_fits p"
  shows "\<exists>e'. kv_DeserializeState (kv_SerializeState ks e @ rest) e0 = (None, rest, e') \<and> kv_inv e' \<and> data e' = data e"
  by (rule kv_snapshot_back [OF assms])

lemma kv_snapshot_roundtrip_witness:
  "\<exists>e'. kv_DeserializeState (kv_SerializeState [''n''] kv_one @ []) new_engine = (None, [], e') \<and> kv_inv e' \<and> data e' = data kv_one"
proof (rule kv_snapshot_roundtrip [OF kv_one_inv kv_one_iter])
  show "length k < 2 ^ 32 \<and> kv_fits p" if "data kv_one k = Some p" for k p
    using that by (auto simp: kv_one_def kv_fits_def times_fit_def NewPayload_def NewPayloadMetadata_def int64_range_def split: if_splits)
qed (simp add: kv_one_def)

lemma list_snapshot_back:
  assumes "list_inv e" "map_iter ks (data e)" "card (dom (data e)) < 2 ^ 64"
    "\<And>k v. data e k = Some v \<Longrightarrow> length k < 2 ^ 32 \<and> list_fits v"
  shows "\<exists>e'. list_DeserializeState (list_SerializeState ks e @ rest) e0 = (None, rest, e') \<and> list_inv e' \<and> data e' = data e"
proof -
  have "list_codec.fits e" unfolding list_codec.fits_def using assms(3,4) by blast
  then show ?thesis
    using list_codec.state_back [OF assms(1,2)] by (simp add: list_DeserializeState_def list_SerializeState_def)
qed

lemma set_snapshot_back:
  assumes "iter_ok iter" "set_inv d" "map_iter js (data d)" "card (dom (data d)) < 2 ^ 64"
    "\<And>k v. data d k = Some v \<Longrightarrow> length k < 2 ^ 32 \<and> set_fits v"
  shows "\<exists>d'. set_DeserializeState (set_SerializeState iter js d @ rest) d0 = (None, rest, d') \<and> set_inv d' \<and> data d' = data d"
proof -
  have "set_codec.fits iter d" unfolding set_codec.fits_def set_codec_ok_def using assms(1,4,5) by blast
  then obtain d' where "set_DeserializeState (set_SerializeState iter js d @ rest) d0 = (None, rest, d')"
    "engine_inv set_expiresAt d'" "data d' = data d"
    using set_codec.state_back [OF set_inv_engine [OF assms(2)] assms(3)]
    unfolding set_DeserializeState_def set_SerializeState_def by blast
  then show ?thesis using assms(2) by (auto simp: set_inv_def)
qed

text \<open>
  A list engine and a set engine read back what they wrote; the order in which a set was written
  does not matter.
\<close>

theorem list_set_snapshot_roundtrip:
  assumes "list_inv e" "map_iter ks (data e)" "card (dom (data e)) < 2 ^ 64"
    "\<And>k v. data e k = Some v \<Longrightarrow> length k < 2 ^ 32 \<and> list_fits v"
    "iter_ok iter" "set_inv d" "map_iter js (data d)" "card (dom (data d)) < 2 ^ 64"
    "\<And>k v. data d k = Some v \<Longrightarrow> length k < 2 ^ 32 \<and> set_fits v"
  shows "(\<exists>e'. list_DeserializeState (list_SerializeState ks e @ rest) e0 = (None, rest, e') \<and> list_inv e' \<and> data e' = data e) \<and>
    (\<exists>d'. set_DeserializeState (set_SerializeState iter js d @ rest) d0 = (None, rest, d') \<and> set_inv d' \<and> data d' = data d)"
  by (rule conjI [OF list_snapshot_back [OF assms(1-4)] set_snapshot_back [OF assms(5-9)]])

lemma list_set_snapshot_roundtrip_witness:
  "(\<exists>e'. list_DeserializeState (list_SerializeState [''l''] list_one @ []) new_engine = (None, [], e') \<and> list_inv e' \<and> data e' = data list_one) \<and>
    (\<exists>d'. set_DeserializeState (set_SerializeState sorted_list_of_set [] new_engine @ []) new_engine = (None, [], d') \<and> set_inv d' \<and>
      data d' = data (new_engine :: SetStorage))"
proof (rule list_set_snapshot_roundtrip)
  show "list_inv list_one" using list_reach_inv [OF list_one_reach] by simp
  show "map_iter [''l''] (data list_one)" by (rule list_one_iter)
  show "length k < 2 ^ 32 \<and> list_fits v" if "data list_one k = Some v" for k v
    using that by (auto simp: list_one_def list_fits_def times_fit_def NewValue_def int64_range_def split: if_splits)
  show "card (dom (data list_one)) < 2 ^ 64" by (simp add: list_one_def)
qed (simp_all add: iter_ok_sorted map_iter_def)

text \<open>
  C12.  A state of a key-value engine that is cut short, at any byte, is refused with an error.
\<close>

theorem kv_snapshot_truncated:
  assumes "kv_inv e" "map_iter ks (data e)" "card (dom (data e)) < 2 ^ 64"
    "\<And>k p. data e k = Some p \<Longrightarrow> length k < 2 ^ 32 \<and> kv_fits p" "n < length (kv_SerializeState ks e)"
  shows "fst (kv_DeserializeState (take n (kv_SerializeState ks e)) e0) \<noteq> None"
proof -
  have "kv_codec.fits e" unfolding kv_codec.fits_def using assms(3,4) by blast
  then show ?thesis
    using kv_codec.state_truncated [OF assms(1,2)] assms(5) by (simp add: kv_DeserializeState_def kv_SerializeState_def)
qed

lemma kv_snapshot_truncated_witness:
  "fst (kv_DeserializeState (take 9 (kv_SerializeState [''n''] kv_one)) new_engine) \<noteq> None"
proof (rule kv_snapshot_truncated [OF kv_one_inv kv_one_iter])
  show "length k < 2 ^ 32 \<and> kv_fits p" if "data kv_one k = Some p" for k p
    using that by (auto simp: kv_one_def kv_fits_def times_fit_def NewPayload_def NewPayloadMetadata_def int64_range_def split: if_splits)
  show "9 < length (kv_SerializeState [''n''] kv_one)"
    by (simp add: kv_SerializeState_def write_state_def kv_one_def WriteUintValue_def WriteBytes_def)
qed (simp add: kv_one_def)

lemma saved_sections:
  assumes "Save fails space sn (map (\<lambda>(i, b). (i, Inr b)) secs) fs = (err, fs')" "list_all section_fits secs"
    "length secs < 2 ^ 64" "\<And>i bs s r left s'. (i, bs) \<in> set secs \<Longrightarrow> des i bs s = (r, left, s') \<Longrightarrow> length left \<le> length bs"
  shows "(err \<noteq> None \<longrightarrow> fs' (snap_path sn) = fs (snap_path sn)) \<and>
    (err = None \<longrightarrow> (\<exists>sn'. Load sn des fs' s =
      Some (fst (apply_sections (snap_path sn) des secs s), sn', snd (apply_sections (snap_path sn) des secs s))))"
proof -
  have tmp: "snap_path sn @ ''.tmp'' \<noteq> snap_path sn" by simp
  let ?out = "WriteHeader (length secs) @ concat (map (\<lambda>(i, b). WriteBytes i @ WriteUintValue 8 (length b) @ b) secs)"
  have full: "SaveSnapshot sn (map (\<lambda>(i, b). (i, Inr b)) secs) = (None, ?out)"
    by (simp add: SaveSnapshot_def write_sections_ok)
  have "fs' (snap_path sn) = fs (snap_path sn)" if "err \<noteq> None"
    using assms(1) that tmp unfolding Save_def full by (auto simp: Let_def split: if_splits option.splits)
  moreover have "fs' (snap_path sn) = Some ?out" if "err = None"
    using assms(1) that unfolding Save_def full by (auto simp: Let_def split: if_splits option.splits)
  moreover have "LoadSnapshot sn des ?out s = (fst (apply_sections (snap_path sn) des secs s),
      sn\<lparr>sHeader := CreateSnapshotHeader (length secs)\<rparr>, snd (apply_sections (snap_path sn) des secs s))"
  proof -
    have "load_sections (snap_path sn) des (length secs)
        (concat (map (\<lambda>(i, b). WriteBytes i @ WriteUintValue 8 (length b) @ b) secs)) s = apply_sections (snap_path sn) des secs s"
      by (rule load_sections_back [OF assms(2) assms(4)])
    moreover have "header_count (CreateSnapshotHeader (length secs)) = length secs" by (simp add: CreateSnapshotHeader_def)
    ultimately show ?thesis by (simp add: LoadSnapshot_def ReadSnapshotHeader_back [OF assms(3)] split_beta)
  qed
  ultimately show ?thesis by (auto simp: Load_def)
qed

text \<open>
  C13.  Saving a snapshot replaces the file as a whole: when it succeeds the file holds the header and all
  sections, when any call fails the file is what it was, and loading what was saved gives the callback
  each section in turn, from its first byte to its last.
\<close>

theorem snapshot_file:
  assumes "Save fails space sn (map (\<lambda>(i, b). (i, Inr b)) secs) fs = (err, fs')" "list_all section_fits secs"
    "length secs < 2 ^ 64" "\<And>i bs s r left s'. (i, bs) \<in> set secs \<Longrightarrow> des i bs s = (r, left, s') \<Longrightarrow> length left \<le> length bs"
  shows "(err \<noteq> None \<longrightarrow> fs' (snap_path sn) = fs (snap_path sn)) \<and>
    (err = None \<longrightarrow> (\<exists>sn'. Load sn des fs' s =
      Some (fst (apply_sections (snap_path sn) des secs s), sn', snd (apply_sections (snap_path sn) des secs s))))"
  by (rule saved_sections [OF assms])

lemma snapshot_file_witness:
  "\<exists>fs' sn'. Save (\<lambda>c. False) None (NewSnapshot ''d'') (map (\<lambda>(i, b). (i, Inr b)) [(''mux'', ''abc'')]) Map.empty = (None, fs') \<and>
    Load (NewSnapshot ''d'') (\<lambda>i b s. (None, [], s @ [(i, b)])) fs' [] =
      Some (fst (apply_sections (snap_path (NewSnapshot ''d'')) (\<lambda>i b s. (None, [], s @ [(i, b)])) [(''mux'', ''abc'')] []), sn',
        snd (apply_sections (snap_path (NewSnapshot ''d'')) (\<lambda>i b s. (None, [], s @ [(i, b)])) [(''mux'', ''abc'')] []))"
proof -
  obtain err fs' where s: "Save (\<lambda>c. False) None (NewSnapshot ''d'') (map (\<lambda>(i, b). (i, Inr b)) [(''mux'', ''abc'')]) Map.empty = (err, fs')"
    by fastforce
  have err: "err = None" using s by (auto simp: Save_def Let_def SaveSnapshot_def split: prod.splits)
  show ?thesis
    using snapshot_file [OF s, of "\<lambda>i b s. (None, [], s @ [(i, b)])" "[]"] s err by (simp add: section_fits_def)
qed

end
