(* ===== verification/Wal.thy ===== *)
theory Wal
  imports Interfaces
begin

text \<open>
  The write-ahead log on disk (\<open>pkg/wal/wal.go\<close>) and the buffer in front of it (\<open>pkg/wal/buffered_wal.go\<close>).
  The file is its content, whether the handle is closed, and \<open>wal_faults\<close>, the outcomes the operating
  system has in store for the next calls: \<^term>\<open>None\<close>, or \<^term>\<open>Some n\<close> for a call that fails (a write
  after \<open>n\<close> bytes).  When the list is exhausted no call fails.
\<close>

record Wal =
  wal_path :: string
  wal_content :: bytes
  wal_closed :: bool
  wal_faults :: "nat option list"

definition NewWal :: "string \<Rightarrow> bytes \<Rightarrow> nat option list \<Rightarrow> Wal" where
  "NewWal path content faults = \<lparr>wal_path = path, wal_content = content, wal_closed = False, wal_faults = faults\<rparr>"

definition wal_failure :: "sentinel \<Rightarrow> goerr list \<Rightarrow> string \<Rightarrow> Wal \<Rightarrow> goerr" where
  "wal_failure s errs oper w = WalError (wal_path w) (JoinedError (Sentinel s # errs)) oper"

text \<open>The outcome of the next call that may fail.\<close>

definition next_fault :: "Wal \<Rightarrow> nat option \<times> Wal" where
  "next_fault w = (case wal_faults w of [] \<Rightarrow> (None, w) | f # fs \<Rightarrow> (f, w\<lparr>wal_faults := fs\<rparr>))"

definition CloseWal :: "Wal \<Rightarrow> goerr option \<times> Wal" where
  "CloseWal w =
     (if wal_closed w then (Some (wal_failure WalFailedToCloseError [PlainError ''file already closed''] ''CLOSE'' w), w)
      else (None, w\<lparr>wal_closed := True\<rparr>))"

definition SyncWal :: "Wal \<Rightarrow> goerr option \<times> Wal" where
  "SyncWal w =
     (if wal_closed w then (Some (wal_failure WalFailedToSyncError [PlainError ''file already closed''] ''SYNC'' w), w)
      else (case next_fault w of
              (None, w') \<Rightarrow> (None, w')
            | (Some n, w') \<Rightarrow> (Some (wal_failure WalFailedToSyncError [PlainError ''sync''] ''SYNC'' w), w')))"

text \<open>A write that fails closes the file.\<close>

definition WriteRaw :: "string \<Rightarrow> Wal \<Rightarrow> (nat \<times> goerr option) \<times> Wal" where
  "WriteRaw actionString w =
     (if wal_closed w then
        ((0, Some (wal_failure WalFailedToWriteError [PlainError ''file already closed'', the (fst (CloseWal w))] ''WRITE'' w)),
         snd (CloseWal w))
      else (case next_fault w of
              (None, w') \<Rightarrow> ((length actionString, None), w'\<lparr>wal_content := wal_content w @ actionString\<rparr>)
            | (Some n, w') \<Rightarrow>
                ((0, Some (wal_failure WalFailedToWriteError [PlainError ''write''] ''WRITE'' w)),
                 snd (CloseWal (w'\<lparr>wal_content := wal_content w @ take n actionString\<rparr>)))))"

definition WriteToWal :: "string \<Rightarrow> Wal \<Rightarrow> (nat \<times> goerr option) \<times> Wal" where
  "WriteToWal actionString w =
     (case WriteRaw actionString w of
        ((n, Some err), w') \<Rightarrow> ((0, Some err), w')
      | ((n, None), w') \<Rightarrow> (case SyncWal w' of (err, w'') \<Rightarrow> ((n, err), w'')))"

text \<open>\<open>Truncate\<close> goes by the path: it works on a closed handle too.\<close>

definition TruncateWal :: "Wal \<Rightarrow> goerr option \<times> Wal" where
  "TruncateWal w =
     (case next_fault w of
        (None, w') \<Rightarrow> (None, w'\<lparr>wal_content := []\<rparr>)
      | (Some n, w') \<Rightarrow> (Some (wal_failure WalFailedToTruncateError [PlainError ''truncate''] ''TRUNCATE'' w), w'))"

subsection \<open>Reading the lines back\<close>

text \<open>
  \<open>bufio.Scanner\<close> with \<open>ScanLines\<close>: the lines without their line end and a final carriage return; a line
  that does not fit the buffer of 65536 bytes stops the scan with an error.
\<close>

fun split_lines :: "bytes \<Rightarrow> string list" where
  "split_lines [] = []"
| "split_lines (c # cs) =
     (if c = CHR 10 then [] # split_lines cs
      else (case split_lines cs of [] \<Rightarrow> [[c]] | l # ls \<Rightarrow> (c # l) # ls))"

definition drop_cr :: "string \<Rightarrow> string" where
  "drop_cr l = (if l \<noteq> [] \<and> last l = CHR 13 then butlast l else l)"

fun scan_tokens :: "string list \<Rightarrow> string list \<times> bool" where
  "scan_tokens [] = ([], False)"
| "scan_tokens (l # ls) =
     (if 65536 \<le> length l then ([], True) else (case scan_tokens ls of (ts, long) \<Rightarrow> (drop_cr l # ts, long)))"

fun apply_lines ::
  "(string \<Rightarrow> 's \<Rightarrow> (goerr option \<times> 's) option) \<Rightarrow> string list \<Rightarrow> 's \<Rightarrow> (goerr option \<times> 's) option" where
  "apply_lines f [] s = Some (None, s)"
| "apply_lines f (l # ls) s =
     Option.bind (f l s) (\<lambda>(err, s'). case err of Some e \<Rightarrow> Some (Some e, s') | None \<Rightarrow> apply_lines f ls s')"

definition RecoverFromWal ::
  "(string \<Rightarrow> 's \<Rightarrow> (goerr option \<times> 's) option) \<Rightarrow> Wal \<Rightarrow> 's \<Rightarrow> (goerr option \<times> 's) option" where
  "RecoverFromWal applyFunc w s =
     (if wal_closed w then Some (Some (wal_failure WalFailedToReadError [PlainError ''file already closed''] ''READ'' w), s)
      else (case scan_tokens (split_lines (wal_content w)) of (ts, long) \<Rightarrow> do {
              (err, s') \<leftarrow> apply_lines applyFunc ts s;
              Some (if err \<noteq> None then (err, s')
                    else if long
                    then (Some (wal_failure WalFailedToReadError [PlainError ''bufio.Scanner: token too long''] ''READ'' w), s')
                    else (None, s')) }))"

subsection \<open>The buffer\<close>

record BufferedWal =
  physicalWal :: Wal
  buffer :: "string list"

definition NewBufferedWal :: "Wal \<Rightarrow> BufferedWal" where
  "NewBufferedWal w = \<lparr>physicalWal = w, buffer = []\<rparr>"

definition SaveToBuffer :: "string \<Rightarrow> string list \<Rightarrow> string list" where
  "SaveToBuffer actionString content = content @ [actionString]"

fun export_loop :: "string list \<Rightarrow> nat \<Rightarrow> Wal \<Rightarrow> (nat \<times> goerr option) \<times> Wal" where
  "export_loop [] i w = (case SyncWal w of (err, w') \<Rightarrow> ((i, err), w'))"
| "export_loop (line # ls) i w =
     (case WriteRaw line w of
        ((n, Some err), w') \<Rightarrow> ((i, Some err), w')
      | ((n, None), w') \<Rightarrow> export_loop ls (Suc i) w')"

definition ExportToWal :: "string list \<Rightarrow> Wal \<Rightarrow> (nat \<times> goerr option) \<times> Wal" where
  "ExportToWal content w = (if content = [] then ((0, None), w) else export_loop content 0 w)"

definition buffered_WriteToWal :: "string \<Rightarrow> BufferedWal \<Rightarrow> (nat \<times> goerr option) \<times> BufferedWal" where
  "buffered_WriteToWal actionString bw =
     ((length actionString, None), bw\<lparr>buffer := SaveToBuffer actionString (buffer bw)\<rparr>)"

definition buffered_WriteRaw :: "string \<Rightarrow> BufferedWal \<Rightarrow> (nat \<times> goerr option) \<times> BufferedWal" where
  "buffered_WriteRaw actionString bw =
     ((length actionString, None), bw\<lparr>buffer := SaveToBuffer actionString (buffer bw)\<rparr>)"

definition buffered_SyncWal :: "BufferedWal \<Rightarrow> goerr option \<times> BufferedWal" where
  "buffered_SyncWal bw =
     (case ExportToWal (buffer bw) (physicalWal bw) of
        ((written, err), w') \<Rightarrow> (err, \<lparr>physicalWal = w', buffer = drop written (buffer bw)\<rparr>))"

definition buffered_RecoverFromWal ::
  "(string \<Rightarrow> 's \<Rightarrow> (goerr option \<times> 's) option) \<Rightarrow> BufferedWal \<Rightarrow> 's \<Rightarrow> (goerr option \<times> BufferedWal \<times> 's) option" where
  "buffered_RecoverFromWal applyFunc bw s =
     (case buffered_SyncWal bw of
        (Some err, bw') \<Rightarrow> Some (Some err, bw', s)
      | (None, bw') \<Rightarrow> map_option (\<lambda>(err, s'). (err, bw', s')) (RecoverFromWal applyFunc (physicalWal bw') s))"

definition buffered_CloseWal :: "BufferedWal \<Rightarrow> goerr option \<times> BufferedWal" where
  "buffered_CloseWal bw =
     (case buffered_SyncWal bw of (err, bw') \<Rightarrow>
        (case CloseWal (physicalWal bw') of (err', w') \<Rightarrow>
           (if err \<noteq> None then err else err', bw'\<lparr>physicalWal := w'\<rparr>)))"

definition buffered_TruncateWal :: "BufferedWal \<Rightarrow> goerr option \<times> BufferedWal" where
  "buffered_TruncateWal bw =
     (case TruncateWal (physicalWal bw) of (err, w') \<Rightarrow> (err, \<lparr>physicalWal = w', buffer = []\<rparr>))"

subsection \<open>Lines\<close>

text \<open>A line that can be logged and read back: no line end inside, no carriage return at the end, and short.\<close>

definition plain_line :: "string \<Rightarrow> bool" where
  "plain_line l \<longleftrightarrow> CHR 10 \<notin> set l \<and> drop_cr l = l \<and> length l < 65536"

lemma split_lines_line: "CHR 10 \<notin> set l \<Longrightarrow> split_lines (l @ CHR 10 # cs) = l # split_lines cs"
  by (induction l) auto

lemma split_lines_lines:
  "\<forall>l \<in> set ls. CHR 10 \<notin> set l \<Longrightarrow> split_lines (concat (map (\<lambda>l. l @ [CHR 10]) ls) @ cs) = ls @ split_lines cs"
  by (induction ls) (simp_all add: split_lines_line)

lemma scan_tokens_plain: "\<forall>l \<in> set ls. plain_line l \<Longrightarrow> scan_tokens ls = (ls, False)"
  by (induction ls) (auto simp: plain_line_def)

lemma scan_lines_back:
  "\<forall>l \<in> set ls. plain_line l \<Longrightarrow> scan_tokens (split_lines (concat (map (\<lambda>l. l @ [CHR 10]) ls))) = (ls, False)"
  using split_lines_lines [of ls "[]"] scan_tokens_plain [of ls] by (simp add: plain_line_def)

lemma split_lines_eq_Nil [simp]: "split_lines xs = [] \<longleftrightarrow> xs = []"
  by (cases xs) (auto split: list.splits)

lemma split_lines_append:
  "split_lines (concat (map (\<lambda>l. l @ [CHR 10]) ls) @ cs) = split_lines (concat (map (\<lambda>l. l @ [CHR 10]) ls)) @ split_lines cs"
proof (induction ls)
  case (Cons l ls)
  have line: "split_lines (l @ CHR 10 # ds) = split_lines (l @ [CHR 10]) @ split_lines ds" for ds
  proof (induction l)
    case (Cons a l)
    then show ?case by (cases "split_lines (l @ [CHR 10])") simp_all
  qed simp
  let ?C = "concat (map (\<lambda>l. l @ [CHR 10]) ls)"
  show ?case using Cons line [of "?C @ cs"] line [of ?C] by simp
qed simp

lemma scan_tokens_long:
  "\<forall>l \<in> set ls. plain_line l \<Longrightarrow> 65536 \<le> length l' \<Longrightarrow> scan_tokens (ls @ l' # ls') = (ls, True)"
  by (induction ls) (auto simp: plain_line_def)

lemma apply_lines_append:
  "apply_lines f (xs @ ys) s = do {
     (err, s') \<leftarrow> apply_lines f xs s;
     (case err of Some e \<Rightarrow> Some (Some e, s') | None \<Rightarrow> apply_lines f ys s') }"
proof (induction xs arbitrary: s)
  case (Cons x xs)
  then show ?case by (cases "f x s") (auto split: option.splits)
qed simp

subsection \<open>Writing out the buffer\<close>

lemma next_fault_content: "next_fault w = (f, w') \<Longrightarrow> wal_content w' = wal_content w \<and> wal_closed w' = wal_closed w \<and> wal_path w' = wal_path w"
  by (auto simp: next_fault_def split: list.splits)

text \<open>
  What a flush does to the file and the buffer: all lines are written, or the first \<open>k\<close> and a part of the
  next, which stays in the buffer.
\<close>

lemma export_loop_spec:
  "export_loop ls i w = ((k, err), w') \<Longrightarrow>
   i \<le> k \<and> k \<le> i + length ls \<and>
   (if k - i = length ls then wal_content w' = wal_content w @ concat ls
    else err \<noteq> None \<and> (\<exists>p. wal_content w' = wal_content w @ concat (take (k - i) ls) @ take p (ls ! (k - i))))"
proof (induction ls i w rule: export_loop.induct)
  case (1 i w)
  then show ?case by (auto simp: SyncWal_def split: prod.splits option.splits if_splits dest: next_fault_content)
next
  case (2 line ls i w)
  obtain n e1 w1 where wr: "WriteRaw line w = ((n, e1), w1)" by (metis prod.collapse)
  show ?case
  proof (cases e1)
    case None
    then have c: "wal_content w1 = wal_content w @ line"
      using wr by (auto simp: WriteRaw_def split: if_splits prod.splits option.splits)
    have ex: "export_loop ls (Suc i) w1 = ((k, err), w')" using 2(2) wr None by simp
    note IH = 2(1) [OF wr [unfolded None, symmetric] refl refl ex]
    then have "k - i = Suc (k - Suc i)" by auto
    then show ?thesis using IH c by auto
  next
    case (Some e)
    then have k: "k = i" "err = Some e" "w' = w1" using 2(2) wr by auto
    have "\<exists>p. wal_content w1 = wal_content w @ take p line"
      using wr Some by (auto simp: WriteRaw_def CloseWal_def split: if_splits prod.splits option.splits dest: next_fault_content intro: exI [of _ 0])
    then show ?thesis using k by auto
  qed
qed

lemma sync_spec:
  assumes "buffered_SyncWal bw = (err, bw')"
  shows "(err = None \<longrightarrow> buffer bw' = [] \<and> wal_content (physicalWal bw') = wal_content (physicalWal bw) @ concat (buffer bw)) \<and>
    (\<exists>k p. k \<le> length (buffer bw) \<and> buffer bw' = drop k (buffer bw) \<and>
      wal_content (physicalWal bw') = wal_content (physicalWal bw) @ concat (take k (buffer bw)) @ take p (concat (drop k (buffer bw))))"
proof (cases "buffer bw = []")
  case True
  then show ?thesis using assms by (auto simp: buffered_SyncWal_def ExportToWal_def)
next
  case False
  obtain k e w' where ex: "export_loop (buffer bw) 0 (physicalWal bw) = ((k, e), w')" by (metis prod.collapse)
  then have bw': "err = e" "bw' = \<lparr>physicalWal = w', buffer = drop k (buffer bw)\<rparr>"
    using assms False by (auto simp: buffered_SyncWal_def ExportToWal_def)
  note s = export_loop_spec [OF ex, simplified]
  show ?thesis
  proof (cases "k = length (buffer bw)")
    case True
    then show ?thesis using s bw' by (auto intro!: exI [of _ "length (buffer bw)"])
  next
    case False
    then obtain p where p: "wal_content w' = wal_content (physicalWal bw) @ concat (take k (buffer bw)) @ take p (buffer bw ! k)"
      and "k < length (buffer bw)" "e \<noteq> None" using s by auto
    moreover have "take p (buffer bw ! k) = take (min p (length (buffer bw ! k))) (concat (drop k (buffer bw)))"
      using \<open>k < length (buffer bw)\<close> by (simp add: Cons_nth_drop_Suc [symmetric] min_def)
    ultimately show ?thesis
      unfolding bw' by (intro conjI exI [of _ k] exI [of _ "min p (length (buffer bw ! k))"]) auto
  qed
qed

end
