(* ===== verification/Persistence.thy ===== *)
theory Persistence
  imports Wal Snapshots
begin

text \<open>
  \<open>pkg/persistence/persistence.go\<close>: the log lines, the recovery from snapshot and log, the snapshot that
  empties the log.  An engine is the record of its methods (the Go interface \<open>Engine\<close>) on a state \<open>'s\<close>
  that the engines share; the recovery of an entry may panic, \<^term>\<open>None\<close>.  The manager is a pointer to
  a struct: its operations return it updated.
\<close>

subsection \<open>Log lines\<close>

definition log_line :: "string \<Rightarrow> string \<Rightarrow> string list \<Rightarrow> string" where
  "log_line engineID action args = join_char CHR ''|'' (engineID # action # args)"

text \<open>The entry of a line, as the recovery takes it apart; lines with fewer than two parts are passed over.\<close>

definition parse_line :: "string \<Rightarrow> wal_entry option" where
  "parse_line l = (case split_char CHR ''|'' l of engineID # action # args \<Rightarrow> Some (engineID, action, args) | _ \<Rightarrow> None)"

lemma wal_safe_no_bar: "wal_safe s \<Longrightarrow> CHR ''|'' \<notin> set s"
  by (auto simp: wal_safe_def wal_char_def list_all_iff)

lemma parse_log_line [codec_simps]:
  assumes "wal_safe e" "wal_safe a" "\<forall>x \<in> set args. wal_safe x"
  shows "parse_line (log_line e a args) = Some (e, a, args)"
proof -
  have "split_char CHR ''|'' (log_line e a args) = e # a # args"
    unfolding log_line_def using assms by (intro split_join) (auto dest: wal_safe_no_bar)
  then show ?thesis by (simp add: parse_line_def)
qed

lemma set_join_char: "set (join_char c ps) \<subseteq> insert c (\<Union>p \<in> set ps. set p)"
  by (induction c ps rule: join_char.induct) auto

text \<open>A line of safe parts is one line of the file, if it is short.\<close>

lemma plain_log_line:
  assumes "wal_safe e" "wal_safe a" "\<forall>x \<in> set args. wal_safe x" "length (log_line e a args) < 65536"
  shows "plain_line (log_line e a args)"
proof -
  have "CHR 10 \<notin> set p \<and> CHR 13 \<notin> set p" if "wal_safe p" for p
    using that by (auto simp: wal_safe_def wal_char_def list_all_iff)
  then have "CHR 10 \<notin> set (log_line e a args) \<and> CHR 13 \<notin> set (log_line e a args)"
    using set_join_char [of "CHR ''|''" "e # a # args"] assms(1-3) by (auto simp: log_line_def)
  moreover from this have "log_line e a args \<noteq> [] \<longrightarrow> last (log_line e a args) \<noteq> CHR 13" using last_in_set by metis
  ultimately show ?thesis using assms(4) by (auto simp: plain_line_def drop_cr_def)
qed

subsection \<open>The manager\<close>

record 's engine_methods =
  ProcessWalEntry :: "string \<Rightarrow> string list \<Rightarrow> 's \<Rightarrow> (goerr option \<times> 's) option"
  SerializeState :: "'s \<Rightarrow> goerr + bytes"
  DeserializeState :: "bytes \<Rightarrow> 's \<Rightarrow> goerr option \<times> bytes \<times> 's"
  ResetState :: "'s \<Rightarrow> goerr option \<times> 's"
  ClearState :: "'s \<Rightarrow> goerr option \<times> 's"

type_synonym 's delegate = "string \<Rightarrow> string \<Rightarrow> string list \<Rightarrow> 's \<Rightarrow> (goerr option \<times> 's) option"

record 's PersistenceManager =
  pm_wal :: BufferedWal
  pm_snapshot :: "Snapshot option"
  engines :: "string \<rightharpoonup> 's engine_methods"
  fallbackEngine :: "'s delegate option"

definition NewPersistenceManager :: "BufferedWal \<Rightarrow> Snapshot option \<Rightarrow> 's PersistenceManager" where
  "NewPersistenceManager w s = \<lparr>pm_wal = w, pm_snapshot = s, engines = Map.empty, fallbackEngine = None\<rparr>"

definition RegisterEngine :: "string \<Rightarrow> 's engine_methods \<Rightarrow> 's PersistenceManager \<Rightarrow> 's PersistenceManager" where
  "RegisterEngine engineID e pm = pm\<lparr>engines := (engines pm)(engineID \<mapsto> e)\<rparr>"

definition RegisterFallbackEngine :: "'s delegate \<Rightarrow> 's PersistenceManager \<Rightarrow> 's PersistenceManager" where
  "RegisterFallbackEngine e pm = pm\<lparr>fallbackEngine := Some e\<rparr>"

definition PersistenceManager_Log :: "'s PersistenceManager logger" where
  "PersistenceManager_Log engineID action args pm =
     (case buffered_WriteToWal (log_line engineID action args @ [CHR 10]) (pm_wal pm) of
        ((n, err), w) \<Rightarrow> (err, pm\<lparr>pm_wal := w\<rparr>))"

subsection \<open>Recovery\<close>

definition contains :: "string list \<Rightarrow> string \<Rightarrow> bool" where
  "contains xs x \<longleftrightarrow> x \<in> set xs"

definition snapshot_callback ::
  "string list \<Rightarrow> (string \<rightharpoonup> 's engine_methods) \<Rightarrow> string \<Rightarrow> bytes \<Rightarrow> 's \<Rightarrow> goerr option \<times> bytes \<times> 's" where
  "snapshot_callback restoreOnly es engineID r s =
     (if restoreOnly \<noteq> [] \<and> \<not> contains restoreOnly engineID then (None, r, s)
      else (case es engineID of
              None \<Rightarrow> (Some (PlainError ''unregistered engine in snapshot''), r, s)
            | Some e \<Rightarrow> DeserializeState e r s))"

text \<open>Pass 1 gathers the transactions that began and did not commit.\<close>

definition tx_line :: "string \<Rightarrow> string set \<Rightarrow> (goerr option \<times> string set) option" where
  "tx_line line active =
     (case split_char CHR ''|'' line of
        t # action # txID # rest \<Rightarrow>
          if t = ''tx'' then
            Some (None, if action = ''TX_BEGIN'' then insert txID active
                        else if action = ''TX_COMMIT'' then active - {txID} else active)
          else Some (None, active)
      | _ \<Rightarrow> Some (None, active))"

text \<open>Pass 2 replays the entries; \<open>cur\<close> is \<open>currentTxID\<close>.\<close>

definition replay_line ::
  "string list \<Rightarrow> (string \<rightharpoonup> 's engine_methods) \<Rightarrow> 's delegate option \<Rightarrow> string set \<Rightarrow> string \<Rightarrow> string \<times> 's \<Rightarrow>
   (goerr option \<times> string \<times> 's) option" where
  "replay_line restoreOnly es fallback incompleteTxs line = (\<lambda>(cur, s).
     (case split_char CHR ''|'' line of
        engineID # action # args \<Rightarrow>
          if engineID = ''tx'' \<and> args \<noteq> [] then
            Some (None, if action = ''TX_BEGIN'' then hd args else if action = ''TX_COMMIT'' then [] else cur, s)
          else if cur \<noteq> [] \<and> cur \<in> incompleteTxs then Some (None, cur, s)
          else if restoreOnly \<noteq> [] \<and> \<not> contains restoreOnly engineID then Some (None, cur, s)
          else (case es engineID of
                  None \<Rightarrow>
                    (case fallback of
                       None \<Rightarrow> Some (Some (PlainError ''unregistered engine in WAL''), cur, s)
                     | Some f \<Rightarrow> map_option (\<lambda>(err, s'). (err, cur, s')) (f engineID action args s))
                | Some e \<Rightarrow> map_option (\<lambda>(err, s'). (err, cur, s')) (ProcessWalEntry e action args s))
      | _ \<Rightarrow> Some (None, cur, s)))"

definition replay_wal ::
  "string list \<Rightarrow> 's PersistenceManager \<Rightarrow> 's \<Rightarrow> (goerr option \<times> 's PersistenceManager \<times> 's) option" where
  "replay_wal restoreOnly pm s = do {
     (err1, w1, incompleteTxs) \<leftarrow> buffered_RecoverFromWal tx_line (pm_wal pm) {};
     (err2, w2, cur, s') \<leftarrow>
       buffered_RecoverFromWal (replay_line restoreOnly (engines pm) (fallbackEngine pm) incompleteTxs) w1 ([], s);
     Some (map_option (WrappedError ''failed to recover from WAL'') err2, pm\<lparr>pm_wal := w2\<rparr>, s') }"

definition Restore ::
  "string list \<Rightarrow> files \<Rightarrow> 's PersistenceManager \<Rightarrow> 's \<Rightarrow> (goerr option \<times> 's PersistenceManager \<times> 's) option" where
  "Restore restoreOnly fs pm s =
     (case pm_snapshot pm of
        None \<Rightarrow> replay_wal restoreOnly pm s
      | Some sn \<Rightarrow>
          (case Load sn (snapshot_callback restoreOnly (engines pm)) fs s of
             None \<Rightarrow> replay_wal restoreOnly pm s
           | Some (Some err, sn', s') \<Rightarrow>
               Some (Some (WrappedError ''failed to load snapshot'' err), pm\<lparr>pm_snapshot := Some sn'\<rparr>, s')
           | Some (None, sn', s') \<Rightarrow> replay_wal restoreOnly (pm\<lparr>pm_snapshot := Some sn'\<rparr>) s'))"

subsection \<open>Saving, resetting, clearing\<close>

text \<open>\<open>order\<close> is the order in which the map of the engines is visited.\<close>

definition sections_of :: "string list \<Rightarrow> 's PersistenceManager \<Rightarrow> 's \<Rightarrow> (string \<times> (goerr + bytes)) list" where
  "sections_of order pm s =
     List.map_filter (\<lambda>i. map_option (\<lambda>e. (i, SerializeState e s)) (engines pm i)) order"

definition save_file ::
  "(os_call \<Rightarrow> bool) \<Rightarrow> nat option \<Rightarrow> string list \<Rightarrow> 's PersistenceManager \<Rightarrow> 's \<Rightarrow> files \<Rightarrow> goerr option \<times> files" where
  "save_file fails space order pm s fs =
     (case pm_snapshot pm of
        None \<Rightarrow> (Some (PlainError ''snapshot not initialized''), fs)
      | Some sn \<Rightarrow>
          (case Save fails space sn (sections_of order pm s) fs of
             (err, fs') \<Rightarrow> (map_option (WrappedError ''failed to save snapshot'') err, fs')))"

definition truncate_log :: "'s PersistenceManager \<Rightarrow> goerr option \<times> 's PersistenceManager" where
  "truncate_log pm =
     (case buffered_TruncateWal (pm_wal pm) of
        (err, w) \<Rightarrow> (map_option (WrappedError ''failed to truncate WAL after snapshot'') err, pm\<lparr>pm_wal := w\<rparr>))"

definition pm_SaveSnapshot ::
  "(os_call \<Rightarrow> bool) \<Rightarrow> nat option \<Rightarrow> string list \<Rightarrow> 's PersistenceManager \<Rightarrow> 's \<Rightarrow> files \<Rightarrow>
   goerr option \<times> 's PersistenceManager \<times> files" where
  "pm_SaveSnapshot fails space order pm s fs =
     (case save_file fails space order pm s fs of
        (Some err, fs') \<Rightarrow> (Some err, pm, fs')
      | (None, fs') \<Rightarrow> (case truncate_log pm of (err, pm') \<Rightarrow> (err, pm', fs')))"

fun each_engine :: "('s engine_methods \<Rightarrow> 's \<Rightarrow> goerr option \<times> 's) \<Rightarrow> (string \<rightharpoonup> 's engine_methods) \<Rightarrow> string list \<Rightarrow> 's \<Rightarrow>
   goerr option \<times> 's" where
  "each_engine f es [] s = (None, s)"
| "each_engine f es (i # ids) s =
     (case es i of
        None \<Rightarrow> each_engine f es ids s
      | Some e \<Rightarrow> (case f e s of (Some err, s') \<Rightarrow> (Some err, s') | (None, s') \<Rightarrow> each_engine f es ids s'))"

text \<open>Then the snapshot file goes, then the log.\<close>

definition drop_files ::
  "(os_call \<Rightarrow> bool) \<Rightarrow> 's PersistenceManager \<Rightarrow> files \<Rightarrow> goerr option \<times> 's PersistenceManager \<times> files" where
  "drop_files fails pm fs =
     (case (case pm_snapshot pm of None \<Rightarrow> (None, fs) | Some sn \<Rightarrow> snapshot_Delete fails sn fs) of
        (Some err, fs') \<Rightarrow> (Some err, pm, fs')
      | (None, fs') \<Rightarrow> (case buffered_TruncateWal (pm_wal pm) of (err, w) \<Rightarrow> (err, pm\<lparr>pm_wal := w\<rparr>, fs')))"

definition pm_Reset ::
  "(os_call \<Rightarrow> bool) \<Rightarrow> string list \<Rightarrow> 's PersistenceManager \<Rightarrow> 's \<Rightarrow> files \<Rightarrow>
   goerr option \<times> 's PersistenceManager \<times> 's \<times> files" where
  "pm_Reset fails order pm s fs =
     (case each_engine ResetState (engines pm) order s of
        (Some err, s') \<Rightarrow> (Some err, pm, s', fs)
      | (None, s') \<Rightarrow> (case drop_files fails pm fs of (err, pm', fs') \<Rightarrow> (err, pm', s', fs')))"

definition pm_Clear ::
  "(os_call \<Rightarrow> bool) \<Rightarrow> string list \<Rightarrow> 's PersistenceManager \<Rightarrow> 's \<Rightarrow> files \<Rightarrow>
   goerr option \<times> 's PersistenceManager \<times> 's \<times> files" where
  "pm_Clear fails order pm s fs =
     (case each_engine ClearState (engines pm) order s of
        (Some err, s') \<Rightarrow> (Some err, pm, s', fs)
      | (None, s') \<Rightarrow> (case drop_files fails pm fs of (err, pm', fs') \<Rightarrow> (err, pm', s', fs')))"

subsection \<open>The manager is a durable log\<close>

definition pending :: "'s PersistenceManager \<Rightarrow> string list" where
  "pending pm = buffer (pm_wal pm)"

definition read_line :: "string \<Rightarrow> wal_entry option" where
  "read_line l = parse_line (butlast l)"

interpretation pm_log: durable_log PersistenceManager_Log "\<lambda>e a args. log_line e a args @ [CHR 10]" pending read_line
proof
  show "PersistenceManager_Log e a args w = (None, w') \<Longrightarrow> pending w' = pending w @ [log_line e a args @ [CHR 10]]"
    for e a args and w w' :: "'a PersistenceManager"
    by (auto simp: PersistenceManager_Log_def buffered_WriteToWal_def SaveToBuffer_def pending_def)
  show "PersistenceManager_Log e a args w = (Some err, w') \<Longrightarrow> pending w' = pending w"
    for e a args err and w w' :: "'a PersistenceManager"
    by (simp add: PersistenceManager_Log_def buffered_WriteToWal_def)
  show "fst (PersistenceManager_Log e a args w) = None" for e a args and w :: "'a PersistenceManager"
    by (simp add: PersistenceManager_Log_def buffered_WriteToWal_def)
  show "wal_safe e \<Longrightarrow> wal_safe a \<Longrightarrow> \<forall>x \<in> set args. wal_safe x \<Longrightarrow>
      read_line (log_line e a args @ [CHR 10]) = Some (e, a, args)" for e a args
    by (simp add: read_line_def parse_log_line)
qed

end
