(* ===== verification/Transactions.thy ===== *)
theory Transactions
  imports Persistence
begin

text \<open>
  Transactions: the loop that executes and rolls back (\<open>pkg/transaction/transaction.go\<close>), the logger that
  holds the entries of a transaction back until it commits (\<open>pkg/multiplexer/tx_wal_logger.go\<close>), and the
  logger of a sub-instance, which puts its UUID before the arguments (\<open>scoped_logger.go\<close>).
\<close>

subsection \<open>The logger of a sub-instance\<close>

definition ScopedWalLogger_Log :: "'w logger \<Rightarrow> string \<Rightarrow> 'w logger" where
  "ScopedWalLogger_Log plog uuid engineID action args w = plog engineID action (uuid # args) w"

text \<open>\<open>generateUUID\<close> on the sixteen random bytes \<open>b\<close>.\<close>

unbundle bit_operations_syntax

definition hex_lower :: "nat \<Rightarrow> char" where
  "hex_lower d = (if d < 10 then char_of (48 + d) else char_of (87 + d))"

definition hex_bytes :: "nat list \<Rightarrow> string" where
  "hex_bytes bs = concat (map (\<lambda>b. [hex_lower (b mod 256 div 16), hex_lower (b mod 16)]) bs)"

definition generateUUID :: "nat list \<Rightarrow> string" where
  "generateUUID b0 =
     (let b1 = b0[6 := ((b0 ! 6) AND 0x0f) OR 0x40]; b = b1[8 := ((b1 ! 8) AND 0x3f) OR 0x80]
      in hex_bytes (take 4 b) @ ''-'' @ hex_bytes (take 2 (drop 4 b)) @ ''-'' @ hex_bytes (take 2 (drop 6 b)) @ ''-'' @
         hex_bytes (take 2 (drop 8 b)) @ ''-'' @ hex_bytes (drop 10 b))"

lemma wal_char_hex_lower: "d < 16 \<Longrightarrow> wal_char (hex_lower d)"
proof -
  assume d: "d < 16"
  then have "of_char (hex_lower d) = (if d < 10 then 48 + d else 87 + d :: nat)" by (simp add: hex_lower_def)
  then have "48 \<le> (of_char (hex_lower d) :: nat)" "(of_char (hex_lower d) :: nat) < 104" using d by auto
  then show ?thesis unfolding wal_char_def by auto
qed

lemma wal_safe_hex_bytes: "wal_safe (hex_bytes bs)"
proof -
  have "b mod 256 div 16 < 16" "b mod 16 < 16" for b :: nat
    using div_less_iff_less_mult [of 16 "b mod 256" 16] by simp_all
  then show ?thesis by (induction bs) (simp_all add: hex_bytes_def codec_simps wal_char_hex_lower)
qed

lemma wal_safe_uuid [codec_simps]: "wal_safe (generateUUID b)"
proof -
  have "wal_char (CHR ''-'')" by (simp add: wal_char_def)
  then show ?thesis by (simp add: generateUUID_def Let_def codec_simps wal_safe_hex_bytes)
qed

subsection \<open>The logger of transactions\<close>

record 'w TxWalLogger =
  tx_real :: 'w
  tx_buffer :: "wal_entry list"
  tx_active :: bool

definition NewTxWalLogger :: "'w \<Rightarrow> 'w TxWalLogger" where
  "NewTxWalLogger real_w = \<lparr>tx_real = real_w, tx_buffer = [], tx_active = False\<rparr>"

definition TxWalLogger_Log :: "'w logger \<Rightarrow> 'w TxWalLogger logger" where
  "TxWalLogger_Log real_log engineID action args l =
     (if tx_active l then (None, l\<lparr>tx_buffer := tx_buffer l @ [(engineID, action, args)]\<rparr>)
      else (case real_log engineID action args (tx_real l) of (err, w) \<Rightarrow> (err, l\<lparr>tx_real := w\<rparr>)))"

definition BeginTx :: "'w TxWalLogger \<Rightarrow> 'w TxWalLogger" where
  "BeginTx l = l\<lparr>tx_active := True, tx_buffer := []\<rparr>"

text \<open>The errors of the real logger are ignored.\<close>

fun log_all :: "'w logger \<Rightarrow> wal_entry list \<Rightarrow> 'w \<Rightarrow> 'w" where
  "log_all real_log [] w = w"
| "log_all real_log ((e, a, args) # es) w = log_all real_log es (snd (real_log e a args w))"

definition CommitTx :: "'w logger \<Rightarrow> string \<Rightarrow> 'w TxWalLogger \<Rightarrow> goerr option \<times> 'w TxWalLogger" where
  "CommitTx real_log txID l =
     (if \<not> tx_active l then (None, l)
      else (let w1 = snd (real_log ''tx'' ''TX_BEGIN'' [txID] (tx_real l));
                w2 = log_all real_log (tx_buffer l) w1;
                w3 = snd (real_log ''tx'' ''TX_COMMIT'' [txID] w2)
            in (None, l\<lparr>tx_real := w3, tx_buffer := [], tx_active := False\<rparr>)))"

definition RollbackTx :: "'w TxWalLogger \<Rightarrow> 'w TxWalLogger" where
  "RollbackTx l = l\<lparr>tx_buffer := [], tx_active := False\<rparr>"

text \<open>What the logger holds: what the real one holds, and the entries of the open transaction.\<close>

definition tx_entries :: "(string \<Rightarrow> string \<Rightarrow> string list \<Rightarrow> 'e) \<Rightarrow> ('w \<Rightarrow> 'e list) \<Rightarrow> 'w TxWalLogger \<Rightarrow> 'e list" where
  "tx_entries emit entries l =
     entries (tx_real l) @ (if tx_active l then map (\<lambda>(e, a, args). emit e a args) (tx_buffer l) else [])"

definition unscope :: "string \<Rightarrow> ('e \<Rightarrow> wal_entry option) \<Rightarrow> 'e \<Rightarrow> wal_entry option" where
  "unscope uuid read x =
     (case read x of
        Some (e, a, u # args) \<Rightarrow> if u = uuid then Some (e, a, args) else None
      | _ \<Rightarrow> None)"

context durable_log
begin

lemma tx_durable: "durable_log (TxWalLogger_Log log) emit (tx_entries emit entries) read"
proof
  fix e a args and w w' :: "'w TxWalLogger" and err
  show "TxWalLogger_Log log e a args w = (None, w') \<Longrightarrow> tx_entries emit entries w' = tx_entries emit entries w @ [emit e a args]"
    by (auto simp: TxWalLogger_Log_def tx_entries_def split: if_splits prod.splits dest: log_ok)
  show "TxWalLogger_Log log e a args w = (Some err, w') \<Longrightarrow> tx_entries emit entries w' = tx_entries emit entries w"
    by (auto simp: TxWalLogger_Log_def tx_entries_def split: if_splits prod.splits dest: log_no_err)
  show "fst (TxWalLogger_Log log e a args w) = None"
    using reliable [of e a args "tx_real w"] by (auto simp: TxWalLogger_Log_def split: prod.splits)
qed (rule read_emit)

lemma scoped_durable:
  assumes "wal_safe uuid"
  shows "durable_log (ScopedWalLogger_Log log uuid) (\<lambda>e a args. emit e a (uuid # args)) entries (unscope uuid read)"
proof
  fix e a :: string and args
  assume "wal_safe e" "wal_safe a" "\<forall>x \<in> set args. wal_safe x"
  then show "unscope uuid read (emit e a (uuid # args)) = Some (e, a, args)"
    using read_emit [of e a "uuid # args"] assms by (simp add: unscope_def)
qed (simp_all add: ScopedWalLogger_Log_def log_ok log_err reliable)

lemma log_all_entries: "entries (log_all log es w) = entries w @ map (\<lambda>(e, a, args). emit e a args) es"
proof (induction es arbitrary: w)
  case (Cons x es)
  obtain e a args where x: "x = (e, a, args)" by (metis prod_cases3)
  obtain r w' where "log e a args w = (r, w')" by fastforce
  then show ?case using Cons x log_entries [of e a args w r w'] log_no_err by simp
qed simp

text \<open>A commit adds the block of the transaction in one piece, a rollback nothing.\<close>

lemma commit_entries:
  assumes "tx_active l" "CommitTx log txID l = (err, l')"
  shows "err = None \<and> \<not> tx_active l' \<and> entries (tx_real l') =
    entries (tx_real l) @ emit ''tx'' ''TX_BEGIN'' [txID] # map (\<lambda>(e, a, args). emit e a args) (tx_buffer l) @
      [emit ''tx'' ''TX_COMMIT'' [txID]]"
proof -
  have one: "entries (snd (log e a args w)) = entries w @ [emit e a args]" for e a args w
  proof -
    obtain r w' where lw: "log e a args w = (r, w')" by fastforce
    then show ?thesis using log_entries [OF lw] log_no_err [OF lw] by simp
  qed
  show ?thesis using assms by (auto simp: CommitTx_def Let_def one log_all_entries)
qed

end

interpretation tx_log: durable_log "TxWalLogger_Log PersistenceManager_Log" "\<lambda>e a args. log_line e a args @ [CHR 10]"
  "tx_entries (\<lambda>e a args. log_line e a args @ [CHR 10]) pending" read_line
  by (rule pm_log.tx_durable)

interpretation scoped_log: durable_log "ScopedWalLogger_Log (TxWalLogger_Log PersistenceManager_Log) (generateUUID b)"
  "\<lambda>e a args. log_line e a (generateUUID b # args) @ [CHR 10]"
  "tx_entries (\<lambda>e a args. log_line e a args @ [CHR 10]) pending" "unscope (generateUUID b) read_line"
  for b
  by (rule tx_log.scoped_durable [OF wal_safe_uuid])

subsection \<open>Execution and rollback\<close>

text \<open>
  An operation captures what it needs, changes the state and returns its undo; an undo returns an error
  that is ignored.  Both may panic.
\<close>

type_synonym 's undo = "'s \<Rightarrow> (goerr option \<times> 's) option"
type_synonym 's Op = "'s \<Rightarrow> (('s undo \<times> goerr option) \<times> 's) option"

datatype State = StatePending | StateCommitted | StateRolledBack

text \<open>The constants in the order of their declaration: a transaction only moves forward.\<close>

definition state_iota :: "State \<Rightarrow> nat" where
  "state_iota st = (case st of StatePending \<Rightarrow> 0 | StateCommitted \<Rightarrow> 1 | StateRolledBack \<Rightarrow> 2)"

instantiation State :: linorder
begin

definition less_eq_State :: "State \<Rightarrow> State \<Rightarrow> bool" where
  "less_eq_State st st' \<longleftrightarrow> state_iota st \<le> state_iota st'"

definition less_State :: "State \<Rightarrow> State \<Rightarrow> bool" where
  "less_State st st' \<longleftrightarrow> state_iota st < state_iota st'"

instance
  by standard (auto simp: less_eq_State_def less_State_def state_iota_def split: State.splits)

end

lemma pending_least [simp]: "StatePending \<le> st"
  by (simp add: less_eq_State_def state_iota_def)

record 's Transaction =
  ops :: "'s Op list"
  tx_state :: State

definition new_transaction :: "'s Transaction" where
  "new_transaction = \<lparr>ops = [], tx_state = StatePending\<rparr>"

definition Transaction_Add :: "'s Op \<Rightarrow> 's Transaction \<Rightarrow> goerr option \<times> 's Transaction" where
  "Transaction_Add oper tx =
     (if tx_state tx \<noteq> StatePending then (Some (PlainError ''transaction is not pending''), tx)
      else (None, tx\<lparr>ops := ops tx @ [oper]\<rparr>))"

fun rollback :: "'s undo list \<Rightarrow> 's \<Rightarrow> 's option" where
  "rollback [] s = Some s"
| "rollback (u # us) s = Option.bind (u s) (\<lambda>(err, s'). rollback us s')"

text \<open>\<open>undos\<close> holds the last undo first, the order in which a rollback takes them.\<close>

fun exec_loop :: "nat \<Rightarrow> 's Op list \<Rightarrow> 's undo list \<Rightarrow> 's \<Rightarrow> (goerr option \<times> 's) option" where
  "exec_loop i [] undos s = Some (None, s)"
| "exec_loop i (oper # rest) undos s =
     Option.bind (oper s) (\<lambda>((undo, err), s').
       case err of
         Some e \<Rightarrow> map_option (\<lambda>s''. (Some (WrappedError (''tx failed at op '' @ FormatInt (int i)) e), s'')) (rollback undos s')
       | None \<Rightarrow> exec_loop (Suc i) rest (undo # undos) s')"

definition Transaction_Exec :: "'s Transaction \<Rightarrow> 's \<Rightarrow> (goerr option \<times> 's Transaction \<times> 's) option" where
  "Transaction_Exec tx s =
     (if tx_state tx \<noteq> StatePending then Some (Some (PlainError ''transaction is not pending''), tx, s)
      else map_option (\<lambda>(err, s'). (err, tx\<lparr>tx_state := if err = None then StateCommitted else StateRolledBack\<rparr>, s'))
             (exec_loop 0 (ops tx) [] s))"

definition Discard :: "'s Transaction \<Rightarrow> 's Transaction" where
  "Discard tx = (if tx_state tx = StatePending then tx\<lparr>tx_state := StateRolledBack, ops := []\<rparr> else tx)"

lemma state_forward:
  "Transaction_Exec tx s = Some (err, tx', s') \<Longrightarrow> tx_state tx \<le> tx_state tx' \<and> tx_state tx' \<noteq> StatePending"
  "tx_state tx \<le> tx_state (Discard tx) \<and> tx_state (Discard tx) \<noteq> StatePending"
  "tx_state (snd (Transaction_Add oper tx)) = tx_state tx"
  by (auto simp: Transaction_Exec_def Discard_def Transaction_Add_def split: if_splits)

definition Transaction_Len :: "'s Transaction \<Rightarrow> nat" where
  "Transaction_Len tx = length (ops tx)"

text \<open>
  What the loop relies on, for states with the invariant \<open>J\<close>: an operation that fails leaves the state as it was, up to
  \<open>R\<close>, and the undo of one that succeeds takes any state like the one it left back to the one before.
\<close>

locale undoable =
  fixes J :: "'s \<Rightarrow> bool" and R :: "'s \<Rightarrow> 's \<Rightarrow> bool" and good :: "'s Op \<Rightarrow> bool"
  assumes R_refl: "R s s"
    and R_trans: "R s t \<Longrightarrow> R t s2 \<Longrightarrow> R s s2"
    and returns: "good oper \<Longrightarrow> J s \<Longrightarrow> \<exists>u err s'. oper s = Some ((u, err), s') \<and> J s'"
    and fails: "good oper \<Longrightarrow> J s \<Longrightarrow> oper s = Some ((u, Some e), s') \<Longrightarrow> R s' s"
    and undoes: "good oper \<Longrightarrow> J s \<Longrightarrow> oper s = Some ((u, None), s') \<Longrightarrow> J t \<Longrightarrow> R t s' \<Longrightarrow>
      \<exists>r t'. u t = Some (r, t') \<and> J t' \<and> R t' s"
begin

text \<open>A stack of undos that leads from \<open>s\<close> back to \<open>s0\<close>.\<close>

definition leads_back :: "'s undo list \<Rightarrow> 's \<Rightarrow> 's \<Rightarrow> bool" where
  "leads_back us s s0 \<longleftrightarrow> (\<forall>t. J t \<longrightarrow> R t s \<longrightarrow> (\<exists>t'. rollback us t = Some t' \<and> J t' \<and> R t' s0))"

lemma exec_loop_rollback:
  "list_all good opers \<Longrightarrow> J s \<Longrightarrow> leads_back us s s0 \<Longrightarrow>
   \<exists>err s'. exec_loop i opers us s = Some (err, s') \<and> J s' \<and> (err \<noteq> None \<longrightarrow> R s' s0)"
proof (induction opers arbitrary: i us s)
  case (Cons oper rest)
  then obtain u err s' where r: "oper s = Some ((u, err), s')" "J s'" using returns [of oper s] by auto
  show ?case
  proof (cases err)
    case None
    have "leads_back (u # us) s' s0"
      unfolding leads_back_def
    proof (intro allI impI)
      fix t assume "J t" "R t s'"
      then obtain r' t' where "u t = Some (r', t')" "J t'" "R t' s"
        using undoes [of oper s u s' t] r None Cons.prems by auto
      then show "\<exists>t'. rollback (u # us) t = Some t' \<and> J t' \<and> R t' s0"
        using Cons.prems(3) by (auto simp: leads_back_def)
    qed
    then show ?thesis using Cons r None by simp
  next
    case (Some e)
    then have "R s' s" using fails r Cons.prems by auto
    then obtain t' where "rollback us s' = Some t'" "J t'" "R t' s0"
      using Cons.prems(3) r(2) by (auto simp: leads_back_def)
    then show ?thesis using r Some by simp
  qed
qed simp

lemma exec_atomic:
  assumes "list_all good (ops tx)" "tx_state tx = StatePending" "J s"
  shows "\<exists>err tx' s'. Transaction_Exec tx s = Some (err, tx', s') \<and> J s' \<and>
    (err \<noteq> None \<longrightarrow> R s' s \<and> tx_state tx' = StateRolledBack) \<and> (err = None \<longrightarrow> tx_state tx' = StateCommitted)"
proof -
  have "leads_back [] s s" using assms(3) by (simp add: leads_back_def)
  from exec_loop_rollback [OF assms(1,3) this, of 0] show ?thesis
    using assms(2) by (auto simp: Transaction_Exec_def)
qed

end

end
