(* ===== verification/PersistenceProps.thy ===== *)
theory PersistenceProps
  imports Transactions KvProps
begin

text \<open>
  The properties of the log and its recovery, put together: the engine, the log line, the buffer, the file,
  the scanner, the two passes of \<open>Restore\<close>.
\<close>

subsection \<open>A restart\<close>

definition entry_line :: "wal_entry \<Rightarrow> string" where
  "entry_line = (\<lambda>(e, a, args). log_line e a args)"

definition safe_entry :: "wal_entry \<Rightarrow> bool" where
  "safe_entry = (\<lambda>(e, a, args). wal_safe e \<and> wal_safe a \<and> (\<forall>x \<in> set args. wal_safe x))"

lemma split_entry: "safe_entry (e, a, args) \<Longrightarrow> split_char CHR ''|'' (log_line e a args) = e # a # args"
  unfolding log_line_def safe_entry_def by (intro split_join) (auto dest: wal_safe_no_bar)

text \<open>The key-value engine as a registered engine.\<close>

definition kv_methods :: "time \<Rightarrow> string list \<Rightarrow> Storage engine_methods" where
  "kv_methods now ks =
     \<lparr>ProcessWalEntry = (\<lambda>action args e. map_option (Pair None) (kv_ProcessWalEntry now action args e)),
      SerializeState = (\<lambda>e. Inr (kv_SerializeState ks e)),
      DeserializeState = (\<lambda>bs e. case kv_DeserializeState bs e of (err, rest, e') \<Rightarrow> (map_option ioerr_err err, rest, e')),
      ResetState = (\<lambda>e. (None, kv_Reset e)),
      ClearState = (\<lambda>e. (None, kv_Clear e))\<rparr>"

text \<open>The manager of a new process on the file that the old one left.\<close>

definition reopened :: "Snapshot option \<Rightarrow> string \<Rightarrow> 's engine_methods \<Rightarrow> 'a PersistenceManager \<Rightarrow> 's PersistenceManager" where
  "reopened sn engineID e pm =
     RegisterEngine engineID e (NewPersistenceManager
       (NewBufferedWal (NewWal (wal_path (physicalWal (pm_wal pm))) (wal_content (physicalWal (pm_wal pm))) [])) sn)"

lemma export_no_faults:
  "wal_faults w = [] \<Longrightarrow> \<not> wal_closed w \<Longrightarrow>
   export_loop ls i w = ((i + length ls, None), w\<lparr>wal_content := wal_content w @ concat ls\<rparr>)"
proof (induction ls arbitrary: i w)
  case (Cons l ls)
  then show ?case by (simp add: WriteRaw_def next_fault_def)
qed (simp add: SyncWal_def next_fault_def)

definition flushed :: "'s PersistenceManager \<Rightarrow> 's PersistenceManager" where
  "flushed pm = pm\<lparr>pm_wal := snd (buffered_SyncWal (pm_wal pm))\<rparr>"

lemma flushed_content:
  assumes "wal_faults (physicalWal (pm_wal pm)) = []" "\<not> wal_closed (physicalWal (pm_wal pm))"
  shows "wal_content (physicalWal (pm_wal (flushed pm))) = wal_content (physicalWal (pm_wal pm)) @ concat (pending pm)"
  using assms by (simp add: flushed_def buffered_SyncWal_def ExportToWal_def export_no_faults pending_def)

lemma sync_empty [simp]: "buffer bw = [] \<Longrightarrow> buffered_SyncWal bw = (None, bw)"
  by (cases bw) (simp add: buffered_SyncWal_def ExportToWal_def)

text \<open>The two passes over a file of plain lines, with nothing in the buffer.\<close>

lemma recover_lines:
  assumes "buffer bw = []" "\<not> wal_closed (physicalWal bw)"
    "wal_content (physicalWal bw) = concat (map (\<lambda>l. l @ [CHR 10]) ls)" "\<forall>l \<in> set ls. plain_line l"
  shows "buffered_RecoverFromWal f bw s = map_option (\<lambda>(err, s'). (err, bw, s')) (apply_lines f ls s)"
proof -
  have "scan_tokens (split_lines (concat (map (\<lambda>l. l @ [CHR 10]) ls))) = (ls, False)"
    by (rule scan_lines_back [OF assms(4)])
  then show ?thesis using assms(1-3)
    by (cases "apply_lines f ls s") (auto simp: buffered_RecoverFromWal_def RecoverFromWal_def)
qed

lemma replay_wal_lines:
  assumes "buffer (pm_wal pm) = []" "\<not> wal_closed (physicalWal (pm_wal pm))"
    "wal_content (physicalWal (pm_wal pm)) = concat (map (\<lambda>l. l @ [CHR 10]) ls)" "\<forall>l \<in> set ls. plain_line l"
  shows "replay_wal restoreOnly pm s = do {
     (err1, incompleteTxs) \<leftarrow> apply_lines tx_line ls {};
     (err2, cur, s') \<leftarrow> apply_lines (replay_line restoreOnly (engines pm) (fallbackEngine pm) incompleteTxs) ls ([], s);
     Some (map_option (WrappedError ''failed to recover from WAL'') err2, pm, s') }"
proof -
  note r = recover_lines [OF assms]
  show ?thesis
    unfolding replay_wal_def r
    by (cases "apply_lines tx_line ls {}") (auto simp: r option.case_eq_if map_option_case Option.bind_eq_Some_conv split: option.splits)
qed

definition not_tx :: "string \<Rightarrow> bool" where
  "not_tx l \<longleftrightarrow> (case split_char CHR ''|'' l of e # _ \<Rightarrow> e \<noteq> ''tx'' | [] \<Rightarrow> True)"

lemma tx_line_other: "not_tx l \<Longrightarrow> tx_line l active = Some (None, active)"
  by (auto simp: tx_line_def not_tx_def split: list.splits)

lemma tx_pass_other: "\<forall>l \<in> set ls. not_tx l \<Longrightarrow> apply_lines tx_line ls active = Some (None, active)"
  by (induction ls) (simp_all add: tx_line_other)

lemma kv_replay_lines:
  assumes "\<forall>x \<in> set es. safe_entry x \<and> fst x = ''kv''"
  shows "apply_lines (replay_line [] [''kv'' \<mapsto> kv_methods now ks] fb {}) (map entry_line es) (cur, s) =
    map_option (\<lambda>r. (None, cur, r)) (kv_replay now es s)"
proof -
  define f where "f = replay_line [] [''kv'' \<mapsto> kv_methods now ks] fb {}"
  have one: "f (entry_line (''kv'', a, args)) (cur, s) = map_option (\<lambda>r. (None, cur, r)) (kv_ProcessWalEntry now a args s)"
    if "safe_entry (''kv'', a, args)" for a args s
    using split_entry [OF that]
    by (cases "kv_ProcessWalEntry now a args s") (simp_all add: f_def entry_line_def replay_line_def kv_methods_def)
  have "apply_lines f (map entry_line es) (cur, s) = map_option (\<lambda>r. (None, cur, r)) (kv_replay now es s)"
    using assms
  proof (induction es arbitrary: s)
    case (Cons x es)
    obtain a args where x: "x = (''kv'', a, args)" using Cons.prems by (cases x) auto
    then show ?case using Cons one [of a args s] by (cases "kv_ProcessWalEntry now a args s") simp_all
  qed simp
  then show ?thesis by (simp only: f_def)
qed

text \<open>What holds of the engine and the manager while the engine logs: the pending lines are its entries.\<close>

definition kv_logged :: "time \<Rightarrow> Storage \<times> 's PersistenceManager \<Rightarrow> bool" where
  "kv_logged now = (\<lambda>(e, pm). kv_durable now read_line pending (e, pm) \<and>
     wal_content (physicalWal (pm_wal pm)) = [] \<and> wal_faults (physicalWal (pm_wal pm)) = [] \<and> \<not> wal_closed (physicalWal (pm_wal pm)) \<and>
     (\<exists>es. pending pm = map (\<lambda>x. entry_line x @ [CHR 10]) es \<and> (\<forall>x \<in> set es. safe_entry x \<and> fst x = ''kv'')))"

lemma kv_logged_step:
  assumes "kv_logged now (e, pm)" "PersistenceManager_Log ''kv'' a args pm = (r, pm')" "safe_entry (''kv'', a, args)"
    "kv_durable now read_line pending (e', pm')"
  shows "kv_logged now (e', pm')"
proof -
  obtain es where es: "pending pm = map (\<lambda>x. entry_line x @ [CHR 10]) es" "\<forall>x \<in> set es. safe_entry x \<and> fst x = ''kv''"
    using assms(1) by (auto simp: kv_logged_def)
  have "pending pm' = map (\<lambda>x. entry_line x @ [CHR 10]) (es @ [(''kv'', a, args)])"
    using assms(2) es(1) by (auto simp: PersistenceManager_Log_def buffered_WriteToWal_def SaveToBuffer_def pending_def entry_line_def)
  moreover have "physicalWal (pm_wal pm') = physicalWal (pm_wal pm)"
    using assms(2) by (auto simp: PersistenceManager_Log_def buffered_WriteToWal_def)
  moreover have "\<forall>x \<in> set (es @ [(''kv'', a, args)]). safe_entry x \<and> fst x = ''kv''" using es(2) assms(3) by simp
  ultimately show ?thesis using assms(1,4) unfolding kv_logged_def by (smt (verit) case_prod_conv)
qed

interpretation kv_file: kv_stable PersistenceManager_Log loggable "kv_logged now" for now :: time
proof
  fix e e' :: Storage and w w' :: "'a PersistenceManager" and k p r
  assume l: "kv_logged now (e, w)"
  then have d: "kv_durable now read_line pending (e, w)" by (simp add: kv_logged_def)
  show "kv_inv e" by (rule pm_log.kv.inv [OF d])
  show "data e k = Some p \<Longrightarrow> loggable (metadata p)" by (rule pm_log.kv.has_ok [OF d])
  show "kv_logged now (e', w')" if "loggable (metadata p)" "kv_inv e'" "data e' = (data e)(k \<mapsto> p)"
    "PersistenceManager_Log ''kv'' ''SET'' [PathEscape k, EncodeToString (pvalue p), expires_str (payload_expiry p)] w = (r, w')"
    by (rule kv_logged_step [OF l that(4) _ pm_log.kv.writes [OF d that]])
      (use that(1) in \<open>simp add: safe_entry_def codec_simps wal_char_def\<close>)
  show "kv_logged now (e', w')" if "kv_inv e'" "data e' = (data e)(k := None)"
    "PersistenceManager_Log ''kv'' ''DELETE'' [PathEscape k] w = (None, w')"
    by (rule kv_logged_step [OF l that(3) _ pm_log.kv.remove [OF d that]])
      (simp add: safe_entry_def codec_simps wal_char_def)
  show "kv_logged now (e', w)" if "kv_inv e'" "data e' \<subseteq>\<^sub>m data e"
    using l pm_log.kv.drop [OF d that] by (simp add: kv_logged_def)
next
  fix e :: Storage and w w' :: "'a PersistenceManager" and k err
  show "PersistenceManager_Log ''kv'' ''DELETE'' [PathEscape k] w = (Some err, w') \<Longrightarrow> kv_logged now (e, w')"
    using pm_log.log_no_err by fastforce
qed

text \<open>The runs of an engine whose expiries the log can hold.\<close>

inductive kv_run :: "regexp_compile \<Rightarrow> 's PersistenceManager \<Rightarrow> Storage \<times> 's PersistenceManager \<Rightarrow> bool"
  for compile :: regexp_compile and pm0 :: "'s PersistenceManager" where
  run_start: "kv_run compile pm0 (new_engine, pm0)"
| run_next: "kv_run compile pm0 s \<Longrightarrow> kv_writes_ok loggable now op \<Longrightarrow>
    kv_apply compile PersistenceManager_Log now ks op s = Some (r, s') \<Longrightarrow> kv_run compile pm0 s'"

lemma kv_run_logged:
  assumes "kv_run compile pm0 s" "pm_wal pm0 = NewBufferedWal (NewWal path [] [])"
  shows "kv_logged later s"
  using assms(1)
proof induction
  case run_start
  show ?case using assms(2)
    by (auto simp: kv_logged_def kv_durable_def kv_recovers_def pending_def NewBufferedWal_def NewWal_def read_log_def)
next
  case (run_next s now op ks r s')
  then show ?case using kv_file.apply_keeps [of later s now op compile ks] by (auto dest: endsD)
qed


text \<open>What the pending lines read back as, and that they are lines of the file.\<close>

lemma safe_entry_lines:
  assumes "safe_entry x" "length (entry_line x) < 65536"
  shows "plain_line (entry_line x)" "read_line (entry_line x @ [CHR 10]) = Some x"
proof -
  obtain e a args where x: "x = (e, a, args)" by (metis prod_cases3)
  show "plain_line (entry_line x)" using assms by (simp add: x entry_line_def safe_entry_def plain_log_line)
  show "read_line (entry_line x @ [CHR 10]) = Some x"
    using assms by (simp add: x entry_line_def safe_entry_def read_line_def parse_log_line)
qed

lemma kv_not_tx: "safe_entry x \<Longrightarrow> fst x \<noteq> ''tx'' \<Longrightarrow> not_tx (entry_line x)"
  by (cases x) (simp add: not_tx_def entry_line_def split_entry)

lemma read_pending:
  "\<forall>x \<in> set es. safe_entry x \<and> length (entry_line x) < 65536 \<Longrightarrow>
   read_log read_line (map (\<lambda>x. entry_line x @ [CHR 10]) es) = es"
  by (induction es) (simp_all add: read_log_def safe_entry_lines)

text \<open>A restart of the key-value engine on a file of lines is the replay of their entries.\<close>

lemma kv_restore:
  assumes "wal_content (physicalWal (pm_wal pm)) = concat (map (\<lambda>x. entry_line x @ [CHR 10]) es)"
    and "\<forall>x \<in> set es. safe_entry x \<and> fst x = ''kv'' \<and> length (entry_line x) < 65536"
  shows "\<exists>pm'. Restore [] fs (reopened None ''kv'' (kv_methods later ks) pm) s = map_option (\<lambda>r. (None, pm', r)) (kv_replay later es s)"
proof -
  let ?re = "reopened None ''kv'' (kv_methods later ks) pm" and ?ls = "map entry_line es"
  have re: "pm_snapshot ?re = None" "buffer (pm_wal ?re) = []" "\<not> wal_closed (physicalWal (pm_wal ?re))"
    "engines ?re = [''kv'' \<mapsto> kv_methods later ks]"
    by (simp_all add: reopened_def RegisterEngine_def NewPersistenceManager_def NewBufferedWal_def NewWal_def)
  have c: "wal_content (physicalWal (pm_wal ?re)) = concat (map (\<lambda>l. l @ [CHR 10]) ?ls)"
    using assms(1) by (simp add: reopened_def RegisterEngine_def NewPersistenceManager_def NewBufferedWal_def NewWal_def o_def)
  have pl: "\<forall>l \<in> set ?ls. plain_line l" "\<forall>l \<in> set ?ls. not_tx l"
    using assms(2) by (force intro: safe_entry_lines kv_not_tx)+
  have "Restore [] fs ?re s = map_option (\<lambda>r. (None, ?re, r)) (kv_replay later es s)"
    using assms(2) kv_replay_lines [where es = es and now = later and ks = ks and fb = "fallbackEngine ?re" and cur = "[]" and s = s]
    by (cases "kv_replay later es s") (simp_all add: Restore_def re replay_wal_lines [OF re(2,3) c pl(1)] tx_pass_other [OF pl(2)])
  then show ?thesis by blast
qed

text \<open>The entries that are pending, and what their replay gives.\<close>

lemma kv_logged_entries:
  assumes "kv_logged later (e, pm)" "\<forall>l \<in> set (pending pm). length l \<le> 65536"
  obtains es where "pending pm = map (\<lambda>x. entry_line x @ [CHR 10]) es"
    "\<forall>x \<in> set es. safe_entry x \<and> fst x = ''kv'' \<and> length (entry_line x) < 65536"
    "wal_content (physicalWal (pm_wal (flushed pm))) = concat (map (\<lambda>x. entry_line x @ [CHR 10]) es)"
    "ends (kv_replay later es new_engine) (\<lambda>r. kv_inv r \<and>
       (\<forall>k p. data e k = Some p \<longrightarrow> \<not> expired (payload_expiry (recovered later p)) later \<longrightarrow> data r k = Some (recovered later p)))"
proof -
  obtain es where es: "pending pm = map (\<lambda>x. entry_line x @ [CHR 10]) es" "\<forall>x \<in> set es. safe_entry x \<and> fst x = ''kv''"
    using assms(1) by (auto simp: kv_logged_def)
  have sh: "\<forall>x \<in> set es. safe_entry x \<and> fst x = ''kv'' \<and> length (entry_line x) < 65536" using es assms(2) by auto
  moreover have "wal_content (physicalWal (pm_wal (flushed pm))) = concat (map (\<lambda>x. entry_line x @ [CHR 10]) es)"
    using flushed_content [of pm] assms(1) es(1) by (simp add: kv_logged_def)
  moreover have "read_log read_line (pending pm) = es" using read_pending [of es] sh es(1) by simp
  then have "ends (kv_replay later es new_engine) (\<lambda>r. kv_inv r \<and>
       (\<forall>k p. data e k = Some p \<longrightarrow> \<not> expired (payload_expiry (recovered later p)) later \<longrightarrow> data r k = Some (recovered later p)))"
    using assms(1) by (simp add: kv_logged_def kv_durable_def kv_recovers_def)
  ultimately show ?thesis by (rule that [OF es(1)])
qed


definition fresh_pm :: "Storage PersistenceManager" where
  "fresh_pm = NewPersistenceManager (NewBufferedWal (NewWal ''wal.log'' [] [])) None"

definition pm_one :: "Storage PersistenceManager" where
  "pm_one = fresh_pm\<lparr>pm_wal := \<lparr>physicalWal = NewWal ''wal.log'' [] [], buffer = [''kv|SET|n|NDE=|PERSISTENT'' @ [CHR 10]]\<rparr>\<rparr>"

lemma pm_one_run: "kv_run no_regexps fresh_pm (kv_one, pm_one)"
proof (rule run_next [OF run_start, where now = 7 and op = "OpSet ''n'' ''41'' (NewPayloadMetadata 7 None)" and ks = "[]"])
  have "PathEscape ''n'' = ''n''" "EncodeToString ''41'' = ''NDE=''" by code_simp+
  then show "kv_apply no_regexps PersistenceManager_Log 7 [] (OpSet ''n'' ''41'' (NewPayloadMetadata 7 None)) (new_engine, fresh_pm) =
    Some (kv_res.RErr None, kv_one, pm_one)"
    by (simp add: kv_Set_def kv_setNoLock_def dropExpiration_def addExpiration_def new_engine_def kv_one_def NewPayloadMetadata_def
      PersistenceManager_Log_def buffered_WriteToWal_def SaveToBuffer_def log_line_def expires_str_def pm_one_def fresh_pm_def
      NewPersistenceManager_def NewBufferedWal_def)
qed (simp add: loggable_def NewPayloadMetadata_def)


end
