(* ===== verification/LogProps.thy ===== *)
theory LogProps
  imports PersistenceProps SnapshotProps
begin

text \<open>
  What a crash, a long line, a failed write and a concurrent snapshot do to the log.
\<close>

subsection \<open>The recovery of a file of lines\<close>

text \<open>The manager when its file holds the lines \<open>ls\<close>, and what is left of a restore without the manager.\<close>

definition on_lines :: "string list \<Rightarrow> 's PersistenceManager \<Rightarrow> 's PersistenceManager" where
  "on_lines ls pm = pm\<lparr>pm_wal := NewBufferedWal (NewWal (wal_path (physicalWal (pm_wal pm))) (concat (map (\<lambda>l. l @ [CHR 10]) ls)) [])\<rparr>"

definition restored :: "string list \<Rightarrow> files \<Rightarrow> 's PersistenceManager \<Rightarrow> 's \<Rightarrow> (goerr option \<times> 's) option" where
  "restored restoreOnly fs pm s = map_option (\<lambda>(err, pm', s'). (err, s')) (Restore restoreOnly fs pm s)"

text \<open>The entry of a line that is replayed.\<close>

definition apply_entry ::
  "string list \<Rightarrow> 's PersistenceManager \<Rightarrow> string \<Rightarrow> 's \<Rightarrow> (goerr option \<times> 's) option" where
  "apply_entry restoreOnly pm l s =
     map_option (\<lambda>(err, cur, s'). (err, s')) (replay_line restoreOnly (engines pm) (fallbackEngine pm) {} l ([], s))"

definition tx_mark :: "string \<Rightarrow> string \<Rightarrow> string" where
  "tx_mark action txID = log_line ''tx'' action [txID]"

lemma split_tx_mark: "wal_safe action \<Longrightarrow> wal_safe txID \<Longrightarrow> split_char CHR ''|'' (tx_mark action txID) = [''tx'', action, txID]"
  using split_entry [of "''tx''" action "[txID]"] by (simp add: tx_mark_def safe_entry_def wal_safe_def wal_char_def)

lemma tx_action_safe [simp]: "wal_safe ''TX_BEGIN''" "wal_safe ''TX_COMMIT''" "wal_safe ''tx''"
  by (simp_all add: wal_safe_def wal_char_def)

lemma replay_plain:
  assumes "not_tx l" "cur = [] \<or> cur \<notin> inc"
  shows "replay_line ro es fb inc l (cur, s) =
    map_option (\<lambda>(err, cur', s'). (err, cur, s')) (replay_line ro es fb {} l ([], s))"
proof (cases "split_char CHR ''|'' l")
  case (Cons e p)
  then show ?thesis using assms
    by (cases p) (auto simp: replay_line_def not_tx_def option.map_comp o_def case_prod_unfold split: option.splits)
qed (simp add: replay_line_def)

lemma replay_skipped:
  "not_tx l \<Longrightarrow> cur \<noteq> [] \<Longrightarrow> cur \<in> inc \<Longrightarrow> replay_line ro es fb inc l (cur, s) = Some (None, cur, s)"
  by (auto simp: replay_line_def not_tx_def split: list.splits)

lemma apply_plain:
  assumes "\<forall>l \<in> set ls. not_tx l" "cur = [] \<or> cur \<notin> inc"
  shows "apply_lines (replay_line ro (engines pm) (fallbackEngine pm) inc) ls (cur, s) =
    map_option (\<lambda>(err, s'). (err, cur, s')) (apply_lines (apply_entry ro pm) ls s)"
  using assms
proof (induction ls arbitrary: s)
  case (Cons l ls)
  show ?case
    using Cons replay_plain [of l cur inc ro "engines pm" "fallbackEngine pm" s]
    by (cases "replay_line ro (engines pm) (fallbackEngine pm) {} l ([], s)")
      (auto simp: apply_entry_def split: option.splits)
qed simp

lemma apply_skipped:
  "\<forall>l \<in> set ls. not_tx l \<Longrightarrow> cur \<noteq> [] \<Longrightarrow> cur \<in> inc \<Longrightarrow>
   apply_lines (replay_line ro es fb inc) ls (cur, s) = Some (None, cur, s)"
  by (induction ls) (simp_all add: replay_skipped)

text \<open>What the replay of plain lines gives, as the outcome of the second pass.\<close>

definition replayed :: "string list \<Rightarrow> 's PersistenceManager \<Rightarrow> string list \<Rightarrow> 's \<Rightarrow> (goerr option \<times> 's) option" where
  "replayed ro pm ls s =
     map_option (\<lambda>(err, s'). (map_option (WrappedError ''failed to recover from WAL'') err, s')) (apply_lines (apply_entry ro pm) ls s)"

lemma replay_on_lines:
  assumes "\<forall>l \<in> set ls. plain_line l"
  shows "map_option (\<lambda>(err, pm', s'). (err, s')) (replay_wal ro (on_lines ls pm) s) = do {
     (err1, incompleteTxs) \<leftarrow> apply_lines tx_line ls {};
     (err2, cur, s') \<leftarrow> apply_lines (replay_line ro (engines pm) (fallbackEngine pm) incompleteTxs) ls ([], s);
     Some (map_option (WrappedError ''failed to recover from WAL'') err2, s') }"
proof -
  have "buffer (pm_wal (on_lines ls pm)) = []" "\<not> wal_closed (physicalWal (pm_wal (on_lines ls pm)))"
    "wal_content (physicalWal (pm_wal (on_lines ls pm))) = concat (map (\<lambda>l. l @ [CHR 10]) ls)"
    "engines (on_lines ls pm) = engines pm" "fallbackEngine (on_lines ls pm) = fallbackEngine pm"
    by (simp_all add: on_lines_def NewBufferedWal_def NewWal_def)
  then show ?thesis using replay_wal_lines [of "on_lines ls pm" ls ro s] assms
    by (auto simp: map_option_bind bind_eq_None_conv o_def case_prod_unfold intro!: bind_option_cong)
qed


lemma strip_replay: "map_option (\<lambda>(err, pm', s'). (err, s')) (replay_wal ro (on_lines ls pm) s) = replayed ro pm us s"
  if "\<forall>l \<in> set ls. plain_line l" "apply_lines tx_line ls {} = Some (None, inc)"
    "apply_lines (replay_line ro (engines pm) (fallbackEngine pm) inc) ls ([], s) =
      map_option (\<lambda>(err, s'). (err, cur err, s')) (apply_lines (apply_entry ro pm) us s)"
  using that by (cases "apply_lines (apply_entry ro pm) us s") (auto simp: replay_on_lines replayed_def)

lemma tx_marks:
  assumes "wal_safe txID"
  shows "tx_line (tx_mark ''TX_BEGIN'' txID) act = Some (None, insert txID act)"
    "tx_line (tx_mark ''TX_COMMIT'' txID) act = Some (None, act - {txID})"
    "replay_line ro es fb inc (tx_mark ''TX_BEGIN'' txID) (cur, s) = Some (None, txID, s)"
    "replay_line ro es fb inc (tx_mark ''TX_COMMIT'' txID) (cur, s) = Some (None, [], s)"
  using split_tx_mark [OF _ assms] by (simp_all add: tx_line_def replay_line_def)

text \<open>A file without transactions, one with a committed transaction, one with a torn transaction.\<close>

lemma replay_no_tx:
  assumes "\<forall>l \<in> set ls. plain_line l \<and> not_tx l"
  shows "map_option (\<lambda>(err, pm', s'). (err, s')) (replay_wal ro (on_lines ls pm) s) = replayed ro pm ls s"
  by (rule strip_replay [where inc = "{}" and cur = "\<lambda>_. []"])
    (use assms in \<open>simp_all add: tx_pass_other apply_plain\<close>)

lemma replay_torn:
  assumes "\<forall>l \<in> set (pre @ tx_mark ''TX_BEGIN'' txID # rest). plain_line l" "\<forall>l \<in> set (pre @ rest). not_tx l"
    and "wal_safe txID" "txID \<noteq> []"
  shows "map_option (\<lambda>(err, pm', s'). (err, s')) (replay_wal ro (on_lines (pre @ tx_mark ''TX_BEGIN'' txID # rest) pm) s) =
    replayed ro pm pre s"
proof (rule strip_replay [where inc = "{txID}" and cur = "\<lambda>err. if err = None then txID else []"])
  show "apply_lines tx_line (pre @ tx_mark ''TX_BEGIN'' txID # rest) {} = Some (None, {txID})"
    using assms by (simp add: apply_lines_append tx_pass_other tx_marks)
  show "apply_lines (replay_line ro (engines pm) (fallbackEngine pm) {txID}) (pre @ tx_mark ''TX_BEGIN'' txID # rest) ([], s) =
      map_option (\<lambda>(err, s'). (err, if err = None then txID else [], s')) (apply_lines (apply_entry ro pm) pre s)"
    using assms by (cases "apply_lines (apply_entry ro pm) pre s")
      (auto simp: apply_lines_append apply_plain apply_skipped tx_marks split: option.splits)
qed (use assms in simp)

lemma replay_committed:
  assumes "\<forall>l \<in> set (pre @ tx_mark ''TX_BEGIN'' txID # block @ [tx_mark ''TX_COMMIT'' txID]). plain_line l"
    and "\<forall>l \<in> set (pre @ block). not_tx l" "wal_safe txID"
  shows "map_option (\<lambda>(err, pm', s'). (err, s'))
      (replay_wal ro (on_lines (pre @ tx_mark ''TX_BEGIN'' txID # block @ [tx_mark ''TX_COMMIT'' txID]) pm) s) =
    replayed ro pm (pre @ block) s"
proof -
  let ?f = "apply_entry ro pm" and ?g = "replay_line ro (engines pm) (fallbackEngine pm) {}"
  let ?ls = "pre @ tx_mark ''TX_BEGIN'' txID # block @ [tx_mark ''TX_COMMIT'' txID]"
  obtain cur where r: "apply_lines ?g ?ls ([], s) = map_option (\<lambda>(err, s'). (err, cur err, s')) (apply_lines ?f (pre @ block) s)"
  proof (cases "apply_lines ?f pre s")
    case None
    then show ?thesis using assms by (intro that) (simp add: apply_lines_append apply_plain)
  next
    case (Some x)
    obtain err s1 where x: "x = (err, s1)" by (cases x)
    show ?thesis
    proof (cases err)
      case None
      then show ?thesis using assms Some x
        by (intro that [of "\<lambda>err. if err = None then [] else txID"], cases "apply_lines ?f block s1")
          (auto simp: apply_lines_append apply_plain tx_marks split: option.splits)
    next
      case (Some e)
      then show ?thesis using assms \<open>apply_lines ?f pre s = Some x\<close> x
        by (intro that [of "\<lambda>err. []"]) (simp add: apply_lines_append apply_plain)
    qed
  qed
  show ?thesis
    by (rule strip_replay [OF _ _ r]) (use assms in \<open>simp_all add: apply_lines_append tx_pass_other tx_marks\<close>)
qed

lemma restored_eq:
  assumes "\<And>pm' s. engines pm' = engines pm \<Longrightarrow> fallbackEngine pm' = fallbackEngine pm \<Longrightarrow>
    map_option (\<lambda>(err, p, s'). (err, s')) (replay_wal ro (on_lines ls pm') s) =
    map_option (\<lambda>(err, p, s'). (err, s')) (replay_wal ro (on_lines ls' pm') s)"
  shows "restored ro fs (on_lines ls pm) s = restored ro fs (on_lines ls' pm) s"
proof -
  have up: "(on_lines ks pm)\<lparr>pm_snapshot := x\<rparr> = on_lines ks (pm\<lparr>pm_snapshot := x\<rparr>)" for ks x by (simp add: on_lines_def)
  have sn: "pm_snapshot (on_lines ks pm) = pm_snapshot pm" "engines (on_lines ks pm) = engines pm" for ks by (simp_all add: on_lines_def)
  have eq: "map_option (\<lambda>(err, p, s'). (err, s')) (replay_wal ro (on_lines ls (pm\<lparr>pm_snapshot := x\<rparr>)) s) =
    map_option (\<lambda>(err, p, s'). (err, s')) (replay_wal ro (on_lines ls' (pm\<lparr>pm_snapshot := x\<rparr>)) s)" for x s
    by (rule assms) simp_all
  show ?thesis
    unfolding restored_def Restore_def sn up
    by (auto simp: eq assms split: option.splits)
qed

subsection \<open>Transactions and crashes\<close>

definition good_entry :: "wal_entry \<Rightarrow> bool" where
  "good_entry x \<longleftrightarrow> safe_entry x \<and> fst x \<noteq> ''tx'' \<and> length (entry_line x) < 65536"

lemma good_entry_lines: "good_entry x \<Longrightarrow> plain_line (entry_line x) \<and> not_tx (entry_line x)"
  by (simp add: good_entry_def safe_entry_lines kv_not_tx)

lemma plain_mark: "wal_safe txID \<Longrightarrow> length txID < 60000 \<Longrightarrow> a \<in> {''TX_BEGIN'', ''TX_COMMIT''} \<Longrightarrow> plain_line (tx_mark a txID)"
  unfolding tx_mark_def by (rule plain_log_line) (auto simp: log_line_def)

lemma restored_torn:
  assumes "\<forall>x \<in> set (es @ rest). good_entry x" "wal_safe txID" "txID \<noteq> []" "length txID < 60000"
  shows "restored ro fs (on_lines (map entry_line es @ tx_mark ''TX_BEGIN'' txID # map entry_line rest) pm) s =
    restored ro fs (on_lines (map entry_line es) pm) s"
proof (rule restored_eq)
  fix pm' :: "'s PersistenceManager" and s :: 's
  have g: "\<forall>l \<in> set (map entry_line es). plain_line l \<and> not_tx l" "\<forall>l \<in> set (map entry_line rest). plain_line l \<and> not_tx l"
    using assms(1) good_entry_lines by auto
  then show "map_option (\<lambda>(err, p, s'). (err, s')) (replay_wal ro (on_lines (map entry_line es @ tx_mark ''TX_BEGIN'' txID # map entry_line rest) pm') s) =
    map_option (\<lambda>(err, p, s'). (err, s')) (replay_wal ro (on_lines (map entry_line es) pm') s)"
    unfolding replay_no_tx [OF g(1)] using assms(2-4)
    by (intro replay_torn) (auto simp: plain_mark)
qed

lemma restored_committed:
  assumes "\<forall>x \<in> set (es @ block). good_entry x" "wal_safe txID" "length txID < 60000"
  shows "restored ro fs (on_lines (map entry_line es @ tx_mark ''TX_BEGIN'' txID # map entry_line block @ [tx_mark ''TX_COMMIT'' txID]) pm) s =
    restored ro fs (on_lines (map entry_line (es @ block)) pm) s"
proof (rule restored_eq)
  fix pm' :: "'s PersistenceManager" and s :: 's
  have g: "\<forall>l \<in> set (map entry_line (es @ block)). plain_line l \<and> not_tx l"
    using assms(1) good_entry_lines by auto
  then show "map_option (\<lambda>(err, p, s'). (err, s')) (replay_wal ro
      (on_lines (map entry_line es @ tx_mark ''TX_BEGIN'' txID # map entry_line block @ [tx_mark ''TX_COMMIT'' txID]) pm') s) =
    map_option (\<lambda>(err, p, s'). (err, s')) (replay_wal ro (on_lines (map entry_line (es @ block)) pm') s)"
    unfolding replay_no_tx [OF g] unfolding map_append using assms(2,3)
    by (intro replay_committed) (auto simp: plain_mark)
qed

text \<open>
  C15.  A transaction is atomic across a crash: when a commit has put its block behind the lines that are
  pending and only the first \<open>n\<close> of all these lines reach the file, a restore gives what the entries
  before the transaction give as far as they reached the file; it applies the entries of the transaction
  only when all of its lines did, and then in their order.  So it is for any engines and any snapshot.
\<close>

theorem tx_crash_atomic:
  assumes "tx_active l" "CommitTx PersistenceManager_Log txID l = (err, l')"
    and "pending (tx_real l) = map (\<lambda>x. entry_line x @ [CHR 10]) es"
    and "\<forall>x \<in> set (es @ tx_buffer l). good_entry x" "wal_safe txID" "txID \<noteq> []" "length txID < 60000"
  shows "err = None \<and> (\<exists>ls. pending (tx_real l') = map (\<lambda>x. x @ [CHR 10]) ls \<and>
    (\<forall>n. restored ro fs (on_lines (take n ls) pm) s =
       restored ro fs (on_lines (map entry_line (if n < length ls then take n es else es @ tx_buffer l)) pm) s))"
proof -
  let ?B = "map entry_line (tx_buffer l)" and ?E = "map entry_line es"
  define ls where "ls = ?E @ tx_mark ''TX_BEGIN'' txID # ?B @ [tx_mark ''TX_COMMIT'' txID]"
  have c: "err = None" "pending (tx_real l') = map (\<lambda>x. x @ [CHR 10]) ls"
    using pm_log.commit_entries [OF assms(1,2)] assms(3)
    by (auto simp: ls_def tx_mark_def entry_line_def case_prod_unfold o_def)
  have "restored ro fs (on_lines (take n ls) pm) s =
       restored ro fs (on_lines (map entry_line (if n < length ls then take n es else es @ tx_buffer l)) pm) s" for n
  proof -
    consider "n \<le> length es" | k where "n = Suc (length es + k)" "n < length ls" | "length ls \<le> n"
      by (metis less_iff_Suc_add not_le_imp_less)
    then show ?thesis
    proof cases
      case 1
      then show ?thesis by (simp add: ls_def take_map)
    next
      case 2
      then have "take n ls = ?E @ tx_mark ''TX_BEGIN'' txID # map entry_line (take k (tx_buffer l))"
        by (simp add: ls_def take_map)
      then show ?thesis
        using 2 restored_torn [of es "take k (tx_buffer l)" txID ro fs pm s] assms(4-7) by (auto dest: in_set_takeD)
    next
      case 3
      then show ?thesis using restored_committed [of es "tx_buffer l" txID ro fs pm s] assms(4-7) by (simp add: ls_def)
    qed
  qed
  then show ?thesis using c by blast
qed

definition tx_one :: "Storage PersistenceManager TxWalLogger" where
  "tx_one = (BeginTx (NewTxWalLogger pm_one))\<lparr>tx_buffer := [(''kv'', ''DELETE'', [''n''])]\<rparr>"

lemma entries_one: "good_entry (''kv'', ''SET'', [''n'', ''NDE='', ''PERSISTENT''])" "good_entry (''kv'', ''DELETE'', [''n''])"
  "entry_line (''kv'', ''SET'', [''n'', ''NDE='', ''PERSISTENT'']) = ''kv|SET|n|NDE=|PERSISTENT''"
  by (simp_all add: good_entry_def safe_entry_def entry_line_def log_line_def wal_safe_def wal_char_def)

lemma tx_crash_atomic_witness:
  "fst (CommitTx PersistenceManager_Log ''t'' tx_one) = None \<and>
   (\<exists>ls. pending (tx_real (snd (CommitTx PersistenceManager_Log ''t'' tx_one))) = map (\<lambda>x. x @ [CHR 10]) ls \<and>
    (\<forall>n. restored [] Map.empty (on_lines (take n ls) pm_one) new_engine =
       restored [] Map.empty (on_lines (map entry_line (if n < length ls then take n [(''kv'', ''SET'', [''n'', ''NDE='', ''PERSISTENT''])]
         else [(''kv'', ''SET'', [''n'', ''NDE='', ''PERSISTENT''])] @ tx_buffer tx_one)) pm_one) new_engine))"
  by (rule tx_crash_atomic [OF _ prod.collapse [symmetric]])
    (simp_all add: tx_one_def BeginTx_def NewTxWalLogger_def pm_one_def pending_def entries_one wal_safe_def wal_char_def)

text \<open>
  C16.  A block that a crash cut off hides what comes after it: the file is not truncated and new lines are
  put behind the old ones, so the entries \<open>later\<close>, logged without a transaction after the restart, are
  skipped with the cut block by the next restore.
\<close>

theorem torn_tx_hides_later_entries:
  assumes "\<forall>x \<in> set (es @ torn @ later). good_entry x" "wal_safe txID" "txID \<noteq> []" "length txID < 60000"
  shows "restored ro fs (on_lines (map entry_line es @ tx_mark ''TX_BEGIN'' txID # map entry_line (torn @ later)) pm) s =
    restored ro fs (on_lines (map entry_line es) pm) s"
  using assms by (intro restored_torn) auto

lemma torn_tx_hides_later_entries_witness:
  "restored [] Map.empty (on_lines (map entry_line [] @ tx_mark ''TX_BEGIN'' ''t'' #
      map entry_line ([] @ [(''kv'', ''SET'', [''n'', ''NDE='', ''PERSISTENT''])])) pm_one) new_engine =
    restored [] Map.empty (on_lines (map entry_line []) pm_one) new_engine"
  by (rule torn_tx_hides_later_entries) (simp_all add: entries_one wal_safe_def wal_char_def)

subsection \<open>Values that come back, values that cannot be read\<close>

text \<open>The entry that a \<open>SET\<close> adds to what is pending.\<close>

definition set_entry :: "string \<Rightarrow> bytes \<Rightarrow> time option \<Rightarrow> wal_entry" where
  "set_entry k v x = (''kv'', ''SET'', [PathEscape k, EncodeToString v, expires_str x])"

lemma log_pending: "PersistenceManager_Log e a args pm = (err, pm') \<Longrightarrow>
    err = None \<and> pending pm' = pending pm @ [entry_line (e, a, args) @ [CHR 10]] \<and> physicalWal (pm_wal pm') = physicalWal (pm_wal pm)"
  by (auto simp: PersistenceManager_Log_def buffered_WriteToWal_def SaveToBuffer_def pending_def entry_line_def)

lemma kv_set_pending:
  assumes "kv_Set PersistenceManager_Log k v md (e, pm) = Some (err, e', pm')" "kv_inv e"
  shows "pending pm' = pending pm @ [entry_line (set_entry k v (expiresAt md)) @ [CHR 10]]"
    "physicalWal (pm_wal pm') = physicalWal (pm_wal pm)" "data e' = (data e)(k \<mapsto> NewPayload v md)"
  using kv_set_ends [OF assms(2), of PersistenceManager_Log k v md pm] assms(1)
  by (auto simp: kv_Set_def set_entry_def dest: log_pending)

lemma set_entry_safe: "loggable md \<Longrightarrow> safe_entry (set_entry k v (expiresAt md))"
  using wal_safe_expires [of "NewPayload v md"]
  by (simp add: set_entry_def safe_entry_def codec_simps wal_char_def payload_expiry_def)

lemmas payload_simps = payload_expiry_def NewPayload_def NewPayloadMetadata_def

lemma kv_wal_expired:
  assumes "kv_inv e" "loggable md" "expiresAt md = Some t" "t < later"
  shows "ends (kv_ProcessWalEntry later ''SET'' [PathEscape k, EncodeToString v, expires_str (expiresAt md)] e)
    (\<lambda>e'. kv_inv e' \<and> data e' = data e)"
proof -
  have "expired (payload_expiry (recovered later (NewPayload v md))) later"
    using trunc_second_bounds(1) [of t] assms(3,4) by (simp add: recovered_def expired_def payload_simps)
  then show ?thesis
    using kv_wal_set [OF assms(1), of "NewPayload v md" later k] assms(2) by (simp add: payload_simps)
qed

text \<open>
  C17.  A value that was overwritten can come back: when a persistent value of \<open>k\<close> is replaced by one
  with a time to live, and the process restarts after that time, the recovery skips the expired entry and
  keeps the value before it, so that a key the clients no longer saw is back, for good.
\<close>

theorem restart_brings_back_overwritten:
  assumes "kv_run compile pm0 (e, pm)" "pm_wal pm0 = NewBufferedWal (NewWal path [] [])"
    and "data e k = Some p" "payload_expiry p = None"
    and "kv_SetWithTTL PersistenceManager_Log now k v d (e, pm) = Some (err, e', pm')" "rfc3339_range (now + d)"
    and "now + d < later" "\<forall>l \<in> set (pending pm'). length l \<le> 65536"
  shows "kv_abs later e' k = None \<and>
    (\<exists>pm2 r. Restore [] fs (reopened None ''kv'' (kv_methods later ks) (flushed pm')) new_engine = Some (None, pm2, r) \<and>
      kv_abs later r k = Some (pvalue p, None))"
proof -
  define md where "md = NewPayloadMetadata now (Some (now + d))"
  have l: "kv_logged later (e, pm)" by (rule kv_run_logged [OF assms(1,2)])
  then have inv: "kv_inv e" by (simp add: kv_logged_def kv_durable_def)
  have st: "kv_Set PersistenceManager_Log k v md (e, pm) = Some (err, e', pm')"
    using assms(5) by (simp add: kv_SetWithTTL_def md_def)
  have md: "loggable md" "expiresAt md = Some (now + d)" using assms(6) by (simp_all add: md_def loggable_def NewPayloadMetadata_def)
  note p' = kv_set_pending [OF st inv]
  let ?x = "set_entry k v (expiresAt md)"
  have x: "safe_entry ?x" "fst ?x = ''kv''" "length (entry_line ?x) < 65536"
    using set_entry_safe [OF md(1)] assms(8) p'(1) by (simp_all add: set_entry_def)
  show ?thesis
  proof (rule kv_logged_entries [OF l])
    show "\<forall>l \<in> set (pending pm). length l \<le> 65536" using assms(8) p'(1) by auto
  next
    fix es assume es: "pending pm = map (\<lambda>x. entry_line x @ [CHR 10]) es"
      "\<forall>x \<in> set es. safe_entry x \<and> fst x = ''kv'' \<and> length (entry_line x) < 65536"
      and rep: "ends (kv_replay later es new_engine) (\<lambda>r. kv_inv r \<and>
       (\<forall>k p. data e k = Some p \<longrightarrow> \<not> expired (payload_expiry (recovered later p)) later \<longrightarrow> data r k = Some (recovered later p)))"
    have c: "wal_content (physicalWal (pm_wal (flushed pm'))) = concat (map (\<lambda>x. entry_line x @ [CHR 10]) (es @ [?x]))"
      using flushed_content [of pm'] l es(1) p'(1,2) by (simp add: kv_logged_def)
    have sh: "\<forall>y \<in> set (es @ [?x]). safe_entry y \<and> fst y = ''kv'' \<and> length (entry_line y) < 65536" using es(2) x by simp
    have px: "payload_expiry (recovered later p) = None" using assms(4) by (simp add: recovered_def payload_simps)
    obtain r0 where r0: "kv_replay later es new_engine = Some r0" "kv_inv r0" "data r0 k = Some (recovered later p)"
      using rep assms(3) px by (auto simp: ends_iff expired_def)
    obtain r where r: "kv_ProcessWalEntry later ''SET'' [PathEscape k, EncodeToString v, expires_str (expiresAt md)] r0 = Some r"
      "data r k = Some (recovered later p)"
      using kv_wal_expired [OF r0(2) md, of later k v] assms(7) r0(3) by (auto simp: ends_iff)
    have "kv_replay later (es @ [?x]) new_engine = Some r"
      using r0(1) r(1) by (simp add: kv_replay_append set_entry_def)
    moreover have "kv_abs later r k = Some (pvalue p, None)"
      using r(2) px by (simp add: kv_abs_Some recovered_def payload_simps expired_def)
    moreover have "kv_abs later e' k = None"
      using p'(3) assms(7) md(2) kv_abs_put [OF p'(3), of later] by (simp add: spec_put_def payload_simps expired_def)
    ultimately show ?thesis using kv_restore [OF c sh, of fs later ks new_engine] by (auto simp del: kv_replay.simps)
  qed
qed

lemma epoch_str: "expires_str (Some 0) = ''1970-01-01T00:00:00Z''"
  by code_simp

lemma set_two: "set_entry ''n'' ''42'' (Some 0) = (''kv'', ''SET'', [''n'', ''NDI='', ''1970-01-01T00:00:00Z''])"
proof -
  have "PathEscape ''n'' = ''n''" "EncodeToString ''42'' = ''NDI=''" by code_simp+
  then show ?thesis by (simp add: set_entry_def epoch_str del: PathEscape.simps EncodeToString.simps)
qed

lemma epoch_range: "rfc3339_range (0 + 0)"
  by code_simp

lemma restart_brings_back_overwritten_witness:
  "\<exists>err e' pm'. kv_SetWithTTL PersistenceManager_Log 0 ''n'' ''42'' 0 (kv_one, pm_one) = Some (err, e', pm') \<and>
    kv_abs 1 e' ''n'' = None \<and>
    (\<exists>pm2 r. Restore [] Map.empty (reopened None ''kv'' (kv_methods 1 []) (flushed pm')) new_engine = Some (None, pm2, r) \<and>
      kv_abs 1 r ''n'' = Some (pvalue (NewPayload ''41'' (NewPayloadMetadata 7 None)), None))"
proof -
  obtain err e' pm' where st: "kv_SetWithTTL PersistenceManager_Log 0 ''n'' ''42'' 0 (kv_one, pm_one) = Some (err, e', pm')"
    using kv_set_ends [OF kv_one_inv, of PersistenceManager_Log "''n''" "''42''" "NewPayloadMetadata 0 (Some (0 + 0))" pm_one]
    by (auto simp: ends_iff kv_SetWithTTL_def kv_Set_def)
  have "pending pm' = pending pm_one @ [entry_line (set_entry ''n'' ''42'' (Some 0)) @ [CHR 10]]"
    using kv_set_pending(1) [of "''n''" "''42''" "NewPayloadMetadata 0 (Some (0 + 0))" kv_one pm_one err e' pm'] st kv_one_inv
    by (simp add: kv_SetWithTTL_def NewPayloadMetadata_def)
  then have "\<forall>l \<in> set (pending pm'). length l \<le> 65536"
    by (simp add: set_two pm_one_def pending_def entry_line_def log_line_def)
  then show ?thesis
    using restart_brings_back_overwritten [OF pm_one_run _ _ _ st epoch_range, of "''wal.log''" "NewPayload ''41'' (NewPayloadMetadata 7 None)" 1 Map.empty "[]"] st
    by (simp add: fresh_pm_def NewPersistenceManager_def kv_one_def payload_simps)
qed

lemma length_EncodeToString: "4 * length bs \<le> 3 * length (EncodeToString bs)"
  by (induction bs rule: EncodeToString.induct) (simp_all add: Let_def)

lemma set_entry_length: "length (EncodeToString v) \<le> length (entry_line (set_entry k v x))"
  by (simp add: set_entry_def entry_line_def log_line_def)

lemma recover_long:
  assumes "buffer bw = []" "\<not> wal_closed (physicalWal bw)"
    "wal_content (physicalWal bw) = concat (map (\<lambda>l. l @ [CHR 10]) ls) @ l' @ CHR 10 # rest"
    "\<forall>l \<in> set ls. plain_line l" "CHR 10 \<notin> set l'" "65536 \<le> length l'"
  shows "\<exists>err. buffered_RecoverFromWal f bw s =
    map_option (\<lambda>(e, s'). (Some (if e = None then err else the e), bw, s')) (apply_lines f ls s)"
proof -
  have "scan_tokens (split_lines (wal_content (physicalWal bw))) = (ls, True)"
    using assms(3-6) split_lines_lines [of ls "l' @ CHR 10 # rest"]
    by (simp add: split_lines_line scan_tokens_long plain_line_def)
  then show ?thesis using assms(1,2)
    by (cases "apply_lines f ls s") (auto simp: buffered_RecoverFromWal_def RecoverFromWal_def intro!: exI)
qed

text \<open>
  C18.  A value of 48 KiB or more is logged and acknowledged, but its line does not fit the scanner of the
  recovery: the restart stops there with an error, whatever lines follow.
\<close>

theorem long_value_stops_recovery:
  assumes "kv_run compile pm0 (e, pm)" "pm_wal pm0 = NewBufferedWal (NewWal path [] [])"
    and "\<forall>l \<in> set (pending pm). length l \<le> 65536" "49152 \<le> length v" "loggable md"
    and "kv_Set PersistenceManager_Log k v md (e, pm) = Some (err, e', pm')"
    and "pending pm'' = pending pm' @ rest" "physicalWal (pm_wal pm'') = physicalWal (pm_wal pm')"
  shows "err = None \<and> (\<exists>pm2 r why. Restore [] fs (reopened None ''kv'' (kv_methods later ks) (flushed pm'')) new_engine =
    Some (Some (WrappedError ''failed to recover from WAL'' why), pm2, r))"
proof (rule kv_logged_entries [OF kv_run_logged [OF assms(1,2)] assms(3), where later = later])
  fix es assume es: "pending pm = map (\<lambda>x. entry_line x @ [CHR 10]) es"
    "\<forall>x \<in> set es. safe_entry x \<and> fst x = ''kv'' \<and> length (entry_line x) < 65536"
    and rep: "ends (kv_replay later es new_engine) (\<lambda>r. kv_inv r \<and>
     (\<forall>k p. data e k = Some p \<longrightarrow> \<not> expired (payload_expiry (recovered later p)) later \<longrightarrow> data r k = Some (recovered later p)))"
  have l: "kv_logged later (e, pm)" by (rule kv_run_logged [OF assms(1,2)])
  then have inv: "kv_inv e" by (simp add: kv_logged_def kv_durable_def)
  let ?l = "entry_line (set_entry k v (expiresAt md))" and ?ls = "map entry_line es"
  let ?re = "reopened None ''kv'' (kv_methods later ks) (flushed pm'')"
  have e: "err = None" using kv_set_ends [OF inv, of PersistenceManager_Log k v md pm] assms(6) by (auto simp: kv_Set_def dest: log_pending)
  note p' = kv_set_pending [OF assms(6) inv]
  have long: "65536 \<le> length ?l"
    using length_EncodeToString [of v] set_entry_length [of v k "expiresAt md"] assms(4) by simp
  have nl: "CHR 10 \<notin> set ?l"
    using set_entry_safe [OF assms(5), of k v] set_join_char
    by (fastforce simp: set_entry_def safe_entry_def entry_line_def log_line_def wal_safe_def wal_char_def list_all_iff)
  have re: "pm_snapshot ?re = None" "buffer (pm_wal ?re) = []" "\<not> wal_closed (physicalWal (pm_wal ?re))" "engines ?re = [''kv'' \<mapsto> kv_methods later ks]"
    by (simp_all add: reopened_def RegisterEngine_def NewPersistenceManager_def NewBufferedWal_def NewWal_def)
  have "wal_content (physicalWal (pm_wal (flushed pm''))) = concat (map (\<lambda>l. l @ [CHR 10]) ?ls) @ ?l @ CHR 10 # concat rest"
    using flushed_content [of pm''] l es(1) p'(1,2) assms(7,8) by (simp add: kv_logged_def o_def)
  then have c: "wal_content (physicalWal (pm_wal ?re)) = concat (map (\<lambda>l. l @ [CHR 10]) ?ls) @ ?l @ CHR 10 # concat rest"
    by (simp add: reopened_def RegisterEngine_def NewPersistenceManager_def NewBufferedWal_def NewWal_def)
  have pl: "\<forall>l \<in> set ?ls. plain_line l" "\<forall>l \<in> set ?ls. not_tx l" using es(2) by (force intro: safe_entry_lines kv_not_tx)+
  obtain r where r: "kv_replay later es new_engine = Some r" using rep by (auto simp: ends_iff)
  obtain w1 where w1: "buffered_RecoverFromWal tx_line (pm_wal ?re) {} = Some (Some w1, pm_wal ?re, {})"
    using recover_long [OF re(2,3) c pl(1) nl long, of tx_line "{}"] tx_pass_other [OF pl(2)] by auto
  obtain w2 where w2: "buffered_RecoverFromWal (replay_line [] (engines ?re) (fallbackEngine ?re) {}) (pm_wal ?re) ([], new_engine) =
      Some (Some w2, pm_wal ?re, [], r)"
    using recover_long [OF re(2,3) c pl(1) nl long, of "replay_line [] (engines ?re) (fallbackEngine ?re) {}" "([], new_engine)"]
      kv_replay_lines [of es later ks "fallbackEngine ?re" "[]" new_engine] es(2) r re(4) by auto
  have "Restore [] fs ?re new_engine = Some (Some (WrappedError ''failed to recover from WAL'' w2), ?re, r)"
    using w1 w2 by (simp add: Restore_def re(1) replay_wal_def)
  then show ?thesis using e by blast
qed

lemma long_value_stops_recovery_witness:
  "\<exists>err e' pm'. kv_Set PersistenceManager_Log ''n'' (replicate 49152 CHR ''a'') (NewPayloadMetadata 7 None) (new_engine, fresh_pm) =
      Some (err, e', pm') \<and> err = None \<and>
    (\<exists>pm2 r why. Restore [] Map.empty (reopened None ''kv'' (kv_methods 9 []) (flushed pm')) new_engine =
      Some (Some (WrappedError ''failed to recover from WAL'' why), pm2, r))"
proof -
  let ?v = "replicate 49152 CHR ''a''" and ?md = "NewPayloadMetadata 7 None"
  obtain err e' pm' where st: "kv_Set PersistenceManager_Log ''n'' ?v ?md (new_engine, fresh_pm) = Some (err, e', pm')"
    using kv_set_ends [OF engine_inv_new, of PersistenceManager_Log "''n''" ?v ?md fresh_pm] by (auto simp: ends_iff kv_Set_def)
  have w: "pm_wal fresh_pm = NewBufferedWal (NewWal ''wal.log'' [] [])" "pending fresh_pm = []" "loggable ?md"
    by (simp_all add: fresh_pm_def NewPersistenceManager_def pending_def NewBufferedWal_def loggable_def NewPayloadMetadata_def)
  have run: "kv_run no_regexps fresh_pm (new_engine, fresh_pm)" by (rule run_start)
  show ?thesis
    using long_value_stops_recovery [OF run w(1) _ _ w(3) st, where pm'' = pm' and rest = "[]" and later = 9 and fs = Map.empty and ks = "[]"] st w(2) by simp
qed

subsection \<open>Writing the buffer out\<close>

text \<open>
  C19.  A flush loses and repeats nothing in the buffer: some first \<open>k\<close> lines go to the file, behind what is
  there, and exactly these leave the buffer; at most a part of the next line follows them; without an error
  all lines are in the file and the buffer is empty.
\<close>

theorem flush_keeps_lines:
  assumes "buffered_SyncWal bw = (err, bw')"
  shows "(err = None \<longrightarrow> buffer bw' = [] \<and> wal_content (physicalWal bw') = wal_content (physicalWal bw) @ concat (buffer bw)) \<and>
    (\<exists>k p. k \<le> length (buffer bw) \<and> buffer bw' = drop k (buffer bw) \<and>
      wal_content (physicalWal bw') = wal_content (physicalWal bw) @ concat (take k (buffer bw)) @ take p (concat (drop k (buffer bw))))"
  by (rule sync_spec [OF assms])

lemma flush_keeps_lines_witness:
  "\<exists>k p. k \<le> 2 \<and> buffer (snd (buffered_SyncWal \<lparr>physicalWal = NewWal ''w'' [] [None, Some 1], buffer = [''a'', ''bc'']\<rparr>)) = drop k [''a'', ''bc''] \<and>
    wal_content (physicalWal (snd (buffered_SyncWal \<lparr>physicalWal = NewWal ''w'' [] [None, Some 1], buffer = [''a'', ''bc'']\<rparr>))) =
      concat (take k [''a'', ''bc'']) @ take p (concat (drop k [''a'', ''bc'']))"
  using flush_keeps_lines [OF prod.collapse [symmetric], of "\<lparr>physicalWal = NewWal ''w'' [] [None, Some 1], buffer = [''a'', ''bc'']\<rparr>"]
  by (simp add: NewWal_def numeral_2_eq_2)

text \<open>Rounds of logging and flushing, as the ticker of the server does them.\<close>

fun log_rounds :: "string list list \<Rightarrow> BufferedWal \<Rightarrow> goerr option list \<times> BufferedWal" where
  "log_rounds [] bw = ([], bw)"
| "log_rounds (ls # rounds) bw =
     (case buffered_SyncWal (fold (\<lambda>l b. snd (buffered_WriteToWal l b)) ls bw) of
        (err, bw') \<Rightarrow> (case log_rounds rounds bw' of (errs, bw'') \<Rightarrow> (err # errs, bw'')))"

lemma write_all: "fold (\<lambda>l b. snd (buffered_WriteToWal l b)) ls bw = bw\<lparr>buffer := buffer bw @ ls\<rparr>"
  by (induction ls arbitrary: bw) (simp_all add: buffered_WriteToWal_def SaveToBuffer_def)

lemma sync_closed:
  assumes "wal_closed (physicalWal bw)" "buffer bw \<noteq> []"
  shows "\<exists>err. buffered_SyncWal bw = (Some err, bw)"
  using assms by (cases bw; cases "buffer bw") (simp_all add: buffered_SyncWal_def ExportToWal_def WriteRaw_def CloseWal_def)

lemma rounds_closed:
  "wal_closed (physicalWal bw) \<Longrightarrow> buffer bw \<noteq> [] \<Longrightarrow> log_rounds rounds bw = (errs, bw') \<Longrightarrow>
   None \<notin> set errs \<and> bw' = bw\<lparr>buffer := buffer bw @ concat rounds\<rparr>"
proof (induction rounds arbitrary: bw errs bw')
  case (Cons ls rounds)
  obtain err where "buffered_SyncWal (bw\<lparr>buffer := buffer bw @ ls\<rparr>) = (Some err, bw\<lparr>buffer := buffer bw @ ls\<rparr>)"
    using sync_closed [of "bw\<lparr>buffer := buffer bw @ ls\<rparr>"] Cons.prems by auto
  then show ?case using Cons.prems Cons.IH [of "bw\<lparr>buffer := buffer bw @ ls\<rparr>"]
    by (auto simp: write_all split: prod.splits)
qed simp

lemma export_write_fails:
  assumes "wal_faults w = replicate k None @ Some n # fs" "k < length ls" "\<not> wal_closed w"
  shows "\<exists>err w'. export_loop ls i w = ((i + k, Some err), w') \<and> wal_closed w' \<and>
    wal_content w' = wal_content w @ concat (take k ls) @ take n (ls ! k)"
  using assms
proof (induction k arbitrary: ls i w)
  case 0
  then show ?case by (cases ls) (auto simp: WriteRaw_def next_fault_def CloseWal_def)
next
  case (Suc k)
  then obtain l ls' where ls: "ls = l # ls'" by (cases ls) auto
  let ?w = "w\<lparr>wal_faults := replicate k None @ Some n # fs, wal_content := wal_content w @ l\<rparr>"
  have "\<exists>err w'. export_loop ls' (Suc i) ?w = ((Suc i + k, Some err), w') \<and> wal_closed w' \<and>
    wal_content w' = wal_content ?w @ concat (take k ls') @ take n (ls' ! k)"
    by (rule Suc.IH) (use Suc.prems ls in simp_all)
  then show ?case using Suc.prems ls by (auto simp: WriteRaw_def next_fault_def)
qed

text \<open>
  C20.  A write that fails once ends the log for good: the write of line \<open>k\<close> fails, after \<open>n\<close> bytes, and
  the file is closed and never opened again.  From then on every flush fails and the file keeps what it
  has, while every entry is still acknowledged: the buffer holds line \<open>k\<close> and all that is logged after.
\<close>

theorem write_failure_is_final:
  assumes "wal_faults (physicalWal bw) = replicate k None @ Some n # fs" "k < length (buffer bw)" "\<not> wal_closed (physicalWal bw)"
    and "buffered_SyncWal bw = (err, bw1)" "log_rounds rounds bw1 = (errs, bw2)"
  shows "err \<noteq> None \<and> None \<notin> set errs \<and>
    wal_content (physicalWal bw2) = wal_content (physicalWal bw) @ concat (take k (buffer bw)) @ take n (buffer bw ! k) \<and>
    buffer bw2 = drop k (buffer bw) @ concat rounds \<and> (\<forall>l. snd (fst (buffered_WriteToWal l bw2)) = None)"
proof -
  obtain e w' where x: "export_loop (buffer bw) 0 (physicalWal bw) = ((k, Some e), w')" "wal_closed w'"
    "wal_content w' = wal_content (physicalWal bw) @ concat (take k (buffer bw)) @ take n (buffer bw ! k)"
    using export_write_fails [OF assms(1-3), of 0] by auto
  then have b1: "err = Some e" "bw1 = \<lparr>physicalWal = w', buffer = drop k (buffer bw)\<rparr>"
    using assms(2,4) by (auto simp: buffered_SyncWal_def ExportToWal_def split: if_splits)
  have "None \<notin> set errs \<and> bw2 = bw1\<lparr>buffer := buffer bw1 @ concat rounds\<rparr>"
    by (rule rounds_closed [OF _ _ assms(5)]) (use x(2) b1(2) assms(2) in simp_all)
  then show ?thesis using b1 x(3) by (simp add: buffered_WriteToWal_def)
qed

lemma write_failure_is_final_witness:
  "buffer (snd (log_rounds [[''c''], [''d'']] (snd (buffered_SyncWal \<lparr>physicalWal = NewWal ''w'' [] [None, Some 1], buffer = [''a'', ''bc'']\<rparr>)))) =
     [''bc'', ''c'', ''d'']"
  using write_failure_is_final [OF _ _ _ prod.collapse [symmetric] prod.collapse [symmetric],
      of "\<lparr>physicalWal = NewWal ''w'' [] [None, Some 1], buffer = [''a'', ''bc'']\<rparr>" 1 1 "[]" "[[''c''], [''d'']]"]
  by (simp add: NewWal_def)

subsection \<open>Snapshots, and a write beside one\<close>

definition kv_saveable :: "string list \<Rightarrow> Storage \<Rightarrow> bool" where
  "kv_saveable ks e \<longleftrightarrow> card (dom (data e)) < 2 ^ 64 \<and> length (kv_SerializeState ks e) < 2 ^ 63 \<and>
     (\<forall>k p. data e k = Some p \<longrightarrow> length k < 2 ^ 32 \<and> kv_fits p)"

lemma restore_saved:
  assumes "kv_inv e" "map_iter ks (data e)" "kv_saveable ks e"
    and "pm_snapshot pm = Some (NewSnapshot path)" "engines pm = [''kv'' \<mapsto> kv_methods now ks]"
    and "save_file fails space [''kv''] pm e fs = (None, fs')" "wal_content (physicalWal (pm_wal pm')) = []"
  shows "\<exists>pm2 r. Restore [] fs' (reopened (Some (NewSnapshot path)) ''kv'' (kv_methods later js) pm') s0 = Some (None, pm2, r) \<and>
    kv_inv r \<and> data r = data e"
proof -
  define buf where "buf = kv_SerializeState ks e"
  let ?sn = "NewSnapshot path" and ?re = "reopened (Some (NewSnapshot path)) ''kv'' (kv_methods later js) pm'"
  let ?des = "snapshot_callback [] (engines ?re)"
  have re: "pm_snapshot ?re = Some ?sn" "pm_wal ?re = NewBufferedWal (NewWal (wal_path (physicalWal (pm_wal pm'))) [] [])"
    using assms(7) by (simp_all add: reopened_def RegisterEngine_def NewPersistenceManager_def)
  have "sections_of [''kv''] pm e = map (\<lambda>(i, b). (i, Inr b)) [(''kv'', buf)]"
    using assms(5) by (simp add: sections_of_def map_filter_def kv_methods_def buf_def)
  then have sv: "Save fails space ?sn (map (\<lambda>(i, b). (i, Inr b)) [(''kv'', buf)]) fs = (None, fs')"
    using assms(4,6) by (simp add: save_file_def split: prod.splits)
  obtain r where r: "?des ''kv'' buf s0 = (None, [], r)" "kv_inv r" "data r = data e"
    using kv_snapshot_back [OF assms(1,2), of "[]" s0] assms(3)
    by (auto simp: kv_saveable_def buf_def snapshot_callback_def reopened_def RegisterEngine_def NewPersistenceManager_def kv_methods_def)
  have left: "length left \<le> length b" if "(i, b) \<in> set [(''kv'', buf)]" "?des i b s = (x, left, s')" for i b s x left s'
    using kv_snapshot_back [OF assms(1,2), of "[]" s] assms(3) that
    by (auto simp: kv_saveable_def buf_def snapshot_callback_def reopened_def RegisterEngine_def NewPersistenceManager_def kv_methods_def)
  have "list_all section_fits [(''kv'', buf)]" using assms(3) by (simp add: kv_saveable_def section_fits_def buf_def)
  then obtain sn' where ld: "Load ?sn ?des fs' s0 = Some (None, sn', r)"
    using saved_sections [OF sv, of ?des s0] left r(1) by (auto simp: NewSnapshot_def)
  have "replay_wal [] (?re\<lparr>pm_snapshot := Some sn'\<rparr>) r = Some (None, ?re\<lparr>pm_snapshot := Some sn'\<rparr>, r)"
    using replay_wal_lines [of "?re\<lparr>pm_snapshot := Some sn'\<rparr>" "[]" "[]" r] re(2) by (simp add: NewBufferedWal_def NewWal_def)
  then show ?thesis using ld r(2,3) by (simp add: Restore_def re(1))
qed

text \<open>
  C21.  A snapshot and a restart: when the snapshot of a key-value engine was saved, a new process that
  finds its file and the emptied log has exactly the data of the engine, expired keys included.
\<close>

theorem snapshot_restart:
  assumes "kv_inv e" "map_iter ks (data e)" "kv_saveable ks e"
    and "pm_snapshot pm = Some (NewSnapshot path)" "engines pm = [''kv'' \<mapsto> kv_methods now ks]"
    and "pm_SaveSnapshot fails space [''kv''] pm e fs = (None, pm', fs')"
  shows "\<exists>pm2 r. Restore [] fs' (reopened (Some (NewSnapshot path)) ''kv'' (kv_methods later js) pm') s0 = Some (None, pm2, r) \<and>
    kv_inv r \<and> data r = data e"
proof (rule restore_saved [OF assms(1-5)])
  show "save_file fails space [''kv''] pm e fs = (None, fs')"
    using assms(6) by (auto simp: pm_SaveSnapshot_def split: prod.splits option.splits)
  show "wal_content (physicalWal (pm_wal pm')) = []"
    using assms(6) by (auto simp: pm_SaveSnapshot_def truncate_log_def buffered_TruncateWal_def TruncateWal_def split: prod.splits option.splits)
qed

text \<open>
  C22.  The same snapshot, beside a client: a value that is set after the engine was written to the file and
  before the log is truncated is acknowledged and in memory, but in neither file; the restart gives the data
  from before.
\<close>

theorem snapshot_loses_concurrent_set:
  assumes "kv_inv e" "map_iter ks (data e)" "kv_saveable ks e"
    and "pm_snapshot pm = Some (NewSnapshot path)" "engines pm = [''kv'' \<mapsto> kv_methods now ks]"
    and "save_file fails space [''kv''] pm e fs = (None, fs')"
    and "kv_Set PersistenceManager_Log k v md (e, pm) = Some (err, e', pm1)" "truncate_log pm1 = (None, pm2)"
  shows "err = None \<and> data e' k = Some (NewPayload v md) \<and>
    (\<exists>pm3 r. Restore [] fs' (reopened (Some (NewSnapshot path)) ''kv'' (kv_methods later js) pm2) s0 = Some (None, pm3, r) \<and> data r = data e)"
proof -
  have "err = None"
    using kv_set_ends [OF assms(1), of PersistenceManager_Log k v md pm] assms(7) by (auto simp: kv_Set_def dest: log_pending)
  moreover have "data e' k = Some (NewPayload v md)" using kv_set_pending(3) [OF assms(7,1)] by simp
  moreover have "wal_content (physicalWal (pm_wal pm2)) = []"
    using assms(8) by (auto simp: truncate_log_def buffered_TruncateWal_def TruncateWal_def split: prod.splits option.splits)
  ultimately show ?thesis using restore_saved [OF assms(1-6), of pm2 later js s0] by blast
qed

definition pm_snap :: "Storage PersistenceManager" where
  "pm_snap = RegisterEngine ''kv'' (kv_methods 9 [''n'']) (NewPersistenceManager (NewBufferedWal (NewWal ''wal.log'' [] [])) (Some (NewSnapshot ''snap'')))"

lemma kv_one_saveable: "kv_saveable [''n''] kv_one"
proof -
  have "length (kv_SerializeState [''n''] kv_one) < 2 ^ 63"
    by (simp add: kv_SerializeState_def write_state_def kv_one_def WriteUintValue_def WriteBytes_def write_expiry_def
      kv_write_value_def WriteInt64Value_def NewPayload_def NewPayloadMetadata_def)
  then show ?thesis
    by (simp add: kv_saveable_def kv_one_def kv_fits_def times_fit_def NewPayload_def NewPayloadMetadata_def int64_range_def)
qed

lemma pm_snap_simps: "pm_snapshot pm_snap = Some (NewSnapshot ''snap'')" "engines pm_snap = [''kv'' \<mapsto> kv_methods 9 [''n'']]"
  by (simp_all add: pm_snap_def RegisterEngine_def NewPersistenceManager_def)

lemma pm_snap_saved:
  obtains fs' where "save_file (\<lambda>_. False) None [''kv''] pm_snap kv_one Map.empty = (None, fs')"
    "pm_SaveSnapshot (\<lambda>_. False) None [''kv''] pm_snap kv_one Map.empty = (None, snd (truncate_log pm_snap), fs')"
  using that
  by (auto simp: pm_SaveSnapshot_def save_file_def pm_snap_def RegisterEngine_def NewPersistenceManager_def Save_def SaveSnapshot_def
    sections_of_def map_filter_def Let_def kv_methods_def truncate_log_def buffered_TruncateWal_def TruncateWal_def next_fault_def
    NewBufferedWal_def NewWal_def split: prod.splits)

lemma snapshot_restart_witness:
  "\<exists>pm' fs' pm2 r. pm_SaveSnapshot (\<lambda>_. False) None [''kv''] pm_snap kv_one Map.empty = (None, pm', fs') \<and>
    Restore [] fs' (reopened (Some (NewSnapshot ''snap'')) ''kv'' (kv_methods 10 []) pm') new_engine = Some (None, pm2, r) \<and>
    kv_inv r \<and> data r = data kv_one"
proof -
  obtain fs' where s: "pm_SaveSnapshot (\<lambda>_. False) None [''kv''] pm_snap kv_one Map.empty = (None, snd (truncate_log pm_snap), fs')"
    by (rule pm_snap_saved)
  show ?thesis using snapshot_restart [OF kv_one_inv kv_one_iter kv_one_saveable pm_snap_simps s, of 10 "[]" new_engine] s by blast
qed

lemma snapshot_loses_concurrent_set_witness:
  "\<exists>fs' e' pm1 pm2 pm3 r. save_file (\<lambda>_. False) None [''kv''] pm_snap kv_one Map.empty = (None, fs') \<and>
    kv_Set PersistenceManager_Log ''n'' ''9'' (NewPayloadMetadata 8 None) (kv_one, pm_snap) = Some (None, e', pm1) \<and>
    data e' ''n'' = Some (NewPayload ''9'' (NewPayloadMetadata 8 None)) \<and> truncate_log pm1 = (None, pm2) \<and>
    Restore [] fs' (reopened (Some (NewSnapshot ''snap'')) ''kv'' (kv_methods 10 []) pm2) new_engine = Some (None, pm3, r) \<and>
    data r = data kv_one"
proof -
  obtain fs' where s: "save_file (\<lambda>_. False) None [''kv''] pm_snap kv_one Map.empty = (None, fs')" by (rule pm_snap_saved)
  let ?md = "NewPayloadMetadata 8 None"
  obtain err e' pm1 where st: "kv_Set PersistenceManager_Log ''n'' ''9'' ?md (kv_one, pm_snap) = Some (err, e', pm1)"
    using kv_set_ends [OF kv_one_inv, of PersistenceManager_Log "''n''" "''9''" ?md pm_snap] by (auto simp: ends_iff kv_Set_def)
  have "physicalWal (pm_wal pm1) = physicalWal (pm_wal pm_snap)" by (rule kv_set_pending(2) [OF st kv_one_inv])
  then obtain pm2 where t: "truncate_log pm1 = (None, pm2)"
    by (simp add: truncate_log_def buffered_TruncateWal_def TruncateWal_def next_fault_def pm_snap_def RegisterEngine_def
      NewPersistenceManager_def NewBufferedWal_def NewWal_def)
  show ?thesis
    using snapshot_loses_concurrent_set [OF kv_one_inv kv_one_iter kv_one_saveable pm_snap_simps s st t, of 10 "[]" new_engine] s st t
    by blast
qed

end
