(* ===== verification/GoFloat.thy ===== *)
theory GoFloat
  imports Prelude "HOL-Library.Word"
begin

text \<open>
  \<open>float64\<close> as its 64 bits: the comparisons and the addition of IEEE 754 with rounding to nearest, ties to
  even.  \<open>math.Float64bits\<close> and \<open>math.Float64frombits\<close> are the identity.  The sign and payload of a NaN
  that an addition makes depend on the processor; here it is the one of \<open>math.NaN\<close>, and nothing rests on it.
\<close>

unbundle bit_operations_syntax

type_synonym float64 = "64 word"

definition float_mag :: "float64 \<Rightarrow> nat" where
  "float_mag x = unat x mod 2 ^ 63"

definition float_neg :: "float64 \<Rightarrow> bool" where
  "float_neg x \<longleftrightarrow> 2 ^ 63 \<le> unat x"

definition inf_mag :: nat where
  "inf_mag = 0x7FF0000000000000"

definition is_nan :: "float64 \<Rightarrow> bool" where
  "is_nan x \<longleftrightarrow> inf_mag < float_mag x"

text \<open>The bits of numbers of one sign are in the order of their values; both zeros are \<open>0\<close>.\<close>

definition float_key :: "float64 \<Rightarrow> int" where
  "float_key x = (if float_neg x then - int (float_mag x) else int (float_mag x))"

definition fless :: "float64 \<Rightarrow> float64 \<Rightarrow> bool" where
  "fless x y \<longleftrightarrow> \<not> is_nan x \<and> \<not> is_nan y \<and> float_key x < float_key y"

definition feq :: "float64 \<Rightarrow> float64 \<Rightarrow> bool" where
  "feq x y \<longleftrightarrow> \<not> is_nan x \<and> \<not> is_nan y \<and> float_key x = float_key y"

definition fle :: "float64 \<Rightarrow> float64 \<Rightarrow> bool" where
  "fle x y \<longleftrightarrow> fless x y \<or> feq x y"

lemma fle_iff: "fle x y \<longleftrightarrow> \<not> is_nan x \<and> \<not> is_nan y \<and> float_key x \<le> float_key y"
  by (auto simp: fle_def fless_def feq_def)

text \<open>The value of a finite number, in units of the least positive one (two to the power -1074).\<close>

definition float_units :: "float64 \<Rightarrow> int" where
  "float_units x =
     (let m = float_mag x; e = m div 2 ^ 52; f = m mod 2 ^ 52;
          v = (if e = 0 then f else (f + 2 ^ 52) * 2 ^ (e - 1))
      in if float_neg x then - int v else int v)"

fun bit_length :: "nat \<Rightarrow> nat" where
  "bit_length n = (if n = 0 then 0 else Suc (bit_length (n div 2)))"

declare bit_length.simps [simp del]

lemma bit_length_code: "bit_length 0 = 0" "bit_length (Suc 0) = 1" "bit_length (numeral k) = Suc (bit_length (numeral k div 2))"
  by (simp_all add: bit_length.simps)

text \<open>The magnitude bits of \<open>n\<close> units, rounded to 53 significant bits.\<close>

definition round_mag :: "nat \<Rightarrow> nat" where
  "round_mag n =
     (let k = bit_length n - 53; q = n div 2 ^ k; r = n mod 2 ^ k;
          q' = (if 2 ^ k < 2 * r \<or> (2 ^ k = 2 * r \<and> odd q) then Suc q else q)
      in min inf_mag (q' + k * 2 ^ 52))"

definition nan_bits :: float64 where
  "nan_bits = 0x7FF8000000000001"

definition with_sign :: "bool \<Rightarrow> nat \<Rightarrow> float64" where
  "with_sign s m = word_of_nat (m + (if s then 2 ^ 63 else 0))"

definition fadd :: "float64 \<Rightarrow> float64 \<Rightarrow> float64" where
  "fadd x y =
     (if is_nan x \<or> is_nan y then nan_bits
      else if float_mag x = inf_mag then (if float_mag y = inf_mag \<and> float_neg x \<noteq> float_neg y then nan_bits else x)
      else if float_mag y = inf_mag then y
      else (let n = float_units x + float_units y
            in if n = 0 then with_sign (float_neg x \<and> float_neg y) 0 else with_sign (n < 0) (round_mag (nat \<bar>n\<bar>))))"

text \<open>Sums of tiny numbers, where the rounding can be seen: two ties, a zero, and infinities of both signs.\<close>

lemma fadd_examples:
  "fadd 3 4 = 7"
  "fadd 0x0020000000000000 1 = 0x0020000000000000"
  "fadd 0x0020000000000000 3 = 0x0020000000000002"
  "fadd 7 0x8000000000000007 = 0"
  "fadd 0x7FF0000000000000 0xFFF0000000000000 = nan_bits"
  by (simp_all add: fadd_def is_nan_def inf_mag_def float_mag_def float_neg_def float_units_def round_mag_def with_sign_def
    nan_bits_def Let_def bit_length_code)

lemma is_nan_bits [simp]: "is_nan nan_bits"
  by (simp add: is_nan_def nan_bits_def float_mag_def inf_mag_def)

end
