(* ===== verification/SkipList.thy ===== *)
theory SkipList
  imports GoFloat "HOL-Library.List_Lexorder" "HOL-Library.Char_ord" "HOL-Library.Stream" "HOL-Library.Monad_Syntax"
begin

text \<open>
  The skip list of the sorted sets (\<open>pkg/zset_storage/skiplist.go\<close>).  The nodes live in an arena, a pointer
  is an index into it, the header is node 0; spans, ranks and the length are 64-bit words.  \<^term>\<open>None\<close> is a
  panic (an index out of range) or a loop that does not end.  The random source is the stream of the
  outcomes of \<open>Float64() < zskiplistP\<close>.
\<close>

record zskiplistLevel =
  forward :: "nat option"
  span :: "64 word"

record zskiplistNode =
  ele :: string
  score :: float64
  backward :: "nat option"
  node_level :: "zskiplistLevel list"

record zskiplist =
  nodes :: "zskiplistNode list"
  tail :: "nat option"
  zsl_length :: "64 word"
  zsl_level :: nat
  randSource :: "bool stream"

definition zskiplistMaxLevel :: nat where
  "zskiplistMaxLevel = 32"

definition newZskiplistNode :: "nat \<Rightarrow> float64 \<Rightarrow> string \<Rightarrow> zskiplistNode" where
  "newZskiplistNode lvl s e =
     \<lparr>ele = e, score = s, backward = None, node_level = replicate lvl \<lparr>forward = None, span = 0\<rparr>\<rparr>"

definition newZskiplist :: "bool stream \<Rightarrow> zskiplist" where
  "newZskiplist src =
     \<lparr>nodes = [newZskiplistNode zskiplistMaxLevel 0 []], tail = None, zsl_length = 0, zsl_level = 1, randSource = src\<rparr>"

text \<open>The loop of \<open>randomLevel\<close>; the draw comes before the test of the level.\<close>

function random_level :: "nat \<Rightarrow> bool stream \<Rightarrow> nat \<times> bool stream" where
  "random_level lvl src =
     (if shd src \<and> lvl < zskiplistMaxLevel then random_level (Suc lvl) (stl src) else (lvl, stl src))"
  by auto
termination by (relation "measure (\<lambda>(lvl, src). zskiplistMaxLevel - lvl)") auto

declare random_level.simps [simp del]

definition randomLevel :: "bool stream \<Rightarrow> nat \<times> bool stream" where
  "randomLevel src = random_level 1 src"

subsection \<open>Pointers\<close>

definition node_at :: "zskiplist \<Rightarrow> nat \<Rightarrow> zskiplistNode option" where
  "node_at z x = (if x < length (nodes z) then Some (nodes z ! x) else None)"

definition level_at :: "zskiplist \<Rightarrow> nat \<Rightarrow> nat \<Rightarrow> zskiplistLevel option" where
  "level_at z x i =
     Option.bind (node_at z x) (\<lambda>n. if i < length (node_level n) then Some (node_level n ! i) else None)"

definition set_level :: "nat \<Rightarrow> nat \<Rightarrow> zskiplistLevel \<Rightarrow> zskiplist \<Rightarrow> zskiplist" where
  "set_level x i l z =
     z\<lparr>nodes := (nodes z)[x := (nodes z ! x)\<lparr>node_level := (node_level (nodes z ! x))[i := l]\<rparr>]\<rparr>"

definition set_backward :: "nat \<Rightarrow> nat option \<Rightarrow> zskiplist \<Rightarrow> zskiplist" where
  "set_backward x b z = z\<lparr>nodes := (nodes z)[x := (nodes z ! x)\<lparr>backward := b\<rparr>]\<rparr>"

subsection \<open>Going down\<close>

text \<open>
  One level: go forward while the next node satisfies \<open>before\<close>, adding up the spans.  All searches are this
  loop, from the highest level down; \<open>search\<close> gives the node and the rank at which each level was left.
\<close>

partial_function (option) walk ::
  "zskiplist \<Rightarrow> (zskiplistNode \<Rightarrow> bool) \<Rightarrow> nat \<Rightarrow> nat \<Rightarrow> 64 word \<Rightarrow> (nat \<times> 64 word) option" where
  "walk z before i x rank = do {
     l \<leftarrow> level_at z x i;
     (case forward l of
        None \<Rightarrow> Some (x, rank)
      | Some y \<Rightarrow> do {
          n \<leftarrow> node_at z y;
          if before n then walk z before i y (rank + span l) else Some (x, rank) }) }"

fun search ::
  "zskiplist \<Rightarrow> (zskiplistNode \<Rightarrow> bool) \<Rightarrow> nat \<Rightarrow> nat \<Rightarrow> 64 word \<Rightarrow> (nat list \<times> 64 word list) option" where
  "search z before 0 x rank = Some ([], [])"
| "search z before (Suc i) x rank = do {
     (x', rank') \<leftarrow> walk z before i x rank;
     (update, ranks) \<leftarrow> search z before i x' rank';
     Some (update @ [x'], ranks @ [rank']) }"

definition node_before :: "float64 \<Rightarrow> string \<Rightarrow> zskiplistNode \<Rightarrow> bool" where
  "node_before s e n \<longleftrightarrow> fless (score n) s \<or> (feq (score n) s \<and> ele n < e)"

definition node_upto :: "float64 \<Rightarrow> string \<Rightarrow> zskiplistNode \<Rightarrow> bool" where
  "node_upto s e n \<longleftrightarrow> fless (score n) s \<or> (feq (score n) s \<and> ele n \<le> e)"

subsection \<open>Insertion\<close>

text \<open>The levels the new node adds start at the header, with the whole length as span.\<close>

fun raise_levels :: "nat \<Rightarrow> nat \<Rightarrow> zskiplist \<Rightarrow> zskiplist option" where
  "raise_levels 0 i z = Some z"
| "raise_levels (Suc k) i z = do {
     l \<leftarrow> level_at z 0 i;
     raise_levels k (Suc i) (set_level 0 i (l\<lparr>span := zsl_length z\<rparr>) z) }"

text \<open>Linking the new node \<open>x\<close> in at the levels \<open>i, i + 1, \<dots>\<close>, one for each entry of \<open>update\<close>.\<close>

fun link_loop :: "nat \<Rightarrow> 64 word \<Rightarrow> nat \<Rightarrow> nat list \<Rightarrow> 64 word list \<Rightarrow> zskiplist \<Rightarrow> zskiplist option" where
  "link_loop x rank0 i (u # us) (r # rs) z = do {
     lu \<leftarrow> level_at z u i;
     lx \<leftarrow> level_at z x i;
     let z1 = set_level x i (lx\<lparr>forward := forward lu, span := span lu - (rank0 - r)\<rparr>) z;
     link_loop x rank0 (Suc i) us rs (set_level u i (lu\<lparr>forward := Some x, span := (rank0 - r) + 1\<rparr>) z1) }"
| "link_loop x rank0 i _ _ z = Some z"

fun grow_loop :: "nat \<Rightarrow> nat list \<Rightarrow> zskiplist \<Rightarrow> zskiplist option" where
  "grow_loop i [] z = Some z"
| "grow_loop i (u # us) z = do {
     l \<leftarrow> level_at z u i;
     grow_loop (Suc i) us (set_level u i (l\<lparr>span := span l + 1\<rparr>) z) }"

text \<open>The new node is appended to the arena; \<open>update\<close> and \<open>ranks\<close> have an entry for each level, the new ones too.\<close>

definition insert_node ::
  "nat \<Rightarrow> bool stream \<Rightarrow> float64 \<Rightarrow> string \<Rightarrow> nat list \<Rightarrow> 64 word list \<Rightarrow> zskiplist \<Rightarrow> zskiplist option" where
  "insert_node lvl src s e update ranks z = do {
     z1 \<leftarrow> raise_levels (lvl - zsl_level z) (zsl_level z) z;
     let x = length (nodes z);
     let z2 = z1\<lparr>zsl_level := max (zsl_level z) lvl, randSource := src, nodes := nodes z1 @ [newZskiplistNode lvl s e]\<rparr>;
     z3 \<leftarrow> link_loop x (ranks ! 0) 0 (take lvl update) (take lvl ranks) z2;
     z4 \<leftarrow> grow_loop lvl (drop lvl update) z3;
     let z5 = set_backward x (if update ! 0 = 0 then None else Some (update ! 0)) z4;
     l \<leftarrow> level_at z5 x 0;
     let z6 = (case forward l of None \<Rightarrow> z5\<lparr>tail := Some x\<rparr> | Some y \<Rightarrow> set_backward y (Some x) z5);
     Some (z6\<lparr>zsl_length := zsl_length z6 + 1\<rparr>) }"

definition zsl_insert :: "float64 \<Rightarrow> string \<Rightarrow> zskiplist \<Rightarrow> zskiplist option" where
  "zsl_insert s e z = do {
     (update, ranks) \<leftarrow> search z (node_before s e) (zsl_level z) 0 0;
     (case randomLevel (randSource z) of
        (lvl, src) \<Rightarrow> insert_node lvl src s e (update @ replicate (lvl - zsl_level z) 0) (ranks @ replicate (lvl - zsl_level z) 0) z) }"

subsection \<open>Deletion\<close>

fun unlink_loop :: "nat \<Rightarrow> nat \<Rightarrow> nat list \<Rightarrow> zskiplist \<Rightarrow> zskiplist option" where
  "unlink_loop x i [] z = Some z"
| "unlink_loop x i (u # us) z = do {
     lu \<leftarrow> level_at z u i;
     if forward lu = Some x then do {
       lx \<leftarrow> level_at z x i;
       unlink_loop x (Suc i) us (set_level u i (lu\<lparr>span := span lu + (span lx - 1), forward := forward lx\<rparr>) z) }
     else unlink_loop x (Suc i) us (set_level u i (lu\<lparr>span := span lu - 1\<rparr>) z) }"

text \<open>The levels above 1 at which the header has no successor are given up.\<close>

fun lower_level :: "zskiplist \<Rightarrow> nat \<Rightarrow> nat option" where
  "lower_level z 0 = Some 0"
| "lower_level z (Suc i) =
     (if i = 0 then Some 1
      else do { l \<leftarrow> level_at z 0 i; if forward l = None then lower_level z i else Some (Suc i) })"

definition deleteNode :: "nat \<Rightarrow> nat list \<Rightarrow> zskiplist \<Rightarrow> zskiplist option" where
  "deleteNode x update z = do {
     z1 \<leftarrow> unlink_loop x 0 update z;
     l \<leftarrow> level_at z1 x 0;
     n \<leftarrow> node_at z1 x;
     let z2 = (case forward l of None \<Rightarrow> z1\<lparr>tail := backward n\<rparr> | Some y \<Rightarrow> set_backward y (backward n) z1);
     lvl \<leftarrow> lower_level z2 (zsl_level z2);
     Some (z2\<lparr>zsl_level := lvl, zsl_length := zsl_length z2 - 1\<rparr>) }"

definition zsl_delete :: "float64 \<Rightarrow> string \<Rightarrow> zskiplist \<Rightarrow> (bool \<times> zskiplist) option" where
  "zsl_delete s e z = do {
     (update, ranks) \<leftarrow> search z (node_before s e) (zsl_level z) 0 0;
     l \<leftarrow> level_at z (update ! 0) 0;
     (case forward l of
        None \<Rightarrow> Some (False, z)
      | Some x \<Rightarrow> do {
          n \<leftarrow> node_at z x;
          if feq s (score n) \<and> ele n = e then map_option (Pair True) (deleteNode x update z) else Some (False, z) }) }"

subsection \<open>Ranks\<close>

fun rank_loop :: "zskiplist \<Rightarrow> float64 \<Rightarrow> string \<Rightarrow> nat \<Rightarrow> nat \<Rightarrow> 64 word \<Rightarrow> 64 word option" where
  "rank_loop z s e 0 x rank = Some 0"
| "rank_loop z s e (Suc i) x rank = do {
     (x', rank') \<leftarrow> walk z (node_upto s e) i x rank;
     n \<leftarrow> node_at z x';
     if x' \<noteq> 0 \<and> ele n = e then Some rank' else rank_loop z s e i x' rank' }"

definition getRank :: "float64 \<Rightarrow> string \<Rightarrow> zskiplist \<Rightarrow> 64 word option" where
  "getRank s e z = rank_loop z s e (zsl_level z) 0 0"

partial_function (option) walk_rank ::
  "zskiplist \<Rightarrow> 64 word \<Rightarrow> nat \<Rightarrow> nat \<Rightarrow> 64 word \<Rightarrow> (nat \<times> 64 word) option" where
  "walk_rank z rank i x traversed = do {
     l \<leftarrow> level_at z x i;
     (case forward l of
        None \<Rightarrow> Some (x, traversed)
      | Some y \<Rightarrow> if traversed + span l \<le> rank then walk_rank z rank i y (traversed + span l) else Some (x, traversed)) }"

fun element_loop :: "zskiplist \<Rightarrow> 64 word \<Rightarrow> nat \<Rightarrow> nat \<Rightarrow> 64 word \<Rightarrow> nat option option" where
  "element_loop z rank 0 x traversed = Some None"
| "element_loop z rank (Suc i) x traversed = do {
     (x', traversed') \<leftarrow> walk_rank z rank i x traversed;
     if traversed' = rank then Some (Some x') else element_loop z rank i x' traversed' }"

definition getElementByRank :: "64 word \<Rightarrow> zskiplist \<Rightarrow> nat option option" where
  "getElementByRank rank z =
     (if rank = 0 \<or> zsl_length z < rank then Some None else element_loop z rank (zsl_level z) 0 0)"

text \<open>The ranks of the ends of a range of scores (\<open>zset_storage.go\<close>).\<close>

definition firstInRangeRank :: "float64 \<Rightarrow> zskiplist \<Rightarrow> 64 word option" where
  "firstInRangeRank mn z = do {
     (update, ranks) \<leftarrow> search z (\<lambda>n. fless (score n) mn) (zsl_level z) 0 0;
     l \<leftarrow> level_at z (update ! 0) 0;
     (case forward l of
        None \<Rightarrow> Some 0
      | Some x \<Rightarrow> do { n \<leftarrow> node_at z x; Some (if fle mn (score n) then ranks ! 0 + 1 else 0) }) }"

definition lastInRangeRank :: "float64 \<Rightarrow> zskiplist \<Rightarrow> 64 word option" where
  "lastInRangeRank mx z = do {
     (update, ranks) \<leftarrow> search z (\<lambda>n. fle (score n) mx) (zsl_level z) 0 0;
     Some (if update ! 0 \<noteq> 0 then ranks ! 0 else 0) }"

end
