(* ===== verification/GoFloatText.thy ===== *)
theory GoFloatText
  imports GoFloat GoEncoding
begin

text \<open>
  \<open>strconv.ParseFloat(s, 64)\<close> and \<open>strconv.FormatFloat(x, 'f', -1, 64)\<close>: the nearest number, ties to even,
  and the shortest decimal that is read back as the number.  \<^term>\<open>None\<close> is an error of \<open>ParseFloat\<close>, of the
  syntax or of the range; its callers never look at the number then.
\<close>

subsection \<open>Reading\<close>

text \<open>The magnitude bits nearest to \<open>num / den\<close> units.\<close>

definition round_ratio :: "nat \<Rightarrow> nat \<Rightarrow> nat" where
  "round_ratio num den =
     (let k = bit_length (num div den) - 53; d = den * 2 ^ k; q = num div d; r = num mod d;
          q' = (if d < 2 * r \<or> (d = 2 * r \<and> odd q) then Suc q else q)
      in min inf_mag (q' + k * 2 ^ 52))"

definition lower_char :: "char \<Rightarrow> char" where
  "lower_char c = (let n = of_char c :: nat in if 65 \<le> n \<and> n \<le> 90 then char_of (n + 32) else c)"

definition base_digit :: "nat \<Rightarrow> char \<Rightarrow> nat option" where
  "base_digit base c =
     (let n = of_char (lower_char c) :: nat in
      if 48 \<le> n \<and> n \<le> 57 then Some (n - 48)
      else if base = 16 \<and> 97 \<le> n \<and> n \<le> 102 then Some (n - 87) else None)"

text \<open>The mantissa: the digits read, how many of them follow the point, whether there was one.\<close>

fun read_mantissa :: "nat \<Rightarrow> bool \<Rightarrow> nat \<Rightarrow> nat \<Rightarrow> bool \<Rightarrow> string \<Rightarrow> nat \<times> nat \<times> bool \<times> string" where
  "read_mantissa base dot m f seen [] = (m, f, seen, [])"
| "read_mantissa base dot m f seen (c # cs) =
     (if c = CHR ''_'' then read_mantissa base dot m f seen cs
      else if c = CHR ''.'' then (if dot then (m, f, seen, c # cs) else read_mantissa base True m f seen cs)
      else (case base_digit base c of
              None \<Rightarrow> (m, f, seen, c # cs)
            | Some d \<Rightarrow> read_mantissa base dot (m * base + d) (if dot then Suc f else f) True cs))"

text \<open>The exponent stops growing at ten thousand.\<close>

fun read_exponent :: "nat \<Rightarrow> string \<Rightarrow> nat option" where
  "read_exponent e [] = Some e"
| "read_exponent e (c # cs) =
     (if c = CHR ''_'' then read_exponent e cs
      else (case char_digit c of
              None \<Rightarrow> None
            | Some d \<Rightarrow> read_exponent (if e < 10000 then e * 10 + d else e) cs))"

definition signed_exponent :: "string \<Rightarrow> int option" where
  "signed_exponent s =
     (case split_sign s of (neg, ds) \<Rightarrow>
        (case ds of
           [] \<Rightarrow> None
         | c # cs \<Rightarrow>
             if char_digit c = None then None
             else map_option (\<lambda>e. if neg then - int e else int e) (read_exponent 0 ds)))"

text \<open>An underscore stands between two digits, where a base prefix counts as a digit.\<close>

fun underscores :: "bool \<Rightarrow> bool \<Rightarrow> bool \<Rightarrow> string \<Rightarrow> bool" where
  "underscores hex digit us [] \<longleftrightarrow> \<not> us"
| "underscores hex digit us (c # cs) \<longleftrightarrow>
     (if base_digit (if hex then 16 else 10) c \<noteq> None then underscores hex True False cs
      else if c = CHR ''_'' then digit \<and> underscores hex False True cs
      else \<not> us \<and> underscores hex False False cs)"

definition hex_prefix :: "string \<Rightarrow> string option" where
  "hex_prefix s =
     (case s of a # b # cs \<Rightarrow> if a = CHR ''0'' \<and> lower_char b = CHR ''x'' then Some cs else None | _ \<Rightarrow> None)"

definition scaled :: "nat \<Rightarrow> nat \<Rightarrow> int \<Rightarrow> nat" where
  "scaled m b e = (if 0 \<le> e then round_ratio (m * b ^ nat e * 2 ^ 1074) 1 else round_ratio (m * 2 ^ 1074) (b ^ nat (- e)))"

definition ParseFloat :: "string \<Rightarrow> float64 option" where
  "ParseFloat s =
     (case split_sign s of (neg, t) \<Rightarrow>
        if map lower_char t \<in> {''inf'', ''infinity''} then Some (with_sign neg inf_mag)
        else if map lower_char s = ''nan'' then Some nan_bits
        else
          (let hex = hex_prefix t \<noteq> None; base = (if hex then 16 else 10);
               digits = (case hex_prefix t of None \<Rightarrow> t | Some cs \<Rightarrow> cs)
           in case read_mantissa base False 0 0 False digits of (m, f, seen, rest) \<Rightarrow>
             if \<not> seen \<or> \<not> underscores hex hex False digits then None
             else
               (let e = (case rest of
                           [] \<Rightarrow> if hex then None else Some 0
                         | c # cs \<Rightarrow> if lower_char c = (if hex then CHR ''p'' else CHR ''e'') then signed_exponent cs else None)
                in case e of
                     None \<Rightarrow> None
                   | Some e \<Rightarrow>
                       (let mag = (if hex then scaled m 2 (e - 4 * int f) else scaled m 10 (e - int f))
                        in if mag = inf_mag then None else Some (with_sign neg mag)))))"

subsection \<open>Writing\<close>

text \<open>
  \<open>digits_at num den n p\<close>: the decimals of \<open>n\<close> digits around \<open>num / den\<close> whose last digit weighs \<open>10 ^ (p - n)\<close>,
  the nearer one first; \<open>shortest\<close> takes the first \<open>n\<close> at which one of them is read back as the number.
  Seventeen digits are enough for every number; the last line is never reached.
\<close>

definition decimal_scale :: "nat \<Rightarrow> int \<Rightarrow> nat \<times> nat" where
  "decimal_scale units q = (if 0 \<le> q then (units, 2 ^ 1074 * 10 ^ nat q) else (units * 10 ^ nat (- q), 2 ^ 1074))"

definition digits_at :: "nat \<Rightarrow> int \<Rightarrow> nat list" where
  "digits_at units q =
     (case decimal_scale units q of (num, den) \<Rightarrow>
        (let d = num div den; r = num mod den in
         if r = 0 then [d] else if 2 * r < den \<or> (2 * r = den \<and> even d) then [d, Suc d] else [Suc d, d]))"

definition exact_digits :: "nat \<Rightarrow> nat \<times> int" where
  "exact_digits units = (units * 5 ^ 1074, - 1074)"

fun shortest :: "nat \<Rightarrow> nat \<Rightarrow> nat \<Rightarrow> int \<Rightarrow> nat \<times> int" where
  "shortest mag units 0 q = exact_digits units"
| "shortest mag units (Suc k) q =
     (case filter (\<lambda>d. scaled d 10 q = mag) (digits_at units q) of
        [] \<Rightarrow> shortest mag units k (q - 1)
      | d # _ \<Rightarrow> if d mod 10 = 0 then (d div 10, q + 1) else (d, q))"

text \<open>The exponent of the leading digit, from an upper bound.\<close>

fun leading :: "nat \<Rightarrow> int \<Rightarrow> nat \<Rightarrow> int" where
  "leading units q 0 = q"
| "leading units q (Suc k) = (case decimal_scale units q of (num, den) \<Rightarrow> if den \<le> num then q else leading units (q - 1) k)"

definition plain_decimal :: "nat \<Rightarrow> int \<Rightarrow> string" where
  "plain_decimal d q =
     (if 0 \<le> q then nat_digits d @ replicate (nat q) CHR ''0''
      else
        (let f = nat (- q); ds = nat_digits d; ds' = replicate (Suc f - length ds) CHR ''0'' @ ds;
             n = length ds' - f
         in take n ds' @ CHR ''.'' # drop n ds'))"

definition FormatFloat :: "float64 \<Rightarrow> string" where
  "FormatFloat x =
     (if is_nan x then ''NaN''
      else if float_mag x = inf_mag then (if float_neg x then ''-Inf'' else ''+Inf'')
      else
        (let units = nat \<bar>float_units x\<bar>; sign = (if float_neg x then ''-'' else [])
         in if units = 0 then sign @ ''0''
            else (case shortest (float_mag x) units 17 (leading units 309 640) of (d, q) \<Rightarrow> sign @ plain_decimal d q)))"

end
