(* ===== verification/ZSetStorage.thy ===== *)
theory ZSetStorage
  imports SkipList GoFloatText GoTime SnapshotCodec
begin

text \<open>
  The sorted set engine, \<open>pkg/zset_storage/zset_storage.go\<close>.  A value is a map from members to scores and a
  skip list of the same pairs; the code keeps the two in step by hand.  An operation that may create a key
  takes the random source \<open>src\<close> of its skip list as an argument.
\<close>

type_synonym ZSetMember = "bytes \<times> float64"

record ZSetValue =
  dict :: "string \<rightharpoonup> float64"
  zsl :: zskiplist
  zset_createdAt :: time
  zset_expiresAt :: "time option"

type_synonym ZSetStorage = "ZSetValue engine"

definition NewZSetValue :: "bool stream \<Rightarrow> time \<Rightarrow> time option \<Rightarrow> ZSetValue" where
  "NewZSetValue src c x = \<lparr>dict = Map.empty, zsl = newZskiplist src, zset_createdAt = c, zset_expiresAt = x\<rparr>"

abbreviation zset_evict :: "'w logger \<Rightarrow> time \<Rightarrow> string \<Rightarrow> ZSetStorage \<times> 'w \<Rightarrow> (ZSetStorage \<times> 'w) option" where
  "zset_evict lg now key \<equiv> evict lg ''zset'' zset_expiresAt now key"

definition zset_deleteExpiredKeys ::
  "'w logger \<Rightarrow> time \<Rightarrow> string list \<Rightarrow> ZSetStorage \<times> 'w \<Rightarrow> (ZSetStorage \<times> 'w) option" where
  "zset_deleteExpiredKeys lg now ks s = sweep lg ''zset'' zset_expiresAt now ks s"

subsection \<open>Following the list\<close>

definition next_node :: "zskiplist \<Rightarrow> nat \<Rightarrow> nat option option" where
  "next_node z x = map_option forward (level_at z x 0)"

definition prev_node :: "zskiplist \<Rightarrow> nat \<Rightarrow> nat option option" where
  "prev_node z x = map_option backward (node_at z x)"

text \<open>At most \<open>k\<close> nodes from \<open>x\<close> on.\<close>

fun take_nodes :: "(nat \<Rightarrow> nat option option) \<Rightarrow> zskiplist \<Rightarrow> nat \<Rightarrow> nat option \<Rightarrow> ZSetMember list option" where
  "take_nodes step z (Suc k) (Some x) = do {
     n \<leftarrow> node_at z x;
     y \<leftarrow> step x;
     ms \<leftarrow> take_nodes step z k y;
     Some ((ele n, score n) # ms) }"
| "take_nodes step z _ _ = Some []"

fun skip_nodes :: "(nat \<Rightarrow> nat option option) \<Rightarrow> nat \<Rightarrow> nat option \<Rightarrow> nat option option" where
  "skip_nodes step (Suc k) (Some x) = do { y \<leftarrow> step x; skip_nodes step k y }"
| "skip_nodes step _ x = Some x"

text \<open>The nodes from \<open>x\<close> on, while the score is in the range and, for a positive \<open>count\<close>, until there are so many.\<close>

partial_function (option) collect_nodes ::
  "(nat \<Rightarrow> nat option option) \<Rightarrow> zskiplist \<Rightarrow> (float64 \<Rightarrow> bool) \<Rightarrow> int \<Rightarrow> ZSetMember list \<Rightarrow> nat option \<Rightarrow>
   ZSetMember list option" where
  "collect_nodes step z ok count res x =
     (case x of
        None \<Rightarrow> Some res
      | Some x \<Rightarrow> do {
          n \<leftarrow> node_at z x;
          if ok (score n) then
            (if 0 < count \<and> int (length (res @ [(ele n, score n)])) = count then Some (res @ [(ele n, score n)])
             else do { y \<leftarrow> step x; collect_nodes step z ok count (res @ [(ele n, score n)]) y })
          else Some res })"

definition first_node :: "zskiplist \<Rightarrow> nat option option" where
  "first_node z = next_node z 0"

definition getZSetBytesNoLock :: "zskiplist \<Rightarrow> ZSetMember list option" where
  "getZSetBytesNoLock z = do { x \<leftarrow> first_node z; collect_nodes (next_node z) z (\<lambda>s. True) 0 [] x }"

definition SnapshotZSetMember :: "time \<Rightarrow> string \<Rightarrow> bytes \<Rightarrow> ZSetStorage \<Rightarrow> float64 option" where
  "SnapshotZSetMember now key m e =
     (case data e key of
        None \<Rightarrow> None
      | Some v \<Rightarrow> if expired (zset_expiresAt v) now then None else dict v m)"

definition SnapshotZSetAll :: "time \<Rightarrow> string \<Rightarrow> ZSetStorage \<Rightarrow> ZSetMember list option option" where
  "SnapshotZSetAll now key e =
     (case data e key of
        None \<Rightarrow> Some None
      | Some v \<Rightarrow> if expired (zset_expiresAt v) now then Some None else map_option Some (getZSetBytesNoLock (zsl v)))"

subsection \<open>Adding, removing, incrementing\<close>

fun zadd_loop ::
  "ZSetMember list \<Rightarrow> (string \<rightharpoonup> float64) \<Rightarrow> zskiplist \<Rightarrow> int \<Rightarrow> ((string \<rightharpoonup> float64) \<times> zskiplist \<times> int) option" where
  "zadd_loop [] d z added = Some (d, z, added)"
| "zadd_loop ((m, s) # ms) d z added =
     (case d m of
        Some old \<Rightarrow>
          if \<not> feq old s then do {
            (gone, z1) \<leftarrow> zsl_delete old m z;
            z2 \<leftarrow> zsl_insert s m z1;
            zadd_loop ms (d(m \<mapsto> s)) z2 added }
          else zadd_loop ms d z added
      | None \<Rightarrow> do { z1 \<leftarrow> zsl_insert s m z; zadd_loop ms (d(m \<mapsto> s)) z1 (added + 1) })"

definition zAddNoLockAndNoWal ::
  "time \<Rightarrow> bool stream \<Rightarrow> string \<Rightarrow> ZSetMember list \<Rightarrow> time option \<Rightarrow> ZSetStorage \<Rightarrow> (int \<times> ZSetStorage) option" where
  "zAddNoLockAndNoWal now src key ms x e =
     (let val = (case data e key of
                   None \<Rightarrow> NewZSetValue src now x
                 | Some v \<Rightarrow> if x \<noteq> None then v\<lparr>zset_expiresAt := x\<rparr> else v)
      in do {
        (d, z, added) \<leftarrow> zadd_loop ms (dict val) (zsl val) 0;
        let e1 = e\<lparr>data := (data e)(key \<mapsto> val\<lparr>dict := d, zsl := z\<rparr>)\<rparr>;
        if x \<noteq> None then do { e2 \<leftarrow> dropExpiration key e1; Some (added, addExpiration key x e2) }
        else Some (added, e1) })"

definition ZAdd ::
  "'w logger \<Rightarrow> time \<Rightarrow> bool stream \<Rightarrow> string \<Rightarrow> ZSetMember list \<Rightarrow> time option \<Rightarrow> ZSetStorage \<times> 'w \<Rightarrow>
   ((goerr + int) \<times> ZSetStorage \<times> 'w) option" where
  "ZAdd lg now src key ms x s = do {
     (e, w) \<leftarrow> zset_evict lg now key s;
     (added, e') \<leftarrow> zAddNoLockAndNoWal now src key ms x e;
     let expiresStr = (if x \<noteq> None then expires_str x
                       else (case data e' key of None \<Rightarrow> ''PERSISTENT'' | Some v \<Rightarrow> expires_str (zset_expiresAt v)));
     case lg ''zset'' ''ZADD'' (PathEscape key # expiresStr # concat (map (\<lambda>(m, sc). [FormatFloat sc, EncodeToString m]) ms)) w of
       (Some err, w') \<Rightarrow> Some (Inl err, e', w')
     | (None, w') \<Rightarrow> Some (Inr added, e', w') }"

fun zrem_loop ::
  "bytes list \<Rightarrow> (string \<rightharpoonup> float64) \<Rightarrow> zskiplist \<Rightarrow> int \<Rightarrow> ((string \<rightharpoonup> float64) \<times> zskiplist \<times> int) option" where
  "zrem_loop [] d z removed = Some (d, z, removed)"
| "zrem_loop (m # ms) d z removed =
     (case d m of
        None \<Rightarrow> zrem_loop ms d z removed
      | Some old \<Rightarrow> do {
          (gone, z1) \<leftarrow> zsl_delete old m z;
          zrem_loop ms (d(m := None)) z1 (removed + 1) })"

text \<open>On a missing key the zero \<open>ZSetValue\<close> has a nil map: nothing is removed and the key is deleted.\<close>

definition zRemNoLockAndNoWal :: "string \<Rightarrow> bytes list \<Rightarrow> ZSetStorage \<Rightarrow> (int \<times> ZSetStorage) option" where
  "zRemNoLockAndNoWal key ms e =
     (case data e key of
        None \<Rightarrow> do { e' \<leftarrow> deleteNoLock key e; Some (0, e') }
      | Some v \<Rightarrow> do {
          (d, z, removed) \<leftarrow> zrem_loop ms (dict v) (zsl v) 0;
          e' \<leftarrow> (if d = Map.empty then deleteNoLock key e
                else Some (e\<lparr>data := (data e)(key \<mapsto> v\<lparr>dict := d, zsl := z\<rparr>)\<rparr>));
          Some (removed, e') })"

definition ZRem ::
  "'w logger \<Rightarrow> time \<Rightarrow> string \<Rightarrow> bytes list \<Rightarrow> ZSetStorage \<times> 'w \<Rightarrow> ((goerr + int) \<times> ZSetStorage \<times> 'w) option" where
  "ZRem lg now key ms s = do {
     (e, w) \<leftarrow> zset_evict lg now key s;
     if data e key = None then Some (Inr 0, e, w)
     else do {
       (removed, e') \<leftarrow> zRemNoLockAndNoWal key ms e;
       if 0 < removed then
         (case lg ''zset'' ''ZREM'' (PathEscape key # map EncodeToString ms) w of
            (Some err, w') \<Rightarrow> Some (Inl err, e', w')
          | (None, w') \<Rightarrow> Some (Inr removed, e', w'))
       else Some (Inr removed, e', w) } }"

definition zIncrByNoLockAndNoWal ::
  "time \<Rightarrow> bool stream \<Rightarrow> string \<Rightarrow> float64 \<Rightarrow> bytes \<Rightarrow> ZSetStorage \<Rightarrow> (float64 \<times> ZSetStorage) option" where
  "zIncrByNoLockAndNoWal now src key increment m e =
     (let val = (case data e key of None \<Rightarrow> NewZSetValue src now None | Some v \<Rightarrow> v);
          newScore = (case dict val m of None \<Rightarrow> increment | Some old \<Rightarrow> fadd old increment)
      in do {
        z1 \<leftarrow> (case dict val m of None \<Rightarrow> Some (zsl val) | Some old \<Rightarrow> map_option snd (zsl_delete old m (zsl val)));
        z2 \<leftarrow> zsl_insert newScore m z1;
        Some (newScore, e\<lparr>data := (data e)(key \<mapsto> val\<lparr>dict := (dict val)(m \<mapsto> newScore), zsl := z2\<rparr>)\<rparr>) })"

definition ZIncrBy ::
  "'w logger \<Rightarrow> time \<Rightarrow> bool stream \<Rightarrow> string \<Rightarrow> float64 \<Rightarrow> bytes \<Rightarrow> ZSetStorage \<times> 'w \<Rightarrow>
   ((goerr + float64) \<times> ZSetStorage \<times> 'w) option" where
  "ZIncrBy lg now src key increment m s = do {
     (e, w) \<leftarrow> zset_evict lg now key s;
     (newScore, e') \<leftarrow> zIncrByNoLockAndNoWal now src key increment m e;
     case lg ''zset'' ''ZINCRBY'' [PathEscape key, FormatFloat increment, EncodeToString m] w of
       (Some err, w') \<Rightarrow> Some (Inl err, e', w')
     | (None, w') \<Rightarrow> Some (Inr newScore, e', w') }"

subsection \<open>Taking from the ends\<close>

fun zpop_loop ::
  "ZSetMember list \<Rightarrow> (string \<rightharpoonup> float64) \<Rightarrow> zskiplist \<Rightarrow> ((string \<rightharpoonup> float64) \<times> zskiplist) option" where
  "zpop_loop [] d z = Some (d, z)"
| "zpop_loop ((m, s) # ps) d z = do { (gone, z1) \<leftarrow> zsl_delete s m z; zpop_loop ps (d(m := None)) z1 }"

definition zset_pop ::
  "string \<Rightarrow> (zskiplist \<Rightarrow> nat option option) \<Rightarrow> (zskiplist \<Rightarrow> nat \<Rightarrow> nat option option) \<Rightarrow>
   'w logger \<Rightarrow> time \<Rightarrow> string \<Rightarrow> int \<Rightarrow> ZSetStorage \<times> 'w \<Rightarrow> ((goerr + ZSetMember list) \<times> ZSetStorage \<times> 'w) option" where
  "zset_pop oper start step lg now key count s = do {
     (e, w) \<leftarrow> zset_evict lg now key s;
     case data e key of
       None \<Rightarrow> Some (Inl (not_found key oper), e, w)
     | Some v \<Rightarrow>
         if zsl_length (zsl v) = 0 then Some (Inl (not_found key oper), e, w)
         else if count \<le> 0 then Some (Inr [], e, w)
         else do {
           let limit = (if zsl_length (zsl v) < word_of_int count then sint (zsl_length (zsl v)) else count);
           x \<leftarrow> start (zsl v);
           popped \<leftarrow> take_nodes (step (zsl v)) (zsl v) (nat limit) x;
           (d, z) \<leftarrow> zpop_loop popped (dict v) (zsl v);
           e' \<leftarrow> (if d = Map.empty then deleteNoLock key e
                 else Some (e\<lparr>data := (data e)(key \<mapsto> v\<lparr>dict := d, zsl := z\<rparr>)\<rparr>));
           case lg ''zset'' oper (PathEscape key # concat (map (\<lambda>(m, sc). [EncodeToString m, FormatFloat sc]) popped)) w of
             (Some err, w') \<Rightarrow> Some (Inl err, e', w')
           | (None, w') \<Rightarrow> Some (Inr popped, e', w') } }"

definition ZPopMax ::
  "'w logger \<Rightarrow> time \<Rightarrow> string \<Rightarrow> int \<Rightarrow> ZSetStorage \<times> 'w \<Rightarrow> ((goerr + ZSetMember list) \<times> ZSetStorage \<times> 'w) option" where
  "ZPopMax lg now key count s = zset_pop ''ZPOPMAX'' (\<lambda>z. Some (tail z)) prev_node lg now key count s"

definition ZPopMin ::
  "'w logger \<Rightarrow> time \<Rightarrow> string \<Rightarrow> int \<Rightarrow> ZSetStorage \<times> 'w \<Rightarrow> ((goerr + ZSetMember list) \<times> ZSetStorage \<times> 'w) option" where
  "ZPopMin lg now key count s = zset_pop ''ZPOPMIN'' first_node next_node lg now key count s"

subsection \<open>Reading\<close>

text \<open>The start of every reading operation: a missing key, an expired key (deleted and logged), a live value.\<close>

definition zset_read ::
  "'w logger \<Rightarrow> time \<Rightarrow> string \<Rightarrow> ZSetStorage \<times> 'w \<Rightarrow> (ZSetValue option \<times> ZSetStorage \<times> 'w) option" where
  "zset_read lg now key s =
     (case data (fst s) key of
        None \<Rightarrow> Some (None, s)
      | Some v \<Rightarrow>
          if expired (zset_expiresAt v) now then do { s' \<leftarrow> zset_evict lg now key s; Some (None, s') }
          else Some (Some v, s))"

definition ZScore ::
  "'w logger \<Rightarrow> time \<Rightarrow> string \<Rightarrow> bytes \<Rightarrow> ZSetStorage \<times> 'w \<Rightarrow> (float64 option \<times> ZSetStorage \<times> 'w) option" where
  "ZScore lg now key m s = do {
     (r, s') \<leftarrow> zset_read lg now key s;
     Some (case r of None \<Rightarrow> None | Some v \<Rightarrow> dict v m, s') }"

definition ZCard :: "'w logger \<Rightarrow> time \<Rightarrow> string \<Rightarrow> ZSetStorage \<times> 'w \<Rightarrow> (int \<times> ZSetStorage \<times> 'w) option" where
  "ZCard lg now key s = do {
     (r, s') \<leftarrow> zset_read lg now key s;
     Some (case r of None \<Rightarrow> 0 | Some v \<Rightarrow> sint (zsl_length (zsl v)), s') }"

definition ZRank ::
  "'w logger \<Rightarrow> time \<Rightarrow> string \<Rightarrow> bytes \<Rightarrow> ZSetStorage \<times> 'w \<Rightarrow> (int option \<times> ZSetStorage \<times> 'w) option" where
  "ZRank lg now key m s = do {
     (r, s') \<leftarrow> zset_read lg now key s;
     case Option.bind r (\<lambda>v. map_option (Pair v) (dict v m)) of
       None \<Rightarrow> Some (None, s')
     | Some (v, sc) \<Rightarrow> do {
         rank \<leftarrow> getRank sc m (zsl v);
         Some (if rank = 0 then None else Some (sint (rank - 1)), s') } }"

definition ZRevRank ::
  "'w logger \<Rightarrow> time \<Rightarrow> string \<Rightarrow> bytes \<Rightarrow> ZSetStorage \<times> 'w \<Rightarrow> (int option \<times> ZSetStorage \<times> 'w) option" where
  "ZRevRank lg now key m s = do {
     (r, s') \<leftarrow> zset_read lg now key s;
     case Option.bind r (\<lambda>v. map_option (Pair v) (dict v m)) of
       None \<Rightarrow> Some (None, s')
     | Some (v, sc) \<Rightarrow> do {
         rank \<leftarrow> getRank sc m (zsl v);
         Some (if rank = 0 then None else Some (sint (zsl_length (zsl v) - rank)), s') } }"

definition ZCount ::
  "'w logger \<Rightarrow> time \<Rightarrow> string \<Rightarrow> float64 \<Rightarrow> float64 \<Rightarrow> ZSetStorage \<times> 'w \<Rightarrow> (int \<times> ZSetStorage \<times> 'w) option" where
  "ZCount lg now key mn mx s = do {
     (r, s') \<leftarrow> zset_read lg now key s;
     case r of
       None \<Rightarrow> Some (0, s')
     | Some v \<Rightarrow> do {
         firstRank \<leftarrow> firstInRangeRank mn (zsl v);
         if firstRank = 0 then Some (0, s')
         else do {
           lastRank \<leftarrow> lastInRangeRank mx (zsl v);
           Some (if lastRank = 0 \<or> lastRank < firstRank then 0 else sint (lastRank - firstRank + 1), s') } } }"

text \<open>The bounds of ZRANGE and ZREVRANGE; \<^term>\<open>None\<close> is an empty range.\<close>

definition range_bounds :: "int \<Rightarrow> int \<Rightarrow> int \<Rightarrow> (int \<times> int) option" where
  "range_bounds len start stop =
     (let start = (if start < 0 then len + start else start);
          stop = (if stop < 0 then len + stop else stop);
          start = (if start < 0 then 0 else start);
          stop = (if len \<le> stop then len - 1 else stop)
      in if stop < start \<or> len = 0 then None else Some (start, stop))"

definition zset_range ::
  "(int \<Rightarrow> int \<Rightarrow> int) \<Rightarrow> (zskiplist \<Rightarrow> nat \<Rightarrow> nat option option) \<Rightarrow> int \<Rightarrow> int \<Rightarrow> zskiplist \<Rightarrow> ZSetMember list option" where
  "zset_range rank_of step start stop z =
     (case range_bounds (sint (zsl_length z)) start stop of
        None \<Rightarrow> Some []
      | Some (start, stop) \<Rightarrow> do {
          node \<leftarrow> getElementByRank (word_of_int (rank_of (sint (zsl_length z)) start)) z;
          take_nodes (step z) z (nat (stop - start + 1)) node })"

definition ZRange ::
  "'w logger \<Rightarrow> time \<Rightarrow> string \<Rightarrow> int \<Rightarrow> int \<Rightarrow> ZSetStorage \<times> 'w \<Rightarrow> (ZSetMember list \<times> ZSetStorage \<times> 'w) option" where
  "ZRange lg now key start stop s = do {
     (r, s') \<leftarrow> zset_read lg now key s;
     case r of
       None \<Rightarrow> Some ([], s')
     | Some v \<Rightarrow> do { ms \<leftarrow> zset_range (\<lambda>len start. start + 1) next_node start stop (zsl v); Some (ms, s') } }"

definition ZRevRange ::
  "'w logger \<Rightarrow> time \<Rightarrow> string \<Rightarrow> int \<Rightarrow> int \<Rightarrow> ZSetStorage \<times> 'w \<Rightarrow> (ZSetMember list \<times> ZSetStorage \<times> 'w) option" where
  "ZRevRange lg now key start stop s = do {
     (r, s') \<leftarrow> zset_read lg now key s;
     case r of
       None \<Rightarrow> Some ([], s')
     | Some v \<Rightarrow> do { ms \<leftarrow> zset_range (\<lambda>len start. len - start) prev_node start stop (zsl v); Some (ms, s') } }"

definition range_by_score :: "float64 \<Rightarrow> float64 \<Rightarrow> int \<Rightarrow> int \<Rightarrow> zskiplist \<Rightarrow> ZSetMember list option" where
  "range_by_score mn mx offset count z = do {
     (update, ranks) \<leftarrow> search z (\<lambda>n. fless (score n) mn) (zsl_level z) 0 0;
     node \<leftarrow> next_node z (update ! 0);
     case node of
       None \<Rightarrow> Some []
     | Some x \<Rightarrow> do {
         n \<leftarrow> node_at z x;
         if fless mx (score n) then Some []
         else do {
           y \<leftarrow> skip_nodes (next_node z) (nat offset) (Some x);
           collect_nodes (next_node z) z (\<lambda>s. fle s mx) count [] y } } }"

definition ZRangeByScore ::
  "'w logger \<Rightarrow> time \<Rightarrow> string \<Rightarrow> float64 \<Rightarrow> float64 \<Rightarrow> int \<Rightarrow> int \<Rightarrow> ZSetStorage \<times> 'w \<Rightarrow>
   (ZSetMember list \<times> ZSetStorage \<times> 'w) option" where
  "ZRangeByScore lg now key mn mx offset count s = do {
     (r, s') \<leftarrow> zset_read lg now key s;
     case r of
       None \<Rightarrow> Some ([], s')
     | Some v \<Rightarrow> do { ms \<leftarrow> range_by_score mn mx offset count (zsl v); Some (ms, s') } }"

text \<open>The code also stops at the header; no \<open>backward\<close> pointer leads there.\<close>

definition above_header :: "nat option \<Rightarrow> nat option" where
  "above_header y = (if y = Some 0 then None else y)"

definition rev_range_by_score :: "float64 \<Rightarrow> float64 \<Rightarrow> int \<Rightarrow> int \<Rightarrow> zskiplist \<Rightarrow> ZSetMember list option" where
  "rev_range_by_score mx mn offset count z = do {
     (update, ranks) \<leftarrow> search z (\<lambda>n. fle (score n) mx) (zsl_level z) 0 0;
     let x = update ! 0;
     if x = 0 then Some []
     else do {
       n \<leftarrow> node_at z x;
       if fless (score n) mn then Some []
       else do {
         y \<leftarrow> skip_nodes (\<lambda>x. map_option above_header (prev_node z x)) (nat offset) (Some x);
         collect_nodes (\<lambda>x. map_option above_header (prev_node z x)) z (\<lambda>s. fle mn s) count [] y } } }"

definition ZRevRangeByScore ::
  "'w logger \<Rightarrow> time \<Rightarrow> string \<Rightarrow> float64 \<Rightarrow> float64 \<Rightarrow> int \<Rightarrow> int \<Rightarrow> ZSetStorage \<times> 'w \<Rightarrow>
   (ZSetMember list \<times> ZSetStorage \<times> 'w) option" where
  "ZRevRangeByScore lg now key mx mn offset count s = do {
     (r, s') \<leftarrow> zset_read lg now key s;
     case r of
       None \<Rightarrow> Some ([], s')
     | Some v \<Rightarrow> do { ms \<leftarrow> rev_range_by_score mx mn offset count (zsl v); Some (ms, s') } }"

subsection \<open>Deleting, expiry, patterns\<close>

definition zset_Delete ::
  "'w logger \<Rightarrow> string \<Rightarrow> ZSetStorage \<times> 'w \<Rightarrow> (goerr option \<times> ZSetStorage \<times> 'w) option" where
  "zset_Delete lg key s = engine_Delete lg ''zset'' key s"

definition zset_Reset :: "ZSetStorage \<Rightarrow> ZSetStorage" where
  "zset_Reset e = e\<lparr>data := Map.empty, expirations := empty_heap, expirationMap := Map.empty\<rparr>"

definition zset_Clear :: "ZSetStorage \<Rightarrow> ZSetStorage" where
  "zset_Clear e = clearNoLock e"

definition zset_CleanupExpired :: "'w logger \<Rightarrow> time \<Rightarrow> ZSetStorage \<times> 'w \<Rightarrow> (ZSetStorage \<times> 'w) option" where
  "zset_CleanupExpired lg now s = logged_cleanup lg ''zset'' now s"

definition zset_KeyCount :: "ZSetStorage \<Rightarrow> nat" where
  "zset_KeyCount e = card (dom (data e))"

definition zset_MemoryUsageBytes :: "ZSetStorage \<Rightarrow> int" where
  "zset_MemoryUsageBytes e =
     wrap64 (\<Sum>k \<in> dom (data e). int (16 + length k) + 40 +
       (\<Sum>b \<in> dom (dict (the (data e k))). int (16 + length b) + 40 + 32))"

definition zset_count ::
  "'w logger \<Rightarrow> time \<Rightarrow> string list \<Rightarrow> (string \<Rightarrow> bool) \<Rightarrow> ZSetStorage \<times> 'w \<Rightarrow> (int \<times> ZSetStorage \<times> 'w) option" where
  "zset_count lg now ks p s = sweep_count lg ''zset'' zset_expiresAt now ks p s"

text \<open>The listing of a value may fail to return: the result of the loop holds the listings as they came out.\<close>

definition zset_find ::
  "'w logger \<Rightarrow> time \<Rightarrow> string list \<Rightarrow> (string \<Rightarrow> bool) \<Rightarrow> ZSetStorage \<times> 'w \<Rightarrow>
   ((string \<rightharpoonup> ZSetMember list) \<times> ZSetStorage \<times> 'w) option" where
  "zset_find lg now ks p s = do {
     (r, s') \<leftarrow> sweep_find lg ''zset'' zset_expiresAt (\<lambda>v. getZSetBytesNoLock (zsl v)) now ks p s;
     if list_all (\<lambda>k. r k \<noteq> Some None) ks then Some (\<lambda>k. Option.bind (r k) id, s') else None }"

definition zset_CountByPrefix where
  "zset_CountByPrefix lg now ks pre s = zset_count lg now ks (\<lambda>k. HasPrefix k pre) s"

definition zset_CountBySuffix where
  "zset_CountBySuffix lg now ks suf s = zset_count lg now ks (\<lambda>k. HasSuffix k suf) s"

definition zset_CountByRegex ::
  "(string \<Rightarrow> goerr + (string \<Rightarrow> bool)) \<Rightarrow> 'w logger \<Rightarrow> time \<Rightarrow> string list \<Rightarrow> string \<Rightarrow> ZSetStorage \<times> 'w \<Rightarrow>
   ((goerr + int) \<times> ZSetStorage \<times> 'w) option" where
  "zset_CountByRegex compile lg now ks regex s =
     (case compile regex of
        Inl err \<Rightarrow> Some (Inl (RegexError regex err), s)
      | Inr re \<Rightarrow> do { (n, s') \<leftarrow> zset_count lg now ks re s; Some (Inr n, s') })"

definition zset_FindByPrefix where
  "zset_FindByPrefix lg now ks pre s = zset_find lg now ks (\<lambda>k. HasPrefix k pre) s"

definition zset_FindBySuffix where
  "zset_FindBySuffix lg now ks suf s = zset_find lg now ks (\<lambda>k. HasSuffix k suf) s"

definition zset_FindByRegex ::
  "(string \<Rightarrow> goerr + (string \<Rightarrow> bool)) \<Rightarrow> 'w logger \<Rightarrow> time \<Rightarrow> string list \<Rightarrow> string \<Rightarrow> ZSetStorage \<times> 'w \<Rightarrow>
   ((goerr + (string \<rightharpoonup> ZSetMember list)) \<times> ZSetStorage \<times> 'w) option" where
  "zset_FindByRegex compile lg now ks regex s =
     (case compile regex of
        Inl err \<Rightarrow> Some (Inl (RegexError regex err), s)
      | Inr re \<Rightarrow> do { (m, s') \<leftarrow> zset_find lg now ks re s; Some (Inr m, s') })"

definition zset_deleteByPrefixNoLock where
  "zset_deleteByPrefixNoLock lg now ks pre s =
     delete_loop lg ''zset'' zset_expiresAt now (\<lambda>k. HasPrefix k pre) ks 0 s"

definition zset_deleteBySuffixNoLock where
  "zset_deleteBySuffixNoLock lg now ks suf s =
     delete_loop lg ''zset'' zset_expiresAt now (\<lambda>k. HasSuffix k suf) ks 0 s"

definition zset_deleteByRegexNoLock where
  "zset_deleteByRegexNoLock lg now ks re s = delete_loop lg ''zset'' zset_expiresAt now re ks 0 s"

definition zset_DeleteByPrefix where
  "zset_DeleteByPrefix lg now ks pre s = zset_deleteByPrefixNoLock lg now ks pre s"

definition zset_DeleteBySuffix where
  "zset_DeleteBySuffix lg now ks suf s = zset_deleteBySuffixNoLock lg now ks suf s"

definition zset_DeleteByRegex ::
  "(string \<Rightarrow> goerr + (string \<Rightarrow> bool)) \<Rightarrow> 'w logger \<Rightarrow> time \<Rightarrow> string list \<Rightarrow> string \<Rightarrow> ZSetStorage \<times> 'w \<Rightarrow>
   ((int \<times> goerr option) \<times> ZSetStorage \<times> 'w) option" where
  "zset_DeleteByRegex compile lg now ks regex s =
     (case compile regex of
        Inl err \<Rightarrow> Some ((0, Some (RegexError regex err)), s)
      | Inr re \<Rightarrow> zset_deleteByRegexNoLock lg now ks re s)"

subsection \<open>Recovery\<close>

fun zadd_members :: "string list \<Rightarrow> ZSetMember list" where
  "zadd_members (sc # raw # args) =
     (case ParseFloat sc of
        None \<Rightarrow> zadd_members args
      | Some s \<Rightarrow> (case DecodeString raw of (m, ok) \<Rightarrow> if ok then (m, s) # zadd_members args else zadd_members args))"
| "zadd_members _ = []"

definition zset_decode :: "string list \<Rightarrow> bytes list" where
  "zset_decode raws = List.map_filter (\<lambda>raw. case DecodeString raw of (b, ok) \<Rightarrow> if ok then Some b else None) raws"

text \<open>The members of a ZPOPMAX or ZPOPMIN entry stand at every other argument, before their scores.\<close>

fun every_other :: "'a list \<Rightarrow> 'a list" where
  "every_other (a # b # xs) = a # every_other xs"
| "every_other xs = xs"

definition zset_ProcessWalEntry ::
  "time \<Rightarrow> bool stream \<Rightarrow> string \<Rightarrow> string list \<Rightarrow> ZSetStorage \<Rightarrow> ZSetStorage option" where
  "zset_ProcessWalEntry now src action args e =
     (if action = ''ZADD'' then
        (case args of
           a # expiresStr # ms \<Rightarrow>
             map_option snd (zAddNoLockAndNoWal now src (unescape_or_empty a) (zadd_members ms)
               (if expiresStr = ''PERSISTENT'' then None else ParseRFC3339 expiresStr) e)
         | _ \<Rightarrow> Some e)
      else if action = ''ZREM'' then
        (case args of
           a # ms \<Rightarrow> map_option snd (zRemNoLockAndNoWal (unescape_or_empty a) (zset_decode ms) e)
         | _ \<Rightarrow> Some e)
      else if action = ''ZPOPMAX'' \<or> action = ''ZPOPMIN'' then
        (case args of
           a # ms \<Rightarrow> map_option snd (zRemNoLockAndNoWal (unescape_or_empty a) (zset_decode (every_other ms)) e)
         | _ \<Rightarrow> Some e)
      else if action = ''ZINCRBY'' then
        (case args of
           a # b # c # _ \<Rightarrow>
             (case ParseFloat b of
                None \<Rightarrow> Some e
              | Some increment \<Rightarrow>
                  (case DecodeString c of (m, ok) \<Rightarrow>
                     if ok then map_option snd (zIncrByNoLockAndNoWal now src (unescape_or_empty a) increment m e) else Some e))
         | _ \<Rightarrow> Some e)
      else if action = ''DELETE'' then
        (case args of a # _ \<Rightarrow> deleteNoLock (unescape_or_empty a) e | _ \<Rightarrow> Some e)
      else Some e)"

subsection \<open>Snapshots\<close>

definition zset_write_member :: "ZSetMember \<Rightarrow> bytes" where
  "zset_write_member = (\<lambda>(m, s). WriteBytes m @ WriteUintValue 8 (unat s))"

definition zset_write_value :: "ZSetValue \<Rightarrow> bytes option" where
  "zset_write_value v =
     map_option (\<lambda>ms. WriteUintValue 8 (unat (zsl_length (zsl v))) @ concat (map zset_write_member ms) @
       WriteInt64Value (zset_createdAt v) @ write_expiry (zset_expiresAt v)) (getZSetBytesNoLock (zsl v))"

definition zset_SerializeState :: "string list \<Rightarrow> ZSetStorage \<Rightarrow> bytes option" where
  "zset_SerializeState ks e = do {
     bodies \<leftarrow> those (map (\<lambda>k. case data e k of None \<Rightarrow> Some [] | Some v \<Rightarrow> map_option (append (WriteBytes k)) (zset_write_value v)) ks);
     Some (WriteUintValue 8 (card (dom (data e))) @ concat bodies) }"

fun zset_read_members ::
  "nat \<Rightarrow> bytes \<Rightarrow> (string \<rightharpoonup> float64) \<Rightarrow> zskiplist \<Rightarrow> (ioerr + ((string \<rightharpoonup> float64) \<times> zskiplist) \<times> bytes) option" where
  "zset_read_members 0 bs d z = Some (Inr ((d, z), bs))"
| "zset_read_members (Suc n) bs d z =
     (case ReadBytes bs of
        Inl err \<Rightarrow> Some (Inl err)
      | Inr (m, bs1) \<Rightarrow>
          (case ReadUintValue 8 bs1 of
             Inl err \<Rightarrow> Some (Inl err)
           | Inr (bits, bs2) \<Rightarrow> do {
               z' \<leftarrow> zsl_insert (word_of_nat bits) m z;
               zset_read_members n bs2 (d(m \<mapsto> word_of_nat bits)) z' }))"

definition zset_read_value :: "bool stream \<Rightarrow> bytes \<Rightarrow> (ioerr + ZSetValue \<times> bytes) option" where
  "zset_read_value src bs =
     (case ReadUintValue 8 bs of
        Inl err \<Rightarrow> Some (Inl err)
      | Inr (setSize, bs1) \<Rightarrow>
          map_option (\<lambda>r. case r of
              Inl err \<Rightarrow> Inl err
            | Inr ((d, z), bs2) \<Rightarrow>
                and_then ReadInt64Value (\<lambda>c. and_then read_expiry (\<lambda>x.
                  yields \<lparr>dict = d, zsl = z, zset_createdAt = c, zset_expiresAt = x\<rparr>)) bs2)
            (zset_read_members setSize bs1 Map.empty (newZskiplist src)))"

fun zset_read_entries ::
  "(nat \<Rightarrow> bool stream) \<Rightarrow> nat \<Rightarrow> bytes \<Rightarrow> ZSetStorage \<Rightarrow> (ioerr option \<times> bytes \<times> ZSetStorage) option" where
  "zset_read_entries srcs 0 bs e = Some (None, bs, e)"
| "zset_read_entries srcs (Suc n) bs e =
     (case ReadBytes bs of
        Inl err \<Rightarrow> Some (Some err, [], e)
      | Inr (key, bs1) \<Rightarrow> do {
          r \<leftarrow> zset_read_value (srcs n) bs1;
          (case r of
             Inl err \<Rightarrow> Some (Some err, [], e)
           | Inr (v, bs2) \<Rightarrow>
               zset_read_entries srcs n bs2 (addExpiration key (zset_expiresAt v) (e\<lparr>data := (data e)(key \<mapsto> v)\<rparr>))) })"

definition zset_DeserializeState ::
  "(nat \<Rightarrow> bool stream) \<Rightarrow> bytes \<Rightarrow> ZSetStorage \<Rightarrow> (ioerr option \<times> bytes \<times> ZSetStorage) option" where
  "zset_DeserializeState srcs bs e =
     (case ReadUintValue 8 bs of
        Inl err \<Rightarrow> Some (Some err, [], e)
      | Inr (n, bs1) \<Rightarrow> zset_read_entries srcs n bs1 (clearNoLock e))"

end
