(* ===== verification/SkipListInv.thy ===== *)
theory SkipListInv
  imports SkipList
begin

text \<open>
  The shape of a skip list: it is a list \<open>ids\<close> of nodes, each with a height; at level \<open>i\<close> a node points to
  the next node that is higher than \<open>i\<close>, and its span is the number of steps to it, or to the end.  A search
  stops, at each level, at the last such node within the elements it looks for.
\<close>

subsection \<open>Reading and writing levels\<close>

definition height :: "zskiplist \<Rightarrow> nat \<Rightarrow> nat" where
  "height z x = length (node_level (nodes z ! x))"

definition lev :: "zskiplist \<Rightarrow> nat \<Rightarrow> nat \<Rightarrow> zskiplistLevel" where
  "lev z x i = node_level (nodes z ! x) ! i"

text \<open>The same nodes, up to their levels.\<close>

definition same_nodes :: "zskiplist \<Rightarrow> zskiplist \<Rightarrow> bool" where
  "same_nodes z z' \<longleftrightarrow> length (nodes z') = length (nodes z) \<and> zsl_length z' = zsl_length z \<and> zsl_level z' = zsl_level z \<and>
     tail z' = tail z \<and> randSource z' = randSource z \<and>
     (\<forall>y. ele (nodes z' ! y) = ele (nodes z ! y) \<and> score (nodes z' ! y) = score (nodes z ! y) \<and>
          backward (nodes z' ! y) = backward (nodes z ! y) \<and> height z' y = height z y)"

lemma same_nodes_refl [simp]: "same_nodes z z"
  by (simp add: same_nodes_def)

lemma same_nodes_trans: "same_nodes z z' \<Longrightarrow> same_nodes z' z'' \<Longrightarrow> same_nodes z z''"
  by (simp add: same_nodes_def)

lemma level_eq: "(l :: zskiplistLevel)\<lparr>span := a, forward := b\<rparr> = \<lparr>forward = b, span = a\<rparr>"
    "l\<lparr>forward := b, span := a\<rparr> = \<lparr>forward = b, span = a\<rparr>"
  by (cases l; simp)+

lemma level_at_lev: "x < length (nodes z) \<Longrightarrow> i < height z x \<Longrightarrow> level_at z x i = Some (lev z x i)"
  by (simp add: level_at_def node_at_def lev_def height_def)

lemma lev_set_level:
  "x < length (nodes z) \<Longrightarrow> i < height z x \<Longrightarrow> lev (set_level x i l z) y j = (if y = x \<and> j = i then l else lev z y j)"
  by (auto simp: lev_def set_level_def height_def nth_list_update)

lemma same_set_level: "same_nodes z (set_level x i l z)"
  by (cases "x < length (nodes z)") (auto simp: same_nodes_def set_level_def height_def nth_list_update list_update_beyond)

lemma same_nodesD:
  assumes "same_nodes z z'"
  shows "length (nodes z') = length (nodes z)" "height z' y = height z y" "zsl_length z' = zsl_length z"
    "zsl_level z' = zsl_level z" "tail z' = tail z" "randSource z' = randSource z"
    "ele (nodes z' ! y) = ele (nodes z ! y)" "score (nodes z' ! y) = score (nodes z ! y)"
    "backward (nodes z' ! y) = backward (nodes z ! y)"
  using assms by (simp_all add: same_nodes_def)

lemmas same_set_levelD [simp] = same_nodesD [OF same_set_level]

text \<open>What the loops over the levels leave.\<close>

lemma raise_levels_ends:
  "0 < length (nodes z) \<Longrightarrow> i + k \<le> height z 0 \<Longrightarrow> \<exists>z'. raise_levels k i z = Some z' \<and> same_nodes z z' \<and>
     (\<forall>y j. lev z' y j = (if y = 0 \<and> i \<le> j \<and> j < i + k then (lev z 0 j)\<lparr>span := zsl_length z\<rparr> else lev z y j))"
proof (induction k i z rule: raise_levels.induct)
  case (2 k i z)
  let ?z = "set_level 0 i ((lev z 0 i)\<lparr>span := zsl_length z\<rparr>) z"
  have l: "level_at z 0 i = Some (lev z 0 i)" using 2(2,3) by (simp add: level_at_lev)
  obtain z' where z': "raise_levels k (Suc i) ?z = Some z'" "same_nodes ?z z'"
    "\<forall>y j. lev z' y j = (if y = 0 \<and> Suc i \<le> j \<and> j < Suc i + k then (lev ?z 0 j)\<lparr>span := zsl_length ?z\<rparr> else lev ?z y j)"
    using 2(1) [OF l _ _] 2(2,3) by (auto simp del: raise_levels.simps)
  have "same_nodes z z'" by (rule same_nodes_trans [OF same_set_level z'(2)])
  then show ?case using l z' 2(2,3) by (auto simp: lev_set_level)
qed auto

lemma link_loop_ends:
  "length us = length rs \<Longrightarrow> x \<notin> set us \<Longrightarrow> \<forall>u \<in> set us. u < length (nodes z) \<Longrightarrow> x < length (nodes z) \<Longrightarrow>
   \<forall>j < length us. i + j < height z (us ! j) \<Longrightarrow> i + length us \<le> height z x \<Longrightarrow>
   \<exists>z'. link_loop x r0 i us rs z = Some z' \<and> same_nodes z z' \<and>
     (\<forall>y j. lev z' y j =
        (if j < i \<or> i + length us \<le> j then lev z y j
         else if y = x then \<lparr>forward = forward (lev z (us ! (j - i)) j), span = span (lev z (us ! (j - i)) j) - (r0 - rs ! (j - i))\<rparr>
         else if y = us ! (j - i) then \<lparr>forward = Some x, span = (r0 - rs ! (j - i)) + 1\<rparr> else lev z y j))"
proof (induction us arbitrary: rs i z)
  case (Cons u us)
  note prems = Cons.prems
  obtain r rs' where rs: "rs = r # rs'" using prems(1) by (cases rs) auto
  let ?lx = "(lev z x i)\<lparr>forward := forward (lev z u i), span := span (lev z u i) - (r0 - r)\<rparr>"
  let ?lu = "(lev z u i)\<lparr>forward := Some x, span := (r0 - r) + 1\<rparr>"
  let ?z1 = "set_level x i ?lx z"
  let ?z2 = "set_level u i ?lu ?z1"
  have ul: "u < length (nodes z)" "x \<noteq> u" "i < height z x" using prems(2,3,6) by auto
  have hu: "i < height z u" using prems(5) by force
  have l: "level_at z u i = Some (lev z u i)" "level_at z x i = Some (lev z x i)"
    using ul hu prems(4) by (simp_all add: level_at_lev)
  have "\<forall>j < length us. Suc i + j < height ?z2 (us ! j)" using prems(5) by force
  then obtain z' where z': "link_loop x r0 (Suc i) us rs' ?z2 = Some z'" "same_nodes ?z2 z'" and
    lv: "\<And>y j. lev z' y j =
        (if j < Suc i \<or> Suc i + length us \<le> j then lev ?z2 y j
         else if y = x then \<lparr>forward = forward (lev ?z2 (us ! (j - Suc i)) j), span = span (lev ?z2 (us ! (j - Suc i)) j) - (r0 - rs' ! (j - Suc i))\<rparr>
         else if y = us ! (j - Suc i) then \<lparr>forward = Some x, span = (r0 - rs' ! (j - Suc i)) + 1\<rparr> else lev ?z2 y j)"
    using Cons.IH [of rs' ?z2 "Suc i"] prems rs by auto
  have "same_nodes z z'" by (rule same_nodes_trans [OF same_nodes_trans [OF same_set_level same_set_level] z'(2)])
  moreover have "lev z' y j =
        (if j < i \<or> i + length (u # us) \<le> j then lev z y j
         else if y = x then \<lparr>forward = forward (lev z ((u # us) ! (j - i)) j), span = span (lev z ((u # us) ! (j - i)) j) - (r0 - rs ! (j - i))\<rparr>
         else if y = (u # us) ! (j - i) then \<lparr>forward = Some x, span = (r0 - rs ! (j - i)) + 1\<rparr> else lev z y j)" for y j
  proof (cases "j \<le> i")
    case True
    then show ?thesis using lv [of y j] ul hu prems(4) rs by (auto simp: lev_set_level)
  next
    case False
    then have "j - i = Suc (j - Suc i)" by simp
    then show ?thesis using lv [of y j] ul hu prems(4) False rs by (simp add: lev_set_level)
  qed
  ultimately show ?case using l z'(1) rs by (auto simp: Let_def)
qed auto

lemma grow_loop_ends:
  "\<forall>u \<in> set us. u < length (nodes z) \<Longrightarrow> \<forall>j < length us. i + j < height z (us ! j) \<Longrightarrow>
   \<exists>z'. grow_loop i us z = Some z' \<and> same_nodes z z' \<and>
     (\<forall>y j. lev z' y j = (if i \<le> j \<and> j < i + length us \<and> y = us ! (j - i) then (lev z y j)\<lparr>span := span (lev z y j) + 1\<rparr> else lev z y j))"
proof (induction us arbitrary: i z)
  case (Cons u us)
  let ?z = "set_level u i ((lev z u i)\<lparr>span := span (lev z u i) + 1\<rparr>) z"
  have ul: "u < length (nodes z)" "i < height z u" using Cons.prems by force+
  then have l: "level_at z u i = Some (lev z u i)" by (rule level_at_lev)
  have "\<forall>j < length us. Suc i + j < height ?z (us ! j)" using Cons.prems(2) by force
  then obtain z' where z': "grow_loop (Suc i) us ?z = Some z'" "same_nodes ?z z'" and
    lv: "\<And>y j. lev z' y j = (if Suc i \<le> j \<and> j < Suc i + length us \<and> y = us ! (j - Suc i) then (lev ?z y j)\<lparr>span := span (lev ?z y j) + 1\<rparr> else lev ?z y j)"
    using Cons.IH [of ?z "Suc i"] Cons.prems by auto
  have "same_nodes z z'" by (rule same_nodes_trans [OF same_set_level z'(2)])
  moreover have "lev z' y j = (if i \<le> j \<and> j < i + length (u # us) \<and> y = (u # us) ! (j - i) then (lev z y j)\<lparr>span := span (lev z y j) + 1\<rparr> else lev z y j)" for y j
  proof (cases "j \<le> i")
    case True
    then show ?thesis using lv [of y j] ul by (auto simp: lev_set_level)
  next
    case False
    then have "j - i = Suc (j - Suc i)" by simp
    then show ?thesis using lv [of y j] ul False by (simp add: lev_set_level)
  qed
  ultimately show ?case using l z'(1) by auto
qed auto

text \<open>What a level of a node before the deleted one becomes.\<close>

definition unlinked :: "nat \<Rightarrow> zskiplist \<Rightarrow> nat \<Rightarrow> nat \<Rightarrow> zskiplistLevel" where
  "unlinked x z y j =
     (if forward (lev z y j) = Some x then \<lparr>forward = forward (lev z x j), span = span (lev z y j) + (span (lev z x j) - 1)\<rparr>
      else (lev z y j)\<lparr>span := span (lev z y j) - 1\<rparr>)"

lemma unlink_loop_ends:
  "\<forall>u \<in> set us. u < length (nodes z) \<and> u \<noteq> x \<Longrightarrow> \<forall>j < length us. i + j < height z (us ! j) \<Longrightarrow> x < length (nodes z) \<Longrightarrow>
   \<forall>j < length us. forward (lev z (us ! j) (i + j)) = Some x \<longrightarrow> i + j < height z x \<Longrightarrow>
   \<exists>z'. unlink_loop x i us z = Some z' \<and> same_nodes z z' \<and>
     (\<forall>y j. lev z' y j = (if i \<le> j \<and> j < i + length us \<and> y = us ! (j - i) then unlinked x z y j else lev z y j))"
proof (induction us arbitrary: i z)
  case (Cons u us)
  let ?z = "set_level u i (unlinked x z u i) z"
  have ul: "u < length (nodes z)" "u \<noteq> x" using Cons.prems(1) by simp_all
  have h: "i < height z u" using Cons.prems(2) by force
  have hx: "forward (lev z u i) = Some x \<Longrightarrow> i < height z x" using Cons.prems(4) by force
  have l: "level_at z u i = Some (lev z u i)" using ul(1) h by (rule level_at_lev)
  have step: "unlink_loop x i (u # us) z = unlink_loop x (Suc i) us ?z"
    using l hx Cons.prems(3) by (auto simp: level_at_lev unlinked_def level_eq)
  have un: "unlinked x ?z y j = unlinked x z y j" if "j \<noteq> i" for y j
    using that ul h by (simp add: unlinked_def lev_set_level)
  have p2: "\<forall>j < length us. Suc i + j < height ?z (us ! j)" using Cons.prems(2) by force
  have p4: "\<forall>j < length us. forward (lev ?z (us ! j) (Suc i + j)) = Some x \<longrightarrow> Suc i + j < height ?z x"
    using Cons.prems(4) ul h by (force simp: lev_set_level)
  obtain z' where z': "unlink_loop x (Suc i) us ?z = Some z'" "same_nodes ?z z'" and
    lv: "\<And>y j. lev z' y j = (if Suc i \<le> j \<and> j < Suc i + length us \<and> y = us ! (j - Suc i) then unlinked x ?z y j else lev ?z y j)"
    using Cons.IH [OF _ p2 _ p4] Cons.prems(1,3) by auto
  have "same_nodes z z'" by (rule same_nodes_trans [OF same_set_level z'(2)])
  moreover have "lev z' y j = (if i \<le> j \<and> j < i + length (u # us) \<and> y = (u # us) ! (j - i) then unlinked x z y j else lev z y j)" for y j
  proof (cases "j \<le> i")
    case True
    then show ?thesis using lv [of y j] ul h by (auto simp: lev_set_level)
  next
    case False
    then have "j - i = Suc (j - Suc i)" by simp
    then show ?thesis using lv [of y j] ul h False by (simp add: lev_set_level un)
  qed
  ultimately show ?case using step z'(1) by auto
qed auto

subsection \<open>Towers of a given height\<close>

text \<open>
  Positions: 0 is the header, \<open>p + 1\<close> the node at index \<open>p\<close>; \<open>hs\<close> are the heights of the nodes.  \<open>gap\<close> is the
  number of nodes after position \<open>p\<close> that are not higher than \<open>i\<close>, before one that is; \<open>stop\<close> is the last
  position up to \<open>m\<close> that is higher than \<open>i\<close>.
\<close>

definition gap :: "nat list \<Rightarrow> nat \<Rightarrow> nat \<Rightarrow> nat" where
  "gap hs i p = length (takeWhile (\<lambda>h. h \<le> i) (drop p hs))"

fun stop :: "nat list \<Rightarrow> nat \<Rightarrow> nat \<Rightarrow> nat" where
  "stop hs i 0 = 0"
| "stop hs i (Suc m) = (if i < hs ! m then Suc m else stop hs i m)"

definition tall :: "nat list \<Rightarrow> nat \<Rightarrow> nat \<Rightarrow> bool" where
  "tall hs i p \<longleftrightarrow> p = 0 \<or> i < hs ! (p - 1)"

lemma gap_low: "k < gap hs i p \<Longrightarrow> p + k < length hs \<and> hs ! (p + k) \<le> i"
proof -
  assume k: "k < gap hs i p"
  then have "takeWhile (\<lambda>h. h \<le> i) (drop p hs) ! k \<in> set (takeWhile (\<lambda>h. h \<le> i) (drop p hs))" by (simp add: gap_def)
  then have "takeWhile (\<lambda>h. h \<le> i) (drop p hs) ! k \<le> i" using set_takeWhileD by fastforce
  moreover have "k < length (drop p hs)" using k length_takeWhile_le [of "\<lambda>h. h \<le> i" "drop p hs"] by (simp add: gap_def)
  ultimately show ?thesis using k by (auto simp: gap_def takeWhile_nth)
qed

lemma gap_high: "p + gap hs i p < length hs \<Longrightarrow> i < hs ! (p + gap hs i p)"
proof -
  assume l: "p + gap hs i p < length hs"
  then have "length (takeWhile (\<lambda>h. h \<le> i) (drop p hs)) < length (drop p hs)" by (simp add: gap_def)
  from nth_length_takeWhile [OF this] show ?thesis using l by (simp add: gap_def)
qed

lemma gap_le: "p \<le> length hs \<Longrightarrow> p + gap hs i p \<le> length hs"
  using length_takeWhile_le [of "\<lambda>h. h \<le> i" "drop p hs"] by (simp add: gap_def)

lemma gap_unique:
  assumes "\<forall>k < t. hs ! (p + k) \<le> i" "p + t \<le> length hs" "p + t < length hs \<Longrightarrow> i < hs ! (p + t)"
  shows "gap hs i p = t"
proof (rule ccontr)
  assume "gap hs i p \<noteq> t"
  then consider "gap hs i p < t" | "t < gap hs i p" by linarith
  then show False
  proof cases
    case 1
    then show False using assms(1,2) gap_high [of p hs i] by fastforce
  next
    case 2
    then show False using assms(3) gap_low [of t hs i p] by auto
  qed
qed

lemma stop_le: "stop hs i m \<le> m"
  by (induction m) auto

lemma stop_tall: "tall hs i (stop hs i m)"
  by (induction m) (auto simp: tall_def)

lemma stop_low: "stop hs i m \<le> q \<Longrightarrow> q < m \<Longrightarrow> hs ! q \<le> i"
  by (induction m) (auto simp: less_Suc_eq split: if_splits)

lemma stop_max: "tall hs i p \<Longrightarrow> p \<le> m \<Longrightarrow> p \<le> stop hs i m"
  by (induction m) (auto simp: tall_def le_Suc_eq)

lemma stop_same: "tall hs i p \<Longrightarrow> p \<le> m \<Longrightarrow> \<forall>q. p \<le> q \<and> q < m \<longrightarrow> hs ! q \<le> i \<Longrightarrow> stop hs i m = p"
proof (rule antisym)
  assume t: "tall hs i p" "p \<le> m" and l: "\<forall>q. p \<le> q \<and> q < m \<longrightarrow> hs ! q \<le> i"
  show "p \<le> stop hs i m" by (rule stop_max [OF t])
  show "stop hs i m \<le> p"
  proof (rule ccontr)
    assume "\<not> stop hs i m \<le> p"
    then have "i < hs ! (stop hs i m - 1)" "p \<le> stop hs i m - 1" "stop hs i m - 1 < m"
      using stop_tall [of hs i m] stop_le [of hs i m] by (auto simp: tall_def)
    then show False using l by (meson leD)
  qed
qed

lemma tall_mono: "tall hs i p \<Longrightarrow> j \<le> i \<Longrightarrow> tall hs j p"
  by (auto simp: tall_def)

lemma stop_step: "p + gap hs i p < m \<Longrightarrow> m \<le> length hs \<Longrightarrow> p \<le> m \<Longrightarrow> tall hs i (Suc (p + gap hs i p))"
  using gap_high [of p hs i] by (simp add: tall_def)

lemma stop_gap: "m \<le> p + gap hs i p \<Longrightarrow> tall hs i p \<Longrightarrow> p \<le> m \<Longrightarrow> stop hs i m = p"
proof (rule stop_same)
  assume a: "m \<le> p + gap hs i p"
  show "\<forall>q. p \<le> q \<and> q < m \<longrightarrow> hs ! q \<le> i"
  proof (intro allI impI)
    fix q assume q: "p \<le> q \<and> q < m"
    then have "q - p < gap hs i p" using a by linarith
    then show "hs ! q \<le> i" using gap_low [of "q - p" hs i p] q by simp
  qed
qed

subsection \<open>The shape\<close>

definition pos :: "nat list \<Rightarrow> nat \<Rightarrow> nat" where
  "pos ids p = (0 # ids) ! p"

lemma pos_simps [simp]: "pos ids 0 = 0" "pos ids (Suc p) = ids ! p"
  by (simp_all add: pos_def)

definition heights :: "zskiplist \<Rightarrow> nat list \<Rightarrow> nat list" where
  "heights z ids = map (height z) ids"

definition link_spec :: "nat list \<Rightarrow> nat list \<Rightarrow> nat \<Rightarrow> nat \<Rightarrow> zskiplistLevel" where
  "link_spec ids hs p i =
     (let q = p + gap hs i p in
      if q < length ids then \<lparr>forward = Some (ids ! q), span = of_nat (Suc (gap hs i p))\<rparr>
      else \<lparr>forward = None, span = of_nat (length ids - p)\<rparr>)"

definition nodes_ok :: "zskiplist \<Rightarrow> nat list \<Rightarrow> bool" where
  "nodes_ok z ids \<longleftrightarrow> distinct (0 # ids) \<and> (\<forall>x \<in> set (0 # ids). x < length (nodes z)) \<and> height z 0 = zskiplistMaxLevel \<and>
     1 \<le> zsl_level z \<and> zsl_level z \<le> zskiplistMaxLevel \<and> (\<forall>x \<in> set ids. 1 \<le> height z x \<and> height z x \<le> zsl_level z)"

definition links_ok :: "zskiplist \<Rightarrow> nat list \<Rightarrow> bool" where
  "links_ok z ids \<longleftrightarrow>
     (\<forall>p i. p \<le> length ids \<and> tall (heights z ids) i p \<and> i < zsl_level z \<longrightarrow> lev z (pos ids p) i = link_spec ids (heights z ids) p i)"

definition ends_ok :: "zskiplist \<Rightarrow> nat list \<Rightarrow> bool" where
  "ends_ok z ids \<longleftrightarrow> zsl_length z = of_nat (length ids) \<and> tail z = (if ids = [] then None else Some (last ids)) \<and>
     (\<forall>p < length ids. backward (nodes z ! (ids ! p)) = (if p = 0 then None else Some (ids ! (p - 1)))) \<and>
     (\<forall>i. zsl_level z \<le> i \<and> i < zskiplistMaxLevel \<longrightarrow> forward (lev z 0 i) = None)"

definition shape :: "zskiplist \<Rightarrow> nat list \<Rightarrow> bool" where
  "shape z ids \<longleftrightarrow> nodes_ok z ids \<and> links_ok z ids \<and> ends_ok z ids"

lemma length_heights [simp]: "length (heights z ids) = length ids"
  by (simp add: heights_def)

lemma nth_heights [simp]: "p < length ids \<Longrightarrow> heights z ids ! p = height z (ids ! p)"
  by (simp add: heights_def)

lemma nodes_ok_pos:
  assumes "nodes_ok z ids" "p \<le> length ids"
  shows "pos ids p < length (nodes z)" "tall (heights z ids) i p \<Longrightarrow> i < zsl_level z \<Longrightarrow> i < height z (pos ids p)"
  using assms by (cases p; auto simp: nodes_ok_def tall_def)+

lemma pos_inj: "nodes_ok z ids \<Longrightarrow> p \<le> length ids \<Longrightarrow> q \<le> length ids \<Longrightarrow> pos ids p = pos ids q \<longleftrightarrow> p = q"
  unfolding nodes_ok_def pos_def by (simp only: nth_eq_iff_index_eq length_Cons le_imp_less_Suc)

lemma level_at_pos:
  assumes "nodes_ok z ids" "links_ok z ids" "p \<le> length ids" "tall (heights z ids) i p" "i < zsl_level z"
  shows "level_at z (pos ids p) i = Some (link_spec ids (heights z ids) p i)"
  using assms nodes_ok_pos [OF assms(1,3)] by (simp add: level_at_lev links_ok_def)

text \<open>A predicate that holds of the first \<open>m\<close> nodes.\<close>

definition holds_first :: "zskiplist \<Rightarrow> nat list \<Rightarrow> (zskiplistNode \<Rightarrow> bool) \<Rightarrow> nat \<Rightarrow> bool" where
  "holds_first z ids before m \<longleftrightarrow> m \<le> length ids \<and> (\<forall>q < length ids. before (nodes z ! (ids ! q)) \<longleftrightarrow> q < m)"

lemma walk_stops:
  assumes "nodes_ok z ids" "links_ok z ids" "holds_first z ids before m" "i < zsl_level z"
  shows "p \<le> m \<Longrightarrow> tall (heights z ids) i p \<Longrightarrow>
    walk z before i (pos ids p) (of_nat p) = Some (pos ids (stop (heights z ids) i m), of_nat (stop (heights z ids) i m))"
proof (induction "m - p" arbitrary: p rule: less_induct)
  case less
  let ?hs = "heights z ids" and ?g = "gap (heights z ids) i p"
  have m: "m \<le> length ids" using assms(3) by (simp add: holds_first_def)
  have l: "level_at z (pos ids p) i = Some (link_spec ids ?hs p i)"
    using less.prems m by (intro level_at_pos [OF assms(1,2) _ _ assms(4)]) auto
  show ?case
  proof (cases "p + ?g < m")
    case True
    have na: "node_at z (ids ! (p + ?g)) = Some (nodes z ! (ids ! (p + ?g)))"
      using nodes_ok_pos(1) [OF assms(1), of "Suc (p + ?g)"] True m by (simp add: node_at_def)
    have b: "before (nodes z ! (ids ! (p + ?g)))" using assms(3) True by (simp add: holds_first_def)
    have "walk z before i (pos ids p) (of_nat p) = walk z before i (pos ids (Suc (p + ?g))) (of_nat (Suc (p + ?g)))"
      using True m by (subst walk.simps) (simp add: l link_spec_def Let_def na b ac_simps)
    then show ?thesis
      using less.hyps [of "Suc (p + ?g)"] True m stop_step [of p ?hs i m] by simp
  next
    case False
    then have st: "stop ?hs i m = p" using stop_gap [of m p ?hs i] less.prems by simp
    have "walk z before i (pos ids p) (of_nat p) = Some (pos ids p, of_nat p)"
    proof (cases "p + ?g < length ids")
      case True
      have na: "node_at z (ids ! (p + ?g)) = Some (nodes z ! (ids ! (p + ?g)))"
        using nodes_ok_pos(1) [OF assms(1), of "Suc (p + ?g)"] True by (simp add: node_at_def)
      have b: "\<not> before (nodes z ! (ids ! (p + ?g)))" using assms(3) True False by (simp add: holds_first_def)
      show ?thesis using True by (subst walk.simps) (simp add: l link_spec_def Let_def na b)
    next
      case False
      then show ?thesis by (subst walk.simps) (simp add: l link_spec_def Let_def)
    qed
    then show ?thesis by (simp add: st)
  qed
qed

lemma search_stops:
  assumes "nodes_ok z ids" "links_ok z ids" "holds_first z ids before m"
  shows "k \<le> zsl_level z \<Longrightarrow> p \<le> m \<Longrightarrow> (0 < k \<Longrightarrow> tall (heights z ids) (k - 1) p) \<Longrightarrow>
    search z before k (pos ids p) (of_nat p) =
      Some (map (\<lambda>i. pos ids (stop (heights z ids) i m)) [0..<k], map (\<lambda>i. of_nat (stop (heights z ids) i m)) [0..<k])"
proof (induction k arbitrary: p)
  case (Suc k)
  let ?q = "stop (heights z ids) k m"
  have w: "walk z before k (pos ids p) (of_nat p) = Some (pos ids ?q, of_nat ?q)"
    using walk_stops [OF assms, of k p] Suc.prems by simp
  have "0 < k \<Longrightarrow> tall (heights z ids) (k - 1) ?q"
    by (rule tall_mono [OF stop_tall]) simp
  then show ?case using Suc.IH [of ?q] Suc.prems stop_le [of "heights z ids" k m] by (simp add: w)
qed simp

lemma search_all:
  assumes "shape z ids" "holds_first z ids before m"
  shows "search z before (zsl_level z) 0 0 =
    Some (map (\<lambda>i. pos ids (stop (heights z ids) i m)) [0..<zsl_level z], map (\<lambda>i. of_nat (stop (heights z ids) i m)) [0..<zsl_level z])"
  using search_stops [of z ids before m "zsl_level z" 0] assms by (simp add: shape_def tall_def)

lemma stop_0: "nodes_ok z ids \<Longrightarrow> m \<le> length ids \<Longrightarrow> stop (heights z ids) 0 m = m"
proof (rule stop_same)
  assume ok: "nodes_ok z ids" "m \<le> length ids"
  show "tall (heights z ids) 0 m"
  proof (cases m)
    case (Suc n)
    then have "ids ! n \<in> set ids" using ok(2) by simp
    then have "1 \<le> height z (ids ! n)" using ok(1) by (simp add: nodes_ok_def)
    then show ?thesis using ok(2) Suc by (simp add: tall_def)
  qed (simp add: tall_def)
qed auto

subsection \<open>A node more\<close>

text \<open>
  The links of the list with a node \<open>n\<close> of height \<open>h\<close> put in at position \<open>m + 1\<close>, from those without it;
  insertion reads this from left to right, deletion from right to left.
\<close>

definition put_in :: "nat \<Rightarrow> 'a \<Rightarrow> 'a list \<Rightarrow> 'a list" where
  "put_in m x xs = take m xs @ x # drop m xs"

lemma length_put_in [simp]: "m \<le> length xs \<Longrightarrow> length (put_in m x xs) = Suc (length xs)"
  by (simp add: put_in_def)

lemma nth_put_in:
  "m \<le> length xs \<Longrightarrow> put_in m x xs ! p = (if p < m then xs ! p else if p = m then x else xs ! (p - 1))"
  by (auto simp: put_in_def nth_append nth_Cons' min_def)

lemma set_put_in [simp]: "set (put_in m x xs) = insert x (set xs)"
  unfolding put_in_def by (metis append_take_drop_id list.simps(15) set_append Un_insert_right)

lemma distinct_put_in [simp]: "distinct (put_in m x xs) \<longleftrightarrow> x \<notin> set xs \<and> distinct xs"
proof -
  have "distinct (a @ x # b) \<longleftrightarrow> x \<notin> set (a @ b) \<and> distinct (a @ b)" for a b by auto
  from this [of "take m xs" "drop m xs"] show ?thesis by (simp add: put_in_def)
qed

lemma map_put_in: "map f (put_in m x xs) = put_in m (f x) (map f xs)"
  by (simp add: put_in_def take_map drop_map)

lemma gap_after: "gap (put_in m h hs) i (Suc p) = gap hs i p" if "m \<le> p" "m \<le> length hs"
  using that by (simp add: gap_def put_in_def Suc_diff_le)

text \<open>Positions behind the new one only move.\<close>

lemma link_after:
  assumes "m \<le> p" "p \<le> length ids" "length hs = length ids"
  shows "link_spec (put_in m n ids) (put_in m h hs) (Suc p) i = link_spec ids hs p i"
  using assms by (auto simp: link_spec_def Let_def gap_after nth_put_in)

text \<open>Before it, only the last high one at each level sees a difference.\<close>

lemma link_before:
  assumes "p < stop hs i m" "m \<le> length ids" "length hs = length ids"
  shows "link_spec (put_in m n ids) (put_in m h hs) p i = link_spec ids hs p i"
proof -
  let ?g = "gap hs i p"
  have st: "stop hs i m \<le> m" "i < hs ! (stop hs i m - 1)"
    using stop_le [of hs i m] stop_tall [of hs i m] assms(1) by (auto simp: tall_def)
  have g: "p + ?g < stop hs i m"
  proof (rule ccontr)
    assume "\<not> p + ?g < stop hs i m"
    then have "hs ! (p + (stop hs i m - 1 - p)) \<le> i" using gap_low [of "stop hs i m - 1 - p" hs i p] assms(1) by auto
    then show False using st(2) assms(1) by simp
  qed
  have "gap (put_in m h hs) i p = ?g"
  proof (rule gap_unique)
    show "\<forall>k < ?g. put_in m h hs ! (p + k) \<le> i"
      using gap_low [of _ hs i p] g st(1) assms(2,3) by (simp add: nth_put_in)
    show "p + ?g \<le> length (put_in m h hs)" using g st(1) assms(2,3) by simp
    show "i < put_in m h hs ! (p + ?g)"
      using gap_high [of p hs i] g st(1) assms(2,3) by (simp add: nth_put_in)
  qed
  then show ?thesis using g st(1) assms(2,3) by (simp add: link_spec_def Let_def nth_put_in)
qed

lemma gap_stop:
  assumes "m \<le> length hs"
  shows "gap hs i (stop hs i m) = (m - stop hs i m) + gap hs i m"
proof (rule gap_unique)
  let ?p = "stop hs i m"
  have le: "?p \<le> m" by (rule stop_le)
  show "\<forall>k < (m - ?p) + gap hs i m. hs ! (?p + k) \<le> i"
  proof (intro allI impI)
    fix k assume k: "k < (m - ?p) + gap hs i m"
    show "hs ! (?p + k) \<le> i"
    proof (cases "?p + k < m")
      case True
      then show ?thesis by (intro stop_low [of hs i m]) auto
    next
      case False
      then show ?thesis using gap_low [of "?p + k - m" hs i m] k le by simp
    qed
  qed
  show "?p + ((m - ?p) + gap hs i m) \<le> length hs" using gap_le [OF assms, of i] le by simp
  show "?p + ((m - ?p) + gap hs i m) < length hs \<Longrightarrow> i < hs ! (?p + ((m - ?p) + gap hs i m))"
    using gap_high [of m hs i] le by simp
qed

lemma link_at:
  fixes i :: nat
  assumes "m \<le> length ids" "length hs = length ids"
  defines "p \<equiv> stop hs i m"
  shows "link_spec (put_in m n ids) (put_in m h hs) p i =
      (if i < h then \<lparr>forward = Some n, span = of_nat (m - p) + 1\<rparr>
       else (link_spec ids hs p i)\<lparr>span := span (link_spec ids hs p i) + 1\<rparr>)"
    and "link_spec ids hs m i =
      \<lparr>forward = forward (link_spec ids hs p i), span = span (link_spec ids hs p i) - of_nat (m - p)\<rparr>"
proof -
  have le: "p \<le> m" unfolding p_def by (rule stop_le)
  have g: "gap hs i p = (m - p) + gap hs i m" unfolding p_def using assms(1,2) by (intro gap_stop) simp
  have low: "hs ! (p + k) \<le> i" if "p + k < m" for k
    using that by (intro stop_low [of hs i m]) (auto simp: p_def)
  have gm: "m + gap hs i m \<le> length ids" using gap_le [of m hs i] assms(1,2) by simp
  show "link_spec ids hs m i =
      \<lparr>forward = forward (link_spec ids hs p i), span = span (link_spec ids hs p i) - of_nat (m - p)\<rparr>"
    using le gm assms(1) by (auto simp: link_spec_def Let_def g of_nat_diff)
  show "link_spec (put_in m n ids) (put_in m h hs) p i =
      (if i < h then \<lparr>forward = Some n, span = of_nat (m - p) + 1\<rparr>
       else (link_spec ids hs p i)\<lparr>span := span (link_spec ids hs p i) + 1\<rparr>)"
  proof (cases "i < h")
    case True
    have "gap (put_in m h hs) i p = m - p"
      using le low True assms(1,2) by (intro gap_unique) (auto simp: nth_put_in)
    then show ?thesis using True le assms(1) by (simp add: link_spec_def Let_def nth_put_in add.commute)
  next
    case False
    have "gap (put_in m h hs) i p = Suc (gap hs i p)"
    proof (rule gap_unique)
      show "\<forall>k < Suc (gap hs i p). put_in m h hs ! (p + k) \<le> i"
      proof (intro allI impI)
        fix k assume k: "k < Suc (gap hs i p)"
        then show "put_in m h hs ! (p + k) \<le> i"
          using gap_low [of k hs i p] gap_low [of "k - 1" hs i p] False le assms(1,2) by (auto simp: nth_put_in g)
      qed
      show "p + Suc (gap hs i p) \<le> length (put_in m h hs)" using le gm assms(1,2) by (simp add: g)
      show "p + Suc (gap hs i p) < length (put_in m h hs) \<Longrightarrow> i < put_in m h hs ! (p + Suc (gap hs i p))"
        using gap_high [of p hs i] le assms(1,2) by (simp add: nth_put_in g)
    qed
    then show ?thesis using False le gm assms(1) by (auto simp: link_spec_def Let_def nth_put_in g Suc_diff_le algebra_simps of_nat_diff)
  qed
qed

end
