(* ===== verification/SkipListOps.thy ===== *)
theory SkipListOps
  imports SkipListInv
begin

text \<open>
  Insertion, deletion and the ranks, on the shape: an insertion puts the node in at its position, a
  deletion takes it out, a rank is a position.
\<close>

lemma random_level_bounds: "random_level lvl src = (l, src') \<Longrightarrow> lvl \<le> zskiplistMaxLevel \<Longrightarrow> lvl \<le> l \<and> l \<le> zskiplistMaxLevel"
  by (induction lvl src rule: random_level.induct) (subst (asm) (2) random_level.simps, auto split: if_splits)

lemma randomLevel_bounds: "randomLevel src = (l, src') \<Longrightarrow> 1 \<le> l \<and> l \<le> zskiplistMaxLevel"
  using random_level_bounds [of 1 src l src'] by (simp add: randomLevel_def zskiplistMaxLevel_def)

lemma heights_le: "nodes_ok z ids \<Longrightarrow> q < length ids \<Longrightarrow> 1 \<le> height z (ids ! q) \<and> height z (ids ! q) \<le> zsl_level z"
  using nth_mem [of q ids] by (auto simp: nodes_ok_def)

lemma heights_below: "nodes_ok z ids \<Longrightarrow> zsl_level z \<le> j \<Longrightarrow> q < length ids \<Longrightarrow> height z (ids ! q) \<le> j"
  using heights_le [of z ids q] by simp

lemma stop_above: "nodes_ok z ids \<Longrightarrow> m \<le> length ids \<Longrightarrow> zsl_level z \<le> j \<Longrightarrow> stop (heights z ids) j m = 0"
  by (rule stop_same) (use heights_below [of z ids j] in \<open>auto simp: tall_def\<close>)

lemma gap_0: "nodes_ok z ids \<Longrightarrow> p \<le> length ids \<Longrightarrow> gap (heights z ids) 0 p = 0"
  by (rule gap_unique) (use heights_le [of z ids p] in auto)

lemma link_0:
  "nodes_ok z ids \<Longrightarrow> p \<le> length ids \<Longrightarrow> forward (link_spec ids (heights z ids) p 0) = (if p < length ids then Some (ids ! p) else None)"
  by (simp add: link_spec_def Let_def gap_0)

lemma pos_put_in:
  assumes "m \<le> length ids"
  shows "p \<le> m \<Longrightarrow> pos (put_in m x ids) p = pos ids p" "pos (put_in m x ids) (Suc m) = x"
    "m < p \<Longrightarrow> p \<le> length ids \<Longrightarrow> pos (put_in m x ids) (Suc p) = pos ids p"
  using assms by (cases p; simp add: nth_put_in)+

lemma tall_put_in:
  assumes "m \<le> length hs"
  shows "p \<le> m \<Longrightarrow> tall (put_in m h hs) i p \<longleftrightarrow> tall hs i p" "tall (put_in m h hs) i (Suc m) \<longleftrightarrow> i < h"
    "m < p \<Longrightarrow> p \<le> length hs \<Longrightarrow> tall (put_in m h hs) i (Suc p) \<longleftrightarrow> tall hs i p"
  using assms by (cases p; auto simp: tall_def nth_put_in)+

subsection \<open>Insertion\<close>

text \<open>The links after the levels were raised, above the old level too.\<close>

lemma raised_links:
  assumes "shape z ids" "raise_levels (lvl - zsl_level z) (zsl_level z) z = Some z1" "lvl \<le> zskiplistMaxLevel"
    "\<forall>y j. lev z1 y j = (if y = 0 \<and> zsl_level z \<le> j \<and> j < zsl_level z + (lvl - zsl_level z) then (lev z 0 j)\<lparr>span := zsl_length z\<rparr> else lev z y j)"
    "p \<le> length ids" "tall (heights z ids) j p" "j < max (zsl_level z) lvl"
  shows "lev z1 (pos ids p) j = link_spec ids (heights z ids) p j"
proof (cases "j < zsl_level z")
  case True
  then show ?thesis using assms by (auto simp: shape_def links_ok_def)
next
  case False
  have ok: "nodes_ok z ids" and e: "ends_ok z ids" using assms(1) by (simp_all add: shape_def)
  have p: "p = 0"
  proof (cases p)
    case (Suc q)
    then show ?thesis using assms(5,6) heights_below [OF ok, of j q] False by (simp add: tall_def)
  qed simp
  have "gap (heights z ids) j 0 = length ids"
    by (rule gap_unique) (use heights_below [OF ok, of j] False in auto)
  moreover have "forward (lev z 0 j) = None" using e False assms(3,7) by (simp add: ends_ok_def)
  moreover have "zsl_length z = of_nat (length ids)" using e by (simp add: ends_ok_def)
  moreover have "j < lvl" using assms(7) False by simp
  ultimately show ?thesis
    using assms(4) False p by (cases "lev z 0 j") (simp add: link_spec_def Let_def)
qed

text \<open>What the loops of an insertion at position \<open>m + 1\<close> do to the levels.\<close>

lemma insert_loops:
  fixes s :: float64 and e :: string and src :: "bool stream"
  assumes sh: "shape z ids" and m: "m \<le> length ids" and lvl: "1 \<le> lvl" "lvl \<le> zskiplistMaxLevel"
    and z1: "raise_levels (lvl - zsl_level z) (zsl_level z) z = Some z1" "same_nodes z z1"
      "\<forall>y j. lev z1 y j = (if y = 0 \<and> zsl_level z \<le> j \<and> j < zsl_level z + (lvl - zsl_level z) then (lev z 0 j)\<lparr>span := zsl_length z\<rparr> else lev z y j)"
  defines "x \<equiv> length (nodes z)" and "L \<equiv> max (zsl_level z) lvl" and "st \<equiv> (\<lambda>i. stop (heights z ids) i m)"
  defines "z2 \<equiv> z1\<lparr>zsl_level := L, randSource := src, nodes := nodes z1 @ [newZskiplistNode lvl s e]\<rparr>"
  shows "\<exists>z3 z4. link_loop x (of_nat (st 0)) 0 (map (\<lambda>i. pos ids (st i)) [0..<lvl]) (map (\<lambda>i. of_nat (st i)) [0..<lvl]) z2 = Some z3 \<and>
    grow_loop lvl (map (\<lambda>i. pos ids (st i)) [lvl..<L]) z3 = Some z4 \<and> same_nodes z2 z4 \<and>
    (\<forall>j < lvl. lev z4 x j = link_spec ids (heights z ids) m j) \<and>
    (\<forall>p j. p \<le> length ids \<and> tall (heights z ids) j p \<and> j < L \<longrightarrow>
       lev z4 (pos ids p) j = link_spec (put_in m x ids) (put_in m lvl (heights z ids)) (if p \<le> m then p else Suc p) j) \<and>
    (\<forall>j. L \<le> j \<longrightarrow> lev z4 0 j = lev z 0 j)"
proof -
  let ?hs = "heights z ids"
  have ok: "nodes_ok z ids" using sh by (simp add: shape_def)
  have stm: "st i \<le> m" "tall ?hs i (st i)" for i unfolding st_def by (rule stop_le, rule stop_tall)
  have st0: "st 0 = m" unfolding st_def by (rule stop_0 [OF ok m])
  have posx: "pos ids p < x" if "p \<le> length ids" for p using nodes_ok_pos(1) [OF ok that] by (simp add: x_def)
  have len1: "length (nodes z1) = x" using z1(2) by (simp add: same_nodes_def x_def)
  have h2: "height z2 y = height z y" if "y < x" for y
    using that z1(2) len1 by (simp add: height_def z2_def nth_append same_nodes_def)
  have "nodes z2 ! x = newZskiplistNode lvl s e" using len1 by (simp add: z2_def nth_append)
  then have hx: "height z2 x = lvl" by (simp add: height_def newZskiplistNode_def)
  have lv2: "lev z2 y j = lev z1 y j" if "y < x" for y j using that len1 by (simp add: lev_def z2_def nth_append)
  have len2: "length (nodes z2) = Suc x" using len1 by (simp add: z2_def)
  have tallh: "j < height z (pos ids p)" if "p \<le> length ids" "tall ?hs j p" "j < L" for p j
  proof (cases p)
    case 0
    then show ?thesis using that(3) lvl(2) ok by (auto simp: nodes_ok_def L_def less_max_iff_disj)
  qed (use that in \<open>simp add: tall_def\<close>)
  have raised: "lev z2 (pos ids p) j = link_spec ids ?hs p j" if "p \<le> length ids" "tall ?hs j p" "j < L" for p j
    using raised_links [OF sh z1(1) lvl(2) z1(3) that(1,2)] that lv2 posx by (simp add: L_def)
  let ?us = "map (\<lambda>i. pos ids (st i)) [0..<lvl]" and ?rs = "map (\<lambda>i. of_nat (st i)) [0..<lvl] :: 64 word list"
  have stl: "st i \<le> length ids" for i using stm(1) [of i] m by simp
  obtain z3 where z3: "link_loop x (of_nat (st 0)) 0 ?us ?rs z2 = Some z3" "same_nodes z2 z3" and lv3: "\<And>y j. lev z3 y j =
        (if j < 0 \<or> 0 + length ?us \<le> j then lev z2 y j
         else if y = x then \<lparr>forward = forward (lev z2 (?us ! (j - 0)) j), span = span (lev z2 (?us ! (j - 0)) j) - (of_nat (st 0) - ?rs ! (j - 0))\<rparr>
         else if y = ?us ! (j - 0) then \<lparr>forward = Some x, span = (of_nat (st 0) - ?rs ! (j - 0)) + 1\<rparr> else lev z2 y j)"
  proof -
    have a1: "x \<notin> set ?us" using posx stl by fastforce
    have a2: "\<forall>u \<in> set ?us. u < length (nodes z2)" using posx stl len2 by (force intro: less_SucI)
    have a3: "\<forall>j < length ?us. 0 + j < height z2 (?us ! j)" using tallh stl stm(2) h2 posx by (simp add: L_def)
    show ?thesis
      using link_loop_ends [of ?us ?rs x z2 0 "of_nat (st 0)"] a1 a2 a3 len2 hx that by auto
  qed
  let ?vs = "map (\<lambda>i. pos ids (st i)) [lvl..<L]"
  have len3: "length (nodes z3) = Suc x" "height z3 y = height z2 y" for y using z3(2) len2 by (simp_all add: same_nodes_def)
  obtain z4 where z4: "grow_loop lvl ?vs z3 = Some z4" "same_nodes z3 z4" and lv4: "\<And>y j. lev z4 y j =
     (if lvl \<le> j \<and> j < lvl + length ?vs \<and> y = ?vs ! (j - lvl) then (lev z3 y j)\<lparr>span := span (lev z3 y j) + 1\<rparr> else lev z3 y j)"
  proof -
    have a2: "\<forall>u \<in> set ?vs. u < length (nodes z3)" using posx stl len3(1) by (force intro: less_SucI)
    have a3: "\<forall>j < length ?vs. lvl + j < height z3 (?vs ! j)" using tallh stl stm(2) h2 posx by (simp add: len3(2) L_def)
    show ?thesis using grow_loop_ends [OF a2 a3] that by blast
  qed
  have word: "of_nat m - of_nat (st j) = (of_nat (m - st j) :: 64 word)" for j using stm(1) [of j] by (simp add: of_nat_diff)
  have xs: "x \<noteq> pos ids p" if "p \<le> length ids" for p using posx [OF that] by simp
  have new: "lev z4 x j = link_spec ids ?hs m j" if "j < lvl" for j
  proof -
    have "lev z4 x j = \<lparr>forward = forward (lev z2 (pos ids (st j)) j), span = span (lev z2 (pos ids (st j)) j) - of_nat (m - st j)\<rparr>"
      using lv4 [of x j] lv3 [of x j] that by (simp add: st0 word)
    also have "lev z2 (pos ids (st j)) j = link_spec ids ?hs (st j) j" using raised [OF stl stm(2)] that by (simp add: L_def)
    finally show ?thesis using link_at(2) [of m ids ?hs j] m by (simp add: st_def)
  qed
  have old: "lev z4 (pos ids p) j = link_spec (put_in m x ids) (put_in m lvl ?hs) (if p \<le> m then p else Suc p) j"
    if p: "p \<le> length ids" "tall ?hs j p" "j < L" for p j
  proof -
    note r = raised [OF p]
    have same: "lev z4 (pos ids p) j = (if p = st j then (if j < lvl then \<lparr>forward = Some x, span = of_nat (m - st j) + 1\<rparr>
        else (link_spec ids ?hs p j)\<lparr>span := span (link_spec ids ?hs p j) + 1\<rparr>) else link_spec ids ?hs p j)"
    proof (cases "p = st j")
      case True
      then show ?thesis
        using lv4 [of "pos ids p" j] lv3 [of "pos ids p" j] p(3) r xs [OF p(1)]
        by (cases "j < lvl") (simp_all add: st0 word L_def)
    next
      case False
      then have ne: "pos ids p \<noteq> pos ids (st j)" using pos_inj [OF ok p(1) stl, of j] by simp
      then have "lev z3 (pos ids p) j = lev z2 (pos ids p) j" using lv3 [of "pos ids p" j] xs [OF p(1)] by simp
      moreover have "lev z4 (pos ids p) j = lev z3 (pos ids p) j"
        using lv4 [of "pos ids p" j] ne p(3) by (cases "j < lvl") simp_all
      ultimately show ?thesis using False r by simp
    qed
    consider "p = st j" | "p < st j" | "m < p" using stop_max [OF p(2), of m] by (fastforce simp: st_def)
    then show ?thesis
    proof cases
      case 1
      then show ?thesis using same stm(1) [of j] link_at(1) [of m ids ?hs x lvl j] m by (simp add: st_def)
    next
      case 2
      then show ?thesis using same stm(1) [of j] link_before [of p ?hs j m ids x lvl] m by (simp add: st_def)
    next
      case 3
      then show ?thesis using same stm(1) [of j] link_after [of m p ids ?hs x lvl j] p(1) by simp
    qed
  qed
  have top: "lev z4 0 j = lev z 0 j" if "L \<le> j" for j
  proof -
    have b: "\<not> j < zsl_level z + (lvl - zsl_level z)" "\<not> j < lvl + length ?vs" "\<not> j < lvl" using that by (auto simp: L_def)
    have "lev z4 0 j = lev z2 0 j" using lv4 [of 0 j] lv3 [of 0 j] b by (simp only: if_False simp_thms) simp
    then show ?thesis using lv2 [of 0 j] z1(3) posx [of 0] b by simp
  qed
  have "same_nodes z2 z4" by (rule same_nodes_trans [OF z3(2) z4(2)])
  then show ?thesis using z3(1) z4(1) new old top by blast
qed

lemma set_backward_simps [simp]:
  "lev (set_backward x b z) y j = lev z y j" "height (set_backward x b z) y = height z y"
  "length (nodes (set_backward x b z)) = length (nodes z)"
  "ele (nodes (set_backward x b z) ! y) = ele (nodes z ! y)" "score (nodes (set_backward x b z) ! y) = score (nodes z ! y)"
  "x < length (nodes z) \<Longrightarrow> backward (nodes (set_backward x b z) ! y) = (if y = x then b else backward (nodes z ! y))"
  "zsl_length (set_backward x b z) = zsl_length z" "zsl_level (set_backward x b z) = zsl_level z"
  "tail (set_backward x b z) = tail z" "randSource (set_backward x b z) = randSource z"
  by (cases "x < length (nodes z)"; auto simp: set_backward_def lev_def height_def nth_list_update list_update_beyond)+

text \<open>The end pointers: the tail, and the pointer back of the next node.\<close>

definition set_ends :: "nat option \<Rightarrow> nat \<Rightarrow> nat option \<Rightarrow> zskiplist \<Rightarrow> zskiplist" where
  "set_ends y x t z = (case y of None \<Rightarrow> z\<lparr>tail := t\<rparr> | Some y \<Rightarrow> set_backward y (if x = 0 then None else Some x) z)"

lemma level_field_simps [simp]:
  "lev (z\<lparr>tail := t\<rparr>) y j = lev z y j" "lev (z\<lparr>zsl_length := l\<rparr>) y j = lev z y j" "lev (z\<lparr>zsl_level := k\<rparr>) y j = lev z y j"
  "height (z\<lparr>tail := t\<rparr>) y = height z y" "height (z\<lparr>zsl_length := l\<rparr>) y = height z y" "height (z\<lparr>zsl_level := k\<rparr>) y = height z y"
  by (simp_all add: lev_def height_def)

lemma heights_cong: "(\<And>y. y \<in> set ids \<Longrightarrow> height z' y = height z y) \<Longrightarrow> heights z' ids = heights z ids"
  by (simp add: heights_def)

lemma insert_shape:
  assumes sh: "shape z ids" and m: "m \<le> length ids" and lvl: "1 \<le> lvl" "lvl \<le> zskiplistMaxLevel"
  defines "x \<equiv> length (nodes z)" and "L \<equiv> max (zsl_level z) lvl"
  assumes len: "length (nodes z') = Suc x" and lv: "zsl_level z' = L" and zl: "zsl_length z' = zsl_length z + 1"
    and h: "height z' x = lvl" "\<And>y. y < x \<Longrightarrow> height z' y = height z y"
    and new: "\<And>j. j < lvl \<Longrightarrow> lev z' x j = link_spec ids (heights z ids) m j"
    and old: "\<And>p j. p \<le> length ids \<Longrightarrow> tall (heights z ids) j p \<Longrightarrow> j < L \<Longrightarrow>
      lev z' (pos ids p) j = link_spec (put_in m x ids) (put_in m lvl (heights z ids)) (if p \<le> m then p else Suc p) j"
    and top: "\<And>j. L \<le> j \<Longrightarrow> lev z' 0 j = lev z 0 j"
    and tl: "tail z' = (if m = length ids then Some x else tail z)"
    and bx: "backward (nodes z' ! x) = (if m = 0 then None else Some (ids ! (m - 1)))"
    and bm: "m < length ids \<Longrightarrow> backward (nodes z' ! (ids ! m)) = Some x"
    and bo: "\<And>q. q < length ids \<Longrightarrow> q \<noteq> m \<Longrightarrow> backward (nodes z' ! (ids ! q)) = backward (nodes z ! (ids ! q))"
  shows "shape z' (put_in m x ids)"
proof -
  let ?ids = "put_in m x ids"
  have ok: "nodes_ok z ids" and e: "ends_ok z ids" using sh by (simp_all add: shape_def)
  have lt: "y < x" if "y \<in> set (0 # ids)" for y using ok that unfolding nodes_ok_def x_def by blast
  have xn: "x \<notin> set (0 # ids)" using lt by blast
  have hs: "heights z' ?ids = put_in m lvl (heights z ids)"
  proof -
    have "heights z' ids = heights z ids" by (rule heights_cong) (use h(2) lt in simp)
    moreover have "heights z' ?ids = put_in m lvl (heights z' ids)" by (simp add: heights_def map_put_in h(1))
    ultimately show ?thesis by simp
  qed
  have len': "length ?ids = Suc (length ids)" using m by simp
  have n: "nodes_ok z' ?ids"
    unfolding nodes_ok_def
  proof (intro conjI ballI)
    show "distinct (0 # ?ids)" using ok xn by (simp add: nodes_ok_def)
    show "y < length (nodes z')" if "y \<in> set (0 # ?ids)" for y using that lt len by (auto intro: less_SucI)
    show "height z' 0 = zskiplistMaxLevel" using ok h(2) [of 0] lt [of 0] by (simp add: nodes_ok_def)
    show "1 \<le> zsl_level z'" "zsl_level z' \<le> zskiplistMaxLevel" using lvl ok by (simp_all add: lv L_def nodes_ok_def)
    show "1 \<le> height z' y" "height z' y \<le> zsl_level z'" if "y \<in> set ?ids" for y
      using that lvl h lt [of y] ok by (auto simp: lv L_def nodes_ok_def le_max_iff_disj)
  qed
  have "links_ok z' ?ids"
    unfolding links_ok_def
  proof (intro allI impI, elim conjE)
    fix p i assume p: "p \<le> length ?ids" "tall (heights z' ?ids) i p" "i < zsl_level z'"
    have mh: "m \<le> length (heights z ids)" using m by simp
    consider "p \<le> m" | "p = Suc m" | q where "p = Suc q" "m < q" by (cases p) force+
    then show "lev z' (pos ?ids p) i = link_spec ?ids (heights z' ?ids) p i"
    proof cases
      case 1
      then show ?thesis using old [of p i] p m tall_put_in(1) [OF mh 1] pos_put_in(1) [OF m 1] by (simp add: hs lv)
    next
      case 2
      then have "i < lvl" using p(2) tall_put_in(2) [OF mh] by (simp add: hs)
      then show ?thesis using new [of i] link_after [of m m ids "heights z ids" x lvl i] m 2 pos_put_in(2) [OF m] by (simp add: hs)
    next
      case 3
      then have "q \<le> length ids" using p(1) len' by simp
      then show ?thesis using old [of q i] p 3 tall_put_in(3) [OF mh 3(2)] pos_put_in(3) [OF m 3(2)] by (simp add: hs lv)
    qed
  qed
  moreover have "ends_ok z' ?ids"
    unfolding ends_ok_def
  proof (intro conjI allI impI)
    show "zsl_length z' = of_nat (length ?ids)" using e len' by (simp add: zl ends_ok_def add.commute)
    show "tail z' = (if ?ids = [] then None else Some (last ?ids))"
      using e m by (auto simp: tl ends_ok_def put_in_def last_append)
    show "forward (lev z' 0 i) = None" if "zsl_level z' \<le> i \<and> i < zskiplistMaxLevel" for i
      using that e top [of i] by (simp add: lv L_def ends_ok_def)
    fix p assume p: "p < length ?ids"
    have bk: "backward (nodes z ! (ids ! q)) = (if q = 0 then None else Some (ids ! (q - 1)))" if "q < length ids" for q
      using e that by (simp add: ends_ok_def)
    consider "p < m" | "p = m" | "p = Suc m" | "Suc m < p" by linarith
    then show "backward (nodes z' ! (?ids ! p)) = (if p = 0 then None else Some (?ids ! (p - 1)))"
    proof cases
      case 1
      then show ?thesis using m bo [of p] bk [of p] by (simp add: nth_put_in)
    next
      case 2
      then show ?thesis using m bx by (simp add: nth_put_in)
    next
      case 3
      then show ?thesis using m bm p len' by (simp add: nth_put_in)
    next
      case 4
      then obtain q where q: "p = Suc q" "m < q" "q < length ids" using p len' by (cases p) auto
      then show ?thesis using m bo [of q] bk [of q] by (auto simp: nth_put_in)
    qed
  qed
  ultimately show ?thesis using n by (simp add: shape_def)
qed

text \<open>An insertion ends, and puts the new node in behind those that are smaller.\<close>

definition same_values :: "zskiplist \<Rightarrow> zskiplist \<Rightarrow> nat \<Rightarrow> bool" where
  "same_values z z' y \<longleftrightarrow> ele (nodes z' ! y) = ele (nodes z ! y) \<and> score (nodes z' ! y) = score (nodes z ! y)"

lemma zsl_insert_ends:
  assumes sh: "shape z ids" and hf: "holds_first z ids (node_before s e) m"
  shows "ends (zsl_insert s e z) (\<lambda>z'. shape z' (put_in m (length (nodes z)) ids) \<and>
    ele (nodes z' ! length (nodes z)) = e \<and> score (nodes z' ! length (nodes z)) = s \<and> (\<forall>y < length (nodes z). same_values z z' y))"
proof -
  let ?x = "length (nodes z)" and ?hs = "heights z ids" and ?st = "\<lambda>i. stop (heights z ids) i m" and ?old = "zsl_level z"
  have m: "m \<le> length ids" using hf by (simp add: holds_first_def)
  have ok: "nodes_ok z ids" and e: "ends_ok z ids" using sh by (simp_all add: shape_def)
  obtain lvl src where rl: "randomLevel (randSource z) = (lvl, src)" by fastforce
  note lvl = randomLevel_bounds [OF rl]
  let ?L = "max ?old lvl"
  have n0: "0 < length (nodes z)" "height z 0 = zskiplistMaxLevel" "?old \<le> zskiplistMaxLevel" "1 \<le> ?old"
    using ok by (simp_all add: nodes_ok_def)
  obtain z1 where z1: "raise_levels (lvl - ?old) ?old z = Some z1" "same_nodes z z1"
      "\<forall>y j. lev z1 y j = (if y = 0 \<and> ?old \<le> j \<and> j < ?old + (lvl - ?old) then (lev z 0 j)\<lparr>span := zsl_length z\<rparr> else lev z y j)"
  proof -
    have "?old + (lvl - ?old) \<le> height z 0" using n0(2-4) conjunct2 [OF lvl] by linarith
    from raise_levels_ends [OF n0(1) this] show ?thesis using that by blast
  qed
  let ?z2 = "z1\<lparr>zsl_level := ?L, randSource := src, nodes := nodes z1 @ [newZskiplistNode lvl s e]\<rparr>"
  obtain z3 z4 where z3: "link_loop ?x (of_nat (?st 0)) 0 (map (\<lambda>i. pos ids (?st i)) [0..<lvl]) (map (\<lambda>i. of_nat (?st i)) [0..<lvl]) ?z2 = Some z3"
    and z4: "grow_loop lvl (map (\<lambda>i. pos ids (?st i)) [lvl..<?L]) z3 = Some z4" "same_nodes ?z2 z4"
    and new: "\<forall>j < lvl. lev z4 ?x j = link_spec ids ?hs m j"
    and old: "\<forall>p j. p \<le> length ids \<and> tall ?hs j p \<and> j < ?L \<longrightarrow>
       lev z4 (pos ids p) j = link_spec (put_in m ?x ids) (put_in m lvl ?hs) (if p \<le> m then p else Suc p) j"
    and top: "\<forall>j. ?L \<le> j \<longrightarrow> lev z4 0 j = lev z 0 j"
    using insert_loops [OF sh m conjunct1 [OF lvl] conjunct2 [OF lvl] z1, of s e src] by blast
  define U R where "U = map (\<lambda>i. pos ids (?st i)) [0..<?L]" and "R = map (\<lambda>i. of_nat (?st i) :: 64 word) [0..<?L]"
  have up: "map (\<lambda>i. pos ids (?st i)) [0..<?old] @ replicate (lvl - ?old) 0 = U"
    and rk: "map (\<lambda>i. of_nat (?st i)) [0..<?old] @ replicate (lvl - ?old) 0 = R"
    using stop_above [OF ok m] by (auto simp: U_def R_def list_eq_iff_nth_eq nth_append)
  have st0: "?st 0 = m" by (rule stop_0 [OF ok m])
  have UR: "take lvl U = map (\<lambda>i. pos ids (?st i)) [0..<lvl]" "drop lvl U = map (\<lambda>i. pos ids (?st i)) [lvl..<?L]"
    "take lvl R = map (\<lambda>i. of_nat (?st i)) [0..<lvl]"
    by (simp_all add: U_def R_def take_map drop_map)
  have UR0: "U ! 0 = pos ids m" "R ! 0 = of_nat (?st 0)"
    unfolding U_def R_def using n0(4) st0 by (subst nth_map; auto simp: nth_upt less_max_iff_disj)+
  let ?b = "if m = 0 then None else Some (ids ! (m - 1))"
  let ?z5 = "set_backward ?x ?b z4"
  have len1: "length (nodes z1) = ?x" using z1(2) by (simp add: same_nodes_def)
  have len4: "length (nodes z4) = Suc ?x" using z4(2) len1 by (simp add: same_nodes_def)
  have nd: "nodes ?z2 ! ?x = newZskiplistNode lvl s e" "y < ?x \<Longrightarrow> nodes ?z2 ! y = nodes z1 ! y" for y
    using len1 by (simp_all add: nth_append)
  have ndpos: "ids ! q < ?x" "ids ! q \<noteq> 0" if "q < length ids" for q
    using nodes_ok_pos(1) [OF ok, of "Suc q"] pos_inj [OF ok, of "Suc q" 0] that by simp_all
  have u0: "pos ids m = 0 \<longleftrightarrow> m = 0" using pos_inj [OF ok m, of 0] by simp
  have b: "(if pos ids m = 0 then None else Some (pos ids m)) = ?b" using u0 by (cases m) simp_all
  have hx: "height z4 ?x = lvl" using z4(2) nd(1) by (simp add: same_nodes_def height_def newZskiplistNode_def)
  have l0: "level_at ?z5 ?x 0 = Some (link_spec ids ?hs m 0)"
    using new lvl len4 hx by (subst level_at_lev) auto
  let ?n = "if m < length ids then Some (ids ! m) else None"
  let ?z6 = "case ?n of None \<Rightarrow> ?z5\<lparr>tail := Some ?x\<rparr> | Some y \<Rightarrow> set_backward y (Some ?x) ?z5"
  let ?z' = "?z6\<lparr>zsl_length := zsl_length ?z6 + 1\<rparr>"
  have "insert_node lvl src s e U R z = Some ?z'"
    unfolding insert_node_def z1(1) UR UR0 b using z3 z4(1) l0 link_0 [OF ok m] by (simp add: Let_def)
  then have run: "zsl_insert s e z = Some ?z'"
    unfolding zsl_insert_def search_all [OF sh hf] by (simp add: rl up rk)
  have lev': "lev ?z' y j = lev z4 y j" "height ?z' y = height z4 y" "length (nodes ?z') = Suc ?x" for y j
    using len4 by (simp_all split: option.splits)
  have hy: "height z4 y = height z y" "same_values z ?z' y" if "y < ?x" for y
    using z4(2) z1(2) nd(2) [OF that] by (simp_all add: same_nodes_def height_def same_values_def split: option.splits)
  have vx: "ele (nodes ?z' ! ?x) = e" "score (nodes ?z' ! ?x) = s"
    using z4(2) nd(1) by (simp_all add: same_nodes_def newZskiplistNode_def split: option.splits)
  have bk: "backward (nodes ?z' ! y) = (if m < length ids \<and> y = ids ! m then Some ?x else if y = ?x then ?b else backward (nodes z4 ! y))" for y
  proof (cases "m < length ids")
    case True
    then have "ids ! m < Suc ?x" using ndpos(1) [OF True] by simp
    then show ?thesis using True len4 by simp
  qed (use len4 in simp)
  have "shape ?z' (put_in m ?x ids)"
  proof (rule insert_shape [OF sh m conjunct1 [OF lvl] conjunct2 [OF lvl]])
    show "zsl_level ?z' = ?L" "zsl_length ?z' = zsl_length z + 1"
      using z4(2) z1(2) by (simp_all add: same_nodes_def split: option.splits)
    show "tail ?z' = (if m = length ids then Some ?x else tail z)"
      using z4(2) z1(2) m by (simp add: same_nodes_def split: option.splits)
    have "\<not> (m < length ids \<and> ?x = ids ! m)" using ndpos(1) [of m] by force
    then show "backward (nodes ?z' ! ?x) = ?b" unfolding bk by presburger
    show "backward (nodes ?z' ! (ids ! m)) = Some ?x" if "m < length ids"
      unfolding bk using that by presburger
    show "backward (nodes ?z' ! (ids ! q)) = backward (nodes z ! (ids ! q))" if q: "q < length ids" "q \<noteq> m" for q
    proof -
      have "m < length ids \<Longrightarrow> ids ! q \<noteq> ids ! m" using ok q by (simp add: nodes_ok_def nth_eq_iff_index_eq)
      then have "backward (nodes ?z' ! (ids ! q)) = backward (nodes z4 ! (ids ! q))"
        unfolding bk using ndpos(1) [OF q(1)] by auto
      then show ?thesis
        using z4(2) z1(2) nd(2) [OF ndpos(1) [OF q(1)]] by (simp add: same_nodes_def)
    qed
  qed (use lev' hx hy(1) new old top in auto)
  then show ?thesis using vx hy(2) by (auto simp: run ends_iff)
qed

end
