(* ===== verification/SkipListDel.thy ===== *)
theory SkipListDel
  imports SkipListOps
begin

text \<open>Deletion and the ranks of the skip list, on its shape.\<close>

subsection \<open>Deletion\<close>

lemma stop_put_in: "m \<le> length hs \<Longrightarrow> k \<le> m \<Longrightarrow> stop (put_in m h hs) i k = stop hs i k"
  by (induction k) (auto simp: nth_put_in)

lemma link_forward: "forward (link_spec ids hs p i) = Some y \<Longrightarrow> y \<in> set ids"
  by (auto simp: link_spec_def Let_def split: if_splits)

text \<open>What the loop that takes node \<open>x\<close> out leaves at the levels: the links without \<open>x\<close>.\<close>

lemma unlink_links:
  assumes sh: "shape z (put_in m x ids)" and m: "m \<le> length ids"
    and z1: "\<forall>y j. lev z1 y j = (if j < zsl_level z \<and> y = pos ids (stop (heights z ids) j m) then unlinked x z y j else lev z y j)"
    and p: "p \<le> length ids" "tall (heights z ids) j p" "j < zsl_level z"
  shows "lev z1 (pos ids p) j = link_spec ids (heights z ids) p j"
proof -
  let ?ids = "put_in m x ids" and ?hs = "heights z ids" and ?h = "height z x" and ?st = "stop (heights z ids) j m"
  have ok: "nodes_ok z ?ids" and lk: "links_ok z ?ids" using sh by (simp_all add: shape_def)
  have hs: "heights z ?ids = put_in m ?h ?hs" by (simp add: heights_def map_put_in)
  have mh: "m \<le> length ?hs" using m by simp
  have st: "?st \<le> m" "tall ?hs j ?st" by (rule stop_le, rule stop_tall)
  have xn: "x \<notin> set ids" using ok by (simp add: nodes_ok_def)
  have link: "lev z (pos ids q) j = link_spec ?ids (put_in m ?h ?hs) (if q \<le> m then q else Suc q) j"
    if "q \<le> length ids" "tall ?hs j q" for q
  proof (cases "q \<le> m")
    case True
    then have "lev z (pos ?ids q) j = link_spec ?ids (put_in m ?h ?hs) q j"
      using lk that p(3) m tall_put_in(1) [OF mh True] by (simp add: links_ok_def hs)
    then show ?thesis using True pos_put_in(1) [OF m True] by simp
  next
    case False
    then have "lev z (pos ?ids (Suc q)) j = link_spec ?ids (put_in m ?h ?hs) (Suc q) j"
      using lk that p(3) m tall_put_in(3) [OF mh, of q] by (simp add: links_ok_def hs del: pos_simps)
    then show ?thesis using False pos_put_in(3) [OF m, of q] that(1) by (simp del: pos_simps)
  qed
  have linkx: "lev z x j = link_spec ids ?hs m j" if "j < ?h"
  proof -
    have "lev z (pos ?ids (Suc m)) j = link_spec ?ids (put_in m ?h ?hs) (Suc m) j"
      using lk that p(3) m tall_put_in(2) [OF mh] by (simp add: links_ok_def hs del: pos_simps)
    then show ?thesis using pos_put_in(2) [OF m] link_after [of m m ids ?hs x ?h j] m by (simp del: pos_simps)
  qed
  have inj: "pos ids p = pos ids ?st \<longleftrightarrow> p = ?st"
  proof (cases "p \<le> m")
    case True
    then show ?thesis using pos_inj [OF ok, of p ?st] pos_put_in(1) [OF m True] pos_put_in(1) [OF m st(1)] st(1) m by simp
  next
    case False
    then show ?thesis using pos_inj [OF ok, of "Suc p" ?st] pos_put_in(3) [OF m, of p] pos_put_in(1) [OF m st(1)] st(1) m p(1) by (simp del: pos_simps)
  qed
  consider "p = ?st" | "p < ?st" | "m < p" using stop_max [OF p(2), of m] by fastforce
  then show ?thesis
  proof cases
    case 1
    let ?l = "link_spec ids ?hs p j"
    have "lev z1 (pos ids p) j = unlinked x z (pos ids p) j" using z1 p(3) 1 by simp
    moreover have "lev z (pos ids p) j = (if j < ?h then \<lparr>forward = Some x, span = of_nat (m - p) + 1\<rparr> else ?l\<lparr>span := span ?l + 1\<rparr>)"
      using link [OF p(1,2)] st(1) link_at(1) [of m ids ?hs x ?h j] m 1 by simp
    moreover have "j < ?h \<Longrightarrow> lev z x j = \<lparr>forward = forward ?l, span = span ?l - of_nat (m - p)\<rparr>"
      using linkx link_at(2) [of m ids ?hs j] m 1 by simp
    moreover have "forward ?l \<noteq> Some x" using link_forward xn by fastforce
    ultimately show ?thesis by (cases "j < ?h") (simp_all add: unlinked_def)
  next
    case 2
    then show ?thesis using z1 inj link [OF p(1,2)] st(1) link_before [of p ?hs j m ids x ?h] m by simp
  next
    case 3
    then show ?thesis using z1 inj link [OF p(1,2)] st(1) link_after [of m p ids ?hs x ?h j] p(1) by simp
  qed
qed

lemma lower_level_ends:
  "k \<le> height z 0 \<Longrightarrow> 0 < length (nodes z) \<Longrightarrow> 1 \<le> k \<Longrightarrow>
   ends (lower_level z k) (\<lambda>l. 1 \<le> l \<and> l \<le> k \<and> (\<forall>i. l \<le> i \<and> i < k \<longrightarrow> forward (lev z 0 i) = None))"
proof (induction k)
  case (Suc i)
  show ?case
  proof (cases "i = 0")
    case False
    then have l: "level_at z 0 i = Some (lev z 0 i)" using Suc.prems by (simp add: level_at_lev)
    show ?thesis
    proof (cases "forward (lev z 0 i) = None")
      case True
      have "ends (lower_level z i) (\<lambda>l. 1 \<le> l \<and> l \<le> i \<and> (\<forall>j. l \<le> j \<and> j < i \<longrightarrow> forward (lev z 0 j) = None))"
        using Suc False by simp
      then show ?thesis using l True False by (auto simp: less_Suc_eq elim!: ends_mono)
    next
      case ne: False
      then show ?thesis using l False by (auto simp: ends_iff)
    qed
  qed (simp add: ends_iff)
qed simp

lemma delete_shape:
  assumes sh: "shape z (put_in m x ids)" and m: "m \<le> length ids" and same: "same_nodes z z1"
    and z1: "\<forall>y j. lev z1 y j = (if j < zsl_level z \<and> y = pos ids (stop (heights z ids) j m) then unlinked x z y j else lev z y j)"
    and len: "length (nodes z') = length (nodes z)" "\<And>y. height z' y = height z y" "\<And>y j. lev z' y j = lev z1 y j"
    and lvl: "1 \<le> zsl_level z'" "zsl_level z' \<le> zsl_level z" "\<And>i. zsl_level z' \<le> i \<Longrightarrow> i < zsl_level z \<Longrightarrow> forward (lev z1 0 i) = None"
    and zl: "zsl_length z' = zsl_length z - 1"
    and tl: "tail z' = (if m = length ids then (if m = 0 then None else Some (ids ! (m - 1))) else tail z)"
    and bk: "\<And>q. q < length ids \<Longrightarrow> backward (nodes z' ! (ids ! q)) =
      (if q = m then (if m = 0 then None else Some (ids ! (m - 1))) else backward (nodes z ! (ids ! q)))"
  shows "shape z' ids"
proof -
  let ?ids = "put_in m x ids"
  have ok: "nodes_ok z ?ids" and e: "ends_ok z ?ids" using sh by (simp_all add: shape_def)
  note link = unlink_links [OF sh m z1]
  have hs: "heights z' ids = heights z ids" by (rule heights_cong) (rule len(2))
  have low: "height z (ids ! q) \<le> zsl_level z'" if q: "q < length ids" for q
  proof (rule ccontr)
    assume "\<not> height z (ids ! q) \<le> zsl_level z'"
    then have i: "zsl_level z' < height z (ids ! q)" by simp
    have "height z (ids ! q) \<le> zsl_level z" using ok nth_mem [OF q] by (simp add: nodes_ok_def)
    then have i2: "zsl_level z' < zsl_level z" using i by simp
    have "gap (heights z ids) (zsl_level z') 0 \<le> q"
    proof (rule ccontr)
      assume "\<not> gap (heights z ids) (zsl_level z') 0 \<le> q"
      then show False using gap_low [of q "heights z ids" "zsl_level z'" 0] q i by simp
    qed
    then have "forward (link_spec ids (heights z ids) 0 (zsl_level z')) \<noteq> None" using q by (simp add: link_spec_def Let_def)
    then show False using link [of 0 "zsl_level z'"] lvl(3) [of "zsl_level z'"] i2 by (simp add: tall_def)
  qed
  have "nodes_ok z' ids"
    using ok lvl low by (auto simp: nodes_ok_def len in_set_conv_nth)
  moreover have "links_ok z' ids"
    using link lvl(2) by (auto simp: links_ok_def hs len(3))
  moreover have "ends_ok z' ids"
    unfolding ends_ok_def
  proof (intro conjI allI impI)
    show "zsl_length z' = of_nat (length ids)" using e m by (simp add: zl ends_ok_def)
    have t: "tail z = (if m = length ids then Some x else Some (last ids))"
      using e m by (auto simp: ends_ok_def put_in_def last_append)
    show "tail z' = (if ids = [] then None else Some (last ids))"
      using t m by (auto simp: tl last_conv_nth)
    show "forward (lev z' 0 i) = None" if "zsl_level z' \<le> i \<and> i < zskiplistMaxLevel" for i
    proof (cases "i < zsl_level z")
      case False
      then show ?thesis using e that z1 by (simp add: len(3) ends_ok_def)
    qed (use that lvl(3) len(3) in simp)
    fix q assume q: "q < length ids"
    have "backward (nodes z ! (?ids ! p)) = (if p = 0 then None else Some (?ids ! (p - 1)))" if "p \<le> length ids" for p
      using e that m by (simp add: ends_ok_def)
    from this [of q] this [of "Suc q"] show "backward (nodes z' ! (ids ! q)) = (if q = 0 then None else Some (ids ! (q - 1)))"
      using q m bk [OF q] by (auto simp: nth_put_in split: if_splits)
  qed
  ultimately show ?thesis by (simp add: shape_def)
qed

lemma deleteNode_ends:
  assumes sh: "shape z (put_in m x ids)" and m: "m \<le> length ids"
  shows "ends (deleteNode x (map (\<lambda>i. pos ids (stop (heights z ids) i m)) [0..<zsl_level z]) z)
    (\<lambda>z'. shape z' ids \<and> length (nodes z') = length (nodes z) \<and> (\<forall>y. same_values z z' y))"
proof -
  let ?ids = "put_in m x ids" and ?hs = "heights z ids" and ?us = "map (\<lambda>i. pos ids (stop (heights z ids) i m)) [0..<zsl_level z]"
  have ok: "nodes_ok z ?ids" and lk: "links_ok z ?ids" and e: "ends_ok z ?ids" using sh by (simp_all add: shape_def)
  have hs: "heights z ?ids = put_in m (height z x) ?hs" by (simp add: heights_def map_put_in)
  have mh: "m \<le> length ?hs" using m by simp
  have st: "stop ?hs j m \<le> m" "tall ?hs j (stop ?hs j m)" for j by (rule stop_le, rule stop_tall)
  have xn: "x \<noteq> 0" "x \<notin> set ids" "x < length (nodes z)" "1 \<le> height z x" "height z x \<le> zsl_level z" using ok by (auto simp: nodes_ok_def)
  have pu: "pos ids p = pos ?ids p" if "p \<le> m" for p using pos_put_in(1) [OF m that] by simp
  have tl: "tall (heights z ?ids) j (stop ?hs j m)" for j using tall_put_in(1) [OF mh st(1)] st(2) by (simp add: hs)
  have u: "pos ids (stop ?hs j m) < length (nodes z)" "pos ids (stop ?hs j m) \<noteq> x" for j
  proof -
    have le: "stop ?hs j m \<le> length ?ids" using st(1) [of j] m by simp
    show "pos ids (stop ?hs j m) < length (nodes z)" using nodes_ok_pos(1) [OF ok le] pu [OF st(1)] by simp
    show "pos ids (stop ?hs j m) \<noteq> x" using pos_inj [OF ok le, of "Suc m"] pos_put_in(2) [OF m, of x] pu [OF st(1)] st(1) [of j] m
      by (simp del: pos_simps)
  qed
  have hu: "j < height z (pos ids (stop ?hs j m))" if "j < zsl_level z" for j
    using nodes_ok_pos(2) [OF ok _ tl that] st(1) [of j] m pu [OF st(1)] by simp
  have fx: "j < height z x" if "j < zsl_level z" "forward (lev z (pos ids (stop ?hs j m)) j) = Some x" for j
  proof -
    have "lev z (pos ids (stop ?hs j m)) j = link_spec ?ids (put_in m (height z x) ?hs) (stop ?hs j m) j"
      using lk that(1) tl [of j] st(1) [of j] m pu [OF st(1)] by (simp add: links_ok_def hs)
    then show ?thesis using that(2) link_at(1) [of m ids ?hs x "height z x" j] m link_forward [of ids ?hs _ j x] xn(2)
      by (auto split: if_splits)
  qed
  obtain z1 where z1: "unlink_loop x 0 ?us z = Some z1" "same_nodes z z1"
    and lv: "\<forall>y j. lev z1 y j = (if j < zsl_level z \<and> y = pos ids (stop ?hs j m) then unlinked x z y j else lev z y j)"
  proof -
    have a: "\<forall>v \<in> set ?us. v < length (nodes z) \<and> v \<noteq> x" "\<forall>j < length ?us. 0 + j < height z (?us ! j)"
      "\<forall>j < length ?us. forward (lev z (?us ! j) (0 + j)) = Some x \<longrightarrow> 0 + j < height z x" using u hu fx by auto
    obtain z1 where z: "unlink_loop x 0 ?us z = Some z1" "same_nodes z z1" and lv: "\<forall>y j. lev z1 y j =
        (if 0 \<le> j \<and> j < 0 + length ?us \<and> y = ?us ! (j - 0) then unlinked x z y j else lev z y j)"
      using unlink_loop_ends [OF a(1,2) xn(3) a(3)] by blast
    have "lev z1 y j = (if j < zsl_level z \<and> y = pos ids (stop ?hs j m) then unlinked x z y j else lev z y j)" for y j
      using lv by (cases "j < zsl_level z") simp_all
    then show ?thesis using that [OF z] by blast
  qed
  have lx: "lev z1 x 0 = lev z x 0" using lv u(2) [of 0] by auto
  have "lev z (pos ?ids (Suc m)) 0 = link_spec ?ids (heights z ?ids) (Suc m) 0"
    using lk xn(4,5) m tall_put_in(2) [OF mh, of "height z x" 0] by (simp add: links_ok_def hs del: pos_simps)
  then have fw: "forward (lev z1 x 0) = (if m < length ids then Some (ids ! m) else None)"
    using link_0 [OF ok, of "Suc m"] pos_put_in(2) [OF m] m by (simp add: lx nth_put_in del: pos_simps)
  have hx: "level_at z1 x 0 = Some (lev z1 x 0)" "node_at z1 x = Some (nodes z1 ! x)"
    using xn(3,4) z1(2) by (simp_all add: level_at_lev same_nodes_def node_at_def)
  let ?b = "if m = 0 then None else Some (ids ! (m - 1))"
  have b: "backward (nodes z1 ! x) = ?b"
  proof -
    have "backward (nodes z ! (?ids ! m)) = (if m = 0 then None else Some (?ids ! (m - 1)))" using e m by (simp add: ends_ok_def)
    then show ?thesis using z1(2) m by (auto simp: same_nodes_def nth_put_in)
  qed
  let ?n = "if m < length ids then Some (ids ! m) else None"
  define z2 where "z2 = (case ?n of None \<Rightarrow> z1\<lparr>tail := ?b\<rparr> | Some y \<Rightarrow> set_backward y ?b z1)"
  have z2: "height z2 y = height z y" "lev z2 y j = lev z1 y j" "length (nodes z2) = length (nodes z)" "zsl_level z2 = zsl_level z"
    "zsl_length z2 = zsl_length z" "tail z2 = (if m = length ids then ?b else tail z)" "same_values z z2 y" for y j
    using z1(2) m by (auto simp: z2_def same_nodes_def same_values_def)
  have "ends (lower_level z2 (zsl_level z2)) (\<lambda>l. 1 \<le> l \<and> l \<le> zsl_level z2 \<and> (\<forall>i. l \<le> i \<and> i < zsl_level z2 \<longrightarrow> forward (lev z2 0 i) = None))"
    by (rule lower_level_ends) (use ok z2 in \<open>auto simp: nodes_ok_def\<close>)
  then obtain l where l: "lower_level z2 (zsl_level z2) = Some l" "1 \<le> l" "l \<le> zsl_level z"
    "\<forall>i. l \<le> i \<and> i < zsl_level z \<longrightarrow> forward (lev z1 0 i) = None" by (auto simp: ends_iff z2)
  let ?z' = "z2\<lparr>zsl_level := l, zsl_length := zsl_length z2 - 1\<rparr>"
  have run: "deleteNode x ?us z = Some ?z'"
    using z1(1) hx fw b l(1) by (simp add: deleteNode_def z2_def Let_def split: if_splits)
  have "shape ?z' ids"
  proof (rule delete_shape [OF sh m z1(2) lv])
    show "backward (nodes ?z' ! (ids ! q)) = (if q = m then ?b else backward (nodes z ! (ids ! q)))" if q: "q < length ids" for q
    proof -
      have "ids ! m = ids ! q \<longleftrightarrow> q = m" if "m < length ids" using ok q that by (auto simp: nodes_ok_def nth_eq_iff_index_eq)
      moreover have "ids ! m < length (nodes z1)" if "m < length ids"
        using ok z1(2) nth_mem [OF that] by (simp add: nodes_ok_def same_nodes_def)
      ultimately show ?thesis using z1(2) q m by (auto simp: z2_def same_nodes_def)
    qed
  qed (use z2 l in auto)
  then show ?thesis using z2 by (auto simp: run ends_iff same_values_def)
qed

end
