(* ===== verification/SkipListSpec.thy ===== *)
theory SkipListSpec
  imports SkipListDel
begin

text \<open>
  What a skip list is for its clients: a list of members and scores, ordered by score and then by member.
  Its operations are insertion into, deletion from and search in that list.
\<close>

type_synonym entry = "string \<times> float64"

definition entry_less :: "entry \<Rightarrow> entry \<Rightarrow> bool" where
  "entry_less x y \<longleftrightarrow> fless (snd x) (snd y) \<or> (feq (snd x) (snd y) \<and> fst x < fst y)"

definition entry_of :: "zskiplist \<Rightarrow> nat \<Rightarrow> entry" where
  "entry_of z x = (ele (nodes z ! x), score (nodes z ! x))"

definition sorted_entries :: "entry list \<Rightarrow> bool" where
  "sorted_entries es \<longleftrightarrow> sorted_wrt entry_less es \<and> (\<forall>x \<in> set es. \<not> is_nan (snd x)) \<and> distinct (map fst es)"

definition sl_rep :: "zskiplist \<Rightarrow> nat list \<Rightarrow> entry list \<Rightarrow> bool" where
  "sl_rep z ids es \<longleftrightarrow> shape z ids \<and> es = map (entry_of z) ids \<and> sorted_entries es"

lemma entry_less_trans: "entry_less x y \<Longrightarrow> entry_less y w \<Longrightarrow> entry_less x w"
  by (auto simp: entry_less_def fless_def feq_def)

lemma entry_less_irrefl: "\<not> entry_less x x"
  by (auto simp: entry_less_def fless_def feq_def)

lemma entry_less_total:
  "\<not> is_nan (snd x) \<Longrightarrow> \<not> is_nan (snd y) \<Longrightarrow> entry_less x y \<or> entry_less y x \<or> (feq (snd x) (snd y) \<and> fst x = fst y)"
  by (auto simp: entry_less_def fless_def feq_def)

text \<open>A predicate that is closed towards smaller entries holds of a first part of the list.\<close>

definition downward :: "(entry \<Rightarrow> bool) \<Rightarrow> bool" where
  "downward P \<longleftrightarrow> (\<forall>x y. P y \<longrightarrow> entry_less x y \<longrightarrow> P x)"

lemma downward_prefix:
  assumes "sorted_wrt entry_less es" "downward P" "q < length es"
  shows "P (es ! q) \<longleftrightarrow> q < length (takeWhile P es)"
proof
  show "q < length (takeWhile P es) \<Longrightarrow> P (es ! q)"
    using nth_mem [of q "takeWhile P es"] set_takeWhileD [of "takeWhile P es ! q" P es] takeWhile_nth [of q P es] by simp
next
  assume p: "P (es ! q)"
  show "q < length (takeWhile P es)"
  proof (rule ccontr)
    assume "\<not> q < length (takeWhile P es)"
    then have le: "length (takeWhile P es) \<le> q" by simp
    then have n: "\<not> P (es ! length (takeWhile P es))" using assms(3) by (intro nth_length_takeWhile) simp
    show False
    proof (cases "length (takeWhile P es) = q")
      case False
      then have "entry_less (es ! length (takeWhile P es)) (es ! q)"
        using assms(1,3) le by (simp add: sorted_wrt_iff_nth_less)
      then show False using n p assms(2) unfolding downward_def by blast
    qed (use n p in simp)
  qed
qed

lemma none_after:
  assumes "sorted_wrt entry_less (x # es)" "downward P" "\<not> P x"
  shows "filter P es = []"
  using assms unfolding filter_empty_conv downward_def sorted_wrt.simps by blast

lemma takeWhile_filter_sorted: "sorted_wrt entry_less es \<Longrightarrow> downward P \<Longrightarrow> takeWhile P es = filter P es"
proof (induction es)
  case (Cons x es)
  show ?case
  proof (cases "P x")
    case False
    then show ?thesis using none_after [OF Cons.prems] by simp
  qed (use Cons in simp)
qed simp

definition split_at :: "(entry \<Rightarrow> bool) \<Rightarrow> entry list \<Rightarrow> nat" where
  "split_at P es = length (filter P es)"

lemma holds_split:
  assumes "sl_rep z ids es" "downward P" "\<And>n. before n \<longleftrightarrow> P (ele n, score n)"
  shows "holds_first z ids before (split_at P es)"
proof -
  have s: "sorted_wrt entry_less es" "es = map (entry_of z) ids"
    using assms(1) unfolding sl_rep_def sorted_entries_def by blast+
  have "split_at P es = length (takeWhile P es)" by (simp add: split_at_def takeWhile_filter_sorted [OF s(1) assms(2)])
  then show ?thesis
    using downward_prefix [OF s(1) assms(2)] length_takeWhile_le [of P es]
    by (auto simp: holds_first_def assms(3) s(2) entry_of_def)
qed

lemma downward_before [simp]: "downward (\<lambda>x. entry_less x (e, s))"
  by (auto simp: downward_def intro: entry_less_trans)

lemma node_before_entry: "node_before s e n \<longleftrightarrow> entry_less (ele n, score n) (e, s)"
  by (simp add: node_before_def entry_less_def)

lemma downward_upto [simp]: "downward (\<lambda>x. fless (snd x) s \<or> (feq (snd x) s \<and> fst x \<le> e))"
  by (auto simp: downward_def entry_less_def fless_def feq_def)

lemma downward_fless [simp]: "downward (\<lambda>x. fless (snd x) s)"
  by (auto simp: downward_def entry_less_def fless_def feq_def)

lemma downward_fle [simp]: "downward (\<lambda>x. fle (snd x) s)"
  by (auto simp: downward_def entry_less_def fle_iff fless_def feq_def)

lemma split_le: "split_at P es \<le> length es"
  by (simp add: split_at_def)

lemma split_at_nth:
  assumes "sorted_wrt entry_less es" "downward P" "q < length es"
  shows "P (es ! q) \<longleftrightarrow> q < split_at P es"
  using downward_prefix [OF assms] takeWhile_filter_sorted [OF assms(1,2)] by (simp add: split_at_def)

subsection \<open>Insertion and deletion\<close>

text \<open>The reference: insertion into and deletion from the ordered list.\<close>

definition entry_insert :: "entry \<Rightarrow> entry list \<Rightarrow> entry list" where
  "entry_insert x es = filter (\<lambda>y. entry_less y x) es @ x # filter (\<lambda>y. \<not> entry_less y x) es"

definition entry_delete :: "string \<Rightarrow> entry list \<Rightarrow> entry list" where
  "entry_delete e es = filter (\<lambda>y. fst y \<noteq> e) es"

lemma take_split:
  "sorted_wrt entry_less es \<Longrightarrow> downward P \<Longrightarrow> take (split_at P es) es = filter P es \<and> drop (split_at P es) es = filter (\<lambda>x. \<not> P x) es"
proof (induction es)
  case (Cons x es)
  show ?case
  proof (cases "P x")
    case False
    then have "filter P es = []" by (rule none_after [OF Cons.prems])
    then show ?thesis using False by (simp add: split_at_def filter_empty_conv)
  qed (use Cons in \<open>simp add: split_at_def\<close>)
qed (simp add: split_at_def)

lemma put_in_split:
  "sorted_wrt entry_less es \<Longrightarrow> put_in (split_at (\<lambda>y. entry_less y x) es) x es = entry_insert x es"
proof -
  assume "sorted_wrt entry_less es"
  moreover have "downward (\<lambda>y. entry_less y x)" by (auto simp: downward_def intro: entry_less_trans)
  ultimately show ?thesis using take_split [of es "\<lambda>y. entry_less y x"] by (simp add: put_in_def entry_insert_def)
qed

lemma set_entry_insert [simp]: "set (entry_insert x es) = insert x (set es)"
  by (auto simp: entry_insert_def)

lemma sorted_entry_insert:
  assumes "sorted_entries es" "\<not> is_nan (snd x)" "fst x \<notin> fst ` set es"
  shows "sorted_entries (entry_insert x es)"
proof -
  have gt: "entry_less x y" if "y \<in> set es" "\<not> entry_less y x" for y
    using entry_less_total [of x y] assms that by (auto simp: sorted_entries_def)
  have "sorted_wrt entry_less (entry_insert x es)"
    using assms(1) gt
    by (auto simp: entry_insert_def sorted_wrt_append sorted_entries_def intro: sorted_wrt_filter entry_less_trans)
  moreover have "distinct (map fst (entry_insert x es))"
    using assms(1,3)
    by (auto simp: entry_insert_def sorted_entries_def distinct_map_filter image_iff dest: eq_key_imp_eq_value)
  ultimately show ?thesis using assms by (auto simp: sorted_entries_def)
qed

lemma sl_insert:
  assumes r: "sl_rep z ids es" and n: "\<not> is_nan s" "e \<notin> fst ` set es"
  shows "ends (zsl_insert s e z) (\<lambda>z'. \<exists>ids'. sl_rep z' ids' (entry_insert (e, s) es))"
proof -
  have sh: "shape z ids" and es: "es = map (entry_of z) ids" and so: "sorted_entries es" using r unfolding sl_rep_def by blast+
  let ?m = "split_at (\<lambda>y. entry_less y (e, s)) es"
  have hf: "holds_first z ids (node_before s e) ?m"
    by (rule holds_split [OF r]) (simp_all add: node_before_entry)
  have lt: "y < length (nodes z)" if "y \<in> set ids" for y using sh that by (auto simp: shape_def nodes_ok_def)
  show ?thesis
  proof (rule ends_mono [OF zsl_insert_ends [OF sh hf]])
    fix z' assume z': "shape z' (put_in ?m (length (nodes z)) ids) \<and> ele (nodes z' ! length (nodes z)) = e \<and>
      score (nodes z' ! length (nodes z)) = s \<and> (\<forall>y < length (nodes z). same_values z z' y)"
    have "map (entry_of z') ids = map (entry_of z) ids"
      using z' lt by (intro map_cong) (simp_all add: entry_of_def same_values_def)
    moreover have "entry_of z' (length (nodes z)) = (e, s)" using z' by (simp add: entry_of_def)
    ultimately have "map (entry_of z') (put_in ?m (length (nodes z)) ids) = put_in ?m (e, s) (map (entry_of z) ids)"
      by (simp only: map_put_in)
    also have "\<dots> = entry_insert (e, s) es" using so by (simp add: es [symmetric] put_in_split sorted_entries_def)
    finally show "\<exists>ids'. sl_rep z' ids' (entry_insert (e, s) es)"
      using z' sorted_entry_insert [OF so, of "(e, s)"] n unfolding sl_rep_def by auto
  qed
qed

text \<open>The position of a member, from its entry.\<close>

lemma entry_key:
  assumes "sorted_entries es" "(e, s) \<in> set es" "(e, s') \<in> set es"
  shows "s = s'"
  using assms unfolding sorted_entries_def by (meson eq_key_imp_eq_value)

lemma entry_less_feq: "fst y = e \<Longrightarrow> feq s (snd y) \<Longrightarrow> entry_less x (e, s) \<longleftrightarrow> entry_less x y"
  by (auto simp: entry_less_def fless_def feq_def)

lemma entry_le_feq:
  "fst y = e \<Longrightarrow> feq s (snd y) \<Longrightarrow> fless (snd x) s \<or> (feq (snd x) s \<and> fst x \<le> e) \<longleftrightarrow> entry_less x y \<or> (feq (snd x) (snd y) \<and> fst x = fst y)"
  by (auto simp: entry_less_def fless_def feq_def)

lemma entry_less_nth:
  assumes so: "sorted_entries es" and pq: "p < length es" "q < length es"
  shows "entry_less (es ! p) (es ! q) \<longleftrightarrow> p < q" "fst (es ! p) = fst (es ! q) \<longleftrightarrow> p = q"
proof -
  have w: "sorted_wrt entry_less es" using so by (simp add: sorted_entries_def)
  have lt: "entry_less (es ! a) (es ! b)" if "a < b" "b < length es" for a b
    using w that by (simp add: sorted_wrt_iff_nth_less)
  show "entry_less (es ! p) (es ! q) \<longleftrightarrow> p < q"
  proof (cases p q rule: linorder_cases)
    case greater
    then show ?thesis using lt [of q p] pq entry_less_trans [of "es ! p" "es ! q" "es ! p"] entry_less_irrefl by auto
  qed (use lt [of p q] pq entry_less_irrefl in simp_all)
  show "fst (es ! p) = fst (es ! q) \<longleftrightarrow> p = q"
    using so pq nth_eq_iff_index_eq [of "map fst es" p q] by (simp add: sorted_entries_def)
qed

lemma split_at_unique:
  assumes "sorted_entries es" "downward P" "m \<le> length es" "\<And>p. p < length es \<Longrightarrow> P (es ! p) \<longleftrightarrow> p < m"
  shows "split_at P es = m"
proof -
  have "p < m \<longleftrightarrow> p < split_at P es" if "p < length es" for p
    using split_at_nth [of es P p] assms that by (simp add: sorted_entries_def)
  then show ?thesis using split_le [of P es] assms(3) by (metis linorder_neqE_nat order.strict_trans2 order.irrefl)
qed

lemma entry_position:
  assumes so: "sorted_entries es" and q: "q < length es" "fst (es ! q) = e" "feq s (snd (es ! q))"
  shows "split_at (\<lambda>y. entry_less y (e, s)) es = q" "split_at (\<lambda>y. fless (snd y) s \<or> (feq (snd y) s \<and> fst y \<le> e)) es = Suc q"
proof -
  show "split_at (\<lambda>y. entry_less y (e, s)) es = q"
    by (rule split_at_unique [OF so downward_before])
      (use q in \<open>simp_all add: entry_less_feq entry_less_nth [OF so]\<close>)
  show "split_at (\<lambda>y. fless (snd y) s \<or> (feq (snd y) s \<and> fst y \<le> e)) es = Suc q"
  proof (rule split_at_unique [OF so downward_upto])
    fix p assume p: "p < length es"
    have "feq (snd (es ! q)) (snd (es ! q))" using q(3) by (simp add: feq_def)
    then show "fless (snd (es ! p)) s \<or> (feq (snd (es ! p)) s \<and> fst (es ! p) \<le> e) \<longleftrightarrow> p < Suc q"
      unfolding entry_le_feq [OF q(2,3)] entry_less_nth [OF so p q(1)]
      by (cases "p = q") auto
  qed (use q in simp)
qed

definition holds_entry :: "string \<Rightarrow> float64 \<Rightarrow> entry list \<Rightarrow> bool" where
  "holds_entry e s es \<longleftrightarrow> (\<exists>s'. (e, s') \<in> set es \<and> feq s s')"

lemma entry_found:
  fixes e :: string and s :: float64
  assumes so: "sorted_entries es"
  defines "m \<equiv> split_at (\<lambda>y. entry_less y (e, s)) es"
  shows "holds_entry e s es \<longleftrightarrow> m < length es \<and> feq s (snd (es ! m)) \<and> fst (es ! m) = e"
proof
  assume "holds_entry e s es"
  then obtain s' where s': "(e, s') \<in> set es" "feq s s'" by (auto simp: holds_entry_def)
  then obtain q where q: "q < length es" "es ! q = (e, s')" by (auto simp: in_set_conv_nth)
  then have "m = q" using entry_position(1) [OF so, of q e s] s'(2) by (simp add: m_def)
  then show "m < length es \<and> feq s (snd (es ! m)) \<and> fst (es ! m) = e" using q s' by simp
next
  assume a: "m < length es \<and> feq s (snd (es ! m)) \<and> fst (es ! m) = e"
  then have "(e, snd (es ! m)) \<in> set es" by (metis nth_mem prod.collapse)
  then show "holds_entry e s es" using a by (auto simp: holds_entry_def)
qed

lemma entry_delete_nth:
  assumes "distinct (map fst es)" "m < length es" "fst (es ! m) = e"
  shows "entry_delete e es = take m es @ drop (Suc m) es"
proof -
  have s: "es = take m es @ es ! m # drop (Suc m) es" using assms(2) by (rule id_take_nth_drop)
  have "distinct (map fst (take m es @ es ! m # drop (Suc m) es))" using assms(1) s by simp
  then have "\<forall>y \<in> set (take m es @ drop (Suc m) es). fst y \<noteq> e" using assms(3) by (auto simp: image_iff)
  then have "filter (\<lambda>y. fst y \<noteq> e) (take m es @ es ! m # drop (Suc m) es) = take m es @ drop (Suc m) es"
    using assms(3) by (simp add: filter_id_conv)
  then show ?thesis using s by (simp add: entry_delete_def)
qed

lemma sorted_entry_delete: "sorted_entries es \<Longrightarrow> sorted_entries (entry_delete e es)"
  by (auto simp: sorted_entries_def entry_delete_def sorted_wrt_filter distinct_map_filter)

subsection \<open>The operations on the list of entries\<close>

lemma sl_repD:
  assumes "sl_rep z ids es"
  shows "shape z ids" "es = map (entry_of z) ids" "sorted_entries es" "length ids = length es"
proof -
  show e: "es = map (entry_of z) ids" using assms unfolding sl_rep_def by blast
  show "length ids = length es" unfolding e by simp
qed (use assms in \<open>unfold sl_rep_def, blast+\<close>)

lemma sl_nth: "sl_rep z ids es \<Longrightarrow> q < length es \<Longrightarrow> entry_of z (ids ! q) = es ! q"
  using sl_repD(2,4) by (metis nth_map)

lemma shape_level_0:
  assumes "shape z ids" "m \<le> length ids"
  shows "level_at z (pos ids m) 0 = Some \<lparr>forward = (if m < length ids then Some (ids ! m) else None), span = (if m < length ids then 1 else 0)\<rparr>"
proof -
  have sh: "nodes_ok z ids" "links_ok z ids" using assms(1) by (simp_all add: shape_def)
  have st: "tall (heights z ids) 0 m" using stop_tall [of "heights z ids" 0 m] stop_0 [OF sh(1) assms(2)] by simp
  have l0: "0 < zsl_level z" using sh(1) by (simp add: nodes_ok_def)
  have g: "gap (heights z ids) 0 m = 0"
  proof (rule gap_unique)
    assume "m + 0 < length (heights z ids)"
    then have "m < length ids" "ids ! m \<in> set ids" by simp_all
    then show "0 < heights z ids ! (m + 0)" using sh(1) by (auto simp: nodes_ok_def Suc_le_eq)
  qed (use assms(2) in simp_all)
  show ?thesis using level_at_pos [OF sh assms(2) st l0] g assms(2) by (simp add: link_spec_def)
qed

lemmas sl_level_0 = shape_level_0 [OF sl_repD(1)]

lemma sl_node: "sl_rep z ids es \<Longrightarrow> q < length ids \<Longrightarrow> node_at z (ids ! q) = Some (nodes z ! (ids ! q))"
  using nodes_ok_pos(1) [of z ids "Suc q"] sl_repD(1) by (auto simp: node_at_def shape_def)

lemma sl_search:
  assumes "sl_rep z ids es" "downward P" "\<And>n. before n \<longleftrightarrow> P (ele n, score n)"
  defines "m \<equiv> split_at P es"
  shows "search z before (zsl_level z) 0 0 =
      Some (map (\<lambda>i. pos ids (stop (heights z ids) i m)) [0..<zsl_level z], map (\<lambda>i. of_nat (stop (heights z ids) i m)) [0..<zsl_level z])"
    "map (\<lambda>i. pos ids (stop (heights z ids) i m)) [0..<zsl_level z] ! 0 = pos ids m"
    "map (\<lambda>i. of_nat (stop (heights z ids) i m)) [0..<zsl_level z] ! 0 = (of_nat m :: 64 word)"
    "m \<le> length ids"
proof -
  have sh: "shape z ids" by (rule sl_repD(1) [OF assms(1)])
  show m: "m \<le> length ids" using split_le [of P es] sl_repD(4) [OF assms(1)] by (simp add: m_def)
  show "search z before (zsl_level z) 0 0 =
      Some (map (\<lambda>i. pos ids (stop (heights z ids) i m)) [0..<zsl_level z], map (\<lambda>i. of_nat (stop (heights z ids) i m)) [0..<zsl_level z])"
    unfolding m_def by (rule search_all [OF sh holds_split [OF assms(1,2,3)]])
  have "0 < zsl_level z" "stop (heights z ids) 0 m = m" using sh stop_0 [OF _ m] by (simp_all add: shape_def nodes_ok_def)
  then show "map (\<lambda>i. pos ids (stop (heights z ids) i m)) [0..<zsl_level z] ! 0 = pos ids m"
    "map (\<lambda>i. of_nat (stop (heights z ids) i m)) [0..<zsl_level z] ! 0 = (of_nat m :: 64 word)" by simp_all
qed

lemma ids_split: "m < length ids \<Longrightarrow> ids = put_in m (ids ! m) (take m ids @ drop (Suc m) ids)"
  by (simp add: put_in_def id_take_nth_drop [symmetric] min_def)

lemma sl_delete:
  assumes r: "sl_rep z ids es"
  shows "ends (zsl_delete s e z) (\<lambda>(b, z'). b = holds_entry e s es \<and>
    (if holds_entry e s es then \<exists>ids'. sl_rep z' ids' (entry_delete e es) else z' = z))"
proof -
  let ?P = "\<lambda>y. entry_less y (e, s)"
  define m where "m = split_at ?P es"
  define us where "us = map (\<lambda>i. pos ids (stop (heights z ids) i m)) [0..<zsl_level z]"
  define rs where "rs = (map (\<lambda>i. of_nat (stop (heights z ids) i m)) [0..<zsl_level z] :: 64 word list)"
  note sr = sl_search [OF r downward_before [of e s] node_before_entry, folded m_def, folded us_def rs_def]
  note found = entry_found [OF sl_repD(3) [OF r], of e s, folded m_def]
  have len: "length ids = length es" by (rule sl_repD(4) [OF r])
  show ?thesis
  proof (cases "m < length es")
    case False
    then show ?thesis using found len
      by (simp add: zsl_delete_def sr(1) sr(2) sl_level_0 [OF r sr(4)])
  next
    case True
    let ?n = "nodes z ! (ids ! m)"
    have ent: "es ! m = (ele ?n, score ?n)" using sl_nth [OF r True] by (simp add: entry_of_def)
    have d: "zsl_delete s e z =
        (if holds_entry e s es then map_option (Pair True) (deleteNode (ids ! m) us z) else Some (False, z))"
      using True len found ent
      by (simp add: zsl_delete_def sr(1) sr(2) sl_level_0 [OF r sr(4)] sl_node [OF r])
    show ?thesis
    proof (cases "holds_entry e s es")
      case True
      let ?ids = "take m ids @ drop (Suc m) ids"
      have m: "m < length ids" "m \<le> length ?ids" using \<open>m < length es\<close> len by simp_all
      have st: "stop (heights z ids) i m = stop (heights z ?ids) i m" for i
      proof -
        have "heights z ids = put_in m (height z (ids ! m)) (heights z ?ids)"
          unfolding heights_def map_put_in [symmetric] by (subst ids_split [OF m(1)]) simp
        then show ?thesis using stop_put_in [of m "heights z ?ids" m "height z (ids ! m)" i] m by simp
      qed
      have p: "pos ids p = pos ?ids p" if "p \<le> m" for p
        using pos_put_in(1) [OF m(2) that, of "ids ! m"] ids_split [OF m(1)] by simp
      have us: "us = map (\<lambda>i. pos ?ids (stop (heights z ?ids) i m)) [0..<zsl_level z]"
        using p [OF stop_le] by (simp add: st us_def)
      have sh: "shape z (put_in m (ids ! m) ?ids)" using sl_repD(1) [OF r] ids_split [OF m(1)] by simp
      have es': "map (entry_of z) ?ids = entry_delete e es"
      proof -
        have "distinct (map fst es)" using sl_repD(3) [OF r] by (simp add: sorted_entries_def)
        then have "entry_delete e es = take m es @ drop (Suc m) es" using found True by (intro entry_delete_nth) simp_all
        then show ?thesis by (simp add: sl_repD(2) [OF r] take_map drop_map)
      qed
      have "ends (deleteNode (ids ! m) us z) (\<lambda>z'. sl_rep z' ?ids (entry_delete e es))"
        unfolding us
      proof (rule ends_mono [OF deleteNode_ends [OF sh m(2)]])
        fix z' assume z': "shape z' ?ids \<and> length (nodes z') = length (nodes z) \<and> (\<forall>y. same_values z z' y)"
        have "map (entry_of z') ?ids = map (entry_of z) ?ids"
          using z' by (intro map_cong) (simp_all add: entry_of_def same_values_def)
        then show "sl_rep z' ?ids (entry_delete e es)"
          using z' sorted_entry_delete [OF sl_repD(3) [OF r]] unfolding sl_rep_def es' by simp
      qed
      then show ?thesis using True by (auto simp: d elim: ends_mono)
    qed (simp add: d)
  qed
qed

end
