(* ===== verification/SkipListRank.thy ===== *)
theory SkipListRank
  imports SkipListSpec
begin

text \<open>
  Ranks of the skip list: \<open>getRank\<close> finds the position of a member, \<open>getElementByRank\<close> the member at a
  position, and the two range functions count the entries below and up to a bound.
\<close>

lemma rank_loop_found:
  assumes sh: "shape z ids" and h: "holds_first z ids (node_upto s e) m" and m: "0 < m" "ele (nodes z ! (ids ! (m - 1))) = e"
    and u: "\<And>q. q < length ids \<Longrightarrow> ele (nodes z ! (ids ! q)) = e \<Longrightarrow> Suc q = m"
  shows "k < zsl_level z \<Longrightarrow> p \<le> m \<Longrightarrow> tall (heights z ids) k p \<Longrightarrow>
    rank_loop z s e (Suc k) (pos ids p) (of_nat p) = Some (of_nat m)"
proof (induction k arbitrary: p)
  have ok: "nodes_ok z ids" "links_ok z ids" and ml: "m \<le> length ids"
    using sh h by (simp_all add: shape_def holds_first_def)
  have step: "rank_loop z s e (Suc k) (pos ids p) (of_nat p) =
      (if stop (heights z ids) k m = m then Some (of_nat m)
       else rank_loop z s e k (pos ids (stop (heights z ids) k m)) (of_nat (stop (heights z ids) k m)))"
    if "k < zsl_level z" "p \<le> m" "tall (heights z ids) k p" for k p
  proof -
    let ?q = "stop (heights z ids) k m"
    have q: "?q \<le> m" by (rule stop_le)
    have n: "node_at z (pos ids ?q) = Some (nodes z ! (pos ids ?q))"
      using nodes_ok_pos(1) [OF ok(1), of ?q] q ml by (simp add: node_at_def)
    have "pos ids ?q \<noteq> 0 \<and> ele (nodes z ! pos ids ?q) = e \<longleftrightarrow> ?q = m"
    proof (cases ?q)
      case 0
      then show ?thesis using m by simp
    next
      case (Suc q)
      then have "ids ! q \<noteq> 0" using pos_inj [OF ok(1), of "Suc q" 0] q ml by simp
      then show ?thesis using u [of q] m q ml Suc by auto
    qed
    then show ?thesis using walk_stops [OF ok h that] n by simp
  qed
  {
    case 0
    then show ?case using step [of 0 p] stop_0 [OF ok(1) ml] by (simp del: rank_loop.simps)
  next
    case (Suc k)
    have "tall (heights z ids) k (stop (heights z ids) (Suc k) m)" by (rule tall_mono [OF stop_tall]) simp
    then show ?case using step [OF Suc.prems] Suc.IH [OF _ stop_le] Suc.prems(1) by (simp del: rank_loop.simps)
  }
qed

lemma rank_loop_absent:
  assumes sh: "shape z ids" and h: "holds_first z ids (node_upto s e) m"
    and u: "\<And>q. q < length ids \<Longrightarrow> ele (nodes z ! (ids ! q)) \<noteq> e"
  shows "k \<le> zsl_level z \<Longrightarrow> p \<le> m \<Longrightarrow> (0 < k \<Longrightarrow> tall (heights z ids) (k - 1) p) \<Longrightarrow>
    rank_loop z s e k (pos ids p) (of_nat p) = Some 0"
proof (induction k arbitrary: p)
  case (Suc k)
  have ok: "nodes_ok z ids" "links_ok z ids" and ml: "m \<le> length ids"
    using sh h by (simp_all add: shape_def holds_first_def)
  let ?q = "stop (heights z ids) k m"
  have q: "?q \<le> m" by (rule stop_le)
  have n: "node_at z (pos ids ?q) = Some (nodes z ! (pos ids ?q))"
    using nodes_ok_pos(1) [OF ok(1), of ?q] q ml by (simp add: node_at_def)
  have "\<not> (pos ids ?q \<noteq> 0 \<and> ele (nodes z ! pos ids ?q) = e)"
    using u [of "?q - 1"] q ml by (cases ?q) auto
  moreover have "0 < k \<Longrightarrow> tall (heights z ids) (k - 1) ?q" by (rule tall_mono [OF stop_tall]) simp
  ultimately have "rank_loop z s e k (pos ids ?q) (of_nat ?q) = Some 0"
    using Suc.IH [of ?q] Suc.prems(1) q by simp
  then show ?case using walk_stops [OF ok h, of k p] n Suc.prems \<open>\<not> (pos ids ?q \<noteq> 0 \<and> _)\<close>
    by (auto simp: bind_eq_Some_conv)
qed simp

lemma node_upto_entry: "node_upto s e n \<longleftrightarrow> fless (snd (ele n, score n)) s \<or> (feq (snd (ele n, score n)) s \<and> fst (ele n, score n) \<le> e)"
  by (simp add: node_upto_def)

lemma sl_getRank:
  assumes r: "sl_rep z ids es" and q: "q < length es" "fst (es ! q) = e" "feq s (snd (es ! q))"
  shows "getRank s e z = Some (of_nat (Suc q))"
proof -
  have sh: "shape z ids" and so: "sorted_entries es" and len: "length ids = length es" using sl_repD [OF r] by blast+
  have h: "holds_first z ids (node_upto s e) (Suc q)"
    using holds_split [OF r downward_upto [of s e] node_upto_entry] by (simp only: entry_position(2) [OF so q])
  have el: "ele (nodes z ! (ids ! p)) = fst (es ! p)" if "p < length es" for p
    using sl_nth [OF r that] by (auto simp: entry_of_def dest: arg_cong [where f = fst])
  have u: "Suc p = Suc q" if "p < length ids" "ele (nodes z ! (ids ! p)) = e" for p
    using entry_less_nth(2) [OF so, of p q] that q len el by simp
  obtain k where k: "zsl_level z = Suc k" using sh by (cases "zsl_level z") (auto simp: shape_def nodes_ok_def)
  have "rank_loop z s e (Suc k) (pos ids 0) (of_nat 0) = Some (of_nat (Suc q))"
    by (rule rank_loop_found [OF sh h _ _ u]) (use q el k in \<open>simp_all add: tall_def\<close>)
  then show ?thesis by (simp add: getRank_def k del: rank_loop.simps)
qed

lemma sl_getRank_absent:
  assumes r: "sl_rep z ids es" and "e \<notin> fst ` set es"
  shows "getRank s e z = Some 0"
proof -
  have sh: "shape z ids" and len: "length ids = length es" using sl_repD [OF r] by blast+
  have "ele (nodes z ! (ids ! p)) \<noteq> e" if "p < length ids" for p
  proof -
    have "fst (es ! p) \<in> fst ` set es" using that len by simp
    then show ?thesis using sl_nth [OF r, of p] that len assms(2) by (auto simp: entry_of_def dest: arg_cong [where f = fst])
  qed
  then show ?thesis
    using rank_loop_absent [OF sh holds_split [OF r downward_upto [of s e] node_upto_entry], of "zsl_level z" 0]
    by (simp add: getRank_def tall_def)
qed

subsection \<open>The node at a rank\<close>

lemma unat_word64: "a < 2 ^ 64 \<Longrightarrow> unat (of_nat a :: 64 word) = a"
  by (simp add: unsigned_of_nat take_bit_nat_eq_self)

lemma of_nat_le_word: "a < 2 ^ 64 \<Longrightarrow> b < 2 ^ 64 \<Longrightarrow> (of_nat a :: 64 word) \<le> of_nat b \<longleftrightarrow> a \<le> b"
  by (simp add: word_le_nat_alt unat_word64)

lemma of_nat_eq_word: "a < 2 ^ 64 \<Longrightarrow> b < 2 ^ 64 \<Longrightarrow> (of_nat a :: 64 word) = of_nat b \<longleftrightarrow> a = b"
  by (metis unat_word64)

lemma walk_rank_stops:
  assumes "nodes_ok z ids" "links_ok z ids" "r \<le> length ids" "length ids < 2 ^ 64" "i < zsl_level z"
  shows "p \<le> r \<Longrightarrow> tall (heights z ids) i p \<Longrightarrow>
    walk_rank z (of_nat r) i (pos ids p) (of_nat p) = Some (pos ids (stop (heights z ids) i r), of_nat (stop (heights z ids) i r))"
proof (induction "r - p" arbitrary: p rule: less_induct)
  case less
  let ?hs = "heights z ids" and ?g = "gap (heights z ids) i p"
  have l: "level_at z (pos ids p) i = Some (link_spec ids ?hs p i)"
    using less.prems assms(3) by (intro level_at_pos [OF assms(1,2) _ _ assms(5)]) auto
  have c: "(of_nat p :: 64 word) + of_nat (Suc ?g) \<le> of_nat r \<longleftrightarrow> Suc (p + ?g) \<le> r" if "p + ?g < length ids"
    using of_nat_le_word [of "Suc (p + ?g)" r] that assms(3,4) by (simp add: add_ac)
  show ?case
  proof (cases "p + ?g < r")
    case True
    have "walk_rank z (of_nat r) i (pos ids p) (of_nat p) = walk_rank z (of_nat r) i (pos ids (Suc (p + ?g))) (of_nat (Suc (p + ?g)))"
      using True assms(3) c by (subst walk_rank.simps) (simp add: l link_spec_def Let_def ac_simps)
    then show ?thesis
      using less.hyps [of "Suc (p + ?g)"] True assms(3) stop_step [of p ?hs i r] by simp
  next
    case False
    then have st: "stop ?hs i r = p" using stop_gap [of r p ?hs i] less.prems by simp
    have "walk_rank z (of_nat r) i (pos ids p) (of_nat p) = Some (pos ids p, of_nat p)"
    proof (cases "p + ?g < length ids")
      case True
      then show ?thesis using c False by (subst walk_rank.simps) (simp add: l link_spec_def Let_def)
    next
      case False
      then show ?thesis by (subst walk_rank.simps) (simp add: l link_spec_def Let_def)
    qed
    then show ?thesis by (simp add: st)
  qed
qed

lemma element_loop_found:
  assumes sh: "shape z ids" and r: "0 < r" "r \<le> length ids" "length ids < 2 ^ 64"
  shows "k < zsl_level z \<Longrightarrow> p \<le> r \<Longrightarrow> tall (heights z ids) k p \<Longrightarrow>
    element_loop z (of_nat r) (Suc k) (pos ids p) (of_nat p) = Some (Some (ids ! (r - 1)))"
proof (induction k arbitrary: p)
  have ok: "nodes_ok z ids" "links_ok z ids" using sh by (simp_all add: shape_def)
  have step: "element_loop z (of_nat r) (Suc k) (pos ids p) (of_nat p) =
      (if stop (heights z ids) k r = r then Some (Some (ids ! (r - 1)))
       else element_loop z (of_nat r) k (pos ids (stop (heights z ids) k r)) (of_nat (stop (heights z ids) k r)))"
    if "k < zsl_level z" "p \<le> r" "tall (heights z ids) k p" for k p
  proof -
    have "(of_nat (stop (heights z ids) k r) :: 64 word) = of_nat r \<longleftrightarrow> stop (heights z ids) k r = r"
      using stop_le [of "heights z ids" k r] r by (intro of_nat_eq_word) simp_all
    moreover have "pos ids r = ids ! (r - 1)" using r(1) by (cases r) simp_all
    ultimately show ?thesis using walk_rank_stops [OF ok r(2,3) that] by simp
  qed
  {
    case 0
    then show ?case using step [of 0 p] stop_0 [OF ok(1) r(2)] by (simp del: element_loop.simps)
  next
    case (Suc k)
    have "tall (heights z ids) k (stop (heights z ids) (Suc k) r)" by (rule tall_mono [OF stop_tall]) simp
    then show ?case using step [OF Suc.prems] Suc.IH [OF _ stop_le] Suc.prems(1) by (simp del: element_loop.simps)
  }
qed

lemma sl_length: "sl_rep z ids es \<Longrightarrow> zsl_length z = of_nat (length es)"
  using sl_repD(1,4) by (force simp: shape_def ends_ok_def)

lemma sl_getElementByRank:
  assumes r: "sl_rep z ids es" and q: "0 < q" "q \<le> length es" "length es < 2 ^ 64"
  shows "getElementByRank (of_nat q) z = Some (Some (ids ! (q - 1)))"
proof -
  have sh: "shape z ids" and len: "length ids = length es" using sl_repD [OF r] by blast+
  obtain k where k: "zsl_level z = Suc k" using sh by (cases "zsl_level z") (auto simp: shape_def nodes_ok_def)
  have "(of_nat q :: 64 word) \<noteq> 0" using of_nat_eq_word [of q 0] q by simp
  moreover have "\<not> (of_nat (length es) :: 64 word) < of_nat q" using of_nat_le_word [of q "length es"] q by (simp add: not_less)
  moreover have "element_loop z (of_nat q) (Suc k) (pos ids 0) (of_nat 0) = Some (Some (ids ! (q - 1)))"
    by (rule element_loop_found [OF sh]) (use q len k in \<open>simp_all add: tall_def\<close>)
  ultimately show ?thesis by (simp add: getElementByRank_def sl_length [OF r] k del: element_loop.simps)
qed

lemma sl_getElementByRank_none:
  assumes r: "sl_rep z ids es" and q: "q = 0 \<or> of_nat (length es) < q"
  shows "getElementByRank q z = Some None"
  using q by (auto simp: getElementByRank_def sl_length [OF r])

subsection \<open>The range functions\<close>

lemma sl_firstInRangeRank:
  fixes mn :: float64
  assumes r: "sl_rep z ids es"
  defines "m \<equiv> split_at (\<lambda>y. fless (snd y) mn) es"
  shows "firstInRangeRank mn z = Some (if m < length es \<and> fle mn (snd (es ! m)) then of_nat m + 1 else 0)"
proof -
  define us where "us = map (\<lambda>i. pos ids (stop (heights z ids) i m)) [0..<zsl_level z]"
  define rs where "rs = (map (\<lambda>i. of_nat (stop (heights z ids) i m)) [0..<zsl_level z] :: 64 word list)"
  have b: "\<And>n. fless (score n) mn \<longleftrightarrow> fless (snd (ele n, score n)) mn" by simp
  note sr = sl_search [OF r downward_fless [of mn] b, folded m_def, folded us_def rs_def]
  have len: "length ids = length es" by (rule sl_repD(4) [OF r])
  show ?thesis
  proof (cases "m < length es")
    case True
    then have "score (nodes z ! (ids ! m)) = snd (es ! m)"
      using sl_nth [OF r True] by (auto simp: entry_of_def dest: arg_cong [where f = snd])
    then show ?thesis using True len
      by (simp add: firstInRangeRank_def sr(1) sr(2) sr(3) sl_level_0 [OF r sr(4)] sl_node [OF r])
  next
    case False
    then show ?thesis using len
      by (simp add: firstInRangeRank_def sr(1) sr(2) sr(3) sl_level_0 [OF r sr(4)])
  qed
qed

lemma sl_lastInRangeRank:
  assumes r: "sl_rep z ids es"
  shows "lastInRangeRank mx z = Some (of_nat (split_at (\<lambda>y. fle (snd y) mx) es))"
proof -
  define m where "m = split_at (\<lambda>y. fle (snd y) mx) es"
  define us where "us = map (\<lambda>i. pos ids (stop (heights z ids) i m)) [0..<zsl_level z]"
  define rs where "rs = (map (\<lambda>i. of_nat (stop (heights z ids) i m)) [0..<zsl_level z] :: 64 word list)"
  have b: "\<And>n. fle (score n) mx \<longleftrightarrow> fle (snd (ele n, score n)) mx" by simp
  note sr = sl_search [OF r downward_fle [of mx] b, folded m_def, folded us_def rs_def]
  have "nodes_ok z ids" using sl_repD(1) [OF r] by (simp add: shape_def)
  then have "pos ids m = 0 \<longleftrightarrow> m = 0" using pos_inj [of z ids m 0] sr(4) by simp
  then show ?thesis by (simp add: lastInRangeRank_def sr(1) sr(2) sr(3) m_def [symmetric])
qed

end
