(* ===== verification/ZSetSpec.thy ===== *)
theory ZSetSpec
  imports ZSetStorage SkipListRank KvRefine
begin

text \<open>
  The specification of the sorted set engine: a key holds the list of its members and scores, ordered by score
  and then by member, and every operation is a function on these lists.  The skip list, the map kept beside
  it, the ranks and the expirations do not occur.
\<close>

datatype zset_op =
    ZOAdd string "ZSetMember list" "time option"
  | ZORem string "bytes list"
  | ZOIncrBy string float64 bytes
  | ZOPopMax string int
  | ZOPopMin string int
  | ZOScore string bytes
  | ZOCard string
  | ZORank string bytes
  | ZORevRank string bytes
  | ZOCount string float64 float64
  | ZORange string int int
  | ZORevRange string int int
  | ZORangeByScore string float64 float64 int int
  | ZORevRangeByScore string float64 float64 int int
  | ZODelete string
  | ZOCleanupExpired
  | ZODeleteBy pattern
  | ZOFind pattern
  | ZOKeysBy pattern
  | ZOClear
  | ZOReset

datatype zset_res =
    ZErr "goerr option"
  | ZInt "goerr + int"
  | ZFloat "goerr + float64"
  | ZScored "float64 option"
  | ZRanked "int option"
  | ZMembers "goerr + ZSetMember list"
  | ZFound "goerr + (string \<rightharpoonup> ZSetMember list)"
  | ZDel int "goerr option"

text \<open>The operations of \<open>ZSetStorageInterface\<close>.\<close>

fun zset_apply ::
  "regexp_compile \<Rightarrow> 'w logger \<Rightarrow> time \<Rightarrow> bool stream \<Rightarrow> string list \<Rightarrow> zset_op \<Rightarrow> ZSetStorage \<times> 'w \<Rightarrow>
   (zset_res \<times> ZSetStorage \<times> 'w) option" where
  "zset_apply compile lg now src ks (ZOAdd k ms x) s = map_option (map_prod ZInt id) (ZAdd lg now src k ms x s)"
| "zset_apply compile lg now src ks (ZORem k ms) s = map_option (map_prod ZInt id) (ZRem lg now k ms s)"
| "zset_apply compile lg now src ks (ZOIncrBy k inc m) s = map_option (map_prod ZFloat id) (ZIncrBy lg now src k inc m s)"
| "zset_apply compile lg now src ks (ZOPopMax k n) s = map_option (map_prod ZMembers id) (ZPopMax lg now k n s)"
| "zset_apply compile lg now src ks (ZOPopMin k n) s = map_option (map_prod ZMembers id) (ZPopMin lg now k n s)"
| "zset_apply compile lg now src ks (ZOScore k m) s = map_option (map_prod ZScored id) (ZScore lg now k m s)"
| "zset_apply compile lg now src ks (ZOCard k) s = map_option (map_prod (ZInt \<circ> Inr) id) (ZCard lg now k s)"
| "zset_apply compile lg now src ks (ZORank k m) s = map_option (map_prod ZRanked id) (ZRank lg now k m s)"
| "zset_apply compile lg now src ks (ZORevRank k m) s = map_option (map_prod ZRanked id) (ZRevRank lg now k m s)"
| "zset_apply compile lg now src ks (ZOCount k mn mx) s = map_option (map_prod (ZInt \<circ> Inr) id) (ZCount lg now k mn mx s)"
| "zset_apply compile lg now src ks (ZORange k a b) s = map_option (map_prod (ZMembers \<circ> Inr) id) (ZRange lg now k a b s)"
| "zset_apply compile lg now src ks (ZORevRange k a b) s = map_option (map_prod (ZMembers \<circ> Inr) id) (ZRevRange lg now k a b s)"
| "zset_apply compile lg now src ks (ZORangeByScore k mn mx off n) s =
     map_option (map_prod (ZMembers \<circ> Inr) id) (ZRangeByScore lg now k mn mx off n s)"
| "zset_apply compile lg now src ks (ZORevRangeByScore k mx mn off n) s =
     map_option (map_prod (ZMembers \<circ> Inr) id) (ZRevRangeByScore lg now k mx mn off n s)"
| "zset_apply compile lg now src ks (ZODelete k) s = map_option (map_prod ZErr id) (zset_Delete lg k s)"
| "zset_apply compile lg now src ks ZOCleanupExpired s = map_option (Pair (ZErr None)) (zset_CleanupExpired lg now s)"
| "zset_apply compile lg now src ks (ZODeleteBy (Prefix p)) s =
     map_option (map_prod (\<lambda>(n, err). ZDel n err) id) (zset_DeleteByPrefix lg now ks p s)"
| "zset_apply compile lg now src ks (ZODeleteBy (Suffix p)) s =
     map_option (map_prod (\<lambda>(n, err). ZDel n err) id) (zset_DeleteBySuffix lg now ks p s)"
| "zset_apply compile lg now src ks (ZODeleteBy (Regex p)) s =
     map_option (map_prod (\<lambda>(n, err). ZDel n err) id) (zset_DeleteByRegex compile lg now ks p s)"
| "zset_apply compile lg now src ks (ZOFind (Prefix p)) s =
     map_option (map_prod (ZFound \<circ> Inr) id) (zset_FindByPrefix lg now ks p s)"
| "zset_apply compile lg now src ks (ZOFind (Suffix p)) s =
     map_option (map_prod (ZFound \<circ> Inr) id) (zset_FindBySuffix lg now ks p s)"
| "zset_apply compile lg now src ks (ZOFind (Regex p)) s =
     map_option (map_prod ZFound id) (zset_FindByRegex compile lg now ks p s)"
| "zset_apply compile lg now src ks (ZOKeysBy (Prefix p)) s =
     map_option (map_prod (ZInt \<circ> Inr) id) (zset_CountByPrefix lg now ks p s)"
| "zset_apply compile lg now src ks (ZOKeysBy (Suffix p)) s =
     map_option (map_prod (ZInt \<circ> Inr) id) (zset_CountBySuffix lg now ks p s)"
| "zset_apply compile lg now src ks (ZOKeysBy (Regex p)) s =
     map_option (map_prod ZInt id) (zset_CountByRegex compile lg now ks p s)"
| "zset_apply compile lg now src ks ZOClear (e, w) = Some (ZErr None, zset_Clear e, w)"
| "zset_apply compile lg now src ks ZOReset (e, w) = Some (ZErr None, zset_Reset e, w)"

subsection \<open>Ordered lists of members\<close>

type_synonym zset_map = "string \<rightharpoonup> entry list \<times> time option"

definition zmem :: "zset_map \<Rightarrow> string \<Rightarrow> entry list" where
  "zmem A k = (case A k of None \<Rightarrow> [] | Some (es, x) \<Rightarrow> es)"

definition zttl :: "zset_map \<Rightarrow> string \<Rightarrow> time option" where
  "zttl A k = (case A k of None \<Rightarrow> None | Some (es, x) \<Rightarrow> x)"

definition entry_put :: "entry \<Rightarrow> entry list \<Rightarrow> entry list" where
  "entry_put = (\<lambda>(m, s) es.
     case map_of es m of
       None \<Rightarrow> entry_insert (m, s) es
     | Some old \<Rightarrow> if feq old s then es else entry_insert (m, s) (entry_delete m es))"

definition entry_rank :: "string \<Rightarrow> entry list \<Rightarrow> nat" where
  "entry_rank m es = length (takeWhile (\<lambda>y. fst y \<noteq> m) es)"

definition slice :: "int \<Rightarrow> int \<Rightarrow> entry list \<Rightarrow> entry list" where
  "slice first final es =
     (case range_bounds (int (length es)) first final of
        None \<Rightarrow> []
      | Some (a, b) \<Rightarrow> take (nat (b - a + 1)) (drop (nat a) es))"

definition at_most :: "int \<Rightarrow> 'a list \<Rightarrow> 'a list" where
  "at_most n xs = (if 0 < n then take (nat n) xs else xs)"

definition zput :: "string \<Rightarrow> entry list \<Rightarrow> zset_map \<Rightarrow> zset_map" where
  "zput k es A = A(k := if es = [] then None else Some (es, zttl A k))"

definition zpop :: "(nat \<Rightarrow> entry list \<Rightarrow> entry list) \<Rightarrow> (nat \<Rightarrow> entry list \<Rightarrow> entry list) \<Rightarrow> string \<Rightarrow> string \<Rightarrow> int \<Rightarrow>
    zset_map \<Rightarrow> zset_res \<times> zset_map" where
  "zpop taken left oper k n A =
     (if zmem A k = [] then (ZMembers (Inl (not_found k oper)), A)
      else if n \<le> 0 then (ZMembers (Inr []), A)
      else (ZMembers (Inr (taken (nat n) (zmem A k))), zput k (left (nat n) (zmem A k)) A))"

text \<open>The specification: the answer and the next state.\<close>

fun zspec :: "regexp_compile \<Rightarrow> time \<Rightarrow> zset_op \<Rightarrow> zset_map \<Rightarrow> zset_res \<times> zset_map" where
  "zspec compile now (ZOAdd k ms x) A =
     (let x' = (if x \<noteq> None then x else zttl A k)
      in (ZInt (Inr (int (card (fst ` set ms - fst ` set (zmem A k))))),
          A(k := if expired x' now then None else Some (fold entry_put ms (zmem A k), x'))))"
| "zspec compile now (ZORem k ms) A =
     (let es = filter (\<lambda>y. fst y \<notin> set ms) (zmem A k)
      in (ZInt (Inr (int (length (zmem A k) - length es))), zput k es A))"
| "zspec compile now (ZOIncrBy k inc m) A =
     (let new = (case map_of (zmem A k) m of None \<Rightarrow> inc | Some old \<Rightarrow> fadd old inc)
      in (ZFloat (Inr new), A(k \<mapsto> (entry_insert (m, new) (entry_delete m (zmem A k)), zttl A k))))"
| "zspec compile now (ZOPopMax k n) A = zpop (\<lambda>n es. take n (rev es)) (\<lambda>n es. take (length es - n) es) ''ZPOPMAX'' k n A"
| "zspec compile now (ZOPopMin k n) A = zpop take drop ''ZPOPMIN'' k n A"
| "zspec compile now (ZOScore k m) A = (ZScored (map_of (zmem A k) m), A)"
| "zspec compile now (ZOCard k) A = (ZInt (Inr (int (length (zmem A k)))), A)"
| "zspec compile now (ZORank k m) A =
     (ZRanked (if m \<in> fst ` set (zmem A k) then Some (int (entry_rank m (zmem A k))) else None), A)"
| "zspec compile now (ZORevRank k m) A =
     (ZRanked (if m \<in> fst ` set (zmem A k) then Some (int (length (zmem A k) - 1 - entry_rank m (zmem A k))) else None), A)"
| "zspec compile now (ZOCount k mn mx) A =
     (ZInt (Inr (int (length (filter (\<lambda>y. fle mn (snd y) \<and> fle (snd y) mx) (zmem A k))))), A)"
| "zspec compile now (ZORange k a b) A = (ZMembers (Inr (slice a b (zmem A k))), A)"
| "zspec compile now (ZORevRange k a b) A = (ZMembers (Inr (slice a b (rev (zmem A k)))), A)"
| "zspec compile now (ZORangeByScore k mn mx off n) A =
     (ZMembers (Inr (at_most n (drop (nat off) (filter (\<lambda>y. \<not> fless (snd y) mn \<and> fle (snd y) mx) (zmem A k))))), A)"
| "zspec compile now (ZORevRangeByScore k mx mn off n) A =
     (ZMembers (Inr (at_most n (drop (nat off) (rev (filter (\<lambda>y. fle mn (snd y) \<and> fle (snd y) mx) (zmem A k)))))), A)"
| "zspec compile now (ZODelete k) A = (ZErr None, A(k := None))"
| "zspec compile now ZOCleanupExpired A = (ZErr None, map_keep (\<lambda>k a. \<forall>t. snd a = Some t \<longrightarrow> now < t) A)"
| "zspec compile now (ZODeleteBy p) A =
     (case matcher compile p of
        Inl err \<Rightarrow> (ZDel 0 (Some err), A)
      | Inr m \<Rightarrow> (ZDel (int (card {k \<in> dom A. m k})) None, A |` {k. \<not> m k}))"
| "zspec compile now (ZOFind p) A =
     (case matcher compile p of
        Inl err \<Rightarrow> (ZFound (Inl err), A)
      | Inr m \<Rightarrow> (ZFound (Inr (\<lambda>k. if m k then map_option fst (A k) else None)), A))"
| "zspec compile now (ZOKeysBy p) A =
     (case matcher compile p of
        Inl err \<Rightarrow> (ZInt (Inl err), A)
      | Inr m \<Rightarrow> (ZInt (Inr (int (card {k \<in> dom A. m k}))), A))"
| "zspec compile now ZOClear A = (ZErr None, Map.empty)"
| "zspec compile now ZOReset A = (ZErr None, Map.empty)"

text \<open>No operation may bring in a NaN; counts are Go \<open>int\<close>s.\<close>

fun zop_ok :: "zset_map \<Rightarrow> zset_op \<Rightarrow> bool" where
  "zop_ok A (ZOAdd k ms x) \<longleftrightarrow> (\<forall>y \<in> set ms. \<not> is_nan (snd y))"
| "zop_ok A (ZOIncrBy k inc m) \<longleftrightarrow>
     \<not> is_nan (case map_of (zmem A k) m of None \<Rightarrow> inc | Some old \<Rightarrow> fadd old inc)"
| "zop_ok A (ZOPopMax k n) \<longleftrightarrow> n < 2 ^ 63"
| "zop_ok A (ZOPopMin k n) \<longleftrightarrow> n < 2 ^ 63"
| "zop_ok A op \<longleftrightarrow> True"

subsection \<open>The abstraction\<close>

definition zset_entries :: "ZSetValue \<Rightarrow> entry list" where
  "zset_entries v = the (getZSetBytesNoLock (zsl v))"

definition zset_abs :: "time \<Rightarrow> ZSetStorage \<Rightarrow> zset_map" where
  "zset_abs now e = visible zset_expiresAt (\<lambda>v. (zset_entries v, zset_expiresAt v)) now e"

text \<open>A value is well formed when its skip list is that of the ordered entries and its map is theirs.\<close>

definition zval_ok :: "ZSetValue \<Rightarrow> bool" where
  "zval_ok v \<longleftrightarrow> (\<exists>ids. sl_rep (zsl v) ids (zset_entries v)) \<and> dict v = map_of (zset_entries v)"

definition zset_inv :: "ZSetStorage \<Rightarrow> bool" where
  "zset_inv e \<longleftrightarrow> engine_inv zset_expiresAt e \<and> (\<forall>k v. data e k = Some v \<longrightarrow> zval_ok v)"

end
