(* ===== verification/ZSetLists.thy ===== *)
theory ZSetLists
  imports ZSetSpec
begin

text \<open>
  The loops of the sorted set engine over one value: following the list is reading the ordered entries, and
  the loops that change the skip list and the map keep the two equal to one list of entries.
\<close>

subsection \<open>Following the list\<close>

definition path :: "(nat \<Rightarrow> nat option option) \<Rightarrow> nat list \<Rightarrow> bool" where
  "path step xs \<longleftrightarrow> (\<forall>i < length xs. step (xs ! i) = Some (if Suc i < length xs then Some (xs ! Suc i) else None))"

definition nth_node :: "nat list \<Rightarrow> nat \<Rightarrow> nat option" where
  "nth_node xs i = (if i < length xs then Some (xs ! i) else None)"

lemma nth_node_step: "path step xs \<Longrightarrow> i < length xs \<Longrightarrow> nth_node xs i = Some (xs ! i) \<and> step (xs ! i) = Some (nth_node xs (Suc i))"
  by (simp add: path_def nth_node_def)

lemma nth_node_end: "length xs \<le> i \<Longrightarrow> nth_node xs i = None"
  by (simp add: nth_node_def)

lemma take_nodes_path:
  assumes "path step xs" "\<forall>x \<in> set xs. x < length (nodes z)"
  shows "take_nodes step z k (nth_node xs i) = Some (take k (drop i (map (entry_of z) xs)))"
proof (induction k arbitrary: i)
  case (Suc k)
  show ?case
  proof (cases "i < length xs")
    case True
    then have d: "drop i (map (entry_of z) xs) = entry_of z (xs ! i) # drop (Suc i) (map (entry_of z) xs)"
      by (metis Cons_nth_drop_Suc length_map nth_map)
    have "node_at z (xs ! i) = Some (nodes z ! (xs ! i))" using assms(2) True by (simp add: node_at_def)
    then show ?thesis using nth_node_step [OF assms(1) True]
      by (simp add: Suc d) (simp add: entry_of_def)
  qed (simp add: nth_node_end)
qed simp

lemma skip_nodes_path: "path step xs \<Longrightarrow> skip_nodes step k (nth_node xs i) = Some (nth_node xs (i + k))"
proof (induction k arbitrary: i)
  case (Suc k)
  show ?case
  proof (cases "i < length xs")
    case True
    then show ?thesis using nth_node_step [OF Suc.prems True] Suc by simp
  qed (simp add: nth_node_end)
qed simp

lemma collect_nodes_path:
  assumes "path step xs" "\<forall>x \<in> set xs. x < length (nodes z)"
  shows "0 < count \<longrightarrow> int (length res) < count \<Longrightarrow>
    collect_nodes step z ok count res (nth_node xs i) =
      Some (res @ (if 0 < count then take (nat count - length res) else id) (takeWhile (\<lambda>y. ok (snd y)) (drop i (map (entry_of z) xs))))"
proof (induction "length xs - i" arbitrary: i res)
  case 0
  then show ?case by (subst collect_nodes.simps) (simp add: nth_node_end)
next
  case (Suc n)
  then have i: "i < length xs" by simp
  let ?y = "(ele (nodes z ! (xs ! i)), score (nodes z ! (xs ! i)))"
  have d: "drop i (map (entry_of z) xs) = ?y # drop (Suc i) (map (entry_of z) xs)"
    using i by (metis Cons_nth_drop_Suc entry_of_def length_map nth_map)
  have n: "node_at z (xs ! i) = Some (nodes z ! (xs ! i))" using assms(2) i by (simp add: node_at_def)
  have IH: "collect_nodes step z ok count (res @ [?y]) (nth_node xs (Suc i)) = Some ((res @ [?y]) @
      (if 0 < count then take (nat count - length (res @ [?y])) else id) (takeWhile (\<lambda>y. ok (snd y)) (drop (Suc i) (map (entry_of z) xs))))"
    if "0 < count \<longrightarrow> int (length (res @ [?y])) < count"
    using Suc.hyps(1) [of "Suc i" "res @ [?y]"] Suc.hyps(2) that by simp
  consider "\<not> ok (snd ?y)" | "ok (snd ?y)" "0 < count" "int (length (res @ [?y])) = count"
    | "ok (snd ?y)" "0 < count \<longrightarrow> int (length (res @ [?y])) < count"
    using Suc.prems by fastforce
  then show ?case
  proof cases
    case 1
    then show ?thesis using i by (subst collect_nodes.simps) (simp add: nth_node_step [OF assms(1) i] n d)
  next
    case 2
    then have "nat count - length res = 1" by simp
    then show ?thesis using 2 i by (subst collect_nodes.simps) (simp add: nth_node_step [OF assms(1) i] n d)
  next
    case 3
    have "take (nat count - length res) (?y # ys) = ?y # take (nat count - Suc (length res)) ys" if "0 < count" for ys
    proof -
      have "nat count - length res = Suc (nat count - Suc (length res))" using that Suc.prems by simp
      then show ?thesis by (metis take_Suc_Cons)
    qed
    then show ?thesis using 3 i IH [OF 3(2)]
      by (subst collect_nodes.simps) (auto simp: nth_node_step [OF assms(1) i] n d)
  qed
qed

lemma sl_ids: "sl_rep z ids es \<Longrightarrow> x \<in> set ids \<Longrightarrow> x < length (nodes z) \<and> x \<noteq> 0"
  using sl_repD(1) [of z ids es] by (cases x) (auto simp: shape_def nodes_ok_def)

lemma shape_next: "shape z ids \<Longrightarrow> p \<le> length ids \<Longrightarrow> next_node z (pos ids p) = Some (nth_node ids p)"
  by (simp add: next_node_def shape_level_0 nth_node_def)

lemma shape_path: "shape z ids \<Longrightarrow> path (next_node z) ids"
  unfolding path_def using shape_next [of z ids "Suc _"] by (simp add: nth_node_def)

lemma shape_bytes:
  assumes "shape z ids"
  shows "getZSetBytesNoLock z = Some (map (entry_of z) ids)"
proof -
  have "first_node z = Some (nth_node ids 0)" using shape_next [OF assms, of 0] by (simp add: first_node_def)
  moreover have "collect_nodes (next_node z) z (\<lambda>s. True) 0 [] (nth_node ids 0) = Some (map (entry_of z) ids)"
    by (subst collect_nodes_path [OF shape_path [OF assms]])
      (use assms in \<open>auto simp: takeWhile_eq_all_conv shape_def nodes_ok_def\<close>)
  ultimately show ?thesis by (simp add: getZSetBytesNoLock_def)
qed

lemmas next_node_pos = shape_next [OF sl_repD(1)]
lemmas path_next = shape_path [OF sl_repD(1)]

lemma first_node: "sl_rep z ids es \<Longrightarrow> first_node z = Some (nth_node ids 0)"
  using next_node_pos [of z ids es 0] by (simp add: first_node_def)

lemma prev_node_nth:
  assumes "sl_rep z ids es" "p < length ids"
  shows "prev_node z (ids ! p) = Some (if p = 0 then None else Some (ids ! (p - 1)))"
  using sl_node [OF assms] sl_repD(1) [OF assms(1)] assms(2) by (simp add: prev_node_def shape_def ends_ok_def)

lemma path_prev: "sl_rep z ids es \<Longrightarrow> path (prev_node z) (rev ids)"
  unfolding path_def by (auto simp: rev_nth prev_node_nth Suc_diff_Suc)

lemma tail_node: "sl_rep z ids es \<Longrightarrow> tail z = nth_node (rev ids) 0"
  using sl_repD(1) by (auto simp: shape_def ends_ok_def nth_node_def rev_nth last_conv_nth)

lemma getZSetBytes: "sl_rep z ids es \<Longrightarrow> getZSetBytesNoLock z = Some es"
  using shape_bytes [of z ids] sl_repD(1,2) by blast

subsection \<open>Lists cut by a bound\<close>

lemma takeWhile_drop_filter:
  "sorted_wrt (\<lambda>x y. R y \<longrightarrow> R x) ds \<Longrightarrow> takeWhile R (drop k ds) = drop k (filter R ds)"
proof (induction ds arbitrary: k)
  case (Cons x ds)
  have none: "filter R ds = []" if "\<not> R x" using Cons.prems that by (auto simp: filter_empty_conv)
  show ?case
  proof (cases k)
    case 0
    then show ?thesis using Cons.IH [of 0] Cons.prems none by simp
  next
    case (Suc k)
    then show ?thesis using Cons.IH [of k] Cons.prems none by (cases "R x") simp_all
  qed
qed simp

lemma filter_between:
  "sorted_wrt entry_less es \<Longrightarrow> downward P \<Longrightarrow> downward Q \<Longrightarrow>
   filter (\<lambda>y. \<not> P y \<and> Q y) es = drop (split_at P es) (take (split_at Q es) es)"
proof (induction es)
  case (Cons x es)
  have none: "filter Q es = []" if "\<not> Q x" by (rule none_after [OF Cons.prems(1,3) that])
  have none': "filter P es = []" if "\<not> P x" by (rule none_after [OF Cons.prems(1,2) that])
  have Q: "filter (\<lambda>y. \<not> P y \<and> Q y) es = []" if "\<not> Q x" using none [OF that] by (auto simp: filter_empty_conv)
  show ?case using Cons none none' Q
    by (cases "P x"; cases "Q x") (simp_all add: split_at_def)
qed simp

lemma split_filter: "sorted_entries es \<Longrightarrow> downward P \<Longrightarrow> drop (split_at P es) es = filter (\<lambda>y. \<not> P y) es"
  "sorted_entries es \<Longrightarrow> downward P \<Longrightarrow> take (split_at P es) es = filter P es"
  using take_split [of es P] by (simp_all add: sorted_entries_def)

lemma sorted_fle: "sorted_wrt entry_less es \<Longrightarrow> sorted_wrt (\<lambda>x y. fle (snd y) mx \<longrightarrow> fle (snd x) mx) es"
  by (erule sorted_wrt_mono_rel [rotated]) (use downward_fle [of mx] in \<open>unfold downward_def, blast\<close>)

lemma sorted_fle_rev:
  assumes "sorted_entries es"
  shows "sorted_wrt (\<lambda>x y. fle mn (snd y) \<longrightarrow> fle mn (snd x)) (rev es)"
proof -
  have "fle mn (snd x) \<longrightarrow> fle mn (snd y)" if "entry_less x y" for x y
    using that by (auto simp: entry_less_def fless_def feq_def fle_iff)
  then have "sorted_wrt (\<lambda>x y. fle mn (snd x) \<longrightarrow> fle mn (snd y)) es"
    using assms unfolding sorted_entries_def by (metis (mono_tags, lifting) sorted_wrt_mono_rel)
  then show ?thesis by (simp add: sorted_wrt_rev)
qed

subsection \<open>The range operations\<close>

lemma sint_of_nat [simp]: "n < 2 ^ 63 \<Longrightarrow> sint (of_nat n :: 64 word) = int n"
  by (simp add: signed_of_nat signed_take_bit_int_eq_self)

lemma range_bounds_Some:
  assumes "range_bounds (int len) first final = Some (a, b)"
  shows "0 \<le> a" "a \<le> b" "b < int len"
  using assms by (auto simp: range_bounds_def Let_def split: if_splits)

lemma take_slice: "range_bounds (int (length es)) first final = Some (a, b) \<Longrightarrow>
    slice first final es = take (nat (b - a + 1)) (drop (nat a) es)"
  by (simp add: slice_def)

lemma sl_range_next:
  assumes r: "sl_rep z ids es" and small: "length es < 2 ^ 63"
  shows "zset_range (\<lambda>len start. start + 1) next_node first final z = Some (slice first final es)"
proof (cases "range_bounds (int (length es)) first final")
  case None
  then show ?thesis using small by (simp add: zset_range_def sl_length [OF r] slice_def)
next
  case (Some p)
  obtain a b where ab: "range_bounds (int (length es)) first final = Some (a, b)" using Some by (cases p) auto
  note b = range_bounds_Some [OF ab]
  have len: "length ids = length es" by (rule sl_repD(4) [OF r])
  have w: "(word_of_int (a + 1) :: 64 word) = of_nat (Suc (nat a))" using b(1) by simp
  have "getElementByRank (word_of_int (a + 1)) z = Some (nth_node ids (nat a))"
    unfolding w using sl_getElementByRank [OF r, of "Suc (nat a)"] b small len by (simp add: nth_node_def)
  then show ?thesis
    using take_nodes_path [OF path_next [OF r]] sl_ids [OF r] small
    by (simp add: zset_range_def sl_length [OF r] ab take_slice sl_repD(2) [OF r, symmetric])
qed

lemma sl_range_prev:
  assumes r: "sl_rep z ids es" and small: "length es < 2 ^ 63"
  shows "zset_range (\<lambda>len start. len - start) prev_node first final z = Some (slice first final (rev es))"
proof (cases "range_bounds (int (length es)) first final")
  case None
  then show ?thesis using small by (simp add: zset_range_def sl_length [OF r] slice_def)
next
  case (Some p)
  obtain a b where ab: "range_bounds (int (length es)) first final = Some (a, b)" using Some by (cases p) auto
  note b = range_bounds_Some [OF ab]
  have len: "length ids = length es" by (rule sl_repD(4) [OF r])
  have w: "(word_of_int (int (length es) - a) :: 64 word) = of_nat (length es - nat a)"
    using b by (simp add: of_nat_diff nat_le_iff)
  have "getElementByRank (word_of_int (int (length es) - a)) z = Some (nth_node (rev ids) (nat a))"
    unfolding w using sl_getElementByRank [OF r, of "length es - nat a"] b small len
    by (simp add: nth_node_def rev_nth)
  moreover have "rev es = map (entry_of z) (rev ids)" by (simp add: rev_map [symmetric] sl_repD(2) [OF r, symmetric])
  ultimately show ?thesis
    using take_nodes_path [OF path_prev [OF r]] sl_ids [OF r] small take_slice [of "rev es" first final a b]
    by (simp add: zset_range_def sl_length [OF r] ab len)
qed

lemma sl_range_by_score:
  assumes r: "sl_rep z ids es"
  shows "range_by_score mn mx off count z =
    Some (at_most count (drop (nat off) (filter (\<lambda>y. \<not> fless (snd y) mn \<and> fle (snd y) mx) es)))"
proof -
  define m where "m = split_at (\<lambda>y. fless (snd y) mn) es"
  define us where "us = map (\<lambda>i. pos ids (stop (heights z ids) i m)) [0..<zsl_level z]"
  define rs where "rs = (map (\<lambda>i. of_nat (stop (heights z ids) i m)) [0..<zsl_level z] :: 64 word list)"
  have b: "\<And>n. fless (score n) mn \<longleftrightarrow> fless (snd (ele n, score n)) mn" by simp
  note sr = sl_search [OF r downward_fless [of mn] b, folded m_def, folded us_def rs_def]
  note so = sl_repD(3) [OF r]
  have w: "sorted_wrt entry_less es" using so by (simp add: sorted_entries_def)
  define ds where "ds = drop m es"
  have ds: "ds = filter (\<lambda>y. \<not> fless (snd y) mn) es" unfolding ds_def m_def by (rule split_filter(1) [OF so downward_fless])
  have sds: "sorted_wrt (\<lambda>x y. fle (snd y) mx \<longrightarrow> fle (snd x) mx) ds" unfolding ds_def by (rule sorted_fle [OF sorted_wrt_drop [OF w]])
  have res: "filter (\<lambda>y. \<not> fless (snd y) mn \<and> fle (snd y) mx) es = filter (\<lambda>y. fle (snd y) mx) ds" by (simp add: ds conj_commute)
  have nx: "next_node z (us ! 0) = Some (nth_node ids m)" using next_node_pos [OF r sr(4)] sr(2) by simp
  have dm: "drop m (map (entry_of z) ids) = ds" using sl_repD(2) [OF r] by (simp add: ds_def)
  show ?thesis
  proof (cases "m < length ids")
    case False
    then have "ds = []" using sl_repD(4) [OF r] by (simp add: ds_def)
    then show ?thesis using False by (simp add: range_by_score_def sr(1) nx nth_node_end res at_most_def)
  next
    case True
    have y: "score (nodes z ! (ids ! m)) = snd (hd ds)" "ds \<noteq> []"
      using True sl_nth [OF r, of m] sl_repD(4) [OF r] by (auto simp: ds_def hd_drop_conv_nth entry_of_def dest: arg_cong [where f = snd])
    have sk: "skip_nodes (next_node z) (nat off) (Some (ids ! m)) = Some (nth_node ids (m + nat off))"
      using skip_nodes_path [OF path_next [OF r], of "nat off" m] True by (simp add: nth_node_def)
    have col: "collect_nodes (next_node z) z (\<lambda>s. fle s mx) count [] (nth_node ids (m + nat off)) =
        Some (at_most count (drop (nat off) (filter (\<lambda>y. fle (snd y) mx) ds)))"
      using collect_nodes_path [OF path_next [OF r], where z = z and count = count and res = "[]"] sl_ids [OF r]
        takeWhile_drop_filter [OF sds, of "nat off"] dm
      by (simp add: at_most_def drop_drop [symmetric] add.commute [of m])
    show ?thesis
    proof (cases "fless mx (snd (hd ds))")
      case True
      then have "\<not> fle (snd (hd ds)) mx" by (simp add: fle_def fless_def feq_def)
      then have "filter (\<lambda>y. fle (snd y) mx) ds = []" using sds y(2) by (cases ds) (auto simp: filter_empty_conv)
      then show ?thesis using True \<open>m < length ids\<close>
        by (simp add: range_by_score_def sr(1) nx nth_node_def sl_node [OF r] y(1) res at_most_def)
    next
      case False
      then show ?thesis using True
        by (simp add: range_by_score_def sr(1) nx nth_node_def sl_node [OF r] y(1) res sk [unfolded nth_node_def] col [unfolded nth_node_def])
    qed
  qed
qed

lemma above_header_prev: "sl_rep z ids es \<Longrightarrow> path (\<lambda>x. map_option above_header (prev_node z x)) (rev ids)"
proof -
  assume r: "sl_rep z ids es"
  have "rev ids ! i \<noteq> 0" if "i < length ids" for i
    using sl_ids [OF r, of "rev ids ! i"] that nth_mem [of i "rev ids"] by simp
  then show ?thesis using path_prev [OF r] by (auto simp: path_def above_header_def simp del: neq0_conv)
qed

lemma sl_rev_range_by_score:
  assumes r: "sl_rep z ids es"
  shows "rev_range_by_score mx mn off count z =
    Some (at_most count (drop (nat off) (rev (filter (\<lambda>y. fle mn (snd y) \<and> fle (snd y) mx) es))))"
proof -
  define m where "m = split_at (\<lambda>y. fle (snd y) mx) es"
  define us where "us = map (\<lambda>i. pos ids (stop (heights z ids) i m)) [0..<zsl_level z]"
  define rs where "rs = (map (\<lambda>i. of_nat (stop (heights z ids) i m)) [0..<zsl_level z] :: 64 word list)"
  have b: "\<And>n. fle (score n) mx \<longleftrightarrow> fle (snd (ele n, score n)) mx" by simp
  note sr = sl_search [OF r downward_fle [of mx] b, folded m_def, folded us_def rs_def]
  note so = sl_repD(3) [OF r]
  let ?step = "\<lambda>x. map_option above_header (prev_node z x)"
  define ds where "ds = rev (take m es)"
  have ds: "ds = rev (filter (\<lambda>y. fle (snd y) mx) es)" unfolding ds_def m_def by (simp add: split_filter(2) [OF so downward_fle])
  have dd: "ds = drop (length ids - m) (rev es)" using sr(4) sl_repD(4) [OF r] by (simp add: ds_def drop_rev)
  have sds: "sorted_wrt (\<lambda>x y. fle mn (snd y) \<longrightarrow> fle mn (snd x)) ds"
    unfolding dd by (rule sorted_wrt_drop [OF sorted_fle_rev [OF so]])
  have res: "rev (filter (\<lambda>y. fle mn (snd y) \<and> fle (snd y) mx) es) = filter (\<lambda>y. fle mn (snd y)) ds"
    by (simp add: ds rev_filter conj_commute)
  have rm: "rev es = map (entry_of z) (rev ids)" by (simp add: rev_map [symmetric] sl_repD(2) [OF r, symmetric])
  have ok: "nodes_ok z ids" using sl_repD(1) [OF r] by (simp add: shape_def)
  show ?thesis
  proof (cases m)
    case 0
    then have "us ! 0 = 0" "ds = []" using sr(2) by (simp_all add: ds_def)
    then show ?thesis by (simp add: rev_range_by_score_def sr(1) res at_most_def)
  next
    case (Suc p)
    then have x: "us ! 0 = ids ! p" "p < length ids" using sr(2,4) by simp_all
    have nz: "ids ! p \<noteq> 0" using sl_ids [OF r, of "ids ! p"] x by simp
    have st: "nth_node (rev ids) (length ids - m) = Some (ids ! p)" using x(2) Suc by (simp add: nth_node_def rev_nth)
    have y: "score (nodes z ! (ids ! p)) = snd (hd ds)" "ds \<noteq> []"
      using x(2) Suc sl_nth [OF r, of p] sl_repD(4) [OF r]
      by (auto simp: ds_def take_Suc_conv_app_nth entry_of_def dest: arg_cong [where f = snd])
    have sk: "skip_nodes ?step (nat off) (Some (ids ! p)) = Some (nth_node (rev ids) (length ids - m + nat off))"
      using skip_nodes_path [OF above_header_prev [OF r], of "nat off" "length ids - m"] by (simp add: st)
    have col: "collect_nodes ?step z (\<lambda>s. fle mn s) count [] (nth_node (rev ids) (length ids - m + nat off)) =
        Some (at_most count (drop (nat off) (filter (\<lambda>y. fle mn (snd y)) ds)))"
    proof -
      have "drop (length ids - m + nat off) (map (entry_of z) (rev ids)) = drop (nat off) ds"
        by (simp only: dd rm drop_drop add.commute)
      then show ?thesis
        using collect_nodes_path [OF above_header_prev [OF r], where z = z and count = count and res = "[]"] sl_ids [OF r]
          takeWhile_drop_filter [OF sds, of "nat off"]
        by (simp add: at_most_def)
    qed
    show ?thesis
    proof (cases "fless (snd (hd ds)) mn")
      case True
      then have "\<not> fle mn (snd (hd ds))" by (simp add: fle_def fless_def feq_def)
      then have "filter (\<lambda>y. fle mn (snd y)) ds = []" using sds y(2) by (cases ds) (auto simp: filter_empty_conv)
      then show ?thesis using True
        by (simp add: rev_range_by_score_def sr(1) x nz sl_node [OF r x(2)] y(1) res at_most_def)
    next
      case False
      then show ?thesis
        by (simp add: rev_range_by_score_def sr(1) x nz sl_node [OF r x(2)] y(1) res sk col)
    qed
  qed
qed

end
