(* ===== verification/ZSetLoops.thy ===== *)
theory ZSetLoops
  imports ZSetLists
begin

text \<open>
  Ranks and counts of one value, and the loops that change its skip list and its map together.
\<close>

lemma sl_count:
  fixes mn mx :: float64
  assumes r: "sl_rep z ids es" and small: "length es < 2 ^ 63"
  defines "n \<equiv> length (filter (\<lambda>y. fle mn (snd y) \<and> fle (snd y) mx) es)"
  shows "\<exists>a b. firstInRangeRank mn z = Some a \<and> lastInRangeRank mx z = Some b \<and>
    (if a = 0 \<or> b = 0 \<or> b < a then n = 0 else sint (b - a + 1) = int n)"
proof -
  define p where "p = split_at (\<lambda>y. fless (snd y) mn) es"
  define q where "q = split_at (\<lambda>y. fle (snd y) mx) es"
  note so = sl_repD(3) [OF r]
  have w: "sorted_wrt entry_less es" and nn: "\<forall>y \<in> set es. \<not> is_nan (snd y)" using so by (simp_all add: sorted_entries_def)
  have le: "p \<le> length es" "q \<le> length es" unfolding p_def q_def by (rule split_le)+
  have last: "lastInRangeRank mx z = Some (of_nat q)" unfolding q_def by (rule sl_lastInRangeRank [OF r])
  have first: "firstInRangeRank mn z = Some (if p < length es \<and> fle mn (snd (es ! p)) then of_nat (Suc p) else 0)"
    unfolding p_def using sl_firstInRangeRank [OF r, of mn] by simp
  show ?thesis
  proof (cases "p < length es \<and> fle mn (snd (es ! p))")
    case False
    have "\<not> fle mn (snd y)" if yin: "y \<in> set es" for y
    proof
      assume "fle mn (snd y)"
      then have "\<not> is_nan mn" "\<not> fless (snd y) mn" by (auto simp: fle_iff fless_def)
      moreover obtain i where i: "i < length es" "y = es ! i" using yin by (auto simp: in_set_conv_nth)
      ultimately have "p \<le> i" using split_at_nth [OF w downward_fless i(1), of mn] by (simp add: p_def)
      then have "p < length es" using i by simp
      moreover have "fle mn (snd (es ! p))"
        using \<open>\<not> is_nan mn\<close> nn split_at_nth [OF w downward_fless \<open>p < length es\<close>, of mn] \<open>p < length es\<close>
        by (simp add: p_def fle_iff fless_def not_less)
      ultimately show False using False by simp
    qed
    then have "n = 0" by (simp add: n_def filter_empty_conv)
    moreover have "firstInRangeRank mn z = Some 0" unfolding first using False by auto
    ultimately show ?thesis using last by simp
  next
    case True
    then have "\<not> is_nan mn" by (simp add: fle_iff)
    then have "filter (\<lambda>y. fle mn (snd y) \<and> fle (snd y) mx) es = filter (\<lambda>y. \<not> fless (snd y) mn \<and> fle (snd y) mx) es"
      using nn by (intro filter_cong) (auto simp: fle_iff fless_def)
    then have n: "n = q - p" using le
      unfolding n_def filter_between [OF w downward_fless downward_fle] p_def [symmetric] q_def [symmetric] by simp
    have a: "(of_nat (Suc p) :: 64 word) \<noteq> 0" using True small of_nat_eq_word [of "Suc p" 0] by simp
    have b: "(of_nat q :: 64 word) = 0 \<longleftrightarrow> q = 0" using le small of_nat_eq_word [of q 0] by simp
    have c: "(of_nat q :: 64 word) < of_nat (Suc p) \<longleftrightarrow> q < Suc p"
      using of_nat_le_word [of "Suc p" q] True le small by (simp add: not_le [symmetric])
    have d: "of_nat q - of_nat (Suc p) + 1 = (of_nat (q - p) :: 64 word)" if "p < q"
      using that by (simp add: of_nat_diff)
    show ?thesis
    proof (cases "p < q")
      case False
      then show ?thesis using first last True b c n by auto
    next
      case pq: True
      have "sint (of_nat q - of_nat (Suc p) + 1 :: 64 word) = int n"
        unfolding d [OF pq] n by (rule sint_of_nat) (use le small in simp)
      then show ?thesis using first last True a b c pq by auto
    qed
  qed
qed

lemma entry_rank_nth:
  assumes "sorted_entries es" "q < length es" "fst (es ! q) = m"
  shows "entry_rank m es = q"
  unfolding entry_rank_def
proof (rule le_antisym)
  show "length (takeWhile (\<lambda>y. fst y \<noteq> m) es) \<le> q"
  proof (rule ccontr)
    assume "\<not> length (takeWhile (\<lambda>y. fst y \<noteq> m) es) \<le> q"
    then have "takeWhile (\<lambda>y. fst y \<noteq> m) es ! q \<in> set (takeWhile (\<lambda>y. fst y \<noteq> m) es)" "takeWhile (\<lambda>y. fst y \<noteq> m) es ! q = es ! q"
      using nth_mem [of q "takeWhile (\<lambda>y. fst y \<noteq> m) es"] by (simp_all add: takeWhile_nth)
    then show False using assms(3) set_takeWhileD [of "es ! q" "\<lambda>y. fst y \<noteq> m" es] by simp
  qed
  show "q \<le> length (takeWhile (\<lambda>y. fst y \<noteq> m) es)"
  proof (rule ccontr)
    assume n: "\<not> q \<le> length (takeWhile (\<lambda>y. fst y \<noteq> m) es)"
    then have "fst (es ! length (takeWhile (\<lambda>y. fst y \<noteq> m) es)) = m"
      using nth_length_takeWhile [of "\<lambda>y. fst y \<noteq> m" es] assms(2) by simp
    then show False using entry_less_nth(2) [OF assms(1), of "length (takeWhile (\<lambda>y. fst y \<noteq> m) es)" q] n assms(2,3) by simp
  qed
qed

lemma entry_lookup:
  assumes "sorted_entries es"
  shows "map_of es m = Some s \<longleftrightarrow> (m, s) \<in> set es" "map_of es m = None \<longleftrightarrow> m \<notin> fst ` set es"
  using assms by (simp_all add: sorted_entries_def map_of_eq_None_iff)

lemma feq_refl: "\<not> is_nan s \<Longrightarrow> feq s s"
  by (simp add: feq_def)

lemma sl_rank:
  assumes r: "sl_rep z ids es" and m: "map_of es m = Some s"
  shows "getRank s m z = Some (of_nat (Suc (entry_rank m es)))" "entry_rank m es < length es"
proof -
  note so = sl_repD(3) [OF r]
  have ms: "(m, s) \<in> set es" using m entry_lookup(1) [OF so] by simp
  then obtain q where q: "q < length es" "es ! q = (m, s)" by (auto simp: in_set_conv_nth)
  have "\<not> is_nan s" using so ms by (auto simp: sorted_entries_def)
  then have "getRank s m z = Some (of_nat (Suc q))" using sl_getRank [OF r q(1)] q(2) by (simp add: feq_refl)
  moreover have "entry_rank m es = q" using entry_rank_nth [OF so q(1)] q(2) by simp
  ultimately show "getRank s m z = Some (of_nat (Suc (entry_rank m es)))" "entry_rank m es < length es" using q by simp_all
qed

subsection \<open>The map and the skip list\<close>

definition zpair :: "(string \<rightharpoonup> float64) \<Rightarrow> zskiplist \<Rightarrow> entry list \<Rightarrow> bool" where
  "zpair d z es \<longleftrightarrow> (\<exists>ids. sl_rep z ids es) \<and> d = map_of es"

lemma zpair_sorted: "zpair d z es \<Longrightarrow> sorted_entries es"
  using sl_repD(3) by (auto simp: zpair_def)

lemma zpair_new: "zpair Map.empty (newZskiplist src) []"
proof -
  have "sl_rep (newZskiplist src) [] []"
    by (auto simp: sl_rep_def sorted_entries_def shape_def nodes_ok_def links_ok_def ends_ok_def newZskiplist_def newZskiplistNode_def
        height_def lev_def link_spec_def zskiplistMaxLevel_def Let_def)
  then show ?thesis by (auto simp: zpair_def)
qed

lemma zpair_insert:
  assumes "zpair d z es" "\<not> is_nan s" "d m = None"
  shows "ends (zsl_insert s m z) (\<lambda>z'. zpair (d(m \<mapsto> s)) z' (entry_insert (m, s) es))"
proof -
  obtain ids where r: "sl_rep z ids es" and d: "d = map_of es" using assms(1) by (auto simp: zpair_def)
  have m: "m \<notin> fst ` set es" using assms(3) entry_lookup(2) [OF sl_repD(3) [OF r]] by (simp add: d)
  have so: "sorted_entries (entry_insert (m, s) es)" using sorted_entry_insert [OF sl_repD(3) [OF r], of "(m, s)"] assms(2) m by simp
  have "map_of (entry_insert (m, s) es) = map_of ((m, s) # es)"
    by (rule map_of_inject_set [THEN iffD2]) (use so sl_repD(3) [OF r] m in \<open>simp_all add: sorted_entries_def\<close>)
  then show ?thesis
    by (intro ends_mono [OF sl_insert [OF r assms(2) m]]) (simp add: zpair_def d)
qed

lemma map_of_delete: "map_of (entry_delete m es) = (map_of es)(m := None)"
  by (induction es) (auto simp: entry_delete_def fun_eq_iff)

lemma zpair_delete:
  assumes "zpair d z es" "d m = Some old"
  shows "ends (zsl_delete old m z) (\<lambda>(b, z'). b \<and> zpair (d(m := None)) z' (entry_delete m es))"
proof -
  obtain ids where r: "sl_rep z ids es" and d: "d = map_of es" using assms(1) by (auto simp: zpair_def)
  have "(m, old) \<in> set es" using assms(2) entry_lookup(1) [OF sl_repD(3) [OF r]] by (simp add: d)
  then have "holds_entry m old es"
    using sl_repD(3) [OF r] by (auto simp: holds_entry_def sorted_entries_def intro!: exI [of _ old] feq_refl)
  then show ?thesis
    by (intro ends_mono [OF sl_delete [OF r, of old m]]) (auto simp: zpair_def d map_of_delete)
qed

lemma zpair_replace:
  assumes "zpair d z es" "\<not> is_nan s" "d m = Some old"
  shows "ends (zsl_delete old m z) (\<lambda>(b, z1). ends (zsl_insert s m z1) (\<lambda>z'. zpair (d(m \<mapsto> s)) z' (entry_insert (m, s) (entry_delete m es))))"
proof (rule ends_mono [OF zpair_delete [OF assms(1,3)]])
  fix p assume "case p of (b, z') \<Rightarrow> b \<and> zpair (d(m := None)) z' (entry_delete m es)"
  then show "case p of (b, z1) \<Rightarrow> ends (zsl_insert s m z1) (\<lambda>z'. zpair (d(m \<mapsto> s)) z' (entry_insert (m, s) (entry_delete m es)))"
    using zpair_insert [OF _ assms(2), of "d(m := None)" "snd p" "entry_delete m es" m] by (cases p) simp
qed

lemma dom_put: "fst ` set (entry_put (m, s) es) = insert m (fst ` set es)"
proof (cases "map_of es m")
  case (Some old)
  then have "m \<in> fst ` set es" by (metis map_of_eq_None_iff option.distinct(1))
  then show ?thesis using Some by (auto simp: entry_put_def entry_delete_def image_iff)
qed (auto simp: entry_put_def)

lemma zadd_loop_ends:
  "zpair d z es \<Longrightarrow> \<forall>y \<in> set ms. \<not> is_nan (snd y) \<Longrightarrow>
   ends (zadd_loop ms d z n) (\<lambda>(d', z', n'). zpair d' z' (fold entry_put ms es) \<and> n' = n + int (card (fst ` set ms - fst ` set es)))"
proof (induction ms d z n arbitrary: es rule: zadd_loop.induct)
  case (2 m s ms d z n)
  have s: "\<not> is_nan s" and ms: "\<forall>y \<in> set ms. \<not> is_nan (snd y)" using 2(5) by auto
  have d: "d = map_of es" using 2(4) by (simp add: zpair_def)
  have next_set: "fst ` set (entry_put (m, s) es) = insert m (fst ` set es)" by (rule dom_put)
  show ?case
  proof (cases "d m")
    case None
    have new: "m \<notin> fst ` set es" using None entry_lookup(2) [OF zpair_sorted [OF 2(4)]] by (simp add: d)
    have put: "entry_put (m, s) es = entry_insert (m, s) es" using None by (simp add: entry_put_def d)
    have "insert m (fst ` set ms) - fst ` set es = insert m (fst ` set ms - insert m (fst ` set es))" using new by auto
    then have c: "card (insert m (fst ` set ms) - fst ` set es) = Suc (card (fst ` set ms - insert m (fst ` set es)))" by simp
    have "ends (zadd_loop ms (d(m \<mapsto> s)) z1 (n + 1)) (\<lambda>(d', z', n'). zpair d' z' (fold entry_put ms (entry_insert (m, s) es)) \<and>
        n' = n + 1 + int (card (fst ` set ms - insert m (fst ` set es))))"
      if "zsl_insert s m z = Some z1" "zpair (d(m \<mapsto> s)) z1 (entry_insert (m, s) es)" for z1
      using 2(1) [OF None that ms] next_set put by (simp del: fun_upd_apply)
    then show ?thesis using zpair_insert [OF 2(4) s None] None c put
      by (auto elim!: ends_mono)
  next
    case (Some old)
    have old: "m \<in> fst ` set es" using Some entry_lookup(2) [OF zpair_sorted [OF 2(4)], of m] by (auto simp: d)
    have c: "insert m (fst ` set ms) - fst ` set es = fst ` set ms - insert m (fst ` set es)" using old by auto
    show ?thesis
    proof (cases "feq old s")
      case True
      have "entry_put (m, s) es = es" using Some True by (simp add: entry_put_def d)
      then show ?thesis using 2(3) [OF Some _ 2(4) ms] Some True old by (simp add: insert_absorb c)
    next
      case False
      have put: "entry_put (m, s) es = entry_insert (m, s) (entry_delete m es)" using Some False by (simp add: entry_put_def d)
      have rest: "ends (zadd_loop ms (d(m \<mapsto> s)) z2 n) (\<lambda>(d', z', n'). zpair d' z' (fold entry_put ms (entry_put (m, s) es)) \<and>
          n' = n + int (card (fst ` set ms - insert m (fst ` set es))))"
        if "zsl_delete old m z = Some (b, z1)" "zsl_insert s m z1 = Some z2" "zpair (d(m \<mapsto> s)) z2 (entry_put (m, s) es)" for b z1 z2
        using 2(2) [OF Some _ that(1) refl that(2,3) ms] False next_set by (simp del: fun_upd_apply)
      show ?thesis using zpair_replace [OF 2(4) s Some] rest Some False c unfolding put [symmetric]
        by (auto simp: ends_iff)
    qed
  qed
qed (simp add: zpair_def)

definition entry_remove :: "string set \<Rightarrow> entry list \<Rightarrow> entry list" where
  "entry_remove M es = filter (\<lambda>y. fst y \<notin> M) es"

lemma entry_remove_simps:
  "entry_remove M (entry_delete m es) = entry_remove (insert m M) es" "entry_remove {} es = es"
  by (simp_all add: entry_remove_def entry_delete_def conj_commute)

lemma entry_delete_absent: "m \<notin> fst ` set es \<Longrightarrow> entry_remove (insert m M) es = entry_remove M es"
  unfolding entry_remove_def by (rule filter_cong) auto

lemma length_entry_delete:
  assumes "sorted_entries es" "m \<in> fst ` set es"
  shows "length es = Suc (length (entry_delete m es))"
proof -
  obtain q where q: "q < length es" "fst (es ! q) = m" using assms(2) by (auto simp: in_set_conv_nth)
  then show ?thesis using entry_delete_nth [of es q m] assms(1) by (simp add: sorted_entries_def)
qed

lemma zrem_loop_ends:
  "zpair d z es \<Longrightarrow> ends (zrem_loop ms d z n) (\<lambda>(d', z', n').
     zpair d' z' (entry_remove (set ms) es) \<and> n' = n + int (length es - length (entry_remove (set ms) es)))"
proof (induction ms d z n arbitrary: es rule: zrem_loop.induct)
  case (2 m ms d z n)
  have so: "sorted_entries es" by (rule zpair_sorted [OF 2(3)])
  have d: "d = map_of es" using 2(3) by (simp add: zpair_def)
  show ?case
  proof (cases "d m")
    case None
    then have "m \<notin> fst ` set es" using entry_lookup(2) [OF so] by (simp add: d)
    then show ?thesis using 2(1) [OF None 2(3)] None entry_delete_absent [of m es "set ms"] by simp
  next
    case (Some old)
    then have m: "m \<in> fst ` set es" using entry_lookup(2) [OF so, of m] by (auto simp: d)
    have le: "length (entry_remove (insert m (set ms)) es) \<le> length (entry_delete m es)"
      unfolding entry_remove_simps(1) [symmetric] by (simp add: entry_remove_def)
    have rest: "ends (zrem_loop ms (d(m := None)) z1 (n + 1)) (\<lambda>(d', z', n').
        zpair d' z' (entry_remove (insert m (set ms)) es) \<and> n' = n + int (length es - length (entry_remove (insert m (set ms)) es)))"
      if "zsl_delete old m z = Some (b, z1)" "zpair (d(m := None)) z1 (entry_delete m es)" for b z1
      using 2(2) [OF Some that(1) refl that(2)] length_entry_delete [OF so m] le
      by (simp add: entry_remove_simps(1) Suc_diff_le algebra_simps del: fun_upd_apply)
    show ?thesis using zpair_delete [OF 2(3) Some] rest Some by (auto simp: ends_iff)
  qed
qed (simp add: entry_remove_simps)

lemma zpop_loop_ends:
  "zpair d z es \<Longrightarrow> distinct (map fst ps) \<Longrightarrow> set ps \<subseteq> set es \<Longrightarrow>
   ends (zpop_loop ps d z) (\<lambda>(d', z'). zpair d' z' (entry_remove (fst ` set ps) es))"
proof (induction ps d z arbitrary: es rule: zpop_loop.induct)
  case (2 m s ps d z)
  have so: "sorted_entries es" by (rule zpair_sorted [OF 2(2)])
  have "map_of es m = Some s" using entry_lookup(1) [OF so] 2(4) by simp
  then have m: "d m = Some s" using 2(2) by (simp add: zpair_def)
  have sub: "set ps \<subseteq> set (entry_delete m es)" using 2(3,4) by (force simp: entry_delete_def)
  have rest: "ends (zpop_loop ps (d(m := None)) z1) (\<lambda>(d', z'). zpair d' z' (entry_remove (insert m (fst ` set ps)) es))"
    if "zsl_delete s m z = Some (b, z1)" "zpair (d(m := None)) z1 (entry_delete m es)" for b z1
    using 2(1) [OF that(1) refl that(2) _ sub] 2(3) by (simp add: entry_remove_simps(1) del: fun_upd_apply)
  show ?case using zpair_delete [OF 2(2) m] rest by (auto simp: ends_iff)
qed (simp add: entry_remove_simps)

lemma entry_remove_prefix:
  assumes "distinct (map fst (xs @ ys))"
  shows "entry_remove (fst ` set xs) (xs @ ys) = ys" "entry_remove (fst ` set ys) (xs @ ys) = xs"
proof -
  have "filter (\<lambda>y. fst y \<notin> fst ` set xs) ys = ys" "filter (\<lambda>y. fst y \<notin> fst ` set ys) xs = xs"
    using assms by (auto simp: filter_id_conv)
  then show "entry_remove (fst ` set xs) (xs @ ys) = ys" "entry_remove (fst ` set ys) (xs @ ys) = xs"
    by (simp_all add: entry_remove_def filter_empty_conv)
qed

lemma entry_remove_take:
  assumes "sorted_entries es"
  shows "entry_remove (fst ` set (take n es)) es = drop n es"
    "entry_remove (fst ` set (take n (rev es))) es = take (length es - n) es"
proof -
  have d: "distinct (map fst (take k es @ drop k es))" for k using assms by (simp add: sorted_entries_def)
  show "entry_remove (fst ` set (take n es)) es = drop n es" using entry_remove_prefix(1) [OF d [of n]] by simp
  have "take n (rev es) = rev (drop (length es - n) es)" by (simp add: take_rev)
  then show "entry_remove (fst ` set (take n (rev es))) es = take (length es - n) es"
    using entry_remove_prefix(2) [OF d [of "length es - n"]] by simp
qed

lemma zpair_empty: "zpair d z es \<Longrightarrow> d = Map.empty \<longleftrightarrow> es = []"
  by (auto simp: zpair_def)

end
