(* ===== verification/ZSetRefine.thy ===== *)
theory ZSetRefine
  imports ZSetLoops
begin

text \<open>
  Every operation of the sorted set engine returns, keeps the invariant and computes the answer and the view
  of its specification.
\<close>

lemma zset_inv_engine: "zset_inv e \<Longrightarrow> engine_inv zset_expiresAt e"
  by (simp add: zset_inv_def)

lemma zset_inv_val: "zset_inv e \<Longrightarrow> data e k = Some v \<Longrightarrow> zval_ok v"
  by (simp add: zset_inv_def)

lemma zset_inv_new [simp]: "zset_inv new_engine"
  by (simp add: zset_inv_def)

lemma zval_pair: "zval_ok v \<longleftrightarrow> zpair (dict v) (zsl v) (zset_entries v)"
  by (auto simp: zval_ok_def zpair_def)

lemma zpair_val: "zpair d z es \<Longrightarrow> zval_ok (v\<lparr>dict := d, zsl := z\<rparr>) \<and> zset_entries (v\<lparr>dict := d, zsl := z\<rparr>) = es"
  using getZSetBytes by (auto simp: zval_pair zset_entries_def zpair_def)

lemma zset_inv_le: "engine_inv zset_expiresAt e' \<Longrightarrow> data e' \<subseteq>\<^sub>m data e \<Longrightarrow> zset_inv e \<Longrightarrow> zset_inv e'"
  unfolding zset_inv_def map_le_def by (metis domI)

lemma evicted_zset_inv: "evicted zset_expiresAt now e e' \<Longrightarrow> zset_inv e \<Longrightarrow> zset_inv e'"
  unfolding evicted_def using zset_inv_le by blast

lemma evicted_zset_abs: "evicted zset_expiresAt now e e' \<Longrightarrow> zset_abs now e' = zset_abs now e"
  by (simp add: zset_abs_def evicted_visible)

lemma zset_abs_put:
  "data e' = (data e)(k \<mapsto> v) \<Longrightarrow> zset_abs now e' =
   (zset_abs now e)(k := if expired (zset_expiresAt v) now then None else Some (zset_entries v, zset_expiresAt v))"
  unfolding zset_abs_def by (rule visible_put)

lemma zset_abs_delete: "data e' = (data e)(k := None) \<Longrightarrow> zset_abs now e' = (zset_abs now e)(k := None)"
  unfolding zset_abs_def by (rule visible_delete)

lemma live_zset_abs:
  "live_at zset_expiresAt now k e \<Longrightarrow> zset_abs now e k = map_option (\<lambda>v. (zset_entries v, zset_expiresAt v)) (data e k)"
  unfolding zset_abs_def by (rule live_visible)

lemma live_zmem:
  "live_at zset_expiresAt now k e \<Longrightarrow> zmem (zset_abs now e) k = (case data e k of None \<Rightarrow> [] | Some v \<Rightarrow> zset_entries v)"
  "live_at zset_expiresAt now k e \<Longrightarrow> zttl (zset_abs now e) k = Option.bind (data e k) zset_expiresAt"
  by (simp_all add: live_zset_abs zmem_def zttl_def split: option.splits)

lemma zset_evict_ok:
  assumes "zset_inv e"
  obtains e1 w1 where "zset_evict lg now k (e, w) = Some (e1, w1)" "evicted zset_expiresAt now e e1"
    "zset_inv e1" "zset_abs now e1 = zset_abs now e" "live_at zset_expiresAt now k e1"
  using evict_ok [OF zset_inv_engine [OF assms]] evicted_zset_inv [OF _ assms] evicted_zset_abs by metis

lemma zset_delete_ok:
  assumes "zset_inv e"
  obtains e' where "deleteNoLock k e = Some e'" "zset_inv e'" "data e' = (data e)(k := None)"
    "zset_abs now e' = (zset_abs now e)(k := None)"
proof -
  obtain e' where e': "deleteNoLock k e = Some e'" "engine_inv zset_expiresAt e'" "data e' = (data e)(k := None)"
    using deleteNoLock_ok [OF zset_inv_engine [OF assms], of k] .
  have "zset_inv e'" using e' assms by (auto simp: zset_inv_def)
  then show ?thesis using that e' zset_abs_delete by metis
qed

lemma zset_update:
  assumes "zset_inv e" "Option.bind (data e k) zset_expiresAt = zset_expiresAt v" "zval_ok v"
  shows "zset_inv (e\<lparr>data := (data e)(k \<mapsto> v)\<rparr>)"
  using assms update_ok [of zset_expiresAt e k v] by (auto simp: zset_inv_def)

subsection \<open>Putting a value back\<close>

text \<open>What the operations leave for a live key: the value with the new pairs, or no value.\<close>

lemma zset_put_back:
  assumes "zset_inv e" "live_at zset_expiresAt now k e" "data e k = Some v" "zpair d z es"
  shows "ends (if d = Map.empty then deleteNoLock k e else Some (e\<lparr>data := (data e)(k \<mapsto> v\<lparr>dict := d, zsl := z\<rparr>)\<rparr>))
    (\<lambda>e'. zset_inv e' \<and> zset_abs now e' = zput k es (zset_abs now e))"
proof (cases "es = []")
  case True
  obtain e' where "deleteNoLock k e = Some e'" "zset_inv e'" "data e' = (data e)(k := None)"
    "zset_abs now e' = (zset_abs now e)(k := None)" using zset_delete_ok [OF assms(1)] .
  then show ?thesis using True zpair_empty [OF assms(4)] by (simp add: zput_def)
next
  case False
  let ?v = "v\<lparr>dict := d, zsl := z\<rparr>"
  have v: "zval_ok ?v" "zset_entries ?v = es" using zpair_val [OF assms(4)] by simp_all
  have "zset_inv (e\<lparr>data := (data e)(k \<mapsto> ?v)\<rparr>)" by (rule zset_update [OF assms(1)]) (use assms(3) v in simp_all)
  moreover have "\<not> expired (zset_expiresAt v) now" using assms(2,3) by (simp add: live_at_def)
  ultimately show ?thesis
    using False zpair_empty [OF assms(4)] v zset_abs_put [of "e\<lparr>data := (data e)(k \<mapsto> ?v)\<rparr>" e k ?v now]
      live_zmem(2) [OF assms(2)] assms(3)
    by (simp add: zput_def)
qed

lemma zAdd_ends:
  assumes "zset_inv e" "live_at zset_expiresAt now k e" "\<forall>y \<in> set ms. \<not> is_nan (snd y)"
  shows "ends (zAddNoLockAndNoWal now src k ms x e) (\<lambda>(n, e'). zset_inv e' \<and>
    (ZInt (Inr n), zset_abs now e') = zspec compile now (ZOAdd k ms x) (zset_abs now e))"
proof -
  let ?A = "zset_abs now e" and ?x = "if x \<noteq> None then x else zttl (zset_abs now e) k"
  define val where "val = (case data e k of None \<Rightarrow> NewZSetValue src now x
    | Some v \<Rightarrow> if x \<noteq> None then v\<lparr>zset_expiresAt := x\<rparr> else v)"
  have xp: "zset_expiresAt val = ?x"
    by (auto simp: val_def NewZSetValue_def live_zmem [OF assms(2)] split: option.splits)
  have pair: "zpair (dict val) (zsl val) (zmem ?A k)"
  proof (cases "data e k")
    case None
    then show ?thesis by (simp add: val_def NewZSetValue_def zpair_new live_zmem [OF assms(2)])
  next
    case (Some v)
    then show ?thesis using zset_inv_val [OF assms(1) Some] by (simp add: val_def live_zmem [OF assms(2)] zval_pair)
  qed
  from zadd_loop_ends [OF pair assms(3), of 0] obtain d z n where
    loop: "zadd_loop ms (dict val) (zsl val) 0 = Some (d, z, n)" and
    new: "zpair d z (fold entry_put ms (zmem ?A k))" "n = int (card (fst ` set ms - fst ` set (zmem ?A k)))"
    by (auto simp: ends_iff)
  define v where "v = val\<lparr>dict := d, zsl := z\<rparr>"
  have v: "zval_ok v" "zset_entries v = fold entry_put ms (zmem ?A k)" "zset_expiresAt v = ?x"
    using zpair_val [OF new(1), of val] xp by (simp_all add: v_def)
  have op: "zAddNoLockAndNoWal now src k ms x e =
      (let e1 = e\<lparr>data := (data e)(k \<mapsto> v)\<rparr> in
       if x \<noteq> None then do { e2 \<leftarrow> dropExpiration k e1; Some (n, addExpiration k x e2) } else Some (n, e1))"
    unfolding zAddNoLockAndNoWal_def val_def [symmetric] by (simp add: loop v_def)
  have goal: "(ZInt (Inr n), zset_abs now e') = zspec compile now (ZOAdd k ms x) ?A" if "data e' = (data e)(k \<mapsto> v)" for e'
    unfolding zset_abs_put [OF that] using v(2,3) new(2) by (simp add: Let_def)
  show ?thesis
  proof (cases "x = None")
    case True
    have "zset_inv (e\<lparr>data := (data e)(k \<mapsto> v)\<rparr>)"
      by (rule zset_update [OF assms(1) _ v(1)]) (use True v(3) live_zmem(2) [OF assms(2)] in simp)
    then show ?thesis unfolding op using True goal by (simp del: zspec.simps)
  next
    case False
    have "zset_inv e'" if "engine_inv zset_expiresAt e'" "data e' = (data e)(k \<mapsto> v)" for e'
      using that assms(1) v(1) by (auto simp: zset_inv_def)
    then show ?thesis
      unfolding op using False v(3) put_ends [OF zset_inv_engine [OF assms(1)], of k v] goal
      by (auto elim!: ends_mono simp del: zspec.simps)
  qed
qed

lemma zRem_ends:
  assumes "zset_inv e" "live_at zset_expiresAt now k e"
  shows "ends (zRemNoLockAndNoWal k ms e) (\<lambda>(n, e'). zset_inv e' \<and>
    (ZInt (Inr n), zset_abs now e') = zspec compile now (ZORem k ms) (zset_abs now e))"
proof (cases "data e k")
  case None
  then have "zset_abs now e k = None" using live_zset_abs [OF assms(2)] by simp
  moreover obtain e' where "deleteNoLock k e = Some e'" "zset_inv e'" "data e' = (data e)(k := None)"
      "zset_abs now e' = (zset_abs now e)(k := None)" using zset_delete_ok [OF assms(1)] .
  ultimately show ?thesis
    using None by (simp add: zRemNoLockAndNoWal_def zmem_def zput_def)
next
  case (Some v)
  have pair: "zpair (dict v) (zsl v) (zmem (zset_abs now e) k)"
    using zset_inv_val [OF assms(1) Some] Some by (simp add: live_zmem [OF assms(2)] zval_pair)
  from zrem_loop_ends [OF pair, of ms 0] obtain d z n where
    loop: "zrem_loop ms (dict v) (zsl v) 0 = Some (d, z, n)" and
    new: "zpair d z (entry_remove (set ms) (zmem (zset_abs now e) k))"
      "n = int (length (zmem (zset_abs now e) k) - length (entry_remove (set ms) (zmem (zset_abs now e) k)))"
    by (auto simp: ends_iff)
  show ?thesis using zset_put_back [OF assms Some new(1)]
    by (auto simp: zRemNoLockAndNoWal_def Some loop new(2) Let_def entry_remove_def elim!: ends_mono split: if_splits)
qed

lemma zIncr_ends:
  assumes "zset_inv e" "live_at zset_expiresAt now k e" "zop_ok (zset_abs now e) (ZOIncrBy k inc m)"
  shows "ends (zIncrByNoLockAndNoWal now src k inc m e) (\<lambda>(s, e'). zset_inv e' \<and>
    (ZFloat (Inr s), zset_abs now e') = zspec compile now (ZOIncrBy k inc m) (zset_abs now e))"
proof -
  let ?A = "zset_abs now e"
  define val where "val = (case data e k of None \<Rightarrow> NewZSetValue src now None | Some v \<Rightarrow> v)"
  have xp: "zset_expiresAt val = zttl ?A k" "Option.bind (data e k) zset_expiresAt = zset_expiresAt val"
    by (auto simp: val_def NewZSetValue_def live_zmem [OF assms(2)] split: option.splits)
  have live: "\<not> expired (zttl ?A k) now"
    using assms(2) live_zmem(2) [OF assms(2)] by (cases "data e k") (auto simp: live_at_def expired_def)
  have pair: "zpair (dict val) (zsl val) (zmem ?A k)"
  proof (cases "data e k")
    case None
    then show ?thesis by (simp add: val_def NewZSetValue_def zpair_new live_zmem [OF assms(2)])
  next
    case (Some v)
    then show ?thesis using zset_inv_val [OF assms(1) Some] by (simp add: val_def live_zmem [OF assms(2)] zval_pair)
  qed
  then have d: "dict val = map_of (zmem ?A k)" by (simp add: zpair_def)
  define s where "s = (case map_of (zmem ?A k) m of None \<Rightarrow> inc | Some old \<Rightarrow> fadd old inc)"
  have s: "\<not> is_nan s" using assms(3) by (simp add: s_def)
  have ins: "ends (do { z1 \<leftarrow> (case dict val m of None \<Rightarrow> Some (zsl val) | Some old \<Rightarrow> map_option snd (zsl_delete old m (zsl val)));
      zsl_insert s m z1 }) (\<lambda>z2. zpair ((dict val)(m \<mapsto> s)) z2 (entry_insert (m, s) (entry_delete m (zmem ?A k))))"
  proof (cases "dict val m")
    case None
    then have "m \<notin> fst ` set (zmem ?A k)" using entry_lookup(2) [OF zpair_sorted [OF pair]] d by simp
    then have "entry_delete m (zmem ?A k) = zmem ?A k" by (auto simp: entry_delete_def filter_id_conv)
    then show ?thesis using zpair_insert [OF pair s None] None by simp
  next
    case (Some old)
    then show ?thesis using zpair_replace [OF pair s Some] by (auto elim!: ends_mono)
  qed
  have put: "zset_inv (e\<lparr>data := (data e)(k \<mapsto> v)\<rparr>) \<and>
      (ZFloat (Inr s), zset_abs now (e\<lparr>data := (data e)(k \<mapsto> v)\<rparr>)) = zspec compile now (ZOIncrBy k inc m) ?A"
    if "zpair ((dict val)(m \<mapsto> s)) z2 (entry_insert (m, s) (entry_delete m (zmem ?A k)))" "v = val\<lparr>dict := (dict val)(m \<mapsto> s), zsl := z2\<rparr>" for z2 v
  proof -
    have v: "zval_ok v" "zset_entries v = entry_insert (m, s) (entry_delete m (zmem ?A k))" "zset_expiresAt v = zttl ?A k"
      using zpair_val [OF that(1), of val] that(2) xp by simp_all
    have "zset_inv (e\<lparr>data := (data e)(k \<mapsto> v)\<rparr>)"
      by (rule zset_update [OF assms(1) _ v(1)]) (use v(3) xp in simp)
    then show ?thesis
      using zset_abs_put [of "e\<lparr>data := (data e)(k \<mapsto> v)\<rparr>" e k v now] v live by (simp add: Let_def s_def)
  qed
  show ?thesis
    using ins put unfolding zIncrByNoLockAndNoWal_def val_def [symmetric] Let_def d s_def [symmetric]
    by (auto simp: ends_iff bind_eq_Some_conv simp del: zspec.simps)
qed

end
