(* ===== verification/ZSetMeets.thy ===== *)
theory ZSetMeets
  imports ZSetRefine
begin

text \<open>Each operation of the sorted set engine, from its eviction to its log entry.\<close>

definition zset_meets ::
  "regexp_compile \<Rightarrow> 'w logger \<Rightarrow> time \<Rightarrow> zset_op \<Rightarrow> ZSetStorage \<Rightarrow> zset_res \<Rightarrow> ZSetStorage \<Rightarrow> bool" where
  "zset_meets compile lg now op e r e' \<longleftrightarrow>
     zset_inv e' \<and> (reliable_logger lg \<longrightarrow> (r, zset_abs now e') = zspec compile now op (zset_abs now e))"

definition zsmall :: "zset_map \<Rightarrow> bool" where
  "zsmall A \<longleftrightarrow> (\<forall>k. length (zmem A k) < 2 ^ 63)"

lemma zset_meetsI:
  "zset_inv e' \<Longrightarrow> (r, zset_abs now e') = zspec compile now op (zset_abs now e) \<Longrightarrow> zset_meets compile lg now op e r e'"
  by (simp add: zset_meets_def)

lemma logger_fails: "reliable_logger lg \<Longrightarrow> lg e a args w = (Some err, w') \<Longrightarrow> False"
  using reliable_logger.no_error [of lg e a args w] by simp

lemma zset_meets_fail:
  "lg eid a args w = (Some err, w') \<Longrightarrow> zset_inv e' \<Longrightarrow> zset_meets compile lg now op e r e'"
  by (auto simp: zset_meets_def dest: logger_fails)

lemma zset_meets_inv: "zset_meets compile lg now op e r e' \<Longrightarrow> zset_inv e'"
  by (simp add: zset_meets_def)

subsection \<open>Operations that change a key\<close>

lemma zadd_meets:
  assumes "zset_inv e" "zop_ok (zset_abs now e) (ZOAdd k ms x)"
  shows "ends (ZAdd lg now src k ms x (e, w)) (\<lambda>(r, e', w'). zset_meets compile lg now (ZOAdd k ms x) e (ZInt r) e')"
proof -
  obtain e1 w1 where ev: "zset_evict lg now k (e, w) = Some (e1, w1)" and e1: "zset_inv e1"
    "zset_abs now e1 = zset_abs now e" "live_at zset_expiresAt now k e1" using zset_evict_ok [OF assms(1)] .
  from zAdd_ends [OF e1(1,3), of ms src x compile] assms(2) obtain n e2 where
    op: "zAddNoLockAndNoWal now src k ms x e1 = Some (n, e2)" and
    e2: "zset_inv e2" "(ZInt (Inr n), zset_abs now e2) = zspec compile now (ZOAdd k ms x) (zset_abs now e)"
    unfolding e1(2) by (auto simp: ends_iff simp del: zspec.simps)
  have "zset_meets compile lg now (ZOAdd k ms x) e (ZInt (Inr n)) e2" by (rule zset_meetsI [OF e2])
  then show ?thesis
    using ev op e2(1) by (auto simp: ZAdd_def Let_def split: prod.splits option.splits intro: zset_meets_fail simp del: zspec.simps)
qed

lemma zincr_meets:
  assumes "zset_inv e" "zop_ok (zset_abs now e) (ZOIncrBy k inc m)"
  shows "ends (ZIncrBy lg now src k inc m (e, w)) (\<lambda>(r, e', w'). zset_meets compile lg now (ZOIncrBy k inc m) e (ZFloat r) e')"
proof -
  obtain e1 w1 where ev: "zset_evict lg now k (e, w) = Some (e1, w1)" and e1: "zset_inv e1"
    "zset_abs now e1 = zset_abs now e" "live_at zset_expiresAt now k e1" using zset_evict_ok [OF assms(1)] .
  have "zop_ok (zset_abs now e1) (ZOIncrBy k inc m)" using assms(2) e1(2) by simp
  from zIncr_ends [OF e1(1,3) this, of src compile] obtain s e2 where
    op: "zIncrByNoLockAndNoWal now src k inc m e1 = Some (s, e2)" and
    e2: "zset_inv e2" "(ZFloat (Inr s), zset_abs now e2) = zspec compile now (ZOIncrBy k inc m) (zset_abs now e)"
    unfolding e1(2) by (auto simp: ends_iff simp del: zspec.simps)
  have "zset_meets compile lg now (ZOIncrBy k inc m) e (ZFloat (Inr s)) e2" by (rule zset_meetsI [OF e2])
  then show ?thesis
    using ev op e2(1) by (auto simp: ZIncrBy_def split: prod.splits option.splits intro: zset_meets_fail simp del: zspec.simps)
qed

lemma zrem_meets:
  assumes "zset_inv e"
  shows "ends (ZRem lg now k ms (e, w)) (\<lambda>(r, e', w'). zset_meets compile lg now (ZORem k ms) e (ZInt r) e')"
proof -
  obtain e1 w1 where ev: "zset_evict lg now k (e, w) = Some (e1, w1)" and e1: "zset_inv e1"
    "zset_abs now e1 = zset_abs now e" "live_at zset_expiresAt now k e1" using zset_evict_ok [OF assms(1)] .
  from zRem_ends [OF e1(1,3), of ms compile] obtain n e2 where
    op: "zRemNoLockAndNoWal k ms e1 = Some (n, e2)" and
    e2: "zset_inv e2" "(ZInt (Inr n), zset_abs now e2) = zspec compile now (ZORem k ms) (zset_abs now e)"
    unfolding e1(2) by (auto simp: ends_iff simp del: zspec.simps)
  have m2: "zset_meets compile lg now (ZORem k ms) e (ZInt (Inr n)) e2" by (rule zset_meetsI [OF e2])
  show ?thesis
  proof (cases "data e1 k")
    case None
    then have "zset_abs now e k = None" using live_zset_abs [OF e1(3)] e1(2) by simp
    then have "zset_meets compile lg now (ZORem k ms) e (ZInt (Inr 0)) e1"
      using e1 by (intro zset_meetsI) (simp_all add: zmem_def zput_def fun_upd_idem)
    then show ?thesis using ev None by (simp add: ZRem_def)
  next
    case (Some v)
    then show ?thesis
      using ev op m2 e2(1) by (auto simp: ZRem_def split: prod.splits option.splits intro: zset_meets_fail simp del: zspec.simps)
  qed
qed

lemma zpop_meets:
  assumes inv: "zset_inv e" and small: "zsmall (zset_abs now e)" and n: "n < 2 ^ 63"
    and spec: "\<And>A. zspec compile now op A = zpop taken left oper k n A"
    and start: "\<And>z ids es. sl_rep z ids es \<Longrightarrow> \<exists>xs. path (step z) xs \<and> start z = Some (nth_node xs 0) \<and> set xs \<subseteq> set ids \<and>
      (\<forall>j. take j (map (entry_of z) xs) = taken j es)"
    and left: "\<And>es j. sorted_entries es \<Longrightarrow> entry_remove (fst ` set (taken j es)) es = left j es \<and> distinct (map fst (taken j es)) \<and> set (taken j es) \<subseteq> set es"
    and all: "\<And>es j. length es \<le> j \<Longrightarrow> taken j es = taken (length es) es"
  shows "ends (zset_pop oper start step lg now k n (e, w)) (\<lambda>(r, e', w'). zset_meets compile lg now op e (ZMembers r) e')"
proof -
  obtain e1 w1 where ev: "zset_evict lg now k (e, w) = Some (e1, w1)" and e1: "zset_inv e1"
    "zset_abs now e1 = zset_abs now e" "live_at zset_expiresAt now k e1" using zset_evict_ok [OF inv] .
  let ?A = "zset_abs now e"
  have same: "zset_meets compile lg now op e r e1" if "(r, ?A) = zpop taken left oper k n ?A" for r
    using e1 that by (intro zset_meetsI) (simp_all add: spec)
  show ?thesis
  proof (cases "data e1 k")
    case None
    then have "zmem ?A k = []" using live_zmem(1) [OF e1(3)] e1(2) by simp
    then show ?thesis using ev None same by (simp add: zset_pop_def zpop_def)
  next
    case (Some v)
    define es where "es = zset_entries v"
    have A: "zmem ?A k = es" using live_zmem(1) [OF e1(3)] e1(2) Some by (simp add: es_def)
    have pair: "zpair (dict v) (zsl v) es" using zset_inv_val [OF e1(1) Some] by (simp add: zval_pair es_def)
    then obtain ids where r: "sl_rep (zsl v) ids es" by (auto simp: zpair_def)
    have len: "zsl_length (zsl v) = of_nat (length es)" "length es < 2 ^ 63"
      using sl_length [OF r] small A by (auto simp: zsmall_def)
    have emp: "zsl_length (zsl v) = 0 \<longleftrightarrow> es = []" using of_nat_eq_word [of "length es" 0] len by simp
    consider "es = []" | "es \<noteq> []" "n \<le> 0" | "es \<noteq> []" "0 < n" by linarith
    then show ?thesis
    proof cases
      case 1
      then show ?thesis using ev Some same emp A by (simp add: zset_pop_def zpop_def)
    next
      case 2
      then show ?thesis using ev Some same emp A by (simp add: zset_pop_def zpop_def)
    next
      case 3
      define lim where "lim = (if zsl_length (zsl v) < word_of_int n then sint (zsl_length (zsl v)) else n)"
      have w: "(word_of_int n :: 64 word) = of_nat (nat n)" using 3 by simp
      have "zsl_length (zsl v) < word_of_int n \<longleftrightarrow> length es < nat n"
        unfolding w len(1) using of_nat_le_word [of "nat n" "length es"] n 3 len(2) by (simp add: not_le [symmetric])
      then have lim: "taken (nat lim) es = taken (nat n) es"
        using all [of es "nat n"] len by (simp add: lim_def)
      obtain xs where xs: "path (step (zsl v)) xs" "start (zsl v) = Some (nth_node xs 0)" "set xs \<subseteq> set ids"
        "\<And>j. take j (map (entry_of (zsl v)) xs) = taken j es" using start [OF r] by blast
      have popped: "take_nodes (step (zsl v)) (zsl v) (nat lim) (nth_node xs 0) = Some (taken (nat n) es)"
        using take_nodes_path [OF xs(1), of "zsl v" "nat lim" 0] sl_ids [OF r] xs(3) lim by (auto simp: xs(4))
      have so: "sorted_entries es" by (rule zpair_sorted [OF pair])
      from zpop_loop_ends [OF pair, of "taken (nat n) es"] left [OF so, of "nat n"] obtain d z where
        loop: "zpop_loop (taken (nat n) es) (dict v) (zsl v) = Some (d, z)" and new: "zpair d z (left (nat n) es)"
        by (auto simp: ends_iff)
      from zset_put_back [OF e1(1,3) Some new] obtain e2 where
        e2: "(if d = Map.empty then deleteNoLock k e1 else Some (e1\<lparr>data := (data e1)(k \<mapsto> v\<lparr>dict := d, zsl := z\<rparr>)\<rparr>)) = Some e2"
          "zset_inv e2" "zset_abs now e2 = zput k (left (nat n) es) ?A"
        unfolding e1(2) ends_iff by blast
      have m2: "zset_meets compile lg now op e (ZMembers (Inr (taken (nat n) es))) e2"
        using e2(2,3) 3 A by (intro zset_meetsI) (simp_all add: spec zpop_def)
      obtain err w2 where lg: "lg ''zset'' oper (PathEscape k # concat (map (\<lambda>(m, sc). [EncodeToString m, FormatFloat sc]) (taken (nat n) es))) w1 = (err, w2)"
        by fastforce
      have "zset_pop oper start step lg now k n (e, w) =
          Some (case err of Some err \<Rightarrow> Inl err | None \<Rightarrow> Inr (taken (nat n) es), e2, w2)"
        using ev Some emp 3 popped loop e2(1) lg
        by (simp add: zset_pop_def Let_def lim_def [symmetric] xs(2) split: option.splits)
      then show ?thesis using m2 e2(2) lg by (auto split: option.splits intro: zset_meets_fail)
    qed
  qed
qed

lemma zpop_max_meets:
  assumes "zset_inv e" "zsmall (zset_abs now e)" "zop_ok (zset_abs now e) (ZOPopMax k n)"
  shows "ends (ZPopMax lg now k n (e, w)) (\<lambda>(r, e', w'). zset_meets compile lg now (ZOPopMax k n) e (ZMembers r) e')"
  unfolding ZPopMax_def
proof (rule zpop_meets [OF assms(1,2), where taken = "\<lambda>n es. take n (rev es)" and left = "\<lambda>n es. take (length es - n) es"])
  fix z ids es assume r: "sl_rep z ids es"
  have "rev es = map (entry_of z) (rev ids)" by (simp add: rev_map [symmetric] sl_repD(2) [OF r, symmetric])
  then show "\<exists>xs. path (prev_node z) xs \<and> Some (tail z) = Some (nth_node xs 0) \<and> set xs \<subseteq> set ids \<and>
      (\<forall>j. take j (map (entry_of z) xs) = take j (rev es))"
    using path_prev [OF r] tail_node [OF r] by (intro exI [of _ "rev ids"]) simp
next
  fix es :: "entry list" and j assume so: "sorted_entries es"
  have "distinct (rev (map fst es))" using so by (simp add: sorted_entries_def)
  then show "entry_remove (fst ` set (take j (rev es))) es = take (length es - j) es \<and> distinct (map fst (take j (rev es))) \<and> set (take j (rev es)) \<subseteq> set es"
    using entry_remove_take(2) [OF so, of j] set_take_subset [of j "rev es"]
    by (simp add: take_map [symmetric] rev_map)
qed (use assms(3) in simp_all)

lemma zpop_min_meets:
  assumes "zset_inv e" "zsmall (zset_abs now e)" "zop_ok (zset_abs now e) (ZOPopMin k n)"
  shows "ends (ZPopMin lg now k n (e, w)) (\<lambda>(r, e', w'). zset_meets compile lg now (ZOPopMin k n) e (ZMembers r) e')"
  unfolding ZPopMin_def
proof (rule zpop_meets [OF assms(1,2), where taken = take and left = drop])
  fix z ids es assume r: "sl_rep z ids es"
  then show "\<exists>xs. path (next_node z) xs \<and> first_node z = Some (nth_node xs 0) \<and> set xs \<subseteq> set ids \<and>
      (\<forall>j. take j (map (entry_of z) xs) = take j es)"
    using path_next [OF r] first_node [OF r] sl_repD(2) [OF r] by (intro exI [of _ ids]) simp
next
  fix es :: "entry list" and j assume so: "sorted_entries es"
  show "entry_remove (fst ` set (take j es)) es = drop j es \<and> distinct (map fst (take j es)) \<and> set (take j es) \<subseteq> set es"
    using so entry_remove_take(1) [OF so, of j] set_take_subset [of j es]
    by (simp add: take_map [symmetric] sorted_entries_def)
qed (use assms(3) in simp_all)

subsection \<open>Reading operations\<close>

lemma zset_read_ends:
  assumes "zset_inv e"
  shows "ends (zset_read lg now k (e, w)) (\<lambda>(r, e', w'). zset_inv e' \<and> zset_abs now e' = zset_abs now e \<and>
    (case r of None \<Rightarrow> zset_abs now e k = None
     | Some v \<Rightarrow> zval_ok v \<and> zset_abs now e k = Some (zset_entries v, zset_expiresAt v)))"
proof (cases "data e k")
  case None
  then show ?thesis using assms by (simp add: zset_read_def zset_abs_def visible_None)
next
  case (Some v)
  show ?thesis
  proof (cases "expired (zset_expiresAt v) now")
    case True
    then have "zset_abs now e k = None" using Some by (simp add: zset_abs_def visible_def alive_def map_keep_def)
    moreover obtain e1 w1 where "zset_evict lg now k (e, w) = Some (e1, w1)" "evicted zset_expiresAt now e e1"
      "zset_inv e1" "zset_abs now e1 = zset_abs now e" "live_at zset_expiresAt now k e1" using zset_evict_ok [OF assms] .
    ultimately show ?thesis using Some True by (simp add: zset_read_def)
  next
    case False
    then show ?thesis using Some assms zset_inv_val [OF assms Some]
      by (simp add: zset_read_def zset_abs_def visible_live)
  qed
qed

text \<open>A reading operation answers from the entries of the live value.\<close>

lemma zread_meets:
  assumes inv: "zset_inv e"
    and missing: "zset_abs now e k = None \<Longrightarrow> zspec compile now op (zset_abs now e) = (r0, zset_abs now e)"
    and live: "\<And>v ids s'. zset_abs now e k = Some (zset_entries v, zset_expiresAt v) \<Longrightarrow> sl_rep (zsl v) ids (zset_entries v) \<Longrightarrow>
      dict v = map_of (zset_entries v) \<Longrightarrow>
      ends (f (Some v) s') (\<lambda>(r, t). t = s' \<and> zspec compile now op (zset_abs now e) = (g r, zset_abs now e))"
    and none: "\<And>s'. f None s' = Some (r1, s')" and g: "g r1 = r0"
  shows "ends (do { (r, s') \<leftarrow> zset_read lg now k (e, w); f r s' }) (\<lambda>(r, e', w'). zset_meets compile lg now op e (g r) e')"
  unfolding ends_simps(3)
proof (rule ends_mono [OF zset_read_ends [OF inv]])
  fix p :: "ZSetValue option \<times> ZSetStorage \<times> 'a"
  assume "case p of (r, e', w') \<Rightarrow> zset_inv e' \<and> zset_abs now e' = zset_abs now e \<and>
    (case r of None \<Rightarrow> zset_abs now e k = None
     | Some v \<Rightarrow> zval_ok v \<and> zset_abs now e k = Some (zset_entries v, zset_expiresAt v))"
  then obtain r e' w' where p: "p = (r, e', w')" and e': "zset_inv e'" "zset_abs now e' = zset_abs now e"
    and r: "case r of None \<Rightarrow> zset_abs now e k = None
     | Some v \<Rightarrow> zval_ok v \<and> zset_abs now e k = Some (zset_entries v, zset_expiresAt v)" by (cases p) auto
  have same: "zset_meets compile lg now op e q e'" if "zspec compile now op (zset_abs now e) = (q, zset_abs now e)" for q
    using e' that by (intro zset_meetsI) simp_all
  show "ends (case p of (r, s') \<Rightarrow> f r s') (\<lambda>(r, e', w'). zset_meets compile lg now op e (g r) e')"
  proof (cases r)
    case None
    then show ?thesis using r none g missing same p by simp
  next
    case (Some v)
    then obtain ids where "sl_rep (zsl v) ids (zset_entries v)" "dict v = map_of (zset_entries v)"
      using r by (auto simp: zval_ok_def)
    from live [OF _ this, of "(e', w')"] show ?thesis using Some r p same by (auto elim!: ends_mono)
  qed
qed

lemma zmem_Some: "A k = Some (es, x) \<Longrightarrow> zmem A k = es"
  by (simp add: zmem_def)

lemma zmem_None: "A k = None \<Longrightarrow> zmem A k = []"
  by (simp add: zmem_def)

lemma small_entries: "zsmall A \<Longrightarrow> A k = Some (es, x) \<Longrightarrow> length es < 2 ^ 63"
  using zmem_Some [of A k es x] by (metis zsmall_def)

lemma zslice_Nil [simp]: "slice a b [] = []"
  by (simp add: slice_def split: option.splits prod.splits)

lemma at_most_Nil [simp]: "at_most n [] = []"
  by (simp add: at_most_def)

lemma zscore_meets: "zset_inv e \<Longrightarrow>
  ends (ZScore lg now k m (e, w)) (\<lambda>(r, e', w'). zset_meets compile lg now (ZOScore k m) e (ZScored r) e')"
  unfolding ZScore_def by (rule zread_meets) (auto simp: zmem_Some zmem_None)

lemma zcard_meets: "zset_inv e \<Longrightarrow> zsmall (zset_abs now e) \<Longrightarrow>
  ends (ZCard lg now k (e, w)) (\<lambda>(r, e', w'). zset_meets compile lg now (ZOCard k) e (ZInt (Inr r)) e')"
  unfolding ZCard_def
proof (rule zread_meets [where g = "\<lambda>r. ZInt (Inr r)"])
  fix v ids s' assume small: "zsmall (zset_abs now e)" and a: "zset_abs now e k = Some (zset_entries v, zset_expiresAt v)"
    and r: "sl_rep (zsl v) ids (zset_entries v)"
  show "ends (Some (case Some v of None \<Rightarrow> 0 | Some v \<Rightarrow> sint (zsl_length (zsl v)), s'))
    (\<lambda>(r, t). t = s' \<and> zspec compile now (ZOCard k) (zset_abs now e) = (ZInt (Inr r), zset_abs now e))"
    using small_entries [OF small a] a by (simp add: zmem_Some sl_length [OF r])
qed (simp_all add: zmem_None)

lemma member_entry: "map_of es m = Some s \<Longrightarrow> m \<in> fst ` set es" "map_of es m = None \<Longrightarrow> m \<notin> fst ` set es"
  by (metis map_of_eq_None_iff option.distinct(1)) (simp add: map_of_eq_None_iff)

lemma rank_word: "p < n \<Longrightarrow> n < 2 ^ 63 \<Longrightarrow> (of_nat (Suc p) :: 64 word) \<noteq> 0 \<and> of_nat (Suc p) - 1 = (of_nat p :: 64 word) \<and>
    of_nat n - of_nat (Suc p) = (of_nat (n - 1 - p) :: 64 word)"
  using of_nat_eq_word [of "Suc p" 0] by (simp add: of_nat_diff)

lemma zrank_meets: "zset_inv e \<Longrightarrow> zsmall (zset_abs now e) \<Longrightarrow>
  ends (ZRank lg now k m (e, w)) (\<lambda>(r, e', w'). zset_meets compile lg now (ZORank k m) e (ZRanked r) e')"
  unfolding ZRank_def
proof (rule zread_meets)
  fix v ids s' assume small: "zsmall (zset_abs now e)" and a: "zset_abs now e k = Some (zset_entries v, zset_expiresAt v)"
    and r: "sl_rep (zsl v) ids (zset_entries v)" and d: "dict v = map_of (zset_entries v)"
  show "ends (case Option.bind (Some v) (\<lambda>v. map_option (Pair v) (dict v m)) of None \<Rightarrow> Some (None, s')
      | Some (v, sc) \<Rightarrow> getRank sc m (zsl v) \<bind> (\<lambda>rank. Some (if rank = 0 then None else Some (sint (rank - 1)), s')))
    (\<lambda>(r, t). t = s' \<and> zspec compile now (ZORank k m) (zset_abs now e) = (ZRanked r, zset_abs now e))"
  proof (cases "map_of (zset_entries v) m")
    case None
    then show ?thesis using member_entry(2) [OF None] a d by (simp add: zmem_Some)
  next
    case (Some s)
    let ?q = "entry_rank m (zset_entries v)"
    note rk = sl_rank [OF r Some]
    note w = rank_word [OF rk(2) small_entries [OF small a]]
    have "sint (of_nat ?q :: 64 word) = int ?q" by (rule sint_of_nat) (use rk(2) small_entries [OF small a] in linarith)
    then have "ends (getRank s m (zsl v)) (\<lambda>rank. rank \<noteq> 0 \<and> sint (rank - 1) = int ?q)" unfolding rk(1) using w by simp
    then show ?thesis using member_entry(1) [OF Some] a d Some by (auto simp: zmem_Some elim!: ends_mono)
  qed
qed (simp_all add: zmem_None)

lemma zrevrank_meets: "zset_inv e \<Longrightarrow> zsmall (zset_abs now e) \<Longrightarrow>
  ends (ZRevRank lg now k m (e, w)) (\<lambda>(r, e', w'). zset_meets compile lg now (ZORevRank k m) e (ZRanked r) e')"
  unfolding ZRevRank_def
proof (rule zread_meets)
  fix v ids s' assume small: "zsmall (zset_abs now e)" and a: "zset_abs now e k = Some (zset_entries v, zset_expiresAt v)"
    and r: "sl_rep (zsl v) ids (zset_entries v)" and d: "dict v = map_of (zset_entries v)"
  show "ends (case Option.bind (Some v) (\<lambda>v. map_option (Pair v) (dict v m)) of None \<Rightarrow> Some (None, s')
      | Some (v, sc) \<Rightarrow> getRank sc m (zsl v) \<bind> (\<lambda>rank. Some (if rank = 0 then None else Some (sint (zsl_length (zsl v) - rank)), s')))
    (\<lambda>(r, t). t = s' \<and> zspec compile now (ZORevRank k m) (zset_abs now e) = (ZRanked r, zset_abs now e))"
  proof (cases "map_of (zset_entries v) m")
    case None
    then show ?thesis using member_entry(2) [OF None] a d by (simp add: zmem_Some)
  next
    case (Some s)
    let ?q = "entry_rank m (zset_entries v)" and ?n = "length (zset_entries v)"
    note rk = sl_rank [OF r Some]
    note w = rank_word [OF rk(2) small_entries [OF small a]]
    have "sint (of_nat (?n - 1 - ?q) :: 64 word) = int (?n - 1 - ?q)"
      by (rule sint_of_nat) (use rk(2) small_entries [OF small a] in linarith)
    then have "ends (getRank s m (zsl v)) (\<lambda>rank. rank \<noteq> 0 \<and> sint (zsl_length (zsl v) - rank) = int (?n - 1 - ?q))"
      unfolding rk(1) sl_length [OF r] using w by simp
    then show ?thesis using member_entry(1) [OF Some] a d Some by (auto simp: zmem_Some elim!: ends_mono)
  qed
qed (simp_all add: zmem_None)

lemma zcount_meets: "zset_inv e \<Longrightarrow> zsmall (zset_abs now e) \<Longrightarrow>
  ends (ZCount lg now k mn mx (e, w)) (\<lambda>(r, e', w'). zset_meets compile lg now (ZOCount k mn mx) e (ZInt (Inr r)) e')"
  unfolding ZCount_def
proof (rule zread_meets [where g = "\<lambda>r. ZInt (Inr r)"])
  fix v ids s' assume small: "zsmall (zset_abs now e)" and a: "zset_abs now e k = Some (zset_entries v, zset_expiresAt v)"
    and r: "sl_rep (zsl v) ids (zset_entries v)"
  from sl_count [OF r small_entries [OF small a], of mn mx] obtain p q where
    "firstInRangeRank mn (zsl v) = Some p" "lastInRangeRank mx (zsl v) = Some q"
    "if p = 0 \<or> q = 0 \<or> q < p then length (filter (\<lambda>y. fle mn (snd y) \<and> fle (snd y) mx) (zset_entries v)) = 0
     else sint (q - p + 1) = int (length (filter (\<lambda>y. fle mn (snd y) \<and> fle (snd y) mx) (zset_entries v)))" by blast
  then show "ends (case Some v of None \<Rightarrow> Some (0, s') | Some v \<Rightarrow> firstInRangeRank mn (zsl v) \<bind>
      (\<lambda>firstRank. if firstRank = 0 then Some (0, s') else lastInRangeRank mx (zsl v) \<bind>
      (\<lambda>lastRank. Some (if lastRank = 0 \<or> lastRank < firstRank then 0 else sint (lastRank - firstRank + 1), s'))))
    (\<lambda>(r, t). t = s' \<and> zspec compile now (ZOCount k mn mx) (zset_abs now e) = (ZInt (Inr r), zset_abs now e))"
    using a by (auto simp: zmem_Some split: if_splits)
qed (simp_all add: zmem_None)

lemma zrange_meets:
  assumes "zset_inv e" "zsmall (zset_abs now e)"
  shows "ends (ZRange lg now k i j (e, w)) (\<lambda>(r, e', w'). zset_meets compile lg now (ZORange k i j) e (ZMembers (Inr r)) e')"
    "ends (ZRevRange lg now k i j (e, w)) (\<lambda>(r, e', w'). zset_meets compile lg now (ZORevRange k i j) e (ZMembers (Inr r)) e')"
proof -
  have small: "length es < 2 ^ 63" if "zset_abs now e k = Some (es, x)" for es x
    by (rule small_entries [OF assms(2) that])
  show "ends (ZRange lg now k i j (e, w)) (\<lambda>(r, e', w'). zset_meets compile lg now (ZORange k i j) e (ZMembers (Inr r)) e')"
    unfolding ZRange_def
    by (rule zread_meets [OF assms(1), where g = "\<lambda>r. ZMembers (Inr r)"])
      (auto simp: zmem_Some zmem_None sl_range_next dest: small)
  show "ends (ZRevRange lg now k i j (e, w)) (\<lambda>(r, e', w'). zset_meets compile lg now (ZORevRange k i j) e (ZMembers (Inr r)) e')"
    unfolding ZRevRange_def
    by (rule zread_meets [OF assms(1), where g = "\<lambda>r. ZMembers (Inr r)"])
      (auto simp: zmem_Some zmem_None sl_range_prev dest: small)
qed

lemma zrange_score_meets:
  assumes "zset_inv e"
  shows "ends (ZRangeByScore lg now k mn mx off n (e, w))
      (\<lambda>(r, e', w'). zset_meets compile lg now (ZORangeByScore k mn mx off n) e (ZMembers (Inr r)) e')"
    "ends (ZRevRangeByScore lg now k mx mn off n (e, w))
      (\<lambda>(r, e', w'). zset_meets compile lg now (ZORevRangeByScore k mx mn off n) e (ZMembers (Inr r)) e')"
  unfolding ZRangeByScore_def ZRevRangeByScore_def
  by (rule zread_meets [OF assms(1), where g = "\<lambda>r. ZMembers (Inr r)"];
      auto simp: zmem_Some zmem_None sl_range_by_score sl_rev_range_by_score)+

subsection \<open>Deleting, expiry, patterns\<close>

lemma zset_delete_meets:
  assumes "zset_inv e"
  shows "ends (zset_Delete lg k (e, w)) (\<lambda>(r, e', w'). zset_meets compile lg now (ZODelete k) e (ZErr r) e')"
proof -
  obtain e1 where e1: "deleteNoLock k e = Some e1" "zset_inv e1" "zset_abs now e1 = (zset_abs now e)(k := None)"
    using zset_delete_ok [OF assms] by metis
  then have "zset_meets compile lg now (ZODelete k) e (ZErr None) e1" by (intro zset_meetsI) simp_all
  then show ?thesis
    using e1(1) assms
    by (auto simp: zset_Delete_def engine_Delete_def split: prod.splits option.splits intro: zset_meets_fail simp del: zspec.simps)
qed

lemma zset_count_ends:
  assumes "zset_inv e" "map_iter ks (data e)"
  shows "ends (zset_count lg now ks p (e, w)) (\<lambda>(r, e', w'). zset_inv e' \<and> zset_abs now e' = zset_abs now e \<and>
    r = int (card {k \<in> dom (zset_abs now e). p k}))"
  unfolding zset_count_def
  by (rule ends_mono [OF sweep_count_ends [OF zset_inv_engine [OF assms(1)] assms(2), where f = "\<lambda>v. (zset_entries v, zset_expiresAt v)"]])
    (auto simp: evicted_zset_inv [OF _ assms(1)] evicted_zset_abs zset_abs_def [symmetric])

lemma zset_listings:
  assumes "zset_inv e"
  shows "visible zset_expiresAt (\<lambda>v. getZSetBytesNoLock (zsl v)) now e k = map_option (Some \<circ> fst) (zset_abs now e k)"
proof (cases "alive zset_expiresAt now (data e) k")
  case (Some v)
  then have "zval_ok v" using zset_inv_val [OF assms] by (auto simp: alive_Some)
  then obtain ids where "sl_rep (zsl v) ids (zset_entries v)" by (auto simp: zval_ok_def)
  then show ?thesis using Some by (simp add: zset_abs_def visible_def getZSetBytes)
qed (simp add: zset_abs_def visible_def)

lemma zset_find_ends:
  assumes "zset_inv e" "map_iter ks (data e)"
  shows "ends (zset_find lg now ks p (e, w)) (\<lambda>(r, e', w'). zset_inv e' \<and> zset_abs now e' = zset_abs now e \<and>
    r = (\<lambda>k. if p k then map_option fst (zset_abs now e k) else None))"
  unfolding zset_find_def ends_simps(3)
proof (rule ends_mono [OF sweep_find_ends [OF zset_inv_engine [OF assms(1)] assms(2)]])
  fix q :: "(string \<rightharpoonup> ZSetMember list option) \<times> ZSetStorage \<times> 'a"
  assume "case q of (r, e', w') \<Rightarrow> evicted zset_expiresAt now e e' \<and>
      r = (\<lambda>k. if p k then visible zset_expiresAt (\<lambda>v. getZSetBytesNoLock (zsl v)) now e k else None)"
  then obtain r e' w' where q: "q = (r, e', w')" and ev: "evicted zset_expiresAt now e e'"
    and r0: "r = (\<lambda>k. if p k then visible zset_expiresAt (\<lambda>v. getZSetBytesNoLock (zsl v)) now e k else None)"
    by (cases q) auto
  have r: "r = (\<lambda>k. if p k then map_option (Some \<circ> fst) (zset_abs now e k) else None)"
    unfolding r0 zset_listings [OF assms(1)] ..
  have "list_all (\<lambda>k. r k \<noteq> Some None) ks" by (simp add: r list_all_iff)
  moreover have "(\<lambda>k. Option.bind (r k) id) = (\<lambda>k. if p k then map_option fst (zset_abs now e k) else None)"
    by (rule ext) (simp add: r map_option_case split: option.splits)
  ultimately show "ends (case q of (r, s') \<Rightarrow> if list_all (\<lambda>k. r k \<noteq> Some None) ks then Some (\<lambda>k. Option.bind (r k) id, s') else None)
      (\<lambda>(r, e', w'). zset_inv e' \<and> zset_abs now e' = zset_abs now e \<and>
        r = (\<lambda>k. if p k then map_option fst (zset_abs now e k) else None))"
    using ev by (simp add: q evicted_zset_inv [OF _ assms(1)] evicted_zset_abs)
qed

lemma zset_deleteBy_ends:
  assumes "zset_inv e" "map_iter ks (data e)"
  shows "ends (delete_loop lg ''zset'' zset_expiresAt now p ks 0 (e, w)) (\<lambda>((n, err), e', w'). zset_inv e' \<and>
    (reliable_logger lg \<longrightarrow> err = None \<and> zset_abs now e' = zset_abs now e |` {k. \<not> p k} \<and> n = int (card {k \<in> dom (zset_abs now e). p k})))"
proof (cases "reliable_logger lg")
  case True
  then show ?thesis
    unfolding zset_abs_def
    by (intro ends_mono [OF delete_loop_visible [OF zset_inv_engine [OF assms(1)] assms(2)]])
      (auto simp: reliable_logger.no_error intro: zset_inv_le [OF _ _ assms(1)])
next
  case False
  have "zset_inv e'" if "delete_loop_post zset_expiresAt now p ks e n err e'" for n err e'
  proof (rule zset_inv_le [OF delete_loop_postD(1) [OF that] _ assms(1)])
    show "data e' \<subseteq>\<^sub>m data e" unfolding map_le_def using delete_loop_postD(2) [OF that] by (metis domIff)
  qed
  then show ?thesis
    using False by (intro ends_mono [OF delete_loop_ends [OF zset_inv_engine [OF assms(1)] map_iter_distinct [OF assms(2)]]]) auto
qed

lemma zset_cleanup_meets:
  assumes "zset_inv e"
  shows "ends (zset_CleanupExpired lg now (e, w)) (\<lambda>(e', w'). zset_meets compile lg now ZOCleanupExpired e (ZErr None) e')"
  unfolding zset_CleanupExpired_def
proof (rule ends_mono_state [OF logged_cleanup_ends [OF zset_inv_engine [OF assms]]])
  fix e' :: ZSetStorage and w' :: 'a
  assume "case (e', w') of (e', w') \<Rightarrow> engine_inv zset_expiresAt e' \<and>
    data e' = map_keep (\<lambda>k v. \<forall>t. zset_expiresAt v = Some t \<longrightarrow> now < t) (data e)"
  then have "zset_inv e'" "zset_abs now e' = map_keep (\<lambda>k a. \<forall>t. snd a = Some t \<longrightarrow> now < t) (zset_abs now e)"
    using map_keep_le [of _ "data e"] by (auto simp: zset_abs_def intro: zset_inv_le [OF _ _ assms] intro!: visible_cleanup)
  then show "case (e', w') of (e', w') \<Rightarrow> zset_meets compile lg now ZOCleanupExpired e (ZErr None) e'"
    by (auto intro: zset_meetsI)
qed

lemma zset_clear: "zset_inv (clearNoLock e)" "zset_abs now (clearNoLock e) = Map.empty"
proof -
  have "engine_inv zset_expiresAt (clearNoLock e)" by simp
  then show "zset_inv (clearNoLock e)" by (simp add: zset_inv_def)
  show "zset_abs now (clearNoLock e) = Map.empty" unfolding zset_abs_def by (rule visible_empty) (simp add: clearNoLock_def)
qed

subsection \<open>The refinement\<close>

lemma zset_apply_meets:
  assumes "zset_inv e" "map_iter ks (data e)" "zsmall (zset_abs now e)" "zop_ok (zset_abs now e) op"
  shows "ends (zset_apply compile lg now src ks op (e, w)) (\<lambda>(r, e', w'). zset_meets compile lg now op e r e')"
proof (cases op)
  case (ZOKeysBy p)
  then show ?thesis
    by (cases p) (auto simp: zset_CountByPrefix_def zset_CountBySuffix_def zset_CountByRegex_def assms(1) zset_meets_def split: sum.splits
        intro!: ends_mono [OF zset_count_ends [OF assms(1,2)]])
next
  case (ZOFind p)
  then show ?thesis
    by (cases p) (auto simp: zset_FindByPrefix_def zset_FindBySuffix_def zset_FindByRegex_def assms(1) zset_meets_def split: sum.splits
        intro!: ends_mono [OF zset_find_ends [OF assms(1,2)]])
next
  case (ZODeleteBy p)
  then show ?thesis
    by (cases p) (auto simp: zset_DeleteByPrefix_def zset_DeleteBySuffix_def zset_DeleteByRegex_def
        zset_deleteByPrefixNoLock_def zset_deleteBySuffixNoLock_def zset_deleteByRegexNoLock_def assms(1) zset_meets_def split: sum.splits
        intro!: ends_mono [OF zset_deleteBy_ends [OF assms(1,2)]])
next
  case ZOClear
  then show ?thesis using zset_clear by (auto simp: zset_Clear_def zset_meets_def)
next
  case ZOReset
  then show ?thesis using zset_clear by (auto simp: zset_Reset_def zset_meets_def clearNoLock_def [symmetric])
next
  case ZOCleanupExpired
  then show ?thesis
    by (auto simp del: zspec.simps intro!: ends_mono [OF zset_cleanup_meets [OF assms(1), where compile = compile]])
next
  case (ZOAdd k ms x)
  then show ?thesis using ends_mono [OF zadd_meets [OF assms(1), where compile = compile]] assms(4)
    by (auto simp del: zspec.simps intro!: ends_mono [OF zadd_meets [OF assms(1), where compile = compile]])
next
  case (ZOIncrBy k inc m)
  then show ?thesis using assms(4)
    by (auto simp del: zspec.simps zop_ok.simps intro!: ends_mono [OF zincr_meets [OF assms(1), where compile = compile]])
next
  case (ZOPopMax k n)
  then show ?thesis using assms(4)
    by (auto simp del: zspec.simps zop_ok.simps intro!: ends_mono [OF zpop_max_meets [OF assms(1,3), where compile = compile]])
next
  case (ZOPopMin k n)
  then show ?thesis using assms(4)
    by (auto simp del: zspec.simps zop_ok.simps intro!: ends_mono [OF zpop_min_meets [OF assms(1,3), where compile = compile]])
qed (auto simp del: zspec.simps intro!:
    ends_mono [OF zrem_meets [OF assms(1), where compile = compile]]
    ends_mono [OF zscore_meets [OF assms(1), where compile = compile]]
    ends_mono [OF zcard_meets [OF assms(1,3), where compile = compile]]
    ends_mono [OF zrank_meets [OF assms(1,3), where compile = compile]]
    ends_mono [OF zrevrank_meets [OF assms(1,3), where compile = compile]]
    ends_mono [OF zcount_meets [OF assms(1,3), where compile = compile]]
    ends_mono [OF zrange_meets(1) [OF assms(1,3), where compile = compile]]
    ends_mono [OF zrange_meets(2) [OF assms(1,3), where compile = compile]]
    ends_mono [OF zrange_score_meets(1) [OF assms(1), where compile = compile]]
    ends_mono [OF zrange_score_meets(2) [OF assms(1), where compile = compile]]
    ends_mono [OF zset_delete_meets [OF assms(1), where compile = compile]])

end
