(* ===== verification/ZSetProps.thy ===== *)
theory ZSetProps
  imports ZSetMeets KvProps
begin

text \<open>
  The properties of the sorted set engine: its skip list is an ordered list, the engine implements its
  specification and keeps the skip list, the map and the heap in step; a NaN score breaks both.
\<close>

subsection \<open>The skip list alone\<close>

datatype zsl_op = ZslInsert float64 string | ZslDelete float64 string

text \<open>A run of the skip list, and of the reference; the answers of the deletions are collected.\<close>

fun zsl_run :: "zsl_op list \<Rightarrow> zskiplist \<Rightarrow> (bool list \<times> zskiplist) option" where
  "zsl_run [] z = Some ([], z)"
| "zsl_run (ZslInsert s m # ops) z = do { z1 \<leftarrow> zsl_insert s m z; zsl_run ops z1 }"
| "zsl_run (ZslDelete s m # ops) z = do {
     (b, z1) \<leftarrow> zsl_delete s m z;
     (bs, z2) \<leftarrow> zsl_run ops z1;
     Some (b # bs, z2) }"

fun entry_run :: "zsl_op list \<Rightarrow> entry list \<Rightarrow> bool list \<times> entry list" where
  "entry_run [] es = ([], es)"
| "entry_run (ZslInsert s m # ops) es = entry_run ops (entry_insert (m, s) es)"
| "entry_run (ZslDelete s m # ops) es =
     (case entry_run ops (if holds_entry m s es then entry_delete m es else es) of (bs, es') \<Rightarrow> (holds_entry m s es # bs, es'))"

text \<open>Only absent members are inserted, and no NaN.\<close>

fun zsl_run_ok :: "zsl_op list \<Rightarrow> entry list \<Rightarrow> bool" where
  "zsl_run_ok [] es \<longleftrightarrow> True"
| "zsl_run_ok (ZslInsert s m # ops) es \<longleftrightarrow> \<not> is_nan s \<and> m \<notin> fst ` set es \<and> zsl_run_ok ops (entry_insert (m, s) es)"
| "zsl_run_ok (ZslDelete s m # ops) es \<longleftrightarrow> zsl_run_ok ops (if holds_entry m s es then entry_delete m es else es)"

lemma zsl_run_rep:
  "sl_rep z ids es \<Longrightarrow> zsl_run_ok ops es \<Longrightarrow>
   ends (zsl_run ops z) (\<lambda>(bs, z'). bs = fst (entry_run ops es) \<and> (\<exists>ids'. sl_rep z' ids' (snd (entry_run ops es))))"
proof (induction ops z arbitrary: ids es rule: zsl_run.induct)
  case (2 s m ops z)
  from sl_insert [OF 2(2), of s m] 2(3) obtain z1 ids1 where
    "zsl_insert s m z = Some z1" "sl_rep z1 ids1 (entry_insert (m, s) es)" by (auto simp: ends_iff)
  then show ?case using 2(1) [of z1 ids1 "entry_insert (m, s) es"] 2(3) by simp
next
  case (3 s m ops z)
  let ?es = "if holds_entry m s es then entry_delete m es else es"
  from sl_delete [OF 3(2), of s m] obtain b z1 ids1 where
    d: "zsl_delete s m z = Some (b, z1)" "b = holds_entry m s es" "sl_rep z1 ids1 ?es"
    using 3(2) by (auto simp: ends_iff split: if_splits)
  have "ends (zsl_run ops z1) (\<lambda>(bs, z'). bs = fst (entry_run ops ?es) \<and> (\<exists>ids'. sl_rep z' ids' (snd (entry_run ops ?es))))"
    using 3(1) [OF d(1) refl d(3)] 3(3) by simp
  then show ?case using d(1,2) by (auto simp: case_prod_beta elim!: ends_mono)
qed auto

lemma newZskiplist_rep: "sl_rep (newZskiplist src) [] []"
  using zpair_new [of src] getZSetBytes sl_repD(2,4) unfolding zpair_def by (metis length_0_conv list.size(3))

text \<open>
  C23.  The skip list is the ordered list: from \<open>newZskiplist\<close>, whatever levels are drawn, a run of insertions,
  each of a member that is not in the list and with a score that is a number (\<open>zsl_run_ok\<close>, which the engine
  keeps to as long as no client stores NaN), and of any deletions returns, as long as fewer than \<open>2 ^ 63\<close> entries
  are left; each deletion says whether the member was there with that score, following the bottom level gives the
  entries of the ordered list, the rank of each member is its position plus one, and the node of each rank is the
  entry at that position.
\<close>

theorem skip_list_is_ordered_list:
  assumes "zsl_run_ok ops []" "length (snd (entry_run ops [])) < 2 ^ 63"
  shows "\<exists>z. zsl_run ops (newZskiplist src) = Some (fst (entry_run ops []), z) \<and>
    (let es = snd (entry_run ops []) in
     sorted_wrt entry_less es \<and> getZSetBytesNoLock z = Some es \<and> zsl_length z = of_nat (length es) \<and>
     (\<forall>q < length es. getRank (snd (es ! q)) (fst (es ! q)) z = Some (of_nat (Suc q)) \<and>
        (\<exists>x. getElementByRank (of_nat (Suc q)) z = Some (Some x) \<and> entry_of z x = es ! q)))"
proof -
  let ?es = "snd (entry_run ops [])"
  from zsl_run_rep [OF newZskiplist_rep assms(1), of src] obtain z ids where
    run: "zsl_run ops (newZskiplist src) = Some (fst (entry_run ops []), z)" and r: "sl_rep z ids ?es"
    by (auto simp: ends_iff)
  have so: "sorted_wrt entry_less ?es" "\<forall>y \<in> set ?es. \<not> is_nan (snd y)"
    using sl_repD(3) [OF r] by (simp_all add: sorted_entries_def)
  have "getRank (snd (?es ! q)) (fst (?es ! q)) z = Some (of_nat (Suc q)) \<and>
      (\<exists>x. getElementByRank (of_nat (Suc q)) z = Some (Some x) \<and> entry_of z x = ?es ! q)" if "q < length ?es" for q
    using sl_getRank [OF r that refl] sl_getElementByRank [OF r, of "Suc q"] sl_nth [OF r that] that so(2) assms(2)
    by (auto simp: feq_refl)
  then show ?thesis using run so(1) getZSetBytes [OF r] sl_length [OF r] by (auto simp: Let_def)
qed

lemma skip_list_is_ordered_list_witness:
  "\<exists>z. zsl_run [ZslInsert 7 ''b'', ZslInsert 5 ''a'', ZslDelete 6 ''a''] (newZskiplist (sconst True)) =
      Some (fst (entry_run [ZslInsert 7 ''b'', ZslInsert 5 ''a'', ZslDelete 6 ''a''] []), z) \<and>
    (let es = snd (entry_run [ZslInsert 7 ''b'', ZslInsert 5 ''a'', ZslDelete 6 ''a''] []) in
     sorted_wrt entry_less es \<and> getZSetBytesNoLock z = Some es \<and> zsl_length z = of_nat (length es) \<and>
     (\<forall>q < length es. getRank (snd (es ! q)) (fst (es ! q)) z = Some (of_nat (Suc q)) \<and>
        (\<exists>x. getElementByRank (of_nat (Suc q)) z = Some (Some x) \<and> entry_of z x = es ! q)))"
  by (rule skip_list_is_ordered_list)
    (simp_all add: entry_insert_def entry_less_def holds_entry_def is_nan_def fless_def feq_def float_mag_def float_key_def
      float_neg_def inf_mag_def)

subsection \<open>Runs of the engine\<close>

inductive zset_reach :: "regexp_compile \<Rightarrow> 'w logger \<Rightarrow> 'w \<Rightarrow> ZSetStorage \<times> 'w \<Rightarrow> bool"
  for compile :: regexp_compile and lg :: "'w logger" and w0 :: 'w where
  zset_start: "zset_reach compile lg w0 (new_engine, w0)"
| zset_next: "zset_reach compile lg w0 s \<Longrightarrow> map_iter ks (data (fst s)) \<Longrightarrow>
    zsmall (zset_abs now (fst s)) \<Longrightarrow> zop_ok (zset_abs now (fst s)) op \<Longrightarrow>
    zset_apply compile lg now src ks op s = Some (r, s') \<Longrightarrow> zset_reach compile lg w0 s'"

lemma zset_reach_inv: "zset_reach compile lg w0 s \<Longrightarrow> zset_inv (fst s)"
proof (induction rule: zset_reach.induct)
  case (zset_next s ks now op src r s')
  obtain e w where s: "s = (e, w)" by (cases s)
  show ?case
    using zset_apply_meets [of e ks now op compile lg src w] zset_next s
    by (auto dest: endsD zset_meets_inv)
qed simp

definition zset_one :: ZSetStorage where
  "zset_one = fst (snd (the (ZAdd list_log 5 (sconst True) ''z'' [(''a'', 3)] (Some 7) (new_engine, []))))"

definition zset_one_log :: "wal_entry list" where
  "zset_one_log = snd (snd (the (ZAdd list_log 5 (sconst True) ''z'' [(''a'', 3)] (Some 7) (new_engine, []))))"

lemma zset_abs_new [simp]: "zset_abs now new_engine = Map.empty"
  unfolding zset_abs_def by (rule visible_empty) simp

lemma three_ok: "\<not> is_nan 3"
  by (simp add: is_nan_def float_mag_def inf_mag_def)

lemma zset_one_run:
  "ZAdd list_log 5 (sconst True) ''z'' [(''a'', 3)] (Some 7) (new_engine, []) = Some (Inr 1, zset_one, zset_one_log)"
  "zset_abs 5 zset_one = [''z'' \<mapsto> ([(''a'', 3)], Some 7)]"
proof -
  obtain r e w where run: "ZAdd list_log 5 (sconst True) ''z'' [(''a'', 3)] (Some 7) (new_engine, []) = Some (r, e, w)"
    and m: "zset_meets no_regexps list_log 5 (ZOAdd ''z'' [(''a'', 3)] (Some 7)) new_engine (ZInt r) e"
    using zadd_meets [of new_engine 5 "''z''" "[(''a'', 3)]" "Some 7" list_log "sconst True" "[]" no_regexps] three_ok
    by (auto simp: ends_iff)
  have "reliable_logger list_log" using list_log_ok by (rule reliable_logger.intro)
  then have "r = Inr 1 \<and> zset_abs 5 e = [''z'' \<mapsto> ([(''a'', 3)], Some 7)]"
    using m by (simp add: zset_meets_def Let_def zmem_def expired_def entry_put_def entry_insert_def)
  then show "ZAdd list_log 5 (sconst True) ''z'' [(''a'', 3)] (Some 7) (new_engine, []) = Some (Inr 1, zset_one, zset_one_log)"
    "zset_abs 5 zset_one = [''z'' \<mapsto> ([(''a'', 3)], Some 7)]"
    using run by (simp_all add: zset_one_def zset_one_log_def)
qed

lemma zset_one_reach: "zset_reach no_regexps list_log [] (zset_one, zset_one_log)"
proof (rule zset_next [OF zset_start])
  show "map_iter [] (data (fst (new_engine :: ZSetStorage, [])))" by (simp add: map_iter_def)
  show "zset_apply no_regexps list_log 5 (sconst True) [] (ZOAdd ''z'' [(''a'', 3)] (Some 7)) (new_engine, []) =
      Some (ZInt (Inr 1), zset_one, zset_one_log)"
    by (simp add: zset_one_run)
  show "zop_ok (zset_abs 5 (fst (new_engine :: ZSetStorage, []))) (ZOAdd ''z'' [(''a'', 3)] (Some 7))" by (simp add: three_ok)
qed (simp add: zsmall_def zmem_def)

lemma expiration_data: "dropExpiration k e = Some e' \<Longrightarrow> data e' = data e" "data (addExpiration k x e) = data e"
  by (auto simp: dropExpiration_def addExpiration_def bind_eq_Some_conv split: option.splits prod.splits)

lemma stored_data:
  "(if x \<noteq> None then do { e2 \<leftarrow> dropExpiration k e1; Some (n, addExpiration k x e2) } else Some (n, e1)) = Some (n', e') \<Longrightarrow>
   data e' = data e1"
  by (cases "x = None"; cases "dropExpiration k e1") (auto simp: expiration_data)

lemma ZAdd_data:
  assumes "live_at zset_expiresAt now k e" "ZAdd lg now src k ms x (e, w) = Some (r, e', w')"
  shows "\<exists>v. data e' = (data e)(k \<mapsto> v) \<and> (data e k = None \<longrightarrow> zset_createdAt v = now)"
proof -
  have "\<exists>n. zAddNoLockAndNoWal now src k ms x e = Some (n, e')"
  proof (cases "zAddNoLockAndNoWal now src k ms x e")
    case None
    then show ?thesis using assms(2) by (simp add: ZAdd_def evict_live [OF assms(1)])
  next
    case (Some p)
    obtain n e1 where p: "p = (n, e1)" by (cases p)
    then show ?thesis using assms(2) Some
      by (simp add: ZAdd_def evict_live [OF assms(1)] Let_def split: prod.splits option.splits)
  qed
  then obtain n where op: "zAddNoLockAndNoWal now src k ms x e = Some (n, e')" by blast
  define val where "val = (case data e k of None \<Rightarrow> NewZSetValue src now x
    | Some v \<Rightarrow> if x \<noteq> None then v\<lparr>zset_expiresAt := x\<rparr> else v)"
  obtain d z n' where loop: "zadd_loop ms (dict val) (zsl val) 0 = Some (d, z, n')"
    using op unfolding zAddNoLockAndNoWal_def val_def [symmetric] by (cases "zadd_loop ms (dict val) (zsl val) 0") auto
  have "data e' = data (e\<lparr>data := (data e)(k \<mapsto> val\<lparr>dict := d, zsl := z\<rparr>)\<rparr>)"
    by (rule stored_data [where x = x and k = k and n = n' and n' = n])
      (use op in \<open>unfold zAddNoLockAndNoWal_def val_def [symmetric], simp add: loop Let_def\<close>)
  moreover have "data e k = None \<Longrightarrow> zset_createdAt val = now" by (simp add: val_def NewZSetValue_def)
  ultimately show ?thesis by auto
qed

lemma zset_one_iter: "map_iter [''z''] (data zset_one)"
proof -
  have lv: "live_at zset_expiresAt 5 ''z'' (new_engine :: ZSetStorage)" by (simp add: live_at_def)
  obtain v where "data zset_one = [''z'' \<mapsto> v]" using ZAdd_data [OF lv zset_one_run(1)] by auto
  then show ?thesis by (simp add: map_iter_def)
qed

subsection \<open>The properties\<close>

text \<open>
  C24.  With a logger that does not fail and no NaN brought in, each operation of the sorted set engine returns
  exactly the answer of \<open>zspec\<close> and takes the clients' view where \<open>zspec\<close> takes it: ranks, ranges by rank
  and by score in both directions, pops from both ends, counts and increments are those of the ordered lists.
\<close>

theorem zset_refines:
  assumes "\<And>e a args w. fst (lg e a args w) = None" "zset_reach compile lg w0 (e, w)" "map_iter ks (data e)"
    "zsmall (zset_abs now e)" "zop_ok (zset_abs now e) op"
  shows "\<exists>e' w'. zset_apply compile lg now src ks op (e, w) = Some (fst (zspec compile now op (zset_abs now e)), e', w') \<and>
    zset_abs now e' = snd (zspec compile now op (zset_abs now e))"
proof -
  have r: "reliable_logger lg" using assms(1) by (rule reliable_logger.intro)
  have "zset_inv e" using zset_reach_inv [OF assms(2)] by simp
  from zset_apply_meets [OF this assms(3-5), of compile lg src w] r obtain a e' w' where
    "zset_apply compile lg now src ks op (e, w) = Some (a, e', w')" "(a, zset_abs now e') = zspec compile now op (zset_abs now e)"
    by (auto simp: ends_iff zset_meets_def)
  then show ?thesis by (metis fst_conv snd_conv)
qed

lemma zset_refines_witness:
  "\<exists>e' w'. zset_apply no_regexps list_log 5 (sconst True) [''z''] (ZORevRange ''z'' 0 (- 1)) (zset_one, zset_one_log) =
      Some (fst (zspec no_regexps 5 (ZORevRange ''z'' 0 (- 1)) (zset_abs 5 zset_one)), e', w') \<and>
    zset_abs 5 e' = snd (zspec no_regexps 5 (ZORevRange ''z'' 0 (- 1)) (zset_abs 5 zset_one))"
  by (rule zset_refines [OF list_log_ok zset_one_reach zset_one_iter]) (simp_all add: zset_one_run zsmall_def zmem_def)

text \<open>The elements of every skip list are in order, and the map beside it holds them.\<close>

definition lists_ordered :: "ZSetStorage \<Rightarrow> bool" where
  "lists_ordered e \<longleftrightarrow>
     (\<forall>v \<in> ran (data e). \<exists>ids es. shape (zsl v) ids \<and> es = map (entry_of (zsl v)) ids \<and> sorted_entries es \<and> dict v = map_of es)"

text \<open>
  C25.  With any logger, failing or not: in every sorted set engine that is reached by operations that store no score
  that is not a number (\<open>zop_ok\<close>, which looks at the scores of ZADD and at the sum that ZINCRBY stores), its sorted
  sets below \<open>2 ^ 63\<close> members, the heap and the expirations agree with the values, and in every value the skip list is
  well formed and the map holds exactly its members and scores; so no further such operation panics or loops.  (A NaN,
  which a client can send, breaks the agreement of the map and the skip list: see the next property.)
\<close>

theorem zset_keeps_invariant:
  assumes "zset_reach compile lg w0 (e, w)" "map_iter ks (data e)" "zsmall (zset_abs now e)" "zop_ok (zset_abs now e) op"
  shows "engine_inv zset_expiresAt e \<and> lists_ordered e \<and>
    (\<exists>r e' w'. zset_apply compile lg now src ks op (e, w) = Some (r, e', w'))"
proof -
  have inv: "zset_inv e" using zset_reach_inv [OF assms(1)] by simp
  have "\<exists>r e' w'. zset_apply compile lg now src ks op (e, w) = Some (r, e', w')"
    using zset_apply_meets [OF inv assms(2-4), of compile lg src w] by (auto simp: ends_iff)
  moreover have "lists_ordered e"
    unfolding lists_ordered_def
  proof
    fix v assume "v \<in> ran (data e)"
    then obtain k where d: "data e k = Some v" by (auto simp: ran_def)
    obtain ids where "sl_rep (zsl v) ids (zset_entries v)" "dict v = map_of (zset_entries v)"
      using zset_inv_val [OF inv d] by (auto simp: zval_ok_def)
    then show "\<exists>ids es. shape (zsl v) ids \<and> es = map (entry_of (zsl v)) ids \<and> sorted_entries es \<and> dict v = map_of es"
      using sl_repD(1-3) by (intro exI [of _ ids] exI [of _ "zset_entries v"] conjI)
  qed
  ultimately show ?thesis using zset_inv_engine [OF inv] by blast
qed

lemma zset_keeps_invariant_witness:
  "engine_inv zset_expiresAt zset_one \<and> lists_ordered zset_one \<and>
    (\<exists>r e' w'. zset_apply no_regexps list_log 5 (sconst True) [''z''] (ZOPopMin ''z'' 1) (zset_one, zset_one_log) = Some (r, e', w'))"
  by (rule zset_keeps_invariant [OF zset_one_reach zset_one_iter]) (simp_all add: zset_one_run zsmall_def zmem_def)

subsection \<open>Scores that are no number\<close>

lemma nan_first: "is_nan n \<Longrightarrow> holds_first z ids (node_before n m) 0"
  by (simp add: holds_first_def node_before_def fless_def feq_def)

lemma nan_insert:
  assumes sh: "shape z ids" and n: "is_nan n"
  shows "ends (zsl_insert n m z) (\<lambda>z'. \<exists>ids'. shape z' ids' \<and> map (entry_of z') ids' = (m, n) # map (entry_of z) ids)"
proof (rule ends_mono [OF zsl_insert_ends [OF sh nan_first [OF n]]])
  fix z' assume z': "shape z' (put_in 0 (length (nodes z)) ids) \<and> ele (nodes z' ! length (nodes z)) = m \<and>
      score (nodes z' ! length (nodes z)) = n \<and> (\<forall>y < length (nodes z). same_values z z' y)"
  have "map (entry_of z') ids = map (entry_of z) ids"
    using z' sh by (intro map_cong) (auto simp: entry_of_def same_values_def shape_def nodes_ok_def)
  then show "\<exists>ids'. shape z' ids' \<and> map (entry_of z') ids' = (m, n) # map (entry_of z) ids"
    using z' by (intro exI [of _ "put_in 0 (length (nodes z)) ids"]) (simp add: put_in_def entry_of_def)
qed

lemma nan_delete:
  assumes sh: "shape z ids" and n: "is_nan n"
  shows "zsl_delete n m z = Some (False, z)"
proof -
  define us where "us = map (\<lambda>i. pos ids (stop (heights z ids) i 0)) [0..<zsl_level z]"
  define rs where "rs = (map (\<lambda>i. of_nat (stop (heights z ids) i 0)) [0..<zsl_level z] :: 64 word list)"
  have se: "search z (node_before n m) (zsl_level z) 0 0 = Some (us, rs)"
    unfolding us_def rs_def by (rule search_all [OF sh nan_first [OF n]])
  have "0 < zsl_level z" using sh by (simp add: shape_def nodes_ok_def)
  then have u: "us ! 0 = pos ids 0" by (simp add: us_def)
  have l: "level_at z (us ! 0) 0 = Some \<lparr>forward = (if 0 < length ids then Some (ids ! 0) else None), span = (if 0 < length ids then 1 else 0)\<rparr>"
    unfolding u by (rule shape_level_0 [OF sh]) simp
  have nd: "0 < length ids \<Longrightarrow> node_at z (ids ! 0) = Some (nodes z ! (ids ! 0))"
    using sh by (simp add: shape_def nodes_ok_def node_at_def)
  show ?thesis using nd n by (cases "0 < length ids") (simp_all add: zsl_delete_def se l feq_def)
qed

text \<open>
  C26.  A NaN, which \<open>ParseFloat\<close> accepts as a score, breaks the sorted set: after ZADD of a member with a number
  and one with a NaN, ZREM of the latter answers that it removed one member and ZSCORE no longer finds it, but
  the member stays in the skip list: ZCARD counts it and the listings and snapshots of the key show it.
\<close>

theorem nan_member_stays:
  assumes "\<And>e a args w. fst (lg e a args w) = None" "is_nan n" "\<not> is_nan s" "a \<noteq> b"
  shows "\<exists>e1 w1 e2 w2. ZAdd lg now src k [(a, s), (b, n)] None (new_engine, w) = Some (Inr 2, e1, w1) \<and>
    ZRem lg now k [b] (e1, w1) = Some (Inr 1, e2, w2) \<and>
    ZScore lg now k b (e2, w2) = Some (None, e2, w2) \<and>
    ZCard lg now k (e2, w2) = Some (2, e2, w2) \<and>
    SnapshotZSetAll now k e2 = Some (Some [(b, n), (a, s)])"
proof -
  from zpair_insert [OF zpair_new [of src] assms(3), of a] obtain z1 ids1 where
    z1: "zsl_insert s a (newZskiplist src) = Some z1" "sl_rep z1 ids1 [(a, s)]"
    by (auto simp: ends_iff zpair_def entry_insert_def)
  have e1: "map (entry_of z1) ids1 = [(a, s)]" using sl_repD(2) [OF z1(2)] by simp
  from nan_insert [OF sl_repD(1) [OF z1(2)] assms(2), of b] obtain z2 ids2 where
    z2: "zsl_insert n b z1 = Some z2" "shape z2 ids2" "map (entry_of z2) ids2 = [(b, n), (a, s)]"
    unfolding e1 by (auto simp: ends_iff)
  have len: "zsl_length z2 = 2" using z2(2) arg_cong [OF z2(3), of length] by (simp add: shape_def ends_ok_def)
  define v where "v = (NewZSetValue src now None)\<lparr>dict := [a \<mapsto> s, b \<mapsto> n], zsl := z2\<rparr>"
  define e1 where "e1 = (new_engine :: ZSetStorage)\<lparr>data := [k \<mapsto> v]\<rparr>"
  define e2 where "e2 = e1\<lparr>data := [k \<mapsto> v\<lparr>dict := [a \<mapsto> s], zsl := z2\<rparr>]\<rparr>"
  have none: "\<exists>w'. lg x y args u = (None, w')" for x y args u using assms(1) by (metis prod.collapse)
  have "[a \<mapsto> s] b = None" using assms(4) by simp
  then have "zadd_loop [(a, s), (b, n)] Map.empty (newZskiplist src) 0 = Some ([a \<mapsto> s, b \<mapsto> n], z2, 2)"
    using z1(1) z2(1) by (simp del: fun_upd_apply)
  then have "zAddNoLockAndNoWal now src k [(a, s), (b, n)] None new_engine = Some (2, e1)"
    by (simp add: zAddNoLockAndNoWal_def Let_def NewZSetValue_def e1_def v_def new_engine_def del: fun_upd_apply)
  moreover obtain w1 where "lg ''zset'' ''ZADD'' (PathEscape k # ''PERSISTENT'' #
      concat (map (\<lambda>(m, sc). [FormatFloat sc, EncodeToString m]) [(a, s), (b, n)])) w = (None, w1)" using none by blast
  moreover have "data e1 k = Some v" "zset_expiresAt v = None" by (simp_all add: e1_def v_def NewZSetValue_def)
  ultimately have add: "ZAdd lg now src k [(a, s), (b, n)] None (new_engine, w) = Some (Inr 2, e1, w1)"
    by (simp add: ZAdd_def evict_def expires_str_def new_engine_def)
  have "zRemNoLockAndNoWal k [b] e1 = Some (1, e2)"
    using assms(4) nan_delete [OF z2(2) assms(2), of b]
    by (simp add: zRemNoLockAndNoWal_def e1_def e2_def v_def fun_eq_iff)
  moreover obtain w2 where "lg ''zset'' ''ZREM'' [PathEscape k, EncodeToString b] w1 = (None, w2)" using none by blast
  ultimately have rem: "ZRem lg now k [b] (e1, w1) = Some (Inr 1, e2, w2)"
    by (simp add: ZRem_def evict_def expired_def e1_def v_def NewZSetValue_def)
  have "getZSetBytesNoLock z2 = Some [(b, n), (a, s)]" using shape_bytes [OF z2(2)] z2(3) by simp
  then have "ZScore lg now k b (e2, w2) = Some (None, e2, w2)" "ZCard lg now k (e2, w2) = Some (2, e2, w2)"
    "SnapshotZSetAll now k e2 = Some (Some [(b, n), (a, s)])"
    using assms(4) len by (simp_all add: ZScore_def ZCard_def SnapshotZSetAll_def zset_read_def expired_def e2_def v_def NewZSetValue_def)
  then show ?thesis using add rem by blast
qed

lemma nan_member_stays_witness:
  "is_nan nan_bits \<and> (\<exists>e1 w1 e2 w2. ZAdd list_log 5 (sconst True) ''z'' [(''a'', 3), (''b'', nan_bits)] None (new_engine, []) = Some (Inr 2, e1, w1) \<and>
    ZRem list_log 5 ''z'' [''b''] (e1, w1) = Some (Inr 1, e2, w2) \<and>
    ZScore list_log 5 ''z'' ''b'' (e2, w2) = Some (None, e2, w2) \<and>
    ZCard list_log 5 ''z'' (e2, w2) = Some (2, e2, w2) \<and>
    SnapshotZSetAll 5 ''z'' e2 = Some (Some [(''b'', nan_bits), (''a'', 3)]))"
  by (rule conjI [OF is_nan_bits nan_member_stays [OF list_log_ok is_nan_bits three_ok]]) simp

end
