(* ===== verification/ZSetSnapshot.thy ===== *)
theory ZSetSnapshot
  imports ZSetProps
begin

text \<open>
  The snapshot of the sorted set engine.  The skip lists are built anew, with levels drawn anew, by inserting
  the members in the order they were written; the entries come back as they were.
\<close>

lemma entry_insert_last:
  assumes "sorted_wrt entry_less (es @ [x])"
  shows "entry_insert x es = es @ [x]"
proof -
  have "filter (\<lambda>y. entry_less y x) es = es" "filter (\<lambda>y. \<not> entry_less y x) es = []"
    using assms by (auto simp: sorted_wrt_append filter_id_conv filter_empty_conv)
  then show ?thesis by (simp add: entry_insert_def)
qed

lemma word_back: "(word_of_nat (unat s) :: 64 word) = s" "unat s < 256 ^ 8" for s :: "64 word"
  using unsigned_less [of s, where ?'a = nat] by simp_all

lemma read_members_back:
  "zpair d z es0 \<Longrightarrow> sorted_entries (es0 @ es) \<Longrightarrow> \<forall>y \<in> set es. length (fst y) < 2 ^ 32 \<Longrightarrow>
   ends (zset_read_members (length es) (concat (map zset_write_member es) @ rest) d z)
     (\<lambda>r. \<exists>d' z'. r = Inr ((d', z'), rest) \<and> zpair d' z' (es0 @ es))"
proof (induction es arbitrary: d z es0)
  case (Cons x es)
  obtain m s where x: "x = (m, s)" by (cases x)
  have so: "sorted_wrt entry_less (es0 @ [x])" "\<not> is_nan s" "d m = None"
    using Cons.prems(1,2) by (auto simp: x zpair_def sorted_entries_def sorted_wrt_append map_of_eq_None_iff)
  have ins: "ends (zsl_insert s m z) (\<lambda>z'. zpair (d(m \<mapsto> s)) z' (es0 @ [x]))"
    using zpair_insert [OF Cons.prems(1) so(2,3)] entry_insert_last [OF so(1)] by (simp add: x)
  have w: "zset_write_member x @ bs = WriteBytes m @ WriteUintValue 8 (unat s) @ bs" for bs
    by (simp add: x zset_write_member_def)
  have IH: "ends (zset_read_members (length es) (concat (map zset_write_member es) @ rest) (d(m \<mapsto> s)) z')
      (\<lambda>r. \<exists>d' z'. r = Inr ((d', z'), rest) \<and> zpair d' z' ((es0 @ [x]) @ es))"
    if "zpair (d(m \<mapsto> s)) z' (es0 @ [x])" for z'
    using Cons.IH [OF that] Cons.prems by (simp del: fun_upd_apply)
  have len: "length m < 2 ^ 32" using Cons.prems(3) by (simp add: x)
  show ?case
    using ins IH len
    by (auto simp: w ReadBytes_back ReadUintValue_back [OF word_back(2)] word_back(1) ends_iff simp del: fun_upd_apply)
qed simp

definition zval_fits :: "ZSetValue \<Rightarrow> bool" where
  "zval_fits v \<longleftrightarrow> zval_ok v \<and> length (zset_entries v) < 2 ^ 64 \<and> (\<forall>y \<in> set (zset_entries v). length (fst y) < 2 ^ 32) \<and>
     int64_range (zset_createdAt v) \<and> (\<forall>t. zset_expiresAt v = Some t \<longrightarrow> int64_range t)"

text \<open>The same contents, whatever the levels of the skip list.\<close>

definition zval_same :: "ZSetValue \<Rightarrow> ZSetValue \<Rightarrow> bool" where
  "zval_same v v' \<longleftrightarrow> zval_ok v' \<and> dict v' = dict v \<and> zset_entries v' = zset_entries v \<and>
     zset_createdAt v' = zset_createdAt v \<and> zset_expiresAt v' = zset_expiresAt v"

lemma read_value_back:
  assumes "zval_fits v"
  shows "\<exists>bs. zset_write_value v = Some bs \<and>
    ends (zset_read_value src (bs @ rest)) (\<lambda>r. \<exists>v'. r = Inr (v', rest) \<and> zval_same v v')"
proof -
  let ?es = "zset_entries v"
  have pair: "zpair (dict v) (zsl v) ?es" using assms by (simp add: zval_fits_def zval_pair)
  then obtain ids where r: "sl_rep (zsl v) ids ?es" by (auto simp: zpair_def)
  have len: "unat (zsl_length (zsl v)) = length ?es"
    using sl_length [OF r] assms unat_word64 [of "length ?es"] by (simp add: zval_fits_def)
  let ?tail = "WriteInt64Value (zset_createdAt v) @ write_expiry (zset_expiresAt v)"
  let ?bs = "WriteUintValue 8 (length ?es) @ concat (map zset_write_member ?es) @ ?tail"
  have w: "zset_write_value v = Some ?bs" by (simp add: zset_write_value_def getZSetBytes [OF r] len)
  have mem: "ends (zset_read_members (length ?es) (concat (map zset_write_member ?es) @ ?tail @ rest) Map.empty (newZskiplist src))
      (\<lambda>q. \<exists>d' z'. q = Inr ((d', z'), ?tail @ rest) \<and> zpair d' z' ?es)"
    using read_members_back [OF zpair_new, of ?es "?tail @ rest" src] zpair_sorted [OF pair] assms by (simp add: zval_fits_def)
  have fin: "zval_same v \<lparr>dict = d', zsl = z', zset_createdAt = zset_createdAt v, zset_expiresAt = zset_expiresAt v\<rparr>"
    if "zpair d' z' ?es" for d' z'
  proof -
    have "zset_entries \<lparr>dict = d', zsl = z', zset_createdAt = zset_createdAt v, zset_expiresAt = zset_expiresAt v\<rparr> = ?es"
      using that getZSetBytes by (auto simp: zset_entries_def zpair_def)
    moreover have "d' = dict v" using that pair by (simp add: zpair_def)
    ultimately show ?thesis using that by (simp add: zval_same_def zval_pair)
  qed
  have rb: "(and_then ReadInt64Value (\<lambda>c. and_then read_expiry (\<lambda>x. yields \<lparr>dict = d', zsl = z', zset_createdAt = c, zset_expiresAt = x\<rparr>))) (?tail @ rest) =
      Inr (\<lparr>dict = d', zsl = z', zset_createdAt = zset_createdAt v, zset_expiresAt = zset_expiresAt v\<rparr>, rest)" for d' z'
    using assms by (simp add: zval_fits_def and_then_back reads_back yields_def)
  have "length ?es < 256 ^ 8" using assms by (simp add: zval_fits_def)
  then have "ends (zset_read_value src (?bs @ rest)) (\<lambda>q. \<exists>v'. q = Inr (v', rest) \<and> zval_same v v')"
    using mem fin rb by (auto simp: zset_read_value_def ReadUintValue_back elim!: ends_mono)
  then show ?thesis using w by blast
qed

lemma read_entries_back:
  "engine_inv zset_expiresAt e \<Longrightarrow> distinct (map fst ps) \<Longrightarrow> \<forall>k \<in> fst ` set ps. data e k = None \<Longrightarrow>
   \<forall>p \<in> set ps. length (fst p) < 2 ^ 32 \<and> zval_fits (snd p) \<Longrightarrow>
   \<exists>bs. those (map (\<lambda>p. map_option (append (WriteBytes (fst p))) (zset_write_value (snd p))) ps) = Some bs \<and>
     ends (zset_read_entries srcs (length ps) (concat bs @ rest) e) (\<lambda>(err, rest', e'). err = None \<and> rest' = rest \<and>
       engine_inv zset_expiresAt e' \<and> (\<exists>qs. data e' = data e ++ map_of qs \<and> list_all2 (\<lambda>(k, v) (k', v'). k' = k \<and> zval_same v v') ps qs))"
proof (induction ps arbitrary: e)
  case (Cons p ps)
  obtain k v where p: "p = (k, v)" by (cases p)
  have fits: "length k < 2 ^ 32" "zval_fits v" and fresh: "data e k = None" using Cons.prems(3,4) by (simp_all add: p)
  define src where "src = srcs (length ps)"
  obtain b where b1: "zset_write_value v = Some b" using read_value_back [OF fits(2)] by blast
  have b2: "ends (zset_read_value src (b @ rest)) (\<lambda>r. \<exists>v'. r = Inr (v', rest) \<and> zval_same v v')" for rest
    using read_value_back [OF fits(2), of src rest] b1 by auto
  let ?add = "\<lambda>v'. addExpiration k (zset_expiresAt v') (e\<lparr>data := (data e)(k \<mapsto> v')\<rparr>)"
  have add: "engine_inv zset_expiresAt (?add v') \<and> data (?add v') = (data e)(k \<mapsto> v')" for v'
    using store_entry_ok [OF Cons.prems(1) fresh, of v'] by (simp add: store_entry_def)
  have IH: "\<exists>bs. those (map (\<lambda>p. map_option (append (WriteBytes (fst p))) (zset_write_value (snd p))) ps) = Some bs \<and>
     ends (zset_read_entries srcs (length ps) (concat bs @ rest) (?add v')) (\<lambda>(err, rest', e'). err = None \<and> rest' = rest \<and>
       engine_inv zset_expiresAt e' \<and> (\<exists>qs. data e' = data (?add v') ++ map_of qs \<and> list_all2 (\<lambda>(k, v) (k', v'). k' = k \<and> zval_same v v') ps qs))" for v'
  proof (rule Cons.IH)
    show "engine_inv zset_expiresAt (?add v')" using add by blast
    show "distinct (map fst ps)" "\<forall>q \<in> set ps. length (fst q) < 2 ^ 32 \<and> zval_fits (snd q)" using Cons.prems(2,4) by simp_all
    have "k \<notin> fst ` set ps" using Cons.prems(2) p by simp
    then show "\<forall>j \<in> fst ` set ps. data (?add v') j = None" using Cons.prems(3) add [of v'] by auto
  qed
  then obtain bs where bs: "those (map (\<lambda>p. map_option (append (WriteBytes (fst p))) (zset_write_value (snd p))) ps) = Some bs" by blast
  have IH': "ends (zset_read_entries srcs (length ps) (concat bs @ rest) (?add v')) (\<lambda>(err, rest', e'). err = None \<and> rest' = rest \<and>
       engine_inv zset_expiresAt e' \<and> (\<exists>qs. data e' = (data e)(k \<mapsto> v') ++ map_of qs \<and> list_all2 (\<lambda>(k, v) (k', v'). k' = k \<and> zval_same v v') ps qs))" for v'
    using IH [of v'] bs add [of v'] by simp
  have join: "\<exists>qs'. (data e)(k \<mapsto> v') ++ map_of qs = data e ++ map_of qs' \<and> list_all2 (\<lambda>(k, v) (k', v'). k' = k \<and> zval_same v v') (p # ps) qs'"
    if "zval_same v v'" "list_all2 (\<lambda>(k, v) (k', v'). k' = k \<and> zval_same v v') ps qs" for v' qs
  proof -
    have "map fst qs = map fst ps" using that(2) by (induction rule: list_all2_induct) auto
    then have "k \<notin> dom (map_of qs)" using Cons.prems(2) p by (metis dom_map_of_conv_image_fst distinct.simps(2) list.simps(9) fst_conv set_map)
    then have "(data e)(k \<mapsto> v') ++ map_of qs = data e ++ map_of ((k, v') # qs)" by (simp add: map_add_upd_left)
    then show ?thesis using that p by (intro exI [of _ "(k, v') # qs"]) simp
  qed
  have "ends (zset_read_entries srcs (length (p # ps)) (concat ((WriteBytes k @ b) # bs) @ rest) e) (\<lambda>(err, rest', e'). err = None \<and> rest' = rest \<and>
       engine_inv zset_expiresAt e' \<and> (\<exists>qs. data e' = data e ++ map_of qs \<and> list_all2 (\<lambda>(k, v) (k', v'). k' = k \<and> zval_same v v') (p # ps) qs))"
  proof -
    obtain v' where v': "zset_read_value src (b @ concat bs @ rest) = Some (Inr (v', concat bs @ rest))" "zval_same v v'"
      using b2 [of "concat bs @ rest"] by (auto simp: ends_iff)
    have "zset_read_entries srcs (length (p # ps)) (concat ((WriteBytes k @ b) # bs) @ rest) e =
        zset_read_entries srcs (length ps) (concat bs @ rest) (?add v')"
      by (simp add: ReadBytes_back [OF fits(1)] src_def [symmetric] v'(1))
    then show ?thesis using IH' [of v'] join [OF v'(2)] by (fastforce elim!: ends_mono)
  qed
  then show ?case using b1 bs p by simp
qed (auto intro: exI [of _ "[]"])

lemma list_all2_map_of:
  "list_all2 (\<lambda>(k, v) (k', v'). k' = k \<and> R v v') ps qs \<Longrightarrow> rel_option R (map_of ps k) (map_of qs k)"
  by (induction rule: list_all2_induct) auto

lemma zset_snapshot_back:
  assumes "zset_inv e" "map_iter ks (data e)" "card (dom (data e)) < 2 ^ 64"
    "\<And>k v. data e k = Some v \<Longrightarrow> length k < 2 ^ 32 \<and> zval_fits v"
  shows "\<exists>bs. zset_SerializeState ks e = Some bs \<and>
    (\<exists>e'. zset_DeserializeState srcs (bs @ rest) e0 = Some (None, rest, e') \<and> zset_inv e' \<and>
      (\<forall>k. rel_option zval_same (data e k) (data e' k)))"
proof -
  define ps where "ps = map (\<lambda>k. (k, the (data e k))) ks"
  have some: "data e k = Some (the (data e k))" if "k \<in> set ks" for k
    using that assms(2) by (auto simp: map_iter_def)
  have fits: "\<forall>p \<in> set ps. length (fst p) < 2 ^ 32 \<and> zval_fits (snd p)" using some assms(4) by (auto simp: ps_def)
  have dist: "distinct (map fst ps)" using map_iter_distinct [OF assms(2)] by (simp add: ps_def comp_def)
  have len: "length ps = card (dom (data e))" using map_iter_length [OF assms(2)] by (simp add: ps_def)
  have of: "map_of ps = data e"
  proof
    fix k show "map_of ps k = data e k"
      using some [of k] assms(2) by (cases "k \<in> set ks") (auto simp: ps_def map_of_map_restrict map_iter_def)
  qed
  have same: "map (\<lambda>k. case data e k of None \<Rightarrow> Some [] | Some v \<Rightarrow> map_option (append (WriteBytes k)) (zset_write_value v)) ks =
      map (\<lambda>p. map_option (append (WriteBytes (fst p))) (zset_write_value (snd p))) ps"
    unfolding ps_def map_map
  proof (rule map_cong [OF refl])
    fix k assume "k \<in> set ks"
    then obtain v where "data e k = Some v" using some by blast
    then show "(case data e k of None \<Rightarrow> Some [] | Some v \<Rightarrow> map_option (append (WriteBytes k)) (zset_write_value v)) =
        ((\<lambda>p. map_option (append (WriteBytes (fst p))) (zset_write_value (snd p))) \<circ> (\<lambda>k. (k, the (data e k)))) k" by simp
  qed
  have "engine_inv zset_expiresAt (clearNoLock e0)" by simp
  from read_entries_back [OF this dist _ fits, of srcs rest] obtain bodies e' qs where
    b: "those (map (\<lambda>p. map_option (append (WriteBytes (fst p))) (zset_write_value (snd p))) ps) = Some bodies" and
    r: "zset_read_entries srcs (length ps) (concat bodies @ rest) (clearNoLock e0) = Some (None, rest, e')" and
    e': "engine_inv zset_expiresAt e'" "data e' = map_of qs" "list_all2 (\<lambda>(k, v) (k', v'). k' = k \<and> zval_same v v') ps qs"
    by (auto simp: ends_iff clearNoLock_def)
  have rel: "rel_option zval_same (data e k) (data e' k)" for k
    using list_all2_map_of [OF e'(3), of k] by (simp add: of e'(2))
  then have "zset_inv e'" using e'(1) unfolding zset_inv_def
    by (metis (mono_tags, lifting) option.rel_distinct(1) option.rel_inject(2) not_Some_eq zval_same_def)
  moreover have "zset_SerializeState ks e = Some (WriteUintValue 8 (card (dom (data e))) @ concat bodies)"
    by (simp add: zset_SerializeState_def same b)
  moreover have "card (dom (data e)) < 256 ^ 8" using assms(3) by simp
  moreover note r [unfolded len]
  ultimately show ?thesis using rel by (simp add: zset_DeserializeState_def ReadUintValue_back)
qed

text \<open>
  C27.  A sorted set engine reads back what it wrote, whatever it held before and whatever follows: every key
  has its members, scores and times again, in well-formed skip lists with new levels.
\<close>

theorem zset_snapshot_roundtrip:
  assumes "zset_inv e" "map_iter ks (data e)" "card (dom (data e)) < 2 ^ 64"
    "\<And>k v. data e k = Some v \<Longrightarrow> length k < 2 ^ 32 \<and> zval_fits v"
  shows "\<exists>bs. zset_SerializeState ks e = Some bs \<and>
    (\<exists>e'. zset_DeserializeState srcs (bs @ rest) e0 = Some (None, rest, e') \<and> zset_inv e' \<and>
      (\<forall>k. rel_option zval_same (data e k) (data e' k)))"
  by (rule zset_snapshot_back [OF assms])

lemma zset_one_value:
  "\<exists>v. data zset_one = [''z'' \<mapsto> v] \<and> zset_entries v = [(''a'', 3)] \<and> zset_createdAt v = 5 \<and> zset_expiresAt v = Some 7"
proof -
  have lv: "live_at zset_expiresAt 5 ''z'' (new_engine :: ZSetStorage)" by (simp add: live_at_def)
  obtain v where v: "data zset_one = [''z'' \<mapsto> v]" "zset_createdAt v = 5" using ZAdd_data [OF lv zset_one_run(1)] by auto
  have "zset_abs 5 zset_one ''z'' = Some ([(''a'', 3)], Some 7)" by (simp add: zset_one_run(2))
  then have "zset_entries v = [(''a'', 3)]" "zset_expiresAt v = Some 7"
    using v(1) by (auto simp: zset_abs_def dest: visible_SomeD)
  then show ?thesis using v by blast
qed

lemma zset_snapshot_roundtrip_witness:
  "\<exists>bs. zset_SerializeState [''z''] zset_one = Some bs \<and>
    (\<exists>e'. zset_DeserializeState (\<lambda>i. sconst False) (bs @ []) new_engine = Some (None, [], e') \<and> zset_inv e' \<and>
      (\<forall>k. rel_option zval_same (data zset_one k) (data e' k)))"
proof (rule zset_snapshot_roundtrip)
  obtain v where v: "data zset_one = [''z'' \<mapsto> v]" "zset_entries v = [(''a'', 3)]" "zset_createdAt v = 5" "zset_expiresAt v = Some 7"
    using zset_one_value by blast
  show inv: "zset_inv zset_one" using zset_reach_inv [OF zset_one_reach] by simp
  show "map_iter [''z''] (data zset_one)" by (rule zset_one_iter)
  show "card (dom (data zset_one)) < 2 ^ 64" by (simp add: v)
  show "length k < 2 ^ 32 \<and> zval_fits u" if "data zset_one k = Some u" for k u
    using that v zset_inv_val [OF inv that] by (auto simp: zval_fits_def int64_range_def split: if_splits)
qed

end
