(* ===== verification/Protocol.thy ===== *)
theory Protocol
  imports GoErrors GoFloat
begin

text \<open>
  The requests and the answers of the server (\<open>pkg/multiplexer/protocol.go\<close>).  A \<open>json.RawMessage\<close> is the bytes
  of one JSON value, a field left out is the zero of its type: \<^term>\<open>None\<close> for a pointer, \<^term>\<open>[]\<close> for a slice or a
  string.  The error of an answer is kept as the error whose text it is.
\<close>

record Request =
  DS :: string
  UUID :: string
  Method :: string
  Args :: "bytes list"

record Entry =
  Entry_Key :: string
  Entry_Items :: "bytes list"

record ScoredMember =
  Member :: bytes
  Score :: float64

record ScoredEntry =
  ScoredEntry_Key :: string
  ScoredEntry_Items :: "ScoredMember list"

record PubSubAck =
  Ack_Action :: string
  Ack_Channel :: string
  Ack_Count :: int

record ServerInfo =
  OS :: string
  GoVersion :: string
  NumGoroutine :: int
  NumCPU :: int
  MemoryAllocBytes :: nat
  Info_TotalInstances :: int

record InstanceInfo =
  Instance_UUID :: string
  DSType :: string
  Info_KeyCount :: int
  Info_MemoryUsageBytes :: int

record UserInfo =
  UserID :: string
  Instances :: "InstanceInfo list"

record InfoPayload =
  Server :: ServerInfo
  Users :: "UserInfo list"

text \<open>The fields of an answer that do not contain answers.\<close>

record Answer =
  Answer_OK :: bool
  Answer_Error :: "goerr option"
  Answer_UUID :: string
  Answer_Value :: bytes
  Answer_Integer :: "int option"
  Answer_Float :: "float64 option"
  Answer_Boolean :: "bool option"
  Answer_Items :: "bytes list"
  Answer_Flags :: "bool list"
  Answer_KeyVals :: "string \<rightharpoonup> bytes option"
  Answer_Entries :: "Entry list"
  Answer_Scored :: "ScoredMember list"
  Answer_Grouped :: "ScoredEntry list"
  Answer_Queued :: "bool option"
  Answer_PubSub :: "PubSubAck option"
  Answer_Info :: "InfoPayload option"

datatype Response = Response (answer: Answer) (Responses: "Response list")

definition blank :: Answer where
  "blank = \<lparr>Answer_OK = False, Answer_Error = None, Answer_UUID = [], Answer_Value = [], Answer_Integer = None,
     Answer_Float = None, Answer_Boolean = None, Answer_Items = [], Answer_Flags = [], Answer_KeyVals = Map.empty,
     Answer_Entries = [], Answer_Scored = [], Answer_Grouped = [], Answer_Queued = None, Answer_PubSub = None,
     Answer_Info = None\<rparr>"

definition answered :: "(Answer \<Rightarrow> Answer) \<Rightarrow> Response" where
  "answered f = Response (f (blank\<lparr>Answer_OK := True\<rparr>)) []"

definition OK :: Response where
  "OK = answered id"

definition WithValue :: "bytes \<Rightarrow> Response" where
  "WithValue v = answered (Answer_Value_update (\<lambda>_. v))"

definition WithInteger :: "int \<Rightarrow> Response" where
  "WithInteger v = answered (Answer_Integer_update (\<lambda>_. Some v))"

definition WithFloat :: "float64 \<Rightarrow> Response" where
  "WithFloat v = answered (Answer_Float_update (\<lambda>_. Some v))"

definition WithBoolean :: "bool \<Rightarrow> Response" where
  "WithBoolean v = answered (Answer_Boolean_update (\<lambda>_. Some v))"

definition WithItems :: "bytes list \<Rightarrow> Response" where
  "WithItems v = answered (Answer_Items_update (\<lambda>_. v))"

definition WithFlags :: "bool list \<Rightarrow> Response" where
  "WithFlags v = answered (Answer_Flags_update (\<lambda>_. v))"

definition WithKeyVals :: "(string \<rightharpoonup> bytes option) \<Rightarrow> Response" where
  "WithKeyVals v = answered (Answer_KeyVals_update (\<lambda>_. v))"

definition WithEntries :: "Entry list \<Rightarrow> Response" where
  "WithEntries v = answered (Answer_Entries_update (\<lambda>_. v))"

definition WithScored :: "ScoredMember list \<Rightarrow> Response" where
  "WithScored v = answered (Answer_Scored_update (\<lambda>_. v))"

definition WithGrouped :: "ScoredEntry list \<Rightarrow> Response" where
  "WithGrouped v = answered (Answer_Grouped_update (\<lambda>_. v))"

definition WithResponses :: "Response list \<Rightarrow> Response" where
  "WithResponses v = Response (blank\<lparr>Answer_OK := True\<rparr>) v"

definition WithQueued :: Response where
  "WithQueued = answered (Answer_Queued_update (\<lambda>_. Some True))"

definition WithPubSub :: "PubSubAck \<Rightarrow> Response" where
  "WithPubSub v = answered (Answer_PubSub_update (\<lambda>_. Some v))"

definition WithInfo :: "InfoPayload \<Rightarrow> Response" where
  "WithInfo v = answered (Answer_Info_update (\<lambda>_. Some v))"

definition WithUUID :: "string \<Rightarrow> Response" where
  "WithUUID u = answered (Answer_UUID_update (\<lambda>_. u))"

definition Fail :: "goerr \<Rightarrow> Response" where
  "Fail err = Response (blank\<lparr>Answer_Error := Some err\<rparr>) []"

definition FailMsg :: "string \<Rightarrow> Response" where
  "FailMsg msg = Response (blank\<lparr>Answer_Error := Some (PlainError msg)\<rparr>) []"

abbreviation accepted :: "Response \<Rightarrow> bool" where
  "accepted r \<equiv> Answer_OK (answer r)"

lemma accepted_simps [simp]:
  "accepted OK" "accepted (WithValue v)" "accepted (WithInteger n)" "accepted (WithFloat f)" "accepted (WithBoolean b)"
  "accepted (WithItems xs)" "accepted (WithFlags bs)" "accepted (WithKeyVals kv)" "accepted (WithEntries es)"
  "accepted (WithScored ms)" "accepted (WithGrouped gs)" "accepted (WithResponses rs)" "accepted WithQueued"
  "accepted (WithPubSub a)" "accepted (WithInfo i)" "accepted (WithUUID u)" "\<not> accepted (Fail err)"
  "\<not> accepted (FailMsg msg)"
  by (simp_all add: OK_def WithValue_def WithInteger_def WithFloat_def WithBoolean_def WithItems_def WithFlags_def
      WithKeyVals_def WithEntries_def WithScored_def WithGrouped_def WithResponses_def WithQueued_def WithPubSub_def
      WithInfo_def WithUUID_def Fail_def FailMsg_def answered_def blank_def)

end
