(* ===== verification/Multiplexer.thy ===== *)
theory Multiplexer
  imports Transactions ListStorage ZSetStorage Snapshots Protocol
begin

text \<open>
  The multiplexer (\<open>pkg/multiplexer/multiplexer.go\<close>): the instances of the four engines by UUID, their creation up
  to a limit, their deletion, the replay of the log, the snapshot of all of them.  The logger is the one of the
  transactions; its state \<open>'w\<close> stands beside the multiplexer.  An engine logs through the scoped logger
  of its UUID.
\<close>

record Multiplexer =
  kvEngines :: "string \<rightharpoonup> Storage"
  listEngines :: "string \<rightharpoonup> ListStorage"
  setEngines :: "string \<rightharpoonup> SetStorage"
  zsetEngines :: "string \<rightharpoonup> ZSetStorage"
  maxInstances :: int

definition NewMultiplexer :: "int \<Rightarrow> Multiplexer" where
  "NewMultiplexer n = \<lparr>kvEngines = Map.empty, listEngines = Map.empty, setEngines = Map.empty, zsetEngines = Map.empty,
     maxInstances = n\<rparr>"

definition ErrInstanceLimitReached :: goerr where
  "ErrInstanceLimitReached = PlainError ''sub-instance limit reached''"

definition ErrInstanceNotFound :: goerr where
  "ErrInstanceNotFound = PlainError ''sub-instance not found''"

definition ErrInvalidDsType :: goerr where
  "ErrInvalidDsType = PlainError ''invalid data structure type''"

definition TotalInstances :: "Multiplexer \<Rightarrow> int" where
  "TotalInstances m = int (card (dom (kvEngines m)) + card (dom (listEngines m)) + card (dom (setEngines m)) +
     card (dom (zsetEngines m)))"

definition ExceedsMaxInstances :: "Multiplexer \<Rightarrow> bool" where
  "ExceedsMaxInstances m \<longleftrightarrow> maxInstances m \<le> TotalInstances m"

definition mux_EngineID :: string where
  "mux_EngineID = ''mux''"

subsection \<open>Creation and deletion\<close>

definition createInstanceWithUUIDNoLock :: "string \<Rightarrow> string \<Rightarrow> Multiplexer \<Rightarrow> goerr + Multiplexer" where
  "createInstanceWithUUIDNoLock dsType uuid m =
     (if dsType = ''kv'' then Inr (m\<lparr>kvEngines := (kvEngines m)(uuid \<mapsto> new_engine)\<rparr>)
      else if dsType = ''list'' then Inr (m\<lparr>listEngines := (listEngines m)(uuid \<mapsto> new_engine)\<rparr>)
      else if dsType = ''set'' then Inr (m\<lparr>setEngines := (setEngines m)(uuid \<mapsto> new_engine)\<rparr>)
      else if dsType = ''zset'' then Inr (m\<lparr>zsetEngines := (zsetEngines m)(uuid \<mapsto> new_engine)\<rparr>)
      else Inl ErrInvalidDsType)"

text \<open>\<open>b\<close> holds the sixteen random bytes of the UUID.\<close>

definition CreateInstance ::
  "'w logger \<Rightarrow> nat list \<Rightarrow> string \<Rightarrow> Multiplexer \<times> 'w \<Rightarrow> (goerr + string) \<times> Multiplexer \<times> 'w" where
  "CreateInstance lg b dsType = (\<lambda>(m, w).
     (if maxInstances m \<le> TotalInstances m then (Inl ErrInstanceLimitReached, m, w)
      else
        (let uuid = generateUUID b in
         case createInstanceWithUUIDNoLock dsType uuid m of
           Inl err \<Rightarrow> (Inl err, m, w)
         | Inr m' \<Rightarrow> (Inr uuid, m', snd (lg mux_EngineID ''CREATE_INSTANCE'' [dsType, uuid] w)))))"

definition deleteInstanceNoWalNoLock :: "string \<Rightarrow> string \<Rightarrow> Multiplexer \<Rightarrow> goerr + Multiplexer" where
  "deleteInstanceNoWalNoLock dsType uuid m =
     (if dsType = ''kv'' then
        (if kvEngines m uuid = None then Inl ErrInstanceNotFound else Inr (m\<lparr>kvEngines := (kvEngines m)(uuid := None)\<rparr>))
      else if dsType = ''list'' then
        (if listEngines m uuid = None then Inl ErrInstanceNotFound else Inr (m\<lparr>listEngines := (listEngines m)(uuid := None)\<rparr>))
      else if dsType = ''set'' then
        (if setEngines m uuid = None then Inl ErrInstanceNotFound else Inr (m\<lparr>setEngines := (setEngines m)(uuid := None)\<rparr>))
      else if dsType = ''zset'' then
        (if zsetEngines m uuid = None then Inl ErrInstanceNotFound else Inr (m\<lparr>zsetEngines := (zsetEngines m)(uuid := None)\<rparr>))
      else Inl ErrInvalidDsType)"

definition DeleteInstance ::
  "'w logger \<Rightarrow> string \<Rightarrow> string \<Rightarrow> Multiplexer \<times> 'w \<Rightarrow> goerr option \<times> Multiplexer \<times> 'w" where
  "DeleteInstance lg dsType uuid = (\<lambda>(m, w).
     (case deleteInstanceNoWalNoLock dsType uuid m of
        Inl err \<Rightarrow> (Some err, m, w)
      | Inr m' \<Rightarrow> (None, m', snd (lg mux_EngineID ''DELETE_INSTANCE'' [dsType, uuid] w))))"

definition GetKV :: "string \<Rightarrow> Multiplexer \<Rightarrow> Storage option" where
  "GetKV uuid m = kvEngines m uuid"

definition GetList :: "string \<Rightarrow> Multiplexer \<Rightarrow> ListStorage option" where
  "GetList uuid m = listEngines m uuid"

definition GetSet :: "string \<Rightarrow> Multiplexer \<Rightarrow> SetStorage option" where
  "GetSet uuid m = setEngines m uuid"

definition GetZSet :: "string \<Rightarrow> Multiplexer \<Rightarrow> ZSetStorage option" where
  "GetZSet uuid m = zsetEngines m uuid"

text \<open>
  An engine is reached through a pointer: what is done to it is done to the instance.
\<close>

definition on_kv :: "string \<Rightarrow> 'r \<Rightarrow> (Storage \<times> 'w \<Rightarrow> ('r \<times> Storage \<times> 'w) option) \<Rightarrow> Multiplexer \<times> 'w \<Rightarrow> ('r \<times> Multiplexer \<times> 'w) option" where
  "on_kv uuid absent f = (\<lambda>(m, w).
     (case GetKV uuid m of
        None \<Rightarrow> Some (absent, m, w)
      | Some eng \<Rightarrow> map_option (\<lambda>(r, e, w'). (r, m\<lparr>kvEngines := (kvEngines m)(uuid \<mapsto> e)\<rparr>, w')) (f (eng, w))))"

definition on_list :: "string \<Rightarrow> 'r \<Rightarrow> (ListStorage \<times> 'w \<Rightarrow> ('r \<times> ListStorage \<times> 'w) option) \<Rightarrow> Multiplexer \<times> 'w \<Rightarrow> ('r \<times> Multiplexer \<times> 'w) option" where
  "on_list uuid absent f = (\<lambda>(m, w).
     (case GetList uuid m of
        None \<Rightarrow> Some (absent, m, w)
      | Some eng \<Rightarrow> map_option (\<lambda>(r, e, w'). (r, m\<lparr>listEngines := (listEngines m)(uuid \<mapsto> e)\<rparr>, w')) (f (eng, w))))"

definition on_set :: "string \<Rightarrow> 'r \<Rightarrow> (SetStorage \<times> 'w \<Rightarrow> ('r \<times> SetStorage \<times> 'w) option) \<Rightarrow> Multiplexer \<times> 'w \<Rightarrow> ('r \<times> Multiplexer \<times> 'w) option" where
  "on_set uuid absent f = (\<lambda>(m, w).
     (case GetSet uuid m of
        None \<Rightarrow> Some (absent, m, w)
      | Some eng \<Rightarrow> map_option (\<lambda>(r, e, w'). (r, m\<lparr>setEngines := (setEngines m)(uuid \<mapsto> e)\<rparr>, w')) (f (eng, w))))"

definition on_zset :: "string \<Rightarrow> 'r \<Rightarrow> (ZSetStorage \<times> 'w \<Rightarrow> ('r \<times> ZSetStorage \<times> 'w) option) \<Rightarrow> Multiplexer \<times> 'w \<Rightarrow> ('r \<times> Multiplexer \<times> 'w) option" where
  "on_zset uuid absent f = (\<lambda>(m, w).
     (case GetZSet uuid m of
        None \<Rightarrow> Some (absent, m, w)
      | Some eng \<Rightarrow> map_option (\<lambda>(r, e, w'). (r, m\<lparr>zsetEngines := (zsetEngines m)(uuid \<mapsto> e)\<rparr>, w')) (f (eng, w))))"

subsection \<open>All the instances\<close>

text \<open>The order in which Go walks through the four maps.\<close>

record mux_order =
  kv_uuids :: "string list"
  list_uuids :: "string list"
  set_uuids :: "string list"
  zset_uuids :: "string list"

definition mux_walk :: "mux_order \<Rightarrow> Multiplexer \<Rightarrow> bool" where
  "mux_walk us m \<longleftrightarrow> map_iter (kv_uuids us) (kvEngines m) \<and> map_iter (list_uuids us) (listEngines m) \<and>
     map_iter (set_uuids us) (setEngines m) \<and> map_iter (zset_uuids us) (zsetEngines m)"

fun cleanup_instances ::
  "(string \<Rightarrow> 'e \<times> 'w \<Rightarrow> ('e \<times> 'w) option) \<Rightarrow> string list \<Rightarrow> (string \<rightharpoonup> 'e) \<times> 'w \<Rightarrow> ((string \<rightharpoonup> 'e) \<times> 'w) option" where
  "cleanup_instances f [] s = Some s"
| "cleanup_instances f (u # us) (es, w) =
     (case es u of
        None \<Rightarrow> cleanup_instances f us (es, w)
      | Some e \<Rightarrow> Option.bind (f u (e, w)) (\<lambda>(e', w'). cleanup_instances f us (es(u \<mapsto> e'), w')))"

text \<open>A sweep of the key-value engine is not logged.\<close>

definition CleanupAllExpired ::
  "'w logger \<Rightarrow> time \<Rightarrow> mux_order \<Rightarrow> Multiplexer \<times> 'w \<Rightarrow> (Multiplexer \<times> 'w) option" where
  "CleanupAllExpired lg now us = (\<lambda>(m, w). do {
     (kvs, w1) \<leftarrow> cleanup_instances (\<lambda>u (e, w). map_option (\<lambda>e'. (e', w)) (kv_CleanupExpired now e)) (kv_uuids us) (kvEngines m, w);
     (lists, w2) \<leftarrow> cleanup_instances (\<lambda>u. list_CleanupExpired (ScopedWalLogger_Log lg u) now) (list_uuids us) (listEngines m, w1);
     (sets, w3) \<leftarrow> cleanup_instances (\<lambda>u. set_CleanupExpired (ScopedWalLogger_Log lg u) now) (set_uuids us) (setEngines m, w2);
     (zsets, w4) \<leftarrow> cleanup_instances (\<lambda>u. zset_CleanupExpired (ScopedWalLogger_Log lg u) now) (zset_uuids us) (zsetEngines m, w3);
     Some (m\<lparr>kvEngines := kvs, listEngines := lists, setEngines := sets, zsetEngines := zsets\<rparr>, w4) })"

text \<open>
  The numbers of the runtime are parameters, and so are the capacities \<open>caps\<close> of the slices of an instance.
\<close>

fun instance_infos ::
  "string \<Rightarrow> string \<Rightarrow> (string \<rightharpoonup> 'e) \<Rightarrow> ('e \<Rightarrow> nat) \<Rightarrow> (string \<Rightarrow> 'e \<Rightarrow> int) \<Rightarrow> string list \<Rightarrow> InstanceInfo list" where
  "instance_infos target ds es keys memory [] = []"
| "instance_infos target ds es keys memory (u # us) =
     (case es u of
        Some e \<Rightarrow>
          if target = [] \<or> target = u
          then \<lparr>Instance_UUID = u, DSType = ds, Info_KeyCount = int (keys e), Info_MemoryUsageBytes = memory u e\<rparr>
                 # instance_infos target ds es keys memory us
          else instance_infos target ds es keys memory us
      | None \<Rightarrow> instance_infos target ds es keys memory us)"

definition GetInfo :: "ServerInfo \<Rightarrow> (string \<Rightarrow> string \<Rightarrow> nat \<Rightarrow> nat) \<Rightarrow> mux_order \<Rightarrow> string \<Rightarrow> Multiplexer \<Rightarrow> InfoPayload" where
  "GetInfo runtime caps us target m =
     \<lparr>Server = runtime\<lparr>Info_TotalInstances := TotalInstances m\<rparr>,
      Users = [\<lparr>UserID = ''default_user'',
        Instances = instance_infos target ''kv'' (kvEngines m) kv_KeyCount (\<lambda>u. kv_MemoryUsageBytes (\<lambda>k. caps u k 0)) (kv_uuids us) @
          instance_infos target ''list'' (listEngines m) list_KeyCount (\<lambda>u. list_MemoryUsageBytes (caps u)) (list_uuids us) @
          instance_infos target ''set'' (setEngines m) set_KeyCount (\<lambda>u. set_MemoryUsageBytes) (set_uuids us) @
          instance_infos target ''zset'' (zsetEngines m) zset_KeyCount (\<lambda>u. zset_MemoryUsageBytes) (zset_uuids us)\<rparr>]\<rparr>"

definition mux_Reset :: "Multiplexer \<Rightarrow> Multiplexer" where
  "mux_Reset m = m\<lparr>kvEngines := Map.empty, listEngines := Map.empty, setEngines := Map.empty, zsetEngines := Map.empty\<rparr>"

definition mux_Clear :: "Multiplexer \<Rightarrow> Multiplexer" where
  "mux_Clear m = m\<lparr>kvEngines := Map.empty, listEngines := Map.empty, setEngines := Map.empty, zsetEngines := Map.empty\<rparr>"

end
