(* ===== verification/MuxPersistence.thy ===== *)
theory MuxPersistence
  imports Multiplexer
begin

text \<open>
  What the persistence manager calls of the multiplexer: the replay of its own entries (\<open>ProcessWalEntry\<close>) and of
  those of its instances (\<open>ProcessDelegatedWalEntry\<close>, which makes an instance it does not know), and the snapshot,
  a list of sections with the kind, the UUID, the size and the state of an instance.
\<close>

subsection \<open>Replay\<close>

definition run_instance_action :: "(goerr + Multiplexer) \<Rightarrow> Multiplexer \<Rightarrow> goerr option \<times> Multiplexer" where
  "run_instance_action r m = (case r of Inl err \<Rightarrow> (Some err, m) | Inr m' \<Rightarrow> (None, m'))"

definition mux_ProcessWalEntry :: "string \<Rightarrow> string list \<Rightarrow> Multiplexer \<Rightarrow> goerr option \<times> Multiplexer" where
  "mux_ProcessWalEntry action args m =
     (if action = ''CREATE_INSTANCE'' then
        (case args of
           dsType # uuid # _ \<Rightarrow> run_instance_action (createInstanceWithUUIDNoLock dsType uuid m) m
         | _ \<Rightarrow> (Some (PlainError ''CREATE_INSTANCE requires dsType and uuid''), m))
      else if action = ''DELETE_INSTANCE'' then
        (case args of
           dsType # uuid # _ \<Rightarrow> run_instance_action (deleteInstanceNoWalNoLock dsType uuid m) m
         | _ \<Rightarrow> (Some (PlainError ''DELETE_INSTANCE requires dsType and uuid''), m))
      else (Some (PlainError (''unknown multiplexer action: '' @ action)), m))"

text \<open>The instance, made when it is not there.\<close>

definition kv_instance :: "string \<Rightarrow> Multiplexer \<Rightarrow> Storage" where
  "kv_instance uuid m = (case kvEngines m uuid of None \<Rightarrow> new_engine | Some eng \<Rightarrow> eng)"

definition list_instance :: "string \<Rightarrow> Multiplexer \<Rightarrow> ListStorage" where
  "list_instance uuid m = (case listEngines m uuid of None \<Rightarrow> new_engine | Some eng \<Rightarrow> eng)"

definition set_instance :: "string \<Rightarrow> Multiplexer \<Rightarrow> SetStorage" where
  "set_instance uuid m = (case setEngines m uuid of None \<Rightarrow> new_engine | Some eng \<Rightarrow> eng)"

definition zset_instance :: "string \<Rightarrow> Multiplexer \<Rightarrow> ZSetStorage" where
  "zset_instance uuid m = (case zsetEngines m uuid of None \<Rightarrow> new_engine | Some eng \<Rightarrow> eng)"

text \<open>The replay of an engine returns no error.\<close>

definition mux_ProcessDelegatedWalEntry ::
  "time \<Rightarrow> set_order \<Rightarrow> bool stream \<Rightarrow> string \<Rightarrow> string \<Rightarrow> string list \<Rightarrow> Multiplexer \<Rightarrow> (goerr option \<times> Multiplexer) option" where
  "mux_ProcessDelegatedWalEntry now iter src engineID action args m =
     (case args of
        [] \<Rightarrow> Some (Some (PlainError (''delegated action '' @ action @ '' missing uuid argument'')), m)
      | uuid # remainingArgs \<Rightarrow>
          if engineID = ''kv'' then
            map_option (\<lambda>e. (None, m\<lparr>kvEngines := (kvEngines m)(uuid \<mapsto> e)\<rparr>))
              (kv_ProcessWalEntry now action remainingArgs (kv_instance uuid m))
          else if engineID = ''list'' then
            map_option (\<lambda>e. (None, m\<lparr>listEngines := (listEngines m)(uuid \<mapsto> e)\<rparr>))
              (list_ProcessWalEntry now action remainingArgs (list_instance uuid m))
          else if engineID = ''set'' then
            map_option (\<lambda>e. (None, m\<lparr>setEngines := (setEngines m)(uuid \<mapsto> e)\<rparr>))
              (set_ProcessWalEntry now iter action remainingArgs (set_instance uuid m))
          else if engineID = ''zset'' then
            map_option (\<lambda>e. (None, m\<lparr>zsetEngines := (zsetEngines m)(uuid \<mapsto> e)\<rparr>))
              (zset_ProcessWalEntry now src action remainingArgs (zset_instance uuid m))
          else Some (Some (PlainError (''unknown engine ID: '' @ engineID)), m))"

subsection \<open>Snapshots\<close>

definition writeString :: "string \<Rightarrow> bytes" where
  "writeString s = WriteUintValue 4 (length s) @ s"

definition readString :: "string reads" where
  "readString = and_then (ReadUintValue 4) ReadFull"

definition serializeEngine :: "string \<Rightarrow> string \<Rightarrow> bytes \<Rightarrow> bytes" where
  "serializeEngine dsType uuid buf = writeString dsType @ writeString uuid @ WriteUintValue 8 (length buf) @ buf"

fun write_instances :: "string \<Rightarrow> (string \<Rightarrow> 'e \<Rightarrow> bytes option) \<Rightarrow> (string \<rightharpoonup> 'e) \<Rightarrow> string list \<Rightarrow> bytes option" where
  "write_instances dsType ser es [] = Some []"
| "write_instances dsType ser es (u # us) =
     (case es u of
        None \<Rightarrow> write_instances dsType ser es us
      | Some e \<Rightarrow> Option.bind (ser u e) (\<lambda>buf.
          map_option (append (serializeEngine dsType u buf)) (write_instances dsType ser es us)))"

text \<open>\<open>ks\<close> gives, for every instance, the order in which its keys are written.\<close>

definition mux_SerializeState ::
  "set_order \<Rightarrow> (string \<Rightarrow> string \<Rightarrow> string list) \<Rightarrow> mux_order \<Rightarrow> Multiplexer \<Rightarrow> bytes option" where
  "mux_SerializeState iter ks us m = do {
     kvs \<leftarrow> write_instances ''kv'' (\<lambda>u e. Some (kv_SerializeState (ks ''kv'' u) e)) (kvEngines m) (kv_uuids us);
     lists \<leftarrow> write_instances ''list'' (\<lambda>u e. Some (list_SerializeState (ks ''list'' u) e)) (listEngines m) (list_uuids us);
     sets \<leftarrow> write_instances ''set'' (\<lambda>u e. Some (set_SerializeState iter (ks ''set'' u) e)) (setEngines m) (set_uuids us);
     zsets \<leftarrow> write_instances ''zset'' (\<lambda>u e. zset_SerializeState (ks ''zset'' u) e) (zsetEngines m) (zset_uuids us);
     Some (WriteUintValue 8 (card (dom (kvEngines m)) + card (dom (listEngines m)) + card (dom (setEngines m)) +
         card (dom (zsetEngines m))) @ kvs @ lists @ sets @ zsets) }"

datatype mux_error = ReadFailed ioerr | UnknownDsType string

text \<open>
  An engine reads from the next \<open>nbytes\<close> bytes, where a size beyond the signed numbers stands for no bytes; what it
  leaves of them is skipped.
\<close>

definition limited :: "nat \<Rightarrow> bytes \<Rightarrow> bytes" where
  "limited nbytes r = (if nbytes < 2 ^ 63 then take nbytes r else [])"

definition skip_rest :: "nat \<Rightarrow> bytes \<Rightarrow> bytes \<Rightarrow> ioerr option \<times> bytes" where
  "skip_rest nbytes r left =
     (let consumed = length (limited nbytes r) - length left; r' = drop consumed r in
      if nbytes < 2 ^ 63 \<and> consumed < nbytes
      then (if nbytes - consumed \<le> length r' then (None, drop (nbytes - consumed) r') else (Some EOF, []))
      else (None, r'))"

text \<open>The engine of one section: the error, what is left of its bytes, the multiplexer with it.\<close>

definition read_instance ::
  "(nat \<Rightarrow> bool stream) \<Rightarrow> string \<Rightarrow> string \<Rightarrow> bytes \<Rightarrow> Multiplexer \<Rightarrow> (mux_error option \<times> bytes \<times> Multiplexer) option" where
  "read_instance srcs dsType uuid l m =
     (if dsType = ''kv'' then
        (case kv_DeserializeState l new_engine of
           (None, rest, e) \<Rightarrow> Some (None, rest, m\<lparr>kvEngines := (kvEngines m)(uuid \<mapsto> e)\<rparr>)
         | (Some err, rest, e) \<Rightarrow> Some (Some (ReadFailed err), rest, m))
      else if dsType = ''list'' then
        (case list_DeserializeState l new_engine of
           (None, rest, e) \<Rightarrow> Some (None, rest, m\<lparr>listEngines := (listEngines m)(uuid \<mapsto> e)\<rparr>)
         | (Some err, rest, e) \<Rightarrow> Some (Some (ReadFailed err), rest, m))
      else if dsType = ''set'' then
        (case set_DeserializeState l new_engine of
           (None, rest, e) \<Rightarrow> Some (None, rest, m\<lparr>setEngines := (setEngines m)(uuid \<mapsto> e)\<rparr>)
         | (Some err, rest, e) \<Rightarrow> Some (Some (ReadFailed err), rest, m))
      else if dsType = ''zset'' then
        (case zset_DeserializeState srcs l new_engine of
           None \<Rightarrow> None
         | Some (None, rest, e) \<Rightarrow> Some (None, rest, m\<lparr>zsetEngines := (zsetEngines m)(uuid \<mapsto> e)\<rparr>)
         | Some (Some err, rest, e) \<Rightarrow> Some (Some (ReadFailed err), rest, m))
      else Some (Some (UnknownDsType dsType), l, m))"

definition section_head :: "(string \<times> string \<times> nat) reads" where
  "section_head = and_then readString (\<lambda>dsType. and_then readString (\<lambda>uuid. and_then (ReadUintValue 8) (\<lambda>nbytes.
     yields (dsType, uuid, nbytes))))"

fun read_instances ::
  "(nat \<Rightarrow> nat \<Rightarrow> bool stream) \<Rightarrow> nat \<Rightarrow> bytes \<Rightarrow> Multiplexer \<Rightarrow> (mux_error option \<times> bytes \<times> Multiplexer) option" where
  "read_instances srcs 0 r m = Some (None, r, m)"
| "read_instances srcs (Suc n) r m =
     (case section_head r of
        Inl err \<Rightarrow> Some (Some (ReadFailed err), [], m)
      | Inr ((dsType, uuid, nbytes), r1) \<Rightarrow>
          Option.bind (read_instance (srcs n) dsType uuid (limited nbytes r1) m) (\<lambda>(err, left, m').
            case err of
              Some e \<Rightarrow> Some (Some e, drop (length (limited nbytes r1) - length left) r1, m')
            | None \<Rightarrow>
                (case skip_rest nbytes r1 left of
                   (Some e, r2) \<Rightarrow> Some (Some (ReadFailed e), r2, m')
                 | (None, r2) \<Rightarrow> read_instances srcs n r2 m')))"

definition mux_DeserializeState ::
  "(nat \<Rightarrow> nat \<Rightarrow> bool stream) \<Rightarrow> bytes \<Rightarrow> Multiplexer \<Rightarrow> (mux_error option \<times> bytes \<times> Multiplexer) option" where
  "mux_DeserializeState srcs r m =
     (case ReadUintValue 8 r of
        Inl err \<Rightarrow> Some (Some (ReadFailed err), [], mux_Clear m)
      | Inr (count, r1) \<Rightarrow> read_instances srcs count r1 (mux_Clear m))"

end
