(* ===== verification/GoJson.thy ===== *)
theory GoJson
  imports GoFloatText
begin

text \<open>
  What the repository uses of \<open>unicode/utf8\<close>, \<open>unicode/utf16\<close> and \<open>encoding/json\<close>: the code points of a string,
  and \<open>json.Unmarshal\<close> into a string, a \<open>float64\<close> or an \<open>int64\<close>.  For such a destination an array, an
  object and a malformed text have the same outcome, an error, so only scalars are read.  An error is
  \<^term>\<open>None\<close>: no caller looks at its text.
\<close>

subsection \<open>Code points\<close>

definition RuneError :: nat where
  "RuneError = 0xFFFD"

definition between :: "nat \<Rightarrow> nat \<Rightarrow> char \<Rightarrow> bool" where
  "between lo hi c \<longleftrightarrow> lo \<le> byte_of c \<and> byte_of c \<le> hi"

text \<open>\<open>utf8.DecodeRuneInString\<close> on a string that is not empty: the code point and its width.\<close>

definition DecodeRune :: "char \<Rightarrow> string \<Rightarrow> nat \<times> nat" where
  "DecodeRune c cs =
     (let a = byte_of c; cont = (\<lambda>i. between 0x80 0xBF (cs ! i)); low = (\<lambda>i. byte_of (cs ! i) - 0x80) in
      if a < 0x80 then (a, 1)
      else if 0xC2 \<le> a \<and> a \<le> 0xDF \<and> 1 \<le> length cs \<and> cont 0 then ((a - 0xC0) * 64 + low 0, 2)
      else if 0xE0 \<le> a \<and> a \<le> 0xEF \<and> 2 \<le> length cs
           \<and> between (if a = 0xE0 then 0xA0 else 0x80) (if a = 0xED then 0x9F else 0xBF) (cs ! 0) \<and> cont 1
        then ((a - 0xE0) * 4096 + low 0 * 64 + low 1, 3)
      else if 0xF0 \<le> a \<and> a \<le> 0xF4 \<and> 3 \<le> length cs
           \<and> between (if a = 0xF0 then 0x90 else 0x80) (if a = 0xF4 then 0x8F else 0xBF) (cs ! 0) \<and> cont 1 \<and> cont 2
        then ((a - 0xF0) * 262144 + low 0 * 4096 + low 1 * 64 + low 2, 4)
      else (RuneError, 1))"

text \<open>\<open>utf8.EncodeRune\<close>.\<close>

definition EncodeRune :: "nat \<Rightarrow> string" where
  "EncodeRune r0 =
     (let r = (if 0x10FFFF < r0 \<or> (0xD800 \<le> r0 \<and> r0 \<le> 0xDFFF) then RuneError else r0);
          tail = (\<lambda>k. char_of (0x80 + r div 64 ^ k mod 64) :: char) in
      if r < 0x80 then [char_of r]
      else if r < 0x800 then [char_of (0xC0 + r div 64), tail 0]
      else if r < 0x10000 then [char_of (0xE0 + r div 4096), tail 1, tail 0]
      else [char_of (0xF0 + r div 262144), tail 2, tail 1, tail 0])"

lemma DecodeRune_width: "1 \<le> snd (DecodeRune c cs)" "snd (DecodeRune c cs) \<le> Suc (length cs)"
  by (auto simp: DecodeRune_def Let_def)

subsection \<open>Strings\<close>

definition hex4 :: "string \<Rightarrow> nat option" where
  "hex4 s =
     (case s of
        a # b # c # d # _ \<Rightarrow>
          (case (base_digit 16 a, base_digit 16 b, base_digit 16 c, base_digit 16 d) of
             (Some x, Some y, Some z, Some w) \<Rightarrow> Some (((x * 16 + y) * 16 + z) * 16 + w)
           | _ \<Rightarrow> None)
      | _ \<Rightarrow> None)"

definition getu4 :: "string \<Rightarrow> nat option" where
  "getu4 s = (case s of a # b # r \<Rightarrow> if a = CHR 92 \<and> b = CHR ''u'' then hex4 r else None | _ \<Rightarrow> None)"

text \<open>\<open>utf16.DecodeRune\<close>.\<close>

definition surrogate_pair :: "nat \<Rightarrow> nat \<Rightarrow> nat option" where
  "surrogate_pair hi lo =
     (if 0xD800 \<le> hi \<and> hi < 0xDC00 \<and> 0xDC00 \<le> lo \<and> lo < 0xE000
      then Some (0x10000 + (hi - 0xD800) * 1024 + (lo - 0xDC00)) else None)"

text \<open>The code point of an escape that begins with \<open>u\<close>, and how many characters it takes after the \<open>u\<close>.\<close>

definition unicode_escape :: "string \<Rightarrow> (nat \<times> nat) option" where
  "unicode_escape r =
     (case hex4 r of
        None \<Rightarrow> None
      | Some u \<Rightarrow>
          if 0xD800 \<le> u \<and> u < 0xE000
          then (case Option.bind (getu4 (drop 4 r)) (surrogate_pair u) of
                  Some v \<Rightarrow> Some (v, 10)
                | None \<Rightarrow> Some (RuneError, 4))
          else Some (u, 4))"

definition simple_escape :: "char \<Rightarrow> char option" where
  "simple_escape c =
     (if c = CHR 34 \<or> c = CHR 92 \<or> c = CHR ''/'' then Some c
      else if c = CHR ''b'' then Some (CHR 8) else if c = CHR ''f'' then Some (CHR 12)
      else if c = CHR ''n'' then Some (CHR 10) else if c = CHR ''r'' then Some (CHR 13)
      else if c = CHR ''t'' then Some (CHR 9) else None)"

text \<open>What follows the opening quote: the string, and what follows the closing one.\<close>

function (sequential) json_string :: "string \<Rightarrow> (string \<times> string) option" where
  "json_string [] = None"
| "json_string (c # cs) =
     (if c = CHR 34 then Some ([], cs)
      else if c = CHR 92 then
        (case cs of
           [] \<Rightarrow> None
         | e # r \<Rightarrow>
             if e = CHR ''u'' then
               (case unicode_escape r of
                  None \<Rightarrow> None
                | Some (u, n) \<Rightarrow> map_option (map_prod (append (EncodeRune u)) id) (json_string (drop n r)))
             else
               (case simple_escape e of
                  None \<Rightarrow> None
                | Some d \<Rightarrow> map_option (map_prod (Cons d) id) (json_string r)))
      else if byte_of c < 32 then None
      else (case DecodeRune c cs of
              (u, n) \<Rightarrow> map_option (map_prod (append (EncodeRune u)) id) (json_string (drop (n - 1) cs))))"
  by pat_completeness auto
termination by (relation "measure length") auto

subsection \<open>Scalars\<close>

definition json_space :: "char \<Rightarrow> bool" where
  "json_space c \<longleftrightarrow> c = CHR '' '' \<or> c = CHR 9 \<or> c = CHR 13 \<or> c = CHR 10"

definition digit_run :: "string \<Rightarrow> (string \<times> string) option" where
  "digit_run s = (if takeWhile is_digit s = [] then None else Some (takeWhile is_digit s, dropWhile is_digit s))"

definition json_integer :: "string \<Rightarrow> (string \<times> string) option" where
  "json_integer s = (case s of c # cs \<Rightarrow> if c = CHR ''0'' then Some ([c], cs) else digit_run s | [] \<Rightarrow> None)"

definition json_fraction :: "string \<Rightarrow> (string \<times> string) option" where
  "json_fraction s =
     (case s of
        c # cs \<Rightarrow> if c = CHR ''.'' then map_option (map_prod (Cons c) id) (digit_run cs) else Some ([], s)
      | [] \<Rightarrow> Some ([], []))"

definition json_exponent :: "string \<Rightarrow> (string \<times> string) option" where
  "json_exponent s =
     (case s of
        c # cs \<Rightarrow>
          if lower_char c = CHR ''e''
          then (case cs of
                  g # r \<Rightarrow>
                    if g = CHR ''+'' \<or> g = CHR ''-'' then map_option (map_prod (\<lambda>t. c # g # t) id) (digit_run r)
                    else map_option (map_prod (Cons c) id) (digit_run cs)
                | [] \<Rightarrow> None)
          else Some ([], s)
      | [] \<Rightarrow> Some ([], []))"

definition json_number :: "string \<Rightarrow> (string \<times> string) option" where
  "json_number s =
     (let sign = (if s \<noteq> [] \<and> hd s = CHR ''-'' then ''-'' else []) in
      Option.bind (json_integer (drop (length sign) s)) (\<lambda>(i, r).
      Option.bind (json_fraction r) (\<lambda>(f, r').
      map_option (map_prod (\<lambda>e. sign @ i @ f @ e) id) (json_exponent r'))))"

datatype json_scalar = JNull | JBool bool | JString string | JNumber string

definition json_keyword :: "string \<Rightarrow> json_scalar \<Rightarrow> string \<Rightarrow> (json_scalar \<times> string) option" where
  "json_keyword w v s = (if HasPrefix s w then Some (v, drop (length w) s) else None)"

definition json_value :: "string \<Rightarrow> (json_scalar \<times> string) option" where
  "json_value s =
     (case s of
        [] \<Rightarrow> None
      | c # cs \<Rightarrow>
          if c = CHR 34 then map_option (map_prod JString id) (json_string cs)
          else if c = CHR ''n'' then json_keyword ''null'' JNull s
          else if c = CHR ''t'' then json_keyword ''true'' (JBool True) s
          else if c = CHR ''f'' then json_keyword ''false'' (JBool False) s
          else map_option (map_prod JNumber id) (json_number s))"

definition json_scalar_of :: "bytes \<Rightarrow> json_scalar option" where
  "json_scalar_of raw =
     (case json_value (dropWhile json_space raw) of
        None \<Rightarrow> None
      | Some (v, rest) \<Rightarrow> if list_all json_space rest then Some v else None)"

text \<open>\<open>null\<close> leaves the destination as it was: the zero of its type.\<close>

definition json_to_string :: "bytes \<Rightarrow> string option" where
  "json_to_string raw =
     (case json_scalar_of raw of Some (JString s) \<Rightarrow> Some s | Some JNull \<Rightarrow> Some [] | _ \<Rightarrow> None)"

definition json_to_float :: "bytes \<Rightarrow> float64 option" where
  "json_to_float raw =
     (case json_scalar_of raw of Some (JNumber t) \<Rightarrow> ParseFloat t | Some JNull \<Rightarrow> Some 0 | _ \<Rightarrow> None)"

definition parse_int :: "string \<Rightarrow> int option" where
  "parse_int s = (case ParseInt s of (n, None) \<Rightarrow> Some n | _ \<Rightarrow> None)"

definition json_to_int :: "bytes \<Rightarrow> int option" where
  "json_to_int raw =
     (case json_scalar_of raw of Some (JNumber t) \<Rightarrow> parse_int t | Some JNull \<Rightarrow> Some 0 | _ \<Rightarrow> None)"

text \<open>
  A text of plain characters between quotes, as a client sends a key.
\<close>

definition plain_char :: "char \<Rightarrow> bool" where
  "plain_char c \<longleftrightarrow> 32 \<le> byte_of c \<and> byte_of c < 128 \<and> c \<noteq> CHR 34 \<and> c \<noteq> CHR 92"

definition quoted :: "string \<Rightarrow> bytes" where
  "quoted s = CHR 34 # s @ [CHR 34]"

lemma json_string_plain: "list_all plain_char s \<Longrightarrow> json_string (s @ CHR 34 # r) = Some (s, r)"
proof (induction s)
  case (Cons c s)
  then have c: "c \<noteq> CHR 34" "c \<noteq> CHR 92" "\<not> byte_of c < 32" "byte_of c < 128" by (auto simp: plain_char_def)
  then have "DecodeRune c (s @ CHR 34 # r) = (byte_of c, 1)" "EncodeRune (byte_of c) = [c]"
    by (simp_all add: DecodeRune_def EncodeRune_def Let_def byte_of_def)
  then show ?case using Cons c by simp
qed simp

lemma json_to_string_quoted: "list_all plain_char s \<Longrightarrow> json_to_string (quoted s) = Some s"
  by (simp add: json_to_string_def json_scalar_of_def json_value_def quoted_def json_space_def json_string_plain)

subsection \<open>Well-formed texts\<close>

text \<open>What a value or a string takes is not empty, so the scanner comes to an end.\<close>

lemma json_string_shorter: "json_string s = Some (t, r) \<Longrightarrow> length r < length s"
proof (induction s arbitrary: t rule: json_string.induct)
  case (2 c cs)
  from 2(4) consider (quote) "r = cs"
    | (unicode) e q u n t' where "cs = e # q" "c \<noteq> CHR 34" "c = CHR 92" "e = CHR ''u''" "unicode_escape q = Some (u, n)" "json_string (drop n q) = Some (t', r)"
    | (simple) e q d t' where "cs = e # q" "c \<noteq> CHR 34" "c = CHR 92" "e \<noteq> CHR ''u''" "simple_escape e = Some d" "json_string q = Some (t', r)"
    | (rune) u n t' where "c \<noteq> CHR 34" "c \<noteq> CHR 92" "\<not> byte_of c < 32" "DecodeRune c cs = (u, n)" "json_string (drop (n - 1) cs) = Some (t', r)"
    by (auto split: if_splits list.splits option.splits prod.splits)
  then show ?case
  proof cases
    case quote then show ?thesis by simp
  next
    case unicode
    from 2(1) [OF unicode(2,3,1,4,5) _ unicode(6)] show ?thesis using unicode(1) by simp
  next
    case simple
    from 2(2) [OF simple(2,3,1,4,5,6)] show ?thesis using simple(1) by simp
  next
    case rune
    from 2(3) [OF rune(1,2,3) rune(4) [symmetric] rune(5)] show ?thesis by simp
  qed
qed simp

lemma digit_run_shorter: "digit_run s = Some (t, r) \<Longrightarrow> length r < length s"
  by (cases s) (auto simp: digit_run_def le_imp_less_Suc length_dropWhile_le split: if_splits)

lemma json_number_shorter: "json_number s = Some (t, r) \<Longrightarrow> length r < length s"
proof -
  have i: "json_integer x = Some (y, z) \<Longrightarrow> length z < length x" for x y z
    by (auto simp: json_integer_def digit_run_shorter split: list.splits if_splits dest!: digit_run_shorter)
  have f: "json_fraction x = Some (y, z) \<Longrightarrow> length z \<le> length x" for x y z
    by (auto simp: json_fraction_def split: list.splits if_splits dest!: digit_run_shorter)
  have e: "json_exponent x = Some (y, z) \<Longrightarrow> length z \<le> length x" for x y z
    by (auto simp: json_exponent_def split: list.splits if_splits dest!: digit_run_shorter)
  assume "json_number s = Some (t, r)"
  then show ?thesis
    by (auto simp: json_number_def Let_def bind_eq_Some_conv split: if_splits dest!: i f e)
qed

lemma json_value_shorter: "json_value s = Some (v, r) \<Longrightarrow> length r < length s"
  by (auto simp: json_value_def json_keyword_def split: list.splits if_splits dest!: json_string_shorter json_number_shorter)

lemma spaced: "dropWhile p s = c # cs \<Longrightarrow> length cs < length s"
  using length_dropWhile_le [of p s] by simp

text \<open>
  \<open>json.Valid\<close>, as \<open>scanner.go\<close> does it: the arrays and objects that are open, and what may come next.
  \<open>json.Marshal\<close> fails at a \<open>json.RawMessage\<close> that is not well-formed.
\<close>

datatype json_open = InArray | InObject

datatype json_next = NextValue | NextValueOrEnd | NextKey | NextKeyOrEnd | AfterValue

definition closing :: "json_open \<Rightarrow> char" where
  "closing k = (case k of InArray \<Rightarrow> CHR '']'' | InObject \<Rightarrow> CHR ''}'')"

definition maxNestingDepth :: nat where
  "maxNestingDepth = 10000"

function json_scan :: "json_open list \<Rightarrow> json_next \<Rightarrow> string \<Rightarrow> bool" where
  "json_scan st q s =
     (case dropWhile json_space s of
        [] \<Rightarrow> q = AfterValue \<and> st = []
      | c # cs \<Rightarrow>
          if q = AfterValue then
            (case st of
               [] \<Rightarrow> False
             | k # ks \<Rightarrow>
                 if c = CHR '','' then json_scan st (case k of InArray \<Rightarrow> NextValue | InObject \<Rightarrow> NextKey) cs
                 else c = closing k \<and> json_scan ks AfterValue cs)
          else if q = NextKeyOrEnd \<and> c = CHR ''}'' \<or> q = NextValueOrEnd \<and> c = CHR '']'' then json_scan (tl st) AfterValue cs
          else if q = NextKey \<or> q = NextKeyOrEnd then
            (if c \<noteq> CHR 34 then False
             else
               (case json_string cs of
                  None \<Rightarrow> False
                | Some (t, r) \<Rightarrow>
                    (case dropWhile json_space r of [] \<Rightarrow> False | d # ds \<Rightarrow> d = CHR '':'' \<and> json_scan st NextValue ds)))
          else if c = CHR ''['' then length st < maxNestingDepth \<and> json_scan (InArray # st) NextValueOrEnd cs
          else if c = CHR ''{'' then length st < maxNestingDepth \<and> json_scan (InObject # st) NextKeyOrEnd cs
          else (case json_value (c # cs) of None \<Rightarrow> False | Some (v, r) \<Rightarrow> json_scan st AfterValue r))"
  by pat_completeness auto
termination
  by (relation "measure (\<lambda>(st, q, s). length s)")
    (auto dest!: json_value_shorter json_string_shorter dest!: spaced)

declare json_scan.simps [simp del]

definition json_valid :: "bytes \<Rightarrow> bool" where
  "json_valid raw = json_scan [] NextValue raw"

lemma json_valid_quoted: "list_all plain_char s \<Longrightarrow> json_valid (quoted s)"
  by (simp add: json_valid_def quoted_def json_scan.simps json_value_def json_space_def json_string_plain)

subsection \<open>Numbers\<close>

text \<open>A number in decimal is read as itself.\<close>

lemma nat_digits_head: "0 < n \<Longrightarrow> hd (nat_digits n) \<noteq> CHR ''0''"
proof (induction n rule: nat_digits.induct)
  case (1 n)
  show ?case
  proof (cases "n < 10")
    case True
    then have "of_char (digit_char n) \<noteq> (of_char (CHR ''0'') :: nat)" using 1 by simp
    then have "digit_char n \<noteq> CHR ''0''" by metis
    then show ?thesis using True by simp
  next
    case False
    then show ?thesis using 1 by (subst nat_digits.simps) (simp add: hd_append)
  qed
qed

lemma digit_char_0: "digit_char 0 = CHR ''0''"
  by code_simp

lemma json_integer_digits: "json_integer (nat_digits n) = Some (nat_digits n, [])"
proof -
  have all: "takeWhile is_digit (nat_digits n) = nat_digits n" "dropWhile is_digit (nat_digits n) = []"
    using nat_digits_are_digits [of n] by (auto simp: list_all_iff)
  obtain c cs where c: "nat_digits n = c # cs" by (cases "nat_digits n") auto
  show ?thesis
  proof (cases "n = 0")
    case True
    then show ?thesis by (simp add: json_integer_def digit_char_0)
  next
    case False
    then have "c \<noteq> CHR ''0''" using nat_digits_head [of n] c by simp
    then show ?thesis using all c by (simp add: json_integer_def digit_run_def)
  qed
qed

lemma json_number_FormatInt: "json_number (FormatInt z) = Some (FormatInt z, [])"
proof (cases "z < 0")
  case False
  obtain c cs where c: "nat_digits (nat z) = c # cs" by (cases "nat_digits (nat z)") auto
  have "c \<noteq> CHR ''-''" using nat_digits_head_no_sign [OF c] by simp
  then show ?thesis using False json_integer_digits [of "nat z"] c
    by (simp add: json_number_def FormatInt_def json_fraction_def json_exponent_def)
qed (simp add: json_number_def FormatInt_def json_integer_digits json_fraction_def json_exponent_def)

lemma json_to_int_FormatInt: "int64_range z \<Longrightarrow> json_to_int (FormatInt z) = Some z"
proof -
  assume z: "int64_range z"
  obtain c cs where c: "FormatInt z = c # cs" by (cases "FormatInt z") (auto simp: FormatInt_def split: if_splits)
  have "c = CHR ''-'' \<or> is_digit c"
    using c nat_digits_are_digits [of "nat z"] by (cases "z < 0") (auto simp: FormatInt_def list_all_iff)
  then have "\<not> json_space c" "c \<noteq> CHR 34" "c \<noteq> CHR ''n''" "c \<noteq> CHR ''t''" "c \<noteq> CHR ''f''"
    by (auto simp: is_digit_def char_digit_def json_space_def)
  then have "json_scalar_of (FormatInt z) = Some (JNumber (FormatInt z))"
    using json_number_FormatInt [of z] by (simp add: json_scalar_of_def json_value_def c)
  then show ?thesis using ParseInt_FormatInt [OF z] by (simp add: json_to_int_def parse_int_def)
qed

end
