(* ===== verification/RouterBase.thy ===== *)
theory RouterBase
  imports Multiplexer GoJson KvSpec
begin

text \<open>
  What the handlers of \<open>pkg/multiplexer/router.go\<close> share: the reading of an argument as a string or a number, and
  the forms a handler is made of.  A handler answers and changes its instance; \<^term>\<open>None\<close> is a panic.
\<close>

text \<open>
  What Go leaves open while a request runs: the clock, and the clock once more where an operation looks at it
  after it has given its lock back (the storing operations on sets), the order in which the map of an engine, a set and the map
  of a batch or of an answer are walked through, the clock of \<open>SRANDMEMBER\<close>, the random source of a skip list; and
  \<open>regexp.Compile\<close>.
\<close>

record env =
  env_now :: time
  env_later :: time
  env_keys :: "string list"
  env_iter :: set_order
  env_batch :: "string list"
  env_clock :: "nat \<Rightarrow> int"
  env_src :: "bool stream"
  env_compile :: regexp_compile

subsection \<open>Arguments\<close>

text \<open>\<^term>\<open>None\<close> is an error; \<open>unmarshalString\<close> returns none and takes a text it cannot read as it is.\<close>

definition unmarshalString :: "bytes \<Rightarrow> string option" where
  "unmarshalString raw = (case json_to_string raw of None \<Rightarrow> Some raw | Some s \<Rightarrow> Some s)"

definition unmarshalFloat64 :: "bytes \<Rightarrow> float64 option" where
  "unmarshalFloat64 raw =
     (case json_to_float raw of
        Some f \<Rightarrow> Some f
      | None \<Rightarrow> (case json_to_string raw of Some s \<Rightarrow> ParseFloat s | None \<Rightarrow> None))"

definition unmarshalInt :: "bytes \<Rightarrow> int option" where
  "unmarshalInt raw =
     (case json_to_int raw of
        Some i \<Rightarrow> Some i
      | None \<Rightarrow> (case json_to_string raw of Some s \<Rightarrow> parse_int s | None \<Rightarrow> None))"

definition unmarshalInt64 :: "bytes \<Rightarrow> int option" where
  "unmarshalInt64 raw =
     (case json_to_int raw of
        Some i \<Rightarrow> Some i
      | None \<Rightarrow> (case json_to_string raw of Some s \<Rightarrow> parse_int s | None \<Rightarrow> None))"

definition milliseconds :: "int \<Rightarrow> int" where
  "milliseconds ms = wrap64 (ms * 1000000)"

definition optional_int :: "bytes list \<Rightarrow> nat \<Rightarrow> int \<Rightarrow> int option" where
  "optional_int args i dflt = (if i < length args then unmarshalInt (args ! i) else Some dflt)"

subsection \<open>Handlers\<close>

type_synonym ('e, 'w) handler = "'e \<times> 'w \<Rightarrow> (Response \<times> 'e \<times> 'w) option"

definition respond :: "Response \<Rightarrow> ('e, 'w) handler" where
  "respond r = (\<lambda>s. Some (r, s))"

definition require :: "bool \<Rightarrow> string \<Rightarrow> ('e, 'w) handler \<Rightarrow> ('e, 'w) handler" where
  "require b msg h = (if b then h else respond (FailMsg msg))"

definition parsed :: "'a option \<Rightarrow> string \<Rightarrow> ('a \<Rightarrow> ('e, 'w) handler) \<Rightarrow> ('e, 'w) handler" where
  "parsed arg msg h = (case arg of None \<Rightarrow> respond (FailMsg msg) | Some x \<Rightarrow> h x)"

definition ending :: "('r \<Rightarrow> Response) \<Rightarrow> ('r \<times> 's) option \<Rightarrow> (Response \<times> 's) option" where
  "ending f r = map_option (map_prod f id) r"

definition finished :: "goerr option \<Rightarrow> Response" where
  "finished err = (case err of None \<Rightarrow> OK | Some e \<Rightarrow> Fail e)"

definition or_fail :: "('a \<Rightarrow> Response) \<Rightarrow> goerr + 'a \<Rightarrow> Response" where
  "or_fail f r = (case r of Inl e \<Rightarrow> Fail e | Inr x \<Rightarrow> f x)"

definition counted :: "int \<times> goerr option \<Rightarrow> Response" where
  "counted = (\<lambda>(n, err). case err of None \<Rightarrow> WithInteger n | Some e \<Rightarrow> Fail e)"

definition found_entries :: "env \<Rightarrow> (string \<rightharpoonup> bytes list) \<Rightarrow> Entry list" where
  "found_entries env f = List.map_filter (\<lambda>k. map_option (\<lambda>vs. \<lparr>Entry_Key = k, Entry_Items = vs\<rparr>) (f k)) (env_batch env)"

end
