(* ===== verification/RouterKv.thy ===== *)
theory RouterKv
  imports RouterBase
begin

text \<open>
  The methods of a key-value instance (\<open>executeKV\<close> of \<open>pkg/multiplexer/router.go\<close>), one definition per method.
\<close>

definition kv_SET :: "env \<Rightarrow> 'w logger \<Rightarrow> bytes list \<Rightarrow> (Storage, 'w) handler" where
  "kv_SET env lg args =
     require (2 \<le> length args) ''SET requires key and value''
       (parsed (unmarshalString (args ! 0)) ''failed to parse key'' (\<lambda>key s.
         ending finished (kv_Set lg key (args ! 1) (NewPayloadMetadata (env_now env) None) s)))"

definition kv_SET_TTL :: "env \<Rightarrow> 'w logger \<Rightarrow> bytes list \<Rightarrow> (Storage, 'w) handler" where
  "kv_SET_TTL env lg args =
     require (3 \<le> length args) ''SET_TTL requires key, value, and ttl_ms''
       (parsed (unmarshalString (args ! 0)) ''failed to parse key'' (\<lambda>key.
        parsed (unmarshalInt64 (args ! 2)) ''invalid ttl_ms parameter'' (\<lambda>ttlMs s.
         ending finished (kv_SetWithTTL lg (env_now env) key (args ! 1) (milliseconds ttlMs) s))))"

definition kv_GET :: "env \<Rightarrow> 'w logger \<Rightarrow> bytes list \<Rightarrow> (Storage, 'w) handler" where
  "kv_GET env lg args =
     require (1 \<le> length args) ''GET requires key''
       (parsed (unmarshalString (args ! 0)) ''failed to parse key'' (\<lambda>key s.
         ending (or_fail WithValue) (kv_Get lg (env_now env) key s)))"

definition kv_DEL :: "env \<Rightarrow> 'w logger \<Rightarrow> bytes list \<Rightarrow> (Storage, 'w) handler" where
  "kv_DEL env lg args =
     require (1 \<le> length args) ''DEL requires key''
       (parsed (unmarshalString (args ! 0)) ''failed to parse key'' (\<lambda>key s.
         ending finished (kv_Delete lg key s)))"

definition kv_EXISTS :: "env \<Rightarrow> 'w logger \<Rightarrow> bytes list \<Rightarrow> (Storage, 'w) handler" where
  "kv_EXISTS env lg args =
     require (1 \<le> length args) ''EXISTS requires key''
       (parsed (unmarshalString (args ! 0)) ''failed to parse key'' (\<lambda>key s.
         ending WithBoolean (kv_Exists lg (env_now env) key s)))"

definition kv_INCR :: "env \<Rightarrow> 'w logger \<Rightarrow> bytes list \<Rightarrow> (Storage, 'w) handler" where
  "kv_INCR env lg args =
     require (1 \<le> length args) ''INCR requires key''
       (parsed (unmarshalString (args ! 0)) ''failed to parse key'' (\<lambda>key s.
         ending (or_fail WithInteger) (kv_Increment lg (env_now env) key s)))"

definition kv_DECR :: "env \<Rightarrow> 'w logger \<Rightarrow> bytes list \<Rightarrow> (Storage, 'w) handler" where
  "kv_DECR env lg args =
     require (1 \<le> length args) ''DECR requires key''
       (parsed (unmarshalString (args ! 0)) ''failed to parse key'' (\<lambda>key s.
         ending (or_fail WithInteger) (kv_Decrement lg (env_now env) key s)))"

definition kv_INCRBY :: "env \<Rightarrow> 'w logger \<Rightarrow> bytes list \<Rightarrow> (Storage, 'w) handler" where
  "kv_INCRBY env lg args =
     require (2 \<le> length args) ''INCRBY requires key and amount''
       (parsed (unmarshalString (args ! 0)) ''failed to parse key'' (\<lambda>key.
        parsed (unmarshalInt64 (args ! 1)) ''invalid amount parameter'' (\<lambda>amt s.
         ending (or_fail WithInteger) (kv_IncrementBy lg (env_now env) key amt s))))"

definition kv_DECRBY :: "env \<Rightarrow> 'w logger \<Rightarrow> bytes list \<Rightarrow> (Storage, 'w) handler" where
  "kv_DECRBY env lg args =
     require (2 \<le> length args) ''DECRBY requires key and amount''
       (parsed (unmarshalString (args ! 0)) ''failed to parse key'' (\<lambda>key.
        parsed (unmarshalInt64 (args ! 1)) ''invalid amount parameter'' (\<lambda>amt s.
         ending (or_fail WithInteger) (kv_DecrementBy lg (env_now env) key amt s))))"

text \<open>A key that is not there is answered with \<open>null\<close>.\<close>

definition mget_data :: "string list \<Rightarrow> (string \<rightharpoonup> bytes option) \<Rightarrow> (string \<rightharpoonup> bytes option)" where
  "mget_data keys resMap =
     (\<lambda>k. if k \<in> set keys then Some (case resMap k of Some v \<Rightarrow> v | None \<Rightarrow> None) else None)"

definition kv_MGET :: "env \<Rightarrow> 'w logger \<Rightarrow> bytes list \<Rightarrow> (Storage, 'w) handler" where
  "kv_MGET env lg args =
     require (1 \<le> length args) ''MGET requires at least one key''
       (parsed (those (map unmarshalString args)) ''failed to parse key'' (\<lambda>keys s.
         ending (\<lambda>r. WithKeyVals (mget_data keys r)) (kv_Mget lg (env_now env) keys s)))"

text \<open>The payloads by key, a later one in place of an earlier one; the map is then walked through in the order \<open>ks\<close>.\<close>

fun mset_pairs :: "PayloadMetadata \<Rightarrow> bytes list \<Rightarrow> (string \<rightharpoonup> Payload) \<Rightarrow> (string \<rightharpoonup> Payload) option" where
  "mset_pairs md (k # v # args) pm =
     (case unmarshalString k of None \<Rightarrow> None | Some key \<Rightarrow> mset_pairs md args (pm(key \<mapsto> NewPayload v md)))"
| "mset_pairs md args pm = Some pm"

definition in_order :: "string list \<Rightarrow> (string \<rightharpoonup> 'v) \<Rightarrow> (string \<times> 'v) list" where
  "in_order ks f = List.map_filter (\<lambda>k. map_option (Pair k) (f k)) ks"

definition kv_MSET :: "env \<Rightarrow> 'w logger \<Rightarrow> bytes list \<Rightarrow> (Storage, 'w) handler" where
  "kv_MSET env lg args =
     require (even (length args)) ''MSET requires key-value pairs''
       (parsed (mset_pairs (NewPayloadMetadata (env_now env) None) args Map.empty) ''failed to parse key'' (\<lambda>payloadMap s.
         ending finished (kv_Mset lg (in_order (env_batch env) payloadMap) s)))"

definition kv_MSET_TTL :: "env \<Rightarrow> 'w logger \<Rightarrow> bytes list \<Rightarrow> (Storage, 'w) handler" where
  "kv_MSET_TTL env lg args =
     require (3 \<le> length args \<and> odd (length args)) ''MSET_TTL requires key-value pairs followed by ttl_ms''
       (parsed (unmarshalInt64 (last args)) ''invalid ttl_ms parameter'' (\<lambda>ttlMs.
         let expAt = env_now env + milliseconds ttlMs in
         parsed (mset_pairs (NewPayloadMetadata (env_now env) (Some expAt)) (butlast args) Map.empty) ''failed to parse key'' (\<lambda>payloadMap s.
           ending finished (kv_MsetWithTTL lg (env_now env) (in_order (env_batch env) payloadMap) (milliseconds ttlMs) s))))"

definition kv_COUNT_PREFIX :: "env \<Rightarrow> 'w logger \<Rightarrow> bytes list \<Rightarrow> (Storage, 'w) handler" where
  "kv_COUNT_PREFIX env lg args =
     require (1 \<le> length args) ''COUNT_PREFIX requires prefix''
       (parsed (unmarshalString (args ! 0)) ''failed to parse prefix'' (\<lambda>pref s.
         ending WithInteger (kv_CountByPrefix lg (env_now env) (env_keys env) pref s)))"

definition kv_FIND_PREFIX :: "env \<Rightarrow> 'w logger \<Rightarrow> bytes list \<Rightarrow> (Storage, 'w) handler" where
  "kv_FIND_PREFIX env lg args =
     require (1 \<le> length args) ''FIND_PREFIX requires prefix''
       (parsed (unmarshalString (args ! 0)) ''failed to parse prefix'' (\<lambda>pref s.
         ending (\<lambda>f. WithKeyVals (map_option Some \<circ> f)) (kv_FindByPrefix lg (env_now env) (env_keys env) pref s)))"

definition kv_DEL_PREFIX :: "env \<Rightarrow> 'w logger \<Rightarrow> bytes list \<Rightarrow> (Storage, 'w) handler" where
  "kv_DEL_PREFIX env lg args =
     require (1 \<le> length args) ''DEL_PREFIX requires prefix''
       (parsed (unmarshalString (args ! 0)) ''failed to parse prefix'' (\<lambda>pref s.
         ending WithInteger (kv_DeleteByPrefix lg (env_now env) (env_keys env) pref s)))"

definition kv_COUNT_SUFFIX :: "env \<Rightarrow> 'w logger \<Rightarrow> bytes list \<Rightarrow> (Storage, 'w) handler" where
  "kv_COUNT_SUFFIX env lg args =
     require (1 \<le> length args) ''COUNT_SUFFIX requires suffix''
       (parsed (unmarshalString (args ! 0)) ''failed to parse suffix'' (\<lambda>suf s.
         ending WithInteger (kv_CountBySuffix lg (env_now env) (env_keys env) suf s)))"

definition kv_FIND_SUFFIX :: "env \<Rightarrow> 'w logger \<Rightarrow> bytes list \<Rightarrow> (Storage, 'w) handler" where
  "kv_FIND_SUFFIX env lg args =
     require (1 \<le> length args) ''FIND_SUFFIX requires suffix''
       (parsed (unmarshalString (args ! 0)) ''failed to parse suffix'' (\<lambda>suf s.
         ending (\<lambda>f. WithKeyVals (map_option Some \<circ> f)) (kv_FindBySuffix lg (env_now env) (env_keys env) suf s)))"

definition kv_DEL_SUFFIX :: "env \<Rightarrow> 'w logger \<Rightarrow> bytes list \<Rightarrow> (Storage, 'w) handler" where
  "kv_DEL_SUFFIX env lg args =
     require (1 \<le> length args) ''DEL_SUFFIX requires suffix''
       (parsed (unmarshalString (args ! 0)) ''failed to parse suffix'' (\<lambda>suf s.
         ending WithInteger (kv_DeleteBySuffix lg (env_now env) (env_keys env) suf s)))"

definition kv_COUNT_REGEX :: "env \<Rightarrow> 'w logger \<Rightarrow> bytes list \<Rightarrow> (Storage, 'w) handler" where
  "kv_COUNT_REGEX env lg args =
     require (1 \<le> length args) ''COUNT_REGEX requires regex''
       (parsed (unmarshalString (args ! 0)) ''failed to parse regex'' (\<lambda>rx s.
         ending (or_fail WithInteger) (kv_CountByRegex (env_compile env) lg (env_now env) (env_keys env) rx s)))"

definition kv_FIND_REGEX :: "env \<Rightarrow> 'w logger \<Rightarrow> bytes list \<Rightarrow> (Storage, 'w) handler" where
  "kv_FIND_REGEX env lg args =
     require (1 \<le> length args) ''FIND_REGEX requires regex''
       (parsed (unmarshalString (args ! 0)) ''failed to parse regex'' (\<lambda>rx s.
         ending (or_fail (\<lambda>f. WithKeyVals (map_option Some \<circ> f))) (kv_FindByRegex (env_compile env) lg (env_now env) (env_keys env) rx s)))"

definition kv_DEL_REGEX :: "env \<Rightarrow> 'w logger \<Rightarrow> bytes list \<Rightarrow> (Storage, 'w) handler" where
  "kv_DEL_REGEX env lg args =
     require (1 \<le> length args) ''DEL_REGEX requires regex''
       (parsed (unmarshalString (args ! 0)) ''failed to parse regex'' (\<lambda>rx s.
         ending counted (kv_DeleteByRegex (env_compile env) lg (env_now env) (env_keys env) rx s)))"

definition kv_method :: "env \<Rightarrow> 'w logger \<Rightarrow> string \<Rightarrow> bytes list \<Rightarrow> (Storage, 'w) handler" where
  "kv_method env lg mth args =
     (if mth = ''SET'' then kv_SET env lg args
      else if mth = ''SET_TTL'' then kv_SET_TTL env lg args
      else if mth = ''GET'' then kv_GET env lg args
      else if mth = ''DEL'' then kv_DEL env lg args
      else if mth = ''EXISTS'' then kv_EXISTS env lg args
      else if mth = ''INCR'' then kv_INCR env lg args
      else if mth = ''DECR'' then kv_DECR env lg args
      else if mth = ''INCRBY'' then kv_INCRBY env lg args
      else if mth = ''DECRBY'' then kv_DECRBY env lg args
      else if mth = ''MGET'' then kv_MGET env lg args
      else if mth = ''MSET'' then kv_MSET env lg args
      else if mth = ''MSET_TTL'' then kv_MSET_TTL env lg args
      else if mth = ''COUNT_PREFIX'' then kv_COUNT_PREFIX env lg args
      else if mth = ''COUNT_SUFFIX'' then kv_COUNT_SUFFIX env lg args
      else if mth = ''COUNT_REGEX'' then kv_COUNT_REGEX env lg args
      else if mth = ''FIND_PREFIX'' then kv_FIND_PREFIX env lg args
      else if mth = ''FIND_SUFFIX'' then kv_FIND_SUFFIX env lg args
      else if mth = ''FIND_REGEX'' then kv_FIND_REGEX env lg args
      else if mth = ''DEL_PREFIX'' then kv_DEL_PREFIX env lg args
      else if mth = ''DEL_SUFFIX'' then kv_DEL_SUFFIX env lg args
      else if mth = ''DEL_REGEX'' then kv_DEL_REGEX env lg args
      else respond (FailMsg ''unknown method''))"

definition executeKV :: "env \<Rightarrow> 'w logger \<Rightarrow> Request \<Rightarrow> (Multiplexer, 'w) handler" where
  "executeKV env lg req =
     on_kv (UUID req) (Fail ErrInstanceNotFound) (kv_method env (ScopedWalLogger_Log lg (UUID req)) (Method req) (Args req))"

end
