(* ===== verification/RouterList.thy ===== *)
theory RouterList
  imports RouterBase
begin

text \<open>
  The methods of a list instance (\<open>executeList\<close> of \<open>pkg/multiplexer/router.go\<close>).
\<close>

definition list_LPUSH :: "env \<Rightarrow> 'w logger \<Rightarrow> bytes list \<Rightarrow> (ListStorage, 'w) handler" where
  "list_LPUSH env lg args =
     require (2 \<le> length args) ''LPUSH requires key and at least one value''
       (parsed (unmarshalString (args ! 0)) ''failed to parse key'' (\<lambda>key s.
         ending finished (LeftPush lg (env_now env) key (drop 1 args) None s)))"

definition list_RPUSH :: "env \<Rightarrow> 'w logger \<Rightarrow> bytes list \<Rightarrow> (ListStorage, 'w) handler" where
  "list_RPUSH env lg args =
     require (2 \<le> length args) ''RPUSH requires key and at least one value''
       (parsed (unmarshalString (args ! 0)) ''failed to parse key'' (\<lambda>key s.
         ending finished (RightPush lg (env_now env) key (drop 1 args) None s)))"

definition list_LPOP :: "env \<Rightarrow> 'w logger \<Rightarrow> bytes list \<Rightarrow> (ListStorage, 'w) handler" where
  "list_LPOP env lg args =
     require (1 \<le> length args) ''LPOP requires key''
       (parsed (unmarshalString (args ! 0)) ''failed to parse key'' (\<lambda>key s.
         ending (or_fail WithValue) (LeftPop lg (env_now env) key s)))"

definition list_RPOP :: "env \<Rightarrow> 'w logger \<Rightarrow> bytes list \<Rightarrow> (ListStorage, 'w) handler" where
  "list_RPOP env lg args =
     require (1 \<le> length args) ''RPOP requires key''
       (parsed (unmarshalString (args ! 0)) ''failed to parse key'' (\<lambda>key s.
         ending (or_fail WithValue) (RightPop lg (env_now env) key s)))"

definition list_LLEN :: "env \<Rightarrow> 'w logger \<Rightarrow> bytes list \<Rightarrow> (ListStorage, 'w) handler" where
  "list_LLEN env lg args =
     require (1 \<le> length args) ''LLEN requires key''
       (parsed (unmarshalString (args ! 0)) ''failed to parse key'' (\<lambda>key s.
         ending WithInteger (list_Len lg (env_now env) key s)))"

definition list_LRANGE :: "env \<Rightarrow> 'w logger \<Rightarrow> bytes list \<Rightarrow> (ListStorage, 'w) handler" where
  "list_LRANGE env lg args =
     require (3 \<le> length args) ''LRANGE requires key, start, and stop''
       (parsed (unmarshalString (args ! 0)) ''failed to parse key'' (\<lambda>key.
        parsed (unmarshalInt (args ! 1)) ''invalid start index'' (\<lambda>start.
        parsed (unmarshalInt (args ! 2)) ''invalid stop index'' (\<lambda>stop s.
         ending WithItems (list_Range lg (env_now env) key start stop s)))))"

definition list_LINDEX :: "env \<Rightarrow> 'w logger \<Rightarrow> bytes list \<Rightarrow> (ListStorage, 'w) handler" where
  "list_LINDEX env lg args =
     require (2 \<le> length args) ''LINDEX requires key and index''
       (parsed (unmarshalString (args ! 0)) ''failed to parse key'' (\<lambda>key.
        parsed (unmarshalInt (args ! 1)) ''invalid index'' (\<lambda>idx s.
         ending (or_fail WithValue) (list_Index lg (env_now env) key idx s))))"

definition list_LSET :: "env \<Rightarrow> 'w logger \<Rightarrow> bytes list \<Rightarrow> (ListStorage, 'w) handler" where
  "list_LSET env lg args =
     require (3 \<le> length args) ''LSET requires key, index, and value''
       (parsed (unmarshalString (args ! 0)) ''failed to parse key'' (\<lambda>key.
        parsed (unmarshalInt (args ! 1)) ''invalid index'' (\<lambda>idx s.
         ending finished (ReplaceAtIndex lg (env_now env) key idx (args ! 2) s))))"

text \<open>\<open>BEFORE\<close> or \<open>AFTER\<close>.\<close>

definition insert_position :: "string \<Rightarrow> bool option" where
  "insert_position pos = (if pos = ''BEFORE'' then Some True else if pos = ''AFTER'' then Some False else None)"

definition list_LINSERT :: "env \<Rightarrow> 'w logger \<Rightarrow> bytes list \<Rightarrow> (ListStorage, 'w) handler" where
  "list_LINSERT env lg args =
     require (4 \<le> length args) ''LINSERT requires key, BEFORE/AFTER, pivot, and value''
       (parsed (unmarshalString (args ! 0)) ''failed to parse key'' (\<lambda>key.
        parsed (unmarshalString (args ! 1)) ''failed to parse position'' (\<lambda>pos.
        parsed (insert_position pos) ''invalid position (must be BEFORE or AFTER)'' (\<lambda>before s.
         ending (or_fail WithInteger) (list_Insert lg (env_now env) key (args ! 2) (args ! 3) before s)))))"

definition list_LREM :: "env \<Rightarrow> 'w logger \<Rightarrow> bytes list \<Rightarrow> (ListStorage, 'w) handler" where
  "list_LREM env lg args =
     require (3 \<le> length args) ''LREM requires key, count, and value''
       (parsed (unmarshalString (args ! 0)) ''failed to parse key'' (\<lambda>key.
        parsed (unmarshalInt (args ! 1)) ''invalid count'' (\<lambda>count s.
         ending (or_fail WithInteger) (list_Remove lg (env_now env) key count (args ! 2) s))))"

definition list_LPOS :: "env \<Rightarrow> 'w logger \<Rightarrow> bytes list \<Rightarrow> (ListStorage, 'w) handler" where
  "list_LPOS env lg args =
     require (2 \<le> length args) ''LPOS requires key and value''
       (parsed (unmarshalString (args ! 0)) ''failed to parse key'' (\<lambda>key s.
         ending WithInteger (list_Pos lg (env_now env) key (args ! 1) s)))"

definition list_RPOPLPUSH :: "env \<Rightarrow> 'w logger \<Rightarrow> bytes list \<Rightarrow> (ListStorage, 'w) handler" where
  "list_RPOPLPUSH env lg args =
     require (2 \<le> length args) ''RPOPLPUSH requires keyFrom and keyTo''
       (parsed (unmarshalString (args ! 0)) ''failed to parse keyFrom'' (\<lambda>keyFrom.
        parsed (unmarshalString (args ! 1)) ''failed to parse keyTo'' (\<lambda>keyTo s.
         ending (or_fail WithValue) (list_Move lg (env_now env) keyFrom keyTo False True s))))"

definition list_LGET :: "env \<Rightarrow> 'w logger \<Rightarrow> bytes list \<Rightarrow> (ListStorage, 'w) handler" where
  "list_LGET env lg args =
     require (1 \<le> length args) ''LGET requires key''
       (parsed (unmarshalString (args ! 0)) ''failed to parse key'' (\<lambda>key s.
         ending WithItems (list_Get lg (env_now env) key s)))"

definition list_DEL :: "env \<Rightarrow> 'w logger \<Rightarrow> bytes list \<Rightarrow> (ListStorage, 'w) handler" where
  "list_DEL env lg args =
     require (1 \<le> length args) ''DEL requires key''
       (parsed (unmarshalString (args ! 0)) ''failed to parse key'' (\<lambda>key s.
         ending finished (list_Delete lg key s)))"

definition list_COUNT_PREFIX :: "env \<Rightarrow> 'w logger \<Rightarrow> bytes list \<Rightarrow> (ListStorage, 'w) handler" where
  "list_COUNT_PREFIX env lg args =
     require (1 \<le> length args) ''COUNT_PREFIX requires prefix''
       (parsed (unmarshalString (args ! 0)) ''failed to parse prefix'' (\<lambda>pref s.
         ending WithInteger (list_CountByPrefix lg (env_now env) (env_keys env) pref s)))"

definition list_FIND_PREFIX :: "env \<Rightarrow> 'w logger \<Rightarrow> bytes list \<Rightarrow> (ListStorage, 'w) handler" where
  "list_FIND_PREFIX env lg args =
     require (1 \<le> length args) ''FIND_PREFIX requires prefix''
       (parsed (unmarshalString (args ! 0)) ''failed to parse prefix'' (\<lambda>pref s.
         ending (\<lambda>f. WithEntries (found_entries env f)) (list_FindByPrefix lg (env_now env) (env_keys env) pref s)))"

definition list_DEL_PREFIX :: "env \<Rightarrow> 'w logger \<Rightarrow> bytes list \<Rightarrow> (ListStorage, 'w) handler" where
  "list_DEL_PREFIX env lg args =
     require (1 \<le> length args) ''DEL_PREFIX requires prefix''
       (parsed (unmarshalString (args ! 0)) ''failed to parse prefix'' (\<lambda>pref s.
         ending counted (list_DeleteByPrefix lg (env_now env) (env_keys env) pref s)))"

definition list_COUNT_SUFFIX :: "env \<Rightarrow> 'w logger \<Rightarrow> bytes list \<Rightarrow> (ListStorage, 'w) handler" where
  "list_COUNT_SUFFIX env lg args =
     require (1 \<le> length args) ''COUNT_SUFFIX requires suffix''
       (parsed (unmarshalString (args ! 0)) ''failed to parse suffix'' (\<lambda>suf s.
         ending WithInteger (list_CountBySuffix lg (env_now env) (env_keys env) suf s)))"

definition list_FIND_SUFFIX :: "env \<Rightarrow> 'w logger \<Rightarrow> bytes list \<Rightarrow> (ListStorage, 'w) handler" where
  "list_FIND_SUFFIX env lg args =
     require (1 \<le> length args) ''FIND_SUFFIX requires suffix''
       (parsed (unmarshalString (args ! 0)) ''failed to parse suffix'' (\<lambda>suf s.
         ending (\<lambda>f. WithEntries (found_entries env f)) (list_FindBySuffix lg (env_now env) (env_keys env) suf s)))"

definition list_DEL_SUFFIX :: "env \<Rightarrow> 'w logger \<Rightarrow> bytes list \<Rightarrow> (ListStorage, 'w) handler" where
  "list_DEL_SUFFIX env lg args =
     require (1 \<le> length args) ''DEL_SUFFIX requires suffix''
       (parsed (unmarshalString (args ! 0)) ''failed to parse suffix'' (\<lambda>suf s.
         ending counted (list_DeleteBySuffix lg (env_now env) (env_keys env) suf s)))"

definition list_COUNT_REGEX :: "env \<Rightarrow> 'w logger \<Rightarrow> bytes list \<Rightarrow> (ListStorage, 'w) handler" where
  "list_COUNT_REGEX env lg args =
     require (1 \<le> length args) ''COUNT_REGEX requires regex''
       (parsed (unmarshalString (args ! 0)) ''failed to parse regex'' (\<lambda>rx s.
         ending (or_fail WithInteger) (list_CountByRegex (env_compile env) lg (env_now env) (env_keys env) rx s)))"

definition list_FIND_REGEX :: "env \<Rightarrow> 'w logger \<Rightarrow> bytes list \<Rightarrow> (ListStorage, 'w) handler" where
  "list_FIND_REGEX env lg args =
     require (1 \<le> length args) ''FIND_REGEX requires regex''
       (parsed (unmarshalString (args ! 0)) ''failed to parse regex'' (\<lambda>rx s.
         ending (or_fail (\<lambda>f. WithEntries (found_entries env f))) (list_FindByRegex (env_compile env) lg (env_now env) (env_keys env) rx s)))"

definition list_DEL_REGEX :: "env \<Rightarrow> 'w logger \<Rightarrow> bytes list \<Rightarrow> (ListStorage, 'w) handler" where
  "list_DEL_REGEX env lg args =
     require (1 \<le> length args) ''DEL_REGEX requires regex''
       (parsed (unmarshalString (args ! 0)) ''failed to parse regex'' (\<lambda>rx s.
         ending counted (list_DeleteByRegex (env_compile env) lg (env_now env) (env_keys env) rx s)))"

definition list_method :: "env \<Rightarrow> 'w logger \<Rightarrow> string \<Rightarrow> bytes list \<Rightarrow> (ListStorage, 'w) handler" where
  "list_method env lg mth args =
     (if mth = ''LPUSH'' then list_LPUSH env lg args
      else if mth = ''RPUSH'' then list_RPUSH env lg args
      else if mth = ''LPOP'' then list_LPOP env lg args
      else if mth = ''RPOP'' then list_RPOP env lg args
      else if mth = ''LLEN'' then list_LLEN env lg args
      else if mth = ''LRANGE'' then list_LRANGE env lg args
      else if mth = ''LINDEX'' then list_LINDEX env lg args
      else if mth = ''LSET'' then list_LSET env lg args
      else if mth = ''LINSERT'' then list_LINSERT env lg args
      else if mth = ''LREM'' then list_LREM env lg args
      else if mth = ''LPOS'' then list_LPOS env lg args
      else if mth = ''RPOPLPUSH'' then list_RPOPLPUSH env lg args
      else if mth = ''LGET'' then list_LGET env lg args
      else if mth = ''DEL'' then list_DEL env lg args
      else if mth = ''COUNT_PREFIX'' then list_COUNT_PREFIX env lg args
      else if mth = ''COUNT_SUFFIX'' then list_COUNT_SUFFIX env lg args
      else if mth = ''COUNT_REGEX'' then list_COUNT_REGEX env lg args
      else if mth = ''FIND_PREFIX'' then list_FIND_PREFIX env lg args
      else if mth = ''FIND_SUFFIX'' then list_FIND_SUFFIX env lg args
      else if mth = ''FIND_REGEX'' then list_FIND_REGEX env lg args
      else if mth = ''DEL_PREFIX'' then list_DEL_PREFIX env lg args
      else if mth = ''DEL_SUFFIX'' then list_DEL_SUFFIX env lg args
      else if mth = ''DEL_REGEX'' then list_DEL_REGEX env lg args
      else respond (FailMsg ''unknown method''))"

definition executeList :: "env \<Rightarrow> 'w logger \<Rightarrow> Request \<Rightarrow> (Multiplexer, 'w) handler" where
  "executeList env lg req =
     on_list (UUID req) (Fail ErrInstanceNotFound) (list_method env (ScopedWalLogger_Log lg (UUID req)) (Method req) (Args req))"

end
