(* ===== verification/RouterSet.thy ===== *)
theory RouterSet
  imports RouterBase
begin

text \<open>
  The methods of a set instance (\<open>executeSet\<close> of \<open>pkg/multiplexer/router.go\<close>).
\<close>

definition set_SADD :: "env \<Rightarrow> 'w logger \<Rightarrow> bytes list \<Rightarrow> (SetStorage, 'w) handler" where
  "set_SADD env lg args =
     require (2 \<le> length args) ''SADD requires key and at least one member''
       (parsed (unmarshalString (args ! 0)) ''failed to parse key'' (\<lambda>key s.
         ending (or_fail WithInteger) (SAdd lg (env_now env) key (drop 1 args) None s)))"

definition set_SREM :: "env \<Rightarrow> 'w logger \<Rightarrow> bytes list \<Rightarrow> (SetStorage, 'w) handler" where
  "set_SREM env lg args =
     require (2 \<le> length args) ''SREM requires key and at least one member''
       (parsed (unmarshalString (args ! 0)) ''failed to parse key'' (\<lambda>key s.
         ending (or_fail WithInteger) (SRem lg (env_now env) key (drop 1 args) s)))"

definition set_SPOP :: "env \<Rightarrow> 'w logger \<Rightarrow> bytes list \<Rightarrow> (SetStorage, 'w) handler" where
  "set_SPOP env lg args =
     require (1 \<le> length args) ''SPOP requires key''
       (parsed (unmarshalString (args ! 0)) ''failed to parse key'' (\<lambda>key.
        parsed (optional_int args 1 1) ''invalid count'' (\<lambda>count s.
         ending (or_fail WithItems) (SPop lg (env_now env) (env_iter env) key count s))))"

definition set_SMOVE :: "env \<Rightarrow> 'w logger \<Rightarrow> bytes list \<Rightarrow> (SetStorage, 'w) handler" where
  "set_SMOVE env lg args =
     require (3 \<le> length args) ''SMOVE requires source, destination, and member''
       (parsed (unmarshalString (args ! 0)) ''failed to parse source key'' (\<lambda>srcKey.
        parsed (unmarshalString (args ! 1)) ''failed to parse destination key'' (\<lambda>dstKey s.
         ending (or_fail WithBoolean) (SMove lg (env_now env) srcKey dstKey (args ! 2) s))))"

definition set_SISMEMBER :: "env \<Rightarrow> 'w logger \<Rightarrow> bytes list \<Rightarrow> (SetStorage, 'w) handler" where
  "set_SISMEMBER env lg args =
     require (2 \<le> length args) ''SISMEMBER requires key and member''
       (parsed (unmarshalString (args ! 0)) ''failed to parse key'' (\<lambda>key s.
         ending WithBoolean (SIsMember lg (env_now env) key (args ! 1) s)))"

definition set_SMISMEMBER :: "env \<Rightarrow> 'w logger \<Rightarrow> bytes list \<Rightarrow> (SetStorage, 'w) handler" where
  "set_SMISMEMBER env lg args =
     require (2 \<le> length args) ''SMISMEMBER requires key and at least one member''
       (parsed (unmarshalString (args ! 0)) ''failed to parse key'' (\<lambda>key s.
         ending WithFlags (SMIsMember lg (env_now env) key (drop 1 args) s)))"

definition set_SMEMBERS :: "env \<Rightarrow> 'w logger \<Rightarrow> bytes list \<Rightarrow> (SetStorage, 'w) handler" where
  "set_SMEMBERS env lg args =
     require (1 \<le> length args) ''SMEMBERS requires key''
       (parsed (unmarshalString (args ! 0)) ''failed to parse key'' (\<lambda>key s.
         ending WithItems (SMembers lg (env_now env) (env_iter env) key s)))"

definition set_SCARD :: "env \<Rightarrow> 'w logger \<Rightarrow> bytes list \<Rightarrow> (SetStorage, 'w) handler" where
  "set_SCARD env lg args =
     require (1 \<le> length args) ''SCARD requires key''
       (parsed (unmarshalString (args ! 0)) ''failed to parse key'' (\<lambda>key s.
         ending WithInteger (SCard lg (env_now env) key s)))"

definition set_SRANDMEMBER :: "env \<Rightarrow> 'w logger \<Rightarrow> bytes list \<Rightarrow> (SetStorage, 'w) handler" where
  "set_SRANDMEMBER env lg args =
     require (1 \<le> length args) ''SRANDMEMBER requires key''
       (parsed (unmarshalString (args ! 0)) ''failed to parse key'' (\<lambda>key.
        parsed (optional_int args 1 1) ''invalid count'' (\<lambda>count s.
         ending WithItems (SRandMember lg (env_now env) (env_clock env) (env_iter env) key count s))))"

definition set_SINTER :: "env \<Rightarrow> 'w logger \<Rightarrow> bytes list \<Rightarrow> (SetStorage, 'w) handler" where
  "set_SINTER env lg args =
     require (1 \<le> length args) ''SINTER requires at least one key''
       (parsed (those (map unmarshalString args)) ''failed to parse key'' (\<lambda>keys s.
         ending WithItems (SInter lg (env_now env) (env_iter env) keys s)))"

definition set_SINTERSTORE :: "env \<Rightarrow> 'w logger \<Rightarrow> bytes list \<Rightarrow> (SetStorage, 'w) handler" where
  "set_SINTERSTORE env lg args =
     require (2 \<le> length args) ''SINTERSTORE requires destination and at least one source key''
       (parsed (unmarshalString (args ! 0)) ''failed to parse destination key'' (\<lambda>dstKey.
        parsed (those (map unmarshalString (drop 1 args))) ''failed to parse key'' (\<lambda>keys s.
         ending (or_fail WithInteger) (SInterStore lg (env_now env) (env_later env) (env_iter env) dstKey keys s))))"

definition set_SUNION :: "env \<Rightarrow> 'w logger \<Rightarrow> bytes list \<Rightarrow> (SetStorage, 'w) handler" where
  "set_SUNION env lg args =
     require (1 \<le> length args) ''SUNION requires at least one key''
       (parsed (those (map unmarshalString args)) ''failed to parse key'' (\<lambda>keys s.
         ending WithItems (SUnion lg (env_now env) (env_iter env) keys s)))"

definition set_SUNIONSTORE :: "env \<Rightarrow> 'w logger \<Rightarrow> bytes list \<Rightarrow> (SetStorage, 'w) handler" where
  "set_SUNIONSTORE env lg args =
     require (2 \<le> length args) ''SUNIONSTORE requires destination and at least one source key''
       (parsed (unmarshalString (args ! 0)) ''failed to parse destination key'' (\<lambda>dstKey.
        parsed (those (map unmarshalString (drop 1 args))) ''failed to parse key'' (\<lambda>keys s.
         ending (or_fail WithInteger) (SUnionStore lg (env_now env) (env_later env) (env_iter env) dstKey keys s))))"

definition set_SDIFF :: "env \<Rightarrow> 'w logger \<Rightarrow> bytes list \<Rightarrow> (SetStorage, 'w) handler" where
  "set_SDIFF env lg args =
     require (1 \<le> length args) ''SDIFF requires at least one key''
       (parsed (those (map unmarshalString args)) ''failed to parse key'' (\<lambda>keys s.
         ending WithItems (SDiff lg (env_now env) (env_iter env) keys s)))"

definition set_SDIFFSTORE :: "env \<Rightarrow> 'w logger \<Rightarrow> bytes list \<Rightarrow> (SetStorage, 'w) handler" where
  "set_SDIFFSTORE env lg args =
     require (2 \<le> length args) ''SDIFFSTORE requires destination and at least one source key''
       (parsed (unmarshalString (args ! 0)) ''failed to parse destination key'' (\<lambda>dstKey.
        parsed (those (map unmarshalString (drop 1 args))) ''failed to parse key'' (\<lambda>keys s.
         ending (or_fail WithInteger) (SDiffStore lg (env_now env) (env_later env) (env_iter env) dstKey keys s))))"

text \<open>The last of several arguments is the limit when it is read as a number.\<close>

definition intercard_args :: "bytes list \<Rightarrow> bytes list \<times> int" where
  "intercard_args args =
     (case unmarshalInt (last args) of
        Some l \<Rightarrow> if 1 < length args then (butlast args, l) else (args, 0)
      | None \<Rightarrow> (args, 0))"

definition set_SINTERCARD :: "env \<Rightarrow> 'w logger \<Rightarrow> bytes list \<Rightarrow> (SetStorage, 'w) handler" where
  "set_SINTERCARD env lg args =
     require (1 \<le> length args) ''SINTERCARD requires at least one key''
       (case intercard_args args of (raws, limit) \<Rightarrow>
         parsed (those (map unmarshalString raws)) ''failed to parse key'' (\<lambda>keys s.
           ending WithInteger (SInterCard lg (env_now env) (env_iter env) keys limit s)))"

definition set_COUNT_PREFIX :: "env \<Rightarrow> 'w logger \<Rightarrow> bytes list \<Rightarrow> (SetStorage, 'w) handler" where
  "set_COUNT_PREFIX env lg args =
     require (1 \<le> length args) ''COUNT_PREFIX requires prefix''
       (parsed (unmarshalString (args ! 0)) ''failed to parse prefix'' (\<lambda>pref s.
         ending WithInteger (set_CountByPrefix lg (env_now env) (env_keys env) pref s)))"

definition set_FIND_PREFIX :: "env \<Rightarrow> 'w logger \<Rightarrow> bytes list \<Rightarrow> (SetStorage, 'w) handler" where
  "set_FIND_PREFIX env lg args =
     require (1 \<le> length args) ''FIND_PREFIX requires prefix''
       (parsed (unmarshalString (args ! 0)) ''failed to parse prefix'' (\<lambda>pref s.
         ending (\<lambda>f. WithEntries (found_entries env f)) (set_FindByPrefix lg (env_now env) (env_iter env) (env_keys env) pref s)))"

definition set_DEL_PREFIX :: "env \<Rightarrow> 'w logger \<Rightarrow> bytes list \<Rightarrow> (SetStorage, 'w) handler" where
  "set_DEL_PREFIX env lg args =
     require (1 \<le> length args) ''DEL_PREFIX requires prefix''
       (parsed (unmarshalString (args ! 0)) ''failed to parse prefix'' (\<lambda>pref s.
         ending counted (set_DeleteByPrefix lg (env_now env) (env_keys env) pref s)))"

definition set_COUNT_SUFFIX :: "env \<Rightarrow> 'w logger \<Rightarrow> bytes list \<Rightarrow> (SetStorage, 'w) handler" where
  "set_COUNT_SUFFIX env lg args =
     require (1 \<le> length args) ''COUNT_SUFFIX requires suffix''
       (parsed (unmarshalString (args ! 0)) ''failed to parse suffix'' (\<lambda>suf s.
         ending WithInteger (set_CountBySuffix lg (env_now env) (env_keys env) suf s)))"

definition set_FIND_SUFFIX :: "env \<Rightarrow> 'w logger \<Rightarrow> bytes list \<Rightarrow> (SetStorage, 'w) handler" where
  "set_FIND_SUFFIX env lg args =
     require (1 \<le> length args) ''FIND_SUFFIX requires suffix''
       (parsed (unmarshalString (args ! 0)) ''failed to parse suffix'' (\<lambda>suf s.
         ending (\<lambda>f. WithEntries (found_entries env f)) (set_FindBySuffix lg (env_now env) (env_iter env) (env_keys env) suf s)))"

definition set_DEL_SUFFIX :: "env \<Rightarrow> 'w logger \<Rightarrow> bytes list \<Rightarrow> (SetStorage, 'w) handler" where
  "set_DEL_SUFFIX env lg args =
     require (1 \<le> length args) ''DEL_SUFFIX requires suffix''
       (parsed (unmarshalString (args ! 0)) ''failed to parse suffix'' (\<lambda>suf s.
         ending counted (set_DeleteBySuffix lg (env_now env) (env_keys env) suf s)))"

definition set_COUNT_REGEX :: "env \<Rightarrow> 'w logger \<Rightarrow> bytes list \<Rightarrow> (SetStorage, 'w) handler" where
  "set_COUNT_REGEX env lg args =
     require (1 \<le> length args) ''COUNT_REGEX requires regex''
       (parsed (unmarshalString (args ! 0)) ''failed to parse regex'' (\<lambda>rx s.
         ending (or_fail WithInteger) (set_CountByRegex (env_compile env) lg (env_now env) (env_keys env) rx s)))"

definition set_FIND_REGEX :: "env \<Rightarrow> 'w logger \<Rightarrow> bytes list \<Rightarrow> (SetStorage, 'w) handler" where
  "set_FIND_REGEX env lg args =
     require (1 \<le> length args) ''FIND_REGEX requires regex''
       (parsed (unmarshalString (args ! 0)) ''failed to parse regex'' (\<lambda>rx s.
         ending (or_fail (\<lambda>f. WithEntries (found_entries env f))) (set_FindByRegex (env_compile env) lg (env_now env) (env_iter env) (env_keys env) rx s)))"

definition set_DEL_REGEX :: "env \<Rightarrow> 'w logger \<Rightarrow> bytes list \<Rightarrow> (SetStorage, 'w) handler" where
  "set_DEL_REGEX env lg args =
     require (1 \<le> length args) ''DEL_REGEX requires regex''
       (parsed (unmarshalString (args ! 0)) ''failed to parse regex'' (\<lambda>rx s.
         ending counted (set_DeleteByRegex (env_compile env) lg (env_now env) (env_keys env) rx s)))"

definition set_DEL :: "env \<Rightarrow> 'w logger \<Rightarrow> bytes list \<Rightarrow> (SetStorage, 'w) handler" where
  "set_DEL env lg args =
     require (1 \<le> length args) ''DEL requires key''
       (parsed (unmarshalString (args ! 0)) ''failed to parse key'' (\<lambda>key s.
         ending finished (set_Delete lg key s)))"

definition set_method :: "env \<Rightarrow> 'w logger \<Rightarrow> string \<Rightarrow> bytes list \<Rightarrow> (SetStorage, 'w) handler" where
  "set_method env lg mth args =
     (if mth = ''SADD'' then set_SADD env lg args
      else if mth = ''SREM'' then set_SREM env lg args
      else if mth = ''SPOP'' then set_SPOP env lg args
      else if mth = ''SMOVE'' then set_SMOVE env lg args
      else if mth = ''SISMEMBER'' then set_SISMEMBER env lg args
      else if mth = ''SMISMEMBER'' then set_SMISMEMBER env lg args
      else if mth = ''SMEMBERS'' then set_SMEMBERS env lg args
      else if mth = ''SCARD'' then set_SCARD env lg args
      else if mth = ''SRANDMEMBER'' then set_SRANDMEMBER env lg args
      else if mth = ''SINTER'' then set_SINTER env lg args
      else if mth = ''SINTERSTORE'' then set_SINTERSTORE env lg args
      else if mth = ''SUNION'' then set_SUNION env lg args
      else if mth = ''SUNIONSTORE'' then set_SUNIONSTORE env lg args
      else if mth = ''SDIFF'' then set_SDIFF env lg args
      else if mth = ''SDIFFSTORE'' then set_SDIFFSTORE env lg args
      else if mth = ''SINTERCARD'' then set_SINTERCARD env lg args
      else if mth = ''COUNT_PREFIX'' then set_COUNT_PREFIX env lg args
      else if mth = ''COUNT_SUFFIX'' then set_COUNT_SUFFIX env lg args
      else if mth = ''COUNT_REGEX'' then set_COUNT_REGEX env lg args
      else if mth = ''FIND_PREFIX'' then set_FIND_PREFIX env lg args
      else if mth = ''FIND_SUFFIX'' then set_FIND_SUFFIX env lg args
      else if mth = ''FIND_REGEX'' then set_FIND_REGEX env lg args
      else if mth = ''DEL_PREFIX'' then set_DEL_PREFIX env lg args
      else if mth = ''DEL_SUFFIX'' then set_DEL_SUFFIX env lg args
      else if mth = ''DEL_REGEX'' then set_DEL_REGEX env lg args
      else if mth = ''DEL'' then set_DEL env lg args
      else respond (FailMsg ''unknown method''))"

definition executeSet :: "env \<Rightarrow> 'w logger \<Rightarrow> Request \<Rightarrow> (Multiplexer, 'w) handler" where
  "executeSet env lg req =
     on_set (UUID req) (Fail ErrInstanceNotFound) (set_method env (ScopedWalLogger_Log lg (UUID req)) (Method req) (Args req))"

end
