(* ===== verification/RouterZSet.thy ===== *)
theory RouterZSet
  imports RouterBase
begin

text \<open>
  The methods of a sorted set instance (\<open>executeZSet\<close> of \<open>pkg/multiplexer/router.go\<close>).
\<close>

definition scored :: "ZSetMember list \<Rightarrow> ScoredMember list" where
  "scored ms = map (\<lambda>(m, s). \<lparr>Member = m, Score = s\<rparr>) ms"

definition grouped :: "env \<Rightarrow> (string \<rightharpoonup> ZSetMember list) \<Rightarrow> ScoredEntry list" where
  "grouped env f =
     List.map_filter (\<lambda>k. map_option (\<lambda>ms. \<lparr>ScoredEntry_Key = k, ScoredEntry_Items = scored ms\<rparr>) (f k)) (env_batch env)"

fun zadd_pairs :: "bytes list \<Rightarrow> ZSetMember list option" where
  "zadd_pairs (sc # m # args) =
     (case unmarshalFloat64 sc of None \<Rightarrow> None | Some f \<Rightarrow> map_option (Cons (m, f)) (zadd_pairs args))"
| "zadd_pairs args = Some []"

definition zset_ZADD :: "env \<Rightarrow> 'w logger \<Rightarrow> bytes list \<Rightarrow> (ZSetStorage, 'w) handler" where
  "zset_ZADD env lg args =
     require (3 \<le> length args \<and> odd (length args)) ''ZADD requires key and score-member pairs''
       (parsed (unmarshalString (args ! 0)) ''failed to parse key'' (\<lambda>key.
        parsed (zadd_pairs (drop 1 args)) ''invalid score value'' (\<lambda>mems s.
         ending (or_fail WithInteger) (ZAdd lg (env_now env) (env_src env) key mems None s))))"

definition zset_ZREM :: "env \<Rightarrow> 'w logger \<Rightarrow> bytes list \<Rightarrow> (ZSetStorage, 'w) handler" where
  "zset_ZREM env lg args =
     require (2 \<le> length args) ''ZREM requires key and at least one member''
       (parsed (unmarshalString (args ! 0)) ''failed to parse key'' (\<lambda>key s.
         ending (or_fail WithInteger) (ZRem lg (env_now env) key (drop 1 args) s)))"

definition zset_ZINCRBY :: "env \<Rightarrow> 'w logger \<Rightarrow> bytes list \<Rightarrow> (ZSetStorage, 'w) handler" where
  "zset_ZINCRBY env lg args =
     require (3 \<le> length args) ''ZINCRBY requires key, increment, and member''
       (parsed (unmarshalString (args ! 0)) ''failed to parse key'' (\<lambda>key.
        parsed (unmarshalFloat64 (args ! 1)) ''invalid increment value'' (\<lambda>inc s.
         ending (or_fail WithFloat) (ZIncrBy lg (env_now env) (env_src env) key inc (args ! 2) s))))"

definition zset_ZPOPMAX :: "env \<Rightarrow> 'w logger \<Rightarrow> bytes list \<Rightarrow> (ZSetStorage, 'w) handler" where
  "zset_ZPOPMAX env lg args =
     require (1 \<le> length args) ''ZPOPMAX requires key''
       (parsed (unmarshalString (args ! 0)) ''failed to parse key'' (\<lambda>key.
        parsed (optional_int args 1 1) ''invalid count'' (\<lambda>count s.
         ending (or_fail (WithScored \<circ> scored)) (ZPopMax lg (env_now env) key count s))))"

definition zset_ZPOPMIN :: "env \<Rightarrow> 'w logger \<Rightarrow> bytes list \<Rightarrow> (ZSetStorage, 'w) handler" where
  "zset_ZPOPMIN env lg args =
     require (1 \<le> length args) ''ZPOPMIN requires key''
       (parsed (unmarshalString (args ! 0)) ''failed to parse key'' (\<lambda>key.
        parsed (optional_int args 1 1) ''invalid count'' (\<lambda>count s.
         ending (or_fail (WithScored \<circ> scored)) (ZPopMin lg (env_now env) key count s))))"

text \<open>A member that is not there is answered with an empty success.\<close>

definition if_found :: "('a \<Rightarrow> Response) \<Rightarrow> 'a option \<Rightarrow> Response" where
  "if_found f r = (case r of None \<Rightarrow> OK | Some x \<Rightarrow> f x)"

definition zset_ZSCORE :: "env \<Rightarrow> 'w logger \<Rightarrow> bytes list \<Rightarrow> (ZSetStorage, 'w) handler" where
  "zset_ZSCORE env lg args =
     require (2 \<le> length args) ''ZSCORE requires key and member''
       (parsed (unmarshalString (args ! 0)) ''failed to parse key'' (\<lambda>key s.
         ending (if_found WithFloat) (ZScore lg (env_now env) key (args ! 1) s)))"

definition zset_ZCARD :: "env \<Rightarrow> 'w logger \<Rightarrow> bytes list \<Rightarrow> (ZSetStorage, 'w) handler" where
  "zset_ZCARD env lg args =
     require (1 \<le> length args) ''ZCARD requires key''
       (parsed (unmarshalString (args ! 0)) ''failed to parse key'' (\<lambda>key s.
         ending WithInteger (ZCard lg (env_now env) key s)))"

definition zset_ZRANK :: "env \<Rightarrow> 'w logger \<Rightarrow> bytes list \<Rightarrow> (ZSetStorage, 'w) handler" where
  "zset_ZRANK env lg args =
     require (2 \<le> length args) ''ZRANK requires key and member''
       (parsed (unmarshalString (args ! 0)) ''failed to parse key'' (\<lambda>key s.
         ending (if_found WithInteger) (ZRank lg (env_now env) key (args ! 1) s)))"

definition zset_ZREVRANK :: "env \<Rightarrow> 'w logger \<Rightarrow> bytes list \<Rightarrow> (ZSetStorage, 'w) handler" where
  "zset_ZREVRANK env lg args =
     require (2 \<le> length args) ''ZREVRANK requires key and member''
       (parsed (unmarshalString (args ! 0)) ''failed to parse key'' (\<lambda>key s.
         ending (if_found WithInteger) (ZRevRank lg (env_now env) key (args ! 1) s)))"

definition zset_ZCOUNT :: "env \<Rightarrow> 'w logger \<Rightarrow> bytes list \<Rightarrow> (ZSetStorage, 'w) handler" where
  "zset_ZCOUNT env lg args =
     require (3 \<le> length args) ''ZCOUNT requires key, min, and max''
       (parsed (unmarshalString (args ! 0)) ''failed to parse key'' (\<lambda>key.
        parsed (unmarshalFloat64 (args ! 1)) ''invalid min score'' (\<lambda>mn.
        parsed (unmarshalFloat64 (args ! 2)) ''invalid max score'' (\<lambda>mx s.
         ending WithInteger (ZCount lg (env_now env) key mn mx s)))))"

definition zset_ZRANGE :: "env \<Rightarrow> 'w logger \<Rightarrow> bytes list \<Rightarrow> (ZSetStorage, 'w) handler" where
  "zset_ZRANGE env lg args =
     require (3 \<le> length args) ''ZRANGE requires key, start, and stop''
       (parsed (unmarshalString (args ! 0)) ''failed to parse key'' (\<lambda>key.
        parsed (unmarshalInt (args ! 1)) ''invalid start rank'' (\<lambda>start.
        parsed (unmarshalInt (args ! 2)) ''invalid stop rank'' (\<lambda>stop s.
         ending (WithScored \<circ> scored) (ZRange lg (env_now env) key start stop s)))))"

definition zset_ZREVRANGE :: "env \<Rightarrow> 'w logger \<Rightarrow> bytes list \<Rightarrow> (ZSetStorage, 'w) handler" where
  "zset_ZREVRANGE env lg args =
     require (3 \<le> length args) ''ZREVRANGE requires key, start, and stop''
       (parsed (unmarshalString (args ! 0)) ''failed to parse key'' (\<lambda>key.
        parsed (unmarshalInt (args ! 1)) ''invalid start rank'' (\<lambda>start.
        parsed (unmarshalInt (args ! 2)) ''invalid stop rank'' (\<lambda>stop s.
         ending (WithScored \<circ> scored) (ZRevRange lg (env_now env) key start stop s)))))"

definition zset_ZRANGEBYSCORE :: "env \<Rightarrow> 'w logger \<Rightarrow> bytes list \<Rightarrow> (ZSetStorage, 'w) handler" where
  "zset_ZRANGEBYSCORE env lg args =
     require (3 \<le> length args) ''ZRANGEBYSCORE requires key, min, and max''
       (parsed (unmarshalString (args ! 0)) ''failed to parse key'' (\<lambda>key.
        parsed (unmarshalFloat64 (args ! 1)) ''invalid min score'' (\<lambda>mn.
        parsed (unmarshalFloat64 (args ! 2)) ''invalid max score'' (\<lambda>mx.
        parsed (if 5 \<le> length args then unmarshalInt (args ! 3) else Some 0) ''invalid offset'' (\<lambda>offset.
        parsed (if 5 \<le> length args then unmarshalInt (args ! 4) else Some (- 1)) ''invalid count'' (\<lambda>count s.
         ending (WithScored \<circ> scored) (ZRangeByScore lg (env_now env) key mn mx offset count s)))))))"

definition zset_ZREVRANGEBYSCORE :: "env \<Rightarrow> 'w logger \<Rightarrow> bytes list \<Rightarrow> (ZSetStorage, 'w) handler" where
  "zset_ZREVRANGEBYSCORE env lg args =
     require (3 \<le> length args) ''ZREVRANGEBYSCORE requires key, max, and min''
       (parsed (unmarshalString (args ! 0)) ''failed to parse key'' (\<lambda>key.
        parsed (unmarshalFloat64 (args ! 1)) ''invalid max score'' (\<lambda>mx.
        parsed (unmarshalFloat64 (args ! 2)) ''invalid min score'' (\<lambda>mn.
        parsed (if 5 \<le> length args then unmarshalInt (args ! 3) else Some 0) ''invalid offset'' (\<lambda>offset.
        parsed (if 5 \<le> length args then unmarshalInt (args ! 4) else Some (- 1)) ''invalid count'' (\<lambda>count s.
         ending (WithScored \<circ> scored) (ZRevRangeByScore lg (env_now env) key mx mn offset count s)))))))"

definition zset_COUNT_PREFIX :: "env \<Rightarrow> 'w logger \<Rightarrow> bytes list \<Rightarrow> (ZSetStorage, 'w) handler" where
  "zset_COUNT_PREFIX env lg args =
     require (1 \<le> length args) ''COUNT_PREFIX requires prefix''
       (parsed (unmarshalString (args ! 0)) ''failed to parse prefix'' (\<lambda>pref s.
         ending WithInteger (zset_CountByPrefix lg (env_now env) (env_keys env) pref s)))"

definition zset_FIND_PREFIX :: "env \<Rightarrow> 'w logger \<Rightarrow> bytes list \<Rightarrow> (ZSetStorage, 'w) handler" where
  "zset_FIND_PREFIX env lg args =
     require (1 \<le> length args) ''FIND_PREFIX requires prefix''
       (parsed (unmarshalString (args ! 0)) ''failed to parse prefix'' (\<lambda>pref s.
         ending (\<lambda>f. WithGrouped (grouped env f)) (zset_FindByPrefix lg (env_now env) (env_keys env) pref s)))"

definition zset_DEL_PREFIX :: "env \<Rightarrow> 'w logger \<Rightarrow> bytes list \<Rightarrow> (ZSetStorage, 'w) handler" where
  "zset_DEL_PREFIX env lg args =
     require (1 \<le> length args) ''DEL_PREFIX requires prefix''
       (parsed (unmarshalString (args ! 0)) ''failed to parse prefix'' (\<lambda>pref s.
         ending counted (zset_DeleteByPrefix lg (env_now env) (env_keys env) pref s)))"

definition zset_COUNT_SUFFIX :: "env \<Rightarrow> 'w logger \<Rightarrow> bytes list \<Rightarrow> (ZSetStorage, 'w) handler" where
  "zset_COUNT_SUFFIX env lg args =
     require (1 \<le> length args) ''COUNT_SUFFIX requires suffix''
       (parsed (unmarshalString (args ! 0)) ''failed to parse suffix'' (\<lambda>suf s.
         ending WithInteger (zset_CountBySuffix lg (env_now env) (env_keys env) suf s)))"

definition zset_FIND_SUFFIX :: "env \<Rightarrow> 'w logger \<Rightarrow> bytes list \<Rightarrow> (ZSetStorage, 'w) handler" where
  "zset_FIND_SUFFIX env lg args =
     require (1 \<le> length args) ''FIND_SUFFIX requires suffix''
       (parsed (unmarshalString (args ! 0)) ''failed to parse suffix'' (\<lambda>suf s.
         ending (\<lambda>f. WithGrouped (grouped env f)) (zset_FindBySuffix lg (env_now env) (env_keys env) suf s)))"

definition zset_DEL_SUFFIX :: "env \<Rightarrow> 'w logger \<Rightarrow> bytes list \<Rightarrow> (ZSetStorage, 'w) handler" where
  "zset_DEL_SUFFIX env lg args =
     require (1 \<le> length args) ''DEL_SUFFIX requires suffix''
       (parsed (unmarshalString (args ! 0)) ''failed to parse suffix'' (\<lambda>suf s.
         ending counted (zset_DeleteBySuffix lg (env_now env) (env_keys env) suf s)))"

definition zset_COUNT_REGEX :: "env \<Rightarrow> 'w logger \<Rightarrow> bytes list \<Rightarrow> (ZSetStorage, 'w) handler" where
  "zset_COUNT_REGEX env lg args =
     require (1 \<le> length args) ''COUNT_REGEX requires regex''
       (parsed (unmarshalString (args ! 0)) ''failed to parse regex'' (\<lambda>rx s.
         ending (or_fail WithInteger) (zset_CountByRegex (env_compile env) lg (env_now env) (env_keys env) rx s)))"

definition zset_FIND_REGEX :: "env \<Rightarrow> 'w logger \<Rightarrow> bytes list \<Rightarrow> (ZSetStorage, 'w) handler" where
  "zset_FIND_REGEX env lg args =
     require (1 \<le> length args) ''FIND_REGEX requires regex''
       (parsed (unmarshalString (args ! 0)) ''failed to parse regex'' (\<lambda>rx s.
         ending (or_fail (\<lambda>f. WithGrouped (grouped env f))) (zset_FindByRegex (env_compile env) lg (env_now env) (env_keys env) rx s)))"

definition zset_DEL_REGEX :: "env \<Rightarrow> 'w logger \<Rightarrow> bytes list \<Rightarrow> (ZSetStorage, 'w) handler" where
  "zset_DEL_REGEX env lg args =
     require (1 \<le> length args) ''DEL_REGEX requires regex''
       (parsed (unmarshalString (args ! 0)) ''failed to parse regex'' (\<lambda>rx s.
         ending counted (zset_DeleteByRegex (env_compile env) lg (env_now env) (env_keys env) rx s)))"

definition zset_DEL :: "env \<Rightarrow> 'w logger \<Rightarrow> bytes list \<Rightarrow> (ZSetStorage, 'w) handler" where
  "zset_DEL env lg args =
     require (1 \<le> length args) ''DEL requires key''
       (parsed (unmarshalString (args ! 0)) ''failed to parse key'' (\<lambda>key s.
         ending finished (zset_Delete lg key s)))"

definition zset_method :: "env \<Rightarrow> 'w logger \<Rightarrow> string \<Rightarrow> bytes list \<Rightarrow> (ZSetStorage, 'w) handler" where
  "zset_method env lg mth args =
     (if mth = ''ZADD'' then zset_ZADD env lg args
      else if mth = ''ZREM'' then zset_ZREM env lg args
      else if mth = ''ZINCRBY'' then zset_ZINCRBY env lg args
      else if mth = ''ZPOPMAX'' then zset_ZPOPMAX env lg args
      else if mth = ''ZPOPMIN'' then zset_ZPOPMIN env lg args
      else if mth = ''ZSCORE'' then zset_ZSCORE env lg args
      else if mth = ''ZCARD'' then zset_ZCARD env lg args
      else if mth = ''ZRANK'' then zset_ZRANK env lg args
      else if mth = ''ZREVRANK'' then zset_ZREVRANK env lg args
      else if mth = ''ZCOUNT'' then zset_ZCOUNT env lg args
      else if mth = ''ZRANGE'' then zset_ZRANGE env lg args
      else if mth = ''ZREVRANGE'' then zset_ZREVRANGE env lg args
      else if mth = ''ZRANGEBYSCORE'' then zset_ZRANGEBYSCORE env lg args
      else if mth = ''ZREVRANGEBYSCORE'' then zset_ZREVRANGEBYSCORE env lg args
      else if mth = ''COUNT_PREFIX'' then zset_COUNT_PREFIX env lg args
      else if mth = ''COUNT_SUFFIX'' then zset_COUNT_SUFFIX env lg args
      else if mth = ''COUNT_REGEX'' then zset_COUNT_REGEX env lg args
      else if mth = ''FIND_PREFIX'' then zset_FIND_PREFIX env lg args
      else if mth = ''FIND_SUFFIX'' then zset_FIND_SUFFIX env lg args
      else if mth = ''FIND_REGEX'' then zset_FIND_REGEX env lg args
      else if mth = ''DEL_PREFIX'' then zset_DEL_PREFIX env lg args
      else if mth = ''DEL_SUFFIX'' then zset_DEL_SUFFIX env lg args
      else if mth = ''DEL_REGEX'' then zset_DEL_REGEX env lg args
      else if mth = ''DEL'' then zset_DEL env lg args
      else respond (FailMsg ''unknown method''))"

definition executeZSet :: "env \<Rightarrow> 'w logger \<Rightarrow> Request \<Rightarrow> (Multiplexer, 'w) handler" where
  "executeZSet env lg req =
     on_zset (UUID req) (Fail ErrInstanceNotFound) (zset_method env (ScopedWalLogger_Log lg (UUID req)) (Method req) (Args req))"

end
