(* ===== verification/RouterSpec.thy ===== *)
theory RouterSpec
  imports RouterKv RouterList RouterSet RouterZSet ListSpec SetSpec ZSetSpec
begin

text \<open>
  What a request asks for: \<open>kv_request\<close>, \<open>list_request\<close>, \<open>set_request\<close> and \<open>zset_request\<close> read the method and the
  arguments as an operation of the engine, or as none.  A handler does no more and no less: it refuses a
  request that asks for no operation and leaves the instance as it was, and otherwise it runs the operation, once, and
  answers what the operation answered.
\<close>

definition runs :: "('op \<Rightarrow> 'e \<times> 'w \<Rightarrow> ('r \<times> 'e \<times> 'w) option) \<Rightarrow> ('r \<Rightarrow> bool) \<Rightarrow> ('e, 'w) handler \<Rightarrow> 'op option \<Rightarrow> bool" where
  "runs app failed h q \<longleftrightarrow>
     (case q of
        None \<Rightarrow> (\<exists>r. \<not> accepted r \<and> h = respond r)
      | Some op \<Rightarrow>
          (\<exists>f. h = (\<lambda>s. ending f (app op s)) \<and> (\<forall>s r s'. app op s = Some (r, s') \<longrightarrow> (accepted (f r) \<longleftrightarrow> \<not> failed r))))"

lemma runs_refuse: "runs app failed (respond (FailMsg msg)) None"
  unfolding runs_def option.case by (intro exI [of _ "FailMsg msg"]) simp

lemma runs_if:
  "(b \<Longrightarrow> runs app failed h q) \<Longrightarrow> (\<not> b \<Longrightarrow> runs app failed h' q') \<Longrightarrow>
   runs app failed (if b then h else h') (if b then q else q')"
  by simp

lemma runs_require: "(b \<Longrightarrow> runs app failed h q) \<Longrightarrow> runs app failed (require b msg h) (if b then q else None)"
  by (auto simp: require_def runs_refuse)

lemma runs_parsed: "(\<And>x. runs app failed (h x) (q x)) \<Longrightarrow> runs app failed (parsed arg msg h) (Option.bind arg q)"
  by (cases arg) (simp_all add: parsed_def runs_refuse)

lemma runs_case_prod:
  "(\<And>a b. runs app failed (h a b) (q a b)) \<Longrightarrow>
   runs app failed (case x of (a, b) \<Rightarrow> h a b) (case x of (a, b) \<Rightarrow> q a b)"
  by (cases x) simp

lemma runs_ending:
  assumes app: "\<And>s. app op s = map_option (map_prod C id) (X s)" and "inj C" "\<And>x. accepted (f x) \<longleftrightarrow> \<not> failed (C x)"
  shows "runs app failed (\<lambda>s. ending f (X s)) (Some op)"
  unfolding runs_def option.case
proof (intro exI [of _ "f \<circ> inv C"] conjI allI impI ext)
  show "ending f (X s) = ending (f \<circ> inv C) (app op s)" for s
    by (cases "X s") (auto simp: ending_def app inv_f_f [OF assms(2)])
  show "accepted ((f \<circ> inv C) r) \<longleftrightarrow> \<not> failed r" if run: "app op s = Some (r, s')" for s r s'
  proof -
    from run obtain x where "r = C x" by (cases "X s") (auto simp: app)
    then show ?thesis using assms(3) [of x] by (simp add: inv_f_f [OF assms(2)])
  qed
qed

lemma accepted_rendering:
  "accepted (finished err) \<longleftrightarrow> err = None" "accepted (counted p) \<longleftrightarrow> snd p = None"
  "(\<And>x. accepted (f x)) \<Longrightarrow> accepted (or_fail f r) \<longleftrightarrow> \<not> isl r" "(\<And>x. accepted (g x)) \<Longrightarrow> accepted (if_found g y)"
  by (auto simp: finished_def counted_def or_fail_def if_found_def split: option.splits sum.splits prod.splits)

lemmas runs_rules = runs_if runs_require runs_parsed runs_case_prod runs_refuse

subsection \<open>Key-value instances\<close>

fun kv_failed :: "kv_res \<Rightarrow> bool" where
  "kv_failed (KvSpec.RErr err) \<longleftrightarrow> err \<noteq> None"
| "kv_failed (KvSpec.RInt r) \<longleftrightarrow> isl r"
| "kv_failed (RBytes r) \<longleftrightarrow> isl r"
| "kv_failed (RFind r) \<longleftrightarrow> isl r"
| "kv_failed (KvSpec.RDel n err) \<longleftrightarrow> err \<noteq> None"
| "kv_failed r \<longleftrightarrow> False"

definition kv_request :: "env \<Rightarrow> string \<Rightarrow> bytes list \<Rightarrow> kv_op option" where
  "kv_request env mth args =
     (if mth = ''SET'' then
        (if 2 \<le> length args then
           do { key \<leftarrow> unmarshalString (args ! 0);
             Some (OpSet key (args ! 1) (NewPayloadMetadata (env_now env) None)) } else None)
      else if mth = ''SET_TTL'' then
        (if 3 \<le> length args then
           do { key \<leftarrow> unmarshalString (args ! 0);
             ttlMs \<leftarrow> unmarshalInt64 (args ! 2);
             Some (OpSetWithTTL key (args ! 1) (milliseconds ttlMs)) } else None)
      else if mth = ''GET'' then (if 1 \<le> length args then do { key \<leftarrow> unmarshalString (args ! 0); Some (OpGet key) } else None)
      else if mth = ''DEL'' then (if 1 \<le> length args then do { key \<leftarrow> unmarshalString (args ! 0); Some (OpDelete key) } else None)
      else if mth = ''EXISTS'' then (if 1 \<le> length args then do { key \<leftarrow> unmarshalString (args ! 0); Some (OpExists key) } else None)
      else if mth = ''INCR'' then
        (if 1 \<le> length args then
           do { key \<leftarrow> unmarshalString (args ! 0);
             Some (OpIncrement key) } else None)
      else if mth = ''DECR'' then
        (if 1 \<le> length args then
           do { key \<leftarrow> unmarshalString (args ! 0);
             Some (OpDecrement key) } else None)
      else if mth = ''INCRBY'' then
        (if 2 \<le> length args then
           do { key \<leftarrow> unmarshalString (args ! 0);
             amt \<leftarrow> unmarshalInt64 (args ! 1);
             Some (OpIncrementBy key amt) } else None)
      else if mth = ''DECRBY'' then
        (if 2 \<le> length args then
           do { key \<leftarrow> unmarshalString (args ! 0);
             amt \<leftarrow> unmarshalInt64 (args ! 1);
             Some (OpDecrementBy key amt) } else None)
      else if mth = ''MGET'' then
        (if 1 \<le> length args then
           do { keys \<leftarrow> those (map unmarshalString args);
             Some (OpMget keys) } else None)
      else if mth = ''MSET'' then
        (if even (length args) then
           do { payloadMap \<leftarrow> mset_pairs (NewPayloadMetadata (env_now env) None) args Map.empty;
             Some (OpMset (in_order (env_batch env) payloadMap)) } else None)
      else if mth = ''MSET_TTL'' then
        (if 3 \<le> length args \<and> odd (length args) then
           do { ttlMs \<leftarrow> unmarshalInt64 (last args);
             payloadMap \<leftarrow> mset_pairs (NewPayloadMetadata (env_now env) (Some (env_now env + milliseconds ttlMs))) (butlast args) Map.empty;
             Some (OpMsetWithTTL (in_order (env_batch env) payloadMap) (milliseconds ttlMs)) } else None)
      else if mth = ''COUNT_PREFIX'' then
        (if 1 \<le> length args then
           do { pref \<leftarrow> unmarshalString (args ! 0);
             Some (OpCount (Prefix pref)) } else None)
      else if mth = ''COUNT_SUFFIX'' then
        (if 1 \<le> length args then
           do { suf \<leftarrow> unmarshalString (args ! 0);
             Some (OpCount (Suffix suf)) } else None)
      else if mth = ''COUNT_REGEX'' then
        (if 1 \<le> length args then
           do { rx \<leftarrow> unmarshalString (args ! 0);
             Some (OpCount (Regex rx)) } else None)
      else if mth = ''FIND_PREFIX'' then
        (if 1 \<le> length args then
           do { pref \<leftarrow> unmarshalString (args ! 0);
             Some (OpFind (Prefix pref)) } else None)
      else if mth = ''FIND_SUFFIX'' then
        (if 1 \<le> length args then
           do { suf \<leftarrow> unmarshalString (args ! 0);
             Some (OpFind (Suffix suf)) } else None)
      else if mth = ''FIND_REGEX'' then
        (if 1 \<le> length args then
           do { rx \<leftarrow> unmarshalString (args ! 0);
             Some (OpFind (Regex rx)) } else None)
      else if mth = ''DEL_PREFIX'' then
        (if 1 \<le> length args then
           do { pref \<leftarrow> unmarshalString (args ! 0);
             Some (OpDeleteBy (Prefix pref)) } else None)
      else if mth = ''DEL_SUFFIX'' then
        (if 1 \<le> length args then
           do { suf \<leftarrow> unmarshalString (args ! 0);
             Some (OpDeleteBy (Suffix suf)) } else None)
      else if mth = ''DEL_REGEX'' then
        (if 1 \<le> length args then
           do { rx \<leftarrow> unmarshalString (args ! 0);
             Some (OpDeleteBy (Regex rx)) } else None)
      else None)"

lemmas kv_method_defs =
  kv_SET_def kv_SET_TTL_def kv_GET_def kv_DEL_def kv_EXISTS_def kv_INCR_def
  kv_DECR_def kv_INCRBY_def kv_DECRBY_def kv_MGET_def kv_MSET_def kv_MSET_TTL_def
  kv_COUNT_PREFIX_def kv_COUNT_SUFFIX_def kv_COUNT_REGEX_def kv_FIND_PREFIX_def kv_FIND_SUFFIX_def kv_FIND_REGEX_def
  kv_DEL_PREFIX_def kv_DEL_SUFFIX_def kv_DEL_REGEX_def

lemma kv_method_runs:
  "runs (kv_apply (env_compile env) lg (env_now env) (env_keys env)) kv_failed (kv_method env lg mth args) (kv_request env mth args)"
  unfolding kv_method_def kv_request_def kv_method_defs Let_def
  by (intro runs_rules; rule runs_ending, rule kv_apply.simps, simp add: inj_def, auto simp: accepted_rendering)

subsection \<open>List instances\<close>

fun list_failed :: "list_res \<Rightarrow> bool" where
  "list_failed (LErr err) \<longleftrightarrow> err \<noteq> None"
| "list_failed (LBytes r) \<longleftrightarrow> isl r"
| "list_failed (LInt r) \<longleftrightarrow> isl r"
| "list_failed (LFound r) \<longleftrightarrow> isl r"
| "list_failed (LDel n err) \<longleftrightarrow> err \<noteq> None"
| "list_failed (LElems xs) \<longleftrightarrow> False"

definition list_request :: "env \<Rightarrow> string \<Rightarrow> bytes list \<Rightarrow> list_op option" where
  "list_request env mth args =
     (if mth = ''LPUSH'' then
        (if 2 \<le> length args then
           do { key \<leftarrow> unmarshalString (args ! 0);
             Some (LPush True key (drop 1 args) None) } else None)
      else if mth = ''RPUSH'' then
        (if 2 \<le> length args then
           do { key \<leftarrow> unmarshalString (args ! 0);
             Some (LPush False key (drop 1 args) None) } else None)
      else if mth = ''LPOP'' then
        (if 1 \<le> length args then
           do { key \<leftarrow> unmarshalString (args ! 0);
             Some (LPop True key) } else None)
      else if mth = ''RPOP'' then
        (if 1 \<le> length args then
           do { key \<leftarrow> unmarshalString (args ! 0);
             Some (LPop False key) } else None)
      else if mth = ''LLEN'' then (if 1 \<le> length args then do { key \<leftarrow> unmarshalString (args ! 0); Some (LLen key) } else None)
      else if mth = ''LRANGE'' then
        (if 3 \<le> length args then
           do { key \<leftarrow> unmarshalString (args ! 0);
             start \<leftarrow> unmarshalInt (args ! 1);
             stop \<leftarrow> unmarshalInt (args ! 2);
             Some (LRange key start stop) } else None)
      else if mth = ''LINDEX'' then
        (if 2 \<le> length args then
           do { key \<leftarrow> unmarshalString (args ! 0);
             idx \<leftarrow> unmarshalInt (args ! 1);
             Some (LIndex key idx) } else None)
      else if mth = ''LSET'' then
        (if 3 \<le> length args then
           do { key \<leftarrow> unmarshalString (args ! 0);
             idx \<leftarrow> unmarshalInt (args ! 1);
             Some (LReplace key idx (args ! 2)) } else None)
      else if mth = ''LINSERT'' then
        (if 4 \<le> length args then
           do { key \<leftarrow> unmarshalString (args ! 0);
             pos \<leftarrow> unmarshalString (args ! 1);
             before \<leftarrow> insert_position pos;
             Some (LInsert key (args ! 2) (args ! 3) before) } else None)
      else if mth = ''LREM'' then
        (if 3 \<le> length args then
           do { key \<leftarrow> unmarshalString (args ! 0);
             count \<leftarrow> unmarshalInt (args ! 1);
             Some (LRemove key count (args ! 2)) } else None)
      else if mth = ''LPOS'' then
        (if 2 \<le> length args then
           do { key \<leftarrow> unmarshalString (args ! 0);
             Some (LPos key (args ! 1)) } else None)
      else if mth = ''RPOPLPUSH'' then
        (if 2 \<le> length args then
           do { keyFrom \<leftarrow> unmarshalString (args ! 0);
             keyTo \<leftarrow> unmarshalString (args ! 1);
             Some (LMove keyFrom keyTo False True) } else None)
      else if mth = ''LGET'' then (if 1 \<le> length args then do { key \<leftarrow> unmarshalString (args ! 0); Some (LGet key) } else None)
      else if mth = ''DEL'' then (if 1 \<le> length args then do { key \<leftarrow> unmarshalString (args ! 0); Some (LDelete key) } else None)
      else if mth = ''COUNT_PREFIX'' then
        (if 1 \<le> length args then
           do { pref \<leftarrow> unmarshalString (args ! 0);
             Some (LCount (Prefix pref)) } else None)
      else if mth = ''COUNT_SUFFIX'' then
        (if 1 \<le> length args then
           do { suf \<leftarrow> unmarshalString (args ! 0);
             Some (LCount (Suffix suf)) } else None)
      else if mth = ''COUNT_REGEX'' then
        (if 1 \<le> length args then
           do { rx \<leftarrow> unmarshalString (args ! 0);
             Some (LCount (Regex rx)) } else None)
      else if mth = ''FIND_PREFIX'' then
        (if 1 \<le> length args then
           do { pref \<leftarrow> unmarshalString (args ! 0);
             Some (LFind (Prefix pref)) } else None)
      else if mth = ''FIND_SUFFIX'' then
        (if 1 \<le> length args then
           do { suf \<leftarrow> unmarshalString (args ! 0);
             Some (LFind (Suffix suf)) } else None)
      else if mth = ''FIND_REGEX'' then
        (if 1 \<le> length args then
           do { rx \<leftarrow> unmarshalString (args ! 0);
             Some (LFind (Regex rx)) } else None)
      else if mth = ''DEL_PREFIX'' then
        (if 1 \<le> length args then
           do { pref \<leftarrow> unmarshalString (args ! 0);
             Some (LDeleteBy (Prefix pref)) } else None)
      else if mth = ''DEL_SUFFIX'' then
        (if 1 \<le> length args then
           do { suf \<leftarrow> unmarshalString (args ! 0);
             Some (LDeleteBy (Suffix suf)) } else None)
      else if mth = ''DEL_REGEX'' then
        (if 1 \<le> length args then
           do { rx \<leftarrow> unmarshalString (args ! 0);
             Some (LDeleteBy (Regex rx)) } else None)
      else None)"

lemmas list_method_defs =
  list_LPUSH_def list_RPUSH_def list_LPOP_def list_RPOP_def list_LLEN_def list_LRANGE_def
  list_LINDEX_def list_LSET_def list_LINSERT_def list_LREM_def list_LPOS_def list_RPOPLPUSH_def
  list_LGET_def list_DEL_def list_COUNT_PREFIX_def list_COUNT_SUFFIX_def list_COUNT_REGEX_def list_FIND_PREFIX_def
  list_FIND_SUFFIX_def list_FIND_REGEX_def list_DEL_PREFIX_def list_DEL_SUFFIX_def list_DEL_REGEX_def

lemmas list_ops = list_apply.simps(1) [where left = True, simplified if_True] list_apply.simps(1) [where left = False, unfolded if_False simp_thms]
  list_apply.simps(2) [where left = True, unfolded if_True] list_apply.simps(2) [where left = False, unfolded if_False simp_thms]
  list_apply.simps(3-)

lemma list_method_runs:
  "runs (list_apply (env_compile env) lg (env_now env) (env_keys env)) list_failed (list_method env lg mth args) (list_request env mth args)"
  unfolding list_method_def list_request_def list_method_defs
  by (intro runs_rules; rule runs_ending, rule list_ops, simp add: inj_def, auto simp: accepted_rendering)

subsection \<open>Set instances\<close>

fun set_failed :: "set_res \<Rightarrow> bool" where
  "set_failed (RErr err) \<longleftrightarrow> err \<noteq> None"
| "set_failed (RInt r) \<longleftrightarrow> isl r"
| "set_failed (RBool r) \<longleftrightarrow> isl r"
| "set_failed (RElems r) \<longleftrightarrow> isl r"
| "set_failed (RFound r) \<longleftrightarrow> isl r"
| "set_failed (RDel n err) \<longleftrightarrow> err \<noteq> None"
| "set_failed (RBools bs) \<longleftrightarrow> False"

definition set_request :: "env \<Rightarrow> string \<Rightarrow> bytes list \<Rightarrow> set_op option" where
  "set_request env mth args =
     (if mth = ''SADD'' then
        (if 2 \<le> length args then
           do { key \<leftarrow> unmarshalString (args ! 0);
             Some (OAdd key (drop 1 args) None) } else None)
      else if mth = ''SREM'' then
        (if 2 \<le> length args then
           do { key \<leftarrow> unmarshalString (args ! 0);
             Some (ORem key (drop 1 args)) } else None)
      else if mth = ''SPOP'' then
        (if 1 \<le> length args then
           do { key \<leftarrow> unmarshalString (args ! 0);
             count \<leftarrow> optional_int args 1 1;
             Some (OPop key count) } else None)
      else if mth = ''SMOVE'' then
        (if 3 \<le> length args then
           do { srcKey \<leftarrow> unmarshalString (args ! 0);
             dstKey \<leftarrow> unmarshalString (args ! 1);
             Some (OMove srcKey dstKey (args ! 2)) } else None)
      else if mth = ''SISMEMBER'' then
        (if 2 \<le> length args then
           do { key \<leftarrow> unmarshalString (args ! 0);
             Some (OIsMember key (args ! 1)) } else None)
      else if mth = ''SMISMEMBER'' then
        (if 2 \<le> length args then
           do { key \<leftarrow> unmarshalString (args ! 0);
             Some (OMIsMember key (drop 1 args)) } else None)
      else if mth = ''SMEMBERS'' then (if 1 \<le> length args then do { key \<leftarrow> unmarshalString (args ! 0); Some (OMembers key) } else None)
      else if mth = ''SCARD'' then (if 1 \<le> length args then do { key \<leftarrow> unmarshalString (args ! 0); Some (OCard key) } else None)
      else if mth = ''SRANDMEMBER'' then
        (if 1 \<le> length args then
           do { key \<leftarrow> unmarshalString (args ! 0);
             count \<leftarrow> optional_int args 1 1;
             Some (ORandMember key count) } else None)
      else if mth = ''SINTER'' then
        (if 1 \<le> length args then
           do { keys \<leftarrow> those (map unmarshalString args);
             Some (OCombine KInter keys) } else None)
      else if mth = ''SINTERSTORE'' then
        (if 2 \<le> length args then
           do { dstKey \<leftarrow> unmarshalString (args ! 0);
             keys \<leftarrow> those (map unmarshalString (drop 1 args));
             Some (OStore KInter dstKey keys) } else None)
      else if mth = ''SUNION'' then
        (if 1 \<le> length args then
           do { keys \<leftarrow> those (map unmarshalString args);
             Some (OCombine KUnion keys) } else None)
      else if mth = ''SUNIONSTORE'' then
        (if 2 \<le> length args then
           do { dstKey \<leftarrow> unmarshalString (args ! 0);
             keys \<leftarrow> those (map unmarshalString (drop 1 args));
             Some (OStore KUnion dstKey keys) } else None)
      else if mth = ''SDIFF'' then
        (if 1 \<le> length args then
           do { keys \<leftarrow> those (map unmarshalString args);
             Some (OCombine KDiff keys) } else None)
      else if mth = ''SDIFFSTORE'' then
        (if 2 \<le> length args then
           do { dstKey \<leftarrow> unmarshalString (args ! 0);
             keys \<leftarrow> those (map unmarshalString (drop 1 args));
             Some (OStore KDiff dstKey keys) } else None)
      else if mth = ''SINTERCARD'' then
        (if 1 \<le> length args then (case intercard_args args of (raws, limit) \<Rightarrow> do { keys \<leftarrow> those (map unmarshalString raws);
             Some (OInterCard keys limit) }) else None)
      else if mth = ''COUNT_PREFIX'' then
        (if 1 \<le> length args then
           do { pref \<leftarrow> unmarshalString (args ! 0);
             Some (OCount (Prefix pref)) } else None)
      else if mth = ''COUNT_SUFFIX'' then
        (if 1 \<le> length args then
           do { suf \<leftarrow> unmarshalString (args ! 0);
             Some (OCount (Suffix suf)) } else None)
      else if mth = ''COUNT_REGEX'' then
        (if 1 \<le> length args then
           do { rx \<leftarrow> unmarshalString (args ! 0);
             Some (OCount (Regex rx)) } else None)
      else if mth = ''FIND_PREFIX'' then
        (if 1 \<le> length args then
           do { pref \<leftarrow> unmarshalString (args ! 0);
             Some (OFind (Prefix pref)) } else None)
      else if mth = ''FIND_SUFFIX'' then
        (if 1 \<le> length args then
           do { suf \<leftarrow> unmarshalString (args ! 0);
             Some (OFind (Suffix suf)) } else None)
      else if mth = ''FIND_REGEX'' then
        (if 1 \<le> length args then
           do { rx \<leftarrow> unmarshalString (args ! 0);
             Some (OFind (Regex rx)) } else None)
      else if mth = ''DEL_PREFIX'' then
        (if 1 \<le> length args then
           do { pref \<leftarrow> unmarshalString (args ! 0);
             Some (ODeleteBy (Prefix pref)) } else None)
      else if mth = ''DEL_SUFFIX'' then
        (if 1 \<le> length args then
           do { suf \<leftarrow> unmarshalString (args ! 0);
             Some (ODeleteBy (Suffix suf)) } else None)
      else if mth = ''DEL_REGEX'' then
        (if 1 \<le> length args then
           do { rx \<leftarrow> unmarshalString (args ! 0);
             Some (ODeleteBy (Regex rx)) } else None)
      else if mth = ''DEL'' then (if 1 \<le> length args then do { key \<leftarrow> unmarshalString (args ! 0); Some (ODelete key) } else None)
      else None)"

lemmas set_method_defs =
  set_SADD_def set_SREM_def set_SPOP_def set_SMOVE_def set_SISMEMBER_def set_SMISMEMBER_def
  set_SMEMBERS_def set_SCARD_def set_SRANDMEMBER_def set_SINTER_def set_SINTERSTORE_def set_SUNION_def
  set_SUNIONSTORE_def set_SDIFF_def set_SDIFFSTORE_def set_SINTERCARD_def set_COUNT_PREFIX_def set_COUNT_SUFFIX_def
  set_COUNT_REGEX_def set_FIND_PREFIX_def set_FIND_SUFFIX_def set_FIND_REGEX_def set_DEL_PREFIX_def set_DEL_SUFFIX_def
  set_DEL_REGEX_def set_DEL_def

lemma combination_ops:
  "set_apply compile lg now later clock iter ks (OCombine KInter keys) s = map_option (map_prod (RElems \<circ> Inr) id) (SInter lg now iter keys s)"
  "set_apply compile lg now later clock iter ks (OCombine KUnion keys) s = map_option (map_prod (RElems \<circ> Inr) id) (SUnion lg now iter keys s)"
  "set_apply compile lg now later clock iter ks (OCombine KDiff keys) s = map_option (map_prod (RElems \<circ> Inr) id) (SDiff lg now iter keys s)"
  "set_apply compile lg now later clock iter ks (OStore KInter dst keys) s = map_option (map_prod set_res.RInt id) (SInterStore lg now later iter dst keys s)"
  "set_apply compile lg now later clock iter ks (OStore KUnion dst keys) s = map_option (map_prod set_res.RInt id) (SUnionStore lg now later iter dst keys s)"
  "set_apply compile lg now later clock iter ks (OStore KDiff dst keys) s = map_option (map_prod set_res.RInt id) (SDiffStore lg now later iter dst keys s)"
  by (simp_all add: set_combine_def set_store_def)

lemma set_method_runs:
  "runs (set_apply (env_compile env) lg (env_now env) (env_later env) (env_clock env) (env_iter env) (env_keys env)) set_failed (set_method env lg mth args)
     (set_request env mth args)"
  unfolding set_method_def set_request_def set_method_defs
  by (intro runs_rules; rule runs_ending, rule combination_ops set_apply.simps, simp add: inj_def, auto simp: accepted_rendering)

subsection \<open>Sorted set instances\<close>

fun zset_failed :: "zset_res \<Rightarrow> bool" where
  "zset_failed (ZErr err) \<longleftrightarrow> err \<noteq> None"
| "zset_failed (ZInt r) \<longleftrightarrow> isl r"
| "zset_failed (ZFloat r) \<longleftrightarrow> isl r"
| "zset_failed (ZMembers r) \<longleftrightarrow> isl r"
| "zset_failed (ZFound r) \<longleftrightarrow> isl r"
| "zset_failed (ZDel n err) \<longleftrightarrow> err \<noteq> None"
| "zset_failed r \<longleftrightarrow> False"

definition zset_request :: "env \<Rightarrow> string \<Rightarrow> bytes list \<Rightarrow> zset_op option" where
  "zset_request env mth args =
     (if mth = ''ZADD'' then
        (if 3 \<le> length args \<and> odd (length args) then
           do { key \<leftarrow> unmarshalString (args ! 0);
             mems \<leftarrow> zadd_pairs (drop 1 args);
             Some (ZOAdd key mems None) } else None)
      else if mth = ''ZREM'' then
        (if 2 \<le> length args then
           do { key \<leftarrow> unmarshalString (args ! 0);
             Some (ZORem key (drop 1 args)) } else None)
      else if mth = ''ZINCRBY'' then
        (if 3 \<le> length args then
           do { key \<leftarrow> unmarshalString (args ! 0);
             inc \<leftarrow> unmarshalFloat64 (args ! 1);
             Some (ZOIncrBy key inc (args ! 2)) } else None)
      else if mth = ''ZPOPMAX'' then
        (if 1 \<le> length args then
           do { key \<leftarrow> unmarshalString (args ! 0);
             count \<leftarrow> optional_int args 1 1;
             Some (ZOPopMax key count) } else None)
      else if mth = ''ZPOPMIN'' then
        (if 1 \<le> length args then
           do { key \<leftarrow> unmarshalString (args ! 0);
             count \<leftarrow> optional_int args 1 1;
             Some (ZOPopMin key count) } else None)
      else if mth = ''ZSCORE'' then
        (if 2 \<le> length args then
           do { key \<leftarrow> unmarshalString (args ! 0);
             Some (ZOScore key (args ! 1)) } else None)
      else if mth = ''ZCARD'' then (if 1 \<le> length args then do { key \<leftarrow> unmarshalString (args ! 0); Some (ZOCard key) } else None)
      else if mth = ''ZRANK'' then
        (if 2 \<le> length args then
           do { key \<leftarrow> unmarshalString (args ! 0);
             Some (ZORank key (args ! 1)) } else None)
      else if mth = ''ZREVRANK'' then
        (if 2 \<le> length args then
           do { key \<leftarrow> unmarshalString (args ! 0);
             Some (ZORevRank key (args ! 1)) } else None)
      else if mth = ''ZCOUNT'' then
        (if 3 \<le> length args then
           do { key \<leftarrow> unmarshalString (args ! 0);
             mn \<leftarrow> unmarshalFloat64 (args ! 1);
             mx \<leftarrow> unmarshalFloat64 (args ! 2);
             Some (ZOCount key mn mx) } else None)
      else if mth = ''ZRANGE'' then
        (if 3 \<le> length args then
           do { key \<leftarrow> unmarshalString (args ! 0);
             start \<leftarrow> unmarshalInt (args ! 1);
             stop \<leftarrow> unmarshalInt (args ! 2);
             Some (ZORange key start stop) } else None)
      else if mth = ''ZREVRANGE'' then
        (if 3 \<le> length args then
           do { key \<leftarrow> unmarshalString (args ! 0);
             start \<leftarrow> unmarshalInt (args ! 1);
             stop \<leftarrow> unmarshalInt (args ! 2);
             Some (ZORevRange key start stop) } else None)
      else if mth = ''ZRANGEBYSCORE'' then
        (if 3 \<le> length args then
           do { key \<leftarrow> unmarshalString (args ! 0);
             mn \<leftarrow> unmarshalFloat64 (args ! 1);
             mx \<leftarrow> unmarshalFloat64 (args ! 2);
             offset \<leftarrow> (if 5 \<le> length args then unmarshalInt (args ! 3) else Some 0);
             count \<leftarrow> (if 5 \<le> length args then unmarshalInt (args ! 4) else Some (- 1));
             Some (ZORangeByScore key mn mx offset count) } else None)
      else if mth = ''ZREVRANGEBYSCORE'' then
        (if 3 \<le> length args then
           do { key \<leftarrow> unmarshalString (args ! 0);
             mx \<leftarrow> unmarshalFloat64 (args ! 1);
             mn \<leftarrow> unmarshalFloat64 (args ! 2);
             offset \<leftarrow> (if 5 \<le> length args then unmarshalInt (args ! 3) else Some 0);
             count \<leftarrow> (if 5 \<le> length args then unmarshalInt (args ! 4) else Some (- 1));
             Some (ZORevRangeByScore key mx mn offset count) } else None)
      else if mth = ''COUNT_PREFIX'' then
        (if 1 \<le> length args then
           do { pref \<leftarrow> unmarshalString (args ! 0);
             Some (ZOKeysBy (Prefix pref)) } else None)
      else if mth = ''COUNT_SUFFIX'' then
        (if 1 \<le> length args then
           do { suf \<leftarrow> unmarshalString (args ! 0);
             Some (ZOKeysBy (Suffix suf)) } else None)
      else if mth = ''COUNT_REGEX'' then
        (if 1 \<le> length args then
           do { rx \<leftarrow> unmarshalString (args ! 0);
             Some (ZOKeysBy (Regex rx)) } else None)
      else if mth = ''FIND_PREFIX'' then
        (if 1 \<le> length args then
           do { pref \<leftarrow> unmarshalString (args ! 0);
             Some (ZOFind (Prefix pref)) } else None)
      else if mth = ''FIND_SUFFIX'' then
        (if 1 \<le> length args then
           do { suf \<leftarrow> unmarshalString (args ! 0);
             Some (ZOFind (Suffix suf)) } else None)
      else if mth = ''FIND_REGEX'' then
        (if 1 \<le> length args then
           do { rx \<leftarrow> unmarshalString (args ! 0);
             Some (ZOFind (Regex rx)) } else None)
      else if mth = ''DEL_PREFIX'' then
        (if 1 \<le> length args then
           do { pref \<leftarrow> unmarshalString (args ! 0);
             Some (ZODeleteBy (Prefix pref)) } else None)
      else if mth = ''DEL_SUFFIX'' then
        (if 1 \<le> length args then
           do { suf \<leftarrow> unmarshalString (args ! 0);
             Some (ZODeleteBy (Suffix suf)) } else None)
      else if mth = ''DEL_REGEX'' then
        (if 1 \<le> length args then
           do { rx \<leftarrow> unmarshalString (args ! 0);
             Some (ZODeleteBy (Regex rx)) } else None)
      else if mth = ''DEL'' then (if 1 \<le> length args then do { key \<leftarrow> unmarshalString (args ! 0); Some (ZODelete key) } else None)
      else None)"

lemmas zset_method_defs =
  zset_ZADD_def zset_ZREM_def zset_ZINCRBY_def zset_ZPOPMAX_def zset_ZPOPMIN_def zset_ZSCORE_def
  zset_ZCARD_def zset_ZRANK_def zset_ZREVRANK_def zset_ZCOUNT_def zset_ZRANGE_def zset_ZREVRANGE_def
  zset_ZRANGEBYSCORE_def zset_ZREVRANGEBYSCORE_def zset_COUNT_PREFIX_def zset_COUNT_SUFFIX_def zset_COUNT_REGEX_def zset_FIND_PREFIX_def
  zset_FIND_SUFFIX_def zset_FIND_REGEX_def zset_DEL_PREFIX_def zset_DEL_SUFFIX_def zset_DEL_REGEX_def zset_DEL_def

lemma zset_method_runs:
  "runs (zset_apply (env_compile env) lg (env_now env) (env_src env) (env_keys env)) zset_failed (zset_method env lg mth args)
     (zset_request env mth args)"
  unfolding zset_method_def zset_request_def zset_method_defs
  by (intro runs_rules; rule runs_ending, rule zset_apply.simps, simp add: inj_def, auto simp: accepted_rendering)

end
