(* ===== verification/Router.thy ===== *)
theory Router
  imports RouterSpec
begin

text \<open>
  The entry of the multiplexer (\<open>Execute\<close> of \<open>pkg/multiplexer/router.go\<close>): the creation and the deletion of an
  instance, the number of instances, and a request for an instance.  A request runs under the read lock of the
  transactions, which leaves the steps of one request and of one transaction apart.
\<close>

definition Execute :: "env \<Rightarrow> nat list \<Rightarrow> 'w logger \<Rightarrow> Request \<Rightarrow> (Multiplexer, 'w) handler" where
  "Execute env b lg req = (\<lambda>(m, w).
     (let n = TotalInstances m in
      if Method req = ''CREATE'' then
        (case CreateInstance lg b (DS req) (m, w) of (r, s) \<Rightarrow> Some (or_fail WithUUID r, s))
      else if Method req = ''DELETE_INSTANCE'' then
        (case DeleteInstance lg (DS req) (UUID req) (m, w) of (err, s) \<Rightarrow> Some (finished err, s))
      else if Method req = ''TOTAL_INSTANCES'' then Some (WithInteger n, m, w)
      else if DS req = ''kv'' then executeKV env lg req (m, w)
      else if DS req = ''list'' then executeList env lg req (m, w)
      else if DS req = ''set'' then executeSet env lg req (m, w)
      else if DS req = ''zset'' then executeZSet env lg req (m, w)
      else Some (FailMsg ''unknown data structure type'', m, w)))"

subsection \<open>One instance\<close>

definition same_instances :: "string \<Rightarrow> string \<Rightarrow> Multiplexer \<Rightarrow> Multiplexer \<Rightarrow> bool" where
  "same_instances ds u m m' \<longleftrightarrow>
     (\<forall>v. (ds = ''kv'' \<and> v = u) \<or> kvEngines m' v = kvEngines m v) \<and>
     (\<forall>v. (ds = ''list'' \<and> v = u) \<or> listEngines m' v = listEngines m v) \<and>
     (\<forall>v. (ds = ''set'' \<and> v = u) \<or> setEngines m' v = setEngines m v) \<and>
     (\<forall>v. (ds = ''zset'' \<and> v = u) \<or> zsetEngines m' v = zsetEngines m v)"

definition same_uuids :: "Multiplexer \<Rightarrow> Multiplexer \<Rightarrow> bool" where
  "same_uuids m m' \<longleftrightarrow> dom (kvEngines m') = dom (kvEngines m) \<and> dom (listEngines m') = dom (listEngines m) \<and>
     dom (setEngines m') = dom (setEngines m) \<and> dom (zsetEngines m') = dom (zsetEngines m) \<and> maxInstances m' = maxInstances m"

lemma same_refl [simp]: "same_instances ds u m m" "same_uuids m m"
  by (simp_all add: same_instances_def same_uuids_def)

lemma same_uuids_total: "same_uuids m m' \<Longrightarrow> TotalInstances m' = TotalInstances m \<and> maxInstances m' = maxInstances m"
  by (simp add: same_uuids_def TotalInstances_def)

lemma on_kv_cases:
  "on_kv u absent f (m, w) = Some (r, m', w') \<longleftrightarrow>
     (kvEngines m u = None \<and> r = absent \<and> m' = m \<and> w' = w) \<or>
     (\<exists>e e'. kvEngines m u = Some e \<and> f (e, w) = Some (r, e', w') \<and> m' = m\<lparr>kvEngines := (kvEngines m)(u \<mapsto> e')\<rparr>)"
  by (auto simp: on_kv_def GetKV_def split: option.splits)

lemma on_list_cases:
  "on_list u absent f (m, w) = Some (r, m', w') \<longleftrightarrow>
     (listEngines m u = None \<and> r = absent \<and> m' = m \<and> w' = w) \<or>
     (\<exists>e e'. listEngines m u = Some e \<and> f (e, w) = Some (r, e', w') \<and> m' = m\<lparr>listEngines := (listEngines m)(u \<mapsto> e')\<rparr>)"
  by (auto simp: on_list_def GetList_def split: option.splits)

lemma on_set_cases:
  "on_set u absent f (m, w) = Some (r, m', w') \<longleftrightarrow>
     (setEngines m u = None \<and> r = absent \<and> m' = m \<and> w' = w) \<or>
     (\<exists>e e'. setEngines m u = Some e \<and> f (e, w) = Some (r, e', w') \<and> m' = m\<lparr>setEngines := (setEngines m)(u \<mapsto> e')\<rparr>)"
  by (auto simp: on_set_def GetSet_def split: option.splits)

lemma on_zset_cases:
  "on_zset u absent f (m, w) = Some (r, m', w') \<longleftrightarrow>
     (zsetEngines m u = None \<and> r = absent \<and> m' = m \<and> w' = w) \<or>
     (\<exists>e e'. zsetEngines m u = Some e \<and> f (e, w) = Some (r, e', w') \<and> m' = m\<lparr>zsetEngines := (zsetEngines m)(u \<mapsto> e')\<rparr>)"
  by (auto simp: on_zset_def GetZSet_def split: option.splits)

lemmas on_instance_cases = on_kv_cases on_list_cases on_set_cases on_zset_cases

lemmas execute_defs = executeKV_def executeList_def executeSet_def executeZSet_def

lemma execute_same:
  "executeKV env lg req (m, w) = Some (r, m', w') \<Longrightarrow> same_instances ''kv'' (UUID req) m m' \<and> same_uuids m m'"
  "executeList env lg req (m, w) = Some (r, m', w') \<Longrightarrow> same_instances ''list'' (UUID req) m m' \<and> same_uuids m m'"
  "executeSet env lg req (m, w) = Some (r, m', w') \<Longrightarrow> same_instances ''set'' (UUID req) m m' \<and> same_uuids m m'"
  "executeZSet env lg req (m, w) = Some (r, m', w') \<Longrightarrow> same_instances ''zset'' (UUID req) m m' \<and> same_uuids m m'"
  by (auto simp: execute_defs on_instance_cases same_instances_def same_uuids_def split: if_splits)

text \<open>A request for an instance.\<close>

definition instance_request :: "Request \<Rightarrow> bool" where
  "instance_request req \<longleftrightarrow> Method req \<notin> {''CREATE'', ''DELETE_INSTANCE''}"

lemma Execute_same:
  assumes "Execute env b lg req (m, w) = Some (r, m', w')" "instance_request req"
  shows "same_instances (DS req) (UUID req) m m' \<and> same_uuids m m'"
  using assms execute_same [of env lg req m w r m' w']
  by (auto simp: Execute_def instance_request_def Let_def split: if_splits)

end
