(* ===== verification/RouterProps.thy ===== *)
theory RouterProps
  imports Router KvProps ListRecovery SetProps ZSetProps
begin

text \<open>
  The properties of the multiplexer under requests: the invariants of its engines, the instances a request leaves
  alone, the limit on their number, what a client reads after a write, and the requests that panic.
\<close>

subsection \<open>The invariant\<close>

definition mux_inv :: "Multiplexer \<Rightarrow> bool" where
  "mux_inv m \<longleftrightarrow> (\<forall>u e. kvEngines m u = Some e \<longrightarrow> kv_inv e) \<and> (\<forall>u e. listEngines m u = Some e \<longrightarrow> list_inv e) \<and>
     (\<forall>u e. setEngines m u = Some e \<longrightarrow> set_inv e) \<and> (\<forall>u e. zsetEngines m u = Some e \<longrightarrow> zset_inv e)"

text \<open>
  What a request has to meet: the orders Go chooses list what they walk through; a request to a set instance is not
  one on which the set engine panics (\<open>set_panics\<close>, at the two readings of the clock); and no score that is not a
  number is stored in a sorted set, and every sorted set of the instance has fewer than \<open>2 ^ 63\<close> members.
\<close>

definition list_request_ok :: "env \<Rightarrow> ListStorage \<Rightarrow> bool" where
  "list_request_ok env e \<longleftrightarrow> map_iter (env_keys env) (data e)"

definition set_request_ok :: "env \<Rightarrow> Request \<Rightarrow> SetStorage \<Rightarrow> bool" where
  "set_request_ok env req e \<longleftrightarrow> map_iter (env_keys env) (data e) \<and> iter_ok (env_iter env) \<and>
     pred_option (\<lambda>op. \<not> set_panics (env_later env) op (set_abs (env_now env) e)) (set_request env (Method req) (Args req))"

definition zset_request_ok :: "env \<Rightarrow> Request \<Rightarrow> ZSetStorage \<Rightarrow> bool" where
  "zset_request_ok env req e \<longleftrightarrow> map_iter (env_keys env) (data e) \<and> zsmall (zset_abs (env_now env) e) \<and>
     pred_option (zop_ok (zset_abs (env_now env) e)) (zset_request env (Method req) (Args req))"

definition request_ok :: "env \<Rightarrow> Request \<Rightarrow> Multiplexer \<Rightarrow> bool" where
  "request_ok env req m \<longleftrightarrow>
     (DS req = ''list'' \<longrightarrow> pred_option (list_request_ok env) (listEngines m (UUID req))) \<and>
     (DS req = ''set'' \<longrightarrow> pred_option (set_request_ok env req) (setEngines m (UUID req))) \<and>
     (DS req = ''zset'' \<longrightarrow> pred_option (zset_request_ok env req) (zsetEngines m (UUID req)))"

lemma runs_ends:
  assumes "runs app failed h q" "I (fst s)" "\<And>op. q = Some op \<Longrightarrow> ends (app op s) (\<lambda>(r, s'). I (fst s'))"
  shows "ends (h s) (\<lambda>(r, s'). I (fst s'))"
proof (cases q)
  case None
  then show ?thesis using assms(1,2) by (cases s) (auto simp: runs_def respond_def ends_iff)
next
  case (Some op)
  then obtain f where "h = (\<lambda>s. ending f (app op s))" using assms(1) by (auto simp: runs_def)
  then show ?thesis using assms(3) [OF Some] by (auto simp: ending_def ends_iff)
qed

lemma kv_method_ends: "kv_inv e \<Longrightarrow> ends (kv_method env lg mth args (e, w)) (\<lambda>(r, s'). kv_inv (fst s'))"
  by (rule runs_ends [OF kv_method_runs]) (auto intro!: kv_structure.apply_keeps)

lemma list_method_ends:
  "list_inv e \<Longrightarrow> list_request_ok env e \<Longrightarrow> ends (list_method env lg mth args (e, w)) (\<lambda>(r, s'). list_inv (fst s'))"
  by (rule runs_ends [OF list_method_runs])
    (auto simp: list_request_ok_def intro!: ends_mono [OF list_apply_total])

lemma set_apply_answers:
  assumes "set_inv e" "map_iter ks (data e)" "iter_ok iter" "\<not> set_panics later op (set_abs now e)"
  shows "ends (set_apply compile lg now later clock iter ks op (e, w)) (\<lambda>(r, e', w'). set_inv e')"
  using set_apply_outcome [OF assms(1-3), of compile lg now later op clock w] assms(4)
  by (auto simp: set_outcome_def ends_iff split: option.splits)

lemma set_method_ends:
  "set_inv e \<Longrightarrow> set_request_ok env req e \<Longrightarrow>
   ends (set_method env lg (Method req) (Args req) (e, w)) (\<lambda>(r, s'). set_inv (fst s'))"
  by (rule runs_ends [OF set_method_runs])
    (auto simp: set_request_ok_def intro!: ends_mono [OF set_apply_answers])

lemma zset_method_ends:
  "zset_inv e \<Longrightarrow> zset_request_ok env req e \<Longrightarrow>
   ends (zset_method env lg (Method req) (Args req) (e, w)) (\<lambda>(r, s'). zset_inv (fst s'))"
  by (rule runs_ends [OF zset_method_runs])
    (auto simp: zset_request_ok_def zset_meets_def intro!: ends_mono [OF zset_apply_meets])

lemma execute_ends:
  assumes "mux_inv m" "request_ok env req m"
  shows "ends (executeKV env lg req (m, w)) (\<lambda>(r, m', w'). mux_inv m')"
    "DS req = ''list'' \<Longrightarrow> ends (executeList env lg req (m, w)) (\<lambda>(r, m', w'). mux_inv m')"
    "DS req = ''set'' \<Longrightarrow> ends (executeSet env lg req (m, w)) (\<lambda>(r, m', w'). mux_inv m')"
    "DS req = ''zset'' \<Longrightarrow> ends (executeZSet env lg req (m, w)) (\<lambda>(r, m', w'). mux_inv m')"
proof -
  let ?u = "UUID req" and ?lg = "ScopedWalLogger_Log lg (UUID req)"
  show "ends (executeKV env lg req (m, w)) (\<lambda>(r, m', w'). mux_inv m')"
  proof (cases "kvEngines m ?u")
    case (Some e)
    then show ?thesis using kv_method_ends [of e env ?lg "Method req" "Args req" w] assms(1)
      by (auto simp: executeKV_def on_kv_def GetKV_def ends_iff mux_inv_def)
  qed (simp add: executeKV_def on_kv_def GetKV_def ends_iff assms(1))
  show "ends (executeList env lg req (m, w)) (\<lambda>(r, m', w'). mux_inv m')" if "DS req = ''list''"
  proof (cases "listEngines m ?u")
    case (Some e)
    then show ?thesis using list_method_ends [of e env ?lg "Method req" "Args req" w] assms that
      by (auto simp: executeList_def on_list_def GetList_def ends_iff mux_inv_def request_ok_def)
  qed (simp add: executeList_def on_list_def GetList_def ends_iff assms(1))
  show "ends (executeSet env lg req (m, w)) (\<lambda>(r, m', w'). mux_inv m')" if "DS req = ''set''"
  proof (cases "setEngines m ?u")
    case (Some e)
    then show ?thesis using set_method_ends [of e env req ?lg w] assms that
      by (auto simp: executeSet_def on_set_def GetSet_def ends_iff mux_inv_def request_ok_def)
  qed (simp add: executeSet_def on_set_def GetSet_def ends_iff assms(1))
  show "ends (executeZSet env lg req (m, w)) (\<lambda>(r, m', w'). mux_inv m')" if "DS req = ''zset''"
  proof (cases "zsetEngines m ?u")
    case (Some e)
    then show ?thesis using zset_method_ends [of e env req ?lg w] assms that
      by (auto simp: executeZSet_def on_zset_def GetZSet_def ends_iff mux_inv_def request_ok_def)
  qed (simp add: executeZSet_def on_zset_def GetZSet_def ends_iff assms(1))
qed

lemma create_inv: "mux_inv m \<Longrightarrow> mux_inv (fst (snd (CreateInstance lg b ds (m, w))))"
  by (auto simp: CreateInstance_def createInstanceWithUUIDNoLock_def Let_def mux_inv_def)

lemma delete_inv: "mux_inv m \<Longrightarrow> mux_inv (fst (snd (DeleteInstance lg ds u (m, w))))"
  by (auto simp: DeleteInstance_def deleteInstanceNoWalNoLock_def mux_inv_def)

text \<open>
  C28.  A request that meets \<open>request_ok\<close> is answered, with any logger, and the engines of all instances stay well
  formed.  What \<open>request_ok\<close> leaves out, apart from orders that Go cannot choose, are the requests on which the set
  engine panics (an SRANDMEMBER whose answer cannot be allocated, an SINTERSTORE whose sources all run out between its
  two readings of the clock) and, for an instance of sorted sets, those that would store a score that is not a number or
  find a sorted set of \<open>2 ^ 63\<close> members.  Requests to key-value and list instances are not restricted.
\<close>

theorem mux_never_panics:
  assumes "mux_inv m" "request_ok env req m"
  shows "\<exists>r m' w'. Execute env b lg req (m, w) = Some (r, m', w') \<and> mux_inv m'"
proof -
  have "\<exists>r m' w'. CreateInstance lg b (DS req) (m, w) = (r, m', w') \<and> mux_inv m'"
    using create_inv [OF assms(1), of lg b "DS req" w] by (metis prod.collapse)
  moreover have "\<exists>err m' w'. DeleteInstance lg (DS req) (UUID req) (m, w) = (err, m', w') \<and> mux_inv m'"
    using delete_inv [OF assms(1), of lg "DS req" "UUID req" w] by (metis prod.collapse)
  ultimately show ?thesis
    using execute_ends [OF assms, of lg w] assms(1) by (auto simp: Execute_def ends_iff Let_def)
qed

definition mux_one :: Multiplexer where
  "mux_one = (NewMultiplexer 2)\<lparr>kvEngines := [''u'' \<mapsto> kv_one], setEngines := [''v'' \<mapsto> set_one]\<rparr>"

definition env_one :: env where
  "env_one = \<lparr>env_now = 6, env_later = 6, env_keys = [''s''], env_iter = sorted_list_of_set, env_batch = [], env_clock = (\<lambda>i. 0),
     env_src = sconst False, env_compile = no_regexps\<rparr>"

abbreviation request :: "string \<Rightarrow> string \<Rightarrow> string \<Rightarrow> bytes list \<Rightarrow> Request" where
  "request ds u mth args \<equiv> \<lparr>DS = ds, UUID = u, Method = mth, Args = args\<rparr>"

lemma mux_one_inv: "mux_inv mux_one"
  using kv_one_inv set_reach_inv [OF set_one_reach iter_ok_sorted] by (auto simp: mux_inv_def mux_one_def NewMultiplexer_def)

lemma mux_never_panics_witness:
  "\<exists>r m' w'. Execute env_one [] list_log (request ''set'' ''v'' ''SMEMBERS'' [quoted ''s'']) (mux_one, []) = Some (r, m', w') \<and> mux_inv m'"
proof (rule mux_never_panics [OF mux_one_inv])
  show "request_ok env_one (request ''set'' ''v'' ''SMEMBERS'' [quoted ''s'']) mux_one"
    using set_one_iter iter_ok_sorted
    by (simp add: request_ok_def set_request_ok_def mux_one_def env_one_def set_request_def unmarshalString_def
        json_to_string_quoted plain_char_def byte_of_def)
qed

subsection \<open>The instances\<close>

lemma create_delete_same:
  "CreateInstance lg b ds (m, w) = (r, m', w') \<Longrightarrow> same_instances ds (generateUUID b) m m'"
  "DeleteInstance lg ds u (m, w) = (err, m', w') \<Longrightarrow> same_instances ds u m m'"
  by (auto simp: CreateInstance_def createInstanceWithUUIDNoLock_def DeleteInstance_def deleteInstanceNoWalNoLock_def
      same_instances_def Let_def split: if_splits sum.splits prod.splits option.splits)

lemma set_request_stores:
  assumes "\<And>e a args w. fst (lg e a args w) = None" "mux_inv m" "kvEngines m u = Some e" "unmarshalString ka = Some k"
  shows "\<exists>e' w'. Execute env b lg (request ''kv'' u ''SET'' [ka, v]) (m, w) = Some (OK, m\<lparr>kvEngines := (kvEngines m)(u \<mapsto> e')\<rparr>, w') \<and>
    data e' = (data e)(k \<mapsto> NewPayload v (NewPayloadMetadata (env_now env) None))"
proof -
  have e: "kv_inv e" using assms(2,3) by (auto simp: mux_inv_def)
  let ?lg = "ScopedWalLogger_Log lg u" and ?md = "NewPayloadMetadata (env_now env) None"
  have "fst (?lg e a args w) = None" for e a args w by (simp add: ScopedWalLogger_Log_def assms(1))
  then obtain e' w' where s: "kv_setNoLock ?lg k v ?md (e, w) = Some (None, e', w')" "data e' = (data e)(k \<mapsto> NewPayload v ?md)"
    using kv_set_ends [OF e, of ?lg k v ?md w] by (auto simp: ends_iff) (metis fst_conv)
  then show ?thesis
    by (intro exI [of _ e'] exI [of _ w']) (simp add: Execute_def executeKV_def on_kv_def GetKV_def assms(3) kv_method_def
        kv_SET_def require_def parsed_def assms(4) kv_Set_def ending_def finished_def)
qed

text \<open>
  C29.  A request changes at most the one instance it names, by its kind and its UUID: CREATE the instance with the UUID
  it has drawn, DELETE_INSTANCE the one it deletes, any other request the one it is for.  Only CREATE and
  DELETE_INSTANCE change which instances there are.
\<close>

theorem execute_isolated:
  assumes "Execute env b lg req (m, w) = Some (r, m', w')"
  shows "same_instances (DS req) (if Method req = ''CREATE'' then generateUUID b else UUID req) m m' \<and>
    (Method req \<notin> {''CREATE'', ''DELETE_INSTANCE''} \<longrightarrow> same_uuids m m')"
proof -
  consider "Method req = ''CREATE''" | "Method req = ''DELETE_INSTANCE''" | "instance_request req"
    by (auto simp: instance_request_def)
  then show ?thesis
  proof cases
    case 1
    then show ?thesis using assms create_delete_same(1) [of lg b "DS req" m w]
      by (auto simp: Execute_def Let_def split: prod.splits)
  next
    case 2
    then show ?thesis using assms create_delete_same(2) [of lg "DS req" "UUID req" m w]
      by (auto simp: Execute_def Let_def split: prod.splits)
  next
    case 3
    then show ?thesis using Execute_same [OF assms] by (simp add: instance_request_def)
  qed
qed

lemma execute_isolated_witness:
  "\<exists>m1 w1 e1. Execute env_one [] list_log (request ''kv'' ''u'' ''SET'' [quoted ''n'', ''[1]'']) (mux_one, []) = Some (OK, m1, w1) \<and>
    kvEngines m1 ''u'' = Some e1 \<and> map_option pvalue (data e1 ''n'') = Some ''[1]'' \<and>
    map_option pvalue (data kv_one ''n'') = Some ''41'' \<and> same_instances ''kv'' ''u'' mux_one m1 \<and> same_uuids mux_one m1"
proof -
  have k: "unmarshalString (quoted ''n'') = Some ''n''"
    by (simp add: unmarshalString_def json_to_string_quoted plain_char_def byte_of_def)
  obtain e1 w1 where run: "Execute env_one [] list_log (request ''kv'' ''u'' ''SET'' [quoted ''n'', ''[1]'']) (mux_one, []) =
      Some (OK, mux_one\<lparr>kvEngines := (kvEngines mux_one)(''u'' \<mapsto> e1)\<rparr>, w1)"
    and e1: "data e1 = (data kv_one)(''n'' \<mapsto> NewPayload ''[1]'' (NewPayloadMetadata (env_now env_one) None))"
    using set_request_stores [where lg = list_log and u = "''u''" and e = kv_one and env = env_one and b = "[]" and v = "''[1]''" and w = "[]",
      OF list_log_ok mux_one_inv _ k]
    by (auto simp: mux_one_def)
  have "data kv_one ''n'' = Some (NewPayload ''41'' (NewPayloadMetadata 7 None))" by (simp add: kv_one_def)
  then show ?thesis
    using execute_isolated [OF run] run e1
    by (intro exI [of _ "mux_one\<lparr>kvEngines := (kvEngines mux_one)(''u'' \<mapsto> e1)\<rparr>"] exI [of _ w1] exI [of _ e1]) (simp add: NewPayload_def)
qed

lemma card_insert_int: "int (card (insert x A)) \<le> int (card A) + 1"
  by (cases "finite A") (auto simp: card_insert_if)

lemma create_total:
  "createInstanceWithUUIDNoLock ds u m = Inr m' \<Longrightarrow> TotalInstances m' \<le> TotalInstances m + 1 \<and> maxInstances m' = maxInstances m"
  using card_insert_int [of u]
  by (auto simp: createInstanceWithUUIDNoLock_def TotalInstances_def dom_fun_upd split: if_splits)

lemma delete_total:
  "deleteInstanceNoWalNoLock ds u m = Inr m' \<Longrightarrow> TotalInstances m' \<le> TotalInstances m \<and> maxInstances m' = maxInstances m"
proof -
  have "card (A - {u}) \<le> card A" for A :: "string set"
    by (cases "finite A") (auto intro: card_mono)
  moreover assume "deleteInstanceNoWalNoLock ds u m = Inr m'"
  ultimately show ?thesis
    by (auto simp: deleteInstanceNoWalNoLock_def TotalInstances_def dom_fun_upd split: if_splits)
qed

text \<open>
  C30.  The clients never take the number of instances past the limit: where it is reached, CREATE answers
  \<open>ErrInstanceLimitReached\<close> and changes nothing, not even the log.
\<close>

theorem instance_limit:
  assumes "Execute env b lg req (m, w) = Some (r, m', w')" "TotalInstances m \<le> maxInstances m"
  shows "TotalInstances m' \<le> maxInstances m' \<and> maxInstances m' = maxInstances m \<and>
    (Method req = ''CREATE'' \<and> TotalInstances m = maxInstances m \<longrightarrow> (r, m', w') = (Fail ErrInstanceLimitReached, m, w))"
proof -
  consider "Method req = ''CREATE''" | "Method req = ''DELETE_INSTANCE''" | "instance_request req"
    by (auto simp: instance_request_def)
  then show ?thesis
  proof cases
    case 1
    then show ?thesis using assms create_total [of "DS req" "generateUUID b" m m']
      by (auto simp: Execute_def CreateInstance_def Let_def or_fail_def split: if_splits sum.splits)
  next
    case 2
    then show ?thesis using assms delete_total [of "DS req" "UUID req" m m']
      by (auto simp: Execute_def DeleteInstance_def split: sum.splits)
  next
    case 3
    then show ?thesis
      using assms(2) same_uuids_total [of m m'] Execute_same [OF assms(1)] by (auto simp: instance_request_def)
  qed
qed

lemma instance_limit_witness: "TotalInstances mux_one \<le> maxInstances mux_one \<and> maxInstances mux_one = 2"
proof -
  have le: "TotalInstances mux_one \<le> maxInstances mux_one" by (simp add: TotalInstances_def mux_one_def NewMultiplexer_def)
  have "Execute env_one [] list_log (request ''kv'' [] ''CREATE'' []) (mux_one, []) = Some (Fail ErrInstanceLimitReached, mux_one, [])"
    by (simp add: Execute_def CreateInstance_def or_fail_def TotalInstances_def mux_one_def NewMultiplexer_def)
  from instance_limit [OF this le] show ?thesis by (simp add: mux_one_def NewMultiplexer_def)
qed

subsection \<open>Reading back\<close>

lemma live_put: "data e' = (data e)(k \<mapsto> NewPayload v (NewPayloadMetadata c None)) \<Longrightarrow> kv_Get lg now k (e', w) = Some (Inr v, e', w)"
  by (simp add: kv_Get_def kv_Get_read_def IsExpired_def expired_def NewPayload_def NewPayloadMetadata_def)

text \<open>
  C31.  What a client stores in a key-value instance with SET it reads back with GET as the JSON text it sent, however it
  writes the key, and at any later or earlier reading of the clock.
\<close>

theorem set_then_get:
  assumes "\<And>e a args w. fst (lg e a args w) = None" "mux_inv m" "kvEngines m u \<noteq> None"
    "unmarshalString ka = unmarshalString kb"
  shows "\<exists>m1 w1. Execute env b lg (request ''kv'' u ''SET'' [ka, v]) (m, w) = Some (OK, m1, w1) \<and>
    Execute env' b' lg (request ''kv'' u ''GET'' [kb]) (m1, w1) = Some (WithValue v, m1, w1)"
proof -
  obtain e where e: "kvEngines m u = Some e" using assms(3) by blast
  obtain k where k: "unmarshalString ka = Some k" "unmarshalString kb = Some k"
    using assms(4) by (cases "unmarshalString kb") (auto simp: unmarshalString_def split: option.splits)
  obtain e' w' where s: "Execute env b lg (request ''kv'' u ''SET'' [ka, v]) (m, w) = Some (OK, m\<lparr>kvEngines := (kvEngines m)(u \<mapsto> e')\<rparr>, w')"
    "data e' = (data e)(k \<mapsto> NewPayload v (NewPayloadMetadata (env_now env) None))"
    using set_request_stores [where lg = lg, OF assms(1,2) e k(1)] by blast
  let ?m = "m\<lparr>kvEngines := (kvEngines m)(u \<mapsto> e')\<rparr>"
  have "Execute env' b' lg (request ''kv'' u ''GET'' [kb]) (?m, w') = Some (WithValue v, ?m, w')"
    by (simp add: Execute_def executeKV_def on_kv_def GetKV_def kv_method_def kv_GET_def require_def parsed_def k(2)
        live_put [OF s(2)] ending_def or_fail_def)
  then show ?thesis using s(1) by blast
qed

lemma set_then_get_witness:
  "\<exists>m1 w1. Execute env_one [] list_log (request ''kv'' ''u'' ''SET'' [quoted ''n'', ''[1]'']) (mux_one, []) = Some (OK, m1, w1) \<and>
    Execute env_one [] list_log (request ''kv'' ''u'' ''GET'' [''n'']) (m1, w1) = Some (WithValue ''[1]'', m1, w1)"
proof (rule set_then_get [OF list_log_ok mux_one_inv])
  have "json_scalar_of ''n'' = None"
    by (simp add: json_scalar_of_def json_value_def json_space_def json_keyword_def HasPrefix_def)
  then show "unmarshalString (quoted ''n'') = unmarshalString ''n''"
    by (simp add: unmarshalString_def json_to_string_quoted plain_char_def byte_of_def) (simp add: json_to_string_def)
qed (simp add: mux_one_def)

subsection \<open>Requests that panic\<close>

lemma parse_int_range: "parse_int s = Some n \<Longrightarrow> int64_range n"
  by (auto simp: parse_int_def ParseInt_def int64_range_def split: prod.splits if_splits sum.splits option.splits num_error.splits)

lemma unmarshalInt_range: "unmarshalInt raw = Some n \<Longrightarrow> int64_range n"
  using parse_int_range
  by (auto simp: unmarshalInt_def json_to_int_def int64_range_def split: option.splits json_scalar.splits)

text \<open>
  A client can bring the server down: SRANDMEMBER with a count below \<open>- 2 ^ 48 / 24\<close> on a set that is not empty
  panics, and nothing on the way to the engine looks at the count.
\<close>

theorem random_member_request_panics:
  assumes "setEngines m u = Some e" "data e k = Some v" "\<not> expired (set_expiresAt v) (env_now env)"
    "finite (members v)" "members v \<noteq> {}" "unmarshalString ka = Some k" "unmarshalInt c = Some n" "n < - (2 ^ 48 div 24)"
  shows "Execute env b lg (request ''set'' u ''SRANDMEMBER'' [ka, c]) (m, w) = None"
proof -
  have "SRandMember lg' (env_now env) (env_clock env) (env_iter env) k n (e, w) = None" for lg' :: "'a logger"
    by (rule random_member_none [OF assms(2-5,8) unmarshalInt_range [OF assms(7)]])
  then show ?thesis
    by (simp add: Execute_def executeSet_def on_set_def GetSet_def assms(1,6,7) set_method_def set_SRANDMEMBER_def
        require_def parsed_def optional_int_def ending_def)
qed

lemma random_member_request_panics_witness:
  "Execute env_one [] list_log (request ''set'' ''v'' ''SRANDMEMBER'' [quoted ''s'', FormatInt (- (2 ^ 63))]) (mux_one, []) = None"
proof -
  obtain v where v: "data set_one = [''s'' \<mapsto> v]" "members v = {''a''}" "set_expiresAt v = Some 7"
    using set_one_data by blast
  show ?thesis
  proof (rule random_member_request_panics)
    show "setEngines mux_one ''v'' = Some set_one" "data set_one ''s'' = Some v" by (simp_all add: mux_one_def v)
    have "int64_range (- (2 ^ 63))" by (simp add: int64_range_def)
    then show "unmarshalInt (FormatInt (- (2 ^ 63))) = Some (- (2 ^ 63))"
      by (simp only: unmarshalInt_def json_to_int_FormatInt option.case)
  qed (simp_all add: v env_one_def expired_def unmarshalString_def json_to_string_quoted plain_char_def byte_of_def)
qed

end
