(* ===== verification/MuxSnapshot.thy ===== *)
theory MuxSnapshot
  imports MuxPersistence SnapshotProps ZSetSnapshot RouterProps
begin

text \<open>
  The snapshot of all instances: the sections of the engines, one after the other, are read back into instances under the
  same UUIDs with the same data.
\<close>

subsection \<open>One section\<close>

lemma readString_back: "length s < 2 ^ 32 \<Longrightarrow> readString (writeString s @ rest) = Inr (s, rest)"
  by (simp add: readString_def writeString_def and_then_def ReadUintValue_back ReadFull_append)

lemma read_section:
  assumes "length ds < 2 ^ 32" "length u < 2 ^ 32" "length buf < 2 ^ 63"
    "read_instance (srcs n) ds u buf m = Some (None, [], m')"
  shows "read_instances srcs (Suc n) (serializeEngine ds u buf @ rest) m = read_instances srcs n rest m'"
proof -
  have head: "section_head (serializeEngine ds u buf @ rest) = Inr ((ds, u, length buf), buf @ rest)"
    using assms(1-3) by (simp add: section_head_def serializeEngine_def and_then_back readString_back ReadUintValue_back yields_def)
  have "limited (length buf) (buf @ rest) = buf" using assms(3) by (simp add: limited_def)
  then show ?thesis using assms(3,4) by (simp add: head skip_rest_def)
qed

text \<open>
  The sections of one kind of engine.  \<open>put\<close> stores an engine under its UUID, \<open>good\<close> relates an engine to the
  one read back.
\<close>

lemma sections_back:
  assumes "length ds < 2 ^ 32"
    and each: "\<And>u. u \<in> set us \<Longrightarrow> \<exists>e bs. es u = Some e \<and> length u < 2 ^ 32 \<and> ser u e = Some bs \<and> length bs < 2 ^ 63 \<and>
      (\<forall>src m. \<exists>e'. read_instance src ds u bs m = Some (None, [], put u e' m) \<and> good e e')"
  shows "\<exists>bs. write_instances ds ser es us = Some bs \<and>
    (\<forall>n rest m. \<exists>es'. read_instances srcs (length us + n) (bs @ rest) m = read_instances srcs n rest (fold (\<lambda>(u, e). put u e) es' m) \<and>
      list_all2 (\<lambda>u p. fst p = u \<and> good (the (es u)) (snd p)) us es')"
  using each
proof (induction us)
  case (Cons u us)
  obtain e b where u: "es u = Some e" "length u < 2 ^ 32" "ser u e = Some b" "length b < 2 ^ 63"
    and rd: "\<And>src m. \<exists>e'. read_instance src ds u b m = Some (None, [], put u e' m) \<and> good e e'"
    using Cons.prems [of u] by auto
  obtain bs where bs: "write_instances ds ser es us = Some bs"
    and IH: "\<And>n rest m. \<exists>es'. read_instances srcs (length us + n) (bs @ rest) m = read_instances srcs n rest (fold (\<lambda>(u, e). put u e) es' m) \<and>
      list_all2 (\<lambda>u p. fst p = u \<and> good (the (es u)) (snd p)) us es'"
    using Cons.IH Cons.prems by fastforce
  have "\<exists>es'. read_instances srcs (length (u # us) + n) ((serializeEngine ds u b @ bs) @ rest) m =
        read_instances srcs n rest (fold (\<lambda>(u, e). put u e) es' m) \<and>
      list_all2 (\<lambda>u p. fst p = u \<and> good (the (es u)) (snd p)) (u # us) es'" for n rest m
  proof -
    obtain e' where e': "read_instance (srcs (length us + n)) ds u b m = Some (None, [], put u e' m)" "good e e'" using rd by blast
    obtain es' where es': "read_instances srcs (length us + n) (bs @ rest) (put u e' m) =
        read_instances srcs n rest (fold (\<lambda>(u, e). put u e) es' (put u e' m))"
      "list_all2 (\<lambda>u p. fst p = u \<and> good (the (es u)) (snd p)) us es'" using IH by blast
    have "read_instances srcs (length (u # us) + n) ((serializeEngine ds u b @ bs) @ rest) m =
        read_instances srcs (length us + n) (bs @ rest) (put u e' m)"
      using read_section [where srcs = srcs and n = "length us + n" and rest = "bs @ rest", OF assms(1) u(2,4) e'(1)] by simp
    then show ?thesis using es' e'(2) u(1) by (intro exI [of _ "(u, e') # es'"]) simp
  qed
  then show ?case using u bs by (simp del: append_assoc)
qed simp

lemma fold_stores:
  assumes "\<And>u e m. sel (put u e m) = (sel m)(u \<mapsto> e)" "distinct (map fst es')"
  shows "sel (fold (\<lambda>(u, e). put u e) es' m) = sel m ++ map_of es'"
  using assms(2)
proof (induction es' arbitrary: m)
  case (Cons p es')
  have "fst p \<notin> dom (map_of es')" using Cons.prems by (simp add: dom_map_of_conv_image_fst)
  then show ?case using Cons by (cases p) (simp add: assms(1) map_add_upd_left del: fun_upd_apply)
qed simp

lemma fold_keeps:
  assumes "keep m m" "\<And>u e m'. keep m m' \<Longrightarrow> keep m (put u e m')"
  shows "keep m (fold (\<lambda>(u, e). put u e) es' m)"
  by (rule fold_invariant [where Q = "\<lambda>p. True" and P = "keep m"]) (use assms in auto)

subsection \<open>What the format can hold, and what is the same\<close>

definition instances_fit ::
  "(string \<Rightarrow> string list) \<Rightarrow> (string \<Rightarrow> 'v engine \<Rightarrow> bytes option) \<Rightarrow> ('v \<Rightarrow> bool) \<Rightarrow> (string \<rightharpoonup> 'v engine) \<Rightarrow> bool" where
  "instances_fit ks ser ok es \<longleftrightarrow> card (dom es) < 2 ^ 62 \<and>
     (\<forall>u e. es u = Some e \<longrightarrow> length u < 2 ^ 32 \<and> map_iter (ks u) (data e) \<and> card (dom (data e)) < 2 ^ 64 \<and>
        (\<forall>k v. data e k = Some v \<longrightarrow> length k < 2 ^ 32 \<and> ok v) \<and> pred_option (\<lambda>bs. length bs < 2 ^ 63) (ser u e))"

definition mux_fits :: "set_order \<Rightarrow> (string \<Rightarrow> string \<Rightarrow> string list) \<Rightarrow> Multiplexer \<Rightarrow> bool" where
  "mux_fits iter ks m \<longleftrightarrow>
     instances_fit (ks ''kv'') (\<lambda>u e. Some (kv_SerializeState (ks ''kv'' u) e)) kv_fits (kvEngines m) \<and>
     instances_fit (ks ''list'') (\<lambda>u e. Some (list_SerializeState (ks ''list'' u) e)) list_fits (listEngines m) \<and>
     instances_fit (ks ''set'') (\<lambda>u e. Some (set_SerializeState iter (ks ''set'' u) e)) set_fits (setEngines m) \<and>
     instances_fit (ks ''zset'') (\<lambda>u e. zset_SerializeState (ks ''zset'' u) e) zval_fits (zsetEngines m)"

definition same_data :: "('v \<Rightarrow> 'v \<Rightarrow> bool) \<Rightarrow> 'v engine \<Rightarrow> 'v engine \<Rightarrow> bool" where
  "same_data R e e' \<longleftrightarrow> (\<forall>k. rel_option R (data e k) (data e' k))"

definition mux_same :: "Multiplexer \<Rightarrow> Multiplexer \<Rightarrow> bool" where
  "mux_same m m' \<longleftrightarrow>
     (\<forall>u. rel_option (same_data (=)) (kvEngines m u) (kvEngines m' u)) \<and>
     (\<forall>u. rel_option (same_data (=)) (listEngines m u) (listEngines m' u)) \<and>
     (\<forall>u. rel_option (same_data (=)) (setEngines m u) (setEngines m' u)) \<and>
     (\<forall>u. rel_option (same_data zval_same) (zsetEngines m u) (zsetEngines m' u))"

lemma same_dataI: "data e' = data e \<Longrightarrow> same_data (=) e e'"
  by (simp add: same_data_def option.rel_eq)

text \<open>
  The sections \<open>bs\<close> of \<open>c\<close> engines become the part \<open>sel\<close> of the multiplexer, \<open>keep\<close> says what happens to the other parts.
\<close>

definition recovers ::
  "(nat \<Rightarrow> nat \<Rightarrow> bool stream) \<Rightarrow> (Multiplexer \<Rightarrow> string \<rightharpoonup> 'v engine) \<Rightarrow> (Multiplexer \<Rightarrow> Multiplexer \<Rightarrow> bool) \<Rightarrow>
   ('v engine \<Rightarrow> bool) \<Rightarrow> ('v \<Rightarrow> 'v \<Rightarrow> bool) \<Rightarrow> (string \<rightharpoonup> 'v engine) \<Rightarrow> nat \<Rightarrow> bytes \<Rightarrow> bool" where
  "recovers srcs sel keep I R es c bs \<longleftrightarrow> (\<forall>n rest m. sel m = Map.empty \<longrightarrow>
     (\<exists>m'. read_instances srcs (c + n) (bs @ rest) m = read_instances srcs n rest m' \<and> keep m m' \<and>
        (\<forall>u e. sel m' u = Some e \<longrightarrow> I e) \<and> (\<forall>u. rel_option (same_data R) (es u) (sel m' u))))"

text \<open>The engines of one kind, under the hypotheses of the format.\<close>

lemma instances_back:
  assumes "length ds < 2 ^ 32" "map_iter us es" "instances_fit ks ser ok es" "\<And>u e. es u = Some e \<Longrightarrow> I e"
    and reads: "\<And>u e. I e \<Longrightarrow> map_iter (ks u) (data e) \<Longrightarrow> card (dom (data e)) < 2 ^ 64 \<Longrightarrow>
      (\<And>k v. data e k = Some v \<Longrightarrow> length k < 2 ^ 32 \<and> ok v) \<Longrightarrow>
      \<exists>bs. ser u e = Some bs \<and> (\<forall>src m. \<exists>e'. read_instance src ds u bs m = Some (None, [], put u e' m) \<and> I e' \<and> same_data R e e')"
    and put: "\<And>u e m. sel (put u e m) = (sel m)(u \<mapsto> e)"
    and keep: "\<And>m. keep m m" "\<And>u e m m'. keep m m' \<Longrightarrow> keep m (put u e m')"
  shows "\<exists>bs. write_instances ds ser es us = Some bs \<and> recovers srcs sel keep I R es (card (dom es)) bs"
proof -
  have each: "\<exists>e bs. es u = Some e \<and> length u < 2 ^ 32 \<and> ser u e = Some bs \<and> length bs < 2 ^ 63 \<and>
      (\<forall>src m. \<exists>e'. read_instance src ds u bs m = Some (None, [], put u e' m) \<and> (I e' \<and> same_data R e e'))" if u: "u \<in> set us" for u
  proof -
    obtain e where e: "es u = Some e" using u assms(2) by (auto simp: map_iter_def)
    have fit: "length u < 2 ^ 32" "map_iter (ks u) (data e)" "card (dom (data e)) < 2 ^ 64"
      "\<And>k v. data e k = Some v \<Longrightarrow> length k < 2 ^ 32 \<and> ok v" "pred_option (\<lambda>bs. length bs < 2 ^ 63) (ser u e)"
      using assms(3) e unfolding instances_fit_def by blast+
    from reads [OF assms(4) [OF e] fit(2-4)] fit(1,5) e show ?thesis by fastforce
  qed
  from sections_back [where good = "\<lambda>e e'. I e' \<and> same_data R e e'" and us = us and es = es and put = put and ser = ser and srcs = srcs,
      OF assms(1) each]
  obtain bs where bs: "write_instances ds ser es us = Some bs"
    and rd: "\<And>n rest m. \<exists>es'. read_instances srcs (length us + n) (bs @ rest) m = read_instances srcs n rest (fold (\<lambda>(u, e). put u e) es' m) \<and>
      list_all2 (\<lambda>u p. fst p = u \<and> I (snd p) \<and> same_data R (the (es u)) (snd p)) us es'" by auto
  have "\<exists>m'. read_instances srcs (length us + n) (bs @ rest) m = read_instances srcs n rest m' \<and>
      keep m m' \<and> (\<forall>u e. sel m' u = Some e \<longrightarrow> I e) \<and> (\<forall>u. rel_option (same_data R) (es u) (sel m' u))"
    if empty: "sel m = Map.empty" for n rest m
  proof -
    obtain ps where ps: "read_instances srcs (length us + n) (bs @ rest) m = read_instances srcs n rest (fold (\<lambda>(u, e). put u e) ps m)"
      "list_all2 (\<lambda>u p. fst p = u \<and> I (snd p) \<and> same_data R (the (es u)) (snd p)) us ps" using rd by blast
    have keys: "map fst ps = us" using ps(2) by (induction rule: list_all2_induct) auto
    then have dist: "distinct (map fst ps)" using map_iter_distinct [OF assms(2)] by simp
    have sel: "sel (fold (\<lambda>(u, e). put u e) ps m) = map_of ps"
      using fold_stores [where sel = sel and put = put, OF put dist] empty by simp
    have vals: "\<forall>p \<in> set ps. I (snd p) \<and> same_data R (the (es (fst p))) (snd p)"
      using ps(2) by (induction rule: list_all2_induct) auto
    have "rel_option (same_data R) (es u) (map_of ps u)" for u
    proof (cases "map_of ps u")
      case None
      then have "u \<notin> set us" using keys by (simp add: map_of_eq_None_iff) (metis list.set_map)
      then show ?thesis using None assms(2) by (auto simp: map_iter_def)
    next
      case (Some e)
      then have "(u, e) \<in> set ps" by (rule map_of_SomeD)
      moreover from this have "u \<in> set us" using keys by force
      moreover from this obtain d where "es u = Some d" using assms(2) by (auto simp: map_iter_def)
      ultimately show ?thesis using vals Some by fastforce
    qed
    moreover have "I e" if "map_of ps u = Some e" for u e using vals map_of_SomeD [OF that] by fastforce
    ultimately show ?thesis
      using ps(1) sel fold_keeps [where keep = keep and put = put, OF keep] by (intro exI [of _ "fold (\<lambda>(u, e). put u e) ps m"]) simp
  qed
  then show ?thesis using bs map_iter_length [OF assms(2)] by (simp add: recovers_def)
qed


subsection \<open>The four engines\<close>

lemma kv_section:
  assumes "kv_inv e" "map_iter ks (data e)" "card (dom (data e)) < 2 ^ 64"
    "\<And>k p. data e k = Some p \<Longrightarrow> length k < 2 ^ 32 \<and> kv_fits p"
  shows "\<exists>bs. Some (kv_SerializeState ks e) = Some bs \<and> (\<forall>src m. \<exists>e'. read_instance src ''kv'' u bs m =
    Some (None, [], m\<lparr>kvEngines := (kvEngines m)(u \<mapsto> e')\<rparr>) \<and> kv_inv e' \<and> same_data (=) e e')"
proof -
  obtain e' where "kv_DeserializeState (kv_SerializeState ks e) new_engine = (None, [], e')" "kv_inv e'" "data e' = data e"
    using kv_snapshot_back [OF assms, of "[]" new_engine] by auto
  then show ?thesis by (auto simp: read_instance_def intro: same_dataI)
qed

lemma list_section:
  assumes "list_inv e" "map_iter ks (data e)" "card (dom (data e)) < 2 ^ 64"
    "\<And>k v. data e k = Some v \<Longrightarrow> length k < 2 ^ 32 \<and> list_fits v"
  shows "\<exists>bs. Some (list_SerializeState ks e) = Some bs \<and> (\<forall>src m. \<exists>e'. read_instance src ''list'' u bs m =
    Some (None, [], m\<lparr>listEngines := (listEngines m)(u \<mapsto> e')\<rparr>) \<and> list_inv e' \<and> same_data (=) e e')"
proof -
  obtain e' where "list_DeserializeState (list_SerializeState ks e) new_engine = (None, [], e')" "list_inv e'" "data e' = data e"
    using list_snapshot_back [OF assms, of "[]" new_engine] by auto
  then show ?thesis by (auto simp: read_instance_def intro: same_dataI)
qed

lemma set_section:
  assumes "iter_ok iter" "set_inv e" "map_iter ks (data e)" "card (dom (data e)) < 2 ^ 64"
    "\<And>k v. data e k = Some v \<Longrightarrow> length k < 2 ^ 32 \<and> set_fits v"
  shows "\<exists>bs. Some (set_SerializeState iter ks e) = Some bs \<and> (\<forall>src m. \<exists>e'. read_instance src ''set'' u bs m =
    Some (None, [], m\<lparr>setEngines := (setEngines m)(u \<mapsto> e')\<rparr>) \<and> set_inv e' \<and> same_data (=) e e')"
proof -
  obtain e' where "set_DeserializeState (set_SerializeState iter ks e) new_engine = (None, [], e')" "set_inv e'" "data e' = data e"
    using set_snapshot_back [OF assms, of "[]" new_engine] by auto
  then show ?thesis by (auto simp: read_instance_def intro: same_dataI)
qed

lemma read_zset_instance:
  "zset_DeserializeState src bs new_engine = Some (None, rest, e) \<Longrightarrow>
   read_instance src ''zset'' u bs m = Some (None, rest, m\<lparr>zsetEngines := (zsetEngines m)(u \<mapsto> e)\<rparr>)"
  by (simp add: read_instance_def)

lemma zset_section:
  assumes "zset_inv e" "map_iter ks (data e)" "card (dom (data e)) < 2 ^ 64"
    "\<And>k v. data e k = Some v \<Longrightarrow> length k < 2 ^ 32 \<and> zval_fits v"
  shows "\<exists>bs. zset_SerializeState ks e = Some bs \<and> (\<forall>src m. \<exists>e'. read_instance src ''zset'' u bs m =
    Some (None, [], m\<lparr>zsetEngines := (zsetEngines m)(u \<mapsto> e')\<rparr>) \<and> zset_inv e' \<and> same_data zval_same e e')"
proof -
  obtain bs where bs: "zset_SerializeState ks e = Some bs" using zset_snapshot_back [OF assms] by blast
  have "\<exists>e'. zset_DeserializeState src bs new_engine = Some (None, [], e') \<and> zset_inv e' \<and> same_data zval_same e e'" for src
    using zset_snapshot_back [OF assms, of src "[]" "new_engine"] bs by (auto simp: same_data_def)
  then have "\<exists>e'. read_instance src ''zset'' u bs m = Some (None, [], m\<lparr>zsetEngines := (zsetEngines m)(u \<mapsto> e')\<rparr>) \<and>
      zset_inv e' \<and> same_data zval_same e e'" for src m
    by (metis (no_types) read_zset_instance)
  then show ?thesis using bs by blast
qed

text \<open>What the sections of one kind leave alone.\<close>

abbreviation only_kv :: "Multiplexer \<Rightarrow> Multiplexer \<Rightarrow> bool" where
  "only_kv m m' \<equiv> listEngines m' = listEngines m \<and> setEngines m' = setEngines m \<and> zsetEngines m' = zsetEngines m \<and> maxInstances m' = maxInstances m"

abbreviation only_list :: "Multiplexer \<Rightarrow> Multiplexer \<Rightarrow> bool" where
  "only_list m m' \<equiv> kvEngines m' = kvEngines m \<and> setEngines m' = setEngines m \<and> zsetEngines m' = zsetEngines m \<and> maxInstances m' = maxInstances m"

abbreviation only_set :: "Multiplexer \<Rightarrow> Multiplexer \<Rightarrow> bool" where
  "only_set m m' \<equiv> kvEngines m' = kvEngines m \<and> listEngines m' = listEngines m \<and> zsetEngines m' = zsetEngines m \<and> maxInstances m' = maxInstances m"

abbreviation only_zset :: "Multiplexer \<Rightarrow> Multiplexer \<Rightarrow> bool" where
  "only_zset m m' \<equiv> kvEngines m' = kvEngines m \<and> listEngines m' = listEngines m \<and> setEngines m' = setEngines m \<and> maxInstances m' = maxInstances m"

lemma kv_sections:
  assumes "map_iter us (kvEngines m)" "instances_fit ks (\<lambda>u e. Some (kv_SerializeState (ks u) e)) kv_fits (kvEngines m)"
    "\<forall>u e. kvEngines m u = Some e \<longrightarrow> kv_inv e"
  shows "\<exists>bs. write_instances ''kv'' (\<lambda>u e. Some (kv_SerializeState (ks u) e)) (kvEngines m) us = Some bs \<and>
    recovers srcs kvEngines only_kv kv_inv (=) (kvEngines m) (card (dom (kvEngines m))) bs"
  by (rule instances_back [where put = "\<lambda>u e m. m\<lparr>kvEngines := (kvEngines m)(u \<mapsto> e)\<rparr>", OF _ assms(1,2)])
     (use assms(3) kv_section in \<open>auto simp del: fun_upd_apply\<close>)

lemma list_sections:
  assumes "map_iter us (listEngines m)" "instances_fit ks (\<lambda>u e. Some (list_SerializeState (ks u) e)) list_fits (listEngines m)"
    "\<forall>u e. listEngines m u = Some e \<longrightarrow> list_inv e"
  shows "\<exists>bs. write_instances ''list'' (\<lambda>u e. Some (list_SerializeState (ks u) e)) (listEngines m) us = Some bs \<and>
    recovers srcs listEngines only_list list_inv (=) (listEngines m) (card (dom (listEngines m))) bs"
  by (rule instances_back [where put = "\<lambda>u e m. m\<lparr>listEngines := (listEngines m)(u \<mapsto> e)\<rparr>", OF _ assms(1,2)])
     (use assms(3) list_section in \<open>auto simp del: fun_upd_apply\<close>)

lemma set_sections:
  assumes "iter_ok iter" "map_iter us (setEngines m)" "instances_fit ks (\<lambda>u e. Some (set_SerializeState iter (ks u) e)) set_fits (setEngines m)"
    "\<forall>u e. setEngines m u = Some e \<longrightarrow> set_inv e"
  shows "\<exists>bs. write_instances ''set'' (\<lambda>u e. Some (set_SerializeState iter (ks u) e)) (setEngines m) us = Some bs \<and>
    recovers srcs setEngines only_set set_inv (=) (setEngines m) (card (dom (setEngines m))) bs"
  by (rule instances_back [where put = "\<lambda>u e m. m\<lparr>setEngines := (setEngines m)(u \<mapsto> e)\<rparr>", OF _ assms(2,3)])
     (use assms(4) set_section [OF assms(1)] in \<open>auto simp del: fun_upd_apply\<close>)

lemma zset_sections:
  assumes "map_iter us (zsetEngines m)" "instances_fit ks (\<lambda>u e. zset_SerializeState (ks u) e) zval_fits (zsetEngines m)"
    "\<forall>u e. zsetEngines m u = Some e \<longrightarrow> zset_inv e"
  shows "\<exists>bs. write_instances ''zset'' (\<lambda>u e. zset_SerializeState (ks u) e) (zsetEngines m) us = Some bs \<and>
    recovers srcs zsetEngines only_zset zset_inv zval_same (zsetEngines m) (card (dom (zsetEngines m))) bs"
  by (rule instances_back [where put = "\<lambda>u e m. m\<lparr>zsetEngines := (zsetEngines m)(u \<mapsto> e)\<rparr>", OF _ assms(1,2)])
     (use assms(3) zset_section in \<open>auto simp del: fun_upd_apply\<close>)


subsection \<open>The whole snapshot\<close>

lemma recoversD:
  "recovers srcs sel keep I R es c bs \<Longrightarrow> sel m = Map.empty \<Longrightarrow>
   \<exists>m'. read_instances srcs (c + n) (bs @ rest) m = read_instances srcs n rest m' \<and> keep m m' \<and>
     (\<forall>u e. sel m' u = Some e \<longrightarrow> I e) \<and> (\<forall>u. rel_option (same_data R) (es u) (sel m' u))"
  by (simp add: recovers_def)

lemma kinds_back:
  assumes "recovers srcs kvEngines only_kv kv_inv (=) (kvEngines m) n1 a"
    "recovers srcs listEngines only_list list_inv (=) (listEngines m) n2 b"
    "recovers srcs setEngines only_set set_inv (=) (setEngines m) n3 c"
    "recovers srcs zsetEngines only_zset zset_inv zval_same (zsetEngines m) n4 d"
  shows "\<exists>m'. read_instances srcs (n1 + (n2 + (n3 + n4))) (a @ b @ c @ d @ rest) (mux_Clear m0) = Some (None, rest, m') \<and>
    mux_inv m' \<and> mux_same m m' \<and> maxInstances m' = maxInstances m0"
proof -
  define m1 where "m1 = mux_Clear m0"
  have m1: "kvEngines m1 = Map.empty" "listEngines m1 = Map.empty" "setEngines m1 = Map.empty" "zsetEngines m1 = Map.empty"
    "maxInstances m1 = maxInstances m0" by (simp_all add: m1_def mux_Clear_def)
  obtain m2 where m2: "read_instances srcs (n1 + (n2 + (n3 + n4))) (a @ b @ c @ d @ rest) m1 = read_instances srcs (n2 + (n3 + n4)) (b @ c @ d @ rest) m2"
    "listEngines m2 = Map.empty" "setEngines m2 = Map.empty" "zsetEngines m2 = Map.empty" "maxInstances m2 = maxInstances m0"
    "\<forall>u e. kvEngines m2 u = Some e \<longrightarrow> kv_inv e" "\<forall>u. rel_option (same_data (=)) (kvEngines m u) (kvEngines m2 u)"
    using recoversD [OF assms(1) m1(1), of "n2 + (n3 + n4)" "b @ c @ d @ rest"] m1 by auto
  obtain m3 where m3: "read_instances srcs (n2 + (n3 + n4)) (b @ c @ d @ rest) m2 = read_instances srcs (n3 + n4) (c @ d @ rest) m3"
    "kvEngines m3 = kvEngines m2" "setEngines m3 = Map.empty" "zsetEngines m3 = Map.empty" "maxInstances m3 = maxInstances m0"
    "\<forall>u e. listEngines m3 u = Some e \<longrightarrow> list_inv e" "\<forall>u. rel_option (same_data (=)) (listEngines m u) (listEngines m3 u)"
    using recoversD [OF assms(2) m2(2), of "n3 + n4" "c @ d @ rest"] m2 by auto
  obtain m4 where m4: "read_instances srcs (n3 + n4) (c @ d @ rest) m3 = read_instances srcs n4 (d @ rest) m4"
    "kvEngines m4 = kvEngines m2" "listEngines m4 = listEngines m3" "zsetEngines m4 = Map.empty" "maxInstances m4 = maxInstances m0"
    "\<forall>u e. setEngines m4 u = Some e \<longrightarrow> set_inv e" "\<forall>u. rel_option (same_data (=)) (setEngines m u) (setEngines m4 u)"
    using recoversD [OF assms(3) m3(3), of n4 "d @ rest"] m3 by auto
  obtain m5 where m5: "read_instances srcs n4 (d @ rest) m4 = Some (None, rest, m5)"
    "kvEngines m5 = kvEngines m2" "listEngines m5 = listEngines m3" "setEngines m5 = setEngines m4" "maxInstances m5 = maxInstances m0"
    "\<forall>u e. zsetEngines m5 u = Some e \<longrightarrow> zset_inv e" "\<forall>u. rel_option (same_data zval_same) (zsetEngines m u) (zsetEngines m5 u)"
    using recoversD [OF assms(4) m4(4), of 0 rest] m4 by auto
  have "mux_inv m5 \<and> mux_same m m5" using m2 m3 m4 m5 by (simp add: mux_inv_def mux_same_def)
  then show ?thesis using m2(1) m3(1) m4(1) m5(1,5) by (auto simp: m1_def)
qed

text \<open>
  C37.  A snapshot of all instances, with whatever follows it, is read back by any multiplexer into instances of the same
  kinds under the same UUIDs, each with its keys, values and expiries, and their invariants.
\<close>

theorem mux_snapshot_roundtrip:
  assumes "mux_inv m" "mux_walk us m" "iter_ok iter" "mux_fits iter ks m"
  shows "\<exists>bs. mux_SerializeState iter ks us m = Some bs \<and>
    (\<exists>m'. mux_DeserializeState srcs (bs @ rest) m0 = Some (None, rest, m') \<and> mux_inv m' \<and> mux_same m m' \<and>
      maxInstances m' = maxInstances m0)"
proof -
  note H = assms(2) [unfolded mux_walk_def] assms(4) [unfolded mux_fits_def] assms(1) [unfolded mux_inv_def]
  let ?k = "card (dom (kvEngines m))" and ?l = "card (dom (listEngines m))"
  let ?s = "card (dom (setEngines m))" and ?z = "card (dom (zsetEngines m))"
  obtain a where a: "write_instances ''kv'' (\<lambda>u e. Some (kv_SerializeState (ks ''kv'' u) e)) (kvEngines m) (kv_uuids us) = Some a"
    "recovers srcs kvEngines only_kv kv_inv (=) (kvEngines m) ?k a"
    using kv_sections [of "kv_uuids us" m "ks ''kv''" srcs] H by blast
  obtain b where b: "write_instances ''list'' (\<lambda>u e. Some (list_SerializeState (ks ''list'' u) e)) (listEngines m) (list_uuids us) = Some b"
    "recovers srcs listEngines only_list list_inv (=) (listEngines m) ?l b"
    using list_sections [of "list_uuids us" m "ks ''list''" srcs] H by blast
  obtain c where c: "write_instances ''set'' (\<lambda>u e. Some (set_SerializeState iter (ks ''set'' u) e)) (setEngines m) (set_uuids us) = Some c"
    "recovers srcs setEngines only_set set_inv (=) (setEngines m) ?s c"
    using set_sections [OF assms(3), of "set_uuids us" m "ks ''set''" srcs] H by blast
  obtain d where d: "write_instances ''zset'' (\<lambda>u e. zset_SerializeState (ks ''zset'' u) e) (zsetEngines m) (zset_uuids us) = Some d"
    "recovers srcs zsetEngines only_zset zset_inv zval_same (zsetEngines m) ?z d"
    using zset_sections [of "zset_uuids us" m "ks ''zset''" srcs] H by blast
  have small: "?k + ?l + ?s + ?z < 256 ^ 8" using H(2) by (simp add: instances_fit_def)
  obtain m' where "read_instances srcs (?k + (?l + (?s + ?z))) (a @ b @ c @ d @ rest) (mux_Clear m0) = Some (None, rest, m')"
    "mux_inv m'" "mux_same m m'" "maxInstances m' = maxInstances m0"
    using kinds_back [OF a(2) b(2) c(2) d(2)] by blast
  then show ?thesis
    using a(1) b(1) c(1) d(1) ReadUintValue_back [OF small]
    by (simp add: mux_SerializeState_def mux_DeserializeState_def add.assoc)
qed

definition mux_two :: Multiplexer where
  "mux_two = (NewMultiplexer 3)\<lparr>kvEngines := [''u'' \<mapsto> kv_one], listEngines := [''v'' \<mapsto> list_one],
     zsetEngines := [''w'' \<mapsto> new_engine]\<rparr>"

definition walk_two :: mux_order where
  "walk_two = \<lparr>kv_uuids = [''u''], list_uuids = [''v''], set_uuids = [], zset_uuids = [''w'']\<rparr>"

definition keys_two :: "string \<Rightarrow> string \<Rightarrow> string list" where
  "keys_two ds u = (if ds = ''kv'' then [''n''] else if ds = ''list'' then [''l''] else [])"

lemma mux_snapshot_roundtrip_witness:
  "\<exists>bs. mux_SerializeState sorted_list_of_set keys_two walk_two mux_two = Some bs \<and>
    (\<exists>m'. mux_DeserializeState (\<lambda>i j. sconst False) (bs @ []) (NewMultiplexer 9) = Some (None, [], m') \<and> mux_inv m' \<and>
      mux_same mux_two m' \<and> maxInstances m' = maxInstances (NewMultiplexer 9))"
proof (rule mux_snapshot_roundtrip [OF _ _ iter_ok_sorted])
  show "mux_inv mux_two" using kv_one_inv list_reach_inv [OF list_one_reach]
    by (auto simp: mux_inv_def mux_two_def NewMultiplexer_def split: if_splits)
  show "mux_walk walk_two mux_two" by (simp add: mux_walk_def walk_two_def mux_two_def NewMultiplexer_def map_iter_def)
  have "\<And>k p. data kv_one k = Some p \<Longrightarrow> length k < 2 ^ 32 \<and> kv_fits p" "length (kv_SerializeState [''n''] kv_one) < 2 ^ 63"
    "card (dom (data kv_one)) < 2 ^ 64"
    by (auto simp: kv_one_def kv_fits_def times_fit_def NewPayload_def NewPayloadMetadata_def int64_range_def kv_SerializeState_def
      write_state_def kv_write_value_def write_expiry_def WriteUintValue_def WriteBytes_def WriteInt64Value_def split: if_splits)
  moreover have "\<And>k v. data list_one k = Some v \<Longrightarrow> length k < 2 ^ 32 \<and> list_fits v" "length (list_SerializeState [''l''] list_one) < 2 ^ 63"
    "card (dom (data list_one)) < 2 ^ 64"
    by (auto simp: list_one_def list_fits_def times_fit_def NewValue_def int64_range_def list_SerializeState_def
      write_state_def list_write_value_def write_expiry_def WriteUintValue_def WriteBytes_def WriteInt64Value_def split: if_splits)
  ultimately show "mux_fits sorted_list_of_set keys_two mux_two"
    using kv_one_iter list_one_iter
    by (auto simp: mux_fits_def instances_fit_def mux_two_def NewMultiplexer_def keys_two_def map_iter_def
      zset_SerializeState_def WriteUintValue_def split: if_splits)
qed

end
