(* ===== verification/TxBuilder.thy ===== *)
theory TxBuilder
  imports Router
begin

text \<open>
  The transactions of a client (\<open>pkg/multiplexer/tx_builder.go\<close>): the requests it queues become operations that first
  look at the key they name, for the undo, and then run the request.  The state of the operations is the multiplexer with
  the logger of the transactions, and the answers gathered so far.
\<close>

type_synonym 'w tx_state = "(Multiplexer \<times> 'w) \<times> Response list"

definition answering :: "(Multiplexer \<times> 'w \<Rightarrow> (goerr option \<times> Multiplexer \<times> 'w) option) \<Rightarrow> 'w tx_state undo" where
  "answering f = (\<lambda>(s, rs). map_option (\<lambda>(err, s'). (err, s', rs)) (f s))"

definition no_undo :: "'w tx_state undo" where
  "no_undo = (\<lambda>s. Some (None, s))"

text \<open>A call of the undo \<open>nil\<close> panics.\<close>

definition nil_undo :: "'w tx_state undo" where
  "nil_undo = (\<lambda>s. None)"

definition request_key :: "bytes list \<Rightarrow> string" where
  "request_key args = (if args = [] then [] else (case unmarshalString (hd args) of Some k \<Rightarrow> k | None \<Rightarrow> []))"

text \<open>\<open>Time.Sub\<close> stops at the bounds of a \<open>Duration\<close>.\<close>

definition time_sub :: "time \<Rightarrow> time \<Rightarrow> int" where
  "time_sub t c = max (- (2 ^ 63)) (min (2 ^ 63 - 1) (t - c))"

text \<open>
  The request runs, its answer is kept, and one that was refused fails the transaction, with the text of its error.
\<close>

definition op_failed :: "string \<Rightarrow> Response \<Rightarrow> goerr" where
  "op_failed msg res = (case Answer_Error (answer res) of Some e \<Rightarrow> FormattedError msg e | None \<Rightarrow> PlainError (msg @ '': ''))"

definition run_queued ::
  "string \<Rightarrow> 'w tx_state undo \<Rightarrow> (Response \<times> Multiplexer \<times> 'w) option \<Rightarrow> Response list \<Rightarrow>
   (('w tx_state undo \<times> goerr option) \<times> 'w tx_state) option" where
  "run_queued msg undo r rs =
     map_option (\<lambda>(res, s). ((undo, if accepted res then None else Some (op_failed msg res)), s, rs @ [res])) r"

subsection \<open>The operations\<close>

text \<open>What an undo does to the instance.\<close>

definition kv_restore :: "'w logger \<Rightarrow> time \<Rightarrow> string \<Rightarrow> Payload option \<Rightarrow> Storage \<times> 'w \<Rightarrow> (goerr option \<times> Storage \<times> 'w) option" where
  "kv_restore lg now key oldPayload s =
     (case oldPayload of
        Some p \<Rightarrow>
          (case expiresAt (metadata p) of
             Some t \<Rightarrow> kv_SetWithTTL lg now key (pvalue p) (time_sub t (createdAt (metadata p))) s
           | None \<Rightarrow> kv_Set lg key (pvalue p) (metadata p) s)
      | None \<Rightarrow> kv_Delete lg key s)"

definition kv_undo :: "env \<Rightarrow> 'w logger \<Rightarrow> string \<Rightarrow> string \<Rightarrow> Payload option \<Rightarrow> 'w tx_state undo" where
  "kv_undo uenv lg uuid key oldPayload =
     answering (on_kv uuid None (kv_restore (ScopedWalLogger_Log lg uuid) (env_now uenv) key oldPayload))"

definition kv_undone :: "string \<Rightarrow> bool" where
  "kv_undone mth \<longleftrightarrow> mth \<in> {''SET'', ''SET_TTL'', ''DEL'', ''INCR'', ''INCR_BY'', ''DECR'', ''DECR_BY''}"

definition buildKVOp :: "env \<Rightarrow> env \<Rightarrow> 'w logger \<Rightarrow> Request \<Rightarrow> 'w tx_state Op" where
  "buildKVOp env uenv lg req = (\<lambda>((m, w), rs).
     (case GetKV (UUID req) m of
        None \<Rightarrow> Some ((nil_undo, Some ErrInstanceNotFound), (m, w), rs)
      | Some eng \<Rightarrow>
          (let key = request_key (Args req);
               undo = (if kv_undone (Method req)
                       then kv_undo uenv lg (UUID req) key (kv_SnapshotKey (env_now env) key eng) else no_undo)
           in run_queued ''kv op failed'' undo (executeKV env lg req (m, w)) rs)))"

definition list_restore :: "'w logger \<Rightarrow> time \<Rightarrow> string \<Rightarrow> bytes list option \<Rightarrow> ListStorage \<times> 'w \<Rightarrow> (goerr option \<times> ListStorage \<times> 'w) option" where
  "list_restore lg now key oldList s =
     (case oldList of
        Some xs \<Rightarrow> do { (_, s1) \<leftarrow> list_Delete lg key s; RightPush lg now key xs None s1 }
      | None \<Rightarrow> list_Delete lg key s)"

definition list_undo :: "env \<Rightarrow> 'w logger \<Rightarrow> string \<Rightarrow> string \<Rightarrow> bytes list option \<Rightarrow> 'w tx_state undo" where
  "list_undo uenv lg uuid key oldList =
     answering (on_list uuid None (list_restore (ScopedWalLogger_Log lg uuid) (env_now uenv) key oldList))"

definition buildListOp :: "env \<Rightarrow> env \<Rightarrow> 'w logger \<Rightarrow> Request \<Rightarrow> 'w tx_state Op" where
  "buildListOp env uenv lg req = (\<lambda>((m, w), rs).
     (case GetList (UUID req) m of
        None \<Rightarrow> Some ((nil_undo, Some ErrInstanceNotFound), (m, w), rs)
      | Some eng \<Rightarrow>
          (let key = request_key (Args req)
           in run_queued ''list op failed'' (list_undo uenv lg (UUID req) key (SnapshotList (env_now env) key eng))
                (executeList env lg req (m, w)) rs)))"

definition sum_error :: "goerr + 'a \<Rightarrow> goerr option" where
  "sum_error r = (case r of Inl err \<Rightarrow> Some err | Inr _ \<Rightarrow> None)"

definition set_restore :: "'w logger \<Rightarrow> time \<Rightarrow> string \<Rightarrow> bytes list option \<Rightarrow> SetStorage \<times> 'w \<Rightarrow> (goerr option \<times> SetStorage \<times> 'w) option" where
  "set_restore lg now key oldMembers s =
     (case oldMembers of
        Some ms \<Rightarrow> do {
          (_, s1) \<leftarrow> set_Delete lg key s;
          (r, s2) \<leftarrow> SAdd lg now key ms None s1;
          Some (sum_error r, s2) }
      | None \<Rightarrow> set_Delete lg key s)"

definition set_undo :: "env \<Rightarrow> 'w logger \<Rightarrow> string \<Rightarrow> string \<Rightarrow> bytes list option \<Rightarrow> 'w tx_state undo" where
  "set_undo uenv lg uuid key oldMembers =
     answering (on_set uuid None (set_restore (ScopedWalLogger_Log lg uuid) (env_now uenv) key oldMembers))"

definition buildSetOp :: "env \<Rightarrow> env \<Rightarrow> 'w logger \<Rightarrow> Request \<Rightarrow> 'w tx_state Op" where
  "buildSetOp env uenv lg req = (\<lambda>((m, w), rs).
     (case GetSet (UUID req) m of
        None \<Rightarrow> Some ((nil_undo, Some ErrInstanceNotFound), (m, w), rs)
      | Some eng \<Rightarrow>
          (let key = request_key (Args req)
           in run_queued ''set op failed'' (set_undo uenv lg (UUID req) key (SnapshotMembers (env_now env) (env_iter env) key eng))
                (executeSet env lg req (m, w)) rs)))"

definition zset_restore ::
  "'w logger \<Rightarrow> time \<Rightarrow> bool stream \<Rightarrow> string \<Rightarrow> ZSetMember list option \<Rightarrow> ZSetStorage \<times> 'w \<Rightarrow> (goerr option \<times> ZSetStorage \<times> 'w) option" where
  "zset_restore lg now src key oldMembers s =
     (case oldMembers of
        Some ms \<Rightarrow> do {
          (_, s1) \<leftarrow> zset_Delete lg key s;
          (r, s2) \<leftarrow> ZAdd lg now src key ms None s1;
          Some (sum_error r, s2) }
      | None \<Rightarrow> zset_Delete lg key s)"

definition zset_undo :: "env \<Rightarrow> 'w logger \<Rightarrow> string \<Rightarrow> string \<Rightarrow> ZSetMember list option \<Rightarrow> 'w tx_state undo" where
  "zset_undo uenv lg uuid key oldMembers =
     answering (on_zset uuid None (zset_restore (ScopedWalLogger_Log lg uuid) (env_now uenv) (env_src uenv) key oldMembers))"

definition buildZSetOp :: "env \<Rightarrow> env \<Rightarrow> 'w logger \<Rightarrow> Request \<Rightarrow> 'w tx_state Op" where
  "buildZSetOp env uenv lg req = (\<lambda>((m, w), rs).
     (case GetZSet (UUID req) m of
        None \<Rightarrow> Some ((nil_undo, Some ErrInstanceNotFound), (m, w), rs)
      | Some eng \<Rightarrow>
          (let key = request_key (Args req) in
           Option.bind (SnapshotZSetAll (env_now env) key eng) (\<lambda>old.
             run_queued ''zset op failed'' (zset_undo uenv lg (UUID req) key old) (executeZSet env lg req (m, w)) rs))))"

subsection \<open>The builder\<close>

record 'w TxBuilder =
  tb_requests :: "Request list"
  tb_tx :: "'w tx_state Transaction"
  tb_responses :: "Response list"

definition NewTxBuilder :: "'w TxBuilder" where
  "NewTxBuilder = \<lparr>tb_requests = [], tb_tx = new_transaction, tb_responses = []\<rparr>"

definition Queue :: "Request \<Rightarrow> 'w TxBuilder \<Rightarrow> 'w TxBuilder" where
  "Queue req tb = tb\<lparr>tb_requests := tb_requests tb @ [req]\<rparr>"

definition TxBuilder_Len :: "'w TxBuilder \<Rightarrow> nat" where
  "TxBuilder_Len tb = length (tb_requests tb)"

text \<open>\<open>envs i\<close> is what Go chooses while request \<open>i\<close> runs, and while it is undone.\<close>

definition build_op :: "(env \<times> env) \<Rightarrow> 'w logger \<Rightarrow> Request \<Rightarrow> 'w tx_state Op option" where
  "build_op es lg req =
     (if DS req = ''kv'' then Some (buildKVOp (fst es) (snd es) lg req)
      else if DS req = ''list'' then Some (buildListOp (fst es) (snd es) lg req)
      else if DS req = ''set'' then Some (buildSetOp (fst es) (snd es) lg req)
      else if DS req = ''zset'' then Some (buildZSetOp (fst es) (snd es) lg req)
      else None)"

fun buildOps ::
  "(nat \<Rightarrow> env \<times> env) \<Rightarrow> 'w logger \<Rightarrow> nat \<Rightarrow> Request list \<Rightarrow> 'w tx_state Transaction \<Rightarrow> goerr option \<times> 'w tx_state Transaction" where
  "buildOps envs lg i [] tx = (None, tx)"
| "buildOps envs lg i (req # reqs) tx =
     (case build_op (envs i) lg req of
        None \<Rightarrow> (Some (PlainError (''invalid data structure type in tx: '' @ DS req)), tx)
      | Some oper \<Rightarrow>
          (case Transaction_Add oper tx of
             (Some err, tx') \<Rightarrow> (Some err, tx')
           | (None, tx') \<Rightarrow> buildOps envs lg (Suc i) reqs tx'))"

text \<open>The logger of the multiplexer is the one of the transactions, over \<open>real_log\<close>.\<close>

definition TxBuilder_Exec ::
  "(nat \<Rightarrow> env \<times> env) \<Rightarrow> 'w logger \<Rightarrow> string \<Rightarrow> 'w TxWalLogger TxBuilder \<Rightarrow> Multiplexer \<times> 'w TxWalLogger \<Rightarrow>
   ((Response list \<times> goerr option) \<times> 'w TxWalLogger TxBuilder \<times> Multiplexer \<times> 'w TxWalLogger) option" where
  "TxBuilder_Exec envs real_log txID tb = (\<lambda>(m, l).
     (case buildOps envs (TxWalLogger_Log real_log) 0 (tb_requests tb) (tb_tx tb) of
        (Some err, tx) \<Rightarrow> Some (([], Some err), tb\<lparr>tb_tx := tx\<rparr>, m, l)
      | (None, tx) \<Rightarrow>
          (case Transaction_Exec tx ((m, BeginTx l), []) of
             None \<Rightarrow> None
           | Some (Some err, tx', (m', l'), rs) \<Rightarrow>
               Some ((rs, Some err), tb\<lparr>tb_tx := tx', tb_responses := rs\<rparr>, m', RollbackTx l')
           | Some (None, tx', (m', l'), rs) \<Rightarrow>
               (case CommitTx real_log txID l' of
                  (err, l'') \<Rightarrow> Some ((rs, err), tb\<lparr>tb_tx := tx', tb_responses := rs\<rparr>, m', l'')))))"

end
