(* ===== verification/GoPath.thy ===== *)
theory GoPath
  imports GoJson
begin

text \<open>
  \<open>path.Match\<close> of the standard library, which the hub uses for its patterns: the chunks between stars, the character
  classes, the escapes, and \<open>ErrBadPattern\<close>, which is \<^term>\<open>None\<close> here.
\<close>

text \<open>\<open>getEsc\<close>: a character of a class, and what follows it, which is not empty.\<close>

definition getEsc :: "string \<Rightarrow> (nat \<times> string) option" where
  "getEsc chunk =
     (case chunk of
        [] \<Rightarrow> None
      | c # cs \<Rightarrow>
          if c = CHR ''-'' \<or> c = CHR '']'' then None
          else
            (case (if c = CHR 92 then cs else chunk) of
               [] \<Rightarrow> None
             | d # ds \<Rightarrow>
                 (case DecodeRune d ds of
                    (r, n) \<Rightarrow>
                      if r = RuneError \<and> n = 1 then None
                      else if drop (n - 1) ds = [] then None
                      else Some (r, drop (n - 1) ds))))"

lemma getEsc_shorter: "getEsc chunk = Some (r, rest) \<Longrightarrow> length rest < length chunk"
  by (auto simp: getEsc_def split: list.splits if_splits prod.splits)

definition class_range :: "string \<Rightarrow> ((nat \<times> nat) \<times> string) option" where
  "class_range chunk =
     (case getEsc chunk of
        None \<Rightarrow> None
      | Some (lo, rest) \<Rightarrow>
          if hd rest = CHR ''-'' then map_option (\<lambda>(hi, rest'). ((lo, hi), rest')) (getEsc (tl rest))
          else Some ((lo, lo), rest))"

lemma class_range_shorter: "class_range chunk = Some (x, rest) \<Longrightarrow> length rest < length chunk"
  by (force simp: class_range_def split: option.splits if_splits dest: getEsc_shorter)

text \<open>The ranges of a class for the code point \<open>r\<close>: whether one holds it, and what follows the class.\<close>

function class_ranges :: "nat \<Rightarrow> bool \<Rightarrow> nat \<Rightarrow> string \<Rightarrow> (bool \<times> string) option" where
  "class_ranges r found nrange chunk =
     (if chunk \<noteq> [] \<and> hd chunk = CHR '']'' \<and> 0 < nrange then Some (found, tl chunk)
      else
        (case class_range chunk of
           None \<Rightarrow> None
         | Some ((lo, hi), rest) \<Rightarrow> class_ranges r (found \<or> (lo \<le> r \<and> r \<le> hi)) (Suc nrange) rest))"
  by pat_completeness auto
termination
  by (relation "measure (\<lambda>(r, found, nrange, chunk). length chunk)") (auto dest: class_range_shorter)

declare class_ranges.simps [simp del]

lemma class_ranges_shorter: "class_ranges r found nrange chunk = Some (b, rest) \<Longrightarrow> length rest \<le> length chunk"
proof (induction r found nrange chunk rule: class_ranges.induct)
  case (1 r found nrange chunk)
  show ?case
  proof (cases "chunk \<noteq> [] \<and> hd chunk = CHR '']'' \<and> 0 < nrange")
    case True
    then show ?thesis using 1(2) by (auto simp: class_ranges.simps [of r found nrange chunk])
  next
    case False
    then obtain lo hi more where c: "class_range chunk = Some ((lo, hi), more)"
      and r: "class_ranges r (found \<or> (lo \<le> r \<and> r \<le> hi)) (Suc nrange) more = Some (b, rest)"
      using 1(2) unfolding class_ranges.simps [of r found nrange chunk] if_not_P [OF False]
      by (auto split: option.splits)
    from 1(1) [OF False c refl refl r] class_range_shorter [OF c] show ?thesis by simp
  qed
qed

definition rune_width :: "string \<Rightarrow> nat" where
  "rune_width s = (case s of [] \<Rightarrow> 0 | c # cs \<Rightarrow> snd (DecodeRune c cs))"

definition first_rune :: "string \<Rightarrow> nat" where
  "first_rune s = (case s of [] \<Rightarrow> RuneError | c # cs \<Rightarrow> fst (DecodeRune c cs))"

text \<open>
  \<open>matchChunk\<close>.  The string is \<^term>\<open>None\<close> once the match has failed: the rest of the chunk is still checked.  The result
  is \<^term>\<open>None\<close> for a bad pattern, \<^term>\<open>Some None\<close> for no match.
\<close>

function matchChunk :: "string \<Rightarrow> string option \<Rightarrow> string option option" where
  "matchChunk [] s = Some s"
| "matchChunk (c # chunk) s0 =
     (let s = (if s0 = Some [] then None else s0) in
      if c = CHR ''['' then
        (let negated = (chunk \<noteq> [] \<and> hd chunk = CHR ''^'');
             r = (case s of Some t \<Rightarrow> first_rune t | None \<Rightarrow> 0) in
         case class_ranges r False 0 (if negated then tl chunk else chunk) of
           None \<Rightarrow> None
         | Some (found, rest) \<Rightarrow>
             matchChunk rest (if found = negated then None else map_option (\<lambda>t. drop (rune_width t) t) s))
      else if c = CHR ''?'' then
        matchChunk chunk (Option.bind s (\<lambda>t. if hd t = CHR ''/'' then None else Some (drop (rune_width t) t)))
      else if c = CHR 92 then
        (case chunk of
           [] \<Rightarrow> None
         | d # rest \<Rightarrow> matchChunk rest (Option.bind s (\<lambda>t. if hd t = d then Some (tl t) else None)))
      else matchChunk chunk (Option.bind s (\<lambda>t. if hd t = c then Some (tl t) else None)))"
  by pat_completeness auto
termination
proof (relation "measure (\<lambda>(chunk, s). length chunk)", goal_cases)
  case (2 c chunk s0 s negated r p found rest)
  then show ?case using class_ranges_shorter [of r False 0 "if negated then tl chunk else chunk" found rest]
    by (cases chunk) (auto split: if_splits)
qed auto

text \<open>\<open>scanChunk\<close>: a star, the part up to the next star outside a class, the rest.\<close>

fun scan :: "bool \<Rightarrow> string \<Rightarrow> string \<times> string" where
  "scan inrange [] = ([], [])"
| "scan inrange (c # cs) =
     (if c = CHR 92 then
        (case cs of [] \<Rightarrow> ([c], []) | d # ds \<Rightarrow> apfst (\<lambda>a. c # d # a) (scan inrange ds))
      else if c = CHR ''*'' \<and> \<not> inrange then ([], c # cs)
      else apfst (Cons c) (scan (if c = CHR ''['' then True else if c = CHR '']'' then False else inrange) cs))"

definition star :: "char \<Rightarrow> bool" where
  "star c \<longleftrightarrow> c = CHR ''*''"

definition scanChunk :: "string \<Rightarrow> bool \<times> string \<times> string" where
  "scanChunk pattern =
     (pattern \<noteq> [] \<and> star (hd pattern), scan False (dropWhile star pattern))"

lemma scan_length: "length (snd (scan b p)) \<le> length p"
proof (induction b p rule: scan.induct)
  case (2 inrange c cs)
  show ?case
  proof (cases "c = CHR 92")
    case True
    then show ?thesis using 2(1) by (cases cs) auto
  next
    case False
    then show ?thesis using 2(2) by auto
  qed
qed simp

lemma scanChunk_shorter: "scanChunk pattern = (st, chunk, rest) \<Longrightarrow> pattern \<noteq> [] \<Longrightarrow> length rest < length pattern"
proof -
  assume s: "scanChunk pattern = (st, chunk, rest)" and "pattern \<noteq> []"
  then obtain c cs where p: "pattern = c # cs" by (cases pattern) auto
  have rest: "rest = snd (scan False (dropWhile star pattern))" using s by (auto simp: scanChunk_def)
  show ?thesis
  proof (cases "star c")
    case True
    then show ?thesis
      using rest p scan_length [of False "dropWhile star cs"] length_dropWhile_le [of star cs] by simp
  next
    case False
    have "length (snd (scan False (c # cs))) \<le> length cs"
    proof (cases "c = CHR 92")
      case True
      then show ?thesis using scan_length [of False "tl cs"] by (cases cs) auto
    next
      case False
      then show ?thesis using \<open>\<not> star c\<close> scan_length [of _ cs] by (auto simp: star_def)
    qed
    then show ?thesis using rest p False by simp
  qed
qed

text \<open>The search behind a star: it cannot skip a slash, and the last chunk has to use up the name.\<close>

fun star_search :: "string \<Rightarrow> bool \<Rightarrow> string \<Rightarrow> string option option" where
  "star_search chunk final [] = Some None"
| "star_search chunk final (c # name) =
     (if c = CHR ''/'' then Some None
      else
        (case matchChunk chunk (Some name) of
           None \<Rightarrow> None
         | Some (Some t) \<Rightarrow> if final \<and> t \<noteq> [] then star_search chunk final name else Some (Some t)
         | Some None \<Rightarrow> star_search chunk final name))"

text \<open>The check of the rest of a pattern that no longer matches.\<close>

function well_formed :: "string \<Rightarrow> bool" where
  "well_formed pattern =
     (if pattern = [] then True
      else (case scanChunk pattern of (st, chunk, rest) \<Rightarrow> matchChunk chunk (Some []) \<noteq> None \<and> well_formed rest))"
  by pat_completeness auto
termination by (relation "measure length") (auto dest!: scanChunk_shorter [OF sym])

declare well_formed.simps [simp del]

function path_Match :: "string \<Rightarrow> string \<Rightarrow> bool option" where
  "path_Match pattern name =
     (if pattern = [] then Some (name = [])
      else
        (case scanChunk pattern of
           (st, chunk, rest) \<Rightarrow>
             if st \<and> chunk = [] then Some (CHR ''/'' \<notin> set name)
             else
               (let refuse = (if well_formed rest then Some False else None) in
                case matchChunk chunk (Some name) of
                  None \<Rightarrow> None
                | Some m \<Rightarrow>
                    (case m of
                       Some t \<Rightarrow>
                         if t = [] \<or> rest \<noteq> [] then path_Match rest t
                         else if st then
                           (case star_search chunk (rest = []) name of
                              None \<Rightarrow> None | Some (Some t') \<Rightarrow> path_Match rest t' | Some None \<Rightarrow> refuse)
                         else refuse
                     | None \<Rightarrow>
                         if st then
                           (case star_search chunk (rest = []) name of
                              None \<Rightarrow> None | Some (Some t') \<Rightarrow> path_Match rest t' | Some None \<Rightarrow> refuse)
                         else refuse))))"
  by pat_completeness auto
termination by (relation "measure (\<lambda>(pattern, name). length pattern)") (auto dest!: scanChunk_shorter [OF sym])

declare path_Match.simps [simp del]

text \<open>A pattern without special characters matches itself and nothing else.\<close>

definition literal :: "char \<Rightarrow> bool" where
  "literal c \<longleftrightarrow> c \<notin> {CHR ''*'', CHR ''?'', CHR ''['', CHR 92}"

lemma matchChunk_literal:
  "list_all literal p \<Longrightarrow> matchChunk p (Some s) = Some (if HasPrefix s p then Some (drop (length p) s) else None)"
  "list_all literal p \<Longrightarrow> matchChunk p None = Some None"
proof -
  show none: "list_all literal p \<Longrightarrow> matchChunk p None = Some None" for p
    by (induction p) (auto simp: literal_def Let_def)
  show "list_all literal p \<Longrightarrow> matchChunk p (Some s) = Some (if HasPrefix s p then Some (drop (length p) s) else None)"
    by (induction p arbitrary: s) (auto simp: literal_def Let_def none HasPrefix_def neq_Nil_conv)
qed

lemma scan_literal: "list_all literal p \<Longrightarrow> scan False p = (p, [])" for p
proof -
  have "list_all literal p \<Longrightarrow> scan b p = (p, [])" if "\<forall>c. c \<in> set p \<longrightarrow> literal c" for b
    using that by (induction p arbitrary: b) (auto simp: literal_def)
  then show "list_all literal p \<Longrightarrow> scan False p = (p, [])" by (simp add: list_all_iff)
qed

lemma path_Match_literal:
  assumes "list_all literal p"
  shows "path_Match p s = Some (s = p)"
proof (cases "p = []")
  case False
  then have d: "dropWhile star p = p" "\<not> star (hd p)"
    using assms by (cases p; auto simp: star_def literal_def)+
  have sc: "scanChunk p = (False, p, [])" using d scan_literal [OF assms] by (simp add: scanChunk_def)
  have e: "path_Match [] t = Some (t = [])" "well_formed []" for t
    by (simp_all add: path_Match.simps [of "[]"] well_formed.simps [of "[]"])
  show ?thesis
  proof (cases "HasPrefix s p")
    case True
    then obtain r where r: "s = p @ r" using HasPrefix_iff by blast
    have "matchChunk p (Some (p @ r)) = Some (Some r)" using assms True r by (simp add: matchChunk_literal)
    then show ?thesis using False r e by (simp add: path_Match.simps [of p] sc Let_def)
  next
    case False
    then have "s \<noteq> p" by (auto simp: HasPrefix_def)
    moreover have "matchChunk p (Some s) = Some None" using assms False by (simp add: matchChunk_literal)
    ultimately show ?thesis using \<open>p \<noteq> []\<close> e by (simp add: path_Match.simps [of p] sc)
  qed
qed (simp add: path_Match.simps [of "[]"])

end
