(* ===== verification/PubSub.thy ===== *)
theory PubSub
  imports GoPath
begin

text \<open>
  The hub of the channels (\<open>pkg/pubsub/pubsub.go\<close>).  A subscriber is a value of any type with an identifier \<open>ident\<close>
  (the interface \<open>Subscriber\<close>); the sets of the channels compare the values, the list of the patterns compares the
  identifiers.  A publication gives the messages it sends, in order; what a subscriber does with one is its own affair.
  \<open>interests\<close> is what the hub promises: who is interested in what, as the calls say it.
\<close>

record PushMessage =
  Push_Type :: string
  Push_Pattern :: string
  Push_Channel :: string
  Push_Data :: bytes

record 's Hub =
  hub_channels :: "string \<rightharpoonup> 's set"
  patternSubs :: "(string \<times> 's) list"

definition NewHub :: "'s Hub" where
  "NewHub = \<lparr>hub_channels = Map.empty, patternSubs = []\<rparr>"

definition subCountForSub :: "('s \<Rightarrow> string) \<Rightarrow> 's \<Rightarrow> 's Hub \<Rightarrow> int" where
  "subCountForSub ident sub h =
     int (card {c \<in> dom (hub_channels h). sub \<in> the (hub_channels h c)}) +
     int (length (filter (\<lambda>(p, t). ident t = ident sub) (patternSubs h)))"

definition Subscribe :: "('s \<Rightarrow> string) \<Rightarrow> string \<Rightarrow> 's \<Rightarrow> 's Hub \<Rightarrow> int \<times> 's Hub" where
  "Subscribe ident channel sub h =
     (let subs = (case hub_channels h channel of None \<Rightarrow> {} | Some S \<Rightarrow> S);
          h' = h\<lparr>hub_channels := (hub_channels h)(channel \<mapsto> insert sub subs)\<rparr>
      in (subCountForSub ident sub h', h'))"

text \<open>A channel that no one listens to any more is forgotten.\<close>

definition without :: "'s \<Rightarrow> 's set \<Rightarrow> 's set option" where
  "without sub S = (if S - {sub} = {} then None else Some (S - {sub}))"

definition Unsubscribe :: "('s \<Rightarrow> string) \<Rightarrow> string \<Rightarrow> 's \<Rightarrow> 's Hub \<Rightarrow> int \<times> 's Hub" where
  "Unsubscribe ident channel sub h =
     (let h' = (case hub_channels h channel of
                  None \<Rightarrow> h
                | Some S \<Rightarrow> h\<lparr>hub_channels := (hub_channels h)(channel := without sub S)\<rparr>)
      in (subCountForSub ident sub h', h'))"

definition PSubscribe :: "('s \<Rightarrow> string) \<Rightarrow> string \<Rightarrow> 's \<Rightarrow> 's Hub \<Rightarrow> int \<times> 's Hub" where
  "PSubscribe ident pattern sub h =
     (let already = list_ex (\<lambda>(p, t). p = pattern \<and> ident t = ident sub) (patternSubs h);
          h' = (if already then h else h\<lparr>patternSubs := patternSubs h @ [(pattern, sub)]\<rparr>)
      in (subCountForSub ident sub h', h'))"

definition PUnsubscribe :: "('s \<Rightarrow> string) \<Rightarrow> string \<Rightarrow> 's \<Rightarrow> 's Hub \<Rightarrow> int \<times> 's Hub" where
  "PUnsubscribe ident pattern sub h =
     (let h' = h\<lparr>patternSubs := filter (\<lambda>(p, t). \<not> (p = pattern \<and> ident t = ident sub)) (patternSubs h)\<rparr>
      in (subCountForSub ident sub h', h'))"

definition UnsubscribeAll :: "('s \<Rightarrow> string) \<Rightarrow> 's \<Rightarrow> 's Hub \<Rightarrow> 's Hub" where
  "UnsubscribeAll ident sub h =
     h\<lparr>hub_channels := (\<lambda>c. Option.bind (hub_channels h c) (without sub)),
       patternSubs := filter (\<lambda>(p, t). ident t \<noteq> ident sub) (patternSubs h)\<rparr>"

definition push_message :: "string \<Rightarrow> bytes \<Rightarrow> PushMessage" where
  "push_message channel payload =
     \<lparr>Push_Type = ''message'', Push_Pattern = [], Push_Channel = channel, Push_Data = payload\<rparr>"

definition push_pmessage :: "string \<Rightarrow> bytes \<Rightarrow> string \<Rightarrow> PushMessage" where
  "push_pmessage channel payload pattern =
     \<lparr>Push_Type = ''pmessage'', Push_Pattern = pattern, Push_Channel = channel, Push_Data = payload\<rparr>"

fun publish_patterns :: "string \<Rightarrow> bytes \<Rightarrow> (string \<times> 's) list \<Rightarrow> ('s \<times> PushMessage) list" where
  "publish_patterns channel payload [] = []"
| "publish_patterns channel payload ((p, t) # entries) =
     (if path_Match p channel = Some True then [(t, push_pmessage channel payload p)] else []) @
     publish_patterns channel payload entries"

text \<open>\<open>iter\<close> is the order in which Go walks through a set.\<close>

definition Publish :: "('s set \<Rightarrow> 's list) \<Rightarrow> string \<Rightarrow> bytes \<Rightarrow> 's Hub \<Rightarrow> int \<times> ('s \<times> PushMessage) list" where
  "Publish iter channel payload h =
     (let direct = (case hub_channels h channel of
                      None \<Rightarrow> []
                    | Some S \<Rightarrow> map (\<lambda>t. (t, push_message channel payload)) (iter S));
          sent = direct @ publish_patterns channel payload (patternSubs h)
      in (int (length sent), sent))"

definition Channels :: "string list \<Rightarrow> 's Hub \<Rightarrow> string list" where
  "Channels ks h = filter (\<lambda>c. hub_channels h c \<noteq> None) ks"

definition NumSub :: "string \<Rightarrow> 's Hub \<Rightarrow> int" where
  "NumSub channel h = (case hub_channels h channel of None \<Rightarrow> 0 | Some S \<Rightarrow> int (card S))"

subsection \<open>The calls, and the interests they stand for\<close>

datatype 's hub_op =
    HSubscribe string 's
  | HUnsubscribe string 's
  | HPSubscribe string 's
  | HPUnsubscribe string 's
  | HUnsubscribeAll 's

fun hub_apply :: "('s \<Rightarrow> string) \<Rightarrow> 's hub_op \<Rightarrow> 's Hub \<Rightarrow> 's Hub" where
  "hub_apply ident (HSubscribe c s) h = snd (Subscribe ident c s h)"
| "hub_apply ident (HUnsubscribe c s) h = snd (Unsubscribe ident c s h)"
| "hub_apply ident (HPSubscribe p s) h = snd (PSubscribe ident p s h)"
| "hub_apply ident (HPUnsubscribe p s) h = snd (PUnsubscribe ident p s h)"
| "hub_apply ident (HUnsubscribeAll s) h = UnsubscribeAll ident s h"

type_synonym 's interests = "(string \<times> 's) set \<times> (string \<times> 's) list"

fun hub_spec :: "'s hub_op \<Rightarrow> 's interests \<Rightarrow> 's interests" where
  "hub_spec (HSubscribe c s) (A, B) = (insert (c, s) A, B)"
| "hub_spec (HUnsubscribe c s) (A, B) = (A - {(c, s)}, B)"
| "hub_spec (HPSubscribe p s) (A, B) = (A, if (p, s) \<in> set B then B else B @ [(p, s)])"
| "hub_spec (HPUnsubscribe p s) (A, B) = (A, removeAll (p, s) B)"
| "hub_spec (HUnsubscribeAll s) (A, B) = ({x \<in> A. snd x \<noteq> s}, filter (\<lambda>x. snd x \<noteq> s) B)"

definition interests :: "'s Hub \<Rightarrow> 's interests" where
  "interests h = ({(c, s). \<exists>S. hub_channels h c = Some S \<and> s \<in> S}, patternSubs h)"

text \<open>No channel without a listener, no pattern twice for one of them.\<close>

definition hub_inv :: "'s Hub \<Rightarrow> bool" where
  "hub_inv h \<longleftrightarrow> finite (dom (hub_channels h)) \<and> (\<forall>c S. hub_channels h c = Some S \<longrightarrow> finite S \<and> S \<noteq> {}) \<and>
     distinct (patternSubs h)"

lemma NewHub_inv [simp]: "hub_inv NewHub" "interests NewHub = ({}, [])"
  by (simp_all add: hub_inv_def interests_def NewHub_def)

text \<open>No one else in the list of the patterns has the identifier of \<open>s\<close>.\<close>

definition known :: "('s \<Rightarrow> string) \<Rightarrow> 's \<Rightarrow> 's Hub \<Rightarrow> bool" where
  "known ident s h \<longleftrightarrow> (\<forall>x \<in> set (patternSubs h). ident (snd x) = ident s \<longrightarrow> snd x = s)"

fun hub_client :: "'s hub_op \<Rightarrow> 's" where
  "hub_client (HSubscribe c s) = s"
| "hub_client (HUnsubscribe c s) = s"
| "hub_client (HPSubscribe p s) = s"
| "hub_client (HPUnsubscribe p s) = s"
| "hub_client (HUnsubscribeAll s) = s"

lemma known_same: "known ident s h \<Longrightarrow> x \<in> set (patternSubs h) \<Longrightarrow> ident (snd x) = ident s \<longleftrightarrow> snd x = s"
  by (auto simp: known_def)

lemma known_mine:
  "known ident s h \<Longrightarrow> filter (\<lambda>(p, t). ident t = ident s) (patternSubs h) = filter (\<lambda>x. snd x = s) (patternSubs h)"
  "known ident s h \<Longrightarrow> filter (\<lambda>(p, t). ident t \<noteq> ident s) (patternSubs h) = filter (\<lambda>x. snd x \<noteq> s) (patternSubs h)"
  "known ident s h \<Longrightarrow> filter (\<lambda>(p, t). p = q \<longrightarrow> ident t \<noteq> ident s) (patternSubs h) = removeAll (q, s) (patternSubs h)"
  "known ident s h \<Longrightarrow> list_ex (\<lambda>(p, t). p = q \<and> ident t = ident s) (patternSubs h) \<longleftrightarrow> (q, s) \<in> set (patternSubs h)"
  by (auto simp: known_def list_ex_iff removeAll_filter_not_eq intro!: filter_cong)

lemma without_Some: "without s S = Some T \<longleftrightarrow> T = S - {s} \<and> T \<noteq> {}"
  by (auto simp: without_def)

lemmas hub_defs = Subscribe_def Unsubscribe_def PSubscribe_def PUnsubscribe_def UnsubscribeAll_def Let_def

lemma hub_apply_inv:
  assumes "hub_inv h" "known ident (hub_client op) h"
  shows "hub_inv (hub_apply ident op h)"
proof (cases op)
  case (HUnsubscribeAll s)
  have "dom (\<lambda>c. Option.bind (hub_channels h c) (without s)) \<subseteq> dom (hub_channels h)"
    by (auto simp: bind_eq_Some_conv)
  then show ?thesis using assms HUnsubscribeAll
    by (auto simp: hub_inv_def hub_defs bind_eq_Some_conv without_Some dest: finite_subset)
next
  case (HPSubscribe p s)
  then show ?thesis using assms by (simp add: hub_inv_def hub_defs known_mine)
qed (use assms in \<open>auto simp: hub_inv_def hub_defs without_def split: option.splits if_splits\<close>)

lemma hub_apply_interests:
  assumes "known ident (hub_client op) h"
  shows "interests (hub_apply ident op h) = hub_spec op (interests h)"
proof (cases op)
  case (HSubscribe c s)
  then show ?thesis by (auto simp: interests_def hub_defs split: if_splits option.splits)
next
  case (HUnsubscribe c s)
  then show ?thesis by (auto simp: interests_def hub_defs without_def split: if_splits option.splits)
next
  case (HPSubscribe p s)
  then show ?thesis using assms by (simp add: interests_def hub_defs known_mine)
next
  case (HPUnsubscribe p s)
  then show ?thesis using assms by (simp add: interests_def hub_defs known_mine)
next
  case (HUnsubscribeAll s)
  then show ?thesis using assms
    by (auto simp: interests_def hub_defs known_mine bind_eq_Some_conv without_Some)
qed

text \<open>The number of the interests of a subscriber, which every call answers.\<close>

definition interest_count :: "'s \<Rightarrow> 's interests \<Rightarrow> int" where
  "interest_count s = (\<lambda>(A, B). int (card {c. (c, s) \<in> A}) + int (length (filter (\<lambda>x. snd x = s) B)))"

lemma subCount_interests: "known ident s h \<Longrightarrow> subCountForSub ident s h = interest_count s (interests h)"
proof -
  assume k: "known ident s h"
  have "{c \<in> dom (hub_channels h). s \<in> the (hub_channels h c)} = {c. \<exists>S. hub_channels h c = Some S \<and> s \<in> S}"
    by auto
  then show ?thesis by (simp add: subCountForSub_def interest_count_def interests_def known_mine [OF k])
qed

lemma known_after: "known ident (hub_client op) h \<Longrightarrow> known ident (hub_client op) (hub_apply ident op h)"
  by (cases op) (auto simp: known_def hub_defs split: option.splits)

text \<open>The answer of a call is the number of interests its caller has after it.\<close>

fun hub_answer :: "('s \<Rightarrow> string) \<Rightarrow> 's hub_op \<Rightarrow> 's Hub \<Rightarrow> int option" where
  "hub_answer ident (HSubscribe c s) h = Some (fst (Subscribe ident c s h))"
| "hub_answer ident (HUnsubscribe c s) h = Some (fst (Unsubscribe ident c s h))"
| "hub_answer ident (HPSubscribe p s) h = Some (fst (PSubscribe ident p s h))"
| "hub_answer ident (HPUnsubscribe p s) h = Some (fst (PUnsubscribe ident p s h))"
| "hub_answer ident (HUnsubscribeAll s) h = None"

lemma hub_answers:
  "known ident (hub_client op) h \<Longrightarrow> hub_answer ident op h = Some n \<Longrightarrow>
   n = interest_count (hub_client op) (hub_spec op (interests h))"
proof -
  assume k: "known ident (hub_client op) h" and n: "hub_answer ident op h = Some n"
  have "n = subCountForSub ident (hub_client op) (hub_apply ident op h)"
    using n by (cases op) (auto simp: hub_defs)
  then show ?thesis by (simp add: subCount_interests [OF known_after [OF k]] hub_apply_interests [OF k])
qed

subsection \<open>Publication\<close>

definition iterates :: "('s set \<Rightarrow> 's list) \<Rightarrow> bool" where
  "iterates iter \<longleftrightarrow> (\<forall>S. finite S \<longrightarrow> distinct (iter S) \<and> set (iter S) = S)"

text \<open>What a subscriber with these interests is sent.\<close>

definition deliveries :: "string \<Rightarrow> bytes \<Rightarrow> 's \<Rightarrow> 's interests \<Rightarrow> PushMessage list" where
  "deliveries c payload s = (\<lambda>(A, B).
     (if (c, s) \<in> A then [push_message c payload] else []) @
     map (push_pmessage c payload \<circ> fst) (filter (\<lambda>(p, t). t = s \<and> path_Match p c = Some True) B))"

definition sent_to :: "'s \<Rightarrow> ('s \<times> PushMessage) list \<Rightarrow> PushMessage list" where
  "sent_to s sent = map snd (filter (\<lambda>(t, msg). t = s) sent)"

lemma sent_to_patterns:
  "sent_to s (publish_patterns c payload B) =
     map (push_pmessage c payload \<circ> fst) (filter (\<lambda>(p, t). t = s \<and> path_Match p c = Some True) B)"
  by (induction c payload B rule: publish_patterns.induct) (simp_all add: sent_to_def)

lemma sent_to_direct:
  "distinct xs \<Longrightarrow> sent_to s (map (\<lambda>t. (t, msg)) xs) = (if s \<in> set xs then [msg] else [])"
proof (induction xs)
  case (Cons x xs)
  then show ?case by (cases "x = s") (auto simp: sent_to_def)
qed (simp add: sent_to_def)

lemma publish_sends:
  assumes "hub_inv h" "iterates iter"
  shows "sent_to s (snd (Publish iter c payload h)) = deliveries c payload s (interests h)"
proof (cases "hub_channels h c")
  case None
  then show ?thesis by (simp add: Publish_def Let_def deliveries_def interests_def sent_to_patterns)
next
  case (Some S)
  then have "finite S" using assms(1) by (auto simp: hub_inv_def)
  then have S: "distinct (iter S)" "set (iter S) = S" using assms(2) by (auto simp: iterates_def)
  have append: "sent_to s (xs @ ys) = sent_to s xs @ sent_to s ys" for xs ys :: "('a \<times> PushMessage) list"
    by (simp add: sent_to_def)
  have "snd (Publish iter c payload h) =
      map (\<lambda>t. (t, push_message c payload)) (iter S) @ publish_patterns c payload (patternSubs h)"
    using Some by (simp add: Publish_def Let_def)
  then show ?thesis
    using Some S(2) sent_to_direct [OF S(1), of s "push_message c payload"]
    by (simp add: append sent_to_patterns deliveries_def interests_def)
qed

end
