(* ===== verification/Sessions.thy ===== *)
theory Sessions
  imports TxBuilder PubSub
begin

text \<open>
  The server (\<open>pkg/server/server.go\<close>, \<open>client_conn.go\<close>): what a connection does with a line, and the steps of the
  connections, their writers and the listener.  A line comes in decoded, or as the error of \<open>json.Unmarshal\<close>.  The
  answer of a line waits in \<open>replies\<close>: \<open>WriteResponse\<close> blocks while the buffer of the connection is full.  A line of
  subscriptions is handled one argument at a time, each acknowledged before the next is looked at.
\<close>

type_synonym conn = nat

subsection \<open>A connection\<close>

datatype frame = Reply Response | Push PushMessage

text \<open>\<open>wire\<close> is what was written to the socket.\<close>

record ClientConn =
  cc_id :: string
  writeCh :: "frame list"
  cc_closed :: bool
  wire :: "frame list"

definition NewClientConn :: "string \<Rightarrow> ClientConn" where
  "NewClientConn cid = \<lparr>cc_id = cid, writeCh = [], cc_closed = False, wire = []\<rparr>"

text \<open>The capacity of the channel.\<close>

definition write_buffer :: nat where
  "write_buffer = 256"

text \<open>
  What \<open>json.Marshal\<close> can write: it fails at a number that is infinite or none, and at a \<open>json.RawMessage\<close> that is no
  JSON text.  An empty \<open>Value\<close> is left out, a \<open>nil\<close> in a map is written as \<open>null\<close>.
\<close>

definition finite_float :: "float64 \<Rightarrow> bool" where
  "finite_float x \<longleftrightarrow> float_mag x < inf_mag"

definition scored_marshals :: "ScoredMember \<Rightarrow> bool" where
  "scored_marshals s \<longleftrightarrow> json_valid (Member s) \<and> finite_float (Score s)"

definition answer_marshals :: "Answer \<Rightarrow> bool" where
  "answer_marshals a \<longleftrightarrow>
     (Answer_Value a = [] \<or> json_valid (Answer_Value a)) \<and> pred_option finite_float (Answer_Float a) \<and>
     list_all json_valid (Answer_Items a) \<and> (\<forall>v \<in> ran (Answer_KeyVals a). pred_option json_valid v) \<and>
     list_all (list_all json_valid \<circ> Entry_Items) (Answer_Entries a) \<and> list_all scored_marshals (Answer_Scored a) \<and>
     list_all (list_all scored_marshals \<circ> ScoredEntry_Items) (Answer_Grouped a)"

primrec marshals :: "Response \<Rightarrow> bool" where
  "marshals (Response a rs) \<longleftrightarrow> answer_marshals a \<and> list_all id (map marshals rs)"

text \<open>
  \<^term>\<open>None\<close> blocks.  What is put into the channel of a closed connection is never written.  The text that stands for an
  answer that cannot be written is the one of \<^term>\<open>FailMsg ''failed to serialize response''\<close>.
\<close>

definition WriteResponse :: "Response \<Rightarrow> ClientConn \<Rightarrow> ClientConn option" where
  "WriteResponse resp cc =
     (let frm = Reply (if marshals resp then resp else FailMsg ''failed to serialize response'') in
      if cc_closed cc then Some cc
      else if length (writeCh cc) < write_buffer then Some (cc\<lparr>writeCh := writeCh cc @ [frm]\<rparr>)
      else None)"

definition Send :: "PushMessage \<Rightarrow> ClientConn \<Rightarrow> ClientConn" where
  "Send msg cc =
     (if \<not> json_valid (Push_Data msg) then cc
      else if length (writeCh cc) < write_buffer then cc\<lparr>writeCh := writeCh cc @ [Push msg]\<rparr>
      else cc)"

text \<open>One turn of \<open>writeLoop\<close>; the error of a write is ignored.\<close>

definition writeLoop :: "bool \<Rightarrow> ClientConn \<Rightarrow> ClientConn option" where
  "writeLoop written cc =
     (if cc_closed cc then None
      else (case writeCh cc of
              [] \<Rightarrow> None
            | f # fs \<Rightarrow> Some (cc\<lparr>writeCh := fs, wire := wire cc @ (if written then [f] else [])\<rparr>)))"

definition Close :: "ClientConn \<Rightarrow> ClientConn" where
  "Close cc = cc\<lparr>cc_closed := True\<rparr>"

subsection \<open>The server\<close>

record 'w Session =
  txBuilder :: "'w TxWalLogger TxBuilder option"
  subscriberMode :: bool
  subCount :: int
  pending :: "Request option"
  replies :: "Response list"

definition new_session :: "'w Session" where
  "new_session = \<lparr>txBuilder = None, subscriberMode = False, subCount = 0, pending = None, replies = []\<rparr>"

text \<open>
  \<open>pending\<close> is the subscription line whose loop runs, with the arguments that are left.
  \<open>clients\<close> are the connections ever accepted, \<open>sessions\<close> those whose goroutine runs (\<open>conns\<close>) with its local variables.
\<close>

record 'w Server =
  srv_mux :: Multiplexer
  srv_wal :: "'w TxWalLogger"
  srv_hub :: "conn Hub"
  clients :: "conn \<rightharpoonup> ClientConn"
  sessions :: "conn \<rightharpoonup> 'w Session"

definition NewServer :: "Multiplexer \<Rightarrow> 'w TxWalLogger \<Rightarrow> 'w Server" where
  "NewServer m l = \<lparr>srv_mux = m, srv_wal = l, srv_hub = NewHub, clients = Map.empty, sessions = Map.empty\<rparr>"

definition ident :: "'w Server \<Rightarrow> conn \<Rightarrow> string" where
  "ident srv c = (case clients srv c of None \<Rightarrow> [] | Some cc \<Rightarrow> cc_id cc)"

text \<open>What Go chooses while a line is handled.\<close>

record choices =
  ch_env :: env
  ch_uuid :: "nat list"
  ch_txenvs :: "nat \<Rightarrow> env \<times> env"
  ch_runtime :: ServerInfo
  ch_caps :: "string \<Rightarrow> string \<Rightarrow> nat \<Rightarrow> nat"
  ch_order :: mux_order
  ch_iter :: "conn set \<Rightarrow> conn list"

subsection \<open>One line\<close>

definition reply :: "Response \<Rightarrow> 'w Session \<Rightarrow> 'w Session" where
  "reply r sess = sess\<lparr>replies := replies sess @ [r]\<rparr>"

text \<open>
  The four commands of a subscription.  The line starts the loop over its arguments; a turn of the loop leaves out an
  argument that is no string, and an empty name where \<open>nonempty\<close>, and otherwise calls the hub and answers.
\<close>

definition subscription :: "string \<Rightarrow> bool" where
  "subscription mth \<longleftrightarrow> mth \<in> {''SUBSCRIBE'', ''UNSUBSCRIBE'', ''PSUBSCRIBE'', ''PUNSUBSCRIBE''}"

definition handle_subscription :: "Request \<Rightarrow> 'w Session \<Rightarrow> 'w Session" where
  "handle_subscription req sess =
     sess\<lparr>subscriberMode := Method req = ''SUBSCRIBE'' \<or> Method req = ''PSUBSCRIBE'' \<or> subscriberMode sess, pending := Some req\<rparr>"

definition sub_arg :: "bool \<Rightarrow> bytes \<Rightarrow> string option" where
  "sub_arg nonempty arg =
     (case json_to_string arg of Some c \<Rightarrow> if c \<noteq> [] \<or> \<not> nonempty then Some c else None | None \<Rightarrow> None)"

definition sub_ack :: "string \<Rightarrow> string \<Rightarrow> int \<Rightarrow> Response" where
  "sub_ack action c n = WithPubSub \<lparr>Ack_Action = action, Ack_Channel = c, Ack_Count = n\<rparr>"

definition sub_turn ::
  "(string \<Rightarrow> conn Hub \<Rightarrow> int \<times> conn Hub) \<Rightarrow> string \<Rightarrow> bool \<Rightarrow> bytes \<Rightarrow> 'w Session \<times> conn Hub \<Rightarrow> 'w Session \<times> conn Hub"
  where
  "sub_turn call action nonempty arg = (\<lambda>(sess, h).
     (case sub_arg nonempty arg of
        None \<Rightarrow> (sess, h)
      | Some c \<Rightarrow> (case call c h of (n, h') \<Rightarrow> (reply (sub_ack action c n) (sess\<lparr>subCount := n\<rparr>), h'))))"

definition leave_mode :: "'w Session \<Rightarrow> 'w Session" where
  "leave_mode sess = (if subCount sess = 0 then sess\<lparr>subscriberMode := False\<rparr> else sess)"

text \<open>The next turn of the loop that runs, or its end.\<close>

definition subscription_turn :: "conn \<Rightarrow> 'w Session \<times> 'w Server \<Rightarrow> ('w Session \<times> 'w Server) option" where
  "subscription_turn c = (\<lambda>(sess, srv).
     (case pending sess of
        None \<Rightarrow> None
      | Some req \<Rightarrow>
          (let mth = Method req; i = ident srv; next = (\<lambda>args s. s\<lparr>pending := Some (req\<lparr>Args := args\<rparr>)\<rparr>) in
           case Args req of
             [] \<Rightarrow> Some ((if mth = ''UNSUBSCRIBE'' \<or> mth = ''PUNSUBSCRIBE'' then leave_mode else id) (sess\<lparr>pending := None\<rparr>), srv)
           | arg # args \<Rightarrow>
               Some (map_prod (next args) (\<lambda>h. srv\<lparr>srv_hub := h\<rparr>)
                 ((if mth = ''SUBSCRIBE'' then sub_turn (\<lambda>x. Subscribe i x c) ''subscribe'' True arg
                   else if mth = ''UNSUBSCRIBE'' then sub_turn (\<lambda>x. Unsubscribe i x c) ''unsubscribe'' False arg
                   else if mth = ''PSUBSCRIBE'' then sub_turn (\<lambda>x. PSubscribe i x c) ''psubscribe'' True arg
                   else sub_turn (\<lambda>x. PUnsubscribe i x c) ''punsubscribe'' False arg) (sess, srv_hub srv))))))"

subsection \<open>The other lines\<close>

fun send_all :: "(conn \<times> PushMessage) list \<Rightarrow> (conn \<rightharpoonup> ClientConn) \<Rightarrow> (conn \<rightharpoonup> ClientConn)" where
  "send_all [] cs = cs"
| "send_all ((c, msg) # sent) cs = send_all sent (cs(c := map_option (Send msg) (cs c)))"

definition handle_publish :: "choices \<Rightarrow> Request \<Rightarrow> 'w Session \<times> 'w Server \<Rightarrow> 'w Session \<times> 'w Server" where
  "handle_publish ch req = (\<lambda>(sess, srv).
     (if length (Args req) < 2 then (reply (FailMsg ''PUBLISH requires channel and message'') sess, srv)
      else
        (case json_to_string (Args req ! 0) of
           None \<Rightarrow> (reply (FailMsg ''invalid channel'') sess, srv)
         | Some c \<Rightarrow>
             (case Publish (ch_iter ch) c (Args req ! 1) (srv_hub srv) of
                (n, sent) \<Rightarrow> (reply (WithInteger n) sess, srv\<lparr>clients := send_all sent (clients srv)\<rparr>)))))"

text \<open>The commands that reach the data: those of a transaction, and a request.\<close>

definition handle_data ::
  "'w logger \<Rightarrow> choices \<Rightarrow> Request \<Rightarrow> 'w Session \<times> 'w Server \<Rightarrow> ('w Session \<times> 'w Server) option" where
  "handle_data real_log ch req = (\<lambda>(sess, srv).
     (if Method req = ''MULTI'' then
        (case txBuilder sess of
           Some tb \<Rightarrow> Some (reply (FailMsg ''MULTI calls can not be nested'') sess, srv)
         | None \<Rightarrow> Some (reply OK (sess\<lparr>txBuilder := Some NewTxBuilder\<rparr>), srv))
      else if Method req = ''EXEC'' then
        (case txBuilder sess of
           None \<Rightarrow> Some (reply (FailMsg ''EXEC without MULTI'') sess, srv)
         | Some tb \<Rightarrow>
             map_option (\<lambda>((responses, err), tb', m, l).
               (reply (case err of Some e \<Rightarrow> Fail e | None \<Rightarrow> WithResponses responses) (sess\<lparr>txBuilder := None\<rparr>),
                srv\<lparr>srv_mux := m, srv_wal := l\<rparr>))
               (TxBuilder_Exec (ch_txenvs ch) real_log (''tx-'' @ generateUUID (ch_uuid ch)) tb (srv_mux srv, srv_wal srv)))
      else if Method req = ''DISCARD'' then
        (case txBuilder sess of
           None \<Rightarrow> Some (reply (FailMsg ''DISCARD without MULTI'') sess, srv)
         | Some tb \<Rightarrow> Some (reply OK (sess\<lparr>txBuilder := None\<rparr>), srv))
      else
        (case txBuilder sess of
           Some tb \<Rightarrow> Some (reply WithQueued (sess\<lparr>txBuilder := Some (Queue req tb)\<rparr>), srv)
         | None \<Rightarrow>
             map_option (\<lambda>(r, m, l). (reply r sess, srv\<lparr>srv_mux := m, srv_wal := l\<rparr>))
               (Execute (ch_env ch) (ch_uuid ch) (TxWalLogger_Log real_log) req (srv_mux srv, srv_wal srv)))))"

text \<open>The body of the loop of \<open>handleConnection\<close>.\<close>

definition handle_line ::
  "'w logger \<Rightarrow> choices \<Rightarrow> conn \<Rightarrow> goerr + Request \<Rightarrow> 'w Session \<times> 'w Server \<Rightarrow> ('w Session \<times> 'w Server) option" where
  "handle_line real_log ch c line = (\<lambda>(sess, srv).
     (case line of
        Inl err \<Rightarrow> Some (reply (Fail (FormattedError ''invalid json payload'' err)) sess, srv)
      | Inr req \<Rightarrow>
          if Method req = ''INFO'' then
            Some (reply (WithInfo (GetInfo (ch_runtime ch) (ch_caps ch) (ch_order ch) (UUID req) (srv_mux srv))) sess, srv)
          else if Method req = ''PUBLISH'' then Some (handle_publish ch req (sess, srv))
          else if subscription (Method req) then Some (handle_subscription req sess, srv)
          else if subscriberMode sess then
            Some (reply (FailMsg ''connection is in subscriber mode, use a different connection for commands'') sess, srv)
          else handle_data real_log ch req (sess, srv)))"

subsection \<open>Connecting and leaving\<close>

definition accept_conn :: "conn \<Rightarrow> nat list \<Rightarrow> 'w Server \<Rightarrow> 'w Server" where
  "accept_conn c b srv =
     srv\<lparr>clients := (clients srv)(c \<mapsto> NewClientConn (generateUUID b)), sessions := (sessions srv)(c \<mapsto> new_session)\<rparr>"

text \<open>The deferred calls of \<open>handleConnection\<close>.\<close>

definition leave_conn :: "conn \<Rightarrow> 'w Server \<Rightarrow> 'w Server" where
  "leave_conn c srv =
     srv\<lparr>srv_hub := UnsubscribeAll (ident srv) c (srv_hub srv),
       clients := (clients srv)(c := map_option Close (clients srv c)),
       sessions := (sessions srv)(c := None)\<rparr>"

text \<open>\<open>Stop\<close> closes the connections; their goroutines leave at the next read.\<close>

definition stop_server :: "'w Server \<Rightarrow> 'w Server" where
  "stop_server srv =
     srv\<lparr>clients := (\<lambda>c. if sessions srv c = None then clients srv c else map_option Close (clients srv c))\<rparr>"

subsection \<open>The steps\<close>

text \<open>
  A connection goes on with the arguments of a subscription, and reads its next line, when it has passed on what it
  answered last.  That the identifiers of two
  connections differ is what sixteen random bytes are for.
\<close>

inductive server_step :: "'w logger \<Rightarrow> 'w Server \<Rightarrow> 'w Server \<Rightarrow> bool" for real_log :: "'w logger" where
  step_accept: "clients srv c = None \<Longrightarrow> \<forall>d cc. clients srv d = Some cc \<longrightarrow> cc_id cc \<noteq> generateUUID b \<Longrightarrow>
    server_step real_log srv (accept_conn c b srv)"
| step_line: "sessions srv c = Some sess \<Longrightarrow> replies sess = [] \<Longrightarrow> pending sess = None \<Longrightarrow>
    handle_line real_log ch c line (sess, srv) = Some (sess', srv') \<Longrightarrow>
    server_step real_log srv (srv'\<lparr>sessions := (sessions srv')(c \<mapsto> sess')\<rparr>)"
| step_turn: "sessions srv c = Some sess \<Longrightarrow> replies sess = [] \<Longrightarrow> subscription_turn c (sess, srv) = Some (sess', srv') \<Longrightarrow>
    server_step real_log srv (srv'\<lparr>sessions := (sessions srv')(c \<mapsto> sess')\<rparr>)"
| step_answer: "sessions srv c = Some sess \<Longrightarrow> replies sess = r # rs \<Longrightarrow> clients srv c = Some cc \<Longrightarrow>
    WriteResponse r cc = Some cc' \<Longrightarrow>
    server_step real_log srv (srv\<lparr>clients := (clients srv)(c \<mapsto> cc'), sessions := (sessions srv)(c \<mapsto> sess\<lparr>replies := rs\<rparr>)\<rparr>)"
| step_write: "clients srv c = Some cc \<Longrightarrow> writeLoop written cc = Some cc' \<Longrightarrow>
    server_step real_log srv (srv\<lparr>clients := (clients srv)(c \<mapsto> cc')\<rparr>)"
| step_leave: "sessions srv c = Some sess \<Longrightarrow> replies sess = [] \<Longrightarrow> pending sess = None \<Longrightarrow> server_step real_log srv (leave_conn c srv)"
| step_stop: "server_step real_log srv (stop_server srv)"

inductive server_reach :: "'w logger \<Rightarrow> 'w Server \<Rightarrow> 'w Server \<Rightarrow> bool" for real_log :: "'w logger" and srv0 :: "'w Server" where
  reach_start: "server_reach real_log srv0 srv0"
| reach_step: "server_reach real_log srv0 srv \<Longrightarrow> server_step real_log srv srv' \<Longrightarrow> server_reach real_log srv0 srv'"

end
