(* ===== verification/SessionProps.thy ===== *)
theory SessionProps
  imports Sessions RouterProps
begin

text \<open>
  What the connections rely on: the hub and the local variables of every connection agree after any steps, a publication
  reaches every subscriber that has room for it and counts its recipients when no one hears it twice, and a transaction runs exactly what was queued.
\<close>

subsection \<open>The hub and the connections agree\<close>

definition hub_serves :: "conn set \<Rightarrow> conn Hub \<Rightarrow> bool" where
  "hub_serves L h \<longleftrightarrow> hub_inv h \<and> snd ` fst (interests h) \<subseteq> L \<and> snd ` set (snd (interests h)) \<subseteq> L"

lemma serves_known: "hub_serves L h \<Longrightarrow> inj_on i L \<Longrightarrow> c \<in> L \<Longrightarrow> known i c h"
  by (auto simp: hub_serves_def known_def interests_def inj_on_def image_subset_iff)

lemma serves_apply:
  assumes "hub_serves L h" "inj_on i L" "hub_client op \<in> L"
  shows "hub_serves L (hub_apply i op h)"
  using hub_apply_inv [OF _ serves_known [OF assms]] hub_apply_interests [OF serves_known [OF assms]] assms
  by (cases "interests h"; cases op) (auto simp: hub_serves_def)

lemma count_others: "s \<noteq> hub_client op \<Longrightarrow> interest_count s (hub_spec op I) = interest_count s I"
proof -
  assume s: "s \<noteq> hub_client op"
  obtain A B where I: "I = (A, B)" by (cases I)
  show ?thesis
  proof (cases op)
    case (HPUnsubscribe p t)
    then show ?thesis using s I
      by (auto simp: interest_count_def removeAll_filter_not_eq intro!: arg_cong [where f = length] filter_cong)
  next
    case (HUnsubscribeAll t)
    then have "{c. (c, s) \<in> A \<and> s \<noteq> t} = {c. (c, s) \<in> A}" using s by auto
    then show ?thesis using s I HUnsubscribeAll
      by (auto simp: interest_count_def intro!: arg_cong [where f = length] filter_cong)
  qed (use s I in \<open>auto simp: interest_count_def intro!: arg_cong [where f = card]\<close>)
qed

text \<open>No interest is none in either part.\<close>

lemma count_zero:
  "hub_inv h \<Longrightarrow> interest_count s (interests h) = 0 \<longleftrightarrow>
     s \<notin> snd ` fst (interests h) \<and> s \<notin> snd ` set (snd (interests h))"
proof -
  assume h: "hub_inv h"
  have "{c. (c, s) \<in> fst (interests h)} \<subseteq> dom (hub_channels h)" by (auto simp: interests_def)
  then have "finite {c. (c, s) \<in> fst (interests h)}" using h by (auto simp: hub_inv_def intro: finite_subset)
  then have "interest_count s (interests h) = 0 \<longleftrightarrow>
      {c. (c, s) \<in> fst (interests h)} = {} \<and> filter (\<lambda>x. snd x = s) (snd (interests h)) = []"
    by (simp add: interest_count_def case_prod_unfold of_nat_add [symmetric] del: of_nat_add)
  then show ?thesis by (auto simp: filter_empty_conv image_iff)
qed

definition unsubscribes :: "'s hub_op \<Rightarrow> bool" where
  "unsubscribes op = (case op of HSubscribe c s \<Rightarrow> False | HPSubscribe p s \<Rightarrow> False | _ \<Rightarrow> True)"

lemma unsubscribes_zero:
  assumes "hub_inv h" "known i (hub_client op) h" "unsubscribes op" "interest_count s (interests h) = 0"
  shows "interest_count s (interests (hub_apply i op h)) = 0"
proof -
  obtain A B where I: "interests h = (A, B)" by (cases "interests h")
  have "s \<notin> snd ` A \<and> s \<notin> snd ` set B" using assms(1,4) count_zero [of h s] I by simp
  then have "s \<notin> snd ` fst (hub_spec op (A, B)) \<and> s \<notin> snd ` set (snd (hub_spec op (A, B)))"
    using assms(3) by (cases op) (auto simp: unsubscribes_def)
  then show ?thesis
    using count_zero [OF hub_apply_inv [OF assms(1,2)], of s] by (simp add: hub_apply_interests [OF assms(2)] I)
qed

text \<open>What a turn of the loop of a subscription keeps, for the calls \<open>oper x\<close> of the connection \<open>c\<close>.\<close>

definition session_agrees :: "conn \<Rightarrow> conn Hub \<Rightarrow> 'w Session \<Rightarrow> bool" where
  "session_agrees c h sess \<longleftrightarrow> subCount sess = interest_count c (interests h) \<and> (subCount sess \<noteq> 0 \<longrightarrow> subscriberMode sess) \<and>
     pred_option (\<lambda>req. subscription (Method req) \<and>
       (Method req = ''SUBSCRIBE'' \<or> Method req = ''PSUBSCRIBE'' \<longrightarrow> subscriberMode sess)) (pending sess)"

lemma sub_turn_agrees:
  assumes "inj_on i L" "c \<in> L" "\<And>x. hub_client (oper x) = c"
    and call: "\<And>x h. call x h = (the (hub_answer i (oper x) h), hub_apply i (oper x) h)" "\<And>x h. hub_answer i (oper x) h \<noteq> None"
    and h: "hub_serves L h" "subCount sess = interest_count c (interests h)"
    and turn: "sub_turn call action ne arg (sess, h) = (sess', h')"
  shows "hub_serves L h' \<and> subCount sess' = interest_count c (interests h') \<and> subscriberMode sess' = subscriberMode sess \<and>
    pending sess' = pending sess \<and> (\<forall>d. d \<noteq> c \<longrightarrow> interest_count d (interests h') = interest_count d (interests h)) \<and>
    ((\<forall>x. unsubscribes (oper x)) \<longrightarrow> interest_count c (interests h) = 0 \<longrightarrow> interest_count c (interests h') = 0)"
proof (cases "sub_arg ne arg")
  case None
  then show ?thesis using h turn by (simp add: sub_turn_def)
next
  case (Some x)
  let ?h = "hub_apply i (oper x) h" and ?n = "the (hub_answer i (oper x) h)"
  have k: "known i (hub_client (oper x)) h" using serves_known [OF h(1) assms(1)] assms(2,3) by simp
  have I: "interests ?h = hub_spec (oper x) (interests h)" by (rule hub_apply_interests [OF k])
  obtain n where n: "hub_answer i (oper x) h = Some n" using call(2) by blast
  have "?n = interest_count c (interests ?h)" using hub_answers [OF k n] n assms(3) I by simp
  moreover have "hub_serves L ?h" using serves_apply [OF h(1) assms(1)] assms(2,3) by simp
  moreover have "interest_count d (interests ?h) = interest_count d (interests h)" if "d \<noteq> c" for d
    using count_others [of d "oper x"] that assms(3) I by simp
  moreover have "unsubscribes (oper x) \<Longrightarrow> interest_count c (interests h) = 0 \<Longrightarrow> interest_count c (interests ?h) = 0"
    using unsubscribes_zero [OF _ k] h(1) by (simp add: hub_serves_def)
  ultimately show ?thesis using turn Some by (auto simp: sub_turn_def call(1) reply_def)
qed

definition server_inv :: "'w Server \<Rightarrow> bool" where
  "server_inv srv \<longleftrightarrow>
     hub_serves (dom (sessions srv)) (srv_hub srv) \<and> finite (dom (sessions srv)) \<and>
     dom (sessions srv) \<subseteq> dom (clients srv) \<and> inj_on (ident srv) (dom (clients srv)) \<and>
     (\<forall>c sess. sessions srv c = Some sess \<longrightarrow> session_agrees c (srv_hub srv) sess) \<and>
     (\<forall>c cc. clients srv c = Some cc \<longrightarrow> length (writeCh cc) \<le> write_buffer)"

lemma server_invD:
  assumes "server_inv srv"
  shows "inj_on (ident srv) (dom (sessions srv))" "hub_serves (dom (sessions srv)) (srv_hub srv)"
    "sessions srv c = Some sess \<Longrightarrow> session_agrees c (srv_hub srv) sess" "sessions srv c \<noteq> None \<Longrightarrow> clients srv c \<noteq> None"
  using assms by (auto simp: server_inv_def dest: inj_on_subset)

definition hub_moves :: "'w Server \<Rightarrow> conn \<Rightarrow> conn Hub \<Rightarrow> 'w Session \<Rightarrow> bool" where
  "hub_moves srv c h sess \<longleftrightarrow> hub_serves (dom (sessions srv)) h \<and> session_agrees c h sess \<and>
     (\<forall>d. d \<noteq> c \<longrightarrow> interest_count d (interests h) = interest_count d (interests (srv_hub srv)))"

lemma sub_turn_moves:
  assumes "server_inv srv" "sessions srv c = Some sess" "pending sess = Some req" "\<And>x. hub_client (oper x) = c"
    and call: "\<And>x h. call x h = (the (hub_answer (ident srv) (oper x) h), hub_apply (ident srv) (oper x) h)"
      "\<And>x h. hub_answer (ident srv) (oper x) h \<noteq> None"
    and turn: "sub_turn call action ne arg (sess, srv_hub srv) = (s1, h1)"
    and "Method req = ''SUBSCRIBE'' \<or> Method req = ''PSUBSCRIBE'' \<or> (\<forall>x. unsubscribes (oper x))"
  shows "hub_moves srv c h1 (s1\<lparr>pending := Some (req\<lparr>Args := args\<rparr>)\<rparr>)"
proof -
  note a = server_invD [OF assms(1)]
  have c: "c \<in> dom (sessions srv)" using assms(2) by auto
  have ag: "session_agrees c (srv_hub srv) sess" by (rule a(3) [OF assms(2)])
  note l = sub_turn_agrees [where oper = oper and call = call, OF a(1) c assms(4) call a(2) _ turn]
  show ?thesis using l ag assms(3,8) by (auto simp: hub_moves_def session_agrees_def)
qed

lemma subscription_turn_moves:
  assumes "server_inv srv" "sessions srv c = Some sess" "subscription_turn c (sess, srv) = Some (sess', srv')"
  shows "\<exists>h. srv' = srv\<lparr>srv_hub := h\<rparr> \<and> hub_moves srv c h sess'"
proof -
  obtain req where req: "pending sess = Some req" using assms(3) by (auto simp: subscription_turn_def split: option.splits)
  have ag: "session_agrees c (srv_hub srv) sess" by (rule server_invD(3) [OF assms(1,2)])
  then have sub: "subscription (Method req)" using req by (simp add: session_agrees_def)
  note moves = sub_turn_moves [OF assms(1,2) req]
  note m1 = moves [where oper = "\<lambda>x. HSubscribe x c" and call = "\<lambda>x. Subscribe (ident srv) x c", simplified]
    and m2 = moves [where oper = "\<lambda>x. HUnsubscribe x c" and call = "\<lambda>x. Unsubscribe (ident srv) x c", simplified unsubscribes_def, simplified]
    and m3 = moves [where oper = "\<lambda>x. HPSubscribe x c" and call = "\<lambda>x. PSubscribe (ident srv) x c", simplified]
    and m4 = moves [where oper = "\<lambda>x. HPUnsubscribe x c" and call = "\<lambda>x. PUnsubscribe (ident srv) x c", simplified unsubscribes_def, simplified]
  show ?thesis
  proof (cases "Args req")
    case Nil
    have "hub_serves (dom (sessions srv)) (srv_hub srv)" by (rule server_invD(2) [OF assms(1)])
    then have "hub_moves srv c (srv_hub srv) sess'" "srv' = srv"
      using assms(3) ag by (auto simp: subscription_turn_def req Nil Let_def hub_moves_def session_agrees_def leave_mode_def split: if_splits)
    then show ?thesis by (intro exI [of _ "srv_hub srv"]) simp
  next
    case (Cons arg args)
    then show ?thesis
      using assms(3) sub unfolding subscription_turn_def req Let_def prod.case
      by (auto simp: subscription_def map_prod_def split: if_splits prod.splits dest: m1 m2 m3 m4)
  qed
qed

subsection \<open>The buffers\<close>

lemma Send_same [simp]: "cc_id (Send msg cc) = cc_id cc" "cc_closed (Send msg cc) = cc_closed cc" "wire (Send msg cc) = wire cc"
  by (simp_all add: Send_def)

lemma Send_length: "length (writeCh cc) \<le> write_buffer \<Longrightarrow> length (writeCh (Send msg cc)) \<le> write_buffer"
  by (simp add: Send_def)

lemma fold_Send_length: "length (writeCh cc) \<le> write_buffer \<Longrightarrow> length (writeCh (fold Send msgs cc)) \<le> write_buffer"
  by (induction msgs arbitrary: cc) (simp_all add: Send_length)

lemma fold_Send:
  "\<forall>msg \<in> set msgs. json_valid (Push_Data msg) \<Longrightarrow> length (writeCh cc) \<le> write_buffer \<Longrightarrow>
   fold Send msgs cc = cc\<lparr>writeCh := take write_buffer (writeCh cc @ map Push msgs)\<rparr>"
proof (induction msgs arbitrary: cc)
  case (Cons msg msgs)
  show ?case
  proof (cases "length (writeCh cc) < write_buffer")
    case True
    then obtain n where "write_buffer - length (writeCh cc) = Suc n" by (metis diff_is_0_eq not_le not0_implies_Suc)
    moreover from this have "write_buffer - Suc (length (writeCh cc)) = n" by simp
    ultimately show ?thesis using True Cons.IH [of "cc\<lparr>writeCh := writeCh cc @ [Push msg]\<rparr>"] Cons.prems(1) by (simp add: Send_def)
  qed (use Cons in \<open>simp add: Send_def\<close>)
qed simp

lemma send_all_at: "send_all sent cs c = map_option (fold Send (sent_to c sent)) (cs c)"
proof (induction sent cs rule: send_all.induct)
  case (1 cs)
  then show ?case by (cases "cs c") (simp_all add: sent_to_def)
next
  case (2 d msg sent cs)
  show ?case unfolding send_all.simps 2 by (cases "cs c"; cases "d = c") (simp_all add: sent_to_def)
qed

lemma send_all_Some:
  "send_all sent cs c = Some cc' \<Longrightarrow> \<exists>cc. cs c = Some cc \<and> cc_id cc' = cc_id cc \<and>
     (length (writeCh cc) \<le> write_buffer \<longrightarrow> length (writeCh cc') \<le> write_buffer)"
proof -
  assume s: "send_all sent cs c = Some cc'"
  then obtain cc where cc: "cs c = Some cc" "cc' = fold Send (sent_to c sent) cc" by (auto simp: send_all_at)
  have "cc_id (fold Send msgs x) = cc_id x" for msgs x by (induction msgs arbitrary: x) simp_all
  then show ?thesis using cc by (auto simp: fold_Send_length)
qed

lemma dom_send_all [simp]: "dom (send_all sent cs) = dom cs"
  by (auto simp: send_all_at)

lemma ident_clients: "clients srv' = clients srv \<Longrightarrow> ident srv' = ident srv"
  by (simp add: ident_def fun_eq_iff)

lemma ident_send_all: "clients srv' = send_all sent (clients srv) \<Longrightarrow> ident srv' = ident srv"
  by (auto simp: ident_def fun_eq_iff split: option.splits dest: send_all_Some)
    (auto simp: send_all_at)

text \<open>Every other line leaves the hub and the counts alone, and at most sends.\<close>

definition data_moves :: "'w Server \<Rightarrow> 'w Session \<Rightarrow> 'w Server \<Rightarrow> 'w Session \<Rightarrow> bool" where
  "data_moves srv sess srv' sess' \<longleftrightarrow> srv_hub srv' = srv_hub srv \<and> sessions srv' = sessions srv \<and>
     subCount sess' = subCount sess \<and> subscriberMode sess' = subscriberMode sess \<and> pending sess' = pending sess \<and>
     (clients srv' = send_all [] (clients srv) \<or> (\<exists>sent. clients srv' = send_all sent (clients srv)))"

lemma handle_line_cases:
  assumes "handle_line real_log ch c line (sess, srv) = Some (sess', srv')" "server_inv srv" "sessions srv c = Some sess"
  obtains (hub) h where "srv' = srv\<lparr>srv_hub := h\<rparr>" "hub_moves srv c h sess'"
    | (other) "data_moves srv sess srv' sess'"
proof (cases "\<exists>req. line = Inr req \<and> subscription (Method req)")
  case True
  then obtain req where line: "line = Inr req" "subscription (Method req)" by blast
  then have req: "subscription (Method req)" "sess' = handle_subscription req sess" "srv' = srv"
    using assms(1) by (auto simp: handle_line_def subscription_def)
  have "hub_moves srv c (srv_hub srv) sess'"
    using server_invD(2,3) [OF assms(2)] assms(3) req(1)
    by (auto simp: hub_moves_def session_agrees_def handle_subscription_def req(2))
  then show thesis using hub [of "srv_hub srv"] req(3) by simp
next
  case False
  then have "data_moves srv sess srv' sess'"
    using assms(1)
    by (auto simp: handle_line_def handle_publish_def handle_data_def reply_def data_moves_def
        split: sum.splits if_splits option.splits prod.splits)
  then show thesis by (rule other)
qed

subsection \<open>Every step\<close>

lemma hub_inv_step:
  assumes "server_inv srv" "sessions srv c = Some sess" "srv' = srv\<lparr>srv_hub := h\<rparr>" "hub_moves srv c h sess'"
  shows "server_inv (srv'\<lparr>sessions := (sessions srv')(c \<mapsto> sess')\<rparr>)"
proof -
  have "insert c (dom (sessions srv)) = dom (sessions srv)" using assms(2) by auto
  then show ?thesis
    using assms(1,3,4) ident_clients [of "srv'\<lparr>sessions := (sessions srv')(c \<mapsto> sess')\<rparr>" srv]
    by (auto simp: server_inv_def hub_moves_def session_agrees_def split: if_splits)
qed

lemma line_inv:
  assumes "server_inv srv" "sessions srv c = Some sess" "handle_line real_log ch c line (sess, srv) = Some (sess', srv')"
  shows "server_inv (srv'\<lparr>sessions := (sessions srv')(c \<mapsto> sess')\<rparr>)"
  using assms(3,1,2)
proof (cases rule: handle_line_cases)
  case (hub h)
  then show ?thesis using assms(1,2) by (blast intro: hub_inv_step)
next
  case other
  let ?srv = "srv'\<lparr>sessions := (sessions srv')(c \<mapsto> sess')\<rparr>"
  obtain sent where sent: "clients ?srv = send_all sent (clients srv)" using other by (auto simp: data_moves_def simp del: send_all.simps)
  have "insert c (dom (sessions srv)) = dom (sessions srv)" using assms(2) by auto
  moreover have "length (writeCh cc) \<le> write_buffer" if "clients ?srv d = Some cc" for d cc
  proof -
    from that obtain cc0 where "clients srv d = Some cc0" "length (writeCh cc0) \<le> write_buffer \<longrightarrow> length (writeCh cc) \<le> write_buffer"
      using send_all_Some [of sent "clients srv" d cc] sent by auto
    then show ?thesis using assms(1) by (auto simp: server_inv_def)
  qed
  ultimately show ?thesis
    using assms(1,2) other sent ident_send_all [OF sent]
    by (auto simp: server_inv_def data_moves_def session_agrees_def split: if_splits)
qed

lemma leave_inv:
  assumes "server_inv srv" "sessions srv c = Some sess"
  shows "server_inv (leave_conn c srv)"
proof -
  let ?op = "HUnsubscribeAll c" and ?L = "dom (sessions srv)"
  note a = server_invD [OF assms(1)]
  have k: "known (ident srv) (hub_client ?op) (srv_hub srv)" using serves_known [OF a(2) a(1)] assms(2) by auto
  have I: "interests (UnsubscribeAll (ident srv) c (srv_hub srv)) = hub_spec ?op (interests (srv_hub srv))"
    using hub_apply_interests [OF k] by simp
  have "hub_inv (UnsubscribeAll (ident srv) c (srv_hub srv))" using hub_apply_inv [OF _ k] a(2) by (simp add: hub_serves_def)
  then have "hub_serves (?L - {c}) (UnsubscribeAll (ident srv) c (srv_hub srv))"
    using a(2) by (cases "interests (srv_hub srv)") (auto simp: hub_serves_def I)
  moreover have "session_agrees d (UnsubscribeAll (ident srv) c (srv_hub srv)) s" if "sessions srv d = Some s" "d \<noteq> c" for d s
    using a(3) [OF that(1)] count_others [of d ?op] that(2) by (simp add: session_agrees_def I)
  moreover have "ident (leave_conn c srv) = ident srv"
    by (auto simp: ident_def leave_conn_def Close_def fun_eq_iff split: option.splits)
  moreover have "dom (clients (leave_conn c srv)) = dom (clients srv)" by (auto simp: leave_conn_def split: if_splits)
  moreover have "\<forall>d cc. clients (leave_conn c srv) d = Some cc \<longrightarrow> length (writeCh cc) \<le> write_buffer"
    using assms(1) by (auto simp: leave_conn_def Close_def server_inv_def)
  moreover have "sessions (leave_conn c srv) = (sessions srv)(c := None)"
    "srv_hub (leave_conn c srv) = UnsubscribeAll (ident srv) c (srv_hub srv)" by (simp_all add: leave_conn_def)
  ultimately show ?thesis
    using assms(1) unfolding server_inv_def by auto
qed

lemma server_step_inv: "server_step real_log srv srv' \<Longrightarrow> server_inv srv \<Longrightarrow> server_inv srv'"
proof (induction rule: server_step.induct)
  case (step_accept srv c b)
  let ?srv = "accept_conn c b srv"
  have new: "sessions srv c = None" using step_accept.hyps(1) server_invD(4) [OF step_accept.prems] by blast
  have idt: "ident ?srv d = (if d = c then generateUUID b else ident srv d)" for d
    by (simp add: ident_def accept_conn_def NewClientConn_def)
  have other: "ident srv d \<noteq> generateUUID b" if "clients srv d \<noteq> None" for d
    using step_accept.hyps(2) that unfolding ident_def by (metis not_None_eq option.case(2))
  have "inj_on (ident ?srv) (dom (clients ?srv))"
  proof (rule inj_onI)
    fix x y assume xy: "x \<in> dom (clients ?srv)" "y \<in> dom (clients ?srv)" "ident ?srv x = ident ?srv y"
    have old: "clients srv z \<noteq> None" if "z \<in> dom (clients ?srv)" "z \<noteq> c" for z
      using that by (auto simp: accept_conn_def)
    have "inj_on (ident srv) (dom (clients srv))" using step_accept.prems by (simp add: server_inv_def)
    then show "x = y"
      using xy old [of x] old [of y] other [of x] other [of y] by (simp add: idt inj_on_def domIff split: if_splits)
  qed
  moreover have "interest_count c (interests (srv_hub srv)) = 0"
    using server_invD(2) [OF step_accept.prems] new count_zero [of "srv_hub srv" c] by (auto simp: hub_serves_def)
  ultimately show ?case
    using step_accept.prems
    by (auto simp: server_inv_def accept_conn_def NewClientConn_def new_session_def session_agrees_def hub_serves_def split: if_splits)
next
  case (step_line srv c sess ch line sess' srv')
  then show ?case by (blast intro: line_inv)
next
  case (step_turn srv c sess sess' srv')
  then show ?case using subscription_turn_moves [OF step_turn.prems step_turn.hyps(1,3)] by (blast intro: hub_inv_step)
next
  case (step_answer srv c sess r rs cc cc')
  let ?srv = "srv\<lparr>clients := (clients srv)(c \<mapsto> cc'), sessions := (sessions srv)(c \<mapsto> sess\<lparr>replies := rs\<rparr>)\<rparr>"
  have "ident ?srv = ident srv"
    using step_answer by (auto simp: ident_def WriteResponse_def Let_def fun_eq_iff split: if_splits)
  moreover have "length (writeCh cc') \<le> write_buffer"
    using step_answer by (auto simp: server_inv_def WriteResponse_def Let_def split: if_splits)
  ultimately show ?case
    using step_answer.prems step_answer.hyps
    by (auto simp: server_inv_def session_agrees_def insert_absorb domI split: if_splits)
next
  case (step_write srv c cc written cc')
  have "ident (srv\<lparr>clients := (clients srv)(c \<mapsto> cc')\<rparr>) = ident srv"
    using step_write by (auto simp: ident_def writeLoop_def fun_eq_iff split: if_splits list.splits)
  moreover obtain f where "writeCh cc = f # writeCh cc'"
    using step_write.hyps(2) by (auto simp: writeLoop_def split: if_splits list.splits)
  then have "length (writeCh cc') \<le> write_buffer"
    using step_write.prems step_write.hyps(1) by (fastforce simp: server_inv_def)
  ultimately show ?case
    using step_write.prems step_write.hyps by (auto simp: server_inv_def insert_absorb domI split: if_splits)
next
  case (step_leave srv c sess)
  then show ?case by (blast intro: leave_inv)
next
  case (step_stop srv)
  have "ident (stop_server srv) = ident srv"
    by (auto simp: ident_def stop_server_def Close_def fun_eq_iff split: option.splits)
  moreover have "dom (clients (stop_server srv)) = dom (clients srv)" by (auto simp: stop_server_def split: if_splits)
  moreover have "\<forall>d cc. clients (stop_server srv) d = Some cc \<longrightarrow> length (writeCh cc) \<le> write_buffer"
    using step_stop by (auto simp: stop_server_def Close_def server_inv_def split: if_splits)
  moreover have "sessions (stop_server srv) = sessions srv" "srv_hub (stop_server srv) = srv_hub srv"
    by (simp_all add: stop_server_def)
  ultimately show ?case using step_stop unfolding server_inv_def by simp
qed

lemma server_reach_inv: "server_reach real_log (NewServer m l) srv \<Longrightarrow> server_inv srv"
proof (induction rule: server_reach.induct)
  case reach_start
  then show ?case by (simp add: server_inv_def NewServer_def hub_serves_def)
qed (rule server_step_inv)

lemma no_interest: "hub_serves L h \<Longrightarrow> s \<notin> L \<Longrightarrow> deliveries x pay s (interests h) = []"
  by (cases "interests h") (force simp: hub_serves_def deliveries_def filter_empty_conv)

text \<open>
  C32.  Whatever the connections, their writers and the listener do, in any order: the hub only knows connections that
  are served, so one that has left is sent nothing more; every connection counts exactly its own subscriptions and is in
  subscriber mode while it has one; and no write buffer holds more than 256 messages.
\<close>

theorem server_invariant:
  assumes "server_reach real_log (NewServer m l) srv"
  shows "server_inv srv \<and> (\<forall>c x pay. sessions srv c = None \<longrightarrow> deliveries x pay c (interests (srv_hub srv)) = [])"
  using server_reach_inv [OF assms] no_interest [OF server_invD(2)] by blast

definition choices_one :: choices where
  "choices_one = \<lparr>ch_env = env_one, ch_uuid = replicate 16 1, ch_txenvs = (\<lambda>i. (env_one, env_one)),
     ch_runtime = \<lparr>OS = ''linux'', GoVersion = ''go'', NumGoroutine = 5, NumCPU = 4, MemoryAllocBytes = 0, Info_TotalInstances = 0\<rparr>,
     ch_caps = (\<lambda>u k i. 0), ch_order = \<lparr>kv_uuids = [''u''], list_uuids = [], set_uuids = [''v''], zset_uuids = []\<rparr>,
     ch_iter = sorted_list_of_set\<rparr>"

text \<open>One connection, and the same connection after it has subscribed to the channel \<open>n\<close>.\<close>

definition srv_one :: "wal_entry list Server" where
  "srv_one = accept_conn 0 (replicate 16 1) (NewServer mux_one (NewTxWalLogger []))"

definition sess_sub :: "wal_entry list Session" where
  "sess_sub = \<lparr>txBuilder = None, subscriberMode = True, subCount = 1, pending = None, replies = []\<rparr>"

definition conn_sub :: ClientConn where
  "conn_sub = (NewClientConn (generateUUID (replicate 16 1)))\<lparr>writeCh := [Reply (sub_ack ''subscribe'' ''n'' 1)]\<rparr>"

definition srv_sub :: "wal_entry list Server" where
  "srv_sub = srv_one\<lparr>srv_hub := \<lparr>hub_channels = [''n'' \<mapsto> {0}], patternSubs = []\<rparr>, clients := [0 \<mapsto> conn_sub], sessions := [0 \<mapsto> sess_sub]\<rparr>"

lemma srv_one_reach: "server_reach list_log (NewServer mux_one (NewTxWalLogger [])) srv_one"
  unfolding srv_one_def by (intro reach_step [OF reach_start] step_accept) (simp_all add: NewServer_def)

lemma srv_sub_reach: "server_reach list_log (NewServer mux_one (NewTxWalLogger [])) srv_sub"
proof -
  let ?req = "request [] [] ''SUBSCRIBE'' [quoted ''n'']" and ?r0 = "request [] [] ''SUBSCRIBE'' []"
  let ?ack = "sub_ack ''subscribe'' ''n'' 1" and ?cc = "NewClientConn (generateUUID (replicate 16 1))"
  let ?s1 = "new_session\<lparr>subscriberMode := True, pending := Some ?req\<rparr> :: wal_entry list Session"
  let ?s2 = "sess_sub\<lparr>pending := Some ?r0, replies := [?ack]\<rparr>" and ?s3 = "sess_sub\<lparr>pending := Some ?r0\<rparr>"
  let ?v1 = "srv_one\<lparr>sessions := [0 \<mapsto> ?s1]\<rparr>"
  let ?v2 = "srv_one\<lparr>srv_hub := srv_hub srv_sub, sessions := [0 \<mapsto> ?s2]\<rparr>"
  let ?v3 = "srv_sub\<lparr>sessions := [0 \<mapsto> ?s3]\<rparr>"
  have one: "srv_hub srv_one = NewHub" "sessions srv_one = [0 \<mapsto> new_session]" "clients srv_one = [0 \<mapsto> ?cc]"
    by (simp_all add: srv_one_def accept_conn_def NewServer_def)
  have arg: "sub_arg True (quoted ''n'') = Some ''n''"
    by (simp add: sub_arg_def json_to_string_quoted plain_char_def byte_of_def)
  have dom: "{c \<in> dom [x \<mapsto> A]. s \<in> the ([x \<mapsto> A] c)} = (if s \<in> A then {x} else {})" for x :: string and A and s :: conn
    by auto
  have ok: "marshals ?ack"
    by (simp add: sub_ack_def WithPubSub_def answered_def blank_def answer_marshals_def)
  have "handle_line list_log choices_one 0 (Inr ?req) (new_session, srv_one) = Some (?s1, srv_one)"
    by (simp add: handle_line_def subscription_def handle_subscription_def)
  from step_line [OF _ _ _ this] have "server_step list_log srv_one ?v1" using one by (simp add: new_session_def)
  note r1 = reach_step [OF srv_one_reach this]
  have "sub_turn (\<lambda>x. Subscribe (ident ?v1) x 0) ''subscribe'' True (quoted ''n'') (?s1, NewHub) =
      (?s2\<lparr>pending := Some ?req\<rparr>, srv_hub srv_sub)"
    by (simp add: sub_turn_def arg Subscribe_def NewHub_def Let_def subCountForSub_def dom reply_def new_session_def sess_sub_def
        srv_sub_def del: dom_fun_upd fun_upd_apply)
  then have "subscription_turn 0 (?s1, ?v1) = Some (?s2, srv_one\<lparr>srv_hub := srv_hub srv_sub, sessions := [0 \<mapsto> ?s1]\<rparr>)"
    by (simp add: subscription_turn_def Let_def one)
  from step_turn [OF _ _ this] have "server_step list_log ?v1 ?v2" by (simp add: new_session_def)
  note r2 = reach_step [OF r1 this]
  have "WriteResponse ?ack ?cc = Some conn_sub"
    by (simp add: WriteResponse_def ok Let_def NewClientConn_def write_buffer_def conn_sub_def)
  from step_answer [where srv = ?v2 and c = 0 and sess = ?s2 and rs = "[]", OF _ _ _ this] have "server_step list_log ?v2 ?v3"
    using one by (simp add: sess_sub_def srv_sub_def)
  note r3 = reach_step [OF r2 this]
  have "subscription_turn 0 (?s3, ?v3) = Some (sess_sub, ?v3)"
    by (simp add: subscription_turn_def Let_def sess_sub_def)
  from step_turn [OF _ _ this] have "server_step list_log ?v3 srv_sub" by (simp add: sess_sub_def srv_sub_def)
  then show ?thesis by (rule reach_step [OF r3])
qed

lemma server_invariant_witness:
  "server_inv srv_sub \<and> deliveries ''n'' ''1'' 5 (interests (srv_hub srv_sub)) = []"
proof -
  have "sessions srv_sub 5 = None" by (simp add: srv_sub_def)
  then show ?thesis using server_invariant [OF srv_sub_reach] by blast
qed

subsection \<open>Publication\<close>

lemma length_sent:
  assumes "finite L" "fst ` set sent \<subseteq> L"
  shows "length sent = (\<Sum>s\<in>L. length (sent_to s sent))"
proof -
  have "length (sent_to s sent) = count_list (map fst sent) s" for s
    by (simp add: sent_to_def count_list_eq_length_filter filter_map comp_def case_prod_unfold eq_commute)
  then show ?thesis using sum_count_set [of "map fst sent" L] assms by simp
qed

text \<open>
  The connections that a publication puts a message to, and the condition under which each of them hears it once: no one
  is interested in the channel twice, by its name and by patterns that match it, and those who are have room.
\<close>

definition recipients :: "'w Server \<Rightarrow> 'w Server \<Rightarrow> conn set" where
  "recipients srv srv' = {s \<in> dom (clients srv). writeCh (the (clients srv' s)) \<noteq> writeCh (the (clients srv s))}"

definition heard_once :: "string \<Rightarrow> bytes \<Rightarrow> 'w Server \<Rightarrow> bool" where
  "heard_once x pay srv \<longleftrightarrow>
     (\<forall>s cc. clients srv s = Some cc \<longrightarrow> deliveries x pay s (interests (srv_hub srv)) \<noteq> [] \<longrightarrow>
       length (deliveries x pay s (interests (srv_hub srv))) = 1 \<and> length (writeCh cc) < write_buffer)"

lemma sum_bounded_eq:
  fixes f g :: "'a \<Rightarrow> nat"
  assumes "finite L" "\<forall>x \<in> L. f x \<le> g x"
  shows "sum f L \<le> sum g L \<and> (sum g L = sum f L \<longleftrightarrow> (\<forall>x \<in> L. g x = f x))"
  using sum_mono_inv [of f L g] assms by (auto intro: sum_mono sum.cong)

lemma count_recipients:
  assumes "finite L" "\<forall>s. s \<notin> L \<longrightarrow> d s = []" "R = {s \<in> D. d s \<noteq> [] \<and> room s}" "L \<subseteq> D"
  shows "card R \<le> (\<Sum>s\<in>L. length (d s)) \<and>
    ((\<Sum>s\<in>L. length (d s)) = card R \<longleftrightarrow> (\<forall>s \<in> D. d s \<noteq> [] \<longrightarrow> length (d s) = 1 \<and> room s))"
proof -
  let ?f = "\<lambda>s. if d s \<noteq> [] \<and> room s then 1 else 0 :: nat"
  have "R = {s \<in> L. d s \<noteq> [] \<and> room s}" using assms(2-4) by auto
  then have "card R = sum ?f L" using assms(1) by (simp add: sum.If_cases Int_def)
  moreover have "\<forall>s \<in> L. ?f s \<le> length (d s)" by (auto simp: Suc_le_eq)
  note sum_bounded_eq [OF assms(1) this]
  moreover have "(\<forall>s \<in> L. length (d s) = ?f s) \<longleftrightarrow> (\<forall>s \<in> D. d s \<noteq> [] \<longrightarrow> length (d s) = 1 \<and> room s)"
    using assms(2,4) by (auto split: if_splits)
  ultimately show ?thesis by simp
qed

lemma deliveries_data: "msg \<in> set (deliveries x pay s I) \<Longrightarrow> Push_Data msg = pay"
  by (cases I) (auto simp: deliveries_def push_message_def push_pmessage_def split: if_splits)

text \<open>
  C33.  In any state the server can reach, PUBLISH of a JSON text puts into the buffer of every connection its message for
  the channel and one for every pattern of it that matches, as far as the buffer has room, and changes neither the data
  nor the hub.  Its answer is never less than the number of the recipients, the connections that were put a message, and it
  is that number, as \<open>API_CONTRACT.md\<close> has it ("Returns the count of recipients"), exactly when no one is interested in the
  channel twice (by its name and by patterns that match it) and everyone interested has room.  Otherwise it is greater: a
  message dropped at a full buffer is counted, and a connection is counted once for each of its interests.
\<close>

theorem publish_delivers:
  assumes "server_reach real_log (NewServer m l) srv" "sessions srv c = Some sess" "iterates (ch_iter ch)"
    and "Method req = ''PUBLISH''" "Args req = carg # pay # more_args" "json_to_string carg = Some x" "json_valid pay"
  shows "\<exists>n srv'. handle_line real_log ch c (Inr req) (sess, srv) = Some (reply (WithInteger n) sess, srv') \<and>
    (\<forall>s cc. clients srv s = Some cc \<longrightarrow> clients srv' s =
       Some (cc\<lparr>writeCh := take write_buffer (writeCh cc @ map Push (deliveries x pay s (interests (srv_hub srv))))\<rparr>)) \<and>
    srv_mux srv' = srv_mux srv \<and> srv_wal srv' = srv_wal srv \<and> srv_hub srv' = srv_hub srv \<and>
    int (card (recipients srv srv')) \<le> n \<and> (n = int (card (recipients srv srv')) \<longleftrightarrow> heard_once x pay srv)"
proof -
  let ?h = "srv_hub srv" and ?L = "dom (sessions srv)"
  let ?d = "\<lambda>s. deliveries x pay s (interests ?h)" and ?room = "\<lambda>s. length (writeCh (the (clients srv s))) < write_buffer"
  have iv: "server_inv srv" by (rule server_reach_inv [OF assms(1)])
  then have h: "hub_inv ?h" "finite ?L" "?L \<subseteq> dom (clients srv)" by (auto simp: server_inv_def hub_serves_def)
  obtain n sent where p: "Publish (ch_iter ch) x pay ?h = (n, sent)" by fastforce
  have to: "sent_to s sent = ?d s" for s using publish_sends [OF h(1) assms(3), of s x pay] p by simp
  have gone: "\<forall>s. s \<notin> ?L \<longrightarrow> ?d s = []" using no_interest [OF server_invD(2) [OF iv]] by blast
  have "fst ` set sent \<subseteq> ?L"
  proof (rule subsetI, rule ccontr)
    fix s assume s: "s \<in> fst ` set sent" "s \<notin> ?L"
    then have "sent_to s sent = []" using to gone by simp
    then show False using s(1) by (auto simp: sent_to_def filter_empty_conv)
  qed
  note total = length_sent [OF h(2) this, unfolded to]
  have n: "n = int (length sent)" using p by (auto simp: Publish_def Let_def)
  let ?srv = "srv\<lparr>clients := send_all sent (clients srv)\<rparr>"
  have cl: "send_all sent (clients srv) s = Some (cc\<lparr>writeCh := take write_buffer (writeCh cc @ map Push (?d s))\<rparr>)"
    "length (writeCh cc) \<le> write_buffer" if "clients srv s = Some cc" for s cc
    using that iv assms(7) deliveries_data [of _ x pay s] by (simp_all add: send_all_at to fold_Send server_inv_def)
  have "recipients srv ?srv = {s \<in> dom (clients srv). ?d s \<noteq> [] \<and> ?room s}"
    using cl by (auto simp: recipients_def)
  note counts = count_recipients [OF h(2) gone this h(3)]
  have "(\<forall>s \<in> dom (clients srv). ?d s \<noteq> [] \<longrightarrow> length (?d s) = 1 \<and> ?room s) \<longleftrightarrow> heard_once x pay srv"
    by (auto simp: heard_once_def)
  then have "int (card (recipients srv ?srv)) \<le> n" "n = int (card (recipients srv ?srv)) \<longleftrightarrow> heard_once x pay srv"
    using counts unfolding total [symmetric] n by simp_all
  then show ?thesis
    using assms(4-6) p cl(1) by (intro exI [of _ n] exI [of _ ?srv]) (simp add: handle_line_def handle_publish_def)
qed

lemma publish_delivers_witness:
  "\<exists>srv'. handle_line list_log choices_one 0 (Inr (request [] [] ''PUBLISH'' [quoted ''n'', quoted ''x''])) (sess_sub, srv_sub) =
      Some (reply (WithInteger 1) sess_sub, srv') \<and>
    map_option writeCh (clients srv' 0) = Some [Reply (sub_ack ''subscribe'' ''n'' 1), Push (push_message ''n'' (quoted ''x''))] \<and>
    recipients srv_sub srv' = {0}"
proof -
  have s: "sessions srv_sub 0 = Some sess_sub" "clients srv_sub = [0 \<mapsto> conn_sub]" by (simp_all add: srv_sub_def)
  have i: "iterates (ch_iter choices_one)" by (simp add: iterates_def choices_one_def)
  have v: "json_valid (quoted ''x'')" by (rule json_valid_quoted) (simp add: plain_char_def byte_of_def)
  have d: "deliveries ''n'' (quoted ''x'') 0 (interests (srv_hub srv_sub)) = [push_message ''n'' (quoted ''x'')]"
    by (simp add: deliveries_def interests_def srv_sub_def)
  have once: "heard_once ''n'' (quoted ''x'') srv_sub"
    by (simp add: heard_once_def s d conn_sub_def write_buffer_def)
  obtain n srv' where run: "handle_line list_log choices_one 0 (Inr (request [] [] ''PUBLISH'' [quoted ''n'', quoted ''x''])) (sess_sub, srv_sub) =
      Some (reply (WithInteger n) sess_sub, srv')"
    and cl: "\<forall>s cc. clients srv_sub s = Some cc \<longrightarrow> clients srv' s =
       Some (cc\<lparr>writeCh := take write_buffer (writeCh cc @ map Push (deliveries ''n'' (quoted ''x'') s (interests (srv_hub srv_sub))))\<rparr>)"
    and n: "n = int (card (recipients srv_sub srv')) \<longleftrightarrow> heard_once ''n'' (quoted ''x'') srv_sub"
    using publish_delivers [OF srv_sub_reach s(1) i, of "request [] [] ''PUBLISH'' [quoted ''n'', quoted ''x'']" "quoted ''n''"
        "quoted ''x''" "[]" "''n''"] v
    by (auto simp: json_to_string_quoted plain_char_def byte_of_def)
  have w: "writeCh (the (clients srv' 0)) = [Reply (sub_ack ''subscribe'' ''n'' 1), Push (push_message ''n'' (quoted ''x''))]"
    "clients srv' 0 \<noteq> None"
    using cl s(2) by (simp_all add: d conn_sub_def write_buffer_def)
  then have "recipients srv_sub srv' = {0}" by (auto simp: recipients_def s(2) conn_sub_def split: if_splits)
  then show ?thesis using run n once w by auto
qed

text \<open>
  An answer that cannot be written: a sorted set can hold an infinite score, which JSON has no text for.
\<close>

lemma infinite_score_fails:
  assumes "\<not> cc_closed cc" "length (writeCh cc) < write_buffer" "inf_mag \<le> float_mag x"
  shows "WriteResponse (WithFloat x) cc = Some (cc\<lparr>writeCh := writeCh cc @ [Reply (FailMsg ''failed to serialize response'')]\<rparr>)"
  using assms by (simp add: WriteResponse_def WithFloat_def answered_def blank_def answer_marshals_def finite_float_def)

subsection \<open>Transactions of a connection\<close>

text \<open>The lines a connection reads one after the other, each with the server as the others have left it.\<close>

fun session_lines ::
  "'w logger \<Rightarrow> conn \<Rightarrow> (choices \<times> Request \<times> 'w Server) list \<Rightarrow> 'w Session \<Rightarrow> ((Response list \<times> 'w Server) list \<times> 'w Session) option"
  where
  "session_lines real_log c [] sess = Some ([], sess)"
| "session_lines real_log c ((ch, req, srv) # ls) sess = do {
     (sess1, srv1) \<leftarrow> handle_line real_log ch c (Inr req) (sess\<lparr>replies := []\<rparr>, srv);
     (outs, sess2) \<leftarrow> session_lines real_log c ls sess1;
     Some ((replies sess1, srv1) # outs, sess2) }"

definition queueable :: "Request \<Rightarrow> bool" where
  "queueable req \<longleftrightarrow> \<not> subscription (Method req) \<and> Method req \<notin> {''INFO'', ''PUBLISH'', ''MULTI'', ''EXEC'', ''DISCARD''}"

lemma session_lines_append:
  "session_lines real_log c (xs @ ys) sess =
     Option.bind (session_lines real_log c xs sess) (\<lambda>(outs, sess1).
       Option.bind (session_lines real_log c ys sess1) (\<lambda>(outs', sess2). Some (outs @ outs', sess2)))"
proof (induction xs arbitrary: sess)
  case Nil
  then show ?case by (cases "session_lines real_log c ys sess") auto
next
  case (Cons x xs)
  obtain ch req srv where x: "x = (ch, req, srv)" by (metis prod_cases3)
  show ?case by (auto simp: x Cons split: Option.bind_splits prod.splits)
qed

lemma queue_lines:
  "list_all (\<lambda>(ch, req, srv). queueable req) ls \<Longrightarrow> \<not> subscriberMode sess \<Longrightarrow> txBuilder sess = Some tb \<Longrightarrow>
   \<exists>rs. session_lines real_log c ls sess = Some (map (\<lambda>(ch, req, srv). ([WithQueued], srv)) ls,
     sess\<lparr>txBuilder := Some (tb\<lparr>tb_requests := tb_requests tb @ map (fst \<circ> snd) ls\<rparr>), replies := rs\<rparr>)"
proof (induction ls arbitrary: sess tb)
  case Nil
  then show ?case by (intro exI [of _ "replies sess"]) simp
next
  case (Cons x ls)
  obtain ch req srv where x: "x = (ch, req, srv)" by (metis prod_cases3)
  then have line: "handle_line real_log ch c (Inr req) (sess\<lparr>replies := []\<rparr>, srv) =
      Some (sess\<lparr>replies := [WithQueued], txBuilder := Some (Queue req tb)\<rparr>, srv)"
    using Cons.prems by (auto simp: handle_line_def queueable_def handle_data_def reply_def)
  from Cons.IH [of "sess\<lparr>replies := [WithQueued], txBuilder := Some (Queue req tb)\<rparr>" "Queue req tb"] show ?case
    using Cons.prems by (auto simp: x line Queue_def)
qed

text \<open>
  C34.  A transaction of a connection: MULTI is accepted, every request up to EXEC is queued and changes nothing, whatever
  the other connections do in between, and EXEC runs exactly the queued requests, in their order, on the data as they
  are then, and leaves the connection without a transaction.
\<close>

theorem multi_exec:
  assumes "\<not> subscriberMode sess" "txBuilder sess = None" "Method mreq = ''MULTI''" "Method ereq = ''EXEC''"
    and "list_all (\<lambda>(ch, req, srv). queueable req) ls"
  shows "session_lines real_log c ((ch0, mreq, srv0) # ls @ [(ch, ereq, srv)]) sess =
      map_option (\<lambda>((responses, err), tb, m, l).
        let answer = (case err of Some e \<Rightarrow> Fail e | None \<Rightarrow> WithResponses responses)
        in (([OK], srv0) # map (\<lambda>(ch, req, srv). ([WithQueued], srv)) ls @ [([answer], srv\<lparr>srv_mux := m, srv_wal := l\<rparr>)],
            sess\<lparr>txBuilder := None, replies := [answer]\<rparr>))
        (TxBuilder_Exec (ch_txenvs ch) real_log (''tx-'' @ generateUUID (ch_uuid ch))
          (NewTxBuilder\<lparr>tb_requests := map (fst \<circ> snd) ls\<rparr>) (srv_mux srv, srv_wal srv))"
proof -
  let ?s0 = "sess\<lparr>txBuilder := Some NewTxBuilder, replies := [OK]\<rparr>"
  let ?tb = "NewTxBuilder\<lparr>tb_requests := map (fst \<circ> snd) ls\<rparr>"
  have first: "handle_line real_log ch0 c (Inr mreq) (sess\<lparr>replies := []\<rparr>, srv0) = Some (?s0, srv0)"
    using assms(1-3) by (simp add: handle_line_def subscription_def handle_data_def reply_def)
  obtain rs where queue: "session_lines real_log c ls ?s0 =
      Some (map (\<lambda>(ch, req, srv). ([WithQueued], srv)) ls, ?s0\<lparr>txBuilder := Some ?tb, replies := rs\<rparr>)"
    using queue_lines [OF assms(5), of ?s0 NewTxBuilder real_log c] assms(1) by (auto simp: NewTxBuilder_def)
  have exec: "handle_line real_log ch c (Inr ereq) (sess\<lparr>txBuilder := Some ?tb, replies := []\<rparr>, srv) =
      map_option (\<lambda>((responses, err), tb, m, l).
        (sess\<lparr>txBuilder := None, replies := [case err of Some e \<Rightarrow> Fail e | None \<Rightarrow> WithResponses responses]\<rparr>,
         srv\<lparr>srv_mux := m, srv_wal := l\<rparr>))
        (TxBuilder_Exec (ch_txenvs ch) real_log (''tx-'' @ generateUUID (ch_uuid ch)) ?tb (srv_mux srv, srv_wal srv))"
    using assms(1,4) by (simp add: handle_line_def subscription_def handle_data_def reply_def)
  show ?thesis
    by (auto simp: first session_lines_append queue exec Let_def split: option.splits Option.bind_splits prod.splits)
qed

lemma multi_exec_witness:
  "session_lines list_log 0
     [(choices_one, request [] [] ''MULTI'' [], srv_one), (choices_one, request ''kv'' ''u'' ''GET'' [quoted ''n''], srv_sub),
      (choices_one, request [] [] ''EXEC'' [], srv_one)] new_session =
   map_option (\<lambda>((responses, err), tb, m, l).
     let answer = (case err of Some e \<Rightarrow> Fail e | None \<Rightarrow> WithResponses responses)
     in ([([OK], srv_one), ([WithQueued], srv_sub), ([answer], srv_one\<lparr>srv_mux := m, srv_wal := l\<rparr>)],
         new_session\<lparr>txBuilder := None, replies := [answer]\<rparr>))
     (TxBuilder_Exec (ch_txenvs choices_one) list_log (''tx-'' @ generateUUID (ch_uuid choices_one))
       (NewTxBuilder\<lparr>tb_requests := [request ''kv'' ''u'' ''GET'' [quoted ''n'']]\<rparr>) (srv_mux srv_one, srv_wal srv_one))"
  using multi_exec [of new_session "request [] [] ''MULTI'' []" "request [] [] ''EXEC'' []"
      "[(choices_one, request ''kv'' ''u'' ''GET'' [quoted ''n''], srv_sub)]" list_log 0 choices_one srv_one choices_one srv_one]
  by (simp add: new_session_def queueable_def subscription_def)

subsection \<open>Subscriber mode without a subscription\<close>

text \<open>
  A SUBSCRIBE that names no channel puts the connection into subscriber mode all the same: it has no subscription, and
  every request for data is refused.
\<close>

lemma empty_subscribe_locks:
  assumes "Method req = ''SUBSCRIBE''" "Args req = []"
  shows "\<exists>sess1 sess'. handle_line real_log ch c (Inr req) (new_session, srv) = Some (sess1, srv) \<and>
    subscription_turn c (sess1, srv) = Some (sess', srv) \<and> pending sess' = None \<and> subCount sess' = 0 \<and>
    (\<forall>ch2 req2 srv2. queueable req2 \<longrightarrow> (\<exists>msg. handle_line real_log ch2 c (Inr req2) (sess', srv2) = Some (reply (FailMsg msg) sess', srv2)))"
  using assms
  by (auto simp: handle_line_def subscription_def handle_subscription_def subscription_turn_def Let_def new_session_def queueable_def)

end
