(* ===== verification/TxUndo.thy ===== *)
theory TxUndo
  imports TxBuilder RouterProps
begin

text \<open>
  What one operation of a transaction does to the values the clients see, and what its undo does: the operation changes
  them at the key of its request only, not at all when it is refused, and the undo puts the old value of that key back.
  \<open>kv_undoable\<close>, \<open>list_undoable\<close> and \<open>set_undoable\<close> are the methods of which this is true.
\<close>

definition kv_view :: "time \<Rightarrow> Storage \<Rightarrow> string \<rightharpoonup> bytes" where
  "kv_view now e = map_option fst \<circ> kv_abs now e"

definition list_view :: "time \<Rightarrow> ListStorage \<Rightarrow> string \<rightharpoonup> bytes list" where
  "list_view now e = map_option fst \<circ> list_abs now e"

definition set_view :: "time \<Rightarrow> SetStorage \<Rightarrow> string \<rightharpoonup> bytes set" where
  "set_view now e = map_option fst \<circ> set_abs now e"

lemmas view_defs = kv_view_def list_view_def set_view_def

lemma ends_and: "ends r P \<Longrightarrow> ends r Q \<Longrightarrow> ends r (\<lambda>x. P x \<and> Q x)"
  by (auto simp: ends_iff)

text \<open>
  The change \<open>V'\<close> of a view \<open>V\<close> at the key \<open>k\<close>, by an operation that may be refused.
\<close>

definition changes_at :: "'k \<Rightarrow> bool \<Rightarrow> ('k \<rightharpoonup> 'a) \<Rightarrow> ('k \<rightharpoonup> 'a) \<Rightarrow> bool" where
  "changes_at k success V V' \<longleftrightarrow> (\<forall>j. j \<noteq> k \<longrightarrow> V' j = V j) \<and> (\<not> success \<longrightarrow> V' = V)"

lemma changes_at_refl [simp]: "changes_at k b V V"
  by (simp add: changes_at_def)

lemma changes_undo: "changes_at k b V V' \<Longrightarrow> V'(k := V k) = V"
  by (auto simp: changes_at_def fun_eq_iff)

lemma changes_at_fst: "changes_at k b A A' \<Longrightarrow> changes_at k b (map_option fst \<circ> A) (map_option fst \<circ> A')"
  by (auto simp: changes_at_def)

lemma changes_upd [simp]: "changes_at k True V (V(k := x))"
  by (simp add: changes_at_def)

text \<open>A handler changes what its operation changes.\<close>

lemma runs_changes:
  assumes "runs app failed h q" "I e"
    and "\<And>op. q = Some op \<Longrightarrow> ends (app op (e, w)) (\<lambda>(r, e', w'). I e' \<and> changes_at k (\<not> failed r \<and> b) (V e) (V e'))"
  shows "ends (h (e, w)) (\<lambda>(r, e', w'). I e' \<and> changes_at k (accepted r \<and> b) (V e) (V e'))"
proof (cases q)
  case None
  then show ?thesis using assms(1,2) by (auto simp: runs_def respond_def)
next
  case (Some op)
  then show ?thesis using assms(1) assms(3) [OF Some] by (fastforce simp: runs_def ends_iff ending_def)
qed

lemma request_key_first: "args \<noteq> [] \<Longrightarrow> unmarshalString (args ! 0) = Some k \<Longrightarrow> request_key args = k"
  by (simp add: request_key_def hd_conv_nth)

subsection \<open>Key-value instances\<close>

fun kv_touches :: "string \<Rightarrow> kv_op \<Rightarrow> bool" where
  "kv_touches k (OpSet j v md) \<longleftrightarrow> j = k"
| "kv_touches k (OpSetWithTTL j v x) \<longleftrightarrow> j = k"
| "kv_touches k (OpDelete j) \<longleftrightarrow> j = k"
| "kv_touches k (OpIncrement j) \<longleftrightarrow> j = k"
| "kv_touches k (OpDecrement j) \<longleftrightarrow> j = k"
| "kv_touches k (OpGet j) \<longleftrightarrow> True"
| "kv_touches k (OpExists j) \<longleftrightarrow> True"
| "kv_touches k (OpMget js) \<longleftrightarrow> True"
| "kv_touches k op \<longleftrightarrow> False"

fun kv_reads :: "kv_op \<Rightarrow> bool" where
  "kv_reads (OpGet j) \<longleftrightarrow> True"
| "kv_reads (OpExists j) \<longleftrightarrow> True"
| "kv_reads (OpMget js) \<longleftrightarrow> True"
| "kv_reads op \<longleftrightarrow> False"

definition kv_undoable :: "string \<Rightarrow> bool" where
  "kv_undoable mth \<longleftrightarrow> mth \<in> {''SET'', ''SET_TTL'', ''DEL'', ''INCR'', ''DECR'', ''GET'', ''EXISTS'', ''MGET''}"

lemma kv_request_touches:
  "kv_request env mth args = Some op \<Longrightarrow> kv_undoable mth \<Longrightarrow>
   kv_touches (request_key args) op \<and> (kv_undone mth \<or> kv_reads op)"
  by (auto simp: kv_undoable_def kv_request_def kv_undone_def bind_eq_Some_conv split: if_splits dest!: request_key_first [rotated])

lemma kv_spec_touches:
  "kv_touches k op \<Longrightarrow> kv_spec compile now op A = (r, A') \<Longrightarrow> changes_at k (\<not> kv_failed r) A A' \<and> (kv_reads op \<longrightarrow> A' = A)"
  by (cases op) (auto simp: changes_at_def spec_put_def spec_incr_def Let_def split: option.splits prod.splits if_splits)

lemma kv_touches_order: "kv_touches k op \<Longrightarrow> kv_apply compile lg now ks op s = kv_apply compile lg now ks' op s"
  by (cases op) simp_all

lemma kv_failed_abs [simp]: "kv_failed (kv_res_abs r) = kv_failed r"
  by (cases r) (simp_all add: isl_map_sum)

text \<open>No value was created after \<open>now\<close>.\<close>

definition kv_created :: "time \<Rightarrow> Storage \<Rightarrow> bool" where
  "kv_created now e \<longleftrightarrow> kv_inv e \<and> (\<forall>k p. data e k = Some p \<longrightarrow> createdAt (metadata p) \<le> now)"

interpretation kv_past: kv_stable lg "\<lambda>md. createdAt md \<le> now" "\<lambda>s. kv_created now (fst s)" for lg :: "'w logger" and now
  by unfold_locales (auto simp: kv_created_def map_le_def dom_def split: if_splits)

lemma kv_undoable_step:
  assumes "reliable_logger lg" "kv_created (env_now env) e" "kv_undoable mth"
  shows "ends (kv_method env lg mth args (e, w)) (\<lambda>(r, e', w'). kv_created (env_now env) e' \<and>
    changes_at (request_key args) (accepted r \<and> kv_undone mth) (kv_view (env_now env) e) (kv_view (env_now env) e'))"
proof (rule runs_changes [OF kv_method_runs])
  fix op assume op: "kv_request env mth args = Some op"
  let ?now = "env_now env" and ?app = "kv_apply (env_compile env) lg (env_now env) (env_keys env)"
  note t = kv_request_touches [OF op assms(3)]
  have iv: "kv_inv e" using assms(2) by (simp add: kv_created_def)
  then obtain ks where ks: "map_iter ks (data e)" using map_iter_exists engine_inv_finite by blast
  have wr: "kv_writes_ok (\<lambda>md. createdAt md \<le> ?now) ?now op"
    using op assms(3)
    by (auto simp: kv_request_def kv_undoable_def bind_eq_Some_conv NewPayloadMetadata_def split: if_splits)
  have "ends (?app op (e, w)) (\<lambda>(r, e', w'). (kv_res_abs r, kv_abs ?now e') = kv_spec (env_compile env) ?now op (kv_abs ?now e))"
    using reliable_logger.kv_apply_refines [OF assms(1) iv ks, of "env_compile env" ?now op w] t
    by (auto simp: kv_touches_order [where ks = "env_keys env" and ks' = ks] elim!: ends_mono)
  moreover have "ends (?app op (e, w)) (\<lambda>(r, s'). kv_created ?now (fst s'))"
    using kv_past.apply_keeps [where s = "(e, w)" and op = op and now = ?now and nowa = ?now] assms(2) wr by simp
  ultimately obtain r e' w' where run: "?app op (e, w) = Some (r, e', w')" "kv_created ?now e'"
    and sp: "kv_spec (env_compile env) ?now op (kv_abs ?now e) = (kv_res_abs r, kv_abs ?now e')" by (auto simp: ends_iff)
  have "changes_at (request_key args) (\<not> kv_failed r \<and> kv_undone mth) (kv_abs ?now e) (kv_abs ?now e')"
    using kv_spec_touches [OF conjunct1 [OF t] sp] t by (auto simp: changes_at_def)
  then show "ends (?app op (e, w)) (\<lambda>(r, e', w'). kv_created ?now e' \<and>
      changes_at (request_key args) (\<not> kv_failed r \<and> kv_undone mth) (kv_view ?now e) (kv_view ?now e'))"
    using run by (simp add: kv_view_def changes_at_fst)
qed (rule assms(2))

lemma kv_undo_step:
  assumes "reliable_logger lg" "kv_created now e" "kv_created now t"
  shows "ends (kv_restore lg now key (kv_SnapshotKey now key e) (t, w))
    (\<lambda>(r, t', w'). kv_created now t' \<and> kv_view now t' = (kv_view now t)(key := kv_view now e key))"
proof -
  have iv: "kv_inv t" using assms(3) by (simp add: kv_created_def)
  note refines = reliable_logger.kv_set_refines [OF assms(1) iv] reliable_logger.kv_delete_refines [OF assms(1) iv]
  have keeps: "createdAt md \<le> now \<Longrightarrow> ends (kv_setNoLock lg key v md (t, w)) (\<lambda>(r, s'). kv_created now (fst s'))"
    "ends (kv_Delete lg key (t, w)) (\<lambda>(r, s'). kv_created now (fst s'))" for v md
    using kv_past.set_keeps [of now "(t, w)" md lg key v] kv_past.Delete_keeps [of now "(t, w)" lg key] assms(3) by simp_all
  show ?thesis
  proof (cases "kv_SnapshotKey now key e")
    case None
    then have "kv_view now e key = None"
      by (auto simp: kv_SnapshotKey_def kv_view_def kv_abs_None stale_def split: option.splits if_splits)
    then show ?thesis
      using ends_and [OF refines(2) keeps(2)] None by (auto simp: ends_iff kv_restore_def kv_view_def kv_abs_delete fun_upd_comp)
  next
    case (Some p)
    then have p: "data e key = Some p" "\<not> expired (payload_expiry p) now"
      by (auto simp: kv_SnapshotKey_def split: option.splits if_splits)
    have v: "kv_view now e key = Some (pvalue p)"
      using p kv_abs_Some [of now e key "pvalue p" "payload_expiry p"] by (auto simp: kv_view_def)
    have c: "createdAt (metadata p) \<le> now" using assms(2) p by (auto simp: kv_created_def)
    show ?thesis
    proof (cases "expiresAt (metadata p)")
      case None
      then show ?thesis using Some v ends_and [OF refines(1) [where now = now and v = "pvalue p"] keeps(1) [OF c]]
        by (auto simp: ends_iff kv_restore_def kv_Set_def spec_put_def expired_def kv_view_def fun_upd_comp)
    next
      case (Some x)
      then have "now \<le> x" using p(2) by (simp add: payload_expiry_def expired_def)
      then have x: "\<not> expired (Some (now + time_sub x (createdAt (metadata p)))) now"
        using c by (simp add: expired_def time_sub_def)
      let ?md = "NewPayloadMetadata now (Some (now + time_sub x (createdAt (metadata p))))"
      have "createdAt ?md \<le> now" by (simp add: NewPayloadMetadata_def)
      from ends_and [OF refines(1) [where now = now and v = "pvalue p"] keeps(1) [OF this]] show ?thesis
        using \<open>kv_SnapshotKey now key e = Some p\<close> Some v x
        by (auto simp: ends_iff kv_restore_def kv_SetWithTTL_def kv_Set_def spec_put_def kv_view_def fun_upd_comp)
    qed
  qed
qed

subsection \<open>List instances\<close>

fun list_touches :: "string \<Rightarrow> list_op \<Rightarrow> bool" where
  "list_touches k (LPush l j vs x) \<longleftrightarrow> j = k"
| "list_touches k (LPop l j) \<longleftrightarrow> j = k"
| "list_touches k (LLen j) \<longleftrightarrow> j = k"
| "list_touches k (LRange j a b) \<longleftrightarrow> j = k"
| "list_touches k (LGet j) \<longleftrightarrow> j = k"
| "list_touches k (LIndex j i) \<longleftrightarrow> j = k"
| "list_touches k (LReplace j i v) \<longleftrightarrow> j = k"
| "list_touches k (LInsert j p v b) \<longleftrightarrow> j = k"
| "list_touches k (LRemove j n v) \<longleftrightarrow> j = k"
| "list_touches k (LPos j v) \<longleftrightarrow> j = k"
| "list_touches k (LDelete j) \<longleftrightarrow> j = k"
| "list_touches k op \<longleftrightarrow> False"

definition list_undoable :: "string \<Rightarrow> bool" where
  "list_undoable mth \<longleftrightarrow>
     mth \<in> {''LPUSH'', ''RPUSH'', ''LPOP'', ''RPOP'', ''LLEN'', ''LRANGE'', ''LINDEX'', ''LSET'', ''LINSERT'', ''LREM'', ''LPOS'', ''LGET'', ''DEL''}"

lemma list_request_touches:
  "list_request env mth args = Some op \<Longrightarrow> list_undoable mth \<Longrightarrow> list_touches (request_key args) op"
  by (auto simp: list_undoable_def list_request_def bind_eq_Some_conv split: if_splits dest!: request_key_first [rotated])

lemma list_spec_touches:
  "list_touches k op \<Longrightarrow> list_spec compile now op A = (r, A') \<Longrightarrow> changes_at k (\<not> list_failed r) A A'"
  by (cases op) (auto simp: changes_at_def spec_push_def spec_store_def Let_def split: option.splits prod.splits if_splits)

lemma list_touches_order: "list_touches k op \<Longrightarrow> list_apply compile lg now ks op s = list_apply compile lg now ks' op s"
  by (cases op) simp_all

lemma list_touches_refines:
  assumes "reliable_logger lg" "list_inv e" "list_touches k op"
  shows "ends (list_apply compile lg now ks op (e, w)) (\<lambda>(r, e', w'). list_inv e' \<and>
    (r, list_abs now e') = list_spec compile now op (list_abs now e))"
proof -
  obtain ks' where "map_iter ks' (data e)" using map_iter_exists engine_inv_finite assms(2) by blast
  from reliable_logger.list_apply_refines [OF assms(1,2) this, of compile now op w] show ?thesis
    by (simp add: list_touches_order [OF assms(3), of _ _ _ ks _ ks'])
qed

lemma list_undoable_step:
  assumes "reliable_logger lg" "list_inv e" "list_undoable mth"
  shows "ends (list_method env lg mth args (e, w)) (\<lambda>(r, e', w'). list_inv e' \<and>
    changes_at (request_key args) (accepted r \<and> True) (list_view (env_now env) e) (list_view (env_now env) e'))"
proof (rule runs_changes [where I = list_inv, OF list_method_runs assms(2)])
  fix op assume op: "list_request env mth args = Some op"
  note t = list_request_touches [OF op assms(3)]
  show "ends (list_apply (env_compile env) lg (env_now env) (env_keys env) op (e, w)) (\<lambda>(r, e', w'). list_inv e' \<and>
      changes_at (request_key args) (\<not> list_failed r \<and> True) (list_view (env_now env) e) (list_view (env_now env) e'))"
    by (rule ends_mono [OF list_touches_refines [OF assms(1,2) t]])
      (auto simp: list_view_def intro!: changes_at_fst list_spec_touches [OF t] dest: sym)
qed

lemma list_undo_step:
  assumes "reliable_logger lg" "list_inv e" "list_inv t"
  shows "ends (list_restore lg now key (SnapshotList now key e) (t, w))
    (\<lambda>(r, t', w'). list_inv t' \<and> list_view now t' = (list_view now t)(key := list_view now e key))"
proof -
  have del: "ends (list_Delete lg key (t, w)) (\<lambda>(r, t', w'). list_inv t' \<and> list_abs now t' = (list_abs now t)(key := None))"
    using list_touches_refines [OF assms(1,3), of key "LDelete key" undefined now "[]" w]
    by (auto simp: ends_iff)
  have push: "ends (RightPush lg now key xs None (t1, w1)) (\<lambda>(r, t', w'). list_inv t' \<and>
      list_abs now t' = (list_abs now t1)(key \<mapsto> (xs, None)))" if "list_inv t1" "list_abs now t1 key = None" for xs t1 w1
    using list_touches_refines [OF assms(1) that(1), of key "LPush False key xs None" undefined now "[]" w1] that(2)
    by (auto simp: ends_iff spec_push_def contents_def expiry_of_def expired_def)
  show ?thesis
  proof (cases "SnapshotList now key e")
    case None
    then have "list_view now e key = None"
      by (auto simp: SnapshotList_def list_view_def list_abs_None stale_def split: option.splits if_splits)
    then show ?thesis using del None by (auto simp: ends_iff list_restore_def list_view_def fun_upd_comp)
  next
    case (Some xs)
    then have v: "list_view now e key = Some xs"
      by (auto simp: SnapshotList_def list_view_def list_abs_def visible_def alive_def map_keep_def split: option.splits if_splits)
    obtain r t1 w1 where d: "list_Delete lg key (t, w) = Some (r, t1, w1)" "list_inv t1" "list_abs now t1 = (list_abs now t)(key := None)"
      using del by (auto simp: ends_iff)
    show ?thesis using push [OF d(2), of xs w1] d v Some by (auto simp: ends_iff list_restore_def list_view_def fun_upd_comp)
  qed
qed

subsection \<open>Set instances\<close>

fun set_touches :: "string \<Rightarrow> set_op \<Rightarrow> bool" where
  "set_touches k (OAdd j ms x) \<longleftrightarrow> j = k"
| "set_touches k (ORem j ms) \<longleftrightarrow> j = k"
| "set_touches k (OPop j n) \<longleftrightarrow> j = k"
| "set_touches k (OIsMember j m) \<longleftrightarrow> True"
| "set_touches k (OMIsMember j ms) \<longleftrightarrow> True"
| "set_touches k (OMembers j) \<longleftrightarrow> True"
| "set_touches k (OCard j) \<longleftrightarrow> True"
| "set_touches k (OCombine c js) \<longleftrightarrow> True"
| "set_touches k (OInterCard js n) \<longleftrightarrow> True"
| "set_touches k (OStore c j js) \<longleftrightarrow> j = k"
| "set_touches k (ODelete j) \<longleftrightarrow> j = k"
| "set_touches k op \<longleftrightarrow> False"

definition set_undoable :: "string \<Rightarrow> bool" where
  "set_undoable mth \<longleftrightarrow>
     mth \<in> {''SADD'', ''SREM'', ''SPOP'', ''SISMEMBER'', ''SMISMEMBER'', ''SMEMBERS'', ''SCARD'', ''SINTER'', ''SUNION'', ''SDIFF'',
       ''SINTERCARD'', ''SINTERSTORE'', ''SUNIONSTORE'', ''SDIFFSTORE'', ''DEL''}"

lemma set_request_touches:
  "set_request env mth args = Some op \<Longrightarrow> set_undoable mth \<Longrightarrow> set_touches (request_key args) op"
  by (auto simp: set_undoable_def set_request_def bind_eq_Some_conv split: if_splits prod.splits dest!: request_key_first [rotated])

lemma changes_shrink: "changes_at k b A (shrink k M A) = (b \<or> shrink k M A = A)"
  by (auto simp: changes_at_def shrink_def split: option.splits)

lemma set_spec_touches:
  "set_touches k op \<Longrightarrow> set_ok compile now op A r A' \<Longrightarrow> changes_at k (\<not> set_failed r) A A'"
  by (cases op) (auto simp: Let_def changes_shrink split: if_splits)

lemma set_touches_order:
  "set_touches k op \<Longrightarrow> set_apply compile lg now later clock iter ks op s = set_apply compile lg now later clock iter ks' op s"
  by (cases op) simp_all

lemma set_touches_meets:
  assumes "reliable_logger lg" "set_inv e" "iter_ok iter" "set_touches k op" "\<And>c j js. op \<noteq> OStore c j js"
  shows "ends (set_apply compile lg now later clock iter ks op (e, w)) (\<lambda>(r, e', w'). set_inv e' \<and>
    set_ok compile now op (set_abs now e) r (set_abs now e'))"
proof -
  obtain ks' where ks: "map_iter ks' (data e)"
    using map_iter_exists engine_inv_finite set_inv_engine [OF assms(2)] by blast
  have "set_regular later op (set_abs now e)" "\<not> set_panics later op (set_abs now e)" using assms(4,5) by (cases op; simp)+
  then show ?thesis
    using set_apply_outcome [OF assms(2) ks assms(3), of compile lg now later op clock w] assms(1)
    by (auto simp: set_touches_order [OF assms(4), of _ _ _ _ _ _ ks _ ks'] set_outcome_def set_meets_def ends_iff split: option.splits)
qed

text \<open>A storing operation whose two readings of the clock are one changes its destination at most.\<close>

lemma set_store_touches:
  assumes "reliable_logger lg" "set_inv e" "iter_ok iter"
  shows "ends (set_store lg now now iter c dst ks (e, w)) (\<lambda>(r, e', w'). set_inv e' \<and> changes_at dst (\<not> isl r) (set_abs now e) (set_abs now e'))"
proof -
  have "\<not> x < now" if "set_abs now e k = Some (S, Some x)" for k S x
    using that by (auto simp: set_abs_def visible_def alive_def map_keep_def expired_def split: option.splits if_splits)
  then have steady: "\<forall>k \<in> set ks. \<forall>S x. set_abs now e k = Some (S, Some x) \<longrightarrow> now \<le> x" by force
  have np: "\<not> set_panics now (OStore c dst ks) (set_abs now e)"
    using steady by (cases c; cases ks) force+
  show ?thesis
  proof (rule set_store_total [OF assms(2,3), of lg now now c dst ks w])
    fix res e' w1 act
    assume run: "set_store lg now now iter c dst ks (e, w) = Some (set_logged lg act dst ks (int (length res)) (e', w1))"
      and inv: "set_inv e'"
      and out: "\<forall>k \<in> set ks. \<forall>S x. set_abs now e k = Some (S, Some x) \<longrightarrow> now \<le> x \<Longrightarrow> store_outcome now c dst ks e res e'"
    have "changes_at dst True (set_abs now e) (set_abs now e')"
      using out [OF steady] by (auto simp: store_outcome_def Let_def changes_at_def)
    then show ?thesis using run inv
      by (auto simp: set_logged_def ends_iff dest: reliable_no_fail [OF assms(1)] split: prod.splits option.splits)
  qed (use np in simp)
qed

lemma set_touches_changes:
  assumes "reliable_logger lg" "set_inv e" "iter_ok iter" "set_touches k op"
  shows "ends (set_apply compile lg now now clock iter ks op (e, w)) (\<lambda>(r, e', w'). set_inv e' \<and>
    changes_at k (\<not> set_failed r) (set_abs now e) (set_abs now e'))"
proof (cases "\<exists>c j js. op = OStore c j js")
  case True
  then obtain c js where op: "op = OStore c k js" using assms(4) by auto
  show ?thesis unfolding op using set_store_touches [OF assms(1-3), of now c k js w] by (auto simp: ends_iff)
next
  case False
  show ?thesis
    by (rule ends_mono [OF set_touches_meets [OF assms]]) (use False set_spec_touches [OF assms(4)] in auto)
qed

lemma set_undoable_step:
  assumes "reliable_logger lg" "set_inv e" "iter_ok (env_iter env)" "set_undoable mth" "env_later env = env_now env"
  shows "ends (set_method env lg mth args (e, w)) (\<lambda>(r, e', w'). set_inv e' \<and>
    changes_at (request_key args) (accepted r \<and> True) (set_view (env_now env) e) (set_view (env_now env) e'))"
proof (rule runs_changes [where I = set_inv, OF set_method_runs assms(2)])
  fix op assume op: "set_request env mth args = Some op"
  note t = set_request_touches [OF op assms(4)]
  show "ends (set_apply (env_compile env) lg (env_now env) (env_later env) (env_clock env) (env_iter env) (env_keys env) op (e, w))
      (\<lambda>(r, e', w'). set_inv e' \<and>
        changes_at (request_key args) (\<not> set_failed r \<and> True) (set_view (env_now env) e) (set_view (env_now env) e'))"
    unfolding assms(5)
    by (rule ends_mono [OF set_touches_changes [OF assms(1-3) t]]) (auto simp: set_view_def intro!: changes_at_fst)
qed

lemma set_undo_step:
  assumes "reliable_logger lg" "set_inv e" "set_inv t" "iter_ok iter"
  shows "ends (set_restore lg now key (SnapshotMembers now iter key e) (t, w))
    (\<lambda>(r, t', w'). set_inv t' \<and> set_view now t' = (set_view now t)(key := set_view now e key))"
proof -
  have del: "ends (set_Delete lg key (t, w)) (\<lambda>(r, t', w'). set_inv t' \<and> set_abs now t' = (set_abs now t)(key := None))"
    using set_touches_meets [OF assms(1,3,4), of key "ODelete key" undefined now now undefined "[]" w] by (auto simp: ends_iff)
  have add: "ends (SAdd lg now key ms None (t1, w1)) (\<lambda>(r, t', w'). set_inv t' \<and>
      set_abs now t' = (set_abs now t1)(key \<mapsto> (set ms, None)))" if "set_inv t1" "set_abs now t1 key = None" for ms t1 w1
    using set_touches_meets [OF assms(1) that(1) assms(4), of key "OAdd key ms None" undefined now now undefined "[]" w1] that(2)
    by (auto simp: ends_iff mem_def ttl_def expired_def)
  show ?thesis
  proof (cases "SnapshotMembers now iter key e")
    case None
    then have "set_view now e key = None"
      by (auto simp: SnapshotMembers_def set_view_def set_abs_def visible_None stale_def split: option.splits if_splits)
    then show ?thesis using del None by (auto simp: ends_iff set_restore_def set_view_def fun_upd_comp)
  next
    case (Some ms)
    then obtain v where v: "data e key = Some v" "\<not> expired (set_expiresAt v) now" "ms = iter (members v)"
      by (auto simp: SnapshotMembers_def split: option.splits if_splits)
    then have "set ms = members v" using assms(2,4) by (simp add: set_inv_def iter_ok_def)
    then have o: "set_view now e key = Some (set ms)"
      using v visible_live [of e key v set_expiresAt now "\<lambda>v. (members v, set_expiresAt v)"] by (simp add: set_view_def set_abs_def)
    obtain r t1 w1 where d: "set_Delete lg key (t, w) = Some (r, t1, w1)" "set_inv t1" "set_abs now t1 = (set_abs now t)(key := None)"
      using del by (auto simp: ends_iff)
    show ?thesis using add [OF d(2), of ms w1] d o Some by (auto simp: ends_iff set_restore_def set_view_def fun_upd_comp)
  qed
qed

end
