(* ===== verification/TxProps.thy ===== *)
theory TxProps
  imports TxUndo
begin

text \<open>
  The transactions of the clients on the data: the interpretation of \<open>undoable\<close> on the operations that the builder
  makes, so that a transaction that fails leaves the values the clients see as they were, and the methods for
  which this is not so.
\<close>

definition mux_view ::
  "time \<Rightarrow> Multiplexer \<Rightarrow>
   (string \<rightharpoonup> string \<rightharpoonup> bytes) \<times> (string \<rightharpoonup> string \<rightharpoonup> bytes list) \<times> (string \<rightharpoonup> string \<rightharpoonup> bytes set) \<times> (string \<rightharpoonup> ZSetStorage)" where
  "mux_view now m = (map_option (kv_view now) \<circ> kvEngines m, map_option (list_view now) \<circ> listEngines m,
     map_option (set_view now) \<circ> setEngines m, zsetEngines m)"

definition mux_ready :: "time \<Rightarrow> Multiplexer \<Rightarrow> bool" where
  "mux_ready now m \<longleftrightarrow> mux_inv m \<and> (\<forall>u e. kvEngines m u = Some e \<longrightarrow> kv_created now e)"

abbreviation tx_ready :: "time \<Rightarrow> 'w tx_state \<Rightarrow> bool" where
  "tx_ready now s \<equiv> mux_ready now (fst (fst s))"

definition tx_same :: "time \<Rightarrow> 'w tx_state \<Rightarrow> 'w tx_state \<Rightarrow> bool" where
  "tx_same now s t \<longleftrightarrow> mux_view now (fst (fst s)) = mux_view now (fst (fst t))"

text \<open>The clock stands still while a transaction runs.\<close>

definition tx_env_ok :: "time \<Rightarrow> env \<Rightarrow> bool" where
  "tx_env_ok now env \<longleftrightarrow> env_now env = now \<and> env_later env = now \<and> iter_ok (env_iter env)"

definition undoable_request :: "Request \<Rightarrow> bool" where
  "undoable_request req \<longleftrightarrow>
     (DS req = ''kv'' \<and> kv_undoable (Method req)) \<or> (DS req = ''list'' \<and> list_undoable (Method req)) \<or>
     (DS req = ''set'' \<and> set_undoable (Method req))"

text \<open>An operation returns, leaves the values alone when it fails, and is taken back by its undo when it does not.\<close>

definition reverts :: "time \<Rightarrow> 'w tx_state Op \<Rightarrow> 'w tx_state \<Rightarrow> bool" where
  "reverts now oper s \<longleftrightarrow> ends (oper s) (\<lambda>((u, err), s'). tx_ready now s' \<and> (err \<noteq> None \<longrightarrow> tx_same now s' s) \<and>
     (err = None \<longrightarrow> (\<forall>t. tx_ready now t \<longrightarrow> tx_same now t s' \<longrightarrow> ends (u t) (\<lambda>(r, t'). tx_ready now t' \<and> tx_same now t' s))))"

text \<open>
  One instance in the multiplexer: where it is found, how it is put back, what is seen of it.
\<close>

locale tx_slot =
  fixes now :: time
    and get :: "Multiplexer \<Rightarrow> 'e option" and put :: "'e \<Rightarrow> Multiplexer \<Rightarrow> Multiplexer"
    and V :: "'e \<Rightarrow> string \<rightharpoonup> 'a" and I :: "'e \<Rightarrow> bool"
  assumes put_ready: "mux_ready now m \<Longrightarrow> I e \<Longrightarrow> mux_ready now (put e m)"
    and get_ready: "mux_ready now m \<Longrightarrow> get m = Some e \<Longrightarrow> I e"
    and put_same: "get m = Some e \<Longrightarrow> V e' = V e \<Longrightarrow> mux_view now (put e' m) = mux_view now m"
    and get_same: "mux_view now t = mux_view now (put e' m) \<Longrightarrow> \<exists>et. get t = Some et \<and> V et = V e'"
    and put_back: "mux_view now t = mux_view now (put e' m) \<Longrightarrow> get m = Some e \<Longrightarrow> V et = V e \<Longrightarrow>
      mux_view now (put et t) = mux_view now m"
begin

lemma slot_reverts:
  assumes ready: "mux_ready now m" and e: "get m = Some e"
    and run: "ends (h (e, w)) (\<lambda>(r, e', w'). I e' \<and> changes_at k (accepted r \<and> b) (V e) (V e'))"
    and undo: "\<And>et wt. b \<Longrightarrow> I et \<Longrightarrow> ends (v (et, wt)) (\<lambda>(r, e', w'). I e' \<and> V e' = (V et)(k := V e k))"
    and oper: "oper ((m, w), rs) = run_queued msg U (map_option (\<lambda>(r, e', w'). (r, put e' m, w')) (h (e, w))) rs"
    and U: "\<And>mt wt rst et. b \<Longrightarrow> get mt = Some et \<Longrightarrow>
      U ((mt, wt), rst) = map_option (\<lambda>(r, e', w'). (r, (put e' mt, w'), rst)) (v (et, wt))"
      "\<not> b \<Longrightarrow> U = no_undo"
  shows "reverts now oper ((m, w), rs)"
proof -
  obtain r e' w' where h: "h (e, w) = Some (r, e', w')" and e': "I e'" "changes_at k (accepted r \<and> b) (V e) (V e')"
    using run by (auto simp: ends_iff)
  have keep: "mux_view now (put e' m) = mux_view now m" if "\<not> (accepted r \<and> b)"
    using e'(2) that put_same [OF e] by (auto simp: changes_at_def)
  have "ends (U t) (\<lambda>(r, t'). tx_ready now t' \<and> tx_same now t' ((m, w), rs))"
    if t: "tx_ready now t" "tx_same now t ((put e' m, w'), rs @ [r])" for t
  proof (cases b)
    case False
    then show ?thesis using t keep U(2) by (simp add: no_undo_def tx_same_def)
  next
    case True
    obtain mt wt rst where ts: "t = ((mt, wt), rst)" by (metis prod.collapse)
    have eq: "mux_view now mt = mux_view now (put e' m)" using t(2) by (simp add: tx_same_def ts)
    obtain et where et: "get mt = Some et" "V et = V e'" using get_same [OF eq] by blast
    have "I et" using get_ready t(1) et(1) by (simp add: ts)
    then obtain r2 et' wt' where v: "v (et, wt) = Some (r2, et', wt')" "I et'" "V et' = (V et)(k := V e k)"
      using undo [OF True, of et wt] by (auto simp: ends_iff)
    have "mux_view now (put et' mt) = mux_view now m"
      using put_back [OF eq e] v(3) et(2) changes_undo [OF e'(2)] by simp
    then show ?thesis using U(1) [OF True et(1)] v put_ready t(1) by (simp add: ts tx_same_def)
  qed
  moreover have "mux_ready now (put e' m)" by (rule put_ready [OF ready e'(1)])
  ultimately show ?thesis using keep by (simp add: reverts_def oper h run_queued_def tx_same_def)
qed

end

interpretation kv_slot: tx_slot now "GetKV u" "\<lambda>e m. m\<lparr>kvEngines := (kvEngines m)(u \<mapsto> e)\<rparr>" "kv_view now" "kv_created now" for now u
  by unfold_locales
    (auto simp: mux_ready_def mux_inv_def kv_created_def GetKV_def mux_view_def fun_upd_comp fun_eq_iff split: if_splits)

interpretation list_slot: tx_slot now "GetList u" "\<lambda>e m. m\<lparr>listEngines := (listEngines m)(u \<mapsto> e)\<rparr>" "list_view now" list_inv for now u
  by unfold_locales
    (auto simp: mux_ready_def mux_inv_def GetList_def mux_view_def fun_upd_comp fun_eq_iff split: if_splits)

interpretation set_slot: tx_slot now "GetSet u" "\<lambda>e m. m\<lparr>setEngines := (setEngines m)(u \<mapsto> e)\<rparr>" "set_view now" set_inv for now u
  by unfold_locales
    (auto simp: mux_ready_def mux_inv_def GetSet_def mux_view_def fun_upd_comp fun_eq_iff split: if_splits)

lemma scoped_reliable: "reliable_logger lg \<Longrightarrow> reliable_logger (ScopedWalLogger_Log lg u)"
  by (simp add: reliable_logger_def ScopedWalLogger_Log_def)

lemma tx_reliable: "reliable_logger lg \<Longrightarrow> reliable_logger (TxWalLogger_Log lg)"
  by (auto simp: reliable_logger_def TxWalLogger_Log_def split: prod.splits) (metis fst_conv)

lemma absent_reverts:
  "oper s = Some ((nil_undo, Some err), s) \<Longrightarrow> tx_ready now s \<Longrightarrow> reverts now oper s"
  by (simp add: reverts_def tx_same_def)

lemma build_reverts:
  assumes "reliable_logger lg" "tx_env_ok now env" "tx_env_ok now uenv" "tx_ready now s"
  shows "kv_undoable (Method req) \<Longrightarrow> reverts now (buildKVOp env uenv lg req) s"
    and "list_undoable (Method req) \<Longrightarrow> reverts now (buildListOp env uenv lg req) s"
    and "set_undoable (Method req) \<Longrightarrow> reverts now (buildSetOp env uenv lg req) s"
proof -
  obtain m w rs where s: "s = ((m, w), rs)" by (metis prod.collapse)
  have env: "env_now env = now" "env_later env = now" "env_now uenv = now" "iter_ok (env_iter env)" using assms(2,3) by (simp_all add: tx_env_ok_def)
  have m: "mux_ready now m" using assms(4) by (simp add: s)
  let ?slg = "ScopedWalLogger_Log lg (UUID req)" and ?key = "request_key (Args req)"
  note slg = scoped_reliable [OF assms(1), of "UUID req"]
  show "reverts now (buildKVOp env uenv lg req) s" if "kv_undoable (Method req)"
  proof (cases "GetKV (UUID req) m")
    case (Some e)
    have e: "kv_created now e" by (rule kv_slot.get_ready [OF m Some])
    show ?thesis unfolding s
    proof (rule kv_slot.slot_reverts [where h = "kv_method env ?slg (Method req) (Args req)" and k = ?key and b = "kv_undone (Method req)"
          and v = "kv_restore ?slg now ?key (kv_SnapshotKey now ?key e)" and U = "if kv_undone (Method req) then kv_undo uenv lg (UUID req) ?key (kv_SnapshotKey now ?key e) else no_undo", OF m Some])
      show "ends (kv_method env ?slg (Method req) (Args req) (e, w)) (\<lambda>(r, e', w'). kv_created now e' \<and>
          changes_at ?key (accepted r \<and> kv_undone (Method req)) (kv_view now e) (kv_view now e'))"
        using kv_undoable_step [OF slg, where env = env and e = e and mth = "Method req" and args = "Args req" and w = w] e that env by simp
    qed (use kv_undo_step [OF slg e] e env in
        \<open>auto simp: buildKVOp_def Some executeKV_def on_kv_def Let_def kv_undo_def answering_def option.map_comp comp_def
          case_prod_unfold\<close>)
  qed (simp add: absent_reverts buildKVOp_def s m)
  show "reverts now (buildListOp env uenv lg req) s" if "list_undoable (Method req)"
  proof (cases "GetList (UUID req) m")
    case (Some e)
    have e: "list_inv e" by (rule list_slot.get_ready [OF m Some])
    show ?thesis unfolding s
    proof (rule list_slot.slot_reverts [where h = "list_method env ?slg (Method req) (Args req)" and k = ?key and b = True
          and v = "list_restore ?slg now ?key (SnapshotList now ?key e)" and U = "list_undo uenv lg (UUID req) ?key (SnapshotList now ?key e)", OF m Some])
      show "ends (list_method env ?slg (Method req) (Args req) (e, w)) (\<lambda>(r, e', w'). list_inv e' \<and>
          changes_at ?key (accepted r \<and> True) (list_view now e) (list_view now e'))"
        using list_undoable_step [OF slg, where env = env and e = e and mth = "Method req" and args = "Args req" and w = w] e that env by simp
    qed (use list_undo_step [OF slg e] e env in
        \<open>auto simp: buildListOp_def Some executeList_def on_list_def Let_def list_undo_def answering_def option.map_comp comp_def
          case_prod_unfold\<close>)
  qed (simp add: absent_reverts buildListOp_def s m)
  show "reverts now (buildSetOp env uenv lg req) s" if "set_undoable (Method req)"
  proof (cases "GetSet (UUID req) m")
    case (Some e)
    have e: "set_inv e" by (rule set_slot.get_ready [OF m Some])
    show ?thesis unfolding s
    proof (rule set_slot.slot_reverts [where h = "set_method env ?slg (Method req) (Args req)" and k = ?key and b = True
          and v = "set_restore ?slg now ?key (SnapshotMembers now (env_iter env) ?key e)" and U = "set_undo uenv lg (UUID req) ?key (SnapshotMembers now (env_iter env) ?key e)", OF m Some])
      show "ends (set_method env ?slg (Method req) (Args req) (e, w)) (\<lambda>(r, e', w'). set_inv e' \<and>
          changes_at ?key (accepted r \<and> True) (set_view now e) (set_view now e'))"
        using set_undoable_step [OF slg, where env = env and e = e and mth = "Method req" and args = "Args req" and w = w] e that env by simp
    qed (use set_undo_step [OF slg e] e env in
        \<open>auto simp: buildSetOp_def Some executeSet_def on_set_def Let_def set_undo_def answering_def option.map_comp comp_def
          case_prod_unfold\<close>)
  qed (simp add: absent_reverts buildSetOp_def s m)
qed

subsection \<open>All or nothing\<close>

definition tx_op :: "time \<Rightarrow> 'w tx_state Op \<Rightarrow> bool" where
  "tx_op now oper \<longleftrightarrow> (\<exists>lg es req. reliable_logger lg \<and> tx_env_ok now (fst es) \<and> tx_env_ok now (snd es) \<and>
     undoable_request req \<and> build_op es lg req = Some oper)"

lemma tx_op_reverts: "tx_op now oper \<Longrightarrow> tx_ready now s \<Longrightarrow> reverts now oper s"
  by (auto simp: tx_op_def undoable_request_def build_op_def intro: build_reverts)

interpretation tx_ops: undoable "tx_ready now" "tx_same now" "tx_op now" for now
proof unfold_locales
  fix s t s2 s' :: "'a tx_state" and oper :: "'a tx_state Op" and u :: "'a tx_state undo" and e
  show "tx_same now s s" by (simp add: tx_same_def)
  show "tx_same now s t \<Longrightarrow> tx_same now t s2 \<Longrightarrow> tx_same now s s2" by (simp add: tx_same_def)
  assume o: "tx_op now oper" "tx_ready now s"
  note r = tx_op_reverts [OF o]
  show "\<exists>u err s'. oper s = Some ((u, err), s') \<and> tx_ready now s'" using r by (auto simp: reverts_def ends_iff)
  show "oper s = Some ((u, Some e), s') \<Longrightarrow> tx_same now s' s" using r by (auto simp: reverts_def)
  assume "oper s = Some ((u, None), s')" "tx_ready now t" "tx_same now t s'"
  then have "ends (u t) (\<lambda>(r, t'). tx_ready now t' \<and> tx_same now t' s)" using r by (cases t, cases "fst t") (simp add: reverts_def)
  then show "\<exists>r t'. u t = Some (r, t') \<and> tx_ready now t' \<and> tx_same now t' s" by (auto simp: ends_iff)
qed

lemma buildOps_good:
  assumes "reliable_logger lg" "\<And>i. tx_env_ok now (fst (envs i)) \<and> tx_env_ok now (snd (envs i))"
  shows "list_all undoable_request reqs \<Longrightarrow> tx_state tx = StatePending \<Longrightarrow> list_all (tx_op now) (ops tx) \<Longrightarrow>
    \<exists>tx'. buildOps envs lg i reqs tx = (None, tx') \<and> tx_state tx' = StatePending \<and> list_all (tx_op now) (ops tx')"
proof (induction reqs arbitrary: i tx)
  case (Cons req reqs)
  obtain oper where oper: "build_op (envs i) lg req = Some oper"
    using Cons.prems(1) by (auto simp: undoable_request_def build_op_def)
  then have "tx_op now oper" using assms Cons.prems(1) unfolding tx_op_def
    by (intro exI [of _ lg] exI [of _ "envs i"] exI [of _ req]) simp
  then show ?case
    using Cons.IH [of "tx\<lparr>ops := ops tx @ [oper]\<rparr>" "Suc i"] Cons.prems oper by (simp add: Transaction_Add_def)
qed simp

text \<open>
  C35.  A transaction of requests that the builder undoes (\<open>undoable_request\<close>) is all or nothing for the values of the
  key-value, list and set instances: with a logger that does not fail, and a clock that stands still from its first
  reading to its last, it comes to an end, and when it fails every client sees the values it saw before.  The requests
  are, on a key-value instance, SET, SET_TTL, DEL, INCR, DECR, GET, EXISTS and MGET; on a list instance LPUSH, RPUSH,
  LPOP, RPOP, LSET, LINSERT, LREM, DEL and the readings LLEN, LRANGE, LINDEX, LPOS and LGET; on a set instance SADD, SREM, SPOP,
  SINTERSTORE, SUNIONSTORE, SDIFFSTORE, DEL and the readings SISMEMBER, SMISMEMBER, SMEMBERS, SCARD, SINTER, SUNION, SDIFF and
  SINTERCARD.  It does not speak of INCRBY, DECRBY, MSET, MSET_TTL, RPOPLPUSH and SMOVE, which the builder does not undo or
  undoes at one of their keys only, of SRANDMEMBER, of the requests by prefix, suffix or expression, and of any request to
  a sorted set.
\<close>

theorem tx_atomic:
  assumes "\<And>e a args w. fst (real_log e a args w) = None" "mux_ready now m"
    and "\<And>i. tx_env_ok now (fst (envs i)) \<and> tx_env_ok now (snd (envs i))"
    and "list_all undoable_request (tb_requests tb)" "tb_tx tb = new_transaction"
  shows "\<exists>rs err tb' m' l'. TxBuilder_Exec envs real_log txID tb (m, l) = Some ((rs, err), tb', m', l') \<and>
    mux_ready now m' \<and> \<not> tx_active l' \<and> (err = None \<or> mux_view now m' = mux_view now m)"
proof -
  have "reliable_logger (TxWalLogger_Log real_log)" by (rule tx_reliable) (unfold_locales, rule assms(1))
  then obtain tx where b: "buildOps envs (TxWalLogger_Log real_log) 0 (tb_requests tb) (tb_tx tb) = (None, tx)"
    and tx: "tx_state tx = StatePending" "list_all (tx_op now) (ops tx)"
    using buildOps_good [where envs = envs and now = now and tx = "tb_tx tb" and i = 0 and lg = "TxWalLogger_Log real_log", OF _ assms(3,4)] assms(5) by (auto simp: new_transaction_def)
  obtain err tx' m' l' rs where e: "Transaction_Exec tx ((m, BeginTx l), []) = Some (err, tx', (m', l'), rs)"
    and r: "mux_ready now m'" "err \<noteq> None \<longrightarrow> mux_view now m' = mux_view now m"
    using tx_ops.exec_atomic [OF tx(2,1), where s = "((m, BeginTx l), [])"] assms(2) by (fastforce simp: tx_same_def)
  show ?thesis
    using b e r by (cases err) (auto simp: TxBuilder_Exec_def RollbackTx_def CommitTx_def Let_def)
qed

definition env_still :: env where
  "env_still = env_one\<lparr>env_now := 8, env_later := 8\<rparr>"

lemma tx_atomic_witness:
  "\<exists>rs err tb' m' l'. TxBuilder_Exec (\<lambda>i. (env_still, env_still)) list_log ''tx-1''
      (NewTxBuilder\<lparr>tb_requests := [request ''kv'' ''u'' ''SET'' [quoted ''n'', ''1''], request ''kv'' ''u'' ''GET'' [quoted ''m'']]\<rparr>)
      (mux_one, NewTxWalLogger []) = Some ((rs, err), tb', m', l') \<and>
    mux_ready 8 m' \<and> \<not> tx_active l' \<and> (err = None \<or> mux_view 8 m' = mux_view 8 mux_one)"
proof (rule tx_atomic)
  show "mux_ready 8 mux_one"
    using mux_one_inv kv_one_inv
    by (auto simp: mux_ready_def mux_one_def kv_created_def kv_one_def NewPayload_def NewPayloadMetadata_def NewMultiplexer_def
        split: if_splits)
  show "tx_env_ok 8 (fst (env_still, env_still)) \<and> tx_env_ok 8 (snd (env_still, env_still))"
    using iter_ok_sorted by (simp add: tx_env_ok_def env_still_def env_one_def)
qed (simp_all add: list_log_ok undoable_request_def kv_undoable_def NewTxBuilder_def)

subsection \<open>The methods that are not undone\<close>

text \<open>
  C36.  INCRBY is not undone: the builder knows it by a name that no request has.  A transaction of an INCRBY and a request
  that fails answers an error and logs nothing, but the counter keeps its new value, until a restart brings back the old one.
\<close>

theorem incrby_not_undone:
  assumes "kvEngines m u = Some e" "data e k = Some p" "\<not> IsExpired (metadata p) (env_now (fst (envs 0)))"
    and "ParseInt (pvalue p) = (z, None)" "data e j = None" "DS gone = ''kv''" "UUID gone = u" "Method gone = ''GET''" "Args gone = [jb]"
    and "unmarshalString kb = Some k" "unmarshalInt64 nb = Some n" "unmarshalString jb = Some j"
  shows "\<exists>rs err tb' m' e' l'. TxBuilder_Exec envs real_log txID
      (NewTxBuilder\<lparr>tb_requests := [request ''kv'' u ''INCRBY'' [kb, nb], gone]\<rparr>) (m, l) = Some ((rs, Some err), tb', m', l') \<and>
    tx_real l' = tx_real l \<and> tx_buffer l' = [] \<and> kvEngines m' u = Some e' \<and>
    data e' = (data e)(k \<mapsto> NewPayload (FormatInt (wrap64 (z + n))) (metadata p))"
proof -
  have "j \<noteq> k" using assms(2,5) by auto
  then show ?thesis
    using assms
    by (simp add: TxBuilder_Exec_def NewTxBuilder_def new_transaction_def build_op_def Transaction_Add_def Transaction_Exec_def
        buildKVOp_def GetKV_def kv_undone_def run_queued_def executeKV_def on_kv_def kv_method_def kv_INCRBY_def kv_GET_def
        require_def parsed_def kv_IncrementBy_def kv_incrementByNoLock_def Let_def BeginTx_def ScopedWalLogger_Log_def
        TxWalLogger_Log_def ending_def or_fail_def kv_Get_def kv_Get_read_def no_undo_def RollbackTx_def)
qed

lemma incrby_not_undone_witness:
  "\<exists>rs err tb' m' e' l'. TxBuilder_Exec (\<lambda>i. (env_still, env_still)) list_log ''tx-1''
      (NewTxBuilder\<lparr>tb_requests := [request ''kv'' ''u'' ''INCRBY'' [quoted ''n'', FormatInt 5], request ''kv'' ''u'' ''GET'' [quoted ''m'']]\<rparr>)
      (mux_one, NewTxWalLogger []) = Some ((rs, Some err), tb', m', l') \<and>
    tx_real l' = tx_real (NewTxWalLogger []) \<and> tx_buffer l' = [] \<and> kvEngines m' ''u'' = Some e' \<and>
    data e' = (data kv_one)(''n'' \<mapsto> NewPayload (FormatInt (wrap64 (41 + 5))) (metadata (NewPayload ''41'' (NewPayloadMetadata 7 None))))"
proof (rule incrby_not_undone [where j = "''m''" and jb = "quoted ''m''"])
  have "int64_range 5" by (simp add: int64_range_def)
  then show "unmarshalInt64 (FormatInt 5) = Some 5" by (simp only: unmarshalInt64_def json_to_int_FormatInt option.case)
  show "ParseInt (pvalue (NewPayload ''41'' (NewPayloadMetadata 7 None))) = (41, None)"
    using ParseInt_41 by (simp add: NewPayload_def)
qed (simp_all add: mux_one_def kv_one_def NewPayload_def NewPayloadMetadata_def IsExpired_def expired_def
    unmarshalString_def json_to_string_quoted plain_char_def byte_of_def)

end
