(* ===== verification/Parametric.thy ===== *)
theory Parametric
  imports TxBuilder
begin

text \<open>
  The operations do not look into the state of their logger: run with two loggers in related states they give the same
  answers, the same engines, and related states again.  \<open>W\<close> is the relation; the rules are those of the transfer method.
\<close>

abbreviation logs :: "('w \<Rightarrow> 'x \<Rightarrow> bool) \<Rightarrow> 'w logger \<Rightarrow> 'x logger \<Rightarrow> bool" where
  "logs W \<equiv> rel_fun (=) (rel_fun (=) (rel_fun (=) (rel_fun W (rel_prod (=) W))))"

abbreviation handles ::
  "('w \<Rightarrow> 'x \<Rightarrow> bool) \<Rightarrow> ('e \<times> 'w \<Rightarrow> ('r \<times> 'e \<times> 'w) option) \<Rightarrow> ('e \<times> 'x \<Rightarrow> ('r \<times> 'e \<times> 'x) option) \<Rightarrow> bool" where
  "handles W \<equiv> rel_fun (rel_prod (=) W) (rel_option (rel_prod (=) (rel_prod (=) W)))"

abbreviation updates ::
  "('w \<Rightarrow> 'x \<Rightarrow> bool) \<Rightarrow> ('e \<times> 'w \<Rightarrow> ('e \<times> 'w) option) \<Rightarrow> ('e \<times> 'x \<Rightarrow> ('e \<times> 'x) option) \<Rightarrow> bool" where
  "updates W \<equiv> rel_fun (rel_prod (=) W) (rel_option (rel_prod (=) W))"

lemma rel_bind:
  "rel_option R x y \<Longrightarrow> (\<And>a b. R a b \<Longrightarrow> rel_option S (f a) (g b)) \<Longrightarrow> rel_option S (Option.bind x f) (Option.bind y g)"
  by (cases x; cases y) auto

subsection \<open>Engines\<close>

lemma engine_transfer1 [transfer_rule]:
  "rel_fun (logs W) (rel_fun (=) (rel_fun (=) (handles W))) engine_Delete engine_Delete"
  "rel_fun (logs W) (rel_fun (=) (rel_fun (=) (rel_fun (=) (rel_fun (=) (updates W))))) evict evict"
  unfolding engine_Delete_def evict_def
  by transfer_prover+

lemma delete_loop_transfer [transfer_rule]:
  "rel_fun (logs W) (rel_fun (=) (rel_fun (=) (rel_fun (=) (rel_fun (=) (rel_fun (=) (rel_fun (=) (handles W))))))) delete_loop delete_loop"
proof -
  have "rel_option (rel_prod (=) (rel_prod (=) W)) (delete_loop lg eid xp now p ks count (e, w)) (delete_loop lg' eid xp now p ks count (e, w'))"
    if lg: "logs W lg lg'" and w: "W w w'" for lg lg' eid xp now p ks count e w w'
    using w
  proof (induction ks arbitrary: count e w w')
    case (Cons k ks)
    have "rel_prod (=) W (lg eid ''DELETE'' [PathEscape k] w) (lg' eid ''DELETE'' [PathEscape k] w')"
      using lg Cons.prems by (simp add: rel_fun_def)
    moreover have "rel_option (rel_prod (=) (rel_prod (=) W))
        (Option.bind (deleteNoLock k e) (\<lambda>e'. delete_loop lg eid xp now p ks n (e', v)))
        (Option.bind (deleteNoLock k e) (\<lambda>e'. delete_loop lg' eid xp now p ks n (e', v')))" if "W v v'" for n v v'
      using Cons.IH that by (cases "deleteNoLock k e") auto
    ultimately show ?case using Cons by (auto split: option.splits prod.splits)
  qed simp
  then show ?thesis by (auto simp: rel_fun_def)
qed

lemma sweep_transfer [transfer_rule]:
  "rel_fun (logs W) (rel_fun (=) (rel_fun (=) (rel_fun (=) (rel_fun (=) (updates W))))) sweep sweep"
proof -
  have "rel_option (rel_prod (=) W) (sweep lg eid xp now ks s) (sweep lg' eid xp now ks s')"
    if [transfer_rule]: "logs W lg lg'" and s: "rel_prod (=) W s s'" for lg lg' eid xp now ks s s'
    using s
  proof (induction ks arbitrary: s s')
    case (Cons k ks)
    note [transfer_rule] = Cons.prems
    have "rel_option (rel_prod (=) W) (evict lg eid xp now k s) (evict lg' eid xp now k s')" by transfer_prover
    then show ?case using Cons.IH by (auto intro: rel_bind)
  qed simp
  then show ?thesis by (auto simp: rel_fun_def)
qed

lemma engine_transfer2 [transfer_rule]:
  "rel_fun (logs W) (rel_fun (=) (rel_fun (=) (rel_fun (=) (rel_fun (=) (rel_fun (=) (handles W)))))) sweep_count
    sweep_count"
  "rel_fun (logs W) (rel_fun (=) (rel_fun (=) (rel_fun (=) (rel_fun (=) (rel_fun (=) (rel_fun (=) (handles W)))))))
    sweep_find sweep_find"
  unfolding sweep_count_def sweep_find_def
  by transfer_prover+

lemma kv_transfer1 [transfer_rule]:
  "rel_fun (logs W) (rel_fun (=) (rel_fun (=) (rel_fun (=) (handles W)))) kv_setNoLock kv_setNoLock"
  "rel_fun (logs W) (rel_fun (=) (handles W)) kv_Delete kv_Delete"
  "rel_fun (logs W) (rel_fun (=) (rel_fun (=) (rel_fun (=) (handles W)))) kv_incrementByNoLock kv_incrementByNoLock"
  "rel_fun (logs W) (rel_fun (=) (rel_fun (=) (rel_fun (=) (handles W)))) kv_deleteByPrefixNoLock
    kv_deleteByPrefixNoLock"
  "rel_fun (logs W) (rel_fun (=) (rel_fun (=) (rel_fun (=) (handles W)))) kv_deleteBySuffixNoLock
    kv_deleteBySuffixNoLock"
  "rel_fun (logs W) (rel_fun (=) (rel_fun (=) (rel_fun (=) (handles W)))) kv_deleteByRegexNoLock kv_deleteByRegexNoLock"
  unfolding kv_setNoLock_def kv_Delete_def kv_incrementByNoLock_def kv_deleteByPrefixNoLock_def
    kv_deleteBySuffixNoLock_def kv_deleteByRegexNoLock_def
  by transfer_prover+

lemma kv_deleteExpiredKeys_transfer [transfer_rule]:
  "rel_fun (logs W) (rel_fun (=) (rel_fun (=) (updates W))) kv_deleteExpiredKeys kv_deleteExpiredKeys"
proof -
  have "rel_option (rel_prod (=) W) (kv_deleteExpiredKeys lg now ks (e, w)) (kv_deleteExpiredKeys lg' now ks (e, w'))"
    if lg: "logs W lg lg'" and w: "W w w'" for lg lg' now ks e w w'
    using w
  proof (induction ks arbitrary: e w w')
    case (Cons k ks)
    have "rel_prod (=) W (lg ''kv'' ''DELETE'' [PathEscape k] w) (lg' ''kv'' ''DELETE'' [PathEscape k] w')"
      using lg Cons.prems by (simp add: rel_fun_def)
    moreover have "rel_option (rel_prod (=) W) (Option.bind (deleteNoLock k e) (\<lambda>e'. kv_deleteExpiredKeys lg now ks (e', v)))
        (Option.bind (deleteNoLock k e) (\<lambda>e'. kv_deleteExpiredKeys lg' now ks (e', v')))" if "W v v'" for v v'
      using Cons.IH that by (cases "deleteNoLock k e") auto
    ultimately show ?case using Cons by (auto split: option.splits prod.splits)
  qed simp
  then show ?thesis by (auto simp: rel_fun_def)
qed

lemma kv_transfer2 [transfer_rule]:
  "rel_fun (logs W) (rel_fun (=) (rel_fun (=) (rel_fun (=) (handles W)))) kv_Set kv_Set"
  "rel_fun (logs W) (rel_fun (=) (rel_fun (=) (rel_fun (=) (handles W)))) kv_IncrementBy kv_IncrementBy"
  "rel_fun (logs W) (rel_fun (=) (rel_fun (=) (handles W))) kv_Increment kv_Increment"
  "rel_fun (logs W) (rel_fun (=) (rel_fun (=) (rel_fun (=) (handles W)))) kv_DecrementBy kv_DecrementBy"
  "rel_fun (logs W) (rel_fun (=) (rel_fun (=) (handles W))) kv_Decrement kv_Decrement"
  "rel_fun (logs W) (rel_fun (=) (rel_fun (=) (handles W))) kv_Get kv_Get"
  "rel_fun (logs W) (rel_fun (=) (rel_fun (=) (handles W))) kv_Exists kv_Exists"
  "rel_fun (logs W) (rel_fun (=) (rel_fun (=) (handles W))) kv_Mget kv_Mget"
  "rel_fun (logs W) (rel_fun (=) (rel_fun (=) (rel_fun (=) (handles W)))) kv_count kv_count"
  "rel_fun (logs W) (rel_fun (=) (rel_fun (=) (rel_fun (=) (handles W)))) kv_find kv_find"
  "rel_fun (logs W) (rel_fun (=) (rel_fun (=) (rel_fun (=) (handles W)))) kv_DeleteByPrefix kv_DeleteByPrefix"
  "rel_fun (logs W) (rel_fun (=) (rel_fun (=) (rel_fun (=) (handles W)))) kv_DeleteBySuffix kv_DeleteBySuffix"
  unfolding kv_Set_def kv_IncrementBy_def kv_Increment_def kv_DecrementBy_def kv_Decrement_def kv_Get_def kv_Exists_def
    kv_Mget_def kv_count_def kv_find_def kv_DeleteByPrefix_def kv_DeleteBySuffix_def
  by transfer_prover+

lemma kv_transfer3 [transfer_rule]:
  "rel_fun (=) (rel_fun (logs W) (rel_fun (=) (rel_fun (=) (rel_fun (=) (handles W))))) kv_DeleteByRegex
    kv_DeleteByRegex"
  unfolding kv_DeleteByRegex_def
  by transfer_prover+

lemma kv_msetNoLock_transfer [transfer_rule]:
  "rel_fun (logs W) (rel_fun (=) (handles W)) kv_msetNoLock kv_msetNoLock"
proof -
  have "rel_option (rel_prod (=) (rel_prod (=) W)) (kv_msetNoLock lg kvs s) (kv_msetNoLock lg' kvs s')"
    if [transfer_rule]: "logs W lg lg'" and s: "rel_prod (=) W s s'" for lg lg' kvs s s'
    using s
  proof (induction kvs arbitrary: s s')
    case (Cons x kvs)
    note [transfer_rule] = Cons.prems
    obtain k v where x: "x = (k, v)" by (cases x)
    have "rel_option (rel_prod (=) (rel_prod (=) W)) (kv_setNoLock lg k (pvalue v) (metadata v) s)
        (kv_setNoLock lg' k (pvalue v) (metadata v) s')" by transfer_prover
    then show ?case using Cons.IH by (auto simp: x intro: rel_bind)
  qed simp
  then show ?thesis by (auto simp: rel_fun_def)
qed

lemma kv_msetWithTTL_loop_transfer [transfer_rule]:
  "rel_fun (logs W) (rel_fun (=) (rel_fun (=) (handles W))) kv_msetWithTTL_loop kv_msetWithTTL_loop"
proof -
  have "rel_option (rel_prod (=) (rel_prod (=) W)) (kv_msetWithTTL_loop lg md kvs s) (kv_msetWithTTL_loop lg' md kvs s')"
    if [transfer_rule]: "logs W lg lg'" and s: "rel_prod (=) W s s'" for lg lg' md kvs s s'
    using s
  proof (induction kvs arbitrary: s s')
    case (Cons x kvs)
    note [transfer_rule] = Cons.prems
    obtain k v where x: "x = (k, v)" by (cases x)
    have "rel_option (rel_prod (=) (rel_prod (=) W)) (kv_setNoLock lg k (pvalue v) md s) (kv_setNoLock lg' k (pvalue v) md s')"
      by transfer_prover
    then show ?case using Cons.IH by (auto simp: x intro: rel_bind)
  qed simp
  then show ?thesis by (auto simp: rel_fun_def)
qed

lemma kv_transfer4 [transfer_rule]:
  "rel_fun (logs W) (rel_fun (=) (handles W)) kv_Mset kv_Mset"
  "rel_fun (logs W) (rel_fun (=) (rel_fun (=) (rel_fun (=) (rel_fun (=) (handles W))))) kv_SetWithTTL kv_SetWithTTL"
  "rel_fun (logs W) (rel_fun (=) (rel_fun (=) (rel_fun (=) (handles W)))) kv_msetWithTTLNoLock kv_msetWithTTLNoLock"
  "rel_fun (logs W) (rel_fun (=) (rel_fun (=) (rel_fun (=) (handles W)))) kv_CountByPrefix kv_CountByPrefix"
  "rel_fun (logs W) (rel_fun (=) (rel_fun (=) (rel_fun (=) (handles W)))) kv_CountBySuffix kv_CountBySuffix"
  "rel_fun (=) (rel_fun (logs W) (rel_fun (=) (rel_fun (=) (rel_fun (=) (handles W))))) kv_CountByRegex kv_CountByRegex"
  "rel_fun (logs W) (rel_fun (=) (rel_fun (=) (rel_fun (=) (handles W)))) kv_FindByPrefix kv_FindByPrefix"
  "rel_fun (logs W) (rel_fun (=) (rel_fun (=) (rel_fun (=) (handles W)))) kv_FindBySuffix kv_FindBySuffix"
  "rel_fun (=) (rel_fun (logs W) (rel_fun (=) (rel_fun (=) (rel_fun (=) (handles W))))) kv_FindByRegex kv_FindByRegex"
  unfolding kv_Mset_def kv_SetWithTTL_def kv_msetWithTTLNoLock_def kv_CountByPrefix_def kv_CountBySuffix_def
    kv_CountByRegex_def kv_FindByPrefix_def kv_FindBySuffix_def kv_FindByRegex_def
  by transfer_prover+

lemma kv_transfer5 [transfer_rule]:
  "rel_fun (logs W) (rel_fun (=) (rel_fun (=) (rel_fun (=) (handles W)))) kv_MsetWithTTL kv_MsetWithTTL"
  unfolding kv_MsetWithTTL_def
  by transfer_prover+

lemma list_transfer1 [transfer_rule]:
  "rel_fun (logs W) (rel_fun (=) (rel_fun (=) (rel_fun (=) (rel_fun (=) (rel_fun (=) (handles W)))))) list_pushNoLock
    list_pushNoLock"
  "rel_fun (logs W) (rel_fun (=) (rel_fun (=) (rel_fun (=) (handles W)))) list_popNoLock list_popNoLock"
  "rel_fun (logs W) (rel_fun (=) (rel_fun (=) (rel_fun (=) (rel_fun (=) (rel_fun (=) (handles W)))))) list_Move
    list_Move"
  "rel_fun (logs W) (rel_fun (=) (rel_fun (=) (handles W))) list_read list_read"
  "rel_fun (logs W) (rel_fun (=) (rel_fun (=) (rel_fun (=) (rel_fun (=) (handles W))))) ReplaceAtIndex ReplaceAtIndex"
  "rel_fun (logs W) (rel_fun (=) (rel_fun (=) (rel_fun (=) (rel_fun (=) (rel_fun (=) (handles W)))))) list_Insert
    list_Insert"
  "rel_fun (logs W) (rel_fun (=) (rel_fun (=) (rel_fun (=) (rel_fun (=) (handles W))))) list_Remove list_Remove"
  "rel_fun (logs W) (rel_fun (=) (handles W)) list_Delete list_Delete"
  "rel_fun (logs W) (rel_fun (=) (rel_fun (=) (rel_fun (=) (handles W)))) list_count list_count"
  "rel_fun (logs W) (rel_fun (=) (rel_fun (=) (rel_fun (=) (handles W)))) list_find list_find"
  "rel_fun (logs W) (rel_fun (=) (rel_fun (=) (rel_fun (=) (handles W)))) list_deleteByPrefixNoLock
    list_deleteByPrefixNoLock"
  "rel_fun (logs W) (rel_fun (=) (rel_fun (=) (rel_fun (=) (handles W)))) list_deleteBySuffixNoLock
    list_deleteBySuffixNoLock"
  unfolding list_pushNoLock_def list_popNoLock_def list_Move_def list_read_def ReplaceAtIndex_def list_Insert_def
    list_Remove_def list_Delete_def list_count_def list_find_def list_deleteByPrefixNoLock_def
    list_deleteBySuffixNoLock_def
  by transfer_prover+

lemma list_transfer2 [transfer_rule]:
  "rel_fun (logs W) (rel_fun (=) (rel_fun (=) (rel_fun (=) (handles W)))) list_deleteByRegexNoLock
    list_deleteByRegexNoLock"
  unfolding list_deleteByRegexNoLock_def
  by transfer_prover+

lemma list_transfer3 [transfer_rule]:
  "rel_fun (logs W) (rel_fun (=) (rel_fun (=) (rel_fun (=) (rel_fun (=) (handles W))))) LeftPush LeftPush"
  "rel_fun (logs W) (rel_fun (=) (rel_fun (=) (rel_fun (=) (rel_fun (=) (handles W))))) RightPush RightPush"
  "rel_fun (logs W) (rel_fun (=) (rel_fun (=) (handles W))) LeftPop LeftPop"
  "rel_fun (logs W) (rel_fun (=) (rel_fun (=) (handles W))) RightPop RightPop"
  "rel_fun (logs W) (rel_fun (=) (rel_fun (=) (handles W))) list_Len list_Len"
  "rel_fun (logs W) (rel_fun (=) (rel_fun (=) (rel_fun (=) (rel_fun (=) (handles W))))) list_Range list_Range"
  "rel_fun (logs W) (rel_fun (=) (rel_fun (=) (rel_fun (=) (handles W)))) list_Index list_Index"
  "rel_fun (logs W) (rel_fun (=) (rel_fun (=) (rel_fun (=) (handles W)))) list_Pos list_Pos"
  "rel_fun (logs W) (rel_fun (=) (rel_fun (=) (rel_fun (=) (handles W)))) list_CountByPrefix list_CountByPrefix"
  "rel_fun (logs W) (rel_fun (=) (rel_fun (=) (rel_fun (=) (handles W)))) list_CountBySuffix list_CountBySuffix"
  "rel_fun (=) (rel_fun (logs W) (rel_fun (=) (rel_fun (=) (rel_fun (=) (handles W))))) list_CountByRegex
    list_CountByRegex"
  "rel_fun (logs W) (rel_fun (=) (rel_fun (=) (rel_fun (=) (handles W)))) list_FindByPrefix list_FindByPrefix"
  unfolding LeftPush_def RightPush_def LeftPop_def RightPop_def list_Len_def list_Range_def list_Index_def list_Pos_def
    list_CountByPrefix_def list_CountBySuffix_def list_CountByRegex_def list_FindByPrefix_def
  by transfer_prover+

lemma list_transfer4 [transfer_rule]:
  "rel_fun (logs W) (rel_fun (=) (rel_fun (=) (rel_fun (=) (handles W)))) list_FindBySuffix list_FindBySuffix"
  "rel_fun (=) (rel_fun (logs W) (rel_fun (=) (rel_fun (=) (rel_fun (=) (handles W))))) list_FindByRegex
    list_FindByRegex"
  "rel_fun (logs W) (rel_fun (=) (rel_fun (=) (rel_fun (=) (handles W)))) list_DeleteByPrefix list_DeleteByPrefix"
  "rel_fun (logs W) (rel_fun (=) (rel_fun (=) (rel_fun (=) (handles W)))) list_DeleteBySuffix list_DeleteBySuffix"
  "rel_fun (=) (rel_fun (logs W) (rel_fun (=) (rel_fun (=) (rel_fun (=) (handles W))))) list_DeleteByRegex
    list_DeleteByRegex"
  unfolding list_FindBySuffix_def list_FindByRegex_def list_DeleteByPrefix_def list_DeleteBySuffix_def
    list_DeleteByRegex_def
  by transfer_prover+

lemma list_transfer5 [transfer_rule]:
  "rel_fun (logs W) (rel_fun (=) (rel_fun (=) (handles W))) list_Get list_Get"
  unfolding list_Get_def
  by transfer_prover+

lemma set_transfer1 [transfer_rule]:
  "rel_fun (logs W) (rel_fun (=) (rel_fun (=) (updates W))) set_deleteExpiredKeys set_deleteExpiredKeys"
  "rel_fun (logs W) (rel_fun (=) (rel_fun (=) (rel_fun (=) (rel_fun (=) (handles W))))) SAdd SAdd"
  "rel_fun (logs W) (rel_fun (=) (rel_fun (=) (rel_fun (=) (handles W)))) SRem SRem"
  "rel_fun (logs W) (rel_fun (=) (rel_fun (=) (rel_fun (=) (rel_fun (=) (handles W))))) SPop SPop"
  "rel_fun (logs W) (rel_fun (=) (rel_fun (=) (rel_fun (=) (rel_fun (=) (handles W))))) SMove SMove"
  "rel_fun (logs W) (rel_fun (=) (rel_fun (=) (handles W))) set_read set_read"
  "rel_fun (logs W) (rel_fun (=) (rel_fun (=) (rel_fun (=) (rel_fun (=) (rel_fun (rel_prod (=) W) (rel_prod (=)
    (rel_prod (=) W))))))) set_logged set_logged"
  "rel_fun (logs W) (rel_fun (=) (handles W)) set_Delete set_Delete"
  "rel_fun (logs W) (rel_fun (=) (rel_fun (=) (rel_fun (=) (handles W)))) set_count set_count"
  "rel_fun (logs W) (rel_fun (=) (rel_fun (=) (rel_fun (=) (rel_fun (=) (handles W))))) set_find set_find"
  "rel_fun (logs W) (rel_fun (=) (rel_fun (=) (rel_fun (=) (handles W)))) set_deleteByPrefixNoLock
    set_deleteByPrefixNoLock"
  "rel_fun (logs W) (rel_fun (=) (rel_fun (=) (rel_fun (=) (handles W)))) set_deleteBySuffixNoLock
    set_deleteBySuffixNoLock"
  unfolding set_deleteExpiredKeys_def SAdd_def SRem_def SPop_def SMove_def set_read_def set_logged_def set_Delete_def
    set_count_def set_find_def set_deleteByPrefixNoLock_def set_deleteBySuffixNoLock_def
  by transfer_prover+

lemma set_transfer2 [transfer_rule]:
  "rel_fun (logs W) (rel_fun (=) (rel_fun (=) (rel_fun (=) (handles W)))) set_deleteByRegexNoLock
    set_deleteByRegexNoLock"
  unfolding set_deleteByRegexNoLock_def
  by transfer_prover+

lemma set_transfer3 [transfer_rule]:
  "rel_fun (logs W) (rel_fun (=) (rel_fun (=) (rel_fun (=) (handles W)))) SIsMember SIsMember"
  "rel_fun (logs W) (rel_fun (=) (rel_fun (=) (rel_fun (=) (handles W)))) SMIsMember SMIsMember"
  "rel_fun (logs W) (rel_fun (=) (rel_fun (=) (rel_fun (=) (handles W)))) SMembers SMembers"
  "rel_fun (logs W) (rel_fun (=) (rel_fun (=) (handles W))) SCard SCard"
  "rel_fun (logs W) (rel_fun (=) (rel_fun (=) (rel_fun (=) (rel_fun (=) (rel_fun (=) (handles W)))))) SRandMember
    SRandMember"
  "rel_fun (logs W) (rel_fun (=) (rel_fun (=) (rel_fun (=) (handles W)))) SInter SInter"
  "rel_fun (logs W) (rel_fun (=) (rel_fun (=) (rel_fun (=) (handles W)))) SUnion SUnion"
  "rel_fun (logs W) (rel_fun (=) (rel_fun (=) (rel_fun (=) (handles W)))) SDiff SDiff"
  "rel_fun (logs W) (rel_fun (=) (rel_fun (=) (rel_fun (=) (handles W)))) set_CountByPrefix set_CountByPrefix"
  "rel_fun (logs W) (rel_fun (=) (rel_fun (=) (rel_fun (=) (handles W)))) set_CountBySuffix set_CountBySuffix"
  "rel_fun (=) (rel_fun (logs W) (rel_fun (=) (rel_fun (=) (rel_fun (=) (handles W))))) set_CountByRegex
    set_CountByRegex"
  "rel_fun (logs W) (rel_fun (=) (rel_fun (=) (rel_fun (=) (rel_fun (=) (handles W))))) set_FindByPrefix
    set_FindByPrefix"
  unfolding SIsMember_def SMIsMember_def SMembers_def SCard_def SRandMember_def SInter_def SUnion_def SDiff_def
    set_CountByPrefix_def set_CountBySuffix_def set_CountByRegex_def set_FindByPrefix_def
  by transfer_prover+

lemma set_transfer4 [transfer_rule]:
  "rel_fun (logs W) (rel_fun (=) (rel_fun (=) (rel_fun (=) (rel_fun (=) (handles W))))) set_FindBySuffix
    set_FindBySuffix"
  "rel_fun (=) (rel_fun (logs W) (rel_fun (=) (rel_fun (=) (rel_fun (=) (rel_fun (=) (handles W)))))) set_FindByRegex
    set_FindByRegex"
  "rel_fun (logs W) (rel_fun (=) (rel_fun (=) (rel_fun (=) (handles W)))) set_DeleteByPrefix set_DeleteByPrefix"
  "rel_fun (logs W) (rel_fun (=) (rel_fun (=) (rel_fun (=) (handles W)))) set_DeleteBySuffix set_DeleteBySuffix"
  "rel_fun (=) (rel_fun (logs W) (rel_fun (=) (rel_fun (=) (rel_fun (=) (handles W))))) set_DeleteByRegex
    set_DeleteByRegex"
  unfolding set_FindBySuffix_def set_FindByRegex_def set_DeleteByPrefix_def set_DeleteBySuffix_def
    set_DeleteByRegex_def
  by transfer_prover+

lemma set_transfer5 [transfer_rule]:
  "rel_fun (logs W) (rel_fun (=) (rel_fun (=) (rel_fun (=) (rel_fun (=) (handles W))))) SInterCard SInterCard"
  "rel_fun (logs W) (rel_fun (=) (rel_fun (=) (rel_fun (=) (rel_fun (=) (rel_fun (=) (handles W)))))) SInterStore
    SInterStore"
  "rel_fun (logs W) (rel_fun (=) (rel_fun (=) (rel_fun (=) (rel_fun (=) (rel_fun (=) (handles W)))))) SUnionStore
    SUnionStore"
  "rel_fun (logs W) (rel_fun (=) (rel_fun (=) (rel_fun (=) (rel_fun (=) (rel_fun (=) (handles W)))))) SDiffStore
    SDiffStore"
  unfolding SInterCard_def SInterStore_def SUnionStore_def SDiffStore_def
  by transfer_prover+

lemma zset_transfer1 [transfer_rule]:
  "rel_fun (logs W) (rel_fun (=) (rel_fun (=) (rel_fun (=) (rel_fun (=) (rel_fun (=) (handles W)))))) ZAdd ZAdd"
  "rel_fun (logs W) (rel_fun (=) (rel_fun (=) (rel_fun (=) (handles W)))) ZRem ZRem"
  "rel_fun (logs W) (rel_fun (=) (rel_fun (=) (rel_fun (=) (rel_fun (=) (rel_fun (=) (handles W)))))) ZIncrBy ZIncrBy"
  "rel_fun (=) (rel_fun (=) (rel_fun (=) (rel_fun (logs W) (rel_fun (=) (rel_fun (=) (rel_fun (=) (handles W)))))))
    zset_pop zset_pop"
  "rel_fun (logs W) (rel_fun (=) (rel_fun (=) (handles W))) zset_read zset_read"
  "rel_fun (logs W) (rel_fun (=) (handles W)) zset_Delete zset_Delete"
  "rel_fun (logs W) (rel_fun (=) (rel_fun (=) (rel_fun (=) (handles W)))) zset_count zset_count"
  "rel_fun (logs W) (rel_fun (=) (rel_fun (=) (rel_fun (=) (handles W)))) zset_find zset_find"
  "rel_fun (logs W) (rel_fun (=) (rel_fun (=) (rel_fun (=) (handles W)))) zset_deleteByPrefixNoLock
    zset_deleteByPrefixNoLock"
  "rel_fun (logs W) (rel_fun (=) (rel_fun (=) (rel_fun (=) (handles W)))) zset_deleteBySuffixNoLock
    zset_deleteBySuffixNoLock"
  "rel_fun (logs W) (rel_fun (=) (rel_fun (=) (rel_fun (=) (handles W)))) zset_deleteByRegexNoLock
    zset_deleteByRegexNoLock"
  unfolding ZAdd_def ZRem_def ZIncrBy_def zset_pop_def zset_read_def zset_Delete_def zset_count_def zset_find_def
    zset_deleteByPrefixNoLock_def zset_deleteBySuffixNoLock_def zset_deleteByRegexNoLock_def
  by transfer_prover+

lemma zset_transfer2 [transfer_rule]:
  "rel_fun (logs W) (rel_fun (=) (rel_fun (=) (rel_fun (=) (handles W)))) ZPopMax ZPopMax"
  "rel_fun (logs W) (rel_fun (=) (rel_fun (=) (rel_fun (=) (handles W)))) ZPopMin ZPopMin"
  "rel_fun (logs W) (rel_fun (=) (rel_fun (=) (rel_fun (=) (handles W)))) ZScore ZScore"
  "rel_fun (logs W) (rel_fun (=) (rel_fun (=) (handles W))) ZCard ZCard"
  "rel_fun (logs W) (rel_fun (=) (rel_fun (=) (rel_fun (=) (handles W)))) ZRank ZRank"
  "rel_fun (logs W) (rel_fun (=) (rel_fun (=) (rel_fun (=) (handles W)))) ZRevRank ZRevRank"
  "rel_fun (logs W) (rel_fun (=) (rel_fun (=) (rel_fun (=) (rel_fun (=) (handles W))))) ZCount ZCount"
  "rel_fun (logs W) (rel_fun (=) (rel_fun (=) (rel_fun (=) (rel_fun (=) (handles W))))) ZRange ZRange"
  "rel_fun (logs W) (rel_fun (=) (rel_fun (=) (rel_fun (=) (rel_fun (=) (handles W))))) ZRevRange ZRevRange"
  "rel_fun (logs W) (rel_fun (=) (rel_fun (=) (rel_fun (=) (rel_fun (=) (rel_fun (=) (rel_fun (=) (handles W)))))))
    ZRangeByScore ZRangeByScore"
  "rel_fun (logs W) (rel_fun (=) (rel_fun (=) (rel_fun (=) (rel_fun (=) (rel_fun (=) (rel_fun (=) (handles W)))))))
    ZRevRangeByScore ZRevRangeByScore"
  "rel_fun (logs W) (rel_fun (=) (rel_fun (=) (rel_fun (=) (handles W)))) zset_CountByPrefix zset_CountByPrefix"
  unfolding ZPopMax_def ZPopMin_def ZScore_def ZCard_def ZRank_def ZRevRank_def ZCount_def ZRange_def ZRevRange_def
    ZRangeByScore_def ZRevRangeByScore_def zset_CountByPrefix_def
  by transfer_prover+

lemma zset_transfer3 [transfer_rule]:
  "rel_fun (logs W) (rel_fun (=) (rel_fun (=) (rel_fun (=) (handles W)))) zset_CountBySuffix zset_CountBySuffix"
  "rel_fun (=) (rel_fun (logs W) (rel_fun (=) (rel_fun (=) (rel_fun (=) (handles W))))) zset_CountByRegex
    zset_CountByRegex"
  "rel_fun (logs W) (rel_fun (=) (rel_fun (=) (rel_fun (=) (handles W)))) zset_FindByPrefix zset_FindByPrefix"
  "rel_fun (logs W) (rel_fun (=) (rel_fun (=) (rel_fun (=) (handles W)))) zset_FindBySuffix zset_FindBySuffix"
  "rel_fun (=) (rel_fun (logs W) (rel_fun (=) (rel_fun (=) (rel_fun (=) (handles W))))) zset_FindByRegex
    zset_FindByRegex"
  "rel_fun (logs W) (rel_fun (=) (rel_fun (=) (rel_fun (=) (handles W)))) zset_DeleteByPrefix zset_DeleteByPrefix"
  "rel_fun (logs W) (rel_fun (=) (rel_fun (=) (rel_fun (=) (handles W)))) zset_DeleteBySuffix zset_DeleteBySuffix"
  "rel_fun (=) (rel_fun (logs W) (rel_fun (=) (rel_fun (=) (rel_fun (=) (handles W))))) zset_DeleteByRegex
    zset_DeleteByRegex"
  unfolding zset_CountBySuffix_def zset_CountByRegex_def zset_FindByPrefix_def zset_FindBySuffix_def
    zset_FindByRegex_def zset_DeleteByPrefix_def zset_DeleteBySuffix_def zset_DeleteByRegex_def
  by transfer_prover+

end
