(* ===== verification/ParametricTx.thy ===== *)
theory ParametricTx
  imports Parametric
begin

text \<open>
  The same for the requests and for the operations of a transaction: \<open>W\<close> relates the states of the loggers.
\<close>

abbreviation requests ::
  "('w \<Rightarrow> 'x \<Rightarrow> bool) \<Rightarrow> (env \<Rightarrow> 'w logger \<Rightarrow> 'a \<Rightarrow> 'e \<times> 'w \<Rightarrow> ('r \<times> 'e \<times> 'w) option) \<Rightarrow>
   (env \<Rightarrow> 'x logger \<Rightarrow> 'a \<Rightarrow> 'e \<times> 'x \<Rightarrow> ('r \<times> 'e \<times> 'x) option) \<Rightarrow> bool" where
  "requests W \<equiv> rel_fun (=) (rel_fun (logs W) (rel_fun (=) (handles W)))"

abbreviation tx_states :: "('w \<Rightarrow> 'x \<Rightarrow> bool) \<Rightarrow> 'w tx_state \<Rightarrow> 'x tx_state \<Rightarrow> bool" where
  "tx_states W \<equiv> rel_prod (rel_prod (=) W) (=)"

abbreviation undoes :: "('s \<Rightarrow> 't \<Rightarrow> bool) \<Rightarrow> 's undo \<Rightarrow> 't undo \<Rightarrow> bool" where
  "undoes S \<equiv> rel_fun S (rel_option (rel_prod (=) S))"

abbreviation opers :: "('s \<Rightarrow> 't \<Rightarrow> bool) \<Rightarrow> 's Op \<Rightarrow> 't Op \<Rightarrow> bool" where
  "opers S \<equiv> rel_fun S (rel_option (rel_prod (rel_prod (undoes S) (=)) S))"

subsection \<open>Requests\<close>

lemma ScopedWalLogger_Log_transfer [transfer_rule]:
  "rel_fun (logs W) (rel_fun (=) (logs W)) ScopedWalLogger_Log ScopedWalLogger_Log"
  unfolding ScopedWalLogger_Log_def by transfer_prover

lemma ending_transfer [transfer_rule]:
  "rel_fun (=) (rel_fun (rel_option (rel_prod (=) S)) (rel_option (rel_prod (=) S))) ending ending"
  unfolding ending_def by transfer_prover

lemma mux_transfer1 [transfer_rule]:
  "rel_fun (=) (rel_fun (=) (rel_fun (handles W) (handles W))) on_kv on_kv"
  "rel_fun (=) (rel_fun (=) (rel_fun (handles W) (handles W))) on_list on_list"
  "rel_fun (=) (rel_fun (=) (rel_fun (handles W) (handles W))) on_set on_set"
  "rel_fun (=) (rel_fun (=) (rel_fun (handles W) (handles W))) on_zset on_zset"
  unfolding on_kv_def on_list_def on_set_def on_zset_def
  by transfer_prover+

lemma router_transfer1 [transfer_rule]:
  "rel_fun (=) (handles W) respond respond"
  unfolding respond_def
  by transfer_prover+

lemma router_transfer2 [transfer_rule]:
  "rel_fun (=) (rel_fun (=) (rel_fun (handles W) (handles W))) require require"
  "rel_fun (=) (rel_fun (=) (rel_fun (rel_fun (=) (handles W)) (handles W))) parsed parsed"
  unfolding require_def parsed_def
  by transfer_prover+

lemma kv_requests_transfer1 [transfer_rule]:
  "requests W kv_SET kv_SET"
  "requests W kv_SET_TTL kv_SET_TTL"
  "requests W kv_GET kv_GET"
  "requests W kv_DEL kv_DEL"
  "requests W kv_EXISTS kv_EXISTS"
  "requests W kv_INCR kv_INCR"
  "requests W kv_DECR kv_DECR"
  "requests W kv_INCRBY kv_INCRBY"
  "requests W kv_DECRBY kv_DECRBY"
  "requests W kv_MGET kv_MGET"
  "requests W kv_MSET kv_MSET"
  "requests W kv_MSET_TTL kv_MSET_TTL"
  unfolding kv_SET_def kv_SET_TTL_def kv_GET_def kv_DEL_def kv_EXISTS_def kv_INCR_def kv_DECR_def kv_INCRBY_def
    kv_DECRBY_def kv_MGET_def kv_MSET_def kv_MSET_TTL_def
  by transfer_prover+

lemma kv_requests_transfer2 [transfer_rule]:
  "requests W kv_COUNT_PREFIX kv_COUNT_PREFIX"
  "requests W kv_FIND_PREFIX kv_FIND_PREFIX"
  "requests W kv_DEL_PREFIX kv_DEL_PREFIX"
  "requests W kv_COUNT_SUFFIX kv_COUNT_SUFFIX"
  "requests W kv_FIND_SUFFIX kv_FIND_SUFFIX"
  "requests W kv_DEL_SUFFIX kv_DEL_SUFFIX"
  "requests W kv_COUNT_REGEX kv_COUNT_REGEX"
  "requests W kv_FIND_REGEX kv_FIND_REGEX"
  "requests W kv_DEL_REGEX kv_DEL_REGEX"
  unfolding kv_COUNT_PREFIX_def kv_FIND_PREFIX_def kv_DEL_PREFIX_def kv_COUNT_SUFFIX_def kv_FIND_SUFFIX_def
    kv_DEL_SUFFIX_def kv_COUNT_REGEX_def kv_FIND_REGEX_def kv_DEL_REGEX_def
  by transfer_prover+

lemma kv_requests_transfer3 [transfer_rule]:
  "rel_fun (=) (rel_fun (logs W) (rel_fun (=) (rel_fun (=) (handles W)))) kv_method kv_method"
  unfolding kv_method_def
  by transfer_prover+

lemma kv_requests_transfer4 [transfer_rule]:
  "requests W executeKV executeKV"
  unfolding executeKV_def
  by transfer_prover+

lemma list_requests_transfer1 [transfer_rule]:
  "requests W list_LPUSH list_LPUSH"
  "requests W list_RPUSH list_RPUSH"
  "requests W list_LPOP list_LPOP"
  "requests W list_RPOP list_RPOP"
  "requests W list_LLEN list_LLEN"
  "requests W list_LRANGE list_LRANGE"
  "requests W list_LINDEX list_LINDEX"
  "requests W list_LSET list_LSET"
  "requests W list_LINSERT list_LINSERT"
  "requests W list_LREM list_LREM"
  "requests W list_LPOS list_LPOS"
  "requests W list_RPOPLPUSH list_RPOPLPUSH"
  unfolding list_LPUSH_def list_RPUSH_def list_LPOP_def list_RPOP_def list_LLEN_def list_LRANGE_def list_LINDEX_def
    list_LSET_def list_LINSERT_def list_LREM_def list_LPOS_def list_RPOPLPUSH_def
  by transfer_prover+

lemma list_requests_transfer2 [transfer_rule]:
  "requests W list_LGET list_LGET"
  "requests W list_DEL list_DEL"
  "requests W list_COUNT_PREFIX list_COUNT_PREFIX"
  "requests W list_FIND_PREFIX list_FIND_PREFIX"
  "requests W list_DEL_PREFIX list_DEL_PREFIX"
  "requests W list_COUNT_SUFFIX list_COUNT_SUFFIX"
  "requests W list_FIND_SUFFIX list_FIND_SUFFIX"
  "requests W list_DEL_SUFFIX list_DEL_SUFFIX"
  "requests W list_COUNT_REGEX list_COUNT_REGEX"
  "requests W list_FIND_REGEX list_FIND_REGEX"
  "requests W list_DEL_REGEX list_DEL_REGEX"
  unfolding list_LGET_def list_DEL_def list_COUNT_PREFIX_def list_FIND_PREFIX_def list_DEL_PREFIX_def
    list_COUNT_SUFFIX_def list_FIND_SUFFIX_def list_DEL_SUFFIX_def list_COUNT_REGEX_def list_FIND_REGEX_def
    list_DEL_REGEX_def
  by transfer_prover+

lemma list_requests_transfer3 [transfer_rule]:
  "rel_fun (=) (rel_fun (logs W) (rel_fun (=) (rel_fun (=) (handles W)))) list_method list_method"
  unfolding list_method_def
  by transfer_prover+

lemma list_requests_transfer4 [transfer_rule]:
  "requests W executeList executeList"
  unfolding executeList_def
  by transfer_prover+

lemma set_requests_transfer1 [transfer_rule]:
  "requests W set_SADD set_SADD"
  "requests W set_SREM set_SREM"
  "requests W set_SPOP set_SPOP"
  "requests W set_SMOVE set_SMOVE"
  "requests W set_SISMEMBER set_SISMEMBER"
  "requests W set_SMISMEMBER set_SMISMEMBER"
  "requests W set_SMEMBERS set_SMEMBERS"
  "requests W set_SCARD set_SCARD"
  "requests W set_SRANDMEMBER set_SRANDMEMBER"
  "requests W set_SINTER set_SINTER"
  "requests W set_SINTERSTORE set_SINTERSTORE"
  "requests W set_SUNION set_SUNION"
  unfolding set_SADD_def set_SREM_def set_SPOP_def set_SMOVE_def set_SISMEMBER_def set_SMISMEMBER_def set_SMEMBERS_def
    set_SCARD_def set_SRANDMEMBER_def set_SINTER_def set_SINTERSTORE_def set_SUNION_def
  by transfer_prover+

lemma set_requests_transfer2 [transfer_rule]:
  "requests W set_SUNIONSTORE set_SUNIONSTORE"
  "requests W set_SDIFF set_SDIFF"
  "requests W set_SDIFFSTORE set_SDIFFSTORE"
  "requests W set_SINTERCARD set_SINTERCARD"
  "requests W set_COUNT_PREFIX set_COUNT_PREFIX"
  "requests W set_FIND_PREFIX set_FIND_PREFIX"
  "requests W set_DEL_PREFIX set_DEL_PREFIX"
  "requests W set_COUNT_SUFFIX set_COUNT_SUFFIX"
  "requests W set_FIND_SUFFIX set_FIND_SUFFIX"
  "requests W set_DEL_SUFFIX set_DEL_SUFFIX"
  "requests W set_COUNT_REGEX set_COUNT_REGEX"
  "requests W set_FIND_REGEX set_FIND_REGEX"
  unfolding set_SUNIONSTORE_def set_SDIFF_def set_SDIFFSTORE_def set_SINTERCARD_def set_COUNT_PREFIX_def
    set_FIND_PREFIX_def set_DEL_PREFIX_def set_COUNT_SUFFIX_def set_FIND_SUFFIX_def set_DEL_SUFFIX_def
    set_COUNT_REGEX_def set_FIND_REGEX_def
  by transfer_prover+

lemma set_requests_transfer3 [transfer_rule]:
  "requests W set_DEL_REGEX set_DEL_REGEX"
  "requests W set_DEL set_DEL"
  unfolding set_DEL_REGEX_def set_DEL_def
  by transfer_prover+

lemma set_requests_transfer4 [transfer_rule]:
  "rel_fun (=) (rel_fun (logs W) (rel_fun (=) (rel_fun (=) (handles W)))) set_method set_method"
  unfolding set_method_def
  by transfer_prover+

lemma set_requests_transfer5 [transfer_rule]:
  "requests W executeSet executeSet"
  unfolding executeSet_def
  by transfer_prover+

lemma zset_requests_transfer1 [transfer_rule]:
  "requests W zset_ZADD zset_ZADD"
  "requests W zset_ZREM zset_ZREM"
  "requests W zset_ZINCRBY zset_ZINCRBY"
  "requests W zset_ZPOPMAX zset_ZPOPMAX"
  "requests W zset_ZPOPMIN zset_ZPOPMIN"
  "requests W zset_ZSCORE zset_ZSCORE"
  "requests W zset_ZCARD zset_ZCARD"
  "requests W zset_ZRANK zset_ZRANK"
  "requests W zset_ZREVRANK zset_ZREVRANK"
  "requests W zset_ZCOUNT zset_ZCOUNT"
  "requests W zset_ZRANGE zset_ZRANGE"
  "requests W zset_ZREVRANGE zset_ZREVRANGE"
  unfolding zset_ZADD_def zset_ZREM_def zset_ZINCRBY_def zset_ZPOPMAX_def zset_ZPOPMIN_def zset_ZSCORE_def
    zset_ZCARD_def zset_ZRANK_def zset_ZREVRANK_def zset_ZCOUNT_def zset_ZRANGE_def zset_ZREVRANGE_def
  by
    transfer_prover+

lemma zset_requests_transfer2 [transfer_rule]:
  "requests W zset_ZRANGEBYSCORE zset_ZRANGEBYSCORE"
  "requests W zset_ZREVRANGEBYSCORE zset_ZREVRANGEBYSCORE"
  "requests W zset_COUNT_PREFIX zset_COUNT_PREFIX"
  "requests W zset_FIND_PREFIX zset_FIND_PREFIX"
  "requests W zset_DEL_PREFIX zset_DEL_PREFIX"
  "requests W zset_COUNT_SUFFIX zset_COUNT_SUFFIX"
  "requests W zset_FIND_SUFFIX zset_FIND_SUFFIX"
  "requests W zset_DEL_SUFFIX zset_DEL_SUFFIX"
  "requests W zset_COUNT_REGEX zset_COUNT_REGEX"
  "requests W zset_FIND_REGEX zset_FIND_REGEX"
  "requests W zset_DEL_REGEX zset_DEL_REGEX"
  "requests W zset_DEL zset_DEL"
  unfolding zset_ZRANGEBYSCORE_def zset_ZREVRANGEBYSCORE_def zset_COUNT_PREFIX_def zset_FIND_PREFIX_def
    zset_DEL_PREFIX_def zset_COUNT_SUFFIX_def zset_FIND_SUFFIX_def zset_DEL_SUFFIX_def zset_COUNT_REGEX_def
    zset_FIND_REGEX_def zset_DEL_REGEX_def zset_DEL_def
  by transfer_prover+

lemma zset_requests_transfer3 [transfer_rule]:
  "rel_fun (=) (rel_fun (logs W) (rel_fun (=) (rel_fun (=) (handles W)))) zset_method zset_method"
  unfolding zset_method_def
  by transfer_prover+

lemma zset_requests_transfer4 [transfer_rule]:
  "requests W executeZSet executeZSet"
  unfolding executeZSet_def
  by transfer_prover+

subsection \<open>Operations of a transaction\<close>

lemma builder_transfer1 [transfer_rule]:
  "rel_fun (handles W) (undoes (tx_states W)) answering answering"
  "undoes (tx_states W) no_undo no_undo"
  "undoes (tx_states W) nil_undo nil_undo"
  "rel_fun (=) (rel_fun (undoes (tx_states W)) (rel_fun (rel_option (rel_prod (=) (rel_prod (=) W))) (rel_fun (=)
    (rel_option (rel_prod (rel_prod (undoes (tx_states W)) (=)) (tx_states W)))))) run_queued run_queued"
  "rel_fun (logs W) (rel_fun (=) (rel_fun (=) (rel_fun (=) (handles W)))) kv_restore kv_restore"
  "rel_fun (logs W) (rel_fun (=) (rel_fun (=) (rel_fun (=) (handles W)))) list_restore list_restore"
  "rel_fun (logs W) (rel_fun (=) (rel_fun (=) (rel_fun (=) (handles W)))) set_restore set_restore"
  "rel_fun (logs W) (rel_fun (=) (rel_fun (=) (rel_fun (=) (rel_fun (=) (handles W))))) zset_restore zset_restore"
  unfolding answering_def no_undo_def nil_undo_def run_queued_def kv_restore_def list_restore_def set_restore_def
    zset_restore_def
  by transfer_prover+

lemma builder_transfer2 [transfer_rule]:
  "rel_fun (=) (rel_fun (logs W) (rel_fun (=) (rel_fun (=) (rel_fun (=) (undoes (tx_states W)))))) kv_undo kv_undo"
  "rel_fun (=) (rel_fun (logs W) (rel_fun (=) (rel_fun (=) (rel_fun (=) (undoes (tx_states W)))))) list_undo list_undo"
  "rel_fun (=) (rel_fun (logs W) (rel_fun (=) (rel_fun (=) (rel_fun (=) (undoes (tx_states W)))))) set_undo set_undo"
  "rel_fun (=) (rel_fun (logs W) (rel_fun (=) (rel_fun (=) (rel_fun (=) (undoes (tx_states W)))))) zset_undo zset_undo"
  unfolding kv_undo_def list_undo_def set_undo_def zset_undo_def
  by transfer_prover+

lemma builder_transfer3 [transfer_rule]:
  "rel_fun (=) (rel_fun (=) (rel_fun (logs W) (rel_fun (=) (opers (tx_states W))))) buildKVOp buildKVOp"
  "rel_fun (=) (rel_fun (=) (rel_fun (logs W) (rel_fun (=) (opers (tx_states W))))) buildListOp buildListOp"
  "rel_fun (=) (rel_fun (=) (rel_fun (logs W) (rel_fun (=) (opers (tx_states W))))) buildSetOp buildSetOp"
  "rel_fun (=) (rel_fun (=) (rel_fun (logs W) (rel_fun (=) (opers (tx_states W))))) buildZSetOp buildZSetOp"
  unfolding buildKVOp_def buildListOp_def buildSetOp_def buildZSetOp_def
  by transfer_prover+

end
