(* ===== verification/TxLog.thy ===== *)
theory TxLog
  imports ParametricTx RouterProps
begin

text \<open>
  The log of a transaction: the logger of the transactions holds back exactly the entries that the same operations write into a
  list, so a commit appends them as one block and a rollback appends nothing.
\<close>

subsection \<open>The loops of a transaction do not look into the state\<close>

lemma rollback_transfer [transfer_rule]:
  "rel_fun (list_all2 (undoes S)) (rel_fun S (rel_option S)) rollback rollback"
proof -
  have "rel_option S (rollback us s) (rollback us' s')" if "list_all2 (undoes S) us us'" "S s s'" for us us' s s'
    using that
  proof (induction arbitrary: s s' rule: list_all2_induct)
    case (Cons u us u' us')
    then have "rel_option (rel_prod (=) S) (u s) (u' s')" by (simp add: rel_fun_def)
    then show ?case using Cons.IH by (auto intro: rel_bind)
  qed simp
  then show ?thesis by (simp add: rel_fun_def)
qed

lemma exec_loop_transfer:
  "list_all2 (opers S) os os' \<Longrightarrow> list_all2 (undoes S) us us' \<Longrightarrow> S s s' \<Longrightarrow>
   rel_option (rel_prod (=) S) (exec_loop i os us s) (exec_loop i os' us' s')"
proof (induction arbitrary: i us us' s s' rule: list_all2_induct)
  case (Cons oper os oper' os')
  have step: "rel_option (rel_prod (rel_prod (undoes S) (=)) S) (oper s) (oper' s')" using Cons by (simp add: rel_fun_def)
  have "rel_option (rel_prod (=) S)
      (case err of Some e \<Rightarrow> map_option (\<lambda>s''. (Some (WrappedError msg e), s'')) (rollback us t) | None \<Rightarrow> exec_loop (Suc i) os (u # us) t)
      (case err of Some e \<Rightarrow> map_option (\<lambda>s''. (Some (WrappedError msg e), s'')) (rollback us' t') | None \<Rightarrow> exec_loop (Suc i) os' (u' # us') t')"
    if "undoes S u u'" "S t t'" for u u' err t t' msg
  proof (cases err)
    case None
    then show ?thesis using Cons.IH [where us = "u # us" and us' = "u' # us'"] Cons.prems that by simp
  next
    case (Some e)
    have "rel_option S (rollback us t) (rollback us' t')" by (rule rel_funD [OF rel_funD [OF rollback_transfer Cons.prems(1)] that(2)])
    then show ?thesis using Some by (cases "rollback us t"; cases "rollback us' t'") auto
  qed
  with step show ?case by (auto intro!: rel_bind)
qed simp

definition same_tx :: "('s \<Rightarrow> 't \<Rightarrow> bool) \<Rightarrow> 's Transaction \<Rightarrow> 't Transaction \<Rightarrow> bool" where
  "same_tx S tx tx' \<longleftrightarrow> list_all2 (opers S) (ops tx) (ops tx') \<and> tx_state tx = tx_state tx'"

lemma buildOps_same:
  assumes "logs W lg lg'"
  shows "same_tx (tx_states W) tx tx' \<Longrightarrow>
    rel_prod (=) (same_tx (tx_states W)) (buildOps envs lg i reqs tx) (buildOps envs lg' i reqs tx')"
proof (induction reqs arbitrary: i tx tx')
  case (Cons req reqs)
  note [transfer_rule] = assms
  have "rel_option (opers (tx_states W)) (build_op (envs i) lg req) (build_op (envs i) lg' req)"
    unfolding build_op_def by transfer_prover
  then show ?case
    using Cons
    by (cases "build_op (envs i) lg req"; cases "build_op (envs i) lg' req")
      (auto simp: Transaction_Add_def same_tx_def list_all2_appendI)
qed simp

lemma Transaction_Exec_same:
  assumes "same_tx S tx tx'" "S s s'"
  shows "rel_option (rel_prod (=) (rel_prod (same_tx S) S)) (Transaction_Exec tx s) (Transaction_Exec tx' s')"
proof -
  have "rel_option (rel_prod (=) S) (exec_loop 0 (ops tx) [] s) (exec_loop 0 (ops tx') [] s')"
    using assms by (intro exec_loop_transfer) (auto simp: same_tx_def)
  then show ?thesis
    using assms by (cases "exec_loop 0 (ops tx) [] s"; cases "exec_loop 0 (ops tx') [] s'") (auto simp: Transaction_Exec_def same_tx_def)
qed

subsection \<open>Holding back is writing into a list\<close>

definition held :: "'w \<Rightarrow> 'w TxWalLogger \<Rightarrow> wal_entry list \<Rightarrow> bool" where
  "held r l es \<longleftrightarrow> tx_active l \<and> tx_real l = r \<and> tx_buffer l = es"

lemma logs_held: "logs (held r) (TxWalLogger_Log real_log) list_log"
  by (auto simp: rel_fun_def held_def TxWalLogger_Log_def list_log_def)

text \<open>The operations of the requests, run with a list for a log.\<close>

definition listed_run ::
  "(nat \<Rightarrow> env \<times> env) \<Rightarrow> Request list \<Rightarrow> Multiplexer \<Rightarrow> (goerr option \<times> Multiplexer \<times> wal_entry list \<times> Response list) option" where
  "listed_run envs reqs m =
     (case buildOps envs list_log 0 reqs new_transaction of
        (Some err, tx) \<Rightarrow> Some (Some err, m, [], [])
      | (None, tx) \<Rightarrow> map_option (\<lambda>(err, tx', (m', es), rs). (err, m', es, rs)) (Transaction_Exec tx ((m, []), [])))"

definition tx_block :: "'w logger \<Rightarrow> string \<Rightarrow> wal_entry list \<Rightarrow> 'w \<Rightarrow> 'w" where
  "tx_block real_log txID es w = log_all real_log ((''tx'', ''TX_BEGIN'', [txID]) # es @ [(''tx'', ''TX_COMMIT'', [txID])]) w"

lemma log_all_append: "log_all lg (xs @ ys) w = log_all lg ys (log_all lg xs w)"
  by (induction lg xs w rule: log_all.induct) simp_all

text \<open>
  C38.  Whatever requests a transaction holds and whatever the engines and the log do, its answers and its effect on the instances
  are those of its operations run with a list for a log.  When it fails nothing is logged; when it commits the log gets one
  block, the entries of that list between TX_BEGIN and TX_COMMIT.
\<close>

theorem tx_logs_one_block:
  assumes "tb_tx tb = new_transaction" "\<not> tx_active l"
  shows "map_option (\<lambda>((rs, err), tb', m', l'). (rs, err, m', l'\<lparr>tx_buffer := []\<rparr>)) (TxBuilder_Exec envs real_log txID tb (m, l)) =
    map_option (\<lambda>(err, m', es, rs). (rs, err, m', l\<lparr>tx_buffer := [],
        tx_real := if err = None then tx_block real_log txID es (tx_real l) else tx_real l\<rparr>))
      (listed_run envs (tb_requests tb) m)"
proof -
  let ?S = "tx_states (held (tx_real l))"
  obtain e1 tx e2 tx' where b: "buildOps envs (TxWalLogger_Log real_log) 0 (tb_requests tb) new_transaction = (e1, tx)"
    "buildOps envs list_log 0 (tb_requests tb) new_transaction = (e2, tx')" by fastforce
  have "same_tx ?S new_transaction new_transaction" by (simp add: same_tx_def new_transaction_def)
  from buildOps_same [where envs = envs and i = 0 and reqs = "tb_requests tb", OF logs_held [where real_log = real_log] this] b
  have same: "e2 = e1" "same_tx ?S tx tx'" by simp_all
  have "?S ((m, BeginTx l), []) ((m, []), [])" by (simp add: held_def BeginTx_def)
  from Transaction_Exec_same [OF same(2) this]
  have "rel_option (rel_prod (=) (rel_prod (same_tx ?S) ?S)) (Transaction_Exec tx ((m, BeginTx l), [])) (Transaction_Exec tx' ((m, []), []))" .
  then show ?thesis
    using b same(1) assms
    by (cases "Transaction_Exec tx ((m, BeginTx l), [])"; cases "Transaction_Exec tx' ((m, []), [])"; cases e1)
      (auto simp: TxBuilder_Exec_def listed_run_def held_def CommitTx_def RollbackTx_def tx_block_def log_all_append Let_def
        split: option.splits)
qed

definition tx_two :: "wal_entry list TxWalLogger TxBuilder" where
  "tx_two = NewTxBuilder\<lparr>tb_requests :=
     [request ''kv'' ''u'' ''SET'' [quoted ''n'', ''1''], request ''set'' ''v'' ''SMEMBERS'' [quoted ''s'']]\<rparr>"

definition one_entry :: "wal_entry list TxWalLogger" where
  "one_entry = NewTxWalLogger [(''kv'', ''DELETE'', [''k''])]"

lemma tx_logs_one_block_witness:
  "map_option (\<lambda>((rs, err), tb', m', l'). (rs, err, m', l'\<lparr>tx_buffer := []\<rparr>))
      (TxBuilder_Exec (\<lambda>i. (env_one, env_one)) list_log ''tx-1'' tx_two (mux_one, one_entry)) =
    map_option (\<lambda>(err, m', es, rs). (rs, err, m', one_entry\<lparr>tx_buffer := [],
        tx_real := if err = None then tx_block list_log ''tx-1'' es (tx_real one_entry) else tx_real one_entry\<rparr>))
      (listed_run (\<lambda>i. (env_one, env_one)) (tb_requests tx_two) mux_one)"
  by (rule tx_logs_one_block) (simp_all add: tx_two_def one_entry_def NewTxBuilder_def NewTxWalLogger_def)

end
