(* ===== verification/GoDuration.thy ===== *)
theory GoDuration
  imports GoFloatText
begin

text \<open>
  \<open>time.ParseDuration\<close>: a sign and a sequence of decimal numbers with a unit, as nanoseconds.  \<^term>\<open>None\<close> is its
  error, with which it returns zero.  A fraction is computed in \<open>float64\<close>, as the product and quotient of magnitudes of
  positive numbers.
\<close>

subsection \<open>Products and quotients of positive numbers\<close>

definition mag_units :: "nat \<Rightarrow> nat" where
  "mag_units m = (let e = m div 2 ^ 52; f = m mod 2 ^ 52 in if e = 0 then f else (f + 2 ^ 52) * 2 ^ (e - 1))"

definition nat_mag :: "nat \<Rightarrow> nat" where
  "nat_mag n = round_ratio (n * 2 ^ 1074) 1"

definition mul_mag :: "nat \<Rightarrow> nat \<Rightarrow> nat" where
  "mul_mag a b = (if a = inf_mag \<or> b = inf_mag then inf_mag else round_ratio (mag_units a * mag_units b) (2 ^ 1074))"

definition div_mag :: "nat \<Rightarrow> nat \<Rightarrow> nat" where
  "div_mag a b = (if b = inf_mag then 0 else round_ratio (mag_units a * 2 ^ 1074) (mag_units b))"

text \<open>\<open>uint64(float64(f) * (float64(unit) / scale))\<close>.\<close>

definition fraction_of :: "nat \<Rightarrow> nat \<Rightarrow> nat \<Rightarrow> nat" where
  "fraction_of f unit_ns scale = mag_units (mul_mag (nat_mag f) (div_mag (nat_mag unit_ns) scale)) div 2 ^ 1074 mod 2 ^ 64"

subsection \<open>The parts\<close>

text \<open>The digits before the point; \<^term>\<open>None\<close> when they exceed \<open>2 ^ 63\<close>.\<close>

fun leadingInt :: "nat \<Rightarrow> string \<Rightarrow> (nat \<times> string) option" where
  "leadingInt x [] = Some (x, [])"
| "leadingInt x (c # cs) =
     (case char_digit c of
        None \<Rightarrow> Some (x, c # cs)
      | Some d \<Rightarrow> if 2 ^ 63 div 10 < x \<or> 2 ^ 63 < x * 10 + d then None else leadingInt (x * 10 + d) cs)"

text \<open>The digits behind it: digits beyond the range are passed over.\<close>

fun leadingFraction :: "bool \<Rightarrow> nat \<Rightarrow> nat \<Rightarrow> string \<Rightarrow> nat \<times> nat \<times> string" where
  "leadingFraction overflow x scale [] = (x, scale, [])"
| "leadingFraction overflow x scale (c # cs) =
     (case char_digit c of
        None \<Rightarrow> (x, scale, c # cs)
      | Some d \<Rightarrow>
          if overflow \<or> (2 ^ 63 - 1) div 10 < x \<or> 2 ^ 63 < x * 10 + d then leadingFraction True x scale cs
          else leadingFraction False (x * 10 + d) (mul_mag scale (nat_mag 10)) cs)"

definition unitMap :: "string \<Rightarrow> nat option" where
  "unitMap u =
     (if u = ''ns'' then Some 1
      else if u = ''us'' \<or> u = [CHR 0xC2, CHR 0xB5, CHR ''s''] \<or> u = [CHR 0xCE, CHR 0xBC, CHR ''s''] then Some (10 ^ 3)
      else if u = ''ms'' then Some (10 ^ 6)
      else if u = ''s'' then Some (10 ^ 9)
      else if u = ''m'' then Some (60 * 10 ^ 9)
      else if u = ''h'' then Some (3600 * 10 ^ 9)
      else None)"

definition number_char :: "char \<Rightarrow> bool" where
  "number_char c \<longleftrightarrow> c = CHR ''.'' \<or> char_digit c \<noteq> None"

definition fraction_part :: "string \<Rightarrow> nat \<times> nat \<times> string" where
  "fraction_part s = (case s of c # cs \<Rightarrow> if c = CHR ''.'' then leadingFraction False 0 (nat_mag 1) cs else (0, nat_mag 1, s)
     | [] \<Rightarrow> (0, nat_mag 1, s))"

text \<open>One number with its unit, in nanoseconds, and what follows it.\<close>

definition duration_part :: "string \<Rightarrow> (nat \<times> string) option" where
  "duration_part s =
     (if s = [] \<or> \<not> number_char (hd s) then None
      else Option.bind (leadingInt 0 s) (\<lambda>(v, s1).
        let (f, scale, s2) = fraction_part s1; post = Suc (length s2) < length s1;
            u = takeWhile (\<lambda>c. \<not> number_char c) s2; rest = dropWhile (\<lambda>c. \<not> number_char c) s2
        in if length s1 = length s \<and> \<not> post then None
           else if u = [] then None
           else (case unitMap u of
                   None \<Rightarrow> None
                 | Some unit_ns \<Rightarrow>
                     if 2 ^ 63 div unit_ns < v then None
                     else
                       (let v' = v * unit_ns + (if 0 < f then fraction_of f unit_ns scale else 0)
                        in if 0 < f \<and> 2 ^ 63 < v' then None else Some (v', rest)))))"

lemma leadingInt_shorter: "leadingInt x s = Some (v, r) \<Longrightarrow> length r \<le> length s"
  by (induction x s rule: leadingInt.induct) (auto split: option.splits if_splits)

lemma leadingFraction_shorter: "leadingFraction ov x scale s = (f, sc, r) \<Longrightarrow> length r \<le> length s"
  by (induction ov x scale s rule: leadingFraction.induct) (auto split: option.splits if_splits)

lemma fraction_part_shorter: "length (snd (snd (fraction_part s))) \<le> length s"
proof (cases s)
  case (Cons c cs)
  obtain f sc r where "leadingFraction False 0 (nat_mag 1) cs = (f, sc, r)" by (metis prod_cases3)
  then show ?thesis using leadingFraction_shorter [of False 0 "nat_mag 1" cs f sc r] Cons by (simp add: fraction_part_def)
qed (simp add: fraction_part_def)

lemma duration_part_shorter: "duration_part s = Some (v, r) \<Longrightarrow> length r < length s"
proof -
  assume part: "duration_part s = Some (v, r)"
  then obtain x s1 where i: "leadingInt 0 s = Some (x, s1)" by (auto simp: duration_part_def split: if_splits bind_splits)
  define s2 where "s2 = snd (snd (fraction_part s1))"
  have u: "takeWhile (\<lambda>c. \<not> number_char c) s2 \<noteq> []" "r = dropWhile (\<lambda>c. \<not> number_char c) s2"
    using part i by (auto simp: duration_part_def s2_def Let_def split_beta split: if_splits option.splits)
  have "length s2 \<le> length s1"
    unfolding s2_def by (rule fraction_part_shorter)
  moreover have "length s2 = length (takeWhile (\<lambda>c. \<not> number_char c) s2) + length r"
    using u(2) by (metis takeWhile_dropWhile_id length_append)
  ultimately show ?thesis using u(1) leadingInt_shorter [OF i] by (cases "takeWhile (\<lambda>c. \<not> number_char c) s2") auto
qed

subsection \<open>The sum\<close>

function duration_sum :: "nat \<Rightarrow> string \<Rightarrow> nat option" where
  "duration_sum d s =
     (if s = [] then Some d
      else (case duration_part s of
              None \<Rightarrow> None
            | Some (v, rest) \<Rightarrow> if 2 ^ 63 < (d + v) mod 2 ^ 64 then None else duration_sum ((d + v) mod 2 ^ 64) rest))"
  by pat_completeness auto

termination
  by (relation "measure (\<lambda>(d, s). length s)") (auto dest: duration_part_shorter)

declare duration_sum.simps [simp del]

definition ParseDuration :: "string \<Rightarrow> int option" where
  "ParseDuration s0 =
     (case split_sign s0 of (neg, s) \<Rightarrow>
        if s = ''0'' then Some 0
        else if s = [] then None
        else Option.bind (duration_sum 0 s) (\<lambda>d.
          if neg then Some (wrap64 (- wrap64 (int d)))
          else if 2 ^ 63 - 1 < d then None else Some (int d)))"

lemma ParseDuration_range: "ParseDuration s = Some d \<Longrightarrow> int64_range d"
proof -
  assume "ParseDuration s = Some d"
  then consider "d = 0" | n where "d = wrap64 (- wrap64 (int n))" | n where "d = int n" "n \<le> 2 ^ 63 - 1"
    by (auto simp: ParseDuration_def split: prod.splits if_splits bind_splits)
  then show ?thesis by cases (simp_all add: int64_range_def [of 0] int64_range_def [of "int _"])
qed

text \<open>A number without a unit is no duration.\<close>

lemma leadingInt_digits:
  "\<forall>c \<in> set s. char_digit c \<noteq> None \<Longrightarrow> leadingInt x s = Some (v, r) \<Longrightarrow> r = []"
  by (induction x s rule: leadingInt.induct) (auto split: if_splits)

lemma duration_needs_unit:
  assumes "\<forall>c \<in> set s. char_digit c \<noteq> None"
  shows "ParseDuration s \<in> {None, Some 0}"
proof -
  have "duration_sum 0 s = None" if s: "s \<noteq> []"
  proof -
    have "duration_part s = None"
    proof (cases "leadingInt 0 s")
      case (Some p)
      then have "leadingInt 0 s = Some (fst p, [])" using leadingInt_digits [OF assms, of 0 "fst p" "snd p"] by (cases p) simp
      then show ?thesis by (simp add: duration_part_def fraction_part_def)
    qed (simp add: duration_part_def)
    then show ?thesis using s by (simp add: duration_sum.simps)
  qed
  moreover have "split_sign s = (False, s)"
    using assms by (cases s) (auto simp: split_sign_def char_digit_def)
  ultimately show ?thesis by (auto simp: ParseDuration_def)
qed

lemma duration_sum_code:
  "duration_sum d [] = Some d"
  "duration_sum d (c # cs) = (case duration_part (c # cs) of
     None \<Rightarrow> None
   | Some (v, rest) \<Rightarrow> if 2 ^ 63 < (d + v) mod 2 ^ 64 then None else duration_sum ((d + v) mod 2 ^ 64) rest)"
  by (simp_all add: duration_sum.simps)

text \<open>Durations and what is none.\<close>

lemma ParseDuration_examples:
  "ParseDuration ''1m30s'' = Some 90000000000"
  "ParseDuration ''-2h'' = Some (- 7200000000000)"
  "ParseDuration ''5'' = None"
  "ParseDuration ''9223372037s'' = None"
  by (simp_all add: ParseDuration_def duration_sum_code duration_part_def fraction_part_def Let_def unitMap_def split_sign_def number_char_def char_digit_def wrap64_def)

end
