(* ===== verification/Startup.thy ===== *)
theory Startup
  imports GoDuration Persistence Multiplexer
begin

text \<open>
  The start of the program (\<open>main.go\<close>): the environment, which \<open>godotenv\<close> may have filled from a file, as a function
  \<open>getenv\<close> (an unset variable is empty), the arguments \<open>argv\<close> of the process, the log and the persistence manager, the
  restoration, and the background loops, each of which makes its ticker when it is scheduled.  \<^term>\<open>None\<close> is a panic, in
  \<open>main\<close> or in a loop: either ends the process.  The multiplexer occurs
  by its methods, as the persistence manager sees it; \<open>open_wal\<close> is the opening of the log file.
\<close>

subsection \<open>The environment\<close>

record EnvStructRaw =
  WALPath :: string
  SnapshotPath :: string
  WALFlushInterval :: string
  SnapshotInterval :: string
  ExpirationCleanupInterval :: string
  MaxSubInstances :: string

record EnvStructParsed =
  parsed_WALPath :: string
  parsed_SnapshotPath :: string
  parsed_WALFlushInterval :: int
  parsed_SnapshotInterval :: int
  parsed_ExpirationCleanupInterval :: int
  parsed_MaxSubInstances :: int

definition unset_error :: "(string \<Rightarrow> string) \<Rightarrow> string \<Rightarrow> goerr list" where
  "unset_error getenv name = (if getenv name = [] then [PlainError (name @ '' is not set'')] else [])"

definition AssertEnv :: "(string \<Rightarrow> string) \<Rightarrow> EnvStructRaw \<times> goerr list" where
  "AssertEnv getenv =
     (\<lparr>WALPath = getenv ''WAL_PATH'', SnapshotPath = getenv ''SNAPSHOT_PATH'', WALFlushInterval = getenv ''WAL_FLUSH_INTERVAL'',
       SnapshotInterval = getenv ''SNAPSHOT_INTERVAL'', ExpirationCleanupInterval = getenv ''EXPIRATION_CLEANUP_INTERVAL'',
       MaxSubInstances = getenv ''MAX_SUB_INSTANCES''\<rparr>,
      unset_error getenv ''WAL_PATH'' @ unset_error getenv ''SNAPSHOT_PATH'' @ unset_error getenv ''WAL_FLUSH_INTERVAL'' @
      unset_error getenv ''SNAPSHOT_INTERVAL'' @ unset_error getenv ''EXPIRATION_CLEANUP_INTERVAL'' @
      unset_error getenv ''MAX_SUB_INSTANCES'')"

text \<open>The errors of the parsers are ignored: a duration is zero then, a number what \<open>Atoi\<close> returns with its error.\<close>

definition interval :: "string \<Rightarrow> int" where
  "interval s = (case ParseDuration s of None \<Rightarrow> 0 | Some d \<Rightarrow> d)"

definition ParseRawEnvStruct :: "EnvStructRaw \<Rightarrow> EnvStructParsed" where
  "ParseRawEnvStruct env =
     \<lparr>parsed_WALPath = WALPath env, parsed_SnapshotPath = SnapshotPath env,
      parsed_WALFlushInterval = interval (WALFlushInterval env), parsed_SnapshotInterval = interval (SnapshotInterval env),
      parsed_ExpirationCleanupInterval = interval (ExpirationCleanupInterval env),
      parsed_MaxSubInstances = fst (ParseInt (MaxSubInstances env))\<rparr>"

definition IdentifyPort :: "string list \<Rightarrow> (string \<Rightarrow> string) \<Rightarrow> string" where
  "IdentifyPort argv getenv =
     '':'' @ (if 1 < length argv then argv ! 1 else if getenv ''PORT'' \<noteq> [] then getenv ''PORT'' else ''6381'')"

subsection \<open>The process\<close>

text \<open>The goroutines that \<open>main\<close> starts; \<open>proc_loops\<close> are those that have their ticker.\<close>

datatype background = FlushLoop | CleanupLoop | SnapshotLoop

record 's Process =
  proc_env :: EnvStructParsed
  proc_port :: string
  proc_loops :: "background list"
  proc_pm :: "'s PersistenceManager"
  proc_state :: 's

definition start_up ::
  "(string \<Rightarrow> string) \<Rightarrow> string list \<Rightarrow> (string \<Rightarrow> goerr + Wal) \<Rightarrow> files \<Rightarrow> (int \<Rightarrow> 's engine_methods \<times> 's delegate \<times> 's) \<Rightarrow>
   's Process option" where
  "start_up getenv argv open_wal fs new_mux =
     (case AssertEnv getenv of (raw, errs) \<Rightarrow>
        if errs \<noteq> [] then None
        else
          (let env = ParseRawEnvStruct raw; port = IdentifyPort argv getenv in
           case open_wal (parsed_WALPath env) of
             Inl err \<Rightarrow> None
           | Inr w \<Rightarrow>
               (let pm0 = NewPersistenceManager (NewBufferedWal w) (Some (NewSnapshot (parsed_SnapshotPath env)));
                    (methods, delegated, mux) = new_mux (parsed_MaxSubInstances env);
                    pm1 = RegisterFallbackEngine delegated (RegisterEngine mux_EngineID methods pm0)
                in do {
                  (err, pm, s) \<leftarrow> Restore [] fs pm1 mux;
                  if err \<noteq> None then None
                  else Some \<lparr>proc_env = env, proc_port = port, proc_loops = [], proc_pm = pm, proc_state = s\<rparr> })))"

text \<open>\<open>time.NewTicker\<close> panics unless its interval is positive.\<close>

definition NewTicker :: "int \<Rightarrow> int option" where
  "NewTicker d = (if 0 < d then Some d else None)"

definition loop_interval :: "background \<Rightarrow> EnvStructParsed \<Rightarrow> int" where
  "loop_interval g env =
     (case g of
        FlushLoop \<Rightarrow> parsed_WALFlushInterval env
      | CleanupLoop \<Rightarrow> parsed_ExpirationCleanupInterval env
      | SnapshotLoop \<Rightarrow> parsed_SnapshotInterval env)"

text \<open>A goroutine is scheduled for the first time.\<close>

definition start_loop :: "background \<Rightarrow> 's Process \<Rightarrow> 's Process option" where
  "start_loop g p = do {
     ticker \<leftarrow> NewTicker (loop_interval g (proc_env p));
     Some (p\<lparr>proc_loops := g # proc_loops p\<rparr>) }"

fun start_loops :: "background list \<Rightarrow> 's Process \<Rightarrow> 's Process option" where
  "start_loops [] p = Some p"
| "start_loops (g # gs) p = do { p' \<leftarrow> start_loop g p; start_loops gs p' }"

text \<open>The start, and the goroutines in the order in which they are scheduled.\<close>

definition run_main ::
  "background list \<Rightarrow> (string \<Rightarrow> string) \<Rightarrow> string list \<Rightarrow> (string \<Rightarrow> goerr + Wal) \<Rightarrow> files \<Rightarrow>
   (int \<Rightarrow> 's engine_methods \<times> 's delegate \<times> 's) \<Rightarrow> 's Process option" where
  "run_main gs getenv argv open_wal fs new_mux = Option.bind (start_up getenv argv open_wal fs new_mux) (start_loops gs)"

text \<open>The ticks of the loops: a flush and a snapshot print their errors, a sweep is the multiplexer's.\<close>

definition flush_tick :: "'s Process \<Rightarrow> 's Process" where
  "flush_tick p = p\<lparr>proc_pm := (proc_pm p)\<lparr>pm_wal := snd (buffered_SyncWal (pm_wal (proc_pm p)))\<rparr>\<rparr>"

definition snapshot_tick :: "(os_call \<Rightarrow> bool) \<Rightarrow> nat option \<Rightarrow> string list \<Rightarrow> 's Process \<times> files \<Rightarrow> 's Process \<times> files" where
  "snapshot_tick fails space order = (\<lambda>(p, fs).
     case pm_SaveSnapshot fails space order (proc_pm p) (proc_state p) fs of
       (err, pm, fs') \<Rightarrow> (p\<lparr>proc_pm := pm\<rparr>, fs'))"

definition sweep_tick :: "('s \<Rightarrow> 's option) \<Rightarrow> 's Process \<Rightarrow> 's Process option" where
  "sweep_tick cleanup p = map_option (\<lambda>s. p\<lparr>proc_state := s\<rparr>) (cleanup (proc_state p))"

text \<open>The deferred call of \<open>main\<close>, when the server returns.\<close>

definition shut_down :: "'s Process \<Rightarrow> 's Process option" where
  "shut_down p =
     (case buffered_CloseWal (pm_wal (proc_pm p)) of
        (Some err, w) \<Rightarrow> None
      | (None, w) \<Rightarrow> Some (p\<lparr>proc_pm := (proc_pm p)\<lparr>pm_wal := w\<rparr>\<rparr>))"

subsection \<open>What starts\<close>

lemma interval_range: "int64_range (interval s)"
  using ParseDuration_range [of s] by (auto simp: interval_def int64_range_def split: option.splits)

lemma ParseInt_range: "int64_range (fst (ParseInt s))"
  by (auto simp: ParseInt_def int64_range_def split: prod.splits sum.splits num_error.splits dest: of_nat_le_iff [THEN iffD2])

lemma started:
  assumes "start_up getenv argv open_wal fs new_mux = Some p"
  shows "snd (AssertEnv getenv) = [] \<and> proc_env p = ParseRawEnvStruct (fst (AssertEnv getenv)) \<and>
    proc_port p = IdentifyPort argv getenv"
  using assms by (auto simp: start_up_def Let_def split: prod.splits sum.splits if_splits bind_splits)

lemma loops_started:
  "start_loops gs p = Some p' \<Longrightarrow> (\<forall>g \<in> set gs. 0 < loop_interval g (proc_env p)) \<and> proc_env p' = proc_env p \<and> proc_port p' = proc_port p \<and>
     proc_loops p' = rev gs @ proc_loops p"
  by (induction gs arbitrary: p) (fastforce simp: start_loop_def NewTicker_def split: bind_splits if_splits)+

lemma main_runs:
  assumes "run_main gs getenv argv open_wal fs new_mux = Some p"
  shows "snd (AssertEnv getenv) = [] \<and> proc_env p = ParseRawEnvStruct (fst (AssertEnv getenv)) \<and>
    proc_port p = IdentifyPort argv getenv \<and> proc_loops p = rev gs @ proc_loops (the (start_up getenv argv open_wal fs new_mux)) \<and>
    (\<forall>g \<in> set gs. 0 < loop_interval g (proc_env p))"
proof -
  obtain y where y: "start_up getenv argv open_wal fs new_mux = Some y" "start_loops gs y = Some p"
    using assms by (auto simp: run_main_def bind_eq_Some_conv)
  show ?thesis using started [OF y(1)] loops_started [OF y(2)] y(1) by simp
qed

lemma unset_error_iff [simp]: "unset_error getenv name = [] \<longleftrightarrow> getenv name \<noteq> []"
  by (simp add: unset_error_def)

end
