(* ===== verification/StartupProps.thy ===== *)
theory StartupProps
  imports Startup PersistenceProps
begin

text \<open>The properties of the start: what the configuration of a running process is, and what keeps one from running.\<close>

text \<open>
  C39.  A process that runs has the types it declares: the intervals of its loops are 64-bit durations, positive for every
  loop that has started, the limit of instances is a 64-bit integer (zero when its text is no number), both paths are
  named, the address begins with a colon.
\<close>

theorem started_config:
  assumes "run_main gs getenv argv open_wal fs new_mux = Some p"
  shows "(\<forall>g. int64_range (loop_interval g (proc_env p)) \<and> (g \<in> set gs \<longrightarrow> 0 < loop_interval g (proc_env p))) \<and>
    int64_range (parsed_MaxSubInstances (proc_env p)) \<and> parsed_WALPath (proc_env p) \<noteq> [] \<and>
    parsed_SnapshotPath (proc_env p) \<noteq> [] \<and> hd (proc_port p) = CHR '':''"
  using main_runs [OF assms] interval_range ParseInt_range
  by (auto simp: AssertEnv_def ParseRawEnvStruct_def IdentifyPort_def loop_interval_def split: background.splits)

definition env_of :: "string \<Rightarrow> string \<Rightarrow> string" where
  "env_of save name =
     (if name = ''WAL_PATH'' then ''w'' else if name = ''SNAPSHOT_PATH'' then ''s'' else if name = ''MAX_SUB_INSTANCES'' then ''8''
      else if name = ''SNAPSHOT_INTERVAL'' then save
      else if name = ''WAL_FLUSH_INTERVAL'' \<or> name = ''EXPIRATION_CLEANUP_INTERVAL'' then ''1s'' else [])"

definition one_engine :: "int \<Rightarrow> Storage engine_methods \<times> Storage delegate \<times> Storage" where
  "one_engine n = (kv_methods 0 [], (\<lambda>i a args s. None), new_engine)"

lemma one_second: "interval ''1s'' = 1000000000"
  by (simp add: interval_def ParseDuration_def duration_sum_code duration_part_def fraction_part_def Let_def unitMap_def split_sign_def
    number_char_def char_digit_def)

lemma starts: "\<exists>p. run_main [CleanupLoop, FlushLoop, SnapshotLoop] (env_of ''1s'') [''m''] (\<lambda>path. Inr (NewWal path [] [])) Map.empty one_engine = Some p"
  by (simp add: run_main_def start_loop_def loop_interval_def NewTicker_def start_up_def AssertEnv_def env_of_def ParseRawEnvStruct_def one_second one_engine_def Restore_def
    NewPersistenceManager_def NewBufferedWal_def NewWal_def NewSnapshot_def Load_def replay_wal_def buffered_RecoverFromWal_def
    buffered_SyncWal_def ExportToWal_def RecoverFromWal_def RegisterEngine_def RegisterFallbackEngine_def Let_def)

lemma started_config_witness:
  "\<exists>p. run_main [CleanupLoop, FlushLoop, SnapshotLoop] (env_of ''1s'') [''m''] (\<lambda>path. Inr (NewWal path [] [])) Map.empty one_engine = Some p \<and>
    0 < loop_interval SnapshotLoop (proc_env p) \<and> int64_range (parsed_MaxSubInstances (proc_env p)) \<and> hd (proc_port p) = CHR '':''"
proof -
  obtain p where p: "run_main [CleanupLoop, FlushLoop, SnapshotLoop] (env_of ''1s'') [''m''] (\<lambda>path. Inr (NewWal path [] [])) Map.empty one_engine = Some p"
    using starts by blast
  show ?thesis using started_config [OF p] p by auto
qed

text \<open>The variable that holds the interval of a loop.\<close>

definition loop_variable :: "background \<Rightarrow> string" where
  "loop_variable g =
     (case g of FlushLoop \<Rightarrow> ''WAL_FLUSH_INTERVAL'' | CleanupLoop \<Rightarrow> ''EXPIRATION_CLEANUP_INTERVAL'' | SnapshotLoop \<Rightarrow> ''SNAPSHOT_INTERVAL'')"

text \<open>
  C40.  An interval without a unit, as in \<open>SNAPSHOT_INTERVAL=60\<close>, passes the check of the environment and makes the process
  panic as soon as the loop it is for is scheduled, whatever else is configured, restored and scheduled.
\<close>

theorem unitless_interval_panics:
  assumes "\<And>name. name \<in> {''WAL_PATH'', ''SNAPSHOT_PATH'', ''WAL_FLUSH_INTERVAL'', ''SNAPSHOT_INTERVAL'',
      ''EXPIRATION_CLEANUP_INTERVAL'', ''MAX_SUB_INSTANCES''} \<Longrightarrow> getenv name \<noteq> []"
    and "g \<in> set gs" "\<forall>c \<in> set (getenv (loop_variable g)). char_digit c \<noteq> None"
  shows "snd (AssertEnv getenv) = [] \<and> run_main gs getenv argv open_wal fs new_mux = None"
proof -
  have "interval (getenv (loop_variable g)) = 0" using duration_needs_unit [OF assms(3)] by (auto simp: interval_def)
  then have "loop_interval g (ParseRawEnvStruct (fst (AssertEnv getenv))) = 0"
    by (cases g) (simp_all add: loop_interval_def loop_variable_def ParseRawEnvStruct_def AssertEnv_def)
  then have "run_main gs getenv argv open_wal fs new_mux = None"
    using assms(2) main_runs [of gs getenv argv open_wal fs new_mux]
    by (cases "run_main gs getenv argv open_wal fs new_mux") auto
  then show ?thesis using assms(1) by (simp add: AssertEnv_def)
qed

lemma unitless_interval_panics_witness:
  "snd (AssertEnv (env_of ''60'')) = [] \<and>
    run_main [FlushLoop, SnapshotLoop] (env_of ''60'') [''m''] (\<lambda>path. Inr (NewWal path [] [])) Map.empty one_engine = None"
  by (rule unitless_interval_panics [where g = SnapshotLoop]) (auto simp: env_of_def loop_variable_def char_digit_def)

end
