(* ===== verification/Spec2Isabelle.thy ===== *)
theory Spec2Isabelle
  imports KvProps ListRecovery SetProps SnapshotProps PersistenceProps LogProps ZSetSnapshot MuxSnapshot SessionProps TxProps TxLog StartupProps
begin

text \<open>
  A model of gomembase, an in-memory data store with a log, snapshots, transactions and publish/subscribe, and the
  theorems that make it correct, or that show where it is not.

  The program.  A client sends one JSON request per line over a connection (\<open>pkg/server\<close>).  The server answers
  publish/subscribe requests from its hub (\<open>pkg/pubsub\<close>), queues requests between MULTI and EXEC in a transaction
  builder, and hands everything else to the multiplexer (\<open>pkg/multiplexer\<close>), which keeps any number of instances of four
  storage engines by UUID: strings (\<open>pkg/storage\<close>), lists, sets and sorted sets (\<open>pkg/list_storage\<close>,
  \<open>pkg/set_storage\<close>, \<open>pkg/zset_storage\<close>).  Every engine has a map of its values, a heap of their expirations and a
  logger.  Its log entries go through the multiplexer's loggers, which add the instance or hold them back until a
  transaction commits, to the persistence manager (\<open>pkg/persistence\<close>): a buffered write-ahead log (\<open>pkg/wal\<close>) and snapshots
  (\<open>pkg/snapshot\<close>).  A start reads the snapshot and replays the log.

  The theories, in the order of the components.

  \<^item> \<open>Prelude\<close>, \<open>GoErrors\<close>, \<open>Interfaces\<close>: types, collections of rewrite rules, generic lemmas; the error values and
    \<open>pkg/errors\<close>; the interfaces between components as locales (\<open>expiry_queue\<close>: what an engine needs of its heap;
    \<open>wal_logger\<close>, \<open>reliable_logger\<close>, \<open>durable_log\<close>: what it needs of its logger; \<open>value_codec\<close> in \<open>SnapshotCodec\<close>;
    \<open>undoable\<close> in \<open>Transactions\<close>: what a transaction needs of
    its operations).  Each is interpreted on the definitions of the model, in the theory of its provider.
  \<^item> \<open>GoEncoding\<close>, \<open>GoTime\<close>, \<open>GoFloat\<close>, \<open>GoFloatText\<close>, \<open>GoJson\<close>, \<open>GoPath\<close>, \<open>GoDuration\<close>: what the program uses of
    Go's library, written out: decimal and base64 text, RFC 3339 instants, IEEE 754 comparison, addition and their
    decimal text, JSON strings and numbers and which byte strings are JSON texts, \<open>path.Match\<close>, \<open>time.ParseDuration\<close>.
  \<^item> \<open>ExpirationHeap\<close> (\<open>heap.go\<close> with \<open>container/heap\<close>, on an arena of entries with their indices) and \<open>Engine\<close>
    (what the engines share: deletion, eviction, \<open>CleanupExpired\<close>, \<open>Clear\<close>).
  \<^item> \<open>KvStorage\<close>, \<open>ListStorage\<close>, \<open>SetStorage\<close>, \<open>ZSetStorage\<close>: one definition per function of the source, under its
    name (\<open>sRemNoLockAndNoWal\<close>) or, where the packages share a name, with a prefix (\<open>kv_Get\<close>, \<open>list_Get\<close>).
    \<open>SkipList\<close> is \<open>skiplist.go\<close>: nodes in an arena, indices for pointers, 64-bit spans.
    \<open>KvSpec\<close>, \<open>ListSpec\<close>, \<open>SetSpec\<close>, \<open>ZSetSpec\<close>, \<open>SkipListSpec\<close> give each engine's operations as one datatype, its view
    (a map without the expired keys) and its specification on views; \<open>KvRefine\<close>, \<open>ListRefine\<close>, \<open>SetRefine\<close>, \<open>ZSetLists\<close>,
    \<open>ZSetLoops\<close>, \<open>ZSetRefine\<close>, \<open>ZSetMeets\<close>, \<open>SkipListInv\<close>, \<open>SkipListOps\<close>, \<open>SkipListDel\<close>, \<open>SkipListRank\<close> prove that the
    code meets it; \<open>KvProps\<close>, \<open>ListProps\<close>, \<open>ListRecovery\<close>, \<open>SetProps\<close>, \<open>ZSetProps\<close> hold the properties.
  \<^item> \<open>SnapshotCodec\<close>, \<open>Snapshots\<close>, \<open>SnapshotProps\<close>, \<open>ZSetSnapshot\<close>: the binary format, \<open>SerializeState\<close> and
    \<open>DeserializeState\<close> of the engines, the file of the sections and its replacement by a rename.
  \<^item> \<open>Wal\<close>, \<open>Persistence\<close>, \<open>PersistenceProps\<close>, \<open>LogProps\<close>: the log file and its buffer, log lines, the two passes of
    \<open>Restore\<close>, \<open>SaveSnapshot\<close>; recovery after a clean stop, after a crash, after a failed write.
  \<^item> \<open>Transactions\<close>: \<open>pkg/transaction\<close> and the loggers \<open>TxWalLogger\<close> and \<open>ScopedLogger\<close> of the multiplexer.
  \<^item> \<open>Protocol\<close>, \<open>Multiplexer\<close>, \<open>MuxPersistence\<close>: requests and answers, the instances, what the persistence
    manager calls of the multiplexer; \<open>MuxSnapshot\<close>: its snapshot of all instances is read back.  \<open>RouterBase\<close>,
    \<open>RouterKv\<close>, \<open>RouterList\<close>, \<open>RouterSet\<close>, \<open>RouterZSet\<close>, \<open>Router\<close>: one definition per method of \<open>router.go\<close>.
    \<open>RouterSpec\<close> reads a request as an operation of an engine, \<open>RouterProps\<close> lifts the properties of the engines to
    requests.
  \<^item> \<open>TxBuilder\<close>, \<open>TxUndo\<close>, \<open>TxProps\<close>: \<open>tx_builder.go\<close>, what each operation and its undo do to the values, and
    atomicity. \<open>Parametric\<close>, \<open>ParametricTx\<close>: no operation looks into the state of its logger, stated as relations for
    the transfer method. \<open>TxLog\<close> concludes that a transaction logs what its operations log, as one block or not at all.
  \<^item> \<open>PubSub\<close>, \<open>Sessions\<close>, \<open>SessionProps\<close>: the hub, the connections and the steps of the server.
  \<^item> \<open>Startup\<close>, \<open>StartupProps\<close>: \<open>main.go\<close> up to the restoration (\<open>start_up\<close>), its background loops, whose goroutines
    are scheduled in any order (\<open>run_main\<close>; the flush loop may in fact come before the restoration is over, which makes
    no difference to whether it panics), their ticks and the shut-down.
\<close>

text \<open>
  How the code is read.

  \<^item> Data.  A string and a byte slice are a \<^typ>\<open>char list\<close>; an instant is an \<^typ>\<open>int\<close>, nanoseconds since
    1970 in UTC; Go's \<open>int\<close> is an \<^typ>\<open>int\<close> with its wrap-around (\<open>wrap64\<close>) written out wherever the code computes
    with a number that a client chose; ranks and spans of the skip list are 64-bit words; a \<open>float64\<close> is its 64 bits.
    Lengths of what fits into memory are taken to be below \<open>2 ^ 63\<close>.  A map of the code is a HOL map with a finite
    domain as part of the invariants.
  \<^item> Results.  Every operation is a function of its state, total in HOL.  \<^const>\<open>None\<close> is a panic, or a loop
    that does not end; the theorems that speak of termination or of the absence of panics say that the result is
    \<^const>\<open>Some\<close>.  An error is a value of \<open>goerr\<close>, and an operation that fails still returns the state it leaves.
    Loops are recursions on their lists; the loops of the skip list and the heap that follow pointers take fuel that the
    arena bounds (a strictly forward pointer in every step), and the invariants show it is enough.
  \<^item> Choices.  What Go leaves open is an argument: the clock of an operation, the orders in which maps are walked,
    the batch of a clean-up, the random numbers and coin flips, the bytes of a new UUID, \<open>regexp.Compile\<close>.  The record
    \<open>env\<close> holds those of a request (\<open>env_now\<close> is its clock, \<open>env_later\<close> the second reading of the operations that make
    two), \<open>choices\<close> those of a line of a connection.  The properties hold for all of them, within the stated hypotheses
    (an order lists each key once; a UUID is fresh).
  \<^item> Concurrency.  What runs under one mutex is one step with one reading of the clock, where the code reads it
    anew for every key it looks at.  SINTERSTORE, SUNIONSTORE and SDIFFSTORE take the mutex twice, to compute the answer
    and to store: the second part has a reading of its own, any instant; no other operation of the engine comes in
    between.  For \<open>Get\<close> of an expired key and for \<open>SaveSnapshot\<close> the parts are separate definitions and the theorems
    interleave them.  The server is a step relation (\<open>server_step\<close>): a line of a connection, one argument of a line of
    subscriptions, an answer put into the buffer of its connection (a blocking send, so the connection waits), a writer
    taking a frame from a buffer, a new connection, one that leaves, the stop.  The sends of one publication are one
    step, under the hub's lock.
  \<^item> Effects.  The logger of an engine is a function on a state of any type, so the same definitions run with a
    logger that fails, that holds back, or that writes.  A disk is the bytes of its files; the calls that may fail
    follow a list of faults.

  What the properties show.  The engines implement their specifications operation by operation and never panic within
  the stated bounds, except for the panics proved here: the recovery of lists and of SINTERSTORE, and, as an
  equivalence, SRANDMEMBER with a count that cannot be allocated and SINTERSTORE of keys that all run out between its
  two readings of the clock.  The storing set operations answer the size of what they store if the destination is not
  among the sources (\<open>store_into_source\<close> in \<open>SetProps\<close> shows what happens if it is).  The skip list is an ordered list
  with ranks.  Snapshots are read back as written and the file is replaced as a whole or not at all; a clean restart
  recovers every live key if no line of the log is longer than the recovery can read; a crash leaves a committed
  transaction whole or absent.  The properties of kind error, and some of the others, are the exceptions: values that a
  restart brings back or loses, log lines the recovery cannot read, scores that are not numbers, races between a read
  and a write.  Requests are answered, touch only their instance and respect the limit on instances; the hub and the
  connections agree in every reachable state; the answer of PUBLISH is at least the number of connections that were sent
  the message, and is that number if no one is interested twice and every buffer has room.  A transaction of the
  requests that \<open>undoable_request\<close> lists (those of a single key, or writing nothing but their destination, that
  \<open>tx_builder.go\<close> can undo) is all or nothing for the values; INCRBY and DECRBY, MSET, RPOPLPUSH, SMOVE, the requests by
  pattern and those to sorted sets are outside of it.

  Not modelled.  The capacities of slices in the estimates of memory, which the language leaves open, and the numbers of
  the Go runtime: they are arguments of \<open>GetInfo\<close>.  \<open>strconv.Quote\<close>, an argument of the texts of the errors; an answer
  holds the error and not its text.  How \<open>encoding/json\<close> reads a request line and lays out an answer: the server's steps
  take the decoded request, or the error, and frames hold answers and messages as values; which of them \<open>json.Marshal\<close>
  refuses is modelled.  Sockets, goroutines, the accepting loop of the listener and its errors, \<open>godotenv\<close>.  Durability
  below the rename and the write calls (the order in which a disk makes them permanent).
\<close>

end
